(* ===== verification/Prelude.thy ===== *)
theory Prelude
  imports Complex_Main "HOL-Library.AList"
begin

text \<open>
  Shared vocabulary of the development: the errors the kernel raises, results as sums, folds
  that stop at the first error, and the insertion-ordered \<open>Map\<close> of JavaScript as an
  association list. The collections \<open>result_simps\<close> and \<open>jsmap_simps\<close> carry the component
  proofs.
\<close>

named_theorems result_simps "unfolding rules of the result monad"
named_theorems jsmap_simps "lookup-after-update rules of the JavaScript map"

section \<open>Errors and results\<close>

text \<open>
  The typed errors of \<open>l0/errors.ts\<close> that the modelled code throws, with the data a caller can
  branch on; the message texts are not kept, but for the two refusals of the effect lane whose text
  is journaled. \<open>TypeError\<close> is the error JavaScript itself raises
  when a property of \<open>null\<close> is read.
\<close>

datatype lane_rule =
    Restoration_generation_stale
  | Verdict_refused string
  | Append_contention string
  | Operation_id_collision
  | Intent_folded_void
  | Intake_no_such_approval
  | Approval_deadline_required
  | Intake_key_mismatch
  | Intake_approval_expired
  | Reconciliation_pending
  | Machine_closed
  | Reconcile_only
  | Attempts_exhausted
  | Lookups_exhausted
  | Terminal_invalid
  | Intent_not_consumed

datatype budget_refusal =
    Spawn_cap
  | Account_full string
  | Turn_ceiling string
  | In_flight_exposure

datatype plan_fault =
    Unknown_node string
  | Unknown_spec string
  | Terminal_node string
  | Restated_status string
  | Not_ready string
  | Stale_from string
  | Malformed_payload
  | Head_mismatch

datatype rulvar_error =
    GenericError
  | TypeError
  | ConfigError
  | NonSerializableValueError
  | JournalOrderViolation nat
  | JournalMissError
  | JournalSealedError
  | JournalIntegrityError
  | JournalCompatibilityError bool nat nat
  | PlanInvariantError nat
  | PlanInvariant plan_fault
  | ReplayPlanHashMismatch nat
  | LeaseHeldError
  | StoreFailure
  | EffectLaneRefused lane_rule
  | BudgetExhaustedError budget_refusal

type_synonym 'a result = "rulvar_error + 'a"

definition bindR :: "'a result \<Rightarrow> ('a \<Rightarrow> 'b result) \<Rightarrow> 'b result" where
  "bindR m f = (case m of Inl e \<Rightarrow> Inl e | Inr a \<Rightarrow> f a)"

lemma bindR_simps [simp, result_simps]:
  "bindR (Inl e) f = Inl e"
  "bindR (Inr a) f = f a"
  by (simp_all add: bindR_def)

lemma bindR_eq_Inr [result_simps]:
  "bindR m f = Inr b \<longleftrightarrow> (\<exists>a. m = Inr a \<and> f a = Inr b)"
  by (cases m) auto

lemma bindR_assoc: "bindR (bindR m f) g = bindR m (\<lambda>a. bindR (f a) g)"
  by (cases m) auto

text \<open>A loop whose body may throw: it stops at the first error, as the exception would.\<close>

fun foldR :: "('s \<Rightarrow> 'a \<Rightarrow> 's result) \<Rightarrow> 's \<Rightarrow> 'a list \<Rightarrow> 's result" where
  "foldR f s [] = Inr s"
| "foldR f s (x # xs) = bindR (f s x) (\<lambda>s'. foldR f s' xs)"

lemma foldR_append [result_simps]:
  "foldR f s (xs @ ys) = bindR (foldR f s xs) (\<lambda>s'. foldR f s' ys)"
  by (induction xs arbitrary: s) (simp_all add: bindR_assoc)

lemma foldR_snoc: "foldR f s (xs @ [x]) = bindR (foldR f s xs) (\<lambda>s'. f s' x)"
proof -
  have "bindR (f s' x) Inr = f s' x" for s'
    by (cases "f s' x") simp_all
  then show ?thesis
    by (simp add: foldR_append)
qed

text \<open>An invariant of the body is an invariant of the loop.\<close>

lemma foldR_invariant:
  assumes "foldR f s xs = Inr s'"
    and "P s"
    and "\<And>t x t'. x \<in> set xs \<Longrightarrow> P t \<Longrightarrow> f t x = Inr t' \<Longrightarrow> P t'"
  shows "P s'"
  using assms
proof (induction xs arbitrary: s)
  case Nil
  then show ?case by simp
next
  case (Cons x xs)
  from Cons.prems(1) obtain t where t: "f s x = Inr t" "foldR f t xs = Inr s'"
    by (auto simp: result_simps)
  moreover have "P t" using Cons.prems(2,3) t(1) by auto
  ultimately show ?case using Cons.prems(3) by (auto intro: Cons.IH)
qed

text \<open>The same for a relation between the states before and after the loop.\<close>

lemma foldR_rel:
  assumes "foldR f s xs = Inr s'"
    and "\<And>t. R t t"
    and "\<And>t u v. R t u \<Longrightarrow> R u v \<Longrightarrow> R t v"
    and "\<And>t x t'. x \<in> set xs \<Longrightarrow> f t x = Inr t' \<Longrightarrow> R t t'"
  shows "R s s'"
  using assms(1)
proof (rule foldR_invariant [where P = "R s"])
  show "R s s" by (rule assms(2))
  show "R s t'" if "x \<in> set xs" "R s t" "f t x = Inr t'" for t x t'
    using assms(3,4) that by blast
qed

lemma foldR_map: "foldR f s (map g xs) = foldR (\<lambda>s x. f s (g x)) s xs"
  by (induction xs arbitrary: s) auto

lemma foldR_concat_map: "foldR f s (concat (map g xs)) = foldR (\<lambda>s x. foldR f s (g x)) s xs"
  by (induction xs arbitrary: s) (simp_all add: foldR_append)

lemma foldR_single: "foldR f s [x] = f s x"
  by (cases "f s x") simp_all

text \<open>A loop that stops does so at the first body that throws.\<close>

lemma foldR_first_error:
  "foldR f s xs = Inl err \<Longrightarrow> \<exists>ys x zs s'. xs = ys @ x # zs \<and> foldR f s ys = Inr s' \<and> f s' x = Inl err"
proof (induction xs arbitrary: s)
  case (Cons x xs)
  show ?case
  proof (cases "f s x")
    case (Inl e)
    then have "x # xs = [] @ x # xs \<and> foldR f s [] = Inr s \<and> f s x = Inl err" using Cons.prems by simp
    then show ?thesis by blast
  next
    case (Inr s1)
    then obtain ys y zs s' where "xs = ys @ y # zs" "foldR f s1 ys = Inr s'" "f s' y = Inl err"
      using Cons by force
    then have "x # xs = (x # ys) @ y # zs \<and> foldR f s (x # ys) = Inr s' \<and> f s' y = Inl err" using Inr by simp
    then show ?thesis by blast
  qed
qed simp

text \<open>Two loops whose bodies simulate each other throw together and end in related states.\<close>

lemma foldR_simulation:
  assumes "R s t"
    and "\<And>s t x. x \<in> set xs \<Longrightarrow> R s t \<Longrightarrow> rel_sum (=) R (f s x) (g t x)"
  shows "rel_sum (=) R (foldR f s xs) (foldR g t xs)"
  using assms
proof (induction xs arbitrary: s t)
  case Nil
  then show ?case by simp
next
  case (Cons x xs)
  have step: "rel_sum (=) R (f s x) (g t x)" using Cons.prems by simp
  have rest: "rel_sum (=) R (foldR f s' xs) (foldR g t' xs)" if "R s' t'" for s' t'
    using that Cons.prems(2) by (intro Cons.IH) simp_all
  from step rest show ?case
    by (cases "f s x"; cases "g t x") (simp_all add: rel_sum.simps)
qed

section \<open>Insertion-ordered maps\<close>

text \<open>
  \<open>Map.prototype.set\<close> overwrites the value of a present key in place and appends a new key at
  the end; iteration follows the order of first insertion.
\<close>

type_synonym ('k, 'v) jsmap = "('k \<times> 'v) list"

definition jm_get :: "('k, 'v) jsmap \<Rightarrow> 'k \<Rightarrow> 'v option" where
  "jm_get m k = map_of m k"

definition jm_set :: "'k \<Rightarrow> 'v \<Rightarrow> ('k, 'v) jsmap \<Rightarrow> ('k, 'v) jsmap" where
  "jm_set k v m = AList.update k v m"

definition jm_has :: "('k, 'v) jsmap \<Rightarrow> 'k \<Rightarrow> bool" where
  "jm_has m k \<longleftrightarrow> jm_get m k \<noteq> None"

definition jm_delete :: "'k \<Rightarrow> ('k, 'v) jsmap \<Rightarrow> ('k, 'v) jsmap" where
  "jm_delete k m = filter (\<lambda>p. fst p \<noteq> k) m"

abbreviation jm_keys :: "('k, 'v) jsmap \<Rightarrow> 'k list" where
  "jm_keys m \<equiv> map fst m"

abbreviation jm_values :: "('k, 'v) jsmap \<Rightarrow> 'v list" where
  "jm_values m \<equiv> map snd m"

definition jm_wf :: "('k, 'v) jsmap \<Rightarrow> bool" where
  "jm_wf m \<longleftrightarrow> distinct (jm_keys m)"

lemma jm_get_Nil [simp, jsmap_simps]: "jm_get [] k = None"
  by (simp add: jm_get_def)

lemma jm_get_Cons [simp]: "jm_get ((k', v) # m) k = (if k' = k then Some v else jm_get m k)"
  by (simp add: jm_get_def)

lemma jm_set_code [simp]:
  "jm_set k v [] = [(k, v)]"
  "jm_set k v ((k', v') # m) = (if k = k' then (k, v) # m else (k', v') # jm_set k v m)"
  by (auto simp: jm_set_def)

lemma jm_get_set [jsmap_simps]: "jm_get (jm_set k v m) k' = (if k' = k then Some v else jm_get m k')"
  by (auto simp: jm_get_def jm_set_def update_conv')

lemma jm_get_set_same [simp]: "jm_get (jm_set k v m) k = Some v"
  by (simp add: jm_get_set)

lemma jm_get_set_other [simp]: "k' \<noteq> k \<Longrightarrow> jm_get (jm_set k v m) k' = jm_get m k'"
  by (simp add: jm_get_set)

lemma jm_has_set [jsmap_simps]: "jm_has (jm_set k v m) k' \<longleftrightarrow> k' = k \<or> jm_has m k'"
  by (auto simp: jm_has_def jm_get_set)

lemma jm_get_delete [jsmap_simps]:
  "jm_get (jm_delete k m) k' = (if k' = k then None else jm_get m k')"
  by (induction m) (auto simp: jm_delete_def)

lemma jm_keys_set [jsmap_simps]:
  "jm_keys (jm_set k v m) = (if k \<in> set (jm_keys m) then jm_keys m else jm_keys m @ [k])"
  by (simp add: jm_set_def update_keys)

lemma jm_has_keys: "jm_has m k \<longleftrightarrow> k \<in> set (jm_keys m)"
  by (auto simp: jm_has_def jm_get_def map_of_eq_None_iff)

lemma jm_get_None_keys: "jm_get m k = None \<longleftrightarrow> k \<notin> set (jm_keys m)"
  by (auto simp: jm_get_def map_of_eq_None_iff)

lemma jm_wf_empty [simp, intro]: "jm_wf []"
  by (simp add: jm_wf_def)

lemma jm_wf_set [simp, intro]: "jm_wf m \<Longrightarrow> jm_wf (jm_set k v m)"
  by (simp add: jm_wf_def jm_set_def distinct_update)

lemma jm_wf_delete [simp, intro]: "jm_wf m \<Longrightarrow> jm_wf (jm_delete k m)"
  unfolding jm_wf_def jm_delete_def by (induction m) auto

lemma jm_get_in: "jm_get m k = Some v \<Longrightarrow> (k, v) \<in> set m"
  by (simp add: jm_get_def map_of_SomeD)

lemma jm_in_get: "jm_wf m \<Longrightarrow> (k, v) \<in> set m \<Longrightarrow> jm_get m k = Some v"
  by (simp add: jm_get_def jm_wf_def)

lemma jm_get_map_values: "jm_get (map (\<lambda>(k, v). (k, f k v)) m) k = map_option (f k) (jm_get m k)"
  by (induction m) auto

lemma jm_set_append_new: "k \<notin> set (jm_keys m) \<Longrightarrow> jm_set k v m = m @ [(k, v)]"
  by (induction m) auto

text \<open>
  The contract of such a map: \<open>set\<close> is visible to \<open>get\<close>, keeps every other key, and keeps the
  keys already present in place. What a client derives from it is proved once in the locale.
\<close>

locale ordered_map =
  fixes get :: "'m \<Rightarrow> 'k \<Rightarrow> 'v option"
    and put :: "'k \<Rightarrow> 'v \<Rightarrow> 'm \<Rightarrow> 'm"
    and order_of :: "'m \<Rightarrow> 'k list"
  assumes get_put: "get (put k v m) k' = (if k' = k then Some v else get m k')"
    and get_order: "get m k \<noteq> None \<longleftrightarrow> k \<in> set (order_of m)"
    and order_put: "order_of (put k v m) =
      (if k \<in> set (order_of m) then order_of m else order_of m @ [k])"
begin

definition put_all :: "('k \<times> 'v) list \<Rightarrow> 'm \<Rightarrow> 'm" where
  "put_all kvs m = foldl (\<lambda>acc (k, v). put k v acc) m kvs"

lemma put_all_snoc: "put_all (kvs @ [(k, v)]) m = put k v (put_all kvs m)"
  by (simp add: put_all_def)

lemma get_put_all: "get (put_all kvs m) k = (case map_of (rev kvs) k of Some v \<Rightarrow> Some v | None \<Rightarrow> get m k)"
proof (induction kvs rule: rev_induct)
  case Nil
  then show ?case by (simp add: put_all_def)
next
  case (snoc kv kvs)
  obtain k' v' where kv: "kv = (k', v')" by (cases kv)
  with snoc show ?case by (simp add: put_all_snoc get_put)
qed

lemma distinct_put_all: "distinct (order_of m) \<Longrightarrow> distinct (order_of (put_all kvs m))"
proof (induction kvs rule: rev_induct)
  case Nil
  then show ?case by (simp add: put_all_def)
next
  case (snoc kv kvs)
  then show ?case by (cases kv) (simp add: put_all_snoc order_put)
qed

end

interpretation jsm: ordered_map jm_get jm_set jm_keys
proof
  fix k k' :: 'a and v :: 'b and m :: "('a, 'b) jsmap"
  show "jm_get (jm_set k v m) k' = (if k' = k then Some v else jm_get m k')"
    by (rule jm_get_set)
  show "jm_get m k \<noteq> None \<longleftrightarrow> k \<in> set (jm_keys m)"
    by (simp add: jm_get_None_keys)
  show "jm_keys (jm_set k v m) = (if k \<in> set (jm_keys m) then jm_keys m else jm_keys m @ [k])"
    by (rule jm_keys_set)
qed

section \<open>Lists\<close>

text \<open>\<open>Array.prototype.find\<close> is \<open>List.find\<close>; these are the two facts the folds use of it.\<close>

lemma find_Some_in: "List.find P xs = Some x \<Longrightarrow> x \<in> set xs \<and> P x"
  by (auto simp: find_Some_iff)

lemma find_None_all: "List.find P xs = None \<longleftrightarrow> (\<forall>x\<in>set xs. \<not> P x)"
  by (induction xs) auto

lemma find_unique:
  "distinct (map f xs) \<Longrightarrow> x \<in> set xs \<Longrightarrow> List.find (\<lambda>y. f y = f x) xs = Some x"
  by (induction xs) (auto simp: image_iff)

end
