(* ===== verification/JsNumber.thy ===== *)
theory JsNumber
  imports Prelude
begin

text \<open>
  Numbers of JavaScript: \<open>NaN\<close>, the two infinities and finite values. Finite values are exact
  rationals: the rounding of IEEE doubles is not modelled, their overflow to infinity is (at
  \<open>2 ^ 1024 - 2 ^ 970\<close>, the point from which the nearest double is infinite), and so are the
  comparisons, in which \<open>NaN\<close> is related to nothing. Integers up to
  \<open>Number.MAX_SAFE_INTEGER\<close> are exact in the language too, so the token arithmetic below is
  the code's own wherever sums stay in that range. The sign of zero is not kept.
\<close>

datatype js_number = NaN | PInf | NInf | Num rat

definition double_overflow :: rat where
  "double_overflow = 2 ^ 1024 - 2 ^ 970"

definition js_of_rat :: "rat \<Rightarrow> js_number" where
  "js_of_rat x = (if double_overflow \<le> x then PInf else if x \<le> - double_overflow then NInf else Num x)"

definition max_safe_integer :: rat where
  "max_safe_integer = 9007199254740991"

fun js_isFinite :: "js_number \<Rightarrow> bool" where
  "js_isFinite (Num _) = True"
| "js_isFinite _ = False"

fun js_isInteger :: "js_number \<Rightarrow> bool" where
  "js_isInteger (Num x) \<longleftrightarrow> of_int \<lfloor>x\<rfloor> = x"
| "js_isInteger _ = False"

fun js_isSafeInteger :: "js_number \<Rightarrow> bool" where
  "js_isSafeInteger (Num x) \<longleftrightarrow> of_int \<lfloor>x\<rfloor> = x \<and> \<bar>x\<bar> \<le> max_safe_integer"
| "js_isSafeInteger _ = False"

text \<open>\<open>===\<close> on numbers.\<close>

definition js_eq :: "js_number \<Rightarrow> js_number \<Rightarrow> bool" where
  "js_eq a b \<longleftrightarrow> a \<noteq> NaN \<and> a = b"

instantiation js_number :: "{zero, plus, minus, ord}"
begin

definition zero_js_number :: js_number where
  "0 = Num 0"

fun plus_js_number :: "js_number \<Rightarrow> js_number \<Rightarrow> js_number" where
  "Num a + Num b = js_of_rat (a + b)"
| "NaN + _ = NaN"
| "_ + NaN = NaN"
| "PInf + NInf = NaN"
| "NInf + PInf = NaN"
| "PInf + _ = PInf"
| "_ + PInf = PInf"
| "NInf + _ = NInf"
| "_ + NInf = NInf"

fun js_neg :: "js_number \<Rightarrow> js_number" where
  "js_neg (Num a) = Num (- a)"
| "js_neg NaN = NaN"
| "js_neg PInf = NInf"
| "js_neg NInf = PInf"

definition minus_js_number :: "js_number \<Rightarrow> js_number \<Rightarrow> js_number" where
  "a - b = a + js_neg b"

fun less_js_number :: "js_number \<Rightarrow> js_number \<Rightarrow> bool" where
  "Num a < Num b \<longleftrightarrow> a < b"
| "NaN < _ \<longleftrightarrow> False"
| "_ < NaN \<longleftrightarrow> False"
| "PInf < _ \<longleftrightarrow> False"
| "_ < PInf \<longleftrightarrow> True"
| "_ < NInf \<longleftrightarrow> False"
| "NInf < _ \<longleftrightarrow> True"

definition less_eq_js_number :: "js_number \<Rightarrow> js_number \<Rightarrow> bool" where
  "a \<le> b \<longleftrightarrow> a < b \<or> js_eq a b"

instance ..

end

text \<open>Products and quotients; a zero divisor counts as positive.\<close>

fun js_sign :: "js_number \<Rightarrow> rat" where
  "js_sign (Num x) = sgn x"
| "js_sign PInf = 1"
| "js_sign NInf = - 1"
| "js_sign NaN = 0"

definition signed_inf :: "rat \<Rightarrow> js_number" where
  "signed_inf s = (if s > 0 then PInf else if s < 0 then NInf else NaN)"

instantiation js_number :: times
begin

definition times_js_number :: "js_number \<Rightarrow> js_number \<Rightarrow> js_number" where
  "a * b = (case (a, b) of
      (Num x, Num y) \<Rightarrow> js_of_rat (x * y)
    | _ \<Rightarrow> if a = NaN \<or> b = NaN then NaN else signed_inf (js_sign a * js_sign b))"

instance ..

end

definition js_div :: "js_number \<Rightarrow> js_number \<Rightarrow> js_number" where
  "js_div a b =
     (if a = NaN \<or> b = NaN then NaN
      else (case (a, b) of
          (Num x, Num y) \<Rightarrow> if y = 0 then signed_inf (sgn x) else js_of_rat (x / y)
        | (Num x, _) \<Rightarrow> Num 0
        | (_, Num y) \<Rightarrow> if y < 0 then js_neg a else a
        | _ \<Rightarrow> NaN))"

text \<open>\<open>Math.floor\<close>, \<open>Math.abs\<close>, \<open>Math.ceil\<close>, \<open>Math.min\<close> and \<open>Math.max\<close>.\<close>

fun js_floor :: "js_number \<Rightarrow> js_number" where
  "js_floor (Num x) = Num (of_int \<lfloor>x\<rfloor>)"
| "js_floor n = n"

fun js_abs :: "js_number \<Rightarrow> js_number" where
  "js_abs (Num x) = Num \<bar>x\<bar>"
| "js_abs NInf = PInf"
| "js_abs n = n"

fun js_ceil :: "js_number \<Rightarrow> js_number" where
  "js_ceil (Num x) = Num (of_int \<lceil>x\<rceil>)"
| "js_ceil n = n"

definition js_min :: "js_number \<Rightarrow> js_number \<Rightarrow> js_number" where
  "js_min a b = (if a = NaN \<or> b = NaN then NaN else if a < b then a else b)"

definition js_max :: "js_number \<Rightarrow> js_number \<Rightarrow> js_number" where
  "js_max a b = (if a = NaN \<or> b = NaN then NaN else if a < b then b else a)"

section \<open>Evaluation of finite arithmetic\<close>

named_theorems js_simps "evaluation rules of finite JavaScript numbers"

lemma double_overflow_big: "(2::rat) ^ 100 < double_overflow"
  by (simp add: double_overflow_def)

lemma js_of_rat_Num [js_simps]:
  assumes "\<bar>x\<bar> \<le> 2 ^ 100"
  shows "js_of_rat x = Num x"
proof -
  have "x < double_overflow" "- double_overflow < x"
    using assms double_overflow_big by linarith+
  then show ?thesis by (simp add: js_of_rat_def)
qed

lemma js_of_rat_eq_Num: "js_of_rat x = Num y \<Longrightarrow> y = x"
  by (auto simp: js_of_rat_def split: if_splits)

lemma js_of_rat_not_NaN [simp]: "js_of_rat x \<noteq> NaN"
  by (simp add: js_of_rat_def)

lemma Num_le_Num [simp, js_simps]: "Num a \<le> Num b \<longleftrightarrow> a \<le> b"
  by (auto simp: less_eq_js_number_def js_eq_def)

lemma js_eq_Num [simp, js_simps]: "js_eq (Num a) (Num b) \<longleftrightarrow> a = b"
  by (simp add: js_eq_def)

lemma js_min_Num [simp, js_simps]: "js_min (Num a) (Num b) = Num (min a b)"
  by (auto simp: js_min_def)

lemma js_max_Num [simp, js_simps]: "js_max (Num a) (Num b) = Num (max a b)"
  by (auto simp: js_max_def)

lemma js_minus_Num [js_simps]: "Num a - Num b = js_of_rat (a - b)"
  by (simp add: minus_js_number_def)

lemma js_times_Num [js_simps]: "Num a * Num b = js_of_rat (a * b)"
  by (simp add: times_js_number_def)

lemma js_div_Num [js_simps]: "b \<noteq> 0 \<Longrightarrow> js_div (Num a) (Num b) = js_of_rat (a / b)"
  by (simp add: js_div_def)

text \<open>Sums never undercut: adding a finite nonnegative amount to a finite one is monotone.\<close>

lemma js_add_mono: "Num a + Num b = Num c \<Longrightarrow> 0 \<le> b \<Longrightarrow> a \<le> c"
  by (auto dest: js_of_rat_eq_Num)

text \<open>
  A count in the sense of the accounting code: a nonnegative integer of the exact range. Sums
  of two counts are exact.
\<close>

definition js_count :: "js_number \<Rightarrow> bool" where
  "js_count n \<longleftrightarrow> js_isSafeInteger n \<and> 0 \<le> n"

lemma js_countE:
  assumes "js_count n"
  obtains x where "n = Num x" "0 \<le> x" "x \<le> max_safe_integer" "of_int \<lfloor>x\<rfloor> = x"
  using assms by (cases n) (auto simp: js_count_def zero_js_number_def)

lemma js_count_Num: "js_count (Num x) \<longleftrightarrow> 0 \<le> x \<and> x \<le> max_safe_integer \<and> of_int \<lfloor>x\<rfloor> = x"
  by (auto simp: js_count_def zero_js_number_def)

lemma js_count_zero [simp, intro]: "js_count 0" "js_count (Num 0)"
  by (simp_all add: js_count_def zero_js_number_def max_safe_integer_def)

lemma js_count_add:
  assumes "Num x = a" "Num y = b" "js_count a" "js_count b"
  shows "a + b = Num (x + y)"
proof -
  have "\<bar>x + y\<bar> \<le> 2 ^ 100"
    using assms by (auto simp: js_count_Num max_safe_integer_def)
  with assms show ?thesis by (auto simp: js_simps)
qed

lemma of_int_floor_diff: "of_int \<lfloor>x\<rfloor> = x \<Longrightarrow> of_int \<lfloor>y\<rfloor> = y \<Longrightarrow> of_int \<lfloor>x - y\<rfloor> = (x - y :: rat)"
  by (metis floor_of_int of_int_diff)

lemma of_int_floor_add: "of_int \<lfloor>x\<rfloor> = x \<Longrightarrow> of_int \<lfloor>y\<rfloor> = y \<Longrightarrow> of_int \<lfloor>x + y\<rfloor> = (x + y :: rat)"
  by (metis floor_of_int of_int_add)

end
