(* ===== verification/Usage.thy ===== *)
theory Usage
  imports JsNumber
begin

text \<open>
  Token accounting of \<open>packages/core/src/l0/usage.ts\<close>: the canonical \<open>Usage\<close> record, the rules a
  reported usage must satisfy, the conservative repair of a broken report, and the canonical
  addition used by every settled fold.
\<close>

section \<open>The record and its rules\<close>

record usage =
  inputTokens :: js_number
  outputTokens :: js_number
  cacheReadTokens :: js_number
  cacheWriteTokens :: js_number
  reasoningTokens :: "js_number option"
  cacheWrite5mTokens :: "js_number option"
  cacheWrite1hTokens :: "js_number option"

datatype count_field =
    InputTokens | OutputTokens | CacheReadTokens | CacheWriteTokens
  | ReasoningTokens | CacheWrite5mTokens | CacheWrite1hTokens

definition COUNT_FIELDS :: "count_field list" where
  "COUNT_FIELDS = [InputTokens, OutputTokens, CacheReadTokens, CacheWriteTokens,
     ReasoningTokens, CacheWrite5mTokens, CacheWrite1hTokens]"

text \<open>Reading a field: a required one is always present.\<close>

fun usage_field :: "usage \<Rightarrow> count_field \<Rightarrow> js_number option" where
  "usage_field u InputTokens = Some (inputTokens u)"
| "usage_field u OutputTokens = Some (outputTokens u)"
| "usage_field u CacheReadTokens = Some (cacheReadTokens u)"
| "usage_field u CacheWriteTokens = Some (cacheWriteTokens u)"
| "usage_field u ReasoningTokens = reasoningTokens u"
| "usage_field u CacheWrite5mTokens = cacheWrite5mTokens u"
| "usage_field u CacheWrite1hTokens = cacheWrite1hTokens u"

datatype usage_violation =
    NotFinite count_field
  | Negative count_field
  | Fractional count_field
  | BeyondSafeRange count_field
  | CacheExceedsInput
  | SplitMismatch

definition count_violations :: "count_field \<Rightarrow> js_number option \<Rightarrow> usage_violation list" where
  "count_violations f v = (case v of
      None \<Rightarrow> []
    | Some n \<Rightarrow>
        if \<not> js_isFinite n then [NotFinite f]
        else if n < 0 then [Negative f]
        else if \<not> js_isInteger n then [Fractional f]
        else if \<not> js_isSafeInteger n then [BeyondSafeRange f]
        else [])"

definition or_zero :: "js_number option \<Rightarrow> js_number" where
  "or_zero v = (case v of None \<Rightarrow> 0 | Some n \<Rightarrow> n)"

definition split_present :: "usage \<Rightarrow> bool" where
  "split_present u \<longleftrightarrow> cacheWrite5mTokens u \<noteq> None \<or> cacheWrite1hTokens u \<noteq> None"

definition usageViolations :: "usage \<Rightarrow> usage_violation list" where
  "usageViolations u =
     concat (map (\<lambda>f. count_violations f (usage_field u f)) COUNT_FIELDS)
     @ (if \<not> (inputTokens u \<ge> cacheReadTokens u + cacheWriteTokens u)
        then [CacheExceedsInput] else [])
     @ (if split_present u
           \<and> \<not> js_eq (or_zero (cacheWrite5mTokens u) + or_zero (cacheWrite1hTokens u))
                     (cacheWriteTokens u)
        then [SplitMismatch] else [])"

section \<open>Repair\<close>

definition sanitizeTokenCount :: "js_number option \<Rightarrow> js_number" where
  "sanitizeTokenCount v = (case v of
      None \<Rightarrow> 0
    | Some n \<Rightarrow>
        if \<not> js_isFinite n \<or> n \<le> 0 then 0
        else js_min (js_ceil n) (Num max_safe_integer))"

definition snapshotUsage :: "usage \<Rightarrow> usage" where
  "snapshotUsage u = \<lparr>
     inputTokens = inputTokens u, outputTokens = outputTokens u,
     cacheReadTokens = cacheReadTokens u, cacheWriteTokens = cacheWriteTokens u,
     reasoningTokens = reasoningTokens u,
     cacheWrite5mTokens = cacheWrite5mTokens u, cacheWrite1hTokens = cacheWrite1hTokens u \<rparr>"

definition sanitizeUsageDelta :: "usage \<Rightarrow> usage" where
  "sanitizeUsageDelta d = (let s = snapshotUsage d in \<lparr>
     inputTokens = sanitizeTokenCount (Some (inputTokens s)),
     outputTokens = sanitizeTokenCount (Some (outputTokens s)),
     cacheReadTokens = sanitizeTokenCount (Some (cacheReadTokens s)),
     cacheWriteTokens = sanitizeTokenCount (Some (cacheWriteTokens s)),
     reasoningTokens = map_option (\<lambda>n. sanitizeTokenCount (Some n)) (reasoningTokens s),
     cacheWrite5mTokens = map_option (\<lambda>n. sanitizeTokenCount (Some n)) (cacheWrite5mTokens s),
     cacheWrite1hTokens = map_option (\<lambda>n. sanitizeTokenCount (Some n)) (cacheWrite1hTokens s) \<rparr>)"

definition valid_share :: "js_number option \<Rightarrow> bool" where
  "valid_share v = (case v of None \<Rightarrow> True | Some n \<Rightarrow> js_isSafeInteger n \<and> n \<ge> 0)"

definition sanitizeUsage :: "usage \<Rightarrow> usage" where
  "sanitizeUsage u =
     (let inp = sanitizeTokenCount (Some (inputTokens u));
          rd = js_min (sanitizeTokenCount (Some (cacheReadTokens u))) inp;
          wr = js_min (sanitizeTokenCount (Some (cacheWriteTokens u))) (inp - rd);
          out = \<lparr> inputTokens = inp,
                  outputTokens = sanitizeTokenCount (Some (outputTokens u)),
                  cacheReadTokens = rd, cacheWriteTokens = wr,
                  reasoningTokens = map_option (\<lambda>n. sanitizeTokenCount (Some n)) (reasoningTokens u),
                  cacheWrite5mTokens = None, cacheWrite1hTokens = None \<rparr>
      in if split_present u then
           (let splitValid = valid_share (cacheWrite5mTokens u) \<and> valid_share (cacheWrite1hTokens u)
                  \<and> js_eq (or_zero (cacheWrite5mTokens u) + or_zero (cacheWrite1hTokens u)) wr
            in if splitValid then
                 out\<lparr> cacheWrite5mTokens := cacheWrite5mTokens u,
                      cacheWrite1hTokens := cacheWrite1hTokens u \<rparr>
               else
                 (let write1h = js_min (sanitizeTokenCount (cacheWrite1hTokens u)) wr
                  in out\<lparr> cacheWrite1hTokens := Some write1h,
                          cacheWrite5mTokens := Some (wr - write1h) \<rparr>))
         else out)"

section \<open>Canonical addition\<close>

definition oneH :: "usage \<Rightarrow> js_number" where
  "oneH u = or_zero (cacheWrite1hTokens u)"

definition fiveM :: "usage \<Rightarrow> js_number" where
  "fiveM u = (case cacheWrite5mTokens u of
      Some n \<Rightarrow> n
    | None \<Rightarrow> js_max 0 (cacheWriteTokens u - oneH u))"

definition sumUsage :: "usage \<Rightarrow> usage \<Rightarrow> usage" where
  "sumUsage tot turn =
     (let reasoning = or_zero (reasoningTokens tot) + or_zero (reasoningTokens turn);
          spl = split_present tot \<or> split_present turn
      in \<lparr> inputTokens = inputTokens tot + inputTokens turn,
           outputTokens = outputTokens tot + outputTokens turn,
           cacheReadTokens = cacheReadTokens tot + cacheReadTokens turn,
           cacheWriteTokens = cacheWriteTokens tot + cacheWriteTokens turn,
           reasoningTokens = (if reasoning > 0 then Some reasoning else None),
           cacheWrite5mTokens = (if spl then Some (fiveM tot + fiveM turn) else None),
           cacheWrite1hTokens = (if spl then Some (oneH tot + oneH turn) else None) \<rparr>)"

definition zeroUsage :: usage where
  "zeroUsage = \<lparr> inputTokens = 0, outputTokens = 0, cacheReadTokens = 0, cacheWriteTokens = 0,
     reasoningTokens = None, cacheWrite5mTokens = None, cacheWrite1hTokens = None \<rparr>"

section \<open>What the rules mean\<close>

text \<open>A field passes its rules exactly when it is absent or a count.\<close>

lemma count_violations_Nil:
  "count_violations f v = [] \<longleftrightarrow> (case v of None \<Rightarrow> True | Some n \<Rightarrow> js_count n)"
proof (cases v)
  case None
  then show ?thesis by (simp add: count_violations_def)
next
  case (Some n)
  then show ?thesis
    by (cases n) (auto simp: count_violations_def js_count_def zero_js_number_def)
qed

definition opt_count :: "js_number option \<Rightarrow> bool" where
  "opt_count v \<longleftrightarrow> (case v of None \<Rightarrow> True | Some n \<Rightarrow> js_count n)"

lemma opt_count_simps [simp]: "opt_count None" "opt_count (Some n) \<longleftrightarrow> js_count n"
  by (simp_all add: opt_count_def)

definition canonical_usage :: "usage \<Rightarrow> bool" where
  "canonical_usage u \<longleftrightarrow>
     js_count (inputTokens u) \<and> js_count (outputTokens u) \<and>
     js_count (cacheReadTokens u) \<and> js_count (cacheWriteTokens u) \<and>
     opt_count (reasoningTokens u) \<and> opt_count (cacheWrite5mTokens u) \<and>
     opt_count (cacheWrite1hTokens u) \<and>
     cacheReadTokens u + cacheWriteTokens u \<le> inputTokens u \<and>
     (split_present u \<longrightarrow>
        or_zero (cacheWrite5mTokens u) + or_zero (cacheWrite1hTokens u) = cacheWriteTokens u)"

lemma js_count_not_NaN: "js_count n \<Longrightarrow> n \<noteq> NaN"
  by (auto elim: js_countE)

lemma usageViolations_Nil: "usageViolations u = [] \<longleftrightarrow> canonical_usage u"
  unfolding usageViolations_def canonical_usage_def COUNT_FIELDS_def
  by (auto simp: count_violations_Nil opt_count_def js_eq_def dest: js_count_not_NaN)

section \<open>Repaired counts\<close>

lemma js_count_min: "js_count a \<Longrightarrow> js_count b \<Longrightarrow> js_count (js_min a b)"
  by (elim js_countE) (auto simp: js_count_Num min_def)

lemma js_count_diff:
  assumes "js_count a" "js_count b" "b \<le> a"
  shows "js_count (a - b)"
proof -
  obtain x y where xy: "a = Num x" "b = Num y" "0 \<le> x" "0 \<le> y" "y \<le> x"
      "x \<le> max_safe_integer" "of_int \<lfloor>x\<rfloor> = x" "of_int \<lfloor>y\<rfloor> = y"
    using assms by (auto elim!: js_countE)
  then have "a - b = Num (x - y)"
    by (simp add: js_simps max_safe_integer_def)
  with xy show ?thesis by (simp add: js_count_Num of_int_floor_diff)
qed

lemma js_count_or_zero: "opt_count v \<Longrightarrow> js_count (or_zero v)"
  by (cases v) (simp_all add: or_zero_def)

lemma sanitizeTokenCount_count: "js_count (sanitizeTokenCount v)"
proof (cases "\<exists>x. v = Some (Num x) \<and> 0 < x")
  case True
  then obtain x where v: "v = Some (Num x)" "0 < x" by blast
  then have "0 < \<lceil>x\<rceil>" by simp
  moreover have "of_int \<lfloor>max_safe_integer\<rfloor> = max_safe_integer"
    by (simp add: max_safe_integer_def)
  moreover have "0 \<le> max_safe_integer" by (simp add: max_safe_integer_def)
  ultimately show ?thesis
    using v by (auto simp: sanitizeTokenCount_def zero_js_number_def js_count_Num min_def)
next
  case False
  then have "sanitizeTokenCount v = 0"
    by (cases v; cases "the v")
      (auto simp: sanitizeTokenCount_def zero_js_number_def)
  then show ?thesis by simp
qed

lemma sanitizeTokenCount_id: "js_count n \<Longrightarrow> sanitizeTokenCount (Some n) = n"
proof (elim js_countE)
  fix x assume x: "n = Num x" "0 \<le> x" "x \<le> max_safe_integer" "of_int \<lfloor>x\<rfloor> = x"
  then have "of_int \<lceil>x\<rceil> = x" by (metis ceiling_of_int)
  with x show ?thesis
    by (auto simp: sanitizeTokenCount_def zero_js_number_def min_def)
qed

text \<open>The repair never undercharges a finite report of the exact range.\<close>

lemma sanitizeTokenCount_ge:
  assumes "x \<le> max_safe_integer"
  shows "\<exists>y. sanitizeTokenCount (Some (Num x)) = Num y \<and> x \<le> y"
  using assms le_of_int_ceiling [of x]
  by (auto simp: sanitizeTokenCount_def zero_js_number_def min_def intro: order_trans)

lemma js_min_le_right: "js_count a \<Longrightarrow> js_count b \<Longrightarrow> js_min a b \<le> b"
  by (elim js_countE) simp

lemma js_add_min_diff:
  assumes "js_count a" "js_count b" "js_count c" "c \<le> a"
  shows "c + js_min b (a - c) \<le> a"
proof -
  obtain x y z where *: "a = Num x" "b = Num y" "c = Num z" "z \<le> x" "0 \<le> y" "0 \<le> z"
      "x \<le> max_safe_integer" "y \<le> max_safe_integer"
    using assms by (auto elim!: js_countE)
  have m: "a - c = Num (x - z)" using * by (simp add: js_simps max_safe_integer_def)
  have "\<bar>z + min y (x - z)\<bar> \<le> 2 ^ 100"
    using * by (auto simp: max_safe_integer_def min_def)
  then have "c + js_min b (a - c) = Num (z + min y (x - z))"
    using * m by (simp add: js_simps)
  with * show ?thesis by (simp add: min_def)
qed

lemma js_diff_add_cancel:
  assumes "js_count a" "js_count b" "b \<le> a"
  shows "(a - b) + b = a"
proof -
  obtain x y where *: "a = Num x" "b = Num y" "0 \<le> y" "y \<le> x" "x \<le> max_safe_integer"
    using assms by (auto elim!: js_countE)
  then show ?thesis by (simp add: js_simps max_safe_integer_def)
qed

lemma valid_share_count: "valid_share v \<longleftrightarrow> opt_count v"
  by (cases v) (auto simp: valid_share_def js_count_def)


section \<open>The repair is canonical, and the identity on canonical reports\<close>

lemma sanitizeUsage_counts:
  defines "v \<equiv> \<lambda>u. sanitizeUsage u"
  shows "js_count (inputTokens (v u))" "js_count (outputTokens (v u))"
    "js_count (cacheReadTokens (v u))" "js_count (cacheWriteTokens (v u))"
    "opt_count (reasoningTokens (v u))"
    "cacheReadTokens (v u) + cacheWriteTokens (v u) \<le> inputTokens (v u)"
proof -
  let ?inp = "sanitizeTokenCount (Some (inputTokens u))"
  let ?rd = "js_min (sanitizeTokenCount (Some (cacheReadTokens u))) ?inp"
  let ?wr = "js_min (sanitizeTokenCount (Some (cacheWriteTokens u))) (?inp - ?rd)"
  have f: "inputTokens (v u) = ?inp" "cacheReadTokens (v u) = ?rd"
    "cacheWriteTokens (v u) = ?wr"
    "outputTokens (v u) = sanitizeTokenCount (Some (outputTokens u))"
    "reasoningTokens (v u) = map_option (\<lambda>n. sanitizeTokenCount (Some n)) (reasoningTokens u)"
    by (simp_all add: v_def sanitizeUsage_def Let_def)
  have c: "js_count ?inp" "js_count ?rd" "?rd \<le> ?inp"
    by (simp_all add: sanitizeTokenCount_count js_count_min js_min_le_right)
  then have d: "js_count (?inp - ?rd)" by (rule js_count_diff)
  show "js_count (inputTokens (v u))" "js_count (outputTokens (v u))"
    "js_count (cacheReadTokens (v u))" "js_count (cacheWriteTokens (v u))"
    using f c d by (simp_all add: sanitizeTokenCount_count js_count_min)
  show "opt_count (reasoningTokens (v u))"
    using f by (cases "reasoningTokens u") (simp_all add: sanitizeTokenCount_count)
  show "cacheReadTokens (v u) + cacheWriteTokens (v u) \<le> inputTokens (v u)"
    using f c js_add_min_diff [OF c(1) sanitizeTokenCount_count c(2) c(3)] by simp
qed

lemma sanitizeUsage_split:
  fixes u :: usage
  defines "w \<equiv> sanitizeUsage u"
  shows "opt_count (cacheWrite5mTokens w) \<and> opt_count (cacheWrite1hTokens w) \<and>
    (split_present w \<longrightarrow>
       or_zero (cacheWrite5mTokens w) + or_zero (cacheWrite1hTokens w) = cacheWriteTokens w)"
proof -
  let ?wr = "cacheWriteTokens w"
  have wr: "js_count ?wr" unfolding w_def by (rule sanitizeUsage_counts)
  let ?ok = "valid_share (cacheWrite5mTokens u) \<and> valid_share (cacheWrite1hTokens u)
    \<and> js_eq (or_zero (cacheWrite5mTokens u) + or_zero (cacheWrite1hTokens u)) ?wr"
  let ?h = "js_min (sanitizeTokenCount (cacheWrite1hTokens u)) ?wr"
  have h: "js_count ?h" "?h \<le> ?wr"
    using wr by (simp_all add: sanitizeTokenCount_count js_count_min js_min_le_right)
  consider (none) "\<not> split_present u" | (keep) "split_present u" ?ok | (rebuilt) "split_present u" "\<not> ?ok"
    by blast
  then show ?thesis
  proof cases
    case none
    then have "cacheWrite5mTokens w = None" "cacheWrite1hTokens w = None"
      by (simp_all add: w_def sanitizeUsage_def Let_def)
    then show ?thesis by (simp add: split_present_def)
  next
    case keep
    then have "cacheWrite5mTokens w = cacheWrite5mTokens u" "cacheWrite1hTokens w = cacheWrite1hTokens u"
      unfolding w_def by (auto simp: sanitizeUsage_def Let_def)
    with keep show ?thesis by (simp add: valid_share_count js_eq_def)
  next
    case rebuilt
    then have "cacheWrite5mTokens w = Some (?wr - ?h)" "cacheWrite1hTokens w = Some ?h"
      unfolding w_def by (auto simp: sanitizeUsage_def Let_def)
    then show ?thesis
      using h js_diff_add_cancel [OF wr h] js_count_diff [OF wr h]
      by (simp add: or_zero_def)
  qed
qed

lemma sanitizeUsage_canonical: "canonical_usage (sanitizeUsage u)"
  unfolding canonical_usage_def using sanitizeUsage_counts [of u] sanitizeUsage_split [of u]
  by simp

lemma js_min_diff_id:
  assumes "js_count a" "js_count b" "js_count c" "c + b \<le> a"
  shows "js_min c a = c" "js_min b (a - c) = b"
proof -
  obtain x y z where *: "a = Num x" "b = Num y" "c = Num z" "0 \<le> x" "0 \<le> y" "0 \<le> z"
      "x \<le> max_safe_integer" "y \<le> max_safe_integer" "z \<le> max_safe_integer"
    using assms(1-3) by (auto elim!: js_countE)
  then have "z + y \<le> x" using assms(4) by (simp add: js_simps max_safe_integer_def)
  with * show "js_min c a = c" "js_min b (a - c) = b"
    by (simp_all add: js_simps max_safe_integer_def min_def)
qed

lemma sanitizeUsage_id:
  assumes "canonical_usage u"
  shows "sanitizeUsage u = u"
proof -
  note c = assms [unfolded canonical_usage_def]
  have m: "js_min (cacheReadTokens u) (inputTokens u) = cacheReadTokens u"
    "js_min (cacheWriteTokens u) (inputTokens u - cacheReadTokens u) = cacheWriteTokens u"
    using js_min_diff_id c by blast+
  have r: "map_option (\<lambda>n. sanitizeTokenCount (Some n)) (reasoningTokens u) = reasoningTokens u"
    using c by (cases "reasoningTokens u") (simp_all add: sanitizeTokenCount_id)
  have s: "js_eq (or_zero (cacheWrite5mTokens u) + or_zero (cacheWrite1hTokens u)) (cacheWriteTokens u)"
    if "split_present u" using c that js_count_not_NaN by (auto simp: js_eq_def)
  show ?thesis
    using c m r s
    by (cases u)
      (auto simp: sanitizeUsage_def Let_def sanitizeTokenCount_id valid_share_count
         split_present_def)
qed

section \<open>Addition keeps the rules\<close>

lemma canonical_fiveM:
  assumes "canonical_usage u"
  shows "js_count (fiveM u) \<and> js_count (oneH u) \<and>
    (\<exists>a b. fiveM u = Num a \<and> oneH u = Num b \<and> cacheWriteTokens u = Num (a + b))"
proof -
  note c = assms [unfolded canonical_usage_def]
  have h: "js_count (oneH u)" using c by (simp add: oneH_def js_count_or_zero)
  have wr: "js_count (cacheWriteTokens u)" using c by simp
  show ?thesis
  proof (cases "cacheWrite5mTokens u")
    case (Some n)
    then have "js_count n" "n + oneH u = cacheWriteTokens u"
      using c by (auto simp: split_present_def or_zero_def oneH_def)
    moreover have "\<exists>a b. n = Num a \<and> oneH u = Num b \<and> n + oneH u = Num (a + b)"
      using \<open>js_count n\<close> h js_count_add by (metis js_countE)
    ultimately show ?thesis using Some h by (auto simp: fiveM_def)
  next
    case None
    have le: "oneH u \<le> cacheWriteTokens u"
    proof (cases "cacheWrite1hTokens u")
      case None
      then show ?thesis using wr by (auto simp: oneH_def or_zero_def zero_js_number_def elim: js_countE)
    next
      case (Some m)
      then have m: "0 + m = cacheWriteTokens u" "js_count m"
        using c \<open>cacheWrite5mTokens u = None\<close>
        by (auto simp: split_present_def or_zero_def)
      then obtain x where "m = Num x" "0 \<le> x" "x \<le> max_safe_integer" by (auto elim: js_countE)
      with m have "m = cacheWriteTokens u"
        by (simp add: zero_js_number_def js_simps max_safe_integer_def)
      with Some \<open>m = Num x\<close> show ?thesis by (simp add: oneH_def or_zero_def)
    qed
    obtain x y where xy: "cacheWriteTokens u = Num x" "oneH u = Num y" "y \<le> x"
      "0 \<le> y" "x \<le> max_safe_integer"
      using wr h le by (auto elim!: js_countE)
    then have "cacheWriteTokens u - oneH u = Num (x - y)"
      by (simp add: js_simps max_safe_integer_def)
    with xy None have f: "fiveM u = Num (x - y)" "cacheWriteTokens u - oneH u = fiveM u"
      by (simp_all add: fiveM_def zero_js_number_def max_def)
    moreover have "js_count (fiveM u)"
      using js_count_diff [OF wr h le] f by simp
    ultimately show ?thesis using xy h by auto
  qed
qed

text \<open>
  Counts whose sum stays in the exact range add to a count.
\<close>

lemma js_count_sum:
  assumes "js_count a" "js_count b" "a + b \<le> Num max_safe_integer"
  shows "js_count (a + b)"
proof -
  obtain x y where *: "a = Num x" "b = Num y" "0 \<le> x" "0 \<le> y" "x \<le> max_safe_integer"
      "y \<le> max_safe_integer" "of_int \<lfloor>x\<rfloor> = x" "of_int \<lfloor>y\<rfloor> = y"
    using assms(1,2) by (auto elim!: js_countE)
  then have "a + b = Num (x + y)" by (simp add: js_simps max_safe_integer_def)
  with * assms(3) show ?thesis by (simp add: js_count_Num of_int_floor_add)
qed


lemma js_count_le_sum:
  assumes "js_count a" "js_count b" "js_count c" "js_count d"
    "js_count c'" "js_count d'" "c + c' \<le> a" "d + d' \<le> b"
  shows "(c + d) + (c' + d') \<le> a + b" "c + d \<le> a + b" "c' + d' \<le> a + b"
proof -
  obtain x y z w z' w' where *: "a = Num x" "b = Num y" "c = Num z" "d = Num w" "c' = Num z'" "d' = Num w'"
      "0 \<le> x" "0 \<le> y" "0 \<le> z" "0 \<le> w" "0 \<le> z'" "0 \<le> w'"
      "x \<le> max_safe_integer" "y \<le> max_safe_integer" "z \<le> max_safe_integer"
      "w \<le> max_safe_integer" "z' \<le> max_safe_integer" "w' \<le> max_safe_integer"
    using assms(1-6) by (auto elim!: js_countE)
  have le: "z + z' \<le> x" "w + w' \<le> y"
    using assms(7,8) * by (simp_all add: js_simps max_safe_integer_def)
  have e: "a + b = Num (x + y)" "c + d = Num (z + w)" "c' + d' = Num (z' + w')"
    "(c + d) + (c' + d') = Num (z + w + (z' + w'))"
    using * by (simp_all add: js_simps max_safe_integer_def)
  show "(c + d) + (c' + d') \<le> a + b"
    unfolding e(4) e(1) using le by simp
  show "c + d \<le> a + b" "c' + d' \<le> a + b"
    unfolding e(1,2,3) using le * by simp_all
qed

lemma js_le_trans_Num: "a \<le> b \<Longrightarrow> b \<le> Num c \<Longrightarrow> a \<le> Num c"
  by (cases a; cases b) (auto simp: less_eq_js_number_def js_eq_def)

lemma sumUsage_split_sum:
  assumes "canonical_usage t" "canonical_usage u"
    and "cacheWriteTokens t + cacheWriteTokens u \<le> Num max_safe_integer"
  shows "js_count (fiveM t + fiveM u)" "js_count (oneH t + oneH u)"
    "(fiveM t + fiveM u) + (oneH t + oneH u) = cacheWriteTokens t + cacheWriteTokens u"
proof -
  obtain a b where t: "fiveM t = Num a" "oneH t = Num b" "cacheWriteTokens t = Num (a + b)"
    "js_count (fiveM t)" "js_count (oneH t)"
    using canonical_fiveM [OF assms(1)] by blast
  obtain c d where u: "fiveM u = Num c" "oneH u = Num d" "cacheWriteTokens u = Num (c + d)"
    "js_count (fiveM u)" "js_count (oneH u)"
    using canonical_fiveM [OF assms(2)] by blast
  have b: "0 \<le> a" "0 \<le> b" "0 \<le> c" "0 \<le> d" "a \<le> max_safe_integer" "b \<le> max_safe_integer"
    "c \<le> max_safe_integer" "d \<le> max_safe_integer"
    using t u by (simp_all add: js_count_Num)
  then have e: "fiveM t + fiveM u = Num (a + c)" "oneH t + oneH u = Num (b + d)"
    "cacheWriteTokens t + cacheWriteTokens u = Num ((a + b) + (c + d))"
    using t u by (simp_all add: js_simps max_safe_integer_def)
  have m: "(a + b) + (c + d) \<le> max_safe_integer" using assms(3) e by simp
  show "js_count (fiveM t + fiveM u)" "js_count (oneH t + oneH u)"
    unfolding e using m b t u by (auto simp: js_count_Num of_int_floor_add)
  show "(fiveM t + fiveM u) + (oneH t + oneH u) = cacheWriteTokens t + cacheWriteTokens u"
    using e b by (simp add: js_simps max_safe_integer_def algebra_simps)
qed

lemma sumUsage_canonical:
  assumes t: "canonical_usage t" and u: "canonical_usage u"
    and inp: "inputTokens t + inputTokens u \<le> Num max_safe_integer"
    and out: "outputTokens t + outputTokens u \<le> Num max_safe_integer"
    and rea: "or_zero (reasoningTokens t) + or_zero (reasoningTokens u) \<le> Num max_safe_integer"
  shows "canonical_usage (sumUsage t u)"
proof -
  note c = t [unfolded canonical_usage_def] u [unfolded canonical_usage_def]
  have le: "(cacheReadTokens t + cacheReadTokens u) + (cacheWriteTokens t + cacheWriteTokens u)
      \<le> inputTokens t + inputTokens u"
    "cacheReadTokens t + cacheReadTokens u \<le> inputTokens t + inputTokens u"
    "cacheWriteTokens t + cacheWriteTokens u \<le> inputTokens t + inputTokens u"
    using c by (blast intro: js_count_le_sum)+
  note wr = js_le_trans_Num [OF le(3) inp]
  note sp = sumUsage_split_sum [OF t u wr]
  have "js_count (or_zero (reasoningTokens t) + or_zero (reasoningTokens u))"
    using c rea by (simp add: js_count_sum js_count_or_zero)
  with c inp out le wr sp js_le_trans_Num [OF le(2) inp] show ?thesis
    unfolding canonical_usage_def
    by (auto simp: sumUsage_def Let_def split_present_def or_zero_def js_count_sum)
qed

section \<open>Properties\<close>

text \<open>
  The repaired usage violates no accounting rule, whatever the provider reported (including
  NaN, infinities, negative and fractional counts and broken cache splits), and a report that
  violates none is passed through unchanged.
\<close>

lemma sanitizeUsage_repairs:
  "usageViolations (sanitizeUsage u) = [] \<and> (usageViolations u = [] \<longrightarrow> sanitizeUsage u = u)"
  using sanitizeUsage_canonical [of u] sanitizeUsage_id [of u] by (simp add: usageViolations_Nil)

definition example_report :: usage where
  "example_report = \<lparr> inputTokens = Num 100, outputTokens = Num 7, cacheReadTokens = Num 30,
     cacheWriteTokens = Num 20, reasoningTokens = Some (Num 3), cacheWrite5mTokens = Some (Num 15),
     cacheWrite1hTokens = Some (Num 5) \<rparr>"

lemma example_report_valid: "usageViolations example_report = []"
  by (simp add: usageViolations_def COUNT_FIELDS_def count_violations_def example_report_def
      split_present_def or_zero_def zero_js_number_def max_safe_integer_def js_simps)

text \<open>
  Adding two valid reports gives a valid report as long as the sums stay in the exact integer
  range: the cache subsets still fit the input, and the write split still sums to the write total,
  also when only one of the two reports carries a split.
\<close>

lemma sumUsage_keeps_rules:
  assumes "usageViolations t = []" "usageViolations u = []"
    and "inputTokens t + inputTokens u \<le> Num max_safe_integer"
    and "outputTokens t + outputTokens u \<le> Num max_safe_integer"
    and "or_zero (reasoningTokens t) + or_zero (reasoningTokens u) \<le> Num max_safe_integer"
  shows "usageViolations (sumUsage t u) = []"
  using assms sumUsage_canonical by (simp add: usageViolations_Nil)

end
