(* ===== verification/Json.thy ===== *)
theory Json
  imports Prelude
begin

text \<open>
  The value domain of \<open>packages/core/src/l0/json.ts\<close> and the ways the kernel reads it. An absent
  value (\<open>undefined\<close>) is \<open>None\<close>. Objects are association lists with the names of their members;
  the kernel only reads members by fixed names.
\<close>

datatype json =
    JNull
  | JBool bool
  | JNum rat
  | JStr string
  | JArr "json list"
  | JObj "(string \<times> json) list"

text \<open>
  \<open>v.name\<close>: reading a member of \<open>null\<close> (or of \<open>undefined\<close>) throws; a primitive or an array has
  none of the names the kernel asks for.
\<close>

fun member_of :: "json \<Rightarrow> string \<Rightarrow> json option" where
  "member_of (JObj kvs) k = map_of kvs k"
| "member_of _ k = None"

fun js_member :: "json option \<Rightarrow> string \<Rightarrow> json option result" where
  "js_member None k = Inl TypeError"
| "js_member (Some JNull) k = Inl TypeError"
| "js_member (Some v) k = Inr (member_of v k)"

text \<open>\<open>v?.name\<close>: optional chaining yields \<open>undefined\<close> for a nullish \<open>v\<close>.\<close>

fun opt_member :: "json option \<Rightarrow> string \<Rightarrow> json option" where
  "opt_member None k = None"
| "opt_member (Some v) k = member_of v k"

text \<open>\<open>typeof v === 'string'\<close> and \<open>typeof v === 'number'\<close> as partial reads.\<close>

fun as_string :: "json option \<Rightarrow> string option" where
  "as_string (Some (JStr s)) = Some s"
| "as_string _ = None"

fun as_number :: "json option \<Rightarrow> rat option" where
  "as_number (Some (JNum n)) = Some n"
| "as_number _ = None"

fun as_array :: "json option \<Rightarrow> json list option" where
  "as_array (Some (JArr xs)) = Some xs"
| "as_array _ = None"

text \<open>A number that is used as a journal position.\<close>

definition as_seq :: "json option \<Rightarrow> nat option" where
  "as_seq v = (case as_number v of
      Some n \<Rightarrow> if n \<ge> 0 \<and> of_int \<lfloor>n\<rfloor> = n then Some (nat \<lfloor>n\<rfloor>) else None
    | None \<Rightarrow> None)"

text \<open>\<open>asRecord\<close>: any non-null object, arrays included.\<close>

fun asRecord :: "json option \<Rightarrow> json option" where
  "asRecord (Some (JObj kvs)) = Some (JObj kvs)"
| "asRecord (Some (JArr xs)) = Some (JArr xs)"
| "asRecord _ = None"

definition readString :: "json \<Rightarrow> string \<Rightarrow> string option" where
  "readString r k = as_string (member_of r k)"

lemma as_string_Some [simp]: "as_string v = Some s \<longleftrightarrow> v = Some (JStr s)"
  by (cases v rule: as_string.cases) auto

lemma as_number_Some [simp]: "as_number v = Some s \<longleftrightarrow> v = Some (JNum s)"
  by (cases v rule: as_number.cases) auto

lemma as_seq_of_nat [simp]: "as_seq (Some (JNum (of_nat n))) = Some n"
  by (simp add: as_seq_def)

lemma as_seq_numeral [simp]:
  "as_seq (Some (JNum 0)) = Some 0"
  "as_seq (Some (JNum 1)) = Some 1"
  "as_seq (Some (JNum (numeral k))) = Some (numeral k)"
  by (simp_all add: as_seq_def)

end
