(* ===== verification/Entries.thy ===== *)
theory Entries
  imports Json Usage
begin

text \<open>
  The journal entry of \<open>packages/core/src/l0/entries.ts\<close>: kinds, statuses, payloads and the full
  entry record. Field selectors carry the prefix of their record (\<open>je_\<close> for \<open>JournalEntry\<close>, \<open>us_\<close>
  for \<open>UsageSlice\<close>, \<open>pc_\<close> for \<open>ProviderCallRecord\<close>, \<open>rp_\<close> and \<open>ap_\<close> for the ref-entry payloads).
  Optional members are options.
\<close>

definition CURRENT_HASH_VERSION :: nat where
  "CURRENT_HASH_VERSION = 2"

text \<open>The kinds registry; readers tolerate unknown kinds, so a kind outside it is a value too.\<close>

datatype entry_kind =
    K_agent | K_step | K_child | K_external | K_approval | K_rand | K_decision
  | K_plan_revision | K_plan_decision | K_ledger_op | K_resolution | K_abandon
  | K_node_link | K_termination_init | K_termination_denied
  | K_unknown string

datatype entry_status =
    S_running | S_ok | S_error | S_limit | S_suspended | S_cancelled | S_escalated

datatype resolution_by =
    By_external | By_timeout | By_class_decision | By_operator | By_quiescence | By_engine_fallback

record resolution_payload =
  rp_target :: nat
  rp_by :: resolution_by
  rp_value :: json
  rp_decisionRef :: "nat option"
  rp_logicalTaskId :: "string option"
  rp_countsAgainstLimit :: "bool option"

record abandon_payload =
  ap_target :: nat
  ap_authorizedBy :: nat
  ap_nodeId :: "string option"
  ap_logicalTaskId :: "string option"
  ap_reason :: string
  ap_retainCheckpoint :: "bool option"
  ap_retainWorktree :: "bool option"

type_synonym model_ref = string

record usage_slice =
  us_servedBy :: model_ref
  us_usage :: usage
  us_role :: "string option"

datatype call_outcome = Call_ok | Call_error | Call_aborted

record provider_call_record =
  pc_ordinal :: nat
  pc_role :: string
  pc_servedBy :: model_ref
  pc_attempt :: nat
  pc_outcome :: call_outcome
  pc_responseId :: "string option"
  pc_wireResponseIds :: "string list option"
  pc_wireRequests :: "nat option"
  pc_usage :: usage
  pc_usageApprox :: "bool option"
  pc_errorCode :: "string option"
  pc_aborted :: "string option"
  pc_phase_repair :: bool

record cost_attribution_facts =
  ca_phase :: "string option"
  ca_agentType :: "string option"
  ca_role :: "string option"
  ca_budgetAccount :: "string option"
  ca_label :: "string option"
  ca_finalizeReserve :: "bool option"
  ca_repairTrigger :: "string option"

record wire_error =
  we_code :: string
  we_message :: string
  we_retryable :: bool
  we_data :: "json option"

record evidence_verdict =
  ev_recordedEntries :: nat
  ev_minEntries :: nat
  ev_met :: bool

record journal_entry =
  je_hashVersion :: nat
  je_seq :: nat
  je_ref :: "nat option"
  je_scope :: string
  je_key :: string
  je_ordinal :: nat
  je_kind :: entry_kind
  je_status :: entry_status
  je_value :: "json option"
  je_error :: "wire_error option"
  je_usage :: "usage option"
  je_usageApprox :: "bool option"
  je_servedBy :: "model_ref option"
  je_usageByModel :: "usage_slice list option"
  je_costAttribution :: "cost_attribution_facts option"
  je_providerCalls :: "provider_call_record list option"
  je_usageSemantics :: "string option"
  je_transcriptRef :: "string option"
  je_checkpointRef :: "string option"
  je_artifacts :: "json option"
  je_evidence :: "evidence_verdict option"
  je_evidenceEntries :: "(string \<times> string option) list option"
  je_toolBudget :: "(nat \<times> nat option) option"
  je_hostRejected :: "bool option"
  je_escalation :: "json option"
  je_resolution :: "resolution_payload option"
  je_abandon :: "abandon_payload option"
  je_memoizeOutcome :: "bool option"
  je_deadlineAt :: "string option"
  je_spanId :: string
  je_startedAt :: string
  je_endedAt :: "string option"

text \<open>
  An entry with only its mandatory members, the base the write path and the examples build
  on.
\<close>

definition bare_entry :: "nat \<Rightarrow> nat \<Rightarrow> string \<Rightarrow> string \<Rightarrow> nat \<Rightarrow> entry_kind \<Rightarrow> entry_status \<Rightarrow> string \<Rightarrow> journal_entry" where
  "bare_entry hv sq sc k ord kd st started = \<lparr>
     je_hashVersion = hv, je_seq = sq, je_ref = None, je_scope = sc, je_key = k, je_ordinal = ord,
     je_kind = kd, je_status = st, je_value = None, je_error = None, je_usage = None,
     je_usageApprox = None, je_servedBy = None, je_usageByModel = None, je_costAttribution = None,
     je_providerCalls = None, je_usageSemantics = None, je_transcriptRef = None,
     je_checkpointRef = None, je_artifacts = None, je_evidence = None, je_evidenceEntries = None,
     je_toolBudget = None, je_hostRejected = None, je_escalation = None, je_resolution = None,
     je_abandon = None, je_memoizeOutcome = None, je_deadlineAt = None, je_spanId = '''',
     je_startedAt = started, je_endedAt = None \<rparr>"

lemma bare_entry_sel [simp]:
  "je_hashVersion (bare_entry hv sq sc k ord kd st started) = hv"
  "je_seq (bare_entry hv sq sc k ord kd st started) = sq"
  "je_ref (bare_entry hv sq sc k ord kd st started) = None"
  "je_scope (bare_entry hv sq sc k ord kd st started) = sc"
  "je_key (bare_entry hv sq sc k ord kd st started) = k"
  "je_ordinal (bare_entry hv sq sc k ord kd st started) = ord"
  "je_kind (bare_entry hv sq sc k ord kd st started) = kd"
  "je_status (bare_entry hv sq sc k ord kd st started) = st"
  "je_value (bare_entry hv sq sc k ord kd st started) = None"
  "je_error (bare_entry hv sq sc k ord kd st started) = None"
  "je_usage (bare_entry hv sq sc k ord kd st started) = None"
  "je_usageByModel (bare_entry hv sq sc k ord kd st started) = None"
  "je_providerCalls (bare_entry hv sq sc k ord kd st started) = None"
  "je_servedBy (bare_entry hv sq sc k ord kd st started) = None"
  "je_resolution (bare_entry hv sq sc k ord kd st started) = None"
  "je_abandon (bare_entry hv sq sc k ord kd st started) = None"
  "je_memoizeOutcome (bare_entry hv sq sc k ord kd st started) = None"
  "je_deadlineAt (bare_entry hv sq sc k ord kd st started) = None"
  "je_escalation (bare_entry hv sq sc k ord kd st started) = None"
  "je_spanId (bare_entry hv sq sc k ord kd st started) = ''''"
  "je_startedAt (bare_entry hv sq sc k ord kd st started) = started"
  by (simp_all add: bare_entry_def)

text \<open>The two kinds of ref-entry, excluded from every forward-matching cursor.\<close>

definition REF_ENTRY_KINDS :: "entry_kind list" where
  "REF_ENTRY_KINDS = [K_resolution, K_abandon]"

definition is_ref_entry :: "journal_entry \<Rightarrow> bool" where
  "is_ref_entry e \<longleftrightarrow> je_kind e \<in> set REF_ENTRY_KINDS"

lemma is_ref_entry_iff: "is_ref_entry e \<longleftrightarrow> je_kind e = K_resolution \<or> je_kind e = K_abandon"
  by (auto simp: is_ref_entry_def REF_ENTRY_KINDS_def)

text \<open>
  \<open>bySeq\<close>: the last entry loaded under a position wins; with distinct positions it is the entry.
\<close>

definition by_seq :: "journal_entry list \<Rightarrow> (nat, journal_entry) jsmap" where
  "by_seq es = foldl (\<lambda>m e. jm_set (je_seq e) e m) [] es"

lemma by_seq_snoc [simp]: "by_seq (es @ [e]) = jm_set (je_seq e) e (by_seq es)"
  by (simp add: by_seq_def)

lemma by_seq_Nil [simp]: "by_seq [] = []"
  by (simp add: by_seq_def)

definition seqs_increasing :: "journal_entry list \<Rightarrow> bool" where
  "seqs_increasing es \<longleftrightarrow> sorted_wrt (<) (map je_seq es)"

lemma seqs_increasing_distinct: "seqs_increasing es \<Longrightarrow> distinct (map je_seq es)"
  by (simp add: seqs_increasing_def strict_sorted_iff)

lemma seqs_increasing_snoc:
  "seqs_increasing (es @ [e]) \<longleftrightarrow> seqs_increasing es \<and> (\<forall>x\<in>set es. je_seq x < je_seq e)"
  by (auto simp: seqs_increasing_def sorted_wrt_append)

lemma by_seq_get_in: "jm_get (by_seq es) n = Some e \<Longrightarrow> e \<in> set es \<and> je_seq e = n"
  by (induction es rule: rev_induct) (auto simp: jsmap_simps split: if_splits)

lemma by_seq_get:
  "distinct (map je_seq es) \<Longrightarrow> e \<in> set es \<Longrightarrow> jm_get (by_seq es) (je_seq e) = Some e"
  by (induction es rule: rev_induct) (auto simp: jsmap_simps image_iff)

end
