(* ===== verification/Billing.thy ===== *)
theory Billing
  imports Entries
begin

text \<open>
  The pricing folds over one terminal entry (\<open>entryUsageSlices\<close>, \<open>priceEntryUsage\<close>,
  \<open>coveredModels\<close>, \<open>priceEntryBilling\<close> of \<open>packages/core/src/l0/entries.ts\<close>). The price function is
  the engine's, hence an argument: it maps a model, a usage and the position of the entry to a
  number or to nothing.
\<close>

type_synonym price_fn = "model_ref \<Rightarrow> usage \<Rightarrow> nat \<Rightarrow> js_number option"

section \<open>Slices\<close>

definition entryUsageSlices :: "journal_entry \<Rightarrow> usage_slice list" where
  "entryUsageSlices e = (case je_usage e of
      None \<Rightarrow> []
    | Some u \<Rightarrow> (case je_usageByModel e of
        Some (x # xs) \<Rightarrow> x # xs
      | _ \<Rightarrow> (case je_servedBy e of
          None \<Rightarrow> []
        | Some m \<Rightarrow> [\<lparr> us_servedBy = m, us_usage = u, us_role = None \<rparr>])))"

text \<open>
  A price the fold accepts: present, finite and not negative. Everything else is treated as a
  missing row.
\<close>

definition usable_price :: "js_number option \<Rightarrow> js_number option" where
  "usable_price p = (case p of
      None \<Rightarrow> None
    | Some n \<Rightarrow> if \<not> js_isFinite n \<or> n < 0 then None else Some n)"

section \<open>The aggregate basis\<close>

record priced_usage =
  pu_usd :: js_number
  pu_priced :: "(usage_slice \<times> js_number) list"
  pu_unpriced :: "usage_slice list"

definition price_slice :: "price_fn \<Rightarrow> nat \<Rightarrow> priced_usage \<Rightarrow> usage_slice \<Rightarrow> priced_usage result" where
  "price_slice price sq st s =
     (case usable_price (price (us_servedBy s) (us_usage s) sq) of
        None \<Rightarrow> Inr (st\<lparr> pu_unpriced := pu_unpriced st @ [s] \<rparr>)
      | Some usd \<Rightarrow>
          (let t = pu_usd st + usd
           in if \<not> js_isFinite t then Inl ConfigError
              else Inr (st\<lparr> pu_usd := t, pu_priced := pu_priced st @ [(s, usd)] \<rparr>)))"

definition priceEntryUsage :: "journal_entry \<Rightarrow> price_fn \<Rightarrow> priced_usage result" where
  "priceEntryUsage e price =
     foldR (price_slice price (je_seq e)) \<lparr> pu_usd = 0, pu_priced = [], pu_unpriced = [] \<rparr>
       (entryUsageSlices e)"

section \<open>Coverage\<close>

record usage_sum =
  sum_input :: js_number
  sum_output :: js_number
  sum_cacheRead :: js_number
  sum_cacheWrite :: js_number
  sum_reasoning :: js_number

definition zero_sum :: usage_sum where
  "zero_sum = \<lparr> sum_input = 0, sum_output = 0, sum_cacheRead = 0, sum_cacheWrite = 0, sum_reasoning = 0 \<rparr>"

definition add_to_sum :: "usage_sum \<Rightarrow> usage \<Rightarrow> usage_sum" where
  "add_to_sum s u = \<lparr>
     sum_input = sum_input s + inputTokens u,
     sum_output = sum_output s + outputTokens u,
     sum_cacheRead = sum_cacheRead s + cacheReadTokens u,
     sum_cacheWrite = sum_cacheWrite s + cacheWriteTokens u,
     sum_reasoning = sum_reasoning s + or_zero (reasoningTokens u) \<rparr>"

definition sumUsageByModel :: "(model_ref \<times> usage) list \<Rightarrow> (model_ref, usage_sum) jsmap" where
  "sumUsageByModel items =
     foldl (\<lambda>acc (m, u).
        jm_set m (add_to_sum (case jm_get acc m of None \<Rightarrow> zero_sum | Some s \<Rightarrow> s) u) acc)
       [] items"

definition sums_match :: "usage_sum \<Rightarrow> usage_sum \<Rightarrow> bool" where
  "sums_match a b \<longleftrightarrow>
     js_eq (sum_input a) (sum_input b) \<and> js_eq (sum_output a) (sum_output b) \<and>
     js_eq (sum_cacheRead a) (sum_cacheRead b) \<and> js_eq (sum_cacheWrite a) (sum_cacheWrite b) \<and>
     js_eq (sum_reasoning a) (sum_reasoning b)"

abbreviation slice_items :: "usage_slice list \<Rightarrow> (model_ref \<times> usage) list" where
  "slice_items ss \<equiv> map (\<lambda>s. (us_servedBy s, us_usage s)) ss"

abbreviation record_items :: "provider_call_record list \<Rightarrow> (model_ref \<times> usage) list" where
  "record_items rs \<equiv> map (\<lambda>r. (pc_servedBy r, pc_usage r)) rs"

definition coveredModels :: "usage_slice list \<Rightarrow> provider_call_record list \<Rightarrow> model_ref list" where
  "coveredModels slices records =
     (if slices = [] \<or> records = [] then []
      else
        (let recordSums = sumUsageByModel (record_items records);
             sliceSums = sumUsageByModel (slice_items slices)
         in map fst (filter (\<lambda>(m, sliceSum). case jm_get recordSums m of
                None \<Rightarrow> False
              | Some recordSum \<Rightarrow> sums_match recordSum sliceSum) sliceSums)))"

section \<open>The billing fold\<close>

datatype unit_source = FromCall | FromSlice

record billing_unit =
  bu_source :: unit_source
  bu_servedBy :: model_ref
  bu_usage :: usage
  bu_role :: "string option"
  bu_record :: "provider_call_record option"
  bu_usd :: js_number

definition call_candidate :: "provider_call_record \<Rightarrow> billing_unit" where
  "call_candidate r = \<lparr> bu_source = FromCall, bu_servedBy = pc_servedBy r, bu_usage = pc_usage r,
     bu_role = Some (pc_role r), bu_record = Some r, bu_usd = 0 \<rparr>"

definition slice_candidate :: "usage_slice \<Rightarrow> billing_unit" where
  "slice_candidate s = \<lparr> bu_source = FromSlice, bu_servedBy = us_servedBy s, bu_usage = us_usage s,
     bu_role = us_role s, bu_record = None, bu_usd = 0 \<rparr>"

record billing_state =
  bs_units :: "billing_unit list"
  bs_unpriced :: "(model_ref, usage) jsmap"
  bs_usd :: js_number

text \<open>The running usage of a model whose price was refused.\<close>

definition add_unpriced :: "usage \<Rightarrow> usage \<Rightarrow> usage" where
  "add_unpriced acc u =
     (let reasoning = or_zero (reasoningTokens acc) + or_zero (reasoningTokens u)
      in acc\<lparr> inputTokens := inputTokens acc + inputTokens u,
              outputTokens := outputTokens acc + outputTokens u,
              cacheReadTokens := cacheReadTokens acc + cacheReadTokens u,
              cacheWriteTokens := cacheWriteTokens acc + cacheWriteTokens u,
              reasoningTokens := (if reasoning > 0 then Some reasoning else reasoningTokens acc) \<rparr>)"

definition bill :: "price_fn \<Rightarrow> nat \<Rightarrow> billing_state \<Rightarrow> billing_unit \<Rightarrow> billing_state result" where
  "bill price sq st c =
     (case usable_price (price (bu_servedBy c) (bu_usage c) sq) of
        None \<Rightarrow>
          (let acc = (case jm_get (bs_unpriced st) (bu_servedBy c) of None \<Rightarrow> zeroUsage | Some a \<Rightarrow> a)
           in Inr (st\<lparr> bs_unpriced := jm_set (bu_servedBy c) (add_unpriced acc (bu_usage c)) (bs_unpriced st) \<rparr>))
      | Some p \<Rightarrow>
          (let t = bs_usd st + p
           in if \<not> js_isFinite t then Inl ConfigError
              else Inr (st\<lparr> bs_usd := t, bs_units := bs_units st @ [c\<lparr> bu_usd := p \<rparr>] \<rparr>)))"

record entry_billing_fold =
  ebf_units :: "billing_unit list"
  ebf_usd :: js_number
  ebf_unpriced :: "usage_slice list"
  ebf_fullyAttributed :: bool
  ebf_coveredModels :: "model_ref list"

definition entry_records :: "journal_entry \<Rightarrow> provider_call_record list" where
  "entry_records e = (case je_providerCalls e of None \<Rightarrow> [] | Some rs \<Rightarrow> rs)"

definition fully_attributed :: "usage_slice list \<Rightarrow> provider_call_record list \<Rightarrow> model_ref list \<Rightarrow> bool" where
  "fully_attributed slices records covered \<longleftrightarrow>
     slices \<noteq> [] \<and>
     list_all (\<lambda>s. us_servedBy s \<in> set covered) slices \<and>
     list_all (\<lambda>r. list_ex (\<lambda>s. us_servedBy s = pc_servedBy r) slices) records"

definition priceEntryBilling :: "journal_entry \<Rightarrow> price_fn \<Rightarrow> entry_billing_fold result" where
  "priceEntryBilling e price =
     (let slices = entryUsageSlices e;
          records = entry_records e;
          covered = coveredModels slices records
      in bindR (foldR (\<lambda>st r. if pc_servedBy r \<notin> set covered then Inr st
                              else bill price (je_seq e) st (call_candidate r))
                 \<lparr> bs_units = [], bs_unpriced = [], bs_usd = 0 \<rparr> records) (\<lambda>st1.
         bindR (foldR (\<lambda>st s. if us_servedBy s \<in> set covered then Inr st
                              else bill price (je_seq e) st (slice_candidate s)) st1 slices) (\<lambda>st2.
         Inr \<lparr> ebf_units = bs_units st2, ebf_usd = bs_usd st2,
               ebf_unpriced = map (\<lambda>(m, u). \<lparr> us_servedBy = m, us_usage = u, us_role = None \<rparr>) (bs_unpriced st2),
               ebf_fullyAttributed = fully_attributed slices records covered,
               ebf_coveredModels = covered \<rparr>)))"

section \<open>The loop against its declarative reading\<close>

lemma foldR_skip: "foldR (\<lambda>s x. if P x then Inr s else f s x) s xs = foldR f s (filter (\<lambda>x. \<not> P x) xs)"
  by (induction xs arbitrary: s) auto

text \<open>What is billed: the records of covered models, then the slices of the others.\<close>

definition billing_basis :: "journal_entry \<Rightarrow> billing_unit list" where
  "billing_basis e =
     (let slices = entryUsageSlices e; records = entry_records e; covered = coveredModels slices records
      in map call_candidate (filter (\<lambda>r. pc_servedBy r \<in> set covered) records)
         @ map slice_candidate (filter (\<lambda>s. us_servedBy s \<notin> set covered) slices))"

definition priced_of :: "price_fn \<Rightarrow> nat \<Rightarrow> billing_unit \<Rightarrow> billing_unit option" where
  "priced_of price sq c =
     map_option (\<lambda>p. c\<lparr> bu_usd := p \<rparr>) (usable_price (price (bu_servedBy c) (bu_usage c) sq))"

lemma priceEntryBilling_basis:
  "priceEntryBilling e price =
     bindR (foldR (bill price (je_seq e)) \<lparr> bs_units = [], bs_unpriced = [], bs_usd = 0 \<rparr> (billing_basis e)) (\<lambda>st.
       Inr \<lparr> ebf_units = bs_units st, ebf_usd = bs_usd st,
             ebf_unpriced = map (\<lambda>(m, u). \<lparr> us_servedBy = m, us_usage = u, us_role = None \<rparr>) (bs_unpriced st),
             ebf_fullyAttributed = fully_attributed (entryUsageSlices e) (entry_records e)
               (coveredModels (entryUsageSlices e) (entry_records e)),
             ebf_coveredModels = coveredModels (entryUsageSlices e) (entry_records e) \<rparr>)"
  unfolding priceEntryBilling_def billing_basis_def Let_def
  by (simp add: foldR_skip foldR_map foldR_append bindR_assoc)

lemma usable_price_finite:
  "usable_price p = Some n \<Longrightarrow> js_isFinite n \<and> 0 \<le> n"
  by (cases p; cases n)
    (auto simp: usable_price_def zero_js_number_def split: if_splits)

lemma bill_refused:
  assumes "priced_of price sq c = None"
  shows "\<exists>m. bill price sq st c = Inr (st\<lparr> bs_unpriced := m \<rparr>)"
  using assms by (auto simp: bill_def priced_of_def Let_def)

lemma bill_priced:
  assumes "priced_of price sq c = Some u"
  shows "bill price sq st c =
    (if js_isFinite (bs_usd st + bu_usd u)
     then Inr (st\<lparr> bs_usd := bs_usd st + bu_usd u, bs_units := bs_units st @ [u] \<rparr>)
     else Inl ConfigError)"
  using assms by (auto simp: bill_def priced_of_def Let_def)

lemma bill_InrE:
  assumes "bill price sq st c = Inr st'"
  obtains m where "priced_of price sq c = None" "st' = st\<lparr> bs_unpriced := m \<rparr>"
  | u where "priced_of price sq c = Some u" "js_isFinite (bs_usd st + bu_usd u)"
      "st' = st\<lparr> bs_usd := bs_usd st + bu_usd u, bs_units := bs_units st @ [u] \<rparr>"
proof (cases "priced_of price sq c")
  case None
  with bill_refused [OF None, of st] assms show ?thesis by (auto intro: that(1))
next
  case (Some u)
  with bill_priced [OF Some, of st] assms show ?thesis
    by (auto intro!: that(2) split: if_splits)
qed

lemma bill_fold_spec:
  assumes "foldR (bill price sq) st cs = Inr st'"
  shows "bs_units st' = bs_units st @ List.map_filter (priced_of price sq) cs
    \<and> bs_usd st' = foldl (+) (bs_usd st) (map bu_usd (List.map_filter (priced_of price sq) cs))
    \<and> (js_isFinite (bs_usd st) \<longrightarrow> js_isFinite (bs_usd st'))"
  using assms
proof (induction cs arbitrary: st)
  case Nil
  then show ?case by simp
next
  case (Cons c cs)
  from Cons.prems obtain t where t: "bill price sq st c = Inr t" "foldR (bill price sq) t cs = Inr st'"
    by (auto simp: bindR_eq_Inr)
  from t(1) show ?case
    by (cases rule: bill_InrE) (use Cons.IH [OF t(2)] in auto)
qed

text \<open>The loop throws only on overflow of the running sum.\<close>

lemma bill_fold_total:
  assumes "\<And>k. js_isFinite (foldl (+) (bs_usd st) (map bu_usd (List.map_filter (priced_of price sq) (take k cs))))"
  shows "\<exists>st'. foldR (bill price sq) st cs = Inr st'"
  using assms
proof (induction cs arbitrary: st)
  case Nil
  then show ?case by simp
next
  case (Cons c cs)
  note fin = Cons.prems [of "Suc k" for k]
  show ?case
  proof (cases "priced_of price sq c")
    case None
    then obtain m where m: "bill price sq st c = Inr (st\<lparr> bs_unpriced := m \<rparr>)"
      using bill_refused by blast
    show ?thesis
      using fin None Cons.IH [of "st\<lparr> bs_unpriced := m \<rparr>"] by (simp add: m)
  next
    case (Some u)
    have "js_isFinite (bs_usd st + bu_usd u)" using fin [of 0] Some by simp
    then show ?thesis
      using fin Some Cons.IH by (simp add: bill_priced)
  qed
qed

section \<open>Coverage is an exact match of sums\<close>

lemma sumUsageByModel_wf: "jm_wf (sumUsageByModel items)"
  by (induction items rule: rev_induct)
    (auto simp: sumUsageByModel_def split: prod.splits)

lemma coveredModels_match:
  assumes "m \<in> set (coveredModels slices records)"
  shows "\<exists>r s. jm_get (sumUsageByModel (record_items records)) m = Some r
    \<and> jm_get (sumUsageByModel (slice_items slices)) m = Some s \<and> sums_match r s"
  using assms
  by (auto simp: coveredModels_def Let_def jm_in_get [OF sumUsageByModel_wf]
      split: if_splits option.splits)

text \<open>The running sum of one model is the sum over its own items.\<close>

lemma sumUsageByModel_get:
  "jm_get (sumUsageByModel items) m =
    (let us = map snd (filter (\<lambda>p. fst p = m) items)
     in if us = [] then None else Some (foldl add_to_sum zero_sum us))"
proof (induction items rule: rev_induct)
  case Nil
  then show ?case by (simp add: sumUsageByModel_def)
next
  case (snoc x items)
  obtain k u where x: "x = (k, u)" by (cases x)
  have "sumUsageByModel (items @ [x]) = jm_set k
      (add_to_sum (case jm_get (sumUsageByModel items) k of None \<Rightarrow> zero_sum | Some s \<Rightarrow> s) u)
      (sumUsageByModel items)"
    by (simp add: sumUsageByModel_def x)
  with snoc x show ?case by (auto simp: jm_get_set Let_def)
qed


section \<open>Properties\<close>

lemma map_filter_set: "x \<in> set (List.map_filter f xs) \<longleftrightarrow> (\<exists>y\<in>set xs. f y = Some x)"
  by (induction xs) (auto split: option.splits)

lemma priced_of_Some:
  assumes "priced_of price sq c = Some u"
  shows "bu_source u = bu_source c" "bu_servedBy u = bu_servedBy c" "js_isFinite (bu_usd u)" "0 \<le> bu_usd u"
  using assms by (auto simp: priced_of_def dest: usable_price_finite)

lemma priceEntryBilling_state:
  assumes "priceEntryBilling e price = Inr f"
  obtains st where
    "foldR (bill price (je_seq e)) \<lparr> bs_units = [], bs_unpriced = [], bs_usd = 0 \<rparr> (billing_basis e) = Inr st"
    "ebf_units f = bs_units st" "ebf_usd f = bs_usd st"
    "ebf_coveredModels f = coveredModels (entryUsageSlices e) (entry_records e)"
  using assms by (auto simp: priceEntryBilling_basis bindR_eq_Inr)

lemma billing_basis_source:
  "c \<in> set (billing_basis e) \<Longrightarrow>
     bu_source c = FromCall \<longleftrightarrow> bu_servedBy c \<in> set (coveredModels (entryUsageSlices e) (entry_records e))"
  by (auto simp: billing_basis_def Let_def call_candidate_def slice_candidate_def)

text \<open>
  C32. The billing fold prices exactly the billing basis of the entry (the call records of the
  covered models followed by the slices of the other models), once each and in that order. Its
  total is the sum of the unit prices in that order and is a finite number, and a model is billed
  on one basis only: per call exactly when it is covered.
\<close>

theorem priceEntryBilling_exact:
  assumes "priceEntryBilling e price = Inr f"
  shows "ebf_units f = List.map_filter (priced_of price (je_seq e)) (billing_basis e)
    \<and> ebf_usd f = foldl (+) 0 (map bu_usd (ebf_units f))
    \<and> js_isFinite (ebf_usd f)
    \<and> (\<forall>u\<in>set (ebf_units f). bu_source u = FromCall \<longleftrightarrow> bu_servedBy u \<in> set (ebf_coveredModels f))"
  using assms
proof (rule priceEntryBilling_state)
  fix st
  assume st: "foldR (bill price (je_seq e)) \<lparr> bs_units = [], bs_unpriced = [], bs_usd = 0 \<rparr> (billing_basis e) = Inr st"
    and f: "ebf_units f = bs_units st" "ebf_usd f = bs_usd st"
    and cov: "ebf_coveredModels f = coveredModels (entryUsageSlices e) (entry_records e)"
  have spec: "ebf_units f = List.map_filter (priced_of price (je_seq e)) (billing_basis e)"
    "ebf_usd f = foldl (+) 0 (map bu_usd (ebf_units f))" "js_isFinite (ebf_usd f)"
    using bill_fold_spec [OF st] by (auto simp: f zero_js_number_def)
  moreover have "bu_source u = FromCall \<longleftrightarrow> bu_servedBy u \<in> set (ebf_coveredModels f)"
    if "u \<in> set (ebf_units f)" for u
    using that billing_basis_source priced_of_Some(1,2) spec(1)
    by (fastforce simp: map_filter_set cov)
  ultimately show ?thesis by blast
qed

text \<open>
  The same call twice at ten thousand input tokens: no single call crosses a threshold of fifteen
  thousand, the aggregate does, and the fold bills per call.
\<close>

definition example_usage :: "rat \<Rightarrow> usage" where
  "example_usage n = zeroUsage\<lparr> inputTokens := Num n \<rparr>"

definition example_record :: "nat \<Rightarrow> provider_call_record" where
  "example_record n = \<lparr> pc_ordinal = n, pc_role = ''loop'', pc_servedBy = ''a:m'', pc_attempt = 1,
     pc_outcome = Call_ok, pc_responseId = None, pc_wireResponseIds = None, pc_wireRequests = None,
     pc_usage = example_usage 10000, pc_usageApprox = None, pc_errorCode = None, pc_aborted = None,
     pc_phase_repair = False \<rparr>"

definition example_paid_entry :: journal_entry where
  "example_paid_entry = (bare_entry 2 1 '''' ''k'' 0 K_agent S_ok ''t'')
     \<lparr> je_ref := Some 0, je_usage := Some (example_usage 20000), je_servedBy := Some ''a:m'',
       je_providerCalls := Some [example_record 1, example_record 2] \<rparr>"

definition example_tiered_price :: price_fn where
  "example_tiered_price m u sq = Some (if inputTokens u > Num 15000 then Num 9 else Num 2)"

lemma example_paid_entry_bills:
  "\<exists>f. priceEntryBilling example_paid_entry example_tiered_price = Inr f \<and> ebf_usd f = Num 4"
  by (simp add: priceEntryBilling_def example_paid_entry_def example_tiered_price_def
      entryUsageSlices_def entry_records_def coveredModels_def sumUsageByModel_def sums_match_def
      add_to_sum_def zero_sum_def zero_js_number_def example_record_def example_usage_def
      zeroUsage_def js_simps bill_def usable_price_def call_candidate_def or_zero_def Let_def
      bare_entry_def)

theorem priceEntryBilling_exact_witness:
  "\<exists>f. priceEntryBilling example_paid_entry example_tiered_price = Inr f
    \<and> Num 4 = foldl (+) 0 (map bu_usd (ebf_units f)) \<and> js_isFinite (ebf_usd f)"
proof -
  obtain f where f: "priceEntryBilling example_paid_entry example_tiered_price = Inr f" "ebf_usd f = Num 4"
    using example_paid_entry_bills by blast
  show ?thesis using f priceEntryBilling_exact [OF f(1)] by metis
qed

text \<open>
  An entry without call records is priced on the historical aggregate basis: the billing
  fold and the usage fold throw together, and give the same total when they return.
\<close>

lemma priceEntryBilling_legacy:
  assumes "je_providerCalls e = None"
  shows "map_sum id ebf_usd (priceEntryBilling e price) = map_sum id pu_usd (priceEntryUsage e price)"
proof -
  have basis: "billing_basis e = map slice_candidate (entryUsageSlices e)"
    using assms by (simp add: billing_basis_def entry_records_def coveredModels_def)
  have "rel_sum (=) (\<lambda>st pu. bs_usd st = pu_usd pu)
      (foldR (bill price (je_seq e)) \<lparr> bs_units = [], bs_unpriced = [], bs_usd = 0 \<rparr> (billing_basis e))
      (priceEntryUsage e price)"
    unfolding basis priceEntryUsage_def foldR_map
    by (rule foldR_simulation)
      (auto simp: bill_def price_slice_def slice_candidate_def Let_def split: option.splits)
  then show ?thesis
    unfolding priceEntryBilling_basis by (cases rule: rel_sum.cases) simp_all
qed

end
