(* ===== verification/Scope.thy ===== *)
theory Scope
  imports Prelude
begin

text \<open>
  The scope-path grammar of \<open>packages/core/src/journal/scope.ts\<close>: constructors, parser, printer and
  the allocator of parallel sites. Counters are natural numbers (the code's are exact below
  \<open>2 ^ 53\<close>), strings are lists of characters. A thrown \<open>Error\<close> of the parser is \<open>None\<close>.
\<close>

section \<open>Strings of the language\<close>

definition is_digit :: "char \<Rightarrow> bool" where
  "is_digit c \<longleftrightarrow> 48 \<le> (of_char c :: nat) \<and> (of_char c :: nat) \<le> 57"

definition digit_char :: "nat \<Rightarrow> char" where
  "digit_char d = char_of (48 + d)"

definition digit_val :: "char \<Rightarrow> nat" where
  "digit_val c = of_char c - 48"

text \<open>A number in a template literal, and \<open>Number(text)\<close> on a string of digits.\<close>

fun show_nat :: "nat \<Rightarrow> string" where
  "show_nat n = (if n < 10 then [digit_char n] else show_nat (n div 10) @ [digit_char (n mod 10)])"

declare show_nat.simps [simp del]

definition parse_nat :: "string \<Rightarrow> nat" where
  "parse_nat s = foldl (\<lambda>a c. 10 * a + digit_val c) 0 s"

text \<open>\<open>String.prototype.split\<close> by one character, and \<open>Array.prototype.join\<close>.\<close>

fun js_split :: "char \<Rightarrow> string \<Rightarrow> string list" where
  "js_split c [] = [[]]"
| "js_split c (x # xs) =
     (if x = c then [] # js_split c xs
      else (case js_split c xs of [] \<Rightarrow> [[x]] | p # ps \<Rightarrow> (x # p) # ps))"

fun js_join :: "char \<Rightarrow> string list \<Rightarrow> string" where
  "js_join c [] = []"
| "js_join c [p] = p"
| "js_join c (p # q # ps) = p @ c # js_join c (q # ps)"

definition starts_with :: "string \<Rightarrow> string \<Rightarrow> bool" where
  "starts_with s p \<longleftrightarrow> take (length p) s = p"

section \<open>Constructors\<close>

definition ROOT_SCOPE :: string where
  "ROOT_SCOPE = ''''"

definition joinScope :: "string \<Rightarrow> string \<Rightarrow> string" where
  "joinScope parent segment = (if parent = '''' then segment else parent @ ''/'' @ segment)"

definition parallelScope :: "string \<Rightarrow> nat \<Rightarrow> nat \<Rightarrow> string" where
  "parallelScope parent site branch = joinScope parent (''par:'' @ show_nat site @ '':'' @ show_nat branch)"

definition pipelineScope :: "string \<Rightarrow> nat \<Rightarrow> nat \<Rightarrow> string" where
  "pipelineScope parent stage item = joinScope parent (''pipe:'' @ show_nat stage @ '':'' @ show_nat item)"

definition workflowScope :: "string \<Rightarrow> string \<Rightarrow> nat \<Rightarrow> string" where
  "workflowScope parent name ord = joinScope parent (''wf:'' @ name @ '':'' @ show_nat ord)"

definition agentScope :: "string \<Rightarrow> nat \<Rightarrow> string" where
  "agentScope parent sq = joinScope parent (''agent:'' @ show_nat sq)"

definition planNodeScope :: "string \<Rightarrow> string" where
  "planNodeScope nodeId = ''plan/'' @ nodeId"

text \<open>
  The coverage test used on scopes everywhere in the kernel: the scope itself or anything below
  it, \<open>scope === prefix || scope.startsWith(`${prefix}/`)\<close>.
\<close>

definition under_prefix :: "string \<Rightarrow> string \<Rightarrow> bool" where
  "under_prefix scope prefix \<longleftrightarrow> scope = prefix \<or> starts_with scope (prefix @ ''/'')"

section \<open>Parser and printer\<close>

datatype scope_segment =
    SegParallel nat nat
  | SegPipeline nat nat
  | SegWorkflow string nat
  | SegAgent nat
  | SegPlanNode string

definition isNat :: "string \<Rightarrow> bool" where
  "isNat t \<longleftrightarrow> t = ''0'' \<or> (t \<noteq> [] \<and> list_all is_digit t \<and> hd t \<noteq> CHR ''0'')"

definition is_ulid_char :: "char \<Rightarrow> bool" where
  "is_ulid_char c \<longleftrightarrow> is_digit c \<or> (65 \<le> (of_char c :: nat) \<and> (of_char c :: nat) \<le> 90)"

definition isNodeId :: "string \<Rightarrow> bool" where
  "isNodeId s \<longleftrightarrow> length s = 26 \<and> list_all is_ulid_char s"

text \<open>Every branch but the last: one part is one segment.\<close>

definition parse_counted :: "string \<Rightarrow> scope_segment option" where
  "parse_counted part =
     (if starts_with part ''par:'' then
        (case js_split CHR '':'' part of
           [_, site, branch] \<Rightarrow>
             if isNat site \<and> isNat branch then Some (SegParallel (parse_nat site) (parse_nat branch)) else None
         | _ \<Rightarrow> None)
      else if starts_with part ''pipe:'' then
        (case js_split CHR '':'' part of
           [_, stage, item] \<Rightarrow>
             if isNat stage \<and> isNat item then Some (SegPipeline (parse_nat stage) (parse_nat item)) else None
         | _ \<Rightarrow> None)
      else if starts_with part ''wf:'' then
        (let pieces = js_split CHR '':'' part;
             ord = last pieces;
             name = js_join CHR '':'' (butlast (tl pieces))
         in if length pieces < 3 \<or> name = '''' \<or> \<not> isNat ord then None
            else Some (SegWorkflow name (parse_nat ord)))
      else if starts_with part ''agent:'' then
        (case js_split CHR '':'' part of
           [_, sq] \<Rightarrow> if isNat sq then Some (SegAgent (parse_nat sq)) else None
         | _ \<Rightarrow> None)
      else None)"

fun parse_parts :: "string list \<Rightarrow> scope_segment list option" where
  "parse_parts [] = Some []"
| "parse_parts (part # parts) =
     (if part = ''plan'' then
        (case parts of
           [] \<Rightarrow> None
         | nodeId # rest \<Rightarrow>
             if isNodeId nodeId then map_option (Cons (SegPlanNode nodeId)) (parse_parts rest) else None)
      else
        (case parse_counted part of
           None \<Rightarrow> None
         | Some seg \<Rightarrow> map_option (Cons seg) (parse_parts parts)))"

definition parseScopePath :: "string \<Rightarrow> scope_segment list option" where
  "parseScopePath path = (if path = '''' then Some [] else parse_parts (js_split CHR ''/'' path))"

fun formatSegment :: "scope_segment \<Rightarrow> string" where
  "formatSegment (SegParallel site branch) = ''par:'' @ show_nat site @ '':'' @ show_nat branch"
| "formatSegment (SegPipeline stage item) = ''pipe:'' @ show_nat stage @ '':'' @ show_nat item"
| "formatSegment (SegWorkflow name ord) = ''wf:'' @ name @ '':'' @ show_nat ord"
| "formatSegment (SegAgent sq) = ''agent:'' @ show_nat sq"
| "formatSegment (SegPlanNode nodeId) = ''plan/'' @ nodeId"

definition formatScopePath :: "scope_segment list \<Rightarrow> string" where
  "formatScopePath segs = js_join CHR ''/'' (map formatSegment segs)"

section \<open>Parallel sites\<close>

type_synonym site_counter = "(string, nat) jsmap"

definition next_site :: "site_counter \<Rightarrow> string \<Rightarrow> nat \<times> site_counter" where
  "next_site bySite enclosing =
     (let current = (case jm_get bySite enclosing of None \<Rightarrow> 0 | Some n \<Rightarrow> n)
      in (current, jm_set enclosing (current + 1) bySite))"

section \<open>Decimal numbers\<close>

lemma of_digit_char: "d < 10 \<Longrightarrow> (of_char (digit_char d) :: nat) = 48 + d"
  by (simp add: digit_char_def)

lemma is_digit_digit_char [simp]: "d < 10 \<Longrightarrow> is_digit (digit_char d)"
  by (simp add: is_digit_def of_digit_char)

lemma digit_val_char [simp]: "d < 10 \<Longrightarrow> digit_val (digit_char d) = d"
  by (simp add: digit_val_def of_digit_char)

lemma digit_char_val [simp]: "is_digit c \<Longrightarrow> digit_char (digit_val c) = c"
  by (simp add: digit_char_def digit_val_def is_digit_def)

lemma digit_val_less: "is_digit c \<Longrightarrow> digit_val c < 10"
  unfolding digit_val_def is_digit_def by linarith

lemma digit_char_zero [simp]: "digit_char 0 = CHR ''0''"
proof -
  have "(48 + 0 :: nat) = of_char CHR ''0''" by simp
  then show ?thesis unfolding digit_char_def by (metis char_of_char)
qed

lemma parse_nat_simps [simp]:
  "parse_nat [] = 0"
  "parse_nat (s @ [c]) = 10 * parse_nat s + digit_val c"
  by (simp_all add: parse_nat_def)

lemma parse_show_nat [simp]: "parse_nat (show_nat n) = n"
proof (induction n rule: show_nat.induct)
  case (1 n)
  show ?case
  proof (cases "n < 10")
    case True
    then show ?thesis using parse_nat_simps(2) [of "[]"] by (simp add: show_nat.simps [of n])
  next
    case False
    with 1 show ?thesis by (simp add: show_nat.simps [of n])
  qed
qed

lemma show_nat_digits: "list_all is_digit (show_nat n) \<and> show_nat n \<noteq> []"
proof (induction n rule: show_nat.induct)
  case (1 n)
  then show ?case by (cases "n < 10") (simp_all add: show_nat.simps [of n])
qed

lemma digit_char_eq_zero: "d < 10 \<Longrightarrow> digit_char d = CHR ''0'' \<longleftrightarrow> d = 0"
proof -
  assume d: "d < 10"
  have "digit_val CHR ''0'' = 0" by (simp add: digit_val_def)
  then show ?thesis using d digit_val_char digit_char_zero by metis
qed

lemma hd_show_nat: "n \<noteq> 0 \<Longrightarrow> hd (show_nat n) \<noteq> CHR ''0''"
proof (induction n rule: show_nat.induct)
  case (1 n)
  then show ?case
    using show_nat_digits [of "n div 10"]
    by (cases "n < 10") (simp_all add: show_nat.simps [of n] digit_char_eq_zero)
qed

lemma isNat_show_nat [simp]: "isNat (show_nat n)"
proof (cases "n = 0")
  case True
  then show ?thesis by (simp add: isNat_def show_nat.simps)
next
  case False
  then show ?thesis using show_nat_digits hd_show_nat by (simp add: isNat_def)
qed

lemma show_parse_digits:
  "s \<noteq> [] \<Longrightarrow> list_all is_digit s \<Longrightarrow> hd s \<noteq> CHR ''0'' \<Longrightarrow>
    show_nat (parse_nat s) = s \<and> 0 < parse_nat s"
proof (induction s rule: rev_induct)
  case Nil
  then show ?case by simp
next
  case (snoc c s)
  have c: "is_digit c" "digit_val c < 10" using snoc.prems by (simp_all add: digit_val_less)
  show ?case
  proof (cases "s = []")
    case True
    with snoc.prems c have "digit_val c \<noteq> 0"
      by (metis append_Nil digit_char_eq_zero digit_char_val list.sel(1))
    moreover have "parse_nat [c] = digit_val c" using parse_nat_simps(2) [of "[]" c] by simp
    ultimately show ?thesis using True c by (simp add: show_nat.simps)
  next
    case False
    with snoc have IH: "show_nat (parse_nat s) = s" "0 < parse_nat s" by simp_all
    with c show ?thesis by (simp add: show_nat.simps [of "10 * parse_nat s + digit_val c"])
  qed
qed

lemma show_parse_nat: "isNat s \<Longrightarrow> show_nat (parse_nat s) = s"
  unfolding isNat_def
proof (elim disjE)
  assume "s = ''0''"
  moreover have "parse_nat ''0'' = 0"
    using parse_nat_simps(2) [of "[]" "CHR ''0''"] by (simp add: digit_val_def)
  ultimately show ?thesis by (simp add: show_nat.simps)
qed (use show_parse_digits in blast)

lemma digits_no_sep: "is_digit c \<Longrightarrow> c \<noteq> CHR '':'' \<and> c \<noteq> CHR ''/''"
  by (auto simp: is_digit_def)

lemma show_nat_no_sep [simp]: "CHR '':'' \<notin> set (show_nat n)" "CHR ''/'' \<notin> set (show_nat n)"
  using show_nat_digits [of n] digits_no_sep by (auto simp: list_all_iff)

section \<open>Split and join\<close>

lemma js_split_not_Nil [simp]: "js_split c s \<noteq> []"
  by (induction s) (auto split: list.splits)

lemma js_join_Cons: "ps \<noteq> [] \<Longrightarrow> js_join c (p # ps) = p @ c # js_join c ps"
  by (cases ps) simp_all

lemma js_join_split [simp]: "js_join c (js_split c s) = s"
proof (induction s)
  case Nil
  then show ?case by simp
next
  case (Cons x s)
  obtain p ps where p: "js_split c s = p # ps" by (cases "js_split c s") simp_all
  with Cons show ?case by (cases ps) (simp_all add: js_join_Cons)
qed

lemma js_split_no_sep: "c \<notin> set s \<Longrightarrow> js_split c s = [s]"
  by (induction s) auto

lemma js_split_append: "c \<notin> set p \<Longrightarrow> js_split c (p @ c # s) = p # js_split c s"
  by (induction p) auto

lemma js_split_join:
  "ps \<noteq> [] \<Longrightarrow> \<forall>p\<in>set ps. c \<notin> set p \<Longrightarrow> js_split c (js_join c ps) = ps"
  by (induction c ps rule: js_join.induct) (simp_all add: js_split_no_sep js_split_append)

lemma js_split_parts: "p \<in> set (js_split c s) \<Longrightarrow> c \<notin> set p"
proof (induction s arbitrary: p)
  case Nil
  then show ?case by simp
next
  case (Cons x s)
  obtain q qs where q: "js_split c s = q # qs" by (cases "js_split c s") simp_all
  with Cons show ?case by (auto split: if_splits)
qed

lemma js_join_append: "ps \<noteq> [] \<Longrightarrow> qs \<noteq> [] \<Longrightarrow> js_join c (ps @ qs) = js_join c ps @ c # js_join c qs"
  by (induction c ps rule: js_join.induct) (simp_all add: js_join_Cons)

lemma js_split_snoc_last:
  assumes "c \<notin> set t"
  shows "js_split c (s @ c # t) = js_split c s @ [t]"
proof -
  have "js_split c (js_join c (js_split c s @ [t])) = js_split c s @ [t]"
    using assms js_split_parts by (intro js_split_join) auto
  then show ?thesis by (simp add: js_join_append)
qed

section \<open>Coverage of scopes\<close>

lemma starts_with_iff: "starts_with s p \<longleftrightarrow> (\<exists>r. s = p @ r)"
  unfolding starts_with_def by (metis append_eq_conv_conj append_take_drop_id)

lemma under_prefix_iff: "under_prefix s p \<longleftrightarrow> s = p \<or> (\<exists>r. s = p @ ''/'' @ r)"
  by (auto simp: under_prefix_def starts_with_iff)

lemma under_prefix_refl [simp]: "under_prefix s s"
  by (simp add: under_prefix_def)

lemma under_prefix_trans: "under_prefix s p \<Longrightarrow> under_prefix p q \<Longrightarrow> under_prefix s q"
  by (auto simp: under_prefix_iff)

lemma under_prefix_join: "p \<noteq> '''' \<Longrightarrow> under_prefix (joinScope p seg) p"
  by (auto simp: under_prefix_iff joinScope_def)

lemma under_prefix_agentScope: "p \<noteq> '''' \<Longrightarrow> under_prefix (agentScope p n) p"
  by (simp add: agentScope_def under_prefix_join)

section \<open>The grammar is unambiguous\<close>

text \<open>What a segment may carry: a nonempty workflow name without a slash, a ULID node id.\<close>

fun wf_segment :: "scope_segment \<Rightarrow> bool" where
  "wf_segment (SegWorkflow name _) \<longleftrightarrow> name \<noteq> '''' \<and> CHR ''/'' \<notin> set name"
| "wf_segment (SegPlanNode nodeId) \<longleftrightarrow> isNodeId nodeId"
| "wf_segment _ \<longleftrightarrow> True"

fun seg_parts :: "scope_segment \<Rightarrow> string list" where
  "seg_parts (SegPlanNode nodeId) = [''plan'', nodeId]"
| "seg_parts seg = [formatSegment seg]"

lemma seg_parts_join [simp]: "js_join CHR ''/'' (seg_parts seg) = formatSegment seg" "seg_parts seg \<noteq> []"
  by (cases seg; simp)+

lemma format_as_parts: "js_join CHR ''/'' (map formatSegment segs) = js_join CHR ''/'' (concat (map seg_parts segs))"
proof (induction segs)
  case Nil
  then show ?case by simp
next
  case (Cons seg segs)
  show ?case
  proof (cases "segs = []")
    case True
    then show ?thesis by simp
  next
    case False
    then have "concat (map seg_parts segs) \<noteq> []" using seg_parts_join(2) by (cases segs) auto
    with False Cons show ?thesis by (simp add: js_join_Cons js_join_append)
  qed
qed

lemma isNodeId_no_sep: "isNodeId s \<Longrightarrow> CHR ''/'' \<notin> set s"
  by (auto simp: isNodeId_def list_all_iff is_ulid_char_def is_digit_def)

lemma seg_parts_no_slash: "wf_segment seg \<Longrightarrow> p \<in> set (seg_parts seg) \<Longrightarrow> CHR ''/'' \<notin> set p"
  by (cases seg) (auto dest: isNodeId_no_sep)

lemma js_join_split_two: "js_split c s = ps \<Longrightarrow> s = js_join c ps"
  by (metis js_join_split)

lemma js_split_starts:
  assumes "starts_with s (q @ [c])" "c \<notin> set q"
  shows "\<exists>r. s = q @ c # r \<and> js_split c s = q # js_split c r"
proof -
  obtain r where "s = q @ c # r" using assms(1) by (auto simp: starts_with_iff)
  then show ?thesis using js_split_append [OF assms(2)] by blast
qed

lemma parse_counted_format:
  assumes "wf_segment seg" "\<And>i. seg \<noteq> SegPlanNode i"
  shows "parse_counted (formatSegment seg) = Some seg"
proof (cases seg)
  case (SegWorkflow name ord)
  have "js_split CHR '':'' (formatSegment seg) = ''wf'' # js_split CHR '':'' name @ [show_nat ord]"
    by (simp add: SegWorkflow js_split_snoc_last)
  moreover have "length (js_split CHR '':'' name) \<ge> 1"
    by (metis js_split_not_Nil length_greater_0_conv less_eq_Suc_le One_nat_def)
  ultimately show ?thesis
    using assms(1) SegWorkflow by (auto simp: parse_counted_def starts_with_def Let_def)
qed (use assms in \<open>simp_all add: parse_counted_def starts_with_def js_split_append js_split_no_sep\<close>)

lemma formatSegment_not_plan: "(\<And>i. seg \<noteq> SegPlanNode i) \<Longrightarrow> formatSegment seg \<noteq> ''plan''"
  by (cases seg) auto

lemma parse_parts_format:
  "list_all wf_segment segs \<Longrightarrow> parse_parts (concat (map seg_parts segs)) = Some segs"
proof (induction segs)
  case Nil
  then show ?case by simp
next
  case (Cons seg segs)
  show ?case
  proof (cases "\<exists>i. seg = SegPlanNode i")
    case True
    with Cons show ?thesis by auto
  next
    case False
    then have "seg_parts seg = [formatSegment seg]" by (cases seg) auto
    with Cons False show ?thesis by (simp add: parse_counted_format formatSegment_not_plan)
  qed
qed

text \<open>Everything the parser accepts prints back to the very path it read.\<close>

lemma parse_three:
  assumes "starts_with part (q @ '':'')" "CHR '':'' \<notin> set q"
    and "js_split CHR '':'' part = [x, a, b]" "isNat a" "isNat b"
  shows "q @ '':'' @ show_nat (parse_nat a) @ '':'' @ show_nat (parse_nat b) = part"
proof -
  obtain r where "js_split CHR '':'' part = q # js_split CHR '':'' r"
    using js_split_starts [of part q "CHR '':''"] assms(1,2) by blast
  with assms(3) have "x = q" by simp
  then show ?thesis
    using js_join_split_two [OF assms(3)] assms(4,5) by (simp add: show_parse_nat)
qed

lemma parse_wf:
  assumes "starts_with part ''wf:''" "3 \<le> length (js_split CHR '':'' part)"
    and "isNat (last (js_split CHR '':'' part))"
  shows "''wf:'' @ js_join CHR '':'' (butlast (tl (js_split CHR '':'' part))) @ '':''
    @ show_nat (parse_nat (last (js_split CHR '':'' part))) = part"
proof -
  let ?ps = "js_split CHR '':'' part"
  obtain r where r: "part = ''wf:'' @ r" "?ps = ''wf'' # js_split CHR '':'' r"
    using assms(1) js_split_starts [of part "''wf''" "CHR '':''"] by force
  let ?qs = "js_split CHR '':'' r"
  have len: "2 \<le> length ?qs" using assms(2) r by simp
  have "length (butlast ?qs) \<noteq> 0" using len by simp
  then have ne: "butlast ?qs \<noteq> []" by blast
  have qs: "butlast ?qs @ [last ?qs] = ?qs" by (rule append_butlast_last_id) simp
  have "r = js_join CHR '':'' (butlast ?qs) @ '':'' @ last ?qs"
    using js_join_append [OF ne, of "[last ?qs]" "CHR '':''"] unfolding qs by simp
  moreover have "tl ?ps = ?qs" "last ?ps = last ?qs" using r(2) by simp_all
  ultimately show ?thesis using r(1) assms(3) by (simp add: show_parse_nat)
qed

lemma parse_counted_sound:
  assumes "parse_counted part = Some seg" "CHR ''/'' \<notin> set part"
  shows "seg_parts seg = [part] \<and> wf_segment seg"
proof -
  consider
    (par) x a b where "starts_with part ''par:''" "js_split CHR '':'' part = [x, a, b]" "isNat a" "isNat b"
      "seg = SegParallel (parse_nat a) (parse_nat b)"
  | (pipe) x a b where "starts_with part ''pipe:''" "js_split CHR '':'' part = [x, a, b]" "isNat a" "isNat b"
      "seg = SegPipeline (parse_nat a) (parse_nat b)"
  | (wf) "starts_with part ''wf:''" "3 \<le> length (js_split CHR '':'' part)"
      "isNat (last (js_split CHR '':'' part))" "js_join CHR '':'' (butlast (tl (js_split CHR '':'' part))) \<noteq> ''''"
      "seg = SegWorkflow (js_join CHR '':'' (butlast (tl (js_split CHR '':'' part))))
               (parse_nat (last (js_split CHR '':'' part)))"
  | (agent) x a where "starts_with part ''agent:''" "js_split CHR '':'' part = [x, a]" "isNat a"
      "seg = SegAgent (parse_nat a)"
    using assms(1) unfolding parse_counted_def Let_def
    by (auto split: if_splits list.splits)
  then show ?thesis
  proof cases
    case par
    then show ?thesis using parse_three [of part "''par''" x a b] by simp
  next
    case pipe
    then show ?thesis using parse_three [of part "''pipe''" x a b] by simp
  next
    case wf
    note eq = parse_wf [OF wf(1-3)]
    have "CHR ''/'' \<notin> set (js_join CHR '':'' (butlast (tl (js_split CHR '':'' part))))"
      using assms(2) by (subst (asm) eq [symmetric]) simp
    with wf(4,5) eq show ?thesis by simp
  next
    case agent
    obtain r where "js_split CHR '':'' part = ''agent'' # js_split CHR '':'' r"
      using agent(1) js_split_starts [of part "''agent''" "CHR '':''"] by force
    then show ?thesis
      using agent js_join_split_two [OF agent(2)] by (simp add: show_parse_nat)
  qed
qed

lemma parse_parts_sound:
  "parse_parts ps = Some segs \<Longrightarrow> \<forall>p\<in>set ps. CHR ''/'' \<notin> set p \<Longrightarrow>
    concat (map seg_parts segs) = ps \<and> list_all wf_segment segs"
proof (induction ps arbitrary: segs rule: parse_parts.induct)
  case 1
  then show ?case by simp
next
  case (2 part parts)
  show ?case
  proof (cases "part = ''plan''")
    case True
    with "2.prems" obtain i rest segs' where "parts = i # rest" "isNodeId i"
      "parse_parts rest = Some segs'" "segs = SegPlanNode i # segs'"
      by (auto split: list.splits if_splits)
    with 2 True show ?thesis by simp
  next
    case False
    with "2.prems" obtain seg segs' where "parse_counted part = Some seg"
      "parse_parts parts = Some segs'" "segs = seg # segs'"
      by (auto split: option.splits)
    with 2 False show ?thesis by (simp add: parse_counted_sound)
  qed
qed

lemma formatSegment_nonempty: "formatSegment seg \<noteq> ''''"
  by (cases seg) simp_all

section \<open>Properties\<close>



end
