(* ===== verification/Kinds.thy ===== *)
theory Kinds
  imports Entries
begin

text \<open>
  The shape rules of engine-written entries, \<open>packages/core/src/journal/kinds.ts\<close>: the kinds
  registry, the legal statuses per kind, the two-phase and ref-entry kinds and the validator.
  An issue keeps the rule it reports; the message text is not kept. \<open>Date.parse\<close> is the
  predicate \<open>parses\<close> of the date strings it accepts.
\<close>

datatype shape_issue =
    UnknownKind
  | IllegalStatus
  | RefRequired
  | ForwardRef
  | ResolutionPayloadRequired
  | AbandonPayloadRequired
  | SinglePhaseRef
  | TerminalRunning
  | RandPayload
  | RandValueType
  | DecisionTypeRequired
  | ExternalDeadline
  | DeadlineNotSuspended
  | DeadlineUnparsable
  | EscalationRequired
  | EscalationIllegal

definition KNOWN_KINDS :: "entry_kind list" where
  "KNOWN_KINDS =
     [K_agent, K_step, K_child, K_external, K_approval, K_rand, K_decision, K_plan_revision,
      K_plan_decision, K_ledger_op, K_resolution, K_abandon, K_node_link, K_termination_init,
      K_termination_denied]"

fun LEGAL_STATUSES :: "entry_kind \<Rightarrow> entry_status list option" where
  "LEGAL_STATUSES K_agent = Some [S_running, S_ok, S_error, S_limit, S_cancelled, S_escalated]"
| "LEGAL_STATUSES K_step = Some [S_running, S_ok, S_error]"
| "LEGAL_STATUSES K_child = Some [S_running, S_ok, S_error, S_limit, S_cancelled]"
| "LEGAL_STATUSES K_external = Some [S_suspended]"
| "LEGAL_STATUSES K_approval = Some [S_suspended]"
| "LEGAL_STATUSES (K_unknown k) = None"
| "LEGAL_STATUSES _ = Some [S_ok]"

definition TWO_PHASE_KINDS :: "entry_kind list" where
  "TWO_PHASE_KINDS = [K_agent, K_step, K_child]"

text \<open>The \<open>ref\<close> rules of ref-entries and of terminal phases.\<close>

definition ref_issues :: "journal_entry \<Rightarrow> shape_issue list" where
  "ref_issues e =
     (if je_kind e \<in> set REF_ENTRY_KINDS then
        (case je_ref e of
           None \<Rightarrow> [RefRequired]
         | Some r \<Rightarrow> if r \<ge> je_seq e then [ForwardRef] else [])
        @ (if je_kind e = K_resolution \<and> je_resolution e = None then [ResolutionPayloadRequired] else [])
        @ (if je_kind e = K_abandon \<and> je_abandon e = None then [AbandonPayloadRequired] else [])
      else
        (case je_ref e of
           None \<Rightarrow> []
         | Some r \<Rightarrow>
             if je_kind e \<notin> set TWO_PHASE_KINDS then [SinglePhaseRef]
             else if je_status e = S_running then [TerminalRunning]
             else if r \<ge> je_seq e then [ForwardRef]
             else []))"

text \<open>
  The payload rules of \<open>rand\<close> and \<open>decision\<close>. The guard only tests for \<open>undefined\<close>, so a
  \<open>null\<close> value throws when its member is read.
\<close>

definition rand_issues :: "journal_entry \<Rightarrow> shape_issue list result" where
  "rand_issues e =
     (if je_kind e \<noteq> K_rand then Inr []
      else if je_value e = None then Inr [RandPayload]
      else bindR (js_member (je_value e) ''subtype'') (\<lambda>subtype.
             if subtype \<noteq> Some (JStr ''now'') \<and> subtype \<noteq> Some (JStr ''random'')
                \<and> subtype \<noteq> Some (JStr ''uuid'') then Inr [RandPayload]
             else bindR (js_member (je_value e) ''value'') (\<lambda>v.
               if subtype = Some (JStr ''uuid'') \<and> as_string v = None
                  \<or> subtype \<noteq> Some (JStr ''uuid'') \<and> as_number v = None
               then Inr [RandValueType] else Inr [])))"

definition decision_issues :: "journal_entry \<Rightarrow> shape_issue list result" where
  "decision_issues e =
     (if je_kind e \<noteq> K_decision then Inr []
      else if je_value e = None then Inr [DecisionTypeRequired]
      else bindR (js_member (je_value e) ''decisionType'') (\<lambda>t.
             Inr (if as_string t = None then [DecisionTypeRequired] else [])))"

definition tail_issues :: "(string \<Rightarrow> bool) \<Rightarrow> journal_entry \<Rightarrow> shape_issue list" where
  "tail_issues parses e =
     (if je_kind e = K_external \<and> je_deadlineAt e \<noteq> None then [ExternalDeadline] else [])
     @ (if je_deadlineAt e \<noteq> None \<and> je_status e \<noteq> S_suspended then [DeadlineNotSuspended] else [])
     @ (case je_deadlineAt e of
          None \<Rightarrow> []
        | Some d \<Rightarrow> if parses d then [] else [DeadlineUnparsable])
     @ (if je_status e = S_escalated \<and> je_escalation e = None then [EscalationRequired] else [])
     @ (if je_escalation e \<noteq> None \<and> je_status e \<noteq> S_escalated then [EscalationIllegal] else [])"

definition validateEntryShape :: "(string \<Rightarrow> bool) \<Rightarrow> journal_entry \<Rightarrow> shape_issue list result" where
  "validateEntryShape parses e =
     (if je_kind e \<notin> set KNOWN_KINDS then Inr [UnknownKind]
      else
        let statusIssues = (case LEGAL_STATUSES (je_kind e) of
              None \<Rightarrow> []
            | Some legal \<Rightarrow> if je_status e \<in> set legal then [] else [IllegalStatus])
        in bindR (rand_issues e) (\<lambda>randIssues.
           bindR (decision_issues e) (\<lambda>decisionIssues.
             Inr (statusIssues @ ref_issues e @ randIssues @ decisionIssues @ tail_issues parses e))))"

section \<open>What a valid shape promises\<close>

definition valid_shape :: "(string \<Rightarrow> bool) \<Rightarrow> journal_entry \<Rightarrow> bool" where
  "valid_shape parses e \<longleftrightarrow> validateEntryShape parses e = Inr []"

lemma known_kind_iff: "k \<in> set KNOWN_KINDS \<longleftrightarrow> (\<forall>s. k \<noteq> K_unknown s)"
  by (cases k) (auto simp: KNOWN_KINDS_def)

lemma legal_status_known:
  "k \<in> set KNOWN_KINDS \<Longrightarrow> \<exists>legal. LEGAL_STATUSES k = Some legal"
  by (cases k) (auto simp: KNOWN_KINDS_def)

lemma valid_shape_parts:
  assumes "valid_shape parses e"
  shows "je_kind e \<in> set KNOWN_KINDS"
    "\<exists>legal. LEGAL_STATUSES (je_kind e) = Some legal \<and> je_status e \<in> set legal"
    "ref_issues e = []" "rand_issues e = Inr []" "decision_issues e = Inr []"
    "tail_issues parses e = []"
  using assms legal_status_known [of "je_kind e"]
  by (auto simp: valid_shape_def validateEntryShape_def Let_def result_simps split: if_splits)

lemma ref_issues_Nil_ref_entry:
  assumes "ref_issues e = []" "je_kind e \<in> set REF_ENTRY_KINDS"
  shows "\<exists>r. je_ref e = Some r \<and> r < je_seq e"
    and "je_kind e = K_resolution \<Longrightarrow> je_resolution e \<noteq> None"
    and "je_kind e = K_abandon \<Longrightarrow> je_abandon e \<noteq> None"
  using assms by (auto simp: ref_issues_def split: option.splits if_splits)

lemma ref_issues_Nil_backward:
  "ref_issues e = [] \<Longrightarrow> je_ref e = Some r \<Longrightarrow> r < je_seq e"
  by (auto simp: ref_issues_def split: if_splits)

lemma valid_shape_backward: "valid_shape parses e \<Longrightarrow> je_ref e = Some r \<Longrightarrow> r < je_seq e"
  using valid_shape_parts(3) ref_issues_Nil_backward by blast

lemma ref_issues_Nil_terminal:
  assumes "ref_issues e = []" "je_ref e = Some r" "je_kind e \<notin> set REF_ENTRY_KINDS"
  shows "je_kind e \<in> set TWO_PHASE_KINDS \<and> je_status e \<noteq> S_running"
  using assms by (auto simp: ref_issues_def split: if_splits)

lemma tail_issues_Nil:
  assumes "tail_issues parses e = []"
  shows "\<And>d. je_deadlineAt e = Some d \<Longrightarrow> je_status e = S_suspended \<and> parses d \<and> je_kind e \<noteq> K_external"
    and "je_escalation e \<noteq> None \<longleftrightarrow> je_status e = S_escalated"
  using assms by (auto simp: tail_issues_def split: option.splits if_splits)

lemma suspended_kinds:
  "LEGAL_STATUSES k = Some legal \<Longrightarrow> S_suspended \<in> set legal \<Longrightarrow> k = K_external \<or> k = K_approval"
  by (cases k) auto

lemma escalated_kinds: "LEGAL_STATUSES k = Some legal \<Longrightarrow> S_escalated \<in> set legal \<Longrightarrow> k = K_agent"
  by (cases k) auto

text \<open>
  An entry the shape gate lets through has a registered kind, points only backward, is
  suspended only as an external or approval (and a deadline sits only on an approval, as a date
  that parses), and carries an escalation report exactly when it is an escalated agent terminal; a
  ref-entry has its target and its payload.
\<close>

lemma validateEntryShape_sound:
  "valid_shape parses e \<longrightarrow>
     je_kind e \<in> set KNOWN_KINDS
     \<and> (\<forall>r. je_ref e = Some r \<longrightarrow> r < je_seq e)
     \<and> (je_status e = S_suspended \<longrightarrow> je_kind e = K_external \<or> je_kind e = K_approval)
     \<and> (\<forall>d. je_deadlineAt e = Some d \<longrightarrow> je_kind e = K_approval \<and> je_status e = S_suspended \<and> parses d)
     \<and> (je_escalation e \<noteq> None \<longleftrightarrow> je_status e = S_escalated)
     \<and> (je_status e = S_escalated \<longrightarrow> je_kind e = K_agent)
     \<and> (je_kind e = K_resolution \<longrightarrow> je_ref e \<noteq> None \<and> je_resolution e \<noteq> None)
     \<and> (je_kind e = K_abandon \<longrightarrow> je_ref e \<noteq> None \<and> je_abandon e \<noteq> None)"
proof (rule impI)
  assume v: "valid_shape parses e"
  note parts = valid_shape_parts [OF v]
  note tl = tail_issues_Nil [OF parts(6)]
  note rf = ref_issues_Nil_ref_entry [OF parts(3)]
  have susp: "je_status e = S_suspended \<Longrightarrow> je_kind e = K_external \<or> je_kind e = K_approval"
    using parts(2) suspended_kinds by metis
  have esc: "je_status e = S_escalated \<Longrightarrow> je_kind e = K_agent"
    using parts(2) escalated_kinds by metis
  have dl: "je_kind e = K_approval \<and> je_status e = S_suspended \<and> parses d" if "je_deadlineAt e = Some d" for d
    using tl(1) [OF that] susp by blast
  have "je_kind e = K_resolution \<Longrightarrow> je_ref e \<noteq> None \<and> je_resolution e \<noteq> None"
    and "je_kind e = K_abandon \<Longrightarrow> je_ref e \<noteq> None \<and> je_abandon e \<noteq> None"
    using rf by (auto simp: REF_ENTRY_KINDS_def)
  with v parts(1) tl(2) susp esc dl valid_shape_backward show
    "je_kind e \<in> set KNOWN_KINDS
     \<and> (\<forall>r. je_ref e = Some r \<longrightarrow> r < je_seq e)
     \<and> (je_status e = S_suspended \<longrightarrow> je_kind e = K_external \<or> je_kind e = K_approval)
     \<and> (\<forall>d. je_deadlineAt e = Some d \<longrightarrow> je_kind e = K_approval \<and> je_status e = S_suspended \<and> parses d)
     \<and> (je_escalation e \<noteq> None \<longleftrightarrow> je_status e = S_escalated)
     \<and> (je_status e = S_escalated \<longrightarrow> je_kind e = K_agent)
     \<and> (je_kind e = K_resolution \<longrightarrow> je_ref e \<noteq> None \<and> je_resolution e \<noteq> None)
     \<and> (je_kind e = K_abandon \<longrightarrow> je_ref e \<noteq> None \<and> je_abandon e \<noteq> None)"
    by blast
qed

end
