(* ===== verification/Jcs.thy ===== *)
theory Jcs
  imports Json Scope "HOL-Library.List_Lexorder" "HOL-Library.Char_ord"
begin

text \<open>
  The canonical serializer \<open>packages/core/src/l0/jcs.ts\<close> (RFC 8785) on JSON values. Strings are
  sequences of code units below 256, where the order of \<open>Array.prototype.sort\<close> is the
  lexicographic order of the codes. \<open>JSON.stringify\<close> of a string is written out; the ECMAScript
  number format is the parameter \<open>numstr\<close>. The values of this type are finite and carry no
  \<open>undefined\<close>, so the three throwing branches of the source are outside its domain.
\<close>

section \<open>\<open>JSON.stringify\<close> on strings\<close>

definition hex_char :: "nat \<Rightarrow> char" where
  "hex_char d = (if d < 10 then char_of (48 + d) else char_of (87 + d))"

definition quote_char :: "char \<Rightarrow> string" where
  "quote_char c =
     (let n = of_char c :: nat in
      if n = 34 then [CHR 0x5C, CHR 0x22]
      else if n = 92 then [CHR 0x5C, CHR 0x5C]
      else if n = 8 then [CHR 0x5C, CHR ''b'']
      else if n = 9 then [CHR 0x5C, CHR ''t'']
      else if n = 10 then [CHR 0x5C, CHR ''n'']
      else if n = 12 then [CHR 0x5C, CHR ''f'']
      else if n = 13 then [CHR 0x5C, CHR ''r'']
      else if n < 32 then [CHR 0x5C, CHR ''u'', CHR ''0'', CHR ''0'', hex_char (n div 16), hex_char (n mod 16)]
      else [c])"

definition stringify_string :: "string \<Rightarrow> string" where
  "stringify_string s = CHR 0x22 # concat (map quote_char s) @ [CHR 0x22]"

section \<open>The serializer\<close>

primrec jcsSerialize :: "(rat \<Rightarrow> string) \<Rightarrow> json \<Rightarrow> string" where
  "jcsSerialize numstr JNull = ''null''"
| "jcsSerialize numstr (JBool b) = (if b then ''true'' else ''false'')"
| "jcsSerialize numstr (JNum n) = numstr n"
| "jcsSerialize numstr (JStr s) = stringify_string s"
| "jcsSerialize numstr (JArr xs) =
     ''['' @ js_join CHR '','' (map (jcsSerialize numstr) xs) @ '']''"
| "jcsSerialize numstr (JObj kvs) =
     CHR 0x7B # js_join CHR '',''
       (map (\<lambda>(key, text). stringify_string key @ '':'' @ text)
         (sort_key fst (map (map_prod id (jcsSerialize numstr)) kvs))) @ [CHR 0x7D]"

text \<open>The value with every object's members in canonical order.\<close>

primrec canonical_json :: "json \<Rightarrow> json" where
  "canonical_json JNull = JNull"
| "canonical_json (JBool b) = JBool b"
| "canonical_json (JNum n) = JNum n"
| "canonical_json (JStr s) = JStr s"
| "canonical_json (JArr xs) = JArr (map canonical_json xs)"
| "canonical_json (JObj kvs) = JObj (sort_key fst (map (map_prod id canonical_json) kvs))"

text \<open>The serializer that keeps the members in their order, the reference for the proofs.\<close>

primrec plain_ser :: "(rat \<Rightarrow> string) \<Rightarrow> json \<Rightarrow> string" where
  "plain_ser numstr JNull = ''null''"
| "plain_ser numstr (JBool b) = (if b then ''true'' else ''false'')"
| "plain_ser numstr (JNum n) = numstr n"
| "plain_ser numstr (JStr s) = stringify_string s"
| "plain_ser numstr (JArr xs) = ''['' @ js_join CHR '','' (map (plain_ser numstr) xs) @ '']''"
| "plain_ser numstr (JObj kvs) =
     CHR 0x7B # js_join CHR '',''
       (map (\<lambda>(key, text). stringify_string key @ '':'' @ text)
         (map (map_prod id (plain_ser numstr)) kvs)) @ [CHR 0x7D]"

lemma insort_key_map_snd:
  "insort_key fst (map_prod id f x) (map (map_prod id f) ys) = map (map_prod id f) (insort_key fst x ys)"
  by (induction ys) auto

lemma sort_key_map_snd: "sort_key fst (map (map_prod id f) xs) = map (map_prod id f) (sort_key fst xs)"
  by (induction xs) (simp_all only: list.map sort_key_simps insort_key_map_snd)

lemma jcs_canonical: "jcsSerialize numstr v = plain_ser numstr (canonical_json v)"
proof (induction v)
  case (JArr xs)
  then have "map (jcsSerialize numstr) xs = map (plain_ser numstr) (map canonical_json xs)" by simp
  then show ?case by (metis canonical_json.simps(5) jcsSerialize.simps(5) plain_ser.simps(5))
next
  case (JObj kvs)
  have "map (map_prod id (jcsSerialize numstr)) kvs
      = map (map_prod id (plain_ser numstr)) (map (map_prod id canonical_json) kvs)"
    using JObj by auto
  then show ?case
    by (simp only: jcsSerialize.simps canonical_json.simps plain_ser.simps sort_key_map_snd)
qed simp_all

section \<open>Reading back\<close>

text \<open>One character of a quoted string, read back.\<close>

definition hex_val :: "char \<Rightarrow> nat" where
  "hex_val c = (if (of_char c :: nat) < 58 then of_char c - 48 else of_char c - 87)"

fun unquote_char :: "string \<Rightarrow> (char \<times> string) option" where
  "unquote_char [] = None"
| "unquote_char (c # r) =
     (if c = CHR 0x5C then
        (case r of
           [] \<Rightarrow> None
         | e # r' \<Rightarrow>
             if e = CHR ''u'' then
               (case r' of
                  z1 # z2 # a # b # r'' \<Rightarrow> Some (char_of (16 * hex_val a + hex_val b), r'')
                | _ \<Rightarrow> None)
             else Some (if e = CHR ''b'' then CHR 0x08 else if e = CHR ''t'' then CHR 0x09
                        else if e = CHR ''n'' then CHR 0x0A else if e = CHR ''f'' then CHR 0x0C
                        else if e = CHR ''r'' then CHR 0x0D else e, r'))
      else Some (c, r))"

lemma hex_val_char: "d < 16 \<Longrightarrow> hex_val (hex_char d) = d"
  by (auto simp: hex_val_def hex_char_def)

lemma char_code_eq: "(of_char c :: nat) = n \<Longrightarrow> c = char_of n"
  by (metis char_of_char)

lemma unquote_quote_char: "unquote_char (quote_char c @ r) = Some (c, r)"
proof -
  let ?n = "of_char c :: nat"
  consider "?n = 34" | "?n = 92" | "?n = 8" | "?n = 9" | "?n = 10" | "?n = 12" | "?n = 13"
    | (ctl) "?n < 32" "?n \<notin> {8, 9, 10, 12, 13}" | (plain) "32 \<le> ?n" "?n \<noteq> 34" "?n \<noteq> 92" by fastforce
  then show ?thesis
  proof cases
    case ctl
    have "char_of (16 * hex_val (hex_char (?n div 16)) + hex_val (hex_char (?n mod 16))) = c"
    proof -
      have "?n div 16 < 16" using ctl by simp
      then have "16 * hex_val (hex_char (?n div 16)) + hex_val (hex_char (?n mod 16)) = ?n"
        by (simp add: hex_val_char)
      then show ?thesis by simp
    qed
    moreover have "quote_char c = [CHR 0x5C, CHR ''u'', CHR ''0'', CHR ''0'', hex_char (?n div 16), hex_char (?n mod 16)]"
      using ctl by (simp add: quote_char_def Let_def)
    ultimately show ?thesis by simp
  next
    case plain
    then have "c \<noteq> CHR 0x5C" by auto
    with plain show ?thesis by (simp add: quote_char_def)
  qed (auto simp: quote_char_def char_of_def bit_0 dest!: char_code_eq)
qed

lemma quote_char_head: "\<exists>h t. quote_char c = h # t \<and> h \<noteq> CHR 0x22"
  by (auto simp: quote_char_def Let_def)

lemma quoted_inj:
  "concat (map quote_char s) @ CHR 0x22 # r = concat (map quote_char s') @ CHR 0x22 # r'
    \<Longrightarrow> s = s' \<and> r = r'"
proof (induction s arbitrary: s')
  case Nil
  then show ?case
  proof (cases s')
    case (Cons c t)
    with Nil quote_char_head [of c] show ?thesis by auto
  qed simp
next
  case (Cons c s)
  show ?case
  proof (cases s')
    case Nil
    with Cons.prems quote_char_head [of c] show ?thesis by auto
  next
    case (Cons c' t)
    let ?u = "\<lambda>s r. concat (map quote_char s) @ CHR 0x22 # r"
    have "quote_char c @ ?u s r = quote_char c' @ ?u t r'" using Cons.prems Cons by simp
    then have "unquote_char (quote_char c @ ?u s r) = unquote_char (quote_char c' @ ?u t r')" by simp
    then have "c = c'" "?u s r = ?u t r'" unfolding unquote_quote_char by simp_all
    with Cons.IH Cons show ?thesis by simp
  qed
qed

lemma stringify_string_inj:
  "stringify_string s @ r = stringify_string s' @ r' \<Longrightarrow> s = s' \<and> r = r'"
  using quoted_inj [of s r s' r'] by (simp add: stringify_string_def)


section \<open>The serialization determines the canonical value\<close>

text \<open>
  What the proofs use of ECMAScript's number format: it is injective, not empty, and writes only
  digits, a sign, a point and an exponent.
\<close>

definition number_char :: "char \<Rightarrow> bool" where
  "number_char c \<longleftrightarrow> is_digit c \<or> c \<in> {CHR ''-'', CHR ''+'', CHR ''.'', CHR ''e''}"

definition good_numstr :: "(rat \<Rightarrow> string) \<Rightarrow> bool" where
  "good_numstr numstr \<longleftrightarrow> inj numstr \<and>
     (\<forall>n. numstr n \<noteq> [] \<and> list_all number_char (numstr n) \<and> hd (numstr n) \<noteq> CHR ''e'')"

definition at_delimiter :: "string \<Rightarrow> bool" where
  "at_delimiter r \<longleftrightarrow> r = [] \<or> hd r \<in> {CHR '','', CHR '']'', CHR 0x7D}"

lemma at_delimiter_not_number: "at_delimiter (c # r) \<Longrightarrow> \<not> number_char c"
  by (auto simp: at_delimiter_def number_char_def is_digit_def)

lemma number_prefix_inj:
  "list_all number_char s \<Longrightarrow> list_all number_char s' \<Longrightarrow> at_delimiter r \<Longrightarrow> at_delimiter r' \<Longrightarrow>
    s @ r = s' @ r' \<Longrightarrow> s = s' \<and> r = r'"
proof (induction s arbitrary: s')
  case Nil
  then show ?case by (cases s') (auto dest: at_delimiter_not_number)
next
  case (Cons c s)
  then show ?case by (cases s') (auto dest: at_delimiter_not_number)
qed

text \<open>The first character tells the constructor.\<close>

datatype json_shape = Sh_null | Sh_true | Sh_false | Sh_num | Sh_str | Sh_arr | Sh_obj

fun shape_of :: "json \<Rightarrow> json_shape" where
  "shape_of JNull = Sh_null"
| "shape_of (JBool b) = (if b then Sh_true else Sh_false)"
| "shape_of (JNum _) = Sh_num"
| "shape_of (JStr _) = Sh_str"
| "shape_of (JArr _) = Sh_arr"
| "shape_of (JObj _) = Sh_obj"

definition head_shape :: "char \<Rightarrow> json_shape" where
  "head_shape c =
     (if c = CHR ''n'' then Sh_null else if c = CHR ''t'' then Sh_true else if c = CHR ''f'' then Sh_false
      else if c = CHR 0x22 then Sh_str else if c = CHR ''['' then Sh_arr else if c = CHR 0x7B then Sh_obj
      else Sh_num)"

lemma number_head: "good_numstr numstr \<Longrightarrow> \<exists>c s. numstr n = c # s \<and> number_char c"
  by (cases "numstr n") (auto simp: good_numstr_def dest: spec [of _ n])

lemma plain_ser_head:
  assumes "good_numstr numstr"
  shows "\<exists>c s. plain_ser numstr v = c # s \<and> head_shape c = shape_of v"
proof (cases v)
  case (JNum n)
  obtain c s where "numstr n = c # s" "number_char c" using number_head [OF assms] by blast
  with JNum show ?thesis by (auto simp: head_shape_def number_char_def is_digit_def)
qed (auto simp: head_shape_def stringify_string_def)

lemma plain_ser_not_close:
  assumes "good_numstr numstr"
  shows "\<exists>h t. plain_ser numstr v = h # t \<and> h \<noteq> CHR '']''"
proof (cases v)
  case (JNum n)
  obtain c s where "numstr n = c # s" "number_char c" using number_head [OF assms] by blast
  with JNum show ?thesis by (auto simp: number_char_def is_digit_def)
qed (simp_all add: stringify_string_def)

lemma plain_ser_shape:
  assumes "good_numstr numstr" "plain_ser numstr v @ r = plain_ser numstr v' @ r'"
  shows "shape_of v = shape_of v'"
proof -
  obtain c s c' s' where "plain_ser numstr v = c # s" "head_shape c = shape_of v"
    "plain_ser numstr v' = c' # s'" "head_shape c' = shape_of v'"
    using plain_ser_head [OF assms(1)] by metis
  with assms(2) show ?thesis by simp
qed

text \<open>Joined items are read back one by one: an item is followed by a comma or the closing bracket.\<close>

lemma js_join_Cons_tail:
  "js_join c (p # ps) @ z # r = p @ (if ps = [] then z # r else c # js_join c ps @ z # r)"
  by (cases ps) simp_all

lemma joined_inj:
  assumes "\<And>x y r r'. x \<in> set xs \<Longrightarrow> at_delimiter r \<Longrightarrow> at_delimiter r' \<Longrightarrow> f x @ r = f y @ r' \<Longrightarrow> x = y \<and> r = r'"
    and "\<And>x. \<exists>h t. f x = h # t \<and> h \<noteq> z" "z \<noteq> CHR '',''" "z \<in> {CHR '']'', CHR 0x7D}"
    and "js_join CHR '','' (map f xs) @ z # r = js_join CHR '','' (map f ys) @ z # r'"
  shows "xs = ys \<and> r = r'"
  using assms(1,5)
proof (induction xs arbitrary: ys)
  case Nil
  then show ?case
  proof (cases ys)
    case (Cons y ys')
    obtain h t where "f y = h # t" "h \<noteq> z" using assms(2) by blast
    with Nil Cons show ?thesis by (simp only: list.map js_join_Cons_tail) simp
  qed simp
next
  case (Cons x xs)
  obtain h t where h: "f x = h # t" "h \<noteq> z" using assms(2) by blast
  show ?case
  proof (cases ys)
    case Nil
    with Cons.prems(2) h show ?thesis by (simp only: list.map js_join_Cons_tail) simp
  next
    case (Cons y ys')
    let ?rest = "\<lambda>xs r. if map f xs = [] then z # r else CHR '','' # js_join CHR '','' (map f xs) @ z # r"
    have eq: "f x @ ?rest xs r = f y @ ?rest ys' r'"
      using Cons.prems(2) Cons by (simp only: list.map js_join_Cons_tail)
    have "x = y \<and> ?rest xs r = ?rest ys' r'"
      using assms(4) by (intro Cons.prems(1) eq) (auto simp: at_delimiter_def)
    moreover have "js_join CHR '','' (map f xs) @ z # r = js_join CHR '','' (map f ys') @ z # r'"
      using calculation assms(3) by (cases "xs = []"; cases "ys' = []") auto
    moreover have "xs = ys' \<and> r = r'"
    proof (rule Cons.IH)
      show "x' = y \<and> s = s'" if "x' \<in> set xs" "at_delimiter s" "at_delimiter s'" "f x' @ s = f y @ s'" for x' y s s'
        using that by (intro Cons.prems(1)) simp_all
    qed (fact calculation(2))
    ultimately show ?thesis using Cons by simp
  qed
qed

lemma member_ser_inj:
  assumes "\<And>y r r'. at_delimiter r \<Longrightarrow> at_delimiter r' \<Longrightarrow> plain_ser numstr v @ r = plain_ser numstr y @ r' \<Longrightarrow> v = y \<and> r = r'"
    and "at_delimiter r" "at_delimiter r'"
    and "(stringify_string k @ '':'' @ plain_ser numstr v) @ r = (stringify_string k' @ '':'' @ plain_ser numstr v') @ r'"
  shows "(k, v) = (k', v') \<and> r = r'"
proof -
  have "k = k' \<and> '':'' @ plain_ser numstr v @ r = '':'' @ plain_ser numstr v' @ r'"
    using assms(4) by (intro stringify_string_inj) simp
  then show ?thesis using assms(1) [OF assms(2,3)] by simp
qed

lemma plain_ser_inj:
  assumes num: "good_numstr numstr"
  shows "at_delimiter r \<Longrightarrow> at_delimiter r' \<Longrightarrow> plain_ser numstr v @ r = plain_ser numstr v' @ r'
    \<Longrightarrow> v = v' \<and> r = r'"
proof (induction v arbitrary: v' r r')
  case JNull
  with plain_ser_shape [OF num JNull(3)] show ?case by (cases v') (auto split: if_splits)
next
  case (JBool b)
  with plain_ser_shape [OF num JBool(3)] show ?case by (cases v') (auto split: if_splits)
next
  case (JNum n)
  then obtain n' where v': "v' = JNum n'"
    using plain_ser_shape [OF num JNum(3)] by (cases v') (auto split: if_splits)
  have "numstr n = numstr n' \<and> r = r'"
    using num JNum v' by (intro number_prefix_inj) (auto simp: good_numstr_def)
  with num v' show ?case by (auto simp: good_numstr_def dest: injD)
next
  case (JStr s)
  then obtain s' where v': "v' = JStr s'"
    using plain_ser_shape [OF num JStr(3)] by (cases v') (auto split: if_splits)
  with JStr stringify_string_inj [of s r s' r'] show ?case by simp
next
  case (JArr xs)
  then obtain ys where v': "v' = JArr ys"
    using plain_ser_shape [OF num JArr(4)] by (cases v') (auto split: if_splits)
  have "xs = ys \<and> r = r'"
  proof (rule joined_inj [where f = "plain_ser numstr" and z = "CHR '']''"])
    show "\<exists>h t. plain_ser numstr x = h # t \<and> h \<noteq> CHR '']''" for x
      by (rule plain_ser_not_close [OF num])
    show "js_join CHR '','' (map (plain_ser numstr) xs) @ CHR '']'' # r
        = js_join CHR '','' (map (plain_ser numstr) ys) @ CHR '']'' # r'"
      using JArr.prems(3) v' by simp
  qed (use JArr.IH in auto)
  with v' show ?case by simp
next
  case (JObj kvs)
  then obtain ys where v': "v' = JObj ys"
    using plain_ser_shape [OF num JObj(4)] by (cases v') (auto split: if_splits)
  let ?f = "\<lambda>(k, v). stringify_string k @ '':'' @ plain_ser numstr v"
  have eq: "map (\<lambda>(key, text). stringify_string key @ '':'' @ text) (map (map_prod id (plain_ser numstr)) zs) = map ?f zs" for zs
    by auto
  have "kvs = ys \<and> r = r'"
  proof (rule joined_inj [where f = ?f and z = "CHR 0x7D"])
    show "\<exists>h t. ?f x = h # t \<and> h \<noteq> CHR 0x7D" for x
      by (cases x) (auto simp: stringify_string_def)
    show "js_join CHR '','' (map ?f kvs) @ CHR 0x7D # r = js_join CHR '','' (map ?f ys) @ CHR 0x7D # r'"
      using JObj.prems(3) unfolding v' plain_ser.simps eq by simp
    show "x = y \<and> r = r'" if "x \<in> set kvs" "at_delimiter r" "at_delimiter r'" "?f x @ r = ?f y @ r'" for x y r r'
    proof -
      obtain k v k' v' where xy: "x = (k, v)" "y = (k', v')" by (cases x; cases y) auto
      have IH: "v = w \<and> s = s'"
        if "at_delimiter s" "at_delimiter s'" "plain_ser numstr v @ s = plain_ser numstr w @ s'" for w s s'
        using JObj.IH [of "(k, v)" v s s' w] that \<open>x \<in> set kvs\<close> xy by simp
      have "(stringify_string k @ '':'' @ plain_ser numstr v) @ r = (stringify_string k' @ '':'' @ plain_ser numstr v') @ r'"
        using that(4) unfolding xy prod.case .
      then have "(k, v) = (k', v') \<and> r = r'"
        using member_ser_inj [of numstr v r r' k k' v'] IH that(2,3) by blast
      then show ?thesis using xy by simp
    qed
  qed auto
  with v' show ?case by simp
qed

theorem jcs_determines_canonical:
  assumes "good_numstr numstr"
  shows "jcsSerialize numstr v = jcsSerialize numstr v' \<longleftrightarrow> canonical_json v = canonical_json v'"
  using plain_ser_inj [OF assms, of "[]" "[]" "canonical_json v" "canonical_json v'"]
  by (auto simp: jcs_canonical at_delimiter_def)

end
