(* ===== verification/KeyDeriver.thy ===== *)
theory KeyDeriver
  imports Jcs Entries
begin

text \<open>
  Content-addressed identity and the frozen key profiles:
  \<open>packages/core/src/journal/identity.ts\<close> and \<open>packages/core/src/journal/keyderiver.ts\<close>. The
  hash \<open>sha256 . hex\<close> of the platform is the parameter \<open>sha\<close>; \<open>numstr\<close> is the number format of
  the canonical serializer. The schema and toolset hashes of a profile are not kept.
\<close>

section \<open>Identity inputs\<close>

datatype canonical_model_spec =
    SpecModel model_ref "string option"
  | SpecLadder json

datatype isolation_spec =
    Iso_none
  | Iso_readonly
  | Iso_worktree "string option"

datatype rand_subtype = Rand_now | Rand_random | Rand_uuid

datatype identity_input =
    AgentIdentityInput string canonical_model_spec string string string isolation_spec
  | ChildIdentityInput string json
  | StepIdentityInput string "json list"
  | ExternalIdentityInput string
  | ApprovalIdentityInput string json
  | RandIdentityInput rand_subtype "string option"

fun rand_subtype_name :: "rand_subtype \<Rightarrow> string" where
  "rand_subtype_name Rand_now = ''now''"
| "rand_subtype_name Rand_random = ''random''"
| "rand_subtype_name Rand_uuid = ''uuid''"

fun identity_kind :: "identity_input \<Rightarrow> string" where
  "identity_kind (AgentIdentityInput _ _ _ _ _ _) = ''agent''"
| "identity_kind (ChildIdentityInput _ _) = ''child''"
| "identity_kind (StepIdentityInput _ _) = ''step''"
| "identity_kind (ExternalIdentityInput _) = ''external''"
| "identity_kind (ApprovalIdentityInput _ _) = ''approval''"
| "identity_kind (RandIdentityInput _ _) = ''rand''"

text \<open>An object member that is absent when its value is \<open>undefined\<close>.\<close>

fun opt_entry :: "string \<Rightarrow> string option \<Rightarrow> (string \<times> json) list" where
  "opt_entry k None = []"
| "opt_entry k (Some s) = [(k, JStr s)]"

fun modelSpecIdentity :: "canonical_model_spec \<Rightarrow> json" where
  "modelSpecIdentity (SpecModel model effort) = JObj ((''model'', JStr model) # opt_entry ''effort'' effort)"
| "modelSpecIdentity (SpecLadder ladder) = JObj [(''ladder'', ladder)]"

fun isolation_json :: "isolation_spec \<Rightarrow> json" where
  "isolation_json Iso_none = JStr ''none''"
| "isolation_json Iso_readonly = JStr ''readonly''"
| "isolation_json (Iso_worktree ref) = JObj ((''kind'', JStr ''worktree'') # opt_entry ''ref'' ref)"

fun projectIdentity :: "identity_input \<Rightarrow> json" where
  "projectIdentity (AgentIdentityInput agentType modelSpec prompt schemaHash toolsetHash isolation) = JObj
     [(''kind'', JStr ''agent''), (''agentType'', JStr agentType),
      (''modelSpec'', modelSpecIdentity modelSpec), (''prompt'', JStr prompt),
      (''schemaHash'', JStr schemaHash), (''toolsetHash'', JStr toolsetHash),
      (''isolation'', isolation_json isolation)]"
| "projectIdentity (ChildIdentityInput workflow args) = JObj
     [(''kind'', JStr ''child''), (''workflow'', JStr workflow), (''args'', args)]"
| "projectIdentity (StepIdentityInput key deps) = JObj
     [(''kind'', JStr ''step''), (''key'', JStr key), (''deps'', JArr deps)]"
| "projectIdentity (ExternalIdentityInput key) = JObj [(''kind'', JStr ''external''), (''key'', JStr key)]"
| "projectIdentity (ApprovalIdentityInput toolName input) = JObj
     [(''kind'', JStr ''approval''), (''toolName'', JStr toolName), (''input'', input)]"
| "projectIdentity (RandIdentityInput subtype key) = JObj
     ([(''kind'', JStr ''rand''), (''subtype'', JStr (rand_subtype_name subtype))] @ opt_entry ''key'' key)"

definition identityJcs :: "(rat \<Rightarrow> string) \<Rightarrow> identity_input \<Rightarrow> string" where
  "identityJcs numstr input = jcsSerialize numstr (projectIdentity input)"

definition deriveContentKey :: "(string \<Rightarrow> string) \<Rightarrow> (rat \<Rightarrow> string) \<Rightarrow> identity_input \<Rightarrow> string" where
  "deriveContentKey sha numstr input = sha (identityJcs numstr input)"

section \<open>Profiles\<close>

datatype disposition_rule = Rule_replay | Rule_rerun | Rule_memoize_limit | Rule_memoize_task_error

type_synonym disposition_table = "entry_status \<Rightarrow> disposition_rule option"

record key_deriver =
  kd_hashVersion :: nat
  kd_project :: "identity_input \<Rightarrow> json option"
  kd_deriveKey :: "json \<Rightarrow> string"
  kd_dispositionTable :: disposition_table
  kd_effort :: string
  kd_memoizeOutcome :: bool

fun V2_TABLE :: disposition_table where
  "V2_TABLE S_ok = Some Rule_replay"
| "V2_TABLE S_escalated = Some Rule_replay"
| "V2_TABLE S_limit = Some Rule_memoize_limit"
| "V2_TABLE S_error = Some Rule_memoize_task_error"
| "V2_TABLE S_cancelled = Some Rule_rerun"
| "V2_TABLE S_running = Some Rule_rerun"
| "V2_TABLE S_suspended = None"

fun V1_TABLE :: disposition_table where
  "V1_TABLE S_ok = Some Rule_replay"
| "V1_TABLE S_limit = Some Rule_rerun"
| "V1_TABLE S_error = Some Rule_rerun"
| "V1_TABLE S_cancelled = Some Rule_rerun"
| "V1_TABLE S_running = Some Rule_rerun"
| "V1_TABLE S_escalated = None"
| "V1_TABLE S_suspended = None"

definition deriverV2 :: "(string \<Rightarrow> string) \<Rightarrow> (rat \<Rightarrow> string) \<Rightarrow> key_deriver" where
  "deriverV2 sha numstr = \<lparr>
     kd_hashVersion = 2,
     kd_project = (\<lambda>input. Some (projectIdentity input)),
     kd_deriveKey = (\<lambda>c. sha (jcsSerialize numstr c)),
     kd_dispositionTable = V2_TABLE,
     kd_effort = ''medium'', kd_memoizeOutcome = False \<rparr>"

definition V1_INEXPRESSIBLE_KINDS :: "string list" where
  "V1_INEXPRESSIBLE_KINDS =
     [''decision'', ''plan.revision'', ''plan.decision'', ''ledger.op'', ''node.link'',
      ''termination.init'', ''termination.denied'']"

text \<open>\<open>delete o.name\<close> and the spread that overwrites one member in place.\<close>

fun delete_member :: "string \<Rightarrow> json \<Rightarrow> json" where
  "delete_member k (JObj kvs) = JObj (filter (\<lambda>(k', _). k' \<noteq> k) kvs)"
| "delete_member k v = v"

fun update_member :: "string \<Rightarrow> (json \<Rightarrow> json) \<Rightarrow> json \<Rightarrow> json" where
  "update_member k f (JObj kvs) = JObj (map (\<lambda>(k', v). (k', if k' = k then f v else v)) kvs)"
| "update_member k f v = v"

definition project_v1 :: "identity_input \<Rightarrow> json option" where
  "project_v1 input =
     (if identity_kind input \<in> set V1_INEXPRESSIBLE_KINDS then None
      else if identity_kind input = ''agent'' then
        Some (update_member ''modelSpec'' (delete_member ''effort'') (projectIdentity input))
      else Some (projectIdentity input))"

definition deriverV1 :: "(string \<Rightarrow> string) \<Rightarrow> (rat \<Rightarrow> string) \<Rightarrow> key_deriver" where
  "deriverV1 sha numstr = \<lparr>
     kd_hashVersion = 1,
     kd_project = project_v1,
     kd_deriveKey = (\<lambda>c. sha (jcsSerialize numstr c)),
     kd_dispositionTable = V1_TABLE,
     kd_effort = ''medium'', kd_memoizeOutcome = False \<rparr>"

section \<open>The registry\<close>

type_synonym deriver_registry = "(nat, key_deriver) jsmap"

text \<open>An extra that is not a key deriver (the structural guard fails) is \<open>None\<close>.\<close>

definition buildDeriverRegistry ::
  "(string \<Rightarrow> string) \<Rightarrow> (rat \<Rightarrow> string) \<Rightarrow> key_deriver option list \<Rightarrow> deriver_registry result" where
  "buildDeriverRegistry sha numstr extraDerivers =
     foldR (\<lambda>registry extra. case extra of
              None \<Rightarrow> Inl ConfigError
            | Some d \<Rightarrow> Inr (jm_set (kd_hashVersion d) d registry))
       [(kd_hashVersion (deriverV1 sha numstr), deriverV1 sha numstr),
        (kd_hashVersion (deriverV2 sha numstr), deriverV2 sha numstr)]
       extraDerivers"

definition scanJournalCompatibility :: "deriver_registry \<Rightarrow> journal_entry list \<Rightarrow> unit result" where
  "scanJournalCompatibility registry entries =
     foldR (\<lambda>_ e. if jm_has registry (je_hashVersion e) then Inr ()
                   else Inl (JournalCompatibilityError (je_hashVersion e > CURRENT_HASH_VERSION)
                               (je_seq e) (je_hashVersion e)))
       () entries"

type_synonym key_ring = "identity_input \<Rightarrow> nat \<Rightarrow> string option"

definition registryKeyRing :: "deriver_registry \<Rightarrow> key_ring" where
  "registryKeyRing registry identity hashVersion =
     (case jm_get registry hashVersion of
        None \<Rightarrow> None
      | Some deriver \<Rightarrow> map_option (kd_deriveKey deriver) (kd_project deriver identity))"

definition currentOnlyKeyRing :: "(string \<Rightarrow> string) \<Rightarrow> (rat \<Rightarrow> string) \<Rightarrow> key_ring" where
  "currentOnlyKeyRing sha numstr identity hashVersion =
     (if hashVersion = CURRENT_HASH_VERSION then Some (deriveContentKey sha numstr identity) else None)"


section \<open>Equal keys mean equal identities\<close>

text \<open>
  The identity up to the member order of the JSON values it embeds, and up to the requested
  effort as the v1 profile sees it.
\<close>

fun canonical_spec :: "canonical_model_spec \<Rightarrow> canonical_model_spec" where
  "canonical_spec (SpecModel model effort) = SpecModel model effort"
| "canonical_spec (SpecLadder ladder) = SpecLadder (canonical_json ladder)"

fun canonical_identity :: "identity_input \<Rightarrow> identity_input" where
  "canonical_identity (AgentIdentityInput agentType modelSpec prompt schemaHash toolsetHash isolation) =
     AgentIdentityInput agentType (canonical_spec modelSpec) prompt schemaHash toolsetHash isolation"
| "canonical_identity (ChildIdentityInput workflow args) = ChildIdentityInput workflow (canonical_json args)"
| "canonical_identity (StepIdentityInput key deps) = StepIdentityInput key (map canonical_json deps)"
| "canonical_identity (ExternalIdentityInput key) = ExternalIdentityInput key"
| "canonical_identity (ApprovalIdentityInput toolName input) = ApprovalIdentityInput toolName (canonical_json input)"
| "canonical_identity (RandIdentityInput subtype key) = RandIdentityInput subtype key"

fun without_effort :: "identity_input \<Rightarrow> identity_input" where
  "without_effort (AgentIdentityInput agentType (SpecModel model effort) prompt schemaHash toolsetHash isolation) =
     AgentIdentityInput agentType (SpecModel model None) prompt schemaHash toolsetHash isolation"
| "without_effort input = input"

lemma map_of_insort: "map_of (insort_key fst x xs) = map_of (x # xs)"
  by (induction xs) (auto simp: fun_eq_iff)

lemma map_of_sort: "map_of (sort_key fst xs) = map_of xs"
  by (induction xs) (simp_all only: sort_key_simps map_of_insort, auto)

lemma map_of_map_prod: "map_of (map (map_prod id f) xs) k = map_option f (map_of xs k)"
  by (induction xs) auto

lemma member_canonical: "member_of (canonical_json v) k = map_option canonical_json (member_of v k)"
  by (cases v) (simp_all only: canonical_json.simps member_of.simps map_of_sort map_of_map_prod option.map)

lemma canonical_members:
  "canonical_json (JObj kvs) = canonical_json (JObj kvs') \<Longrightarrow>
    map_option canonical_json (map_of kvs k) = map_option canonical_json (map_of kvs' k)"
  by (metis member_canonical member_of.simps(1))

lemma canonical_idem [simp]: "canonical_json (canonical_json v) = canonical_json v"
proof (induction v)
  case (JArr xs)
  then show ?case by simp
next
  case (JObj kvs)
  have "map (map_prod id canonical_json) (map (map_prod id canonical_json) kvs) = map (map_prod id canonical_json) kvs"
    using JObj by auto
  then have "sort_key fst (map (map_prod id canonical_json) (sort_key fst (map (map_prod id canonical_json) kvs)))
      = sort_key fst (map (map_prod id canonical_json) kvs)"
    by (simp only: sort_key_map_snd [symmetric]) (simp add: sort_key_id_if_sorted)
  then show ?case by (simp only: canonical_json.simps)
qed simp_all

text \<open>Canonical forms agree when the members agree one by one.\<close>

lemma canonical_obj_cong:
  "map (map_prod id canonical_json) kvs = map (map_prod id canonical_json) kvs' \<Longrightarrow>
    canonical_json (JObj kvs) = canonical_json (JObj kvs')"
  by (simp only: canonical_json.simps)

lemma canonical_modelSpec:
  "canonical_json (modelSpecIdentity s) = canonical_json (modelSpecIdentity s') \<longleftrightarrow> canonical_spec s = canonical_spec s'"
proof
  assume eq: "canonical_json (modelSpecIdentity s) = canonical_json (modelSpecIdentity s')"
  show "canonical_spec s = canonical_spec s'"
  proof (cases s; cases s')
    fix m e m' e' assume s: "s = SpecModel m e" "s' = SpecModel m' e'"
    then show ?thesis
      using canonical_members [OF eq [unfolded s modelSpecIdentity.simps], of "''model''"]
        canonical_members [OF eq [unfolded s modelSpecIdentity.simps], of "''effort''"]
      by (cases e; cases e') auto
  next
    fix m e l assume s: "s = SpecModel m e" "s' = SpecLadder l"
    then show ?thesis
      using canonical_members [OF eq [unfolded s modelSpecIdentity.simps], of "''model''"] by simp
  next
    fix m e l assume s: "s = SpecLadder l" "s' = SpecModel m e"
    then show ?thesis
      using canonical_members [OF eq [unfolded s modelSpecIdentity.simps], of "''model''"] by simp
  next
    fix l l' assume s: "s = SpecLadder l" "s' = SpecLadder l'"
    then show ?thesis
      using canonical_members [OF eq [unfolded s modelSpecIdentity.simps], of "''ladder''"] by simp
  qed
next
  assume "canonical_spec s = canonical_spec s'"
  then show "canonical_json (modelSpecIdentity s) = canonical_json (modelSpecIdentity s')"
    by (cases s; cases s') simp_all
qed

lemma canonical_isolation:
  "canonical_json (isolation_json i) = canonical_json (isolation_json i') \<longleftrightarrow> i = i'"
proof
  assume eq: "canonical_json (isolation_json i) = canonical_json (isolation_json i')"
  show "i = i'"
  proof (cases "\<exists>r r'. i = Iso_worktree r \<and> i' = Iso_worktree r'")
    case True
    then obtain r r' where i: "i = Iso_worktree r" "i' = Iso_worktree r'" by blast
    then show ?thesis
      using canonical_members [OF eq [unfolded i isolation_json.simps], of "''ref''"] by (cases r; cases r') auto
  next
    case False
    with eq show ?thesis by (cases i; cases i') (simp_all del: sort_key_simps)
  qed
qed simp

lemma rand_subtype_name_inj [simp]: "rand_subtype_name a = rand_subtype_name b \<longleftrightarrow> a = b"
  by (cases a; cases b) simp_all

lemma project_kind: "member_of (projectIdentity x) ''kind'' = Some (JStr (identity_kind x))"
  by (cases x) simp_all

lemma project_obj: "\<exists>kvs. projectIdentity x = JObj kvs"
  by (cases x) simp_all

lemma project_members:
  assumes "canonical_json (projectIdentity x) = canonical_json (projectIdentity y)"
  shows "map_option canonical_json (member_of (projectIdentity x) k) = map_option canonical_json (member_of (projectIdentity y) k)"
  using assms by (metis member_canonical)

lemma canonical_project:
  "canonical_json (projectIdentity x) = canonical_json (projectIdentity y) \<longleftrightarrow> canonical_identity x = canonical_identity y"
proof
  assume eq: "canonical_json (projectIdentity x) = canonical_json (projectIdentity y)"
  note m = project_members [OF eq]
  have kind: "identity_kind x = identity_kind y" using m [of "''kind''"] by (simp add: project_kind)
  show "canonical_identity x = canonical_identity y"
  proof (cases x)
    case (AgentIdentityInput a b c d e f)
    with kind obtain a' b' c' d' e' f' where y: "y = AgentIdentityInput a' b' c' d' e' f'" by (cases y) simp_all
    show ?thesis
      using m [of "''agentType''"] m [of "''modelSpec''"] m [of "''prompt''"] m [of "''schemaHash''"]
        m [of "''toolsetHash''"] m [of "''isolation''"]
      by (simp add: AgentIdentityInput y canonical_modelSpec canonical_isolation)
  next
    case (ChildIdentityInput a b)
    with kind obtain a' b' where "y = ChildIdentityInput a' b'" by (cases y) simp_all
    with ChildIdentityInput m [of "''workflow''"] m [of "''args''"] show ?thesis by simp
  next
    case (StepIdentityInput a b)
    with kind obtain a' b' where "y = StepIdentityInput a' b'" by (cases y) simp_all
    with StepIdentityInput m [of "''key''"] m [of "''deps''"] show ?thesis by simp
  next
    case (ExternalIdentityInput a)
    with kind obtain a' where "y = ExternalIdentityInput a'" by (cases y) simp_all
    with ExternalIdentityInput m [of "''key''"] show ?thesis by simp
  next
    case (ApprovalIdentityInput a b)
    with kind obtain a' b' where "y = ApprovalIdentityInput a' b'" by (cases y) simp_all
    with ApprovalIdentityInput m [of "''toolName''"] m [of "''input''"] show ?thesis by simp
  next
    case (RandIdentityInput a b)
    with kind obtain a' b' where "y = RandIdentityInput a' b'" by (cases y) simp_all
    with RandIdentityInput m [of "''subtype''"] m [of "''key''"] show ?thesis by (cases b; cases b') auto
  qed
next
  assume "canonical_identity x = canonical_identity y"
  then show "canonical_json (projectIdentity x) = canonical_json (projectIdentity y)"
    by (cases x; cases y)
      (simp_all only: projectIdentity.simps canonical_identity.simps identity_input.inject identity_input.distinct,
       auto intro!: canonical_obj_cong simp: canonical_modelSpec)
qed


lemma project_v1_eq: "project_v1 input = Some (projectIdentity (without_effort input))"
proof (cases input)
  case (AgentIdentityInput a b c d e f)
  then show ?thesis
    by (cases b; cases "case b of SpecModel m x \<Rightarrow> x | _ \<Rightarrow> None")
      (auto simp: project_v1_def V1_INEXPRESSIBLE_KINDS_def)
qed (simp_all add: project_v1_def V1_INEXPRESSIBLE_KINDS_def)

lemma canonical_without_effort: "canonical_identity (without_effort x) = without_effort (canonical_identity x)"
proof (cases x)
  case (AgentIdentityInput a b c d e f)
  then show ?thesis by (cases b) simp_all
qed simp_all

definition shipped_registry :: "(string \<Rightarrow> string) \<Rightarrow> (rat \<Rightarrow> string) \<Rightarrow> deriver_registry" where
  "shipped_registry sha numstr = [(1, deriverV1 sha numstr), (2, deriverV2 sha numstr)]"

lemma buildDeriverRegistry_none: "buildDeriverRegistry sha numstr [] = Inr (shipped_registry sha numstr)"
  by (simp add: buildDeriverRegistry_def shipped_registry_def deriverV1_def deriverV2_def)

lemma shipped_keys:
  "registryKeyRing (shipped_registry sha numstr) x 2 = Some (sha (identityJcs numstr x))"
  "registryKeyRing (shipped_registry sha numstr) x 1 = Some (sha (identityJcs numstr (without_effort x)))"
  by (simp_all add: registryKeyRing_def shipped_registry_def deriverV1_def deriverV2_def project_v1_eq identityJcs_def)

lemma current_ring_agrees:
  "registryKeyRing (shipped_registry sha numstr) x CURRENT_HASH_VERSION = currentOnlyKeyRing sha numstr x CURRENT_HASH_VERSION"
  by (simp add: CURRENT_HASH_VERSION_def currentOnlyKeyRing_def shipped_keys deriveContentKey_def)

lemma identityJcs_iff:
  "good_numstr numstr \<Longrightarrow> identityJcs numstr x = identityJcs numstr y \<longleftrightarrow> canonical_identity x = canonical_identity y"
  by (simp add: identityJcs_def jcs_determines_canonical canonical_project)

text \<open>A number format with the required properties, for the examples.\<close>

definition sample_numstr :: "rat \<Rightarrow> string" where
  "sample_numstr q = (let (a, b) = quotient_of q in
     (if a < 0 then ''-'' else ''+'') @ show_nat (nat \<bar>a\<bar>) @ ''.'' @ show_nat (nat b))"

lemma digits_split_inj:
  assumes "x @ (c :: char) # y = x' @ c # y'" "c \<notin> set x" "c \<notin> set x'"
  shows "x = x' \<and> y = y'"
  using js_split_append [OF assms(2), of y] js_split_append [OF assms(3), of y'] assms(1)
  by (metis append_eq_append_conv list.inject)

lemma show_nat_inj: "show_nat a = show_nat b \<longleftrightarrow> a = b"
  by (metis parse_show_nat)

lemma show_nat_no_point: "CHR ''.'' \<notin> set (show_nat n)"
  using show_nat_digits [of n] by (auto simp: list_all_iff is_digit_def)

lemma sample_numstr_inj: "inj sample_numstr"
proof (rule injI)
  fix p q assume eq: "sample_numstr p = sample_numstr q"
  obtain a b where p: "quotient_of p = (a, b)" by (cases "quotient_of p")
  obtain c d where q: "quotient_of q = (c, d)" by (cases "quotient_of q")
  have pos: "0 < b" "0 < d" using p q quotient_of_denom_pos by auto
  have sgn: "a < 0 \<longleftrightarrow> c < 0" using eq by (auto simp: sample_numstr_def p q split: if_splits)
  have "show_nat (nat \<bar>a\<bar>) @ CHR ''.'' # show_nat (nat b) = show_nat (nat \<bar>c\<bar>) @ CHR ''.'' # show_nat (nat d)"
    using eq sgn by (auto simp: sample_numstr_def p q split: if_splits)
  then have "nat \<bar>a\<bar> = nat \<bar>c\<bar>" "nat b = nat d"
    using digits_split_inj show_nat_no_point show_nat_inj by blast+
  then have "\<bar>a\<bar> = \<bar>c\<bar>" "b = d" using pos by (simp_all add: eq_nat_nat_iff)
  with sgn have "a = c" "b = d" by (simp_all add: abs_if split: if_splits)
  with p q show "p = q" by (metis quotient_of_inject)
qed

lemma good_sample_numstr: "good_numstr sample_numstr"
proof -
  have "sample_numstr n \<noteq> [] \<and> list_all number_char (sample_numstr n) \<and> hd (sample_numstr n) \<noteq> CHR ''e''" for n
    using show_nat_digits by (cases "quotient_of n") (auto simp: sample_numstr_def number_char_def list_all_iff)
  with sample_numstr_inj show ?thesis by (simp add: good_numstr_def)
qed

section \<open>Properties\<close>

text \<open>
  C36. Content keys are faithful to identity: when the hash does not collide on the serialized
  identities at hand, two calls get the same key under the current profile exactly when their
  identities agree up to the member order of embedded JSON, and under the v1 profile exactly when
  they moreover agree up to the requested effort.
\<close>

theorem content_key_faithful:
  assumes "good_numstr numstr"
    and "inj_on sha {identityJcs numstr x, identityJcs numstr y,
           identityJcs numstr (without_effort x), identityJcs numstr (without_effort y)}"
    and "buildDeriverRegistry sha numstr [] = Inr registry"
  shows "(registryKeyRing registry x 2 = registryKeyRing registry y 2
            \<longleftrightarrow> canonical_identity x = canonical_identity y)
    \<and> (registryKeyRing registry x 1 = registryKeyRing registry y 1
            \<longleftrightarrow> without_effort (canonical_identity x) = without_effort (canonical_identity y))"
proof -
  have r: "registry = shipped_registry sha numstr" using assms(3) by (simp add: buildDeriverRegistry_none)
  have "sha (identityJcs numstr x) = sha (identityJcs numstr y) \<longleftrightarrow> identityJcs numstr x = identityJcs numstr y"
    and "sha (identityJcs numstr (without_effort x)) = sha (identityJcs numstr (without_effort y))
      \<longleftrightarrow> identityJcs numstr (without_effort x) = identityJcs numstr (without_effort y)"
    by (rule inj_on_eq_iff [OF assms(2)]; simp)+
  then show ?thesis
    unfolding r shipped_keys by (simp add: identityJcs_iff [OF assms(1)] canonical_without_effort)
qed

theorem content_key_faithful_witness:
  "\<exists>registry. buildDeriverRegistry id sample_numstr [] = Inr registry \<and>
     registryKeyRing registry (StepIdentityInput ''build'' [JObj [(''b'', JNum 1), (''a'', JNull)]]) 2
       = registryKeyRing registry (StepIdentityInput ''build'' [JObj [(''a'', JNull), (''b'', JNum 1)]]) 2
     \<and> registryKeyRing registry (StepIdentityInput ''build'' [JNull]) 2
       \<noteq> registryKeyRing registry (StepIdentityInput ''build'' [JBool False]) 2"
proof (intro exI conjI)
  let ?r = "shipped_registry id sample_numstr"
  show r: "buildDeriverRegistry id sample_numstr [] = Inr ?r" by (rule buildDeriverRegistry_none)
  have ord: "''a'' \<le> (''b'' :: string)" "\<not> ''b'' \<le> (''a'' :: string)" by (simp_all add: less_eq_char_def)
  show "registryKeyRing ?r (StepIdentityInput ''build'' [JObj [(''b'', JNum 1), (''a'', JNull)]]) 2
      = registryKeyRing ?r (StepIdentityInput ''build'' [JObj [(''a'', JNull), (''b'', JNum 1)]]) 2"
    using content_key_faithful [OF good_sample_numstr _ r,
        of "StepIdentityInput ''build'' [JObj [(''b'', JNum 1), (''a'', JNull)]]"
           "StepIdentityInput ''build'' [JObj [(''a'', JNull), (''b'', JNum 1)]]"] ord
    by simp
  show "registryKeyRing ?r (StepIdentityInput ''build'' [JNull]) 2
      \<noteq> registryKeyRing ?r (StepIdentityInput ''build'' [JBool False]) 2"
    using content_key_faithful [OF good_sample_numstr _ r,
        of "StepIdentityInput ''build'' [JNull]" "StepIdentityInput ''build'' [JBool False]"]
    by simp
qed

text \<open>
  The compatibility scan passes exactly when every entry has a registered profile; otherwise
  it reports the first entry without one, too new exactly when its version is above the current
  one.
\<close>

lemma scan_reports_first:
  "(scanJournalCompatibility registry entries = Inr ()
      \<longleftrightarrow> (\<forall>e\<in>set entries. jm_has registry (je_hashVersion e)))
   \<and> (scanJournalCompatibility registry pre = Inr () \<and> \<not> jm_has registry (je_hashVersion e) \<longrightarrow>
      scanJournalCompatibility registry (pre @ e # post)
        = Inl (JournalCompatibilityError (je_hashVersion e > CURRENT_HASH_VERSION) (je_seq e) (je_hashVersion e)))"
proof
  show "scanJournalCompatibility registry entries = Inr ()
      \<longleftrightarrow> (\<forall>e\<in>set entries. jm_has registry (je_hashVersion e))"
    unfolding scanJournalCompatibility_def by (induction entries) auto
  show "scanJournalCompatibility registry pre = Inr () \<and> \<not> jm_has registry (je_hashVersion e) \<longrightarrow>
      scanJournalCompatibility registry (pre @ e # post)
        = Inl (JournalCompatibilityError (je_hashVersion e > CURRENT_HASH_VERSION) (je_seq e) (je_hashVersion e))"
    by (auto simp: scanJournalCompatibility_def foldR_append)
qed

end
