(* ===== verification/Disposition.thy ===== *)
theory Disposition
  imports KeyDeriver
begin

text \<open>
  The canonical replay predicate, \<open>packages/core/src/journal/disposition.ts\<close>: the error
  classifier, the abandon fold, the per-profile tables and \<open>replayDisposition\<close>. The abandon fold is
  the pair of covered positions and covered scope prefixes; reading a child dispatch whose
  payload is \<open>null\<close> throws, as in the source.
\<close>

section \<open>Operations\<close>

text \<open>One logical operation: its dispatch entry and its terminal, when present.\<close>

record journal_operation =
  op_running :: journal_entry
  op_terminal :: "journal_entry option"

datatype operation_disposition = D_replay | D_rerun | D_skip

section \<open>Agent errors\<close>

text \<open>
  A path segment is a number or a string, bare or wrapped as \<open>{ key }\<close>. A message read from the
  wire that is not a string is stringified (\<open>JSON.stringify(undefined)\<close> is \<open>undefined\<close>);
  \<open>plain_ser numstr\<close> is \<open>JSON.stringify\<close>.
\<close>

datatype path_segment = Seg_num rat | Seg_str string | Seg_keyed_num rat | Seg_keyed_str string

record agent_issue =
  ai_message :: "string option"
  ai_path :: "path_segment list option"

record agent_error =
  ae_kind :: "json option"
  ae_retryable :: bool
  ae_retryAfterMs :: "rat option"
  ae_issues :: "agent_issue list option"
  ae_reason :: "string option"
  ae_stage :: "string option"

fun segment_json :: "path_segment \<Rightarrow> json" where
  "segment_json (Seg_num n) = JNum n"
| "segment_json (Seg_str s) = JStr s"
| "segment_json (Seg_keyed_num n) = JNum n"
| "segment_json (Seg_keyed_str s) = JStr s"

definition issue_json :: "agent_issue \<Rightarrow> json" where
  "issue_json i = JObj
     (opt_entry ''message'' (ai_message i)
      @ (case ai_path i of None \<Rightarrow> [] | Some path \<Rightarrow> [(''path'', JArr (map segment_json path))]))"

definition wire_data :: "agent_error \<Rightarrow> (string \<times> json) list" where
  "wire_data e =
     (case ae_kind e of None \<Rightarrow> [] | Some k \<Rightarrow> [(''kind'', k)])
     @ (case ae_retryAfterMs e of None \<Rightarrow> [] | Some n \<Rightarrow> [(''retryAfterMs'', JNum n)])
     @ opt_entry ''reason'' (ae_reason e)
     @ opt_entry ''stage'' (ae_stage e)
     @ (case ae_issues e of None \<Rightarrow> [] | Some is \<Rightarrow> [(''issues'', JArr (map issue_json is))])"

definition agentErrorToWire :: "agent_error \<Rightarrow> string \<Rightarrow> wire_error" where
  "agentErrorToWire e message = \<lparr>
     we_code = ''agent'', we_message = message, we_retryable = ae_retryable e,
     we_data = Some (JObj (wire_data e)) \<rparr>"

fun segment_of :: "(rat \<Rightarrow> string) \<Rightarrow> json \<Rightarrow> path_segment" where
  "segment_of numstr (JNum n) = Seg_num n"
| "segment_of numstr (JStr s) = Seg_str s"
| "segment_of numstr v = Seg_str (plain_ser numstr v)"

fun message_of :: "(rat \<Rightarrow> string) \<Rightarrow> json option \<Rightarrow> string option" where
  "message_of numstr (Some (JStr s)) = Some s"
| "message_of numstr (Some v) = Some (plain_ser numstr v)"
| "message_of numstr None = None"

definition agent_issue_of :: "(rat \<Rightarrow> string) \<Rightarrow> json \<Rightarrow> agent_issue result" where
  "agent_issue_of numstr raw =
     bindR (js_member (Some raw) ''message'') (\<lambda>m.
     bindR (js_member (Some raw) ''path'') (\<lambda>p.
       Inr \<lparr> ai_message = message_of numstr m,
             ai_path = map_option (map (segment_of numstr)) (as_array p) \<rparr>))"

definition STAGES :: "string list" where
  "STAGES = [''loop'', ''summarize'', ''reserve-summary'', ''finalize'', ''extract'']"

definition agentErrorFromWire :: "(rat \<Rightarrow> string) \<Rightarrow> wire_error \<Rightarrow> agent_error result" where
  "agentErrorFromWire numstr wire =
     (if we_code wire \<noteq> ''agent'' then Inl ConfigError
      else
        let data = (case we_data wire of None \<Rightarrow> JObj [] | Some JNull \<Rightarrow> JObj [] | Some d \<Rightarrow> d);
            stage = as_string (member_of data ''stage'')
        in bindR (case as_array (member_of data ''issues'') of
                    None \<Rightarrow> Inr None
                  | Some raws \<Rightarrow>
                      bindR (foldR (\<lambda>acc raw. bindR (agent_issue_of numstr raw) (\<lambda>i. Inr (acc @ [i]))) [] raws)
                        (\<lambda>is. Inr (Some is)))
           (\<lambda>issues. Inr \<lparr>
              ae_kind = member_of data ''kind'',
              ae_retryable = we_retryable wire,
              ae_retryAfterMs = as_number (member_of data ''retryAfterMs''),
              ae_issues = issues,
              ae_reason = None,
              ae_stage = (case stage of None \<Rightarrow> None | Some s \<Rightarrow> if s \<in> set STAGES then Some s else None) \<rparr>))"

datatype error_class = Class_transport | Class_task

definition classifyAgentError :: "agent_error \<Rightarrow> error_class" where
  "classifyAgentError e =
     (if ae_kind e = Some (JStr ''schema-mismatch'') \<or> ae_kind e = Some (JStr ''terminal'') then Class_task
      else if ae_kind e = Some (JStr ''tool'') \<and> \<not> ae_retryable e then Class_task
      else Class_transport)"

definition plain_agent_error :: "string \<Rightarrow> bool \<Rightarrow> agent_error" where
  "plain_agent_error kind retryable = \<lparr> ae_kind = Some (JStr kind), ae_retryable = retryable,
     ae_retryAfterMs = None, ae_issues = None, ae_reason = None, ae_stage = None \<rparr>"

definition agentErrorFromWireSafe :: "(rat \<Rightarrow> string) \<Rightarrow> journal_entry \<Rightarrow> agent_error result" where
  "agentErrorFromWireSafe numstr terminal =
     (case je_error terminal of
        None \<Rightarrow> Inr (plain_agent_error ''terminal'' False)
      | Some wire \<Rightarrow>
          if we_code wire = ''agent'' then agentErrorFromWire numstr wire
          else Inr (plain_agent_error (if we_retryable wire then ''transport'' else ''terminal'')
                      (we_retryable wire)))"

section \<open>The abandon fold\<close>

definition childCoveragePrefix :: "journal_entry \<Rightarrow> string result" where
  "childCoveragePrefix target =
     (if je_kind target = K_child \<and> je_value target \<noteq> None then
        bindR (js_member (je_value target) ''childScope'') (\<lambda>m.
          case as_string m of
            Some s \<Rightarrow> Inr s
          | None \<Rightarrow> Inr (agentScope (je_scope target) (je_seq target)))
      else Inr (agentScope (je_scope target) (je_seq target)))"

record abandon_fold =
  af_bySeq :: "(nat, journal_entry) jsmap"
  af_seqs :: "nat list"
  af_prefixes :: "string list"

definition isCovered :: "abandon_fold \<Rightarrow> journal_entry \<Rightarrow> bool" where
  "isCovered fd e \<longleftrightarrow>
     je_seq e \<in> set (af_seqs fd) \<or> list_ex (under_prefix (je_scope e)) (af_prefixes fd)"

definition abandon_step :: "abandon_fold \<Rightarrow> journal_entry \<Rightarrow> abandon_fold result" where
  "abandon_step fd e =
     (if je_kind e \<noteq> K_abandon then Inr fd
      else case je_ref e of
        None \<Rightarrow> Inr fd
      | Some r \<Rightarrow>
          (case jm_get (af_bySeq fd) r of
             None \<Rightarrow> Inr fd
           | Some target \<Rightarrow>
               if isCovered fd target then Inr fd
               else bindR (childCoveragePrefix target) (\<lambda>p.
                      Inr (fd\<lparr> af_seqs := af_seqs fd @ [je_seq target],
                                af_prefixes := af_prefixes fd @ [p] \<rparr>))))"

definition buildAbandonFold :: "journal_entry list \<Rightarrow> abandon_fold result" where
  "buildAbandonFold entries =
     foldR abandon_step \<lparr> af_bySeq = by_seq entries, af_seqs = [], af_prefixes = [] \<rparr> entries"

definition isAbandoned :: "abandon_fold \<Rightarrow> nat \<Rightarrow> bool" where
  "isAbandoned fd ref = (case jm_get (af_bySeq fd) ref of None \<Rightarrow> False | Some e \<Rightarrow> isCovered fd e)"

section \<open>The predicate\<close>

definition memoize_flag :: "journal_entry \<Rightarrow> journal_entry \<Rightarrow> bool" where
  "memoize_flag terminal running =
     (case je_memoizeOutcome terminal of
        Some b \<Rightarrow> b
      | None \<Rightarrow> (case je_memoizeOutcome running of Some b \<Rightarrow> b | None \<Rightarrow> False))"

definition applyRule :: "(rat \<Rightarrow> string) \<Rightarrow> disposition_rule option \<Rightarrow> journal_operation \<Rightarrow> bool \<Rightarrow> operation_disposition result" where
  "applyRule numstr rule op runSettledOk =
     (let terminal = (case op_terminal op of None \<Rightarrow> op_running op | Some t \<Rightarrow> t);
          memoize = memoize_flag terminal (op_running op)
      in case rule of
        Some Rule_replay \<Rightarrow> Inr D_replay
      | Some Rule_memoize_limit \<Rightarrow>
          Inr (if memoize then D_replay else if runSettledOk then D_replay else D_rerun)
      | Some Rule_memoize_task_error \<Rightarrow>
          if \<not> memoize \<or> je_error terminal = None then Inr D_rerun
          else bindR (agentErrorFromWireSafe numstr terminal) (\<lambda>err.
                 Inr (if classifyAgentError err = Class_task then D_replay else D_rerun))
      | Some Rule_rerun \<Rightarrow> Inr D_rerun
      | None \<Rightarrow> Inr D_rerun)"

text \<open>
  \<open>abandoned\<close> is \<open>fold.isAbandoned\<close>; the registry lookup falls back to the current profile's
  table.
\<close>

definition replayDisposition ::
  "(rat \<Rightarrow> string) \<Rightarrow> (nat \<Rightarrow> bool) \<Rightarrow> deriver_registry \<Rightarrow> nat list \<Rightarrow> bool \<Rightarrow> journal_entry \<Rightarrow> journal_entry option
     \<Rightarrow> operation_disposition result" where
  "replayDisposition numstr abandoned registry invalidated runSettledOk e terminal =
     (let op = \<lparr> op_running = e, op_terminal = Some (case terminal of None \<Rightarrow> e | Some t \<Rightarrow> t) \<rparr>;
          table = (case jm_get registry (je_hashVersion e) of
                     None \<Rightarrow> V2_TABLE
                   | Some d \<Rightarrow> kd_dispositionTable d);
          status = je_status (case terminal of None \<Rightarrow> e | Some t \<Rightarrow> t)
      in if abandoned (je_seq e) then Inr D_skip
         else if je_seq e \<in> set invalidated then Inr D_rerun
         else applyRule numstr (table status) op runSettledOk)"

definition dispositionHook ::
  "(rat \<Rightarrow> string) \<Rightarrow> (nat \<Rightarrow> bool) \<Rightarrow> deriver_registry \<Rightarrow> nat list \<Rightarrow> bool \<Rightarrow> journal_operation
     \<Rightarrow> operation_disposition result" where
  "dispositionHook numstr abandoned registry invalidated runSettledOk op =
     replayDisposition numstr abandoned registry invalidated runSettledOk (op_running op) (op_terminal op)"


section \<open>What an abandon covers\<close>

text \<open>
  The coverage an abandon promises, without the bookkeeping of the fold: the target itself and
  everything under the scope its children run in. The child scope of every entry is readable,
  not empty, and lies under the scope of its dispatch.
\<close>

definition covers :: "journal_entry \<Rightarrow> journal_entry \<Rightarrow> bool" where
  "covers t e \<longleftrightarrow> e = t \<or> (\<exists>p. childCoveragePrefix t = Inr p \<and> under_prefix (je_scope e) p)"

definition abandoned_by :: "journal_entry list \<Rightarrow> journal_entry list \<Rightarrow> journal_entry \<Rightarrow> bool" where
  "abandoned_by es xs e \<longleftrightarrow>
     (\<exists>a\<in>set xs. je_kind a = K_abandon \<and> (\<exists>t\<in>set es. je_ref a = Some (je_seq t) \<and> covers t e))"

definition child_scopes_nested :: "journal_entry list \<Rightarrow> bool" where
  "child_scopes_nested es \<longleftrightarrow>
     (\<forall>e\<in>set es. case childCoveragePrefix e of
        Inl _ \<Rightarrow> False
      | Inr p \<Rightarrow> p \<noteq> '''' \<and> (je_scope e = '''' \<or> under_prefix p (je_scope e)))"

lemma under_prefix_empty: "under_prefix '''' p \<Longrightarrow> p = ''''"
  by (auto simp: under_prefix_iff)

lemma childCoveragePrefix_not_child:
  "je_kind e \<noteq> K_child \<Longrightarrow> childCoveragePrefix e = Inr (agentScope (je_scope e) (je_seq e))"
  by (simp add: childCoveragePrefix_def)

lemma agentScope_nonempty: "agentScope s n \<noteq> ''''"
  by (simp add: agentScope_def joinScope_def)

lemma nested_prefix:
  assumes "child_scopes_nested es" "e \<in> set es"
  shows "\<exists>p. childCoveragePrefix e = Inr p \<and> p \<noteq> '''' \<and> (je_scope e = '''' \<or> under_prefix p (je_scope e))"
  using bspec [OF assms(1) [unfolded child_scopes_nested_def] assms(2)]
  by (cases "childCoveragePrefix e") simp_all

lemma covers_trans:
  assumes nested: "child_scopes_nested es" and "t \<in> set es" "t' \<in> set es"
    and "covers t' t" "covers t e"
  shows "covers t' e"
proof -
  obtain p p' where p: "childCoveragePrefix t = Inr p" "je_scope t = '''' \<or> under_prefix p (je_scope t)"
    and p': "childCoveragePrefix t' = Inr p'" "p' \<noteq> ''''"
    using nested_prefix [OF nested assms(2)] nested_prefix [OF nested assms(3)] by blast
  consider "t = t'" | (under) "under_prefix (je_scope t) p'"
    using assms(4) p' by (auto simp: covers_def)
  then show ?thesis
  proof cases
    case under
    then have "je_scope t \<noteq> ''''" using p'(2) under_prefix_empty [of p'] by auto
    with p(2) have "under_prefix p (je_scope t)" by blast
    then have "under_prefix (je_scope e) p'" if "under_prefix (je_scope e) p"
      using that under under_prefix_trans by blast
    then have "under_prefix (je_scope e) p'" using assms(5) p(1) under unfolding covers_def by auto
    then show ?thesis using p'(1) unfolding covers_def by blast
  qed (use assms(5) in simp)
qed

lemma isCovered_append:
  "isCovered (fd\<lparr> af_seqs := af_seqs fd @ [n], af_prefixes := af_prefixes fd @ [p] \<rparr>) e
    \<longleftrightarrow> isCovered fd e \<or> je_seq e = n \<or> under_prefix (je_scope e) p"
  by (auto simp: isCovered_def)

lemma abandoned_by_snoc:
  "abandoned_by es (xs @ [a]) e \<longleftrightarrow> abandoned_by es xs e
     \<or> je_kind a = K_abandon \<and> (\<exists>t\<in>set es. je_ref a = Some (je_seq t) \<and> covers t e)"
  by (auto simp: abandoned_by_def)

lemma abandon_fold_prefix:
  assumes wf: "distinct (map je_seq es)" "child_scopes_nested es"
  shows "\<exists>fd. foldR abandon_step \<lparr> af_bySeq = by_seq es, af_seqs = [], af_prefixes = [] \<rparr> xs = Inr fd
    \<and> af_bySeq fd = by_seq es \<and> (\<forall>e\<in>set es. isCovered fd e \<longleftrightarrow> abandoned_by es xs e)"
proof (induction xs rule: rev_induct)
  case Nil
  then show ?case by (simp add: isCovered_def abandoned_by_def)
next
  case (snoc a xs)
  then obtain fd where fd: "foldR abandon_step \<lparr> af_bySeq = by_seq es, af_seqs = [], af_prefixes = [] \<rparr> xs = Inr fd"
    "af_bySeq fd = by_seq es" and cov: "\<forall>e\<in>set es. isCovered fd e \<longleftrightarrow> abandoned_by es xs e" by blast
  show ?case
  proof (cases "je_kind a = K_abandon \<and> (\<exists>t\<in>set es. je_ref a = Some (je_seq t))")
    case False
    then have "abandon_step fd a = Inr fd"
      using fd(2) by (auto simp: abandon_step_def split: option.splits dest!: by_seq_get_in)
    with False fd cov show ?thesis by (auto simp: foldR_snoc abandoned_by_snoc)
  next
    case True
    then obtain t where t: "t \<in> set es" "je_ref a = Some (je_seq t)" "je_kind a = K_abandon" by blast
    have uniq: "t' = t" if "t' \<in> set es" "je_seq t' = je_seq t" for t'
      using inj_onD [of je_seq "set es" t' t] that t(1) wf(1) by (simp add: distinct_map)
    have get: "jm_get (af_bySeq fd) (je_seq t) = Some t" using fd(2) t(1) wf(1) by (simp add: by_seq_get)
    have goal: "abandoned_by es (xs @ [a]) e \<longleftrightarrow> abandoned_by es xs e \<or> covers t e" for e
    proof -
      have "(\<exists>u\<in>set es. je_ref a = Some (je_seq u) \<and> covers u e) \<longleftrightarrow> covers t e"
      proof
        assume "\<exists>u\<in>set es. je_ref a = Some (je_seq u) \<and> covers u e"
        then obtain u where "u \<in> set es" "je_seq u = je_seq t" "covers u e" using t(2) by force
        then show "covers t e" using uniq by blast
      qed (use t in blast)
      then show ?thesis using t(3) unfolding abandoned_by_snoc by simp
    qed
    show ?thesis
    proof (cases "isCovered fd t")
      case True
      then obtain a' t' where "a' \<in> set xs" "je_kind a' = K_abandon" "t' \<in> set es"
        "je_ref a' = Some (je_seq t')" "covers t' t"
        using cov t(1) by (auto simp: abandoned_by_def)
      then have "covers t e \<Longrightarrow> abandoned_by es xs e" for e
        using covers_trans [OF wf(2) t(1)] unfolding abandoned_by_def by blast
      moreover have "abandon_step fd a = Inr fd" using t get True by (simp add: abandon_step_def)
      ultimately show ?thesis using fd cov goal by (auto simp: foldR_snoc)
    next
      case False
      obtain p where p: "childCoveragePrefix t = Inr p"
        using nested_prefix [OF wf(2) t(1)] by blast
      let ?fd = "fd\<lparr> af_seqs := af_seqs fd @ [je_seq t], af_prefixes := af_prefixes fd @ [p] \<rparr>"
      have "abandon_step fd a = Inr ?fd" using t get False p by (simp add: abandon_step_def)
      moreover have "isCovered ?fd e \<longleftrightarrow> isCovered fd e \<or> covers t e" if "e \<in> set es" for e
        using that uniq p unfolding isCovered_append covers_def by auto
      ultimately show ?thesis using fd cov goal by (simp add: foldR_snoc)
    qed
  qed
qed

text \<open>
  C6. The abandon fold, with its first-wins rule for targets already covered, computes exactly the
  promised coverage whatever the order of the abandons: the fold succeeds, and an entry is
  abandoned iff some abandon entry targets it or a dispatch whose child scope it lies under.
\<close>

theorem buildAbandonFold_exact:
  assumes "distinct (map je_seq es)" "child_scopes_nested es"
  shows "\<exists>fd. buildAbandonFold es = Inr fd \<and>
    (\<forall>e\<in>set es. isAbandoned fd (je_seq e) \<longleftrightarrow> abandoned_by es es e)"
proof -
  from abandon_fold_prefix [OF assms] obtain fd where "buildAbandonFold es = Inr fd" "af_bySeq fd = by_seq es"
    "\<forall>e\<in>set es. isCovered fd e \<longleftrightarrow> abandoned_by es es e"
    unfolding buildAbandonFold_def by blast
  moreover have "jm_get (by_seq es) (je_seq e) = Some e" if "e \<in> set es" for e
    using by_seq_get assms(1) that by blast
  ultimately show ?thesis by (auto simp: isAbandoned_def)
qed

definition abandon_example :: "journal_entry list" where
  "abandon_example =
     [bare_entry 2 0 '''' ''k'' 0 K_agent S_running ''t'',
      bare_entry 2 1 ''agent:0'' ''c'' 0 K_step S_ok ''t'',
      (bare_entry 2 2 '''' ''a'' 0 K_abandon S_ok ''t'')\<lparr>je_ref := Some 0\<rparr>,
      (bare_entry 2 3 '''' ''a'' 1 K_abandon S_ok ''t'')\<lparr>je_ref := Some 1\<rparr>]"

theorem buildAbandonFold_exact_witness:
  "\<exists>fd. buildAbandonFold abandon_example = Inr fd \<and> isAbandoned fd 1 \<and> \<not> isAbandoned fd 2"
proof -
  have "child_scopes_nested abandon_example"
    by (simp add: child_scopes_nested_def abandon_example_def childCoveragePrefix_not_child
        agentScope_nonempty under_prefix_agentScope)
  moreover have "distinct (map je_seq abandon_example)" by (simp add: abandon_example_def)
  ultimately obtain fd where fd: "buildAbandonFold abandon_example = Inr fd"
    "\<forall>e\<in>set abandon_example. isAbandoned fd (je_seq e) \<longleftrightarrow> abandoned_by abandon_example abandon_example e"
    using buildAbandonFold_exact [of abandon_example] by blast
  have "abandoned_by abandon_example abandon_example (abandon_example ! 1)"
    by (simp add: abandoned_by_def abandon_example_def covers_def)
  moreover have "\<not> abandoned_by abandon_example abandon_example (abandon_example ! 2)"
    by (simp add: abandoned_by_def abandon_example_def covers_def childCoveragePrefix_def
        agentScope_def joinScope_def show_nat.simps under_prefix_def starts_with_def bare_entry_def)
  moreover have "abandon_example ! 1 \<in> set abandon_example" "abandon_example ! 2 \<in> set abandon_example"
    "je_seq (abandon_example ! 1) = 1" "je_seq (abandon_example ! 2) = 2"
    by (simp_all add: abandon_example_def)
  ultimately show ?thesis using fd by metis
qed


section \<open>Errors over the wire\<close>

text \<open>What the types promise of an error written by the engine.\<close>

definition typed_agent_error :: "agent_error \<Rightarrow> bool" where
  "typed_agent_error e \<longleftrightarrow>
     ae_kind e \<noteq> None
     \<and> (case ae_stage e of None \<Rightarrow> True | Some s \<Rightarrow> s \<in> set STAGES)
     \<and> (case ae_issues e of None \<Rightarrow> True | Some is \<Rightarrow> list_all (\<lambda>i. ai_message i \<noteq> None) is)"

fun plain_segment :: "path_segment \<Rightarrow> path_segment" where
  "plain_segment (Seg_keyed_num n) = Seg_num n"
| "plain_segment (Seg_keyed_str s) = Seg_str s"
| "plain_segment seg = seg"

definition plain_issue :: "agent_issue \<Rightarrow> agent_issue" where
  "plain_issue i = i\<lparr> ai_path := map_option (map plain_segment) (ai_path i) \<rparr>"

lemma segment_roundtrip [simp]: "segment_of numstr (segment_json seg) = plain_segment seg"
  by (cases seg) simp_all

lemma issue_roundtrip: "ai_message i \<noteq> None \<Longrightarrow> agent_issue_of numstr (issue_json i) = Inr (plain_issue i)"
  by (cases "ai_message i"; cases "ai_path i")
    (auto simp: agent_issue_of_def issue_json_def plain_issue_def)

lemma issues_roundtrip:
  "list_all (\<lambda>i. ai_message i \<noteq> None) is \<Longrightarrow>
    foldR (\<lambda>acc raw. bindR (agent_issue_of numstr raw) (\<lambda>i. Inr (acc @ [i]))) acc (map issue_json is)
      = Inr (acc @ map plain_issue is)"
proof (induction "is" arbitrary: acc)
  case Nil
  then show ?case by simp
next
  case (Cons i "is")
  then show ?case by (auto simp: issue_roundtrip)
qed

lemma wire_data_members:
  "map_of (wire_data e) ''kind'' = ae_kind e"
  "map_of (wire_data e) ''retryAfterMs'' = map_option JNum (ae_retryAfterMs e)"
  "map_of (wire_data e) ''stage'' = map_option JStr (ae_stage e)"
  "map_of (wire_data e) ''issues'' = map_option (\<lambda>is. JArr (map issue_json is)) (ae_issues e)"
  unfolding wire_data_def
  by (cases "ae_kind e"; cases "ae_retryAfterMs e"; cases "ae_reason e"; cases "ae_stage e"; cases "ae_issues e"; simp)+



section \<open>Dispositions\<close>

text \<open>
  Abandonment is stronger than any terminal status and an explicit invalidation stronger than
  the table. Past those two, an entry of the current profile replays iff it ended ok or escalated, or
  at a limit that was memoized or that a settled run absorbed, or with a memoized error of the task
  class; everything else reruns.
\<close>

lemma replayDisposition_current:
  assumes "je_hashVersion e = 2" "final = (case terminal of None \<Rightarrow> e | Some t \<Rightarrow> t)"
    and "buildDeriverRegistry sha numstr [] = Inr registry"
    and "replayDisposition numstr abandoned registry invalidated settled e terminal = Inr d"
  shows "(d = D_skip \<longleftrightarrow> abandoned (je_seq e)) \<and>
    (d = D_replay \<longleftrightarrow> \<not> abandoned (je_seq e) \<and> je_seq e \<notin> set invalidated \<and>
       (je_status final \<in> {S_ok, S_escalated}
        \<or> je_status final = S_limit \<and> (memoize_flag final e \<or> settled)
        \<or> je_status final = S_error \<and> memoize_flag final e \<and> je_error final \<noteq> None \<and>
            (\<exists>err. agentErrorFromWireSafe numstr final = Inr err \<and> classifyAgentError err = Class_task)))"
proof -
  have table: "replayDisposition numstr abandoned registry invalidated settled e terminal =
      (if abandoned (je_seq e) then Inr D_skip
       else if je_seq e \<in> set invalidated then Inr D_rerun
       else applyRule numstr (V2_TABLE (je_status final)) \<lparr> op_running = e, op_terminal = Some final \<rparr> settled)"
    using assms(1-3) by (auto simp: replayDisposition_def buildDeriverRegistry_none shipped_registry_def deriverV2_def Let_def)
  show ?thesis
    using assms(4) unfolding table
    by (cases "je_status final") (auto simp: applyRule_def result_simps split: if_splits)
qed

text \<open>
  The compatibility of the profiles: without memoization flags, an entry gets the same
  disposition under the v1 and the current profile except for an escalated terminal, and except for a
  limit terminal of a run that already settled ok, which the current profile replays and v1 reruns.
\<close>

lemma v1_v2_dispositions:
  assumes "je_memoizeOutcome e = None" "final = (case terminal of None \<Rightarrow> e | Some t \<Rightarrow> t)"
    and "je_memoizeOutcome final = None" "buildDeriverRegistry sha numstr [] = Inr registry"
  shows "replayDisposition numstr abandoned registry invalidated settled (e\<lparr>je_hashVersion := 1\<rparr>) (Some final)
       = replayDisposition numstr abandoned registry invalidated settled (e\<lparr>je_hashVersion := 2\<rparr>) (Some final)
    \<longleftrightarrow> abandoned (je_seq e) \<or> je_seq e \<in> set invalidated
        \<or> je_status final \<noteq> S_escalated \<and> \<not> (je_status final = S_limit \<and> settled)"
  using assms
  by (cases "je_status final")
    (auto simp: replayDisposition_def buildDeriverRegistry_none shipped_registry_def deriverV1_def
      deriverV2_def applyRule_def memoize_flag_def Let_def)

end
