(* ===== verification/Matching.thy ===== *)
theory Matching
  imports Disposition
begin

text \<open>
  Scoped forward matching, \<open>packages/core/src/journal/matching.ts\<close>: the matcher built over a
  loaded journal, aliases, the match of one live call and the resume report. Operations on the
  matcher return the new matcher beside their result, so that what a throwing disposition leaves
  behind is visible. The memo table of derived keys is not kept: \<open>keyFor\<close> is a function.
\<close>

section \<open>State\<close>

record matcher =
  m_byScope :: "(string, journal_operation list) jsmap"
  m_all :: "journal_operation list"
  m_consumed :: "nat list"
  m_resolvedRefs :: "nat list"
  m_keyRing :: key_ring
  m_disposition :: "journal_operation \<Rightarrow> operation_disposition result"
  m_aliasDisposition :: "(journal_operation \<Rightarrow> operation_disposition result) option"
  m_aliases :: "(string \<times> string) list"
  m_hits :: nat
  m_misses :: nat
  m_skipped :: nat
  m_reruns :: nat

definition roundOneDisposition :: "journal_operation \<Rightarrow> operation_disposition result" where
  "roundOneDisposition op =
     (let status = je_status (case op_terminal op of Some t \<Rightarrow> t | None \<Rightarrow> op_running op)
      in Inr (if status = S_ok then D_replay else D_rerun))"

datatype match_result =
    M_replay journal_entry journal_entry
  | M_skip journal_entry "journal_entry option"
  | M_rerun_dangling journal_entry
  | M_rerun journal_entry
  | M_live

datatype replay_mode = Mode_scoped | Mode_cache | Mode_never

section \<open>Construction\<close>

text \<open>Ref-entries are outside the cursors; the last terminal of a dispatch wins.\<close>

definition collect_refs ::
  "journal_entry list \<Rightarrow> nat list \<times> (nat, journal_entry) jsmap" where
  "collect_refs entries =
     foldl (\<lambda>(resolved, terminals) e.
              if is_ref_entry e then
                (case je_ref e of
                   Some r \<Rightarrow> (if je_kind e = K_resolution then List.insert r resolved else resolved, terminals)
                 | None \<Rightarrow> (resolved, terminals))
              else
                (case je_ref e of
                   Some r \<Rightarrow> (resolved, jm_set r e terminals)
                 | None \<Rightarrow> (resolved, terminals)))
       ([], []) entries"

definition operations_of :: "journal_entry list \<Rightarrow> journal_operation list" where
  "operations_of entries =
     (let terminals = snd (collect_refs entries)
      in map (\<lambda>e. \<lparr> op_running = e, op_terminal = jm_get terminals (je_seq e) \<rparr>)
           (filter (\<lambda>e. \<not> is_ref_entry e \<and> je_ref e = None) entries))"

definition scope_list :: "(string, journal_operation list) jsmap \<Rightarrow> string \<Rightarrow> journal_operation list" where
  "scope_list m scope = (case jm_get m scope of None \<Rightarrow> [] | Some ops \<Rightarrow> ops)"

definition index_by_scope :: "journal_operation list \<Rightarrow> (string, journal_operation list) jsmap" where
  "index_by_scope ops =
     foldl (\<lambda>m op. let scope = je_scope (op_running op)
                    in jm_set scope (scope_list m scope @ [op]) m) [] ops"

definition new_matcher ::
  "key_ring \<Rightarrow> (journal_operation \<Rightarrow> operation_disposition result) \<Rightarrow> journal_entry list \<Rightarrow> matcher" where
  "new_matcher ring dispose entries =
     (let ops = operations_of entries in \<lparr>
        m_byScope = index_by_scope ops, m_all = ops, m_consumed = [],
        m_resolvedRefs = fst (collect_refs entries), m_keyRing = ring, m_disposition = dispose,
        m_aliasDisposition = None, m_aliases = [],
        m_hits = 0, m_misses = 0, m_skipped = 0, m_reruns = 0 \<rparr>)"

definition setDisposition ::
  "(journal_operation \<Rightarrow> operation_disposition result) \<Rightarrow> matcher \<Rightarrow> matcher" where
  "setDisposition d m = m\<lparr> m_disposition := d \<rparr>"

definition setAliasDisposition ::
  "(journal_operation \<Rightarrow> operation_disposition result) \<Rightarrow> matcher \<Rightarrow> matcher" where
  "setAliasDisposition d m = m\<lparr> m_aliasDisposition := Some d \<rparr>"

definition registerAlias :: "string \<Rightarrow> string \<Rightarrow> matcher \<Rightarrow> matcher" where
  "registerAlias donorPrefix targetPrefix m =
     (if (donorPrefix, targetPrefix) \<in> set (m_aliases m) then m
      else m\<lparr> m_aliases := m_aliases m @ [(donorPrefix, targetPrefix)] \<rparr>)"

section \<open>Matching one call\<close>

definition donor_scope :: "string \<Rightarrow> string \<times> string \<Rightarrow> string option" where
  "donor_scope scope alias =
     (case alias of (donorPrefix, targetPrefix) \<Rightarrow>
        if scope = targetPrefix then Some donorPrefix
        else if starts_with scope (targetPrefix @ ''/'') then
          Some (donorPrefix @ drop (length targetPrefix) scope)
        else None)"

definition candidatesOf :: "matcher \<Rightarrow> string \<Rightarrow> (journal_operation \<times> bool) list" where
  "candidatesOf m scope =
     (let native = map (\<lambda>op. (op, False)) (scope_list (m_byScope m) scope);
          aliased = concat (map (\<lambda>alias. case donor_scope scope alias of
                        None \<Rightarrow> []
                      | Some donor \<Rightarrow> map (\<lambda>op. (op, True)) (scope_list (m_byScope m) donor)) (m_aliases m))
      in if aliased = [] then native
         else sort_key (\<lambda>c. je_seq (op_running (fst c))) (native @ aliased))"

definition eligible :: "matcher \<Rightarrow> identity_input \<Rightarrow> journal_operation \<Rightarrow> bool" where
  "eligible m identity op \<longleftrightarrow>
     je_seq (op_running op) \<notin> set (m_consumed m)
     \<and> m_keyRing m identity (je_hashVersion (op_running op)) = Some (je_key (op_running op))"

definition consume :: "nat \<Rightarrow> matcher \<Rightarrow> matcher" where
  "consume runningSeq m = m\<lparr> m_consumed := List.insert runningSeq (m_consumed m) \<rparr>"

definition count_hit :: "matcher \<Rightarrow> matcher" where
  "count_hit m = m\<lparr> m_hits := m_hits m + 1 \<rparr>"

definition count_miss :: "matcher \<Rightarrow> matcher" where
  "count_miss m = m\<lparr> m_misses := m_misses m + 1 \<rparr>"

definition count_skip :: "matcher \<Rightarrow> matcher" where
  "count_skip m = m\<lparr> m_skipped := m_skipped m + 1 \<rparr>"

definition count_rerun :: "matcher \<Rightarrow> matcher" where
  "count_rerun m = m\<lparr> m_reruns := m_reruns m + 1 \<rparr>"

text \<open>The outcome for the operation that matched, after it was marked consumed.\<close>

definition outcome ::
  "(journal_operation \<Rightarrow> operation_disposition result) \<Rightarrow> journal_operation \<Rightarrow> matcher
     \<Rightarrow> matcher \<times> match_result result" where
  "outcome dispositionOf op m =
     (let running = op_running op in
      case op_terminal op of
        None \<Rightarrow>
          if je_status running = S_suspended then (count_hit m, Inr (M_skip running None))
          else if je_status running = S_running then
            (case dispositionOf \<lparr> op_running = running, op_terminal = None \<rparr> of
               Inl err \<Rightarrow> (m, Inl err)
             | Inr D_skip \<Rightarrow> (count_skip m, Inr (M_skip running None))
             | Inr _ \<Rightarrow> (count_rerun m, Inr (M_rerun_dangling running)))
          else
            (case dispositionOf \<lparr> op_running = running, op_terminal = Some running \<rparr> of
               Inl err \<Rightarrow> (m, Inl err)
             | Inr D_replay \<Rightarrow> (count_hit m, Inr (M_replay running running))
             | Inr D_skip \<Rightarrow> (count_skip m, Inr (M_skip running (Some running)))
             | Inr D_rerun \<Rightarrow> (count_rerun m, Inr (M_rerun running)))
      | Some terminal \<Rightarrow>
          (case dispositionOf op of
             Inl err \<Rightarrow> (m, Inl err)
           | Inr D_replay \<Rightarrow> (count_hit m, Inr (M_replay running terminal))
           | Inr D_skip \<Rightarrow> (count_skip m, Inr (M_skip running (Some terminal)))
           | Inr D_rerun \<Rightarrow> (count_rerun m, Inr (M_rerun running))))"

definition match_candidates :: "matcher \<Rightarrow> string \<Rightarrow> replay_mode \<Rightarrow> (journal_operation \<times> bool) list" where
  "match_candidates m scope mode =
     (case mode of
        Mode_never \<Rightarrow> []
      | Mode_cache \<Rightarrow> map (\<lambda>op. (op, False)) (m_all m)
      | Mode_scoped \<Rightarrow> candidatesOf m scope)"

definition match :: "matcher \<Rightarrow> string \<Rightarrow> identity_input \<Rightarrow> replay_mode \<Rightarrow> matcher \<times> match_result result" where
  "match m scope identity mode =
     (case List.find (\<lambda>(op, _). eligible m identity op) (match_candidates m scope mode) of
        None \<Rightarrow> (count_miss m, Inr M_live)
      | Some (op, viaAlias) \<Rightarrow>
          outcome
            (case m_aliasDisposition m of
               Some d \<Rightarrow> if viaAlias then d else m_disposition m
             | None \<Rightarrow> m_disposition m)
            op (consume (je_seq (op_running op)) m))"

section \<open>The report\<close>

record resume_report =
  rr_hits :: nat
  rr_misses :: nat
  rr_skipped :: nat
  rr_reruns :: nat
  rr_orphaned :: "nat list"

definition is_orphan :: "matcher \<Rightarrow> journal_operation \<Rightarrow> bool" where
  "is_orphan m op \<longleftrightarrow>
     (if je_seq (op_running op) \<in> set (m_consumed m) \<or> op_terminal op \<noteq> None then False
      else if je_status (op_running op) = S_running then True
      else if je_status (op_running op) = S_suspended then
        je_seq (op_running op) \<notin> set (m_resolvedRefs m)
      else False)"

definition report :: "matcher \<Rightarrow> resume_report" where
  "report m = \<lparr>
     rr_hits = m_hits m, rr_misses = m_misses m, rr_skipped = m_skipped m, rr_reruns = m_reruns m,
     rr_orphaned = map (\<lambda>op. je_seq (op_running op)) (filter (is_orphan m) (m_all m)) \<rparr>"

section \<open>A whole resume\<close>

text \<open>The calls of a resumed run, in the order they reach the matcher.\<close>

type_synonym call = "string \<times> identity_input \<times> replay_mode"

fun match_all :: "matcher \<Rightarrow> call list \<Rightarrow> matcher \<times> match_result result list" where
  "match_all m [] = (m, [])"
| "match_all m ((scope, identity, mode) # calls) =
     (let (m', r) = match m scope identity mode; (m'', rs) = match_all m' calls in (m'', r # rs))"


section \<open>Frame lemmas\<close>

lemmas counter_defs = count_hit_def count_miss_def count_skip_def count_rerun_def consume_def

text \<open>What matching reads: everything but the counters.\<close>

definition core_of :: "matcher \<Rightarrow> matcher" where
  "core_of m = m\<lparr> m_hits := 0, m_misses := 0, m_skipped := 0, m_reruns := 0 \<rparr>"

definition static_of :: "matcher \<Rightarrow> matcher" where
  "static_of m = core_of (m\<lparr> m_consumed := [] \<rparr>)"

lemma core_of_count [simp]:
  "core_of (count_hit m) = core_of m" "core_of (count_miss m) = core_of m"
  "core_of (count_skip m) = core_of m" "core_of (count_rerun m) = core_of m"
  by (simp_all add: core_of_def counter_defs)

lemma static_of_consume [simp]: "static_of (consume n m) = static_of m"
  by (simp add: static_of_def core_of_def counter_defs)

lemma static_of_core: "core_of m = core_of m' \<Longrightarrow> static_of m = static_of m'"
  unfolding static_of_def core_of_def by (cases m; cases m') simp

lemma static_fields:
  assumes "static_of m = static_of m'"
  shows "m_byScope m = m_byScope m'" "m_all m = m_all m'" "m_keyRing m = m_keyRing m'"
    "m_disposition m = m_disposition m'" "m_aliasDisposition m = m_aliasDisposition m'"
    "m_aliases m = m_aliases m'" "m_resolvedRefs m = m_resolvedRefs m'"
  using assms by (cases m; cases m'; simp add: static_of_def core_of_def)+

lemma core_consumed: "core_of m = core_of m' \<Longrightarrow> m_consumed m = m_consumed m'"
  by (cases m; cases m') (simp add: core_of_def)

lemma consumed_consume [simp]: "m_consumed (consume n m) = List.insert n (m_consumed m)"
  by (simp add: consume_def)

lemma outcome_core: "outcome d op m = (m', r) \<Longrightarrow> core_of m' = core_of m"
  unfolding outcome_def Let_def
  by (auto split: option.splits if_splits sum.splits operation_disposition.splits)

lemma outcome_not_live: "outcome d op m = (m', r) \<Longrightarrow> r \<noteq> Inr M_live"
  unfolding outcome_def Let_def
  by (auto split: option.splits if_splits sum.splits operation_disposition.splits)

lemma outcome_count_miss:
  "outcome d op (count_miss m) = (count_miss (fst (outcome d op m)), snd (outcome d op m))"
  unfolding outcome_def Let_def
  by (auto simp: counter_defs split: option.splits if_splits sum.splits operation_disposition.splits)

text \<open>The position a result consumed.\<close>

fun result_seq :: "match_result result \<Rightarrow> nat option" where
  "result_seq (Inr (M_replay running _)) = Some (je_seq running)"
| "result_seq (Inr (M_skip running _)) = Some (je_seq running)"
| "result_seq (Inr (M_rerun_dangling running)) = Some (je_seq running)"
| "result_seq (Inr (M_rerun running)) = Some (je_seq running)"
| "result_seq _ = None"

lemma outcome_seq: "outcome d op m = (m', r) \<Longrightarrow> result_seq r = None \<or> result_seq r = Some (je_seq (op_running op))"
  unfolding outcome_def Let_def
  by (auto split: option.splits if_splits sum.splits operation_disposition.splits)

text \<open>One call either misses and only counts, or consumes one eligible candidate.\<close>

lemma match_cases:
  assumes "match m scope identity mode = (m', r)"
  obtains
    (miss) "m' = count_miss m" "r = Inr M_live"
      "\<forall>c\<in>set (match_candidates m scope mode). \<not> eligible m identity (fst c)"
  | (hit) op viaAlias d where "(op, viaAlias) \<in> set (match_candidates m scope mode)"
      "eligible m identity op" "outcome d op (consume (je_seq (op_running op)) m) = (m', r)"
      "m_aliasDisposition m = None \<Longrightarrow> d = m_disposition m"
proof (cases "List.find (\<lambda>(op, _). eligible m identity op) (match_candidates m scope mode)")
  case None
  then have "\<forall>c\<in>set (match_candidates m scope mode). \<not> eligible m identity (fst c)"
    by (auto simp: find_None_all)
  with None assms show ?thesis by (intro miss) (auto simp: match_def)
next
  case (Some c)
  obtain op viaAlias where c: "c = (op, viaAlias)" by (cases c)
  from find_Some_in [OF Some] c have "(op, viaAlias) \<in> set (match_candidates m scope mode)" "eligible m identity op"
    by auto
  moreover from Some c assms have "outcome (case m_aliasDisposition m of
               Some d \<Rightarrow> if viaAlias then d else m_disposition m
             | None \<Rightarrow> m_disposition m) op (consume (je_seq (op_running op)) m) = (m', r)"
    by (simp add: match_def)
  ultimately show ?thesis by (rule hit) simp
qed

lemma match_static: "match m scope identity mode = (m', r) \<Longrightarrow> static_of m' = static_of m"
proof (erule match_cases)
  assume "m' = count_miss m"
  then show ?thesis using static_of_core [of "count_miss m" m] by simp
next
  fix op viaAlias d assume "outcome d op (consume (je_seq (op_running op)) m) = (m', r)"
  then have "static_of m' = static_of (consume (je_seq (op_running op)) m)"
    using outcome_core static_of_core by blast
  then show ?thesis by simp
qed

lemma count_miss_sel:
  "m_byScope (count_miss m) = m_byScope m" "m_all (count_miss m) = m_all m"
  "m_consumed (count_miss m) = m_consumed m" "m_keyRing (count_miss m) = m_keyRing m"
  "m_aliases (count_miss m) = m_aliases m" "m_disposition (count_miss m) = m_disposition m"
  "m_aliasDisposition (count_miss m) = m_aliasDisposition m"
  by (simp_all add: count_miss_def)

lemma match_count_miss:
  "match (count_miss m) scope identity mode
    = (count_miss (fst (match m scope identity mode)), snd (match m scope identity mode))"
proof -
  have c: "match_candidates (count_miss m) scope mode = match_candidates m scope mode"
    "eligible (count_miss m) = eligible m"
    unfolding match_candidates_def candidatesOf_def eligible_def fun_eq_iff count_miss_sel by simp_all
  have "consume n (count_miss m) = count_miss (consume n m)" for n
    by (simp add: consume_def count_miss_def)
  then show ?thesis
    unfolding match_def c count_miss_sel
    by (simp add: outcome_count_miss split: option.split prod.split)
qed

lemma match_all_append:
  "match_all m (xs @ ys) =
    (let (m1, rs1) = match_all m xs; (m2, rs2) = match_all m1 ys in (m2, rs1 @ rs2))"
proof (induction xs arbitrary: m)
  case Nil
  then show ?case by (simp split: prod.splits)
next
  case (Cons c xs)
  obtain s i md where "c = (s, i, md)" by (cases c)
  with Cons show ?case by (simp add: Let_def split: prod.splits)
qed

lemma match_all_count_miss:
  "match_all (count_miss m) calls = (count_miss (fst (match_all m calls)), snd (match_all m calls))"
proof (induction calls arbitrary: m)
  case Nil
  then show ?case by simp
next
  case (Cons c calls)
  obtain s i md where "c = (s, i, md)" by (cases c)
  with Cons show ?case by (simp add: match_count_miss Let_def split: prod.splits)
qed

lemma match_all_length: "length (snd (match_all m calls)) = length calls"
proof (induction calls arbitrary: m)
  case (Cons c calls)
  obtain s i md where "c = (s, i, md)" by (cases c)
  with Cons show ?case by (simp add: Let_def split: prod.splits) (metis snd_conv)
qed simp

lemma match_all_static: "match_all m calls = (m', rs) \<Longrightarrow> static_of m' = static_of m"
proof (induction calls arbitrary: m m' rs)
  case Nil
  then show ?case by simp
next
  case (Cons c calls)
  obtain s i md where c: "c = (s, i, md)" by (cases c)
  obtain m1 r where m1: "match m s i md = (m1, r)" by (cases "match m s i md")
  with Cons.prems c obtain rs' where "match_all m1 calls = (m', rs')" by (auto split: prod.splits)
  with Cons.IH match_static [OF m1] show ?case by metis
qed


section \<open>Reachable matchers\<close>

text \<open>Every state a matcher over a given journal can be in.\<close>

inductive matcher_reach :: "journal_entry list \<Rightarrow> matcher \<Rightarrow> bool" for es where
  reach_new: "matcher_reach es (new_matcher ring d es)"
| reach_disposition: "matcher_reach es m \<Longrightarrow> matcher_reach es (setDisposition d m)"
| reach_aliasDisposition: "matcher_reach es m \<Longrightarrow> matcher_reach es (setAliasDisposition d m)"
| reach_alias: "matcher_reach es m \<Longrightarrow> matcher_reach es (registerAlias donor target m)"
| reach_consume: "matcher_reach es m \<Longrightarrow> matcher_reach es (consume n m)"
| reach_match: "matcher_reach es m \<Longrightarrow> match m scope identity mode = (m', r) \<Longrightarrow> matcher_reach es m'"

lemma scope_list_set: "scope_list (jm_set k v m) s = (if s = k then v else scope_list m s)"
  by (simp add: scope_list_def jm_get_set)

lemma scope_list_index:
  "scope_list (index_by_scope ops) s = filter (\<lambda>op. je_scope (op_running op) = s) ops"
proof (induction ops rule: rev_induct)
  case Nil
  then show ?case by (simp add: index_by_scope_def scope_list_def)
next
  case (snoc op ops)
  have "index_by_scope (ops @ [op]) = (let scope = je_scope (op_running op); m = index_by_scope ops
      in jm_set scope (scope_list m scope @ [op]) m)"
    by (simp add: index_by_scope_def Let_def)
  with snoc show ?case by (auto simp: Let_def scope_list_set)
qed

lemma reach_index:
  "matcher_reach es m \<Longrightarrow> m_all m = operations_of es \<and> m_byScope m = index_by_scope (operations_of es)"
proof (induction rule: matcher_reach.induct)
  case (reach_match m scope identity mode m' r)
  then show ?case using static_fields(1,2) [OF match_static] by metis
qed (auto simp: new_matcher_def setDisposition_def setAliasDisposition_def registerAlias_def consume_def Let_def)

lemma reach_match_all: "matcher_reach es m \<Longrightarrow> match_all m calls = (m', rs) \<Longrightarrow> matcher_reach es m'"
proof (induction calls arbitrary: m rs)
  case Nil
  then show ?case by simp
next
  case (Cons c calls)
  obtain s i md where c: "c = (s, i, md)" by (cases c)
  obtain m1 r where m1: "match m s i md = (m1, r)" by (cases "match m s i md")
  with Cons.prems c obtain rs' where "match_all m1 calls = (m', rs')" by (auto split: prod.splits)
  with Cons.IH reach_match [OF Cons.prems(1) m1] show ?case by blast
qed

lemma candidates_in_all:
  assumes "matcher_reach es m" "c \<in> set (match_candidates m scope mode)"
  shows "fst c \<in> set (operations_of es)"
  using assms(2) reach_index [OF assms(1)]
  by (auto simp: match_candidates_def candidatesOf_def scope_list_index Let_def
      split: replay_mode.splits if_splits option.splits)

lemma operations_distinct:
  "distinct (map je_seq es) \<Longrightarrow> distinct (map (\<lambda>op. je_seq (op_running op)) (operations_of es))"
  by (simp add: operations_of_def Let_def comp_def distinct_map_filter)

section \<open>Properties\<close>

text \<open>
  C34. Insertion stability: a call whose key no operation of the journal carries costs exactly one
  live call. Inserted anywhere into a resumed run, it misses, leaves every other call with the very
  result it had, and changes nothing of the matcher but the miss counter.
\<close>

theorem insertion_stability:
  assumes "matcher_reach es m"
    and "\<forall>op\<in>set (operations_of es).
      m_keyRing m identity (je_hashVersion (op_running op)) \<noteq> Some (je_key (op_running op))"
  shows "match_all m (pre @ (scope, identity, mode) # post) =
    (let (m', rs) = match_all m (pre @ post)
     in (count_miss m', take (length pre) rs @ Inr M_live # drop (length pre) rs))"
proof -
  obtain m1 rs1 where m1: "match_all m pre = (m1, rs1)" by (cases "match_all m pre")
  have "m_keyRing m1 = m_keyRing m" using static_fields(3) [OF match_all_static [OF m1]] .
  then have "\<not> eligible m1 identity (fst c)" if "c \<in> set (match_candidates m1 scope mode)" for c
    using candidates_in_all [OF reach_match_all [OF assms(1) m1] that] assms(2) by (auto simp: eligible_def)
  then have "List.find (\<lambda>(op, _). eligible m1 identity op) (match_candidates m1 scope mode) = None"
    by (auto simp: find_None_all)
  then have "match m1 scope identity mode = (count_miss m1, Inr M_live)" by (simp add: match_def)
  moreover have "length rs1 = length pre" using match_all_length [of m pre] m1 by simp
  ultimately show ?thesis
    by (simp add: match_all_append m1 match_all_count_miss Let_def split: prod.splits)
qed

definition match_example :: "journal_entry list" where
  "match_example =
     [bare_entry 2 0 '''' ''x'' 0 K_step S_ok ''t'', bare_entry 2 1 '''' ''x'' 1 K_step S_ok ''t'']"

definition example_ring :: key_ring where
  "example_ring identity v = (case identity of StepIdentityInput k _ \<Rightarrow> Some k | _ \<Rightarrow> None)"

lemma match_example_ops:
  "operations_of match_example = map (\<lambda>e. \<lparr> op_running = e, op_terminal = None \<rparr>) match_example"
  by (simp add: operations_of_def match_example_def collect_refs_def is_ref_entry_iff)

theorem insertion_stability_witness:
  "map result_seq (snd (match_all (new_matcher example_ring roundOneDisposition match_example)
     ([('''', StepIdentityInput ''x'' [], Mode_scoped)] @ ('''', StepIdentityInput ''new'' [], Mode_scoped)
       # [('''', StepIdentityInput ''x'' [], Mode_scoped)]))) = [Some 0, None, Some 1]"
proof -
  let ?m = "new_matcher example_ring roundOneDisposition match_example"
  let ?c = "('''', StepIdentityInput ''x'' [], Mode_scoped)"
  have no: "\<forall>op\<in>set (operations_of match_example).
      m_keyRing ?m (StepIdentityInput ''new'' []) (je_hashVersion (op_running op)) \<noteq> Some (je_key (op_running op))"
    by (simp add: match_example_ops) (simp add: match_example_def new_matcher_def example_ring_def Let_def)
  have "map result_seq (snd (match_all ?m [?c, ?c])) = [Some 0, Some 1]"
    by code_simp
  then show ?thesis
    using insertion_stability [OF reach_new no, of "[?c]" "''''" Mode_scoped "[?c]"]
    by (auto simp: Let_def take_Cons' drop_Cons' split: prod.splits)
qed

text \<open>
  C35. Nothing is consumed twice: over any run of calls, in any modes and through any aliases, the
  positions the results name are pairwise distinct operations of the journal, none of which was
  consumed before.
\<close>

theorem consumed_at_most_once:
  assumes "matcher_reach es m"
  shows "distinct (List.map_filter result_seq (snd (match_all m calls)))
    \<and> set (List.map_filter result_seq (snd (match_all m calls)))
        \<subseteq> (\<lambda>op. je_seq (op_running op)) ` set (operations_of es) - set (m_consumed m)"
  using assms
proof (induction calls arbitrary: m)
  case Nil
  then show ?case by (simp add: map_filter_def)
next
  case (Cons c calls)
  obtain s i md where c: "c = (s, i, md)" by (cases c)
  obtain m1 r where m1: "match m s i md = (m1, r)" by (cases "match m s i md")
  let ?ops = "(\<lambda>op. je_seq (op_running op)) ` set (operations_of es)"
  let ?rs = "List.map_filter result_seq (snd (match_all m1 calls))"
  have IH: "distinct ?rs" "set ?rs \<subseteq> ?ops - set (m_consumed m1)"
    using Cons.IH [OF reach_match [OF Cons.prems m1]] by blast+
  have rs: "List.map_filter result_seq (snd (match_all m (c # calls))) =
      (case result_seq r of None \<Rightarrow> ?rs | Some n \<Rightarrow> n # ?rs)"
    by (simp add: c m1 Let_def map_filter_def split: prod.split option.split)
  from m1 show ?case
  proof (cases rule: match_cases)
    case miss
    then show ?thesis using IH rs by (simp add: count_miss_sel)
  next
    case (hit op viaAlias d)
    let ?n = "je_seq (op_running op)"
    have n: "?n \<in> ?ops" "?n \<notin> set (m_consumed m)"
      using candidates_in_all [OF Cons.prems hit(1)] hit(2) by (auto simp: eligible_def)
    have "m_consumed m1 = List.insert ?n (m_consumed m)"
      using core_consumed [OF outcome_core [OF hit(3)]] by simp
    then show ?thesis
      using IH n outcome_seq [OF hit(3)] by (auto simp: rs)
  qed
qed

theorem consumed_at_most_once_witness:
  "distinct (List.map_filter result_seq (snd (match_all
     (new_matcher example_ring roundOneDisposition match_example)
     [('''', StepIdentityInput ''x'' [], Mode_scoped), ('''', StepIdentityInput ''x'' [], Mode_cache)])))"
  using consumed_at_most_once [OF reach_new] by blast


section \<open>Replay of a completed journal\<close>

text \<open>
  An operation is complete when it would replay; calls and operations meet by scope and content
  key. All entries carry the version \<open>v\<close>, under which a call has the key \<open>kf\<close>.
\<close>

definition replay_of :: "journal_operation \<Rightarrow> match_result result" where
  "replay_of op = Inr (M_replay (op_running op)
     (case op_terminal op of Some t \<Rightarrow> t | None \<Rightarrow> op_running op))"

definition complete_op :: "(journal_operation \<Rightarrow> operation_disposition result) \<Rightarrow> journal_operation \<Rightarrow> bool" where
  "complete_op d op \<longleftrightarrow>
     (case op_terminal op of
        Some _ \<Rightarrow> d op = Inr D_replay
      | None \<Rightarrow> je_status (op_running op) \<notin> {S_running, S_suspended}
          \<and> d \<lparr> op_running = op_running op, op_terminal = Some (op_running op) \<rparr> = Inr D_replay)"

definition op_class :: "journal_operation \<Rightarrow> string \<times> string" where
  "op_class op = (je_scope (op_running op), je_key (op_running op))"

definition call_class :: "(identity_input \<Rightarrow> string) \<Rightarrow> call \<Rightarrow> string \<times> string" where
  "call_class kf c = (fst c, kf (fst (snd c)))"

definition pending :: "matcher \<Rightarrow> journal_operation list" where
  "pending m = filter (\<lambda>op. je_seq (op_running op) \<notin> set (m_consumed m)) (m_all m)"

lemma find_filter: "List.find P xs = (case filter P xs of [] \<Rightarrow> None | x # _ \<Rightarrow> Some x)"
  by (induction xs) auto

lemma outcome_complete: "complete_op d op \<Longrightarrow> outcome d op m = (count_hit m, replay_of op)"
  by (auto simp: complete_op_def outcome_def replay_of_def Let_def split: option.splits)

lemma head_pending: "filter P (pending m) = op # rest \<Longrightarrow> op \<in> set (m_all m)"
proof -
  assume "filter P (pending m) = op # rest"
  then have "op \<in> set (filter P (pending m))" by simp
  then show ?thesis by (simp add: pending_def)
qed

lemma pending_hit:
  assumes "distinct (map (\<lambda>op. je_seq (op_running op)) (m_all m))"
    "filter P (pending m) = op # rest" "m_all m' = m_all m"
    "m_consumed m' = List.insert (je_seq (op_running op)) (m_consumed m)"
  shows "pending m' = remove1 op (pending m)"
proof -
  have dist: "distinct (pending m)" using assms(1) by (simp add: pending_def distinct_map)
  have op: "op \<in> set (m_all m)" using head_pending [OF assms(2)] .
  have "je_seq (op_running x) = je_seq (op_running op) \<longleftrightarrow> x = op" if "x \<in> set (m_all m)" for x
    using that op assms(1) by (auto simp: distinct_map dest: inj_onD)
  then have "pending m' = filter (\<lambda>x. x \<noteq> op) (pending m)"
    unfolding pending_def assms(3,4) filter_filter by (intro filter_cong) auto
  also have "\<dots> = remove1 op (pending m)"
    using dist by (auto simp: distinct_remove1_removeAll removeAll_filter_not_eq intro: filter_cong)
  finally show ?thesis .
qed

lemma match_step_complete:
  assumes "matcher_reach es m" "m_aliases m = []" "m_aliasDisposition m = None"
    and "distinct (map je_seq es)"
    and ops: "\<forall>op\<in>set (operations_of es). je_hashVersion (op_running op) = v \<and> complete_op (m_disposition m) op"
    and key: "m_keyRing m identity v = Some (kf identity)"
    and head: "filter (\<lambda>op. op_class op = (scope, kf identity)) (pending m) = op # rest"
  shows "match m scope identity Mode_scoped = (count_hit (consume (je_seq (op_running op)) m), replay_of op)"
proof -
  let ?ops = "operations_of es"
  note idx = reach_index [OF assms(1)]
  have "match_candidates m scope Mode_scoped = map (\<lambda>op. (op, False)) (filter (\<lambda>op. je_scope (op_running op) = scope) ?ops)"
    using idx assms(2) by (simp add: match_candidates_def candidatesOf_def scope_list_index)
  moreover have "filter (\<lambda>op. je_scope (op_running op) = scope \<and> eligible m identity op) ?ops
      = filter (\<lambda>op. op_class op = (scope, kf identity)) (pending m)"
    unfolding pending_def filter_filter using idx ops key
    by (auto intro!: filter_cong simp: eligible_def op_class_def)
  ultimately have "List.find (\<lambda>(op, _). eligible m identity op) (match_candidates m scope Mode_scoped) = Some (op, False)"
    by (simp add: find_filter filter_map comp_def head)
  moreover have "op \<in> set ?ops"
    using head_pending [OF head] idx by simp
  ultimately show ?thesis using ops assms(3) by (simp add: match_def outcome_complete)
qed


definition results_of_class ::
  "(identity_input \<Rightarrow> string) \<Rightarrow> call list \<Rightarrow> match_result result list \<Rightarrow> string \<times> string \<Rightarrow> match_result result list" where
  "results_of_class kf calls rs c = map snd (filter (\<lambda>(call, r). call_class kf call = c) (zip calls rs))"

lemma results_of_class_Cons:
  "results_of_class kf (call # calls) (r # rs) c =
    (if call_class kf call = c then r # results_of_class kf calls rs c else results_of_class kf calls rs c)"
  by (simp add: results_of_class_def)

lemma match_all_complete:
  assumes "matcher_reach es m" "m_aliases m = []" "m_aliasDisposition m = None" "distinct (map je_seq es)"
    and "\<forall>op\<in>set (operations_of es). je_hashVersion (op_running op) = v \<and> complete_op (m_disposition m) op"
    and "\<forall>i. m_keyRing m i v = Some (kf i)"
    and "\<forall>call\<in>set calls. snd (snd call) = Mode_scoped"
    and "\<forall>c. length (filter (\<lambda>call. call_class kf call = c) calls) \<le> length (filter (\<lambda>op. op_class op = c) (pending m))"
    and "match_all m calls = (m', rs)"
  shows "(\<forall>c. results_of_class kf calls rs c
      = map replay_of (take (length (filter (\<lambda>call. call_class kf call = c) calls)) (filter (\<lambda>op. op_class op = c) (pending m))))
    \<and> m_hits m' = m_hits m + length calls \<and> m_misses m' = m_misses m
    \<and> m_reruns m' = m_reruns m \<and> m_skipped m' = m_skipped m"
  using assms
proof (induction calls arbitrary: m rs)
  case Nil
  then show ?case by (simp add: results_of_class_def)
next
  case (Cons call calls)
  obtain s i where call: "call = (s, i, Mode_scoped)" using Cons.prems(7) by (cases call) auto
  have cls: "call_class kf call = (s, kf i)" by (simp add: call call_class_def)
  have "length (filter (\<lambda>op. op_class op = (s, kf i)) (pending m)) \<noteq> 0"
    using Cons.prems(8) [rule_format, of "(s, kf i)"] cls by auto
  then obtain op rest where head: "filter (\<lambda>op. op_class op = (s, kf i)) (pending m) = op # rest"
    by (cases "filter (\<lambda>op. op_class op = (s, kf i)) (pending m)") auto
  let ?m1 = "count_hit (consume (je_seq (op_running op)) m)"
  have step: "match m s i Mode_scoped = (?m1, replay_of op)"
    using Cons.prems(1-6) head by (intro match_step_complete) auto
  with Cons.prems(9) call obtain rs' where rs: "match_all ?m1 calls = (m', rs')" "rs = replay_of op # rs'"
    by (auto split: prod.splits)
  have "distinct (map (\<lambda>op. je_seq (op_running op)) (m_all m))"
    using reach_index [OF Cons.prems(1)] operations_distinct [OF Cons.prems(4)] by simp
  then have pend: "pending ?m1 = remove1 op (pending m)"
    using head by (rule pending_hit) (simp_all add: count_hit_def consume_def)
  have opc: "op_class op = (s, kf i)" using head by (metis (mono_tags, lifting) filter_eq_ConsD)
  have cls1: "filter (\<lambda>op. op_class op = c) (pending ?m1) =
      (if c = (s, kf i) then rest else filter (\<lambda>op. op_class op = c) (pending m))" for c
    using head opc by (simp add: pend filter_remove1)
  have same: "m_aliases ?m1 = m_aliases m" "m_aliasDisposition ?m1 = m_aliasDisposition m"
    "m_disposition ?m1 = m_disposition m" "m_keyRing ?m1 = m_keyRing m"
    "m_hits ?m1 = m_hits m + 1" "m_misses ?m1 = m_misses m" "m_reruns ?m1 = m_reruns m" "m_skipped ?m1 = m_skipped m"
    by (simp_all add: count_hit_def consume_def)
  have cnt: "\<forall>c. length (filter (\<lambda>call. call_class kf call = c) calls) \<le> length (filter (\<lambda>op. op_class op = c) (pending ?m1))"
  proof
    fix c show "length (filter (\<lambda>call. call_class kf call = c) calls) \<le> length (filter (\<lambda>op. op_class op = c) (pending ?m1))"
      using Cons.prems(8) [rule_format, of c] head cls by (simp add: cls1 split: if_splits)
  qed
  have IH: "(\<forall>c. results_of_class kf calls rs' c
      = map replay_of (take (length (filter (\<lambda>call. call_class kf call = c) calls)) (filter (\<lambda>op. op_class op = c) (pending ?m1))))
    \<and> m_hits m' = m_hits ?m1 + length calls \<and> m_misses m' = m_misses ?m1
    \<and> m_reruns m' = m_reruns ?m1 \<and> m_skipped m' = m_skipped ?m1"
    using reach_match [OF Cons.prems(1) step] Cons.prems(2-7) cnt rs(1) same(1-4)
    by (intro Cons.IH) simp_all
  show ?case
    using IH same(5-8) head cls by (auto simp: rs(2) results_of_class_Cons cls1)
qed

text \<open>
  C1. Finished work is never paid twice, whatever the interleaving: when every operation of the
  journal is complete and the calls of the resumed run ask, per scope and content key, for no more
  operations than the journal holds, every call is served from the journal. The calls of one scope
  and key get its operations in journal order, independently of how the scopes interleave, and the
  report counts only hits.
\<close>

theorem completed_journal_replays:
  assumes "distinct (map je_seq es)"
    and "\<forall>op\<in>set (operations_of es). je_hashVersion (op_running op) = v \<and> complete_op d op"
    and "\<forall>i. ring i v = Some (kf i)"
    and "\<forall>call\<in>set calls. snd (snd call) = Mode_scoped"
    and "\<forall>c. length (filter (\<lambda>call. call_class kf call = c) calls)
           \<le> length (filter (\<lambda>op. op_class op = c) (operations_of es))"
    and "match_all (new_matcher ring d es) calls = (m', rs)"
  shows "(\<forall>c. results_of_class kf calls rs c
        = map replay_of (take (length (filter (\<lambda>call. call_class kf call = c) calls))
            (filter (\<lambda>op. op_class op = c) (operations_of es))))
    \<and> rr_hits (report m') = length calls \<and> rr_misses (report m') = 0
    \<and> rr_reruns (report m') = 0 \<and> rr_skipped (report m') = 0"
proof -
  let ?m = "new_matcher ring d es"
  have sel: "m_aliases ?m = []" "m_aliasDisposition ?m = None" "m_disposition ?m = d" "m_keyRing ?m = ring"
    "m_hits ?m = 0" "m_misses ?m = 0" "m_reruns ?m = 0" "m_skipped ?m = 0" "pending ?m = operations_of es"
    by (simp_all add: new_matcher_def Let_def pending_def)
  have "(\<forall>c. results_of_class kf calls rs c
      = map replay_of (take (length (filter (\<lambda>call. call_class kf call = c) calls)) (filter (\<lambda>op. op_class op = c) (pending ?m))))
    \<and> m_hits m' = m_hits ?m + length calls \<and> m_misses m' = m_misses ?m
    \<and> m_reruns m' = m_reruns ?m \<and> m_skipped m' = m_skipped ?m"
    by (rule match_all_complete [OF reach_new]) (use assms in \<open>simp_all add: sel\<close>)
  then show ?thesis by (simp add: sel report_def)
qed

definition replay_example :: "journal_entry list" where
  "replay_example =
     [bare_entry 2 0 ''par:0:0'' ''x'' 0 K_step S_running ''t'',
      bare_entry 2 1 ''par:0:1'' ''x'' 0 K_rand S_ok ''t'',
      (bare_entry 2 2 ''par:0:0'' ''x'' 0 K_step S_ok ''t'')\<lparr>je_ref := Some 0\<rparr>]"

theorem completed_journal_replays_witness:
  "rr_hits (report (fst (match_all
     (new_matcher (\<lambda>i v. Some ''x'') roundOneDisposition replay_example)
     [(''par:0:1'', ExternalIdentityInput ''x'', Mode_scoped), (''par:0:0'', ExternalIdentityInput ''x'', Mode_scoped)]))) = 2"
proof -
  let ?calls = "[(''par:0:1'', ExternalIdentityInput ''x'', Mode_scoped), (''par:0:0'', ExternalIdentityInput ''x'', Mode_scoped)]"
  let ?m = "new_matcher (\<lambda>i v. Some ''x'') roundOneDisposition replay_example"
  obtain m' rs where r: "match_all ?m ?calls = (m', rs)" by (cases "match_all ?m ?calls")
  have ops: "operations_of replay_example =
      [\<lparr> op_running = bare_entry 2 0 ''par:0:0'' ''x'' 0 K_step S_running ''t'',
         op_terminal = Some ((bare_entry 2 2 ''par:0:0'' ''x'' 0 K_step S_ok ''t'')\<lparr>je_ref := Some 0\<rparr>) \<rparr>,
       \<lparr> op_running = bare_entry 2 1 ''par:0:1'' ''x'' 0 K_rand S_ok ''t'', op_terminal = None \<rparr>]"
    by (simp add: operations_of_def replay_example_def collect_refs_def is_ref_entry_iff)
  have "rr_hits (report m') = length ?calls"
    using completed_journal_replays [of replay_example 2 roundOneDisposition "\<lambda>i v. Some ''x''" "\<lambda>i. ''x''" ?calls m' rs] r
    by (simp add: ops complete_op_def roundOneDisposition_def call_class_def op_class_def) (simp add: replay_example_def)
  then show ?thesis unfolding r by simp
qed

end
