(* ===== verification/ResolutionFold.thy ===== *)
theory ResolutionFold
  imports Disposition Kinds
begin

text \<open>
  Suspensions and ref-entries, \<open>packages/core/src/journal/resolution.ts\<close>: the first-closing-wins
  fold, its live registration calls and the arbiter. The vendored JSON Schema validator is the
  parameter \<open>validate\<close>: the schema and the value give no issue, the text of the first issue, or
  an exception. Operations that mutate and may throw return the state they leave beside their
  result. A promise chain per target makes one submission at a time run its section, so a
  submission is one step.
\<close>

section \<open>State\<close>

datatype closed_kind = Closed_resolution | Closed_abandon

record target_state =
  ts_entry :: journal_entry
  ts_closedBy :: "nat option"
  ts_closedKind :: "closed_kind option"
  ts_value :: "json option"

datatype noop_reason = Already_resolved | Target_abandoned

datatype classification =
    Applied
  | Noop nat noop_reason
  | Invalid string

datatype suspension_state =
    Suspended "string option"
  | Resolved nat json
  | Abandoned nat

record resolution_fold =
  rf_targets :: "(nat, target_state) jsmap"
  rf_bySeq :: "(nat, journal_entry) jsmap"
  rf_classifications :: "(nat, classification) jsmap"
  rf_coveredSeqs :: "nat list"
  rf_coveredPrefixes :: "string list"

type_synonym validator = "json \<Rightarrow> json \<Rightarrow> string option result"

definition open_target :: "journal_entry \<Rightarrow> target_state" where
  "open_target e = \<lparr> ts_entry = e, ts_closedBy = None, ts_closedKind = None, ts_value = None \<rparr>"

definition isCoveredEntry :: "resolution_fold \<Rightarrow> journal_entry \<Rightarrow> bool" where
  "isCoveredEntry f e \<longleftrightarrow>
     je_seq e \<in> set (rf_coveredSeqs f) \<or> list_ex (under_prefix (je_scope e)) (rf_coveredPrefixes f)"

section \<open>Ref-entries\<close>

text \<open>Rule O2 and the existence of the target, shared by both kinds.\<close>

definition ref_target :: "resolution_fold \<Rightarrow> journal_entry \<Rightarrow> journal_entry result" where
  "ref_target f e =
     (case je_ref e of
        None \<Rightarrow> Inl (JournalOrderViolation (je_seq e))
      | Some r \<Rightarrow>
          if r \<ge> je_seq e then Inl (JournalOrderViolation (je_seq e))
          else (case jm_get (rf_bySeq f) r of
                  None \<Rightarrow> Inl (JournalOrderViolation (je_seq e))
                | Some t \<Rightarrow> Inr t))"

definition close_by_resolution :: "nat \<Rightarrow> json \<Rightarrow> target_state \<Rightarrow> target_state" where
  "close_by_resolution sq v st =
     st\<lparr> ts_closedBy := Some sq, ts_closedKind := Some Closed_resolution, ts_value := Some v \<rparr>"

definition close_by_abandon :: "nat \<Rightarrow> target_state \<Rightarrow> target_state" where
  "close_by_abandon sq st = st\<lparr> ts_closedBy := Some sq, ts_closedKind := Some Closed_abandon \<rparr>"

definition applyResolution ::
  "validator \<Rightarrow> resolution_fold \<Rightarrow> journal_entry \<Rightarrow> resolution_fold \<times> classification result" where
  "applyResolution validate f e =
     (case ref_target f e of
        Inl err \<Rightarrow> (f, Inl err)
      | Inr target \<Rightarrow>
          (case jm_get (rf_targets f) (the (je_ref e)) of
             None \<Rightarrow> (f, Inr (Invalid ''target is not a suspended entry''))
           | Some st \<Rightarrow>
               if isCoveredEntry f (ts_entry st) then
                 (f, Inr (Noop (case ts_closedBy st of Some c \<Rightarrow> c | None \<Rightarrow> je_seq e) Target_abandoned))
               else (case ts_closedBy st of
                 Some c \<Rightarrow>
                   (f, Inr (Noop c (if ts_closedKind st = Some Closed_abandon then Target_abandoned
                                    else Already_resolved)))
               | None \<Rightarrow>
                   (case je_resolution e of
                      None \<Rightarrow> (f, Inr (Invalid ''missing resolution payload''))
                    | Some payload \<Rightarrow>
                        let close = (f\<lparr> rf_targets := jm_set (the (je_ref e))
                              (close_by_resolution (je_seq e) (rp_value payload) st) (rf_targets f) \<rparr>,
                              Inr Applied)
                        in (case opt_member (je_value (ts_entry st)) ''schema'' of
                              None \<Rightarrow> close
                            | Some schema \<Rightarrow>
                                (case validate schema (rp_value payload) of
                                   Inl err \<Rightarrow> (f, Inl err)
                                 | Inr (Some detail) \<Rightarrow> (f, Inr (Invalid detail))
                                 | Inr None \<Rightarrow> close))))))"

definition close_covered :: "resolution_fold \<Rightarrow> nat \<Rightarrow> resolution_fold" where
  "close_covered f sq =
     f\<lparr> rf_targets := map (\<lambda>(n, st). (n,
          if ts_closedBy st = None \<and> isCoveredEntry f (ts_entry st) then close_by_abandon sq st else st))
        (rf_targets f) \<rparr>"

definition applyAbandon ::
  "resolution_fold \<Rightarrow> journal_entry \<Rightarrow> resolution_fold \<times> classification result" where
  "applyAbandon f e =
     (case ref_target f e of
        Inl err \<Rightarrow> (f, Inl err)
      | Inr target \<Rightarrow>
          if isCoveredEntry f target then (f, Inr (Noop (je_seq e) Target_abandoned))
          else (case Option.bind (jm_get (rf_targets f) (je_seq target)) ts_closedBy of
            Some c \<Rightarrow> (f, Inr (Noop c Already_resolved))
          | None \<Rightarrow>
              let f1 = f\<lparr> rf_coveredSeqs := List.insert (je_seq target) (rf_coveredSeqs f) \<rparr>
              in (case childCoveragePrefix target of
                    Inl err \<Rightarrow> (f1, Inl err)
                  | Inr p \<Rightarrow>
                      (close_covered (f1\<lparr> rf_coveredPrefixes := rf_coveredPrefixes f1 @ [p] \<rparr>) (je_seq e),
                       Inr Applied))))"

definition apply_ref ::
  "validator \<Rightarrow> resolution_fold \<Rightarrow> journal_entry \<Rightarrow> resolution_fold \<times> classification result" where
  "apply_ref validate f e =
     (if je_kind e = K_resolution then applyResolution validate f e else applyAbandon f e)"

definition set_classification :: "nat \<Rightarrow> classification \<Rightarrow> resolution_fold \<Rightarrow> resolution_fold" where
  "set_classification sq c f = f\<lparr> rf_classifications := jm_set sq c (rf_classifications f) \<rparr>"

section \<open>Construction and live registration\<close>

definition empty_fold :: resolution_fold where
  "empty_fold = \<lparr> rf_targets = [], rf_bySeq = [], rf_classifications = [],
     rf_coveredSeqs = [], rf_coveredPrefixes = [] \<rparr>"

definition index_entry :: "resolution_fold \<Rightarrow> journal_entry \<Rightarrow> resolution_fold" where
  "index_entry f e =
     (let f1 = f\<lparr> rf_bySeq := jm_set (je_seq e) e (rf_bySeq f) \<rparr>
      in if je_status e = S_suspended
         then f1\<lparr> rf_targets := jm_set (je_seq e) (open_target e) (rf_targets f1) \<rparr> else f1)"

definition fold_entry :: "validator \<Rightarrow> resolution_fold \<Rightarrow> journal_entry \<Rightarrow> resolution_fold result" where
  "fold_entry validate f e =
     (if je_kind e = K_resolution \<or> je_kind e = K_abandon then
        (case apply_ref validate f e of
           (f', Inl err) \<Rightarrow> Inl err
         | (f', Inr c) \<Rightarrow> Inr (set_classification (je_seq e) c f'))
      else Inr f)"

definition new_fold :: "validator \<Rightarrow> journal_entry list \<Rightarrow> resolution_fold result" where
  "new_fold validate entries =
     foldR (fold_entry validate) (foldl index_entry empty_fold entries) entries"

definition registerSuspended :: "journal_entry \<Rightarrow> resolution_fold \<Rightarrow> resolution_fold" where
  "registerSuspended e f =
     f\<lparr> rf_bySeq := jm_set (je_seq e) e (rf_bySeq f),
         rf_targets := jm_set (je_seq e) (open_target e) (rf_targets f) \<rparr>"

definition registerRefEntry ::
  "validator \<Rightarrow> journal_entry \<Rightarrow> resolution_fold \<Rightarrow> resolution_fold \<times> classification result" where
  "registerRefEntry validate e f =
     (case apply_ref validate (f\<lparr> rf_bySeq := jm_set (je_seq e) e (rf_bySeq f) \<rparr>) e of
        (f', Inl err) \<Rightarrow> (f', Inl err)
      | (f', Inr c) \<Rightarrow> (set_classification (je_seq e) c f', Inr c))"

definition registerEntry :: "journal_entry \<Rightarrow> resolution_fold \<Rightarrow> resolution_fold" where
  "registerEntry e f = f\<lparr> rf_bySeq := jm_set (je_seq e) e (rf_bySeq f) \<rparr>"

section \<open>Queries\<close>

definition suspensionState :: "resolution_fold \<Rightarrow> nat \<Rightarrow> suspension_state" where
  "suspensionState f target =
     (case jm_get (rf_targets f) target of
        None \<Rightarrow> Suspended None
      | Some st \<Rightarrow>
          (case ts_closedBy st of
             None \<Rightarrow> Suspended (je_deadlineAt (ts_entry st))
           | Some c \<Rightarrow>
               if ts_closedKind st = Some Closed_abandon then Abandoned c
               else Resolved c (case ts_value st of Some v \<Rightarrow> v | None \<Rightarrow> JNull)))"

definition classificationOf :: "resolution_fold \<Rightarrow> nat \<Rightarrow> classification option" where
  "classificationOf f sq = jm_get (rf_classifications f) sq"

definition invalidResolutions :: "resolution_fold \<Rightarrow> (nat \<times> string) list" where
  "invalidResolutions f =
     List.map_filter (\<lambda>(sq, c). case c of Invalid detail \<Rightarrow> Some (sq, detail) | _ \<Rightarrow> None) (rf_classifications f)"

definition fold_isAbandoned :: "resolution_fold \<Rightarrow> nat \<Rightarrow> bool" where
  "fold_isAbandoned f ref =
     (case jm_get (rf_bySeq f) ref of None \<Rightarrow> False | Some e \<Rightarrow> isCoveredEntry f e)"

definition openSuspensions :: "resolution_fold \<Rightarrow> journal_entry list" where
  "openSuspensions f =
     map ts_entry (filter (\<lambda>st. ts_closedBy st = None \<and> \<not> isCoveredEntry f (ts_entry st)) (jm_values (rf_targets f)))"


section \<open>What one ref-entry does\<close>

lemma ref_target_Inr:
  "ref_target f e = Inr t \<longleftrightarrow> (\<exists>r. je_ref e = Some r \<and> r < je_seq e \<and> jm_get (rf_bySeq f) r = Some t)"
  by (auto simp: ref_target_def split: option.splits)

lemma applyResolution_disj:
  "applyResolution validate f e = (f', Inr c) \<Longrightarrow> c \<noteq> Applied \<and> f' = f \<or>
    (\<exists>r st p. c = Applied \<and> je_ref e = Some r \<and> r < je_seq e
      \<and> jm_get (rf_targets f) r = Some st \<and> ts_closedBy st = None \<and> \<not> isCoveredEntry f (ts_entry st)
      \<and> je_resolution e = Some p
      \<and> f' = f\<lparr> rf_targets := jm_set r (close_by_resolution (je_seq e) (rp_value p) st) (rf_targets f) \<rparr>)"
  by (cases "je_ref e")
    (auto simp: applyResolution_def ref_target_def Let_def split: sum.splits option.splits if_splits)

lemma applyAbandon_disj:
  "applyAbandon f e = (f', Inr c) \<Longrightarrow> c \<noteq> Applied \<and> f' = f \<or>
    (\<exists>r t p. c = Applied \<and> je_ref e = Some r \<and> r < je_seq e \<and> jm_get (rf_bySeq f) r = Some t
      \<and> \<not> isCoveredEntry f t \<and> childCoveragePrefix t = Inr p
      \<and> Option.bind (jm_get (rf_targets f) (je_seq t)) ts_closedBy = None
      \<and> f' = close_covered (f\<lparr> rf_coveredSeqs := List.insert (je_seq t) (rf_coveredSeqs f),
               rf_coveredPrefixes := rf_coveredPrefixes f @ [p] \<rparr>) (je_seq e))"
  by (cases "je_ref e")
    (auto simp: applyAbandon_def ref_target_def Let_def split: sum.splits option.splits if_splits)

lemma applyResolution_cases:
  assumes "applyResolution validate f e = (f', Inr c)"
  obtains (kept) "c \<noteq> Applied" "f' = f"
  | (closed) r st p where "c = Applied" "je_ref e = Some r" "r < je_seq e"
      "jm_get (rf_targets f) r = Some st" "ts_closedBy st = None" "\<not> isCoveredEntry f (ts_entry st)"
      "je_resolution e = Some p"
      "f' = f\<lparr> rf_targets := jm_set r (close_by_resolution (je_seq e) (rp_value p) st) (rf_targets f) \<rparr>"
  using applyResolution_disj [OF assms] by blast

lemma applyAbandon_cases:
  assumes "applyAbandon f e = (f', Inr c)"
  obtains (kept) "c \<noteq> Applied" "f' = f"
  | (covering) r t p where "c = Applied" "je_ref e = Some r" "r < je_seq e" "jm_get (rf_bySeq f) r = Some t"
      "\<not> isCoveredEntry f t" "childCoveragePrefix t = Inr p"
      "Option.bind (jm_get (rf_targets f) (je_seq t)) ts_closedBy = None"
      "f' = close_covered (f\<lparr> rf_coveredSeqs := List.insert (je_seq t) (rf_coveredSeqs f),
               rf_coveredPrefixes := rf_coveredPrefixes f @ [p] \<rparr>) (je_seq e)"
  using applyAbandon_disj [OF assms] by blast

lemma close_covered_sel [simp]:
  "rf_bySeq (close_covered f n) = rf_bySeq f" "rf_classifications (close_covered f n) = rf_classifications f"
  "rf_coveredSeqs (close_covered f n) = rf_coveredSeqs f" "rf_coveredPrefixes (close_covered f n) = rf_coveredPrefixes f"
  by (simp_all add: close_covered_def)

lemma close_covered_get:
  "jm_get (rf_targets (close_covered f sq)) n = map_option (\<lambda>st.
     if ts_closedBy st = None \<and> isCoveredEntry f (ts_entry st) then close_by_abandon sq st else st)
     (jm_get (rf_targets f) n)"
  unfolding close_covered_def
  using jm_get_map_values [of "\<lambda>_ st. if ts_closedBy st = None \<and> isCoveredEntry f (ts_entry st) then close_by_abandon sq st else st" "rf_targets f" n]
  by simp

lemma set_classification_sel [simp]:
  "rf_targets (set_classification n c f) = rf_targets f" "rf_bySeq (set_classification n c f) = rf_bySeq f"
  "rf_coveredSeqs (set_classification n c f) = rf_coveredSeqs f"
  "rf_coveredPrefixes (set_classification n c f) = rf_coveredPrefixes f"
  "rf_classifications (set_classification n c f) = jm_set n c (rf_classifications f)"
  by (simp_all add: set_classification_def)

lemma isCoveredEntry_cong:
  "rf_coveredSeqs f = rf_coveredSeqs g \<Longrightarrow> rf_coveredPrefixes f = rf_coveredPrefixes g \<Longrightarrow>
    isCoveredEntry f = isCoveredEntry g"
  by (simp add: isCoveredEntry_def fun_eq_iff)

lemma apply_ref_sel:
  "apply_ref validate f e = (f', Inr c) \<Longrightarrow> rf_bySeq f' = rf_bySeq f \<and> rf_classifications f' = rf_classifications f"
  unfolding apply_ref_def
  by (auto split: if_splits elim!: applyResolution_cases applyAbandon_cases)

section \<open>First closing wins\<close>

definition resolved_by :: "resolution_fold \<Rightarrow> nat \<Rightarrow> nat \<Rightarrow> json \<Rightarrow> bool" where
  "resolved_by f n c v \<longleftrightarrow> (\<exists>st. jm_get (rf_targets f) n = Some st \<and> ts_closedBy st = Some c
     \<and> ts_closedKind st = Some Closed_resolution \<and> ts_value st = Some v)"

definition applied_in :: "resolution_fold \<Rightarrow> journal_entry list \<Rightarrow> nat \<Rightarrow> nat \<Rightarrow> json \<Rightarrow> bool" where
  "applied_in f xs n c v \<longleftrightarrow> (\<exists>e\<in>set xs. je_kind e = K_resolution \<and> je_ref e = Some n \<and> je_seq e = c
     \<and> classificationOf f c = Some Applied \<and> map_option rp_value (je_resolution e) = Some v)"

lemma resolved_by_resolution:
  assumes "applyResolution validate f e = (f', Inr c)"
  shows "resolved_by f' n k v \<longleftrightarrow> resolved_by f n k v
    \<or> c = Applied \<and> je_ref e = Some n \<and> k = je_seq e \<and> map_option rp_value (je_resolution e) = Some v"
  using assms
proof (cases rule: applyResolution_cases)
  case (closed r st p)
  then show ?thesis
    by (auto simp: resolved_by_def jm_get_set close_by_resolution_def)
qed auto

lemma resolved_by_abandon:
  assumes "applyAbandon f e = (f', Inr c)"
  shows "resolved_by f' n k v \<longleftrightarrow> resolved_by f n k v"
  using assms
proof (cases rule: applyAbandon_cases)
  case (covering r t p)
  then show ?thesis
    by (cases "jm_get (rf_targets f) n")
      (simp_all add: resolved_by_def close_covered_get close_by_abandon_def)
qed auto

lemma fold_entry_cases:
  assumes "fold_entry validate f e = Inr f'"
  obtains (other) "je_kind e \<noteq> K_resolution" "je_kind e \<noteq> K_abandon" "f' = f"
  | (res) f1 c where "je_kind e = K_resolution" "applyResolution validate f e = (f1, Inr c)" "f' = set_classification (je_seq e) c f1"
  | (abn) f1 c where "je_kind e = K_abandon" "applyAbandon f e = (f1, Inr c)" "f' = set_classification (je_seq e) c f1"
  using assms
  by (auto simp: fold_entry_def apply_ref_def split: if_splits prod.splits sum.splits)

lemma resolved_by_set [simp]: "resolved_by (set_classification n c f) = resolved_by f"
  by (simp add: resolved_by_def fun_eq_iff)

lemma applied_in_set:
  assumes "m \<notin> je_seq ` set xs"
  shows "applied_in (set_classification m c f) xs n k v \<longleftrightarrow> applied_in f xs n k v"
  using assms by (auto simp: applied_in_def classificationOf_def jm_get_set)

lemma classifications_res:
  "applyResolution validate f e = (f', Inr c) \<Longrightarrow> rf_classifications f' = rf_classifications f"
  by (erule applyResolution_cases) simp_all

lemma classifications_abn: "applyAbandon f e = (f', Inr c) \<Longrightarrow> rf_classifications f' = rf_classifications f"
  by (erule applyAbandon_cases) simp_all

lemma applied_in_snoc:
  "applied_in f (xs @ [e]) n k v \<longleftrightarrow> applied_in f xs n k v
    \<or> je_kind e = K_resolution \<and> je_ref e = Some n \<and> je_seq e = k \<and> classificationOf f k = Some Applied
      \<and> map_option rp_value (je_resolution e) = Some v"
  by (auto simp: applied_in_def)

lemma applied_in_classifications:
  "rf_classifications f = rf_classifications g \<Longrightarrow> applied_in f = applied_in g"
  by (simp add: applied_in_def classificationOf_def fun_eq_iff)

lemma fold_entry_resolved:
  assumes step: "fold_entry validate f e = Inr f'" and fresh: "je_seq e \<notin> je_seq ` set xs"
    and inv: "\<forall>n k v. resolved_by f n k v \<longleftrightarrow> applied_in f xs n k v"
  shows "resolved_by f' n k v \<longleftrightarrow> applied_in f' (xs @ [e]) n k v"
  using step
proof (cases rule: fold_entry_cases)
  case other
  then show ?thesis using inv by (simp add: applied_in_snoc)
next
  case (res f1 c)
  have "applied_in f' xs n k v \<longleftrightarrow> applied_in f xs n k v"
    using applied_in_set [OF fresh] applied_in_classifications [OF classifications_res [OF res(2)]] res(3) by simp
  then show ?thesis
    using inv resolved_by_resolution [OF res(2), of n k v] res(1,3)
    by (auto simp: applied_in_snoc classificationOf_def)
next
  case (abn f1 c)
  have "applied_in f' xs n k v \<longleftrightarrow> applied_in f xs n k v"
    using applied_in_set [OF fresh] applied_in_classifications [OF classifications_abn [OF abn(2)]] abn(3) by simp
  then show ?thesis
    using inv resolved_by_abandon [OF abn(2), of n k v] abn(1,3) by (simp add: applied_in_snoc)
qed

lemma index_entries_targets:
  "jm_get (rf_targets (foldl index_entry empty_fold es)) n = Some st \<Longrightarrow> ts_closedBy st = None"
proof (induction es rule: rev_induct)
  case Nil
  then show ?case by (simp add: empty_fold_def)
next
  case (snoc e es)
  then show ?case by (auto simp: index_entry_def Let_def open_target_def jm_get_set split: if_splits)
qed

lemma fold_entries_resolved:
  assumes "foldR (fold_entry validate) (foldl index_entry empty_fold es) xs = Inr f" "distinct (map je_seq xs)"
  shows "\<forall>n k v. resolved_by f n k v \<longleftrightarrow> applied_in f xs n k v"
  using assms
proof (induction xs arbitrary: f rule: rev_induct)
  case Nil
  then show ?case using index_entries_targets by (force simp: resolved_by_def applied_in_def)
next
  case (snoc e xs)
  then obtain g where g: "foldR (fold_entry validate) (foldl index_entry empty_fold es) xs = Inr g"
    "fold_entry validate g e = Inr f"
    by (auto simp: foldR_snoc result_simps)
  have "\<forall>n k v. resolved_by g n k v \<longleftrightarrow> applied_in g xs n k v" using snoc.IH [OF g(1)] snoc.prems(2) by simp
  moreover have "je_seq e \<notin> je_seq ` set xs" using snoc.prems(2) by simp
  ultimately show ?case using fold_entry_resolved [OF g(2)] by blast
qed

text \<open>
  C3. First closing wins: in the fold of a loaded journal a suspension is resolved, by an entry and
  with a value, exactly when that entry is a resolution of it with that value and was classified
  applied; and of all the resolutions of one suspension at most one is applied.
\<close>

theorem first_closing_wins:
  assumes "new_fold validate es = Inr f" "distinct (map je_seq es)"
  shows "(\<forall>n k v. resolved_by f n k v \<longleftrightarrow> applied_in f es n k v) \<and>
    (\<forall>n k v k' v'. applied_in f es n k v \<and> applied_in f es n k' v' \<longrightarrow> k = k' \<and> v = v')"
proof -
  have iff: "\<forall>n k v. resolved_by f n k v \<longleftrightarrow> applied_in f es n k v"
    using fold_entries_resolved assms unfolding new_fold_def by blast
  moreover have "k = k' \<and> v = v'" if "resolved_by f n k v" "resolved_by f n k' v'" for n k v k' v'
    using that by (auto simp: resolved_by_def)
  ultimately show ?thesis by blast
qed

definition suspension_example :: "journal_entry list" where
  "suspension_example =
     [bare_entry 2 0 '''' ''q'' 0 K_external S_suspended ''t'',
      (bare_entry 2 1 '''' ''r'' 0 K_resolution S_ok ''t'')\<lparr>je_ref := Some 0, je_resolution :=
         Some \<lparr> rp_target = 0, rp_by = By_external, rp_value = JBool True, rp_decisionRef = None,
                rp_logicalTaskId = None, rp_countsAgainstLimit = None \<rparr>\<rparr>,
      (bare_entry 2 2 '''' ''r'' 1 K_resolution S_ok ''t'')\<lparr>je_ref := Some 0, je_resolution :=
         Some \<lparr> rp_target = 0, rp_by = By_operator, rp_value = JBool False, rp_decisionRef = None,
                rp_logicalTaskId = None, rp_countsAgainstLimit = None \<rparr>\<rparr>]"

theorem first_closing_wins_witness:
  "\<exists>f. new_fold (\<lambda>_ _. Inr None) suspension_example = Inr f
     \<and> applied_in f suspension_example 0 1 (JBool True) \<and> resolved_by f 0 1 (JBool True)
     \<and> \<not> applied_in f suspension_example 0 2 (JBool False)"
proof -
  let ?v = "\<lambda>_ _. Inr None :: string option result"
  have ok: "\<not> isl (new_fold ?v suspension_example)"
    and st: "map_sum id (\<lambda>f. classificationOf f 1) (new_fold ?v suspension_example) = Inr (Some Applied)"
    by code_simp+
  then obtain f where f: "new_fold ?v suspension_example = Inr f" "classificationOf f 1 = Some Applied"
    by (cases "new_fold ?v suspension_example") auto
  have a: "applied_in f suspension_example 0 1 (JBool True)"
    using f(2) by (simp add: applied_in_def suspension_example_def)
  have "distinct (map je_seq suspension_example)" by (simp add: suspension_example_def)
  from first_closing_wins [OF f(1) this] a f(1) show ?thesis by fastforce
qed


section \<open>The live fold and the reloaded fold\<close>

text \<open>
  A running segment registers the entries it appends one by one; a resume folds the whole
  journal. One appended entry reaches the live fold through the registration call of its form.
\<close>

definition live_step :: "validator \<Rightarrow> resolution_fold \<Rightarrow> journal_entry \<Rightarrow> resolution_fold result" where
  "live_step validate f e =
     (if je_status e = S_suspended then Inr (registerSuspended e f)
      else if is_ref_entry e then
        (case registerRefEntry validate e f of
           (_, Inl err) \<Rightarrow> Inl err
         | (f', Inr _) \<Rightarrow> Inr f')
      else Inr (registerEntry e f))"

definition live_fold :: "validator \<Rightarrow> journal_entry list \<Rightarrow> resolution_fold result" where
  "live_fold validate es = foldR (live_step validate) empty_fold es"

text \<open>
  The one place where they differ: a suspension that appears under an already abandoned scope
  stays open in the live fold until the next covering abandon, while the reload closes it at the
  first abandon that covers it. It is covered in both.
\<close>

definition shadowed :: "target_state \<Rightarrow> target_state \<Rightarrow> bool" where
  "shadowed sl sb \<longleftrightarrow>
     (\<exists>e k. (sl = open_target e \<or> (\<exists>j. sl = close_by_abandon j (open_target e)))
        \<and> sb = close_by_abandon k (open_target e))"

definition target_agree :: "resolution_fold \<Rightarrow> target_state \<Rightarrow> target_state \<Rightarrow> bool" where
  "target_agree f sl sb \<longleftrightarrow> sl = sb \<or> shadowed sl sb \<and> isCoveredEntry f (ts_entry sl)"

fun class_agree :: "classification \<Rightarrow> classification \<Rightarrow> bool" where
  "class_agree (Noop _ r) (Noop _ r') \<longleftrightarrow> r = r'"
| "class_agree c c' \<longleftrightarrow> c = c'"

definition agree :: "resolution_fold \<Rightarrow> resolution_fold \<Rightarrow> bool" where
  "agree l b \<longleftrightarrow>
     rf_bySeq l = rf_bySeq b
     \<and> rf_coveredSeqs l = rf_coveredSeqs b \<and> rf_coveredPrefixes l = rf_coveredPrefixes b
     \<and> list_all2 (\<lambda>(n, sl) (m, sb). n = m \<and> target_agree l sl sb) (rf_targets l) (rf_targets b)
     \<and> list_all2 (\<lambda>(n, c) (m, c'). n = m \<and> class_agree c c') (rf_classifications l) (rf_classifications b)"

lemma shadowed_entry: "shadowed sl sb \<Longrightarrow> ts_entry sb = ts_entry sl"
  by (auto simp: shadowed_def close_by_abandon_def open_target_def)

lemma target_agree_entry: "target_agree f sl sb \<Longrightarrow> ts_entry sb = ts_entry sl"
  using shadowed_entry by (auto simp: target_agree_def)

lemma target_agree_uncovered: "target_agree f sl sb \<Longrightarrow> \<not> isCoveredEntry f (ts_entry sl) \<Longrightarrow> sl = sb"
  by (auto simp: target_agree_def)

lemma class_agree_refl [simp]: "class_agree c c"
  by (cases c) simp_all

lemma list_all2_get:
  "list_all2 (\<lambda>(n, x) (m, y). n = m \<and> P x y) xs ys \<Longrightarrow> rel_option P (jm_get xs k) (jm_get ys k)"
  by (induction xs ys rule: list_all2_induct) auto

lemma list_all2_set:
  "list_all2 (\<lambda>(n, x) (m, y). n = m \<and> P x y) xs ys \<Longrightarrow> P x y \<Longrightarrow>
    list_all2 (\<lambda>(n, x) (m, y). n = m \<and> P x y) (jm_set k x xs) (jm_set k y ys)"
  by (induction xs ys rule: list_all2_induct) auto

lemma agree_refl [simp]: "agree f f"
  by (auto simp: agree_def target_agree_def intro!: list_all2_refl)

text \<open>Every target is the indexed entry of its position.\<close>

definition targets_indexed :: "resolution_fold \<Rightarrow> bool" where
  "targets_indexed f \<longleftrightarrow>
     (\<forall>r t. jm_get (rf_bySeq f) r = Some t \<longrightarrow> je_seq t = r)
     \<and> (\<forall>n st. jm_get (rf_targets f) n = Some st \<longrightarrow> jm_get (rf_bySeq f) n = Some (ts_entry st))"

lemma isCoveredEntry_mono:
  "isCoveredEntry f e \<Longrightarrow> isCoveredEntry (f\<lparr> rf_coveredSeqs := List.insert n (rf_coveredSeqs f),
     rf_coveredPrefixes := rf_coveredPrefixes f @ [p] \<rparr>) e"
  by (auto simp: isCoveredEntry_def)

lemma agree_covered: "agree l b \<Longrightarrow> isCoveredEntry l = isCoveredEntry b"
  unfolding agree_def by (blast intro: isCoveredEntry_cong)

lemma agree_ref_target: "agree l b \<Longrightarrow> ref_target l e = ref_target b e"
  by (cases "je_ref e") (simp_all add: agree_def ref_target_def)

text \<open>Agreeing folds classify alike and stay in agreement.\<close>

definition class_result_agree ::
  "resolution_fold \<times> classification result \<Rightarrow> resolution_fold \<times> classification result \<Rightarrow> bool" where
  "class_result_agree x y \<longleftrightarrow>
     (case (snd x, snd y) of
        (Inl err, Inl err') \<Rightarrow> err = err'
      | (Inr c, Inr c') \<Rightarrow> class_agree c c' \<and> agree (fst x) (fst y)
      | _ \<Rightarrow> False)"

lemma agree_set_target:
  assumes "agree l b" "target_agree l st st"
  shows "agree (l\<lparr> rf_targets := jm_set n st (rf_targets l) \<rparr>) (b\<lparr> rf_targets := jm_set n st (rf_targets b) \<rparr>)"
proof -
  have "isCoveredEntry (l\<lparr> rf_targets := ts \<rparr>) = isCoveredEntry l" for ts
    by (rule isCoveredEntry_cong) simp_all
  then have "target_agree (l\<lparr> rf_targets := ts \<rparr>) = target_agree l" for ts
    by (simp add: target_agree_def fun_eq_iff)
  with assms show ?thesis by (auto simp: agree_def intro: list_all2_set)
qed

lemma applyResolution_agree:
  assumes ag: "agree l b"
  shows "class_result_agree (applyResolution validate l e) (applyResolution validate b e)"
proof (cases "ref_target b e")
  case (Inl err)
  then show ?thesis using agree_ref_target [OF ag] by (simp add: applyResolution_def class_result_agree_def)
next
  case (Inr t)
  let ?r = "the (je_ref e)"
  have get: "rel_option (target_agree l) (jm_get (rf_targets l) ?r) (jm_get (rf_targets b) ?r)"
    using ag by (intro list_all2_get) (simp add: agree_def)
  have cov: "isCoveredEntry l = isCoveredEntry b" by (rule agree_covered [OF ag])
  have rt: "ref_target l e = Inr t" using Inr agree_ref_target [OF ag] by simp
  from get show ?thesis
  proof (cases rule: option.rel_cases)
    case None
    then show ?thesis using ag by (simp add: applyResolution_def class_result_agree_def rt Inr)
  next
    case (Some sl sb)
    show ?thesis
    proof (cases "isCoveredEntry b (ts_entry sl)")
      case True
      then show ?thesis
        using Some ag target_agree_entry [OF Some(3)]
        by (simp add: applyResolution_def class_result_agree_def rt Inr cov)
    next
      case False
      then have eq: "sb = sl" using target_agree_uncovered [OF Some(3)] cov by simp
      have set: "agree (l\<lparr> rf_targets := jm_set n st (rf_targets l) \<rparr>) (b\<lparr> rf_targets := jm_set n st (rf_targets b) \<rparr>)" for n st
        using ag by (rule agree_set_target) (simp add: target_agree_def)
      show ?thesis
        using Some False ag set unfolding applyResolution_def class_result_agree_def rt Inr cov eq
        by (simp add: Let_def split: option.split sum.split)
    qed
  qed
qed

lemma shadowed_close:
  "shadowed sl sb \<Longrightarrow> ts_closedBy sb \<noteq> None \<and> (ts_closedBy sl = None \<longrightarrow> shadowed (close_by_abandon k sl) sb)"
  by (auto simp: shadowed_def close_by_abandon_def open_target_def)

lemma list_all2_map_values:
  assumes "list_all2 (\<lambda>(n, x) (m, y). n = m \<and> P x y) xs ys" "\<And>x y. P x y \<Longrightarrow> Q (g x) (h y)"
  shows "list_all2 (\<lambda>(n, x) (m, y). n = m \<and> Q x y) (map (\<lambda>(n, x). (n, g x)) xs) (map (\<lambda>(n, x). (n, h x)) ys)"
  using assms(1) by (induction rule: list_all2_induct) (auto intro: assms(2))

lemma close_covered_agree:
  assumes ag: "agree l b"
  shows "agree (close_covered l sq) (close_covered b sq)"
proof -
  have cov: "isCoveredEntry l = isCoveredEntry b" by (rule agree_covered [OF ag])
  have cc: "isCoveredEntry (close_covered l sq) = isCoveredEntry l" by (rule isCoveredEntry_cong) simp_all
  have step: "target_agree (close_covered l sq)
      (if ts_closedBy x = None \<and> isCoveredEntry l (ts_entry x) then close_by_abandon sq x else x)
      (if ts_closedBy y = None \<and> isCoveredEntry b (ts_entry y) then close_by_abandon sq y else y)"
    if "target_agree l x y" for x y
    using that shadowed_close [of x y sq] cc cov
    by (auto simp: target_agree_def close_by_abandon_def)
  have "list_all2 (\<lambda>(n, x) (m, y). n = m \<and> target_agree (close_covered l sq) x y)
      (rf_targets (close_covered l sq)) (rf_targets (close_covered b sq))"
    unfolding close_covered_def [of l] close_covered_def [of b]
    using ag by (auto simp: agree_def intro!: list_all2_map_values step [unfolded close_covered_def [of l]])
  then show ?thesis using ag by (simp add: agree_def)
qed


lemma agree_cover:
  assumes "agree l b"
  shows "agree (l\<lparr> rf_coveredSeqs := List.insert n (rf_coveredSeqs l), rf_coveredPrefixes := rf_coveredPrefixes l @ [p] \<rparr>)
    (b\<lparr> rf_coveredSeqs := List.insert n (rf_coveredSeqs b), rf_coveredPrefixes := rf_coveredPrefixes b @ [p] \<rparr>)"
proof -
  let ?l = "l\<lparr> rf_coveredSeqs := List.insert n (rf_coveredSeqs l), rf_coveredPrefixes := rf_coveredPrefixes l @ [p] \<rparr>"
  have "target_agree l x y \<Longrightarrow> target_agree ?l x y" for x y
    using isCoveredEntry_mono by (auto simp: target_agree_def)
  then have "list_all2 (\<lambda>(n, x) (m, y). n = m \<and> target_agree ?l x y) (rf_targets l) (rf_targets b)"
    using assms by (auto simp: agree_def elim!: list_all2_mono)
  then show ?thesis using assms by (simp add: agree_def)
qed

lemma applyAbandon_agree:
  assumes ag: "agree l b" and ix: "targets_indexed l"
  shows "class_result_agree (applyAbandon l e) (applyAbandon b e)"
proof (cases "ref_target b e")
  case (Inl err)
  then show ?thesis using agree_ref_target [OF ag] by (simp add: applyAbandon_def class_result_agree_def)
next
  case (Inr t)
  have rt: "ref_target l e = Inr t" using Inr agree_ref_target [OF ag] by simp
  have cov: "isCoveredEntry l = isCoveredEntry b" by (rule agree_covered [OF ag])
  have get: "rel_option (target_agree l) (jm_get (rf_targets l) (je_seq t)) (jm_get (rf_targets b) (je_seq t))"
    using ag by (intro list_all2_get) (simp add: agree_def)
  have ent: "ts_entry st = t" if "jm_get (rf_targets l) (je_seq t) = Some st" for st
  proof -
    obtain r where r: "jm_get (rf_bySeq l) r = Some t" using rt by (auto simp: ref_target_Inr)
    then have "je_seq t = r" using ix by (simp add: targets_indexed_def)
    moreover have "jm_get (rf_bySeq l) (je_seq t) = Some (ts_entry st)" using ix that by (simp add: targets_indexed_def)
    ultimately show ?thesis using r by simp
  qed
  show ?thesis
  proof (cases "isCoveredEntry b t")
    case True
    then show ?thesis using ag by (simp add: applyAbandon_def class_result_agree_def rt Inr cov)
  next
    case False
    have "jm_get (rf_targets l) (je_seq t) = jm_get (rf_targets b) (je_seq t)"
      using get
    proof (cases rule: option.rel_cases)
      case (Some sl sb)
      have "\<not> isCoveredEntry l (ts_entry sl)" using ent [OF Some(1)] False by (simp only: cov not_False_eq_True)
      with target_agree_uncovered [OF Some(3)] have "sl = sb" by blast
      with Some(1,2) show ?thesis by (simp only:)
    qed simp
    then show ?thesis
      using ag False close_covered_agree [OF agree_cover [OF ag]]
      unfolding applyAbandon_def class_result_agree_def rt Inr cov
      by (simp add: Let_def split: option.split sum.split)
  qed
qed

lemma apply_ref_agree:
  "agree l b \<Longrightarrow> targets_indexed l \<Longrightarrow> class_result_agree (apply_ref validate l e) (apply_ref validate b e)"
  by (simp add: apply_ref_def applyResolution_agree applyAbandon_agree)

lemma targets_indexed_resolution:
  "applyResolution validate f e = (f', Inr c) \<Longrightarrow> targets_indexed f \<Longrightarrow> targets_indexed f'"
  by (erule applyResolution_cases) (auto simp: targets_indexed_def jm_get_set close_by_resolution_def)

lemma targets_indexed_abandon:
  assumes "applyAbandon f e = (f', Inr c)" "targets_indexed f"
  shows "targets_indexed f'"
  using assms(1)
proof (cases rule: applyAbandon_cases)
  case (covering r t p)
  have "jm_get (rf_targets f) n = Some st \<Longrightarrow> jm_get (rf_bySeq f) n = Some (ts_entry st)" for n st
    using assms(2) by (simp add: targets_indexed_def)
  with covering(8) assms(2) show ?thesis
    by (auto simp: targets_indexed_def close_covered_get close_by_abandon_def)
qed (use assms(2) in simp)

lemma targets_indexed_set [simp]: "targets_indexed (set_classification n c f) = targets_indexed f"
  by (simp add: targets_indexed_def)

lemma targets_indexed_apply_ref:
  "apply_ref validate f e = (f', Inr c) \<Longrightarrow> targets_indexed f \<Longrightarrow> targets_indexed f'"
  using targets_indexed_resolution targets_indexed_abandon by (auto simp: apply_ref_def split: if_splits)

lemma agree_set_classification:
  "agree l b \<Longrightarrow> class_agree c c' \<Longrightarrow> agree (set_classification n c l) (set_classification n c' b)"
proof -
  assume ag: "agree l b" "class_agree c c'"
  have "isCoveredEntry (set_classification n c l) = isCoveredEntry l" by (rule isCoveredEntry_cong) simp_all
  then have "target_agree (set_classification n c l) = target_agree l" by (simp add: target_agree_def fun_eq_iff)
  with ag show ?thesis by (auto simp: agree_def intro: list_all2_set)
qed

section \<open>Appending one entry to a folded journal\<close>

text \<open>
  The fold of a journal with one more entry at the end runs like the fold without it, with the
  entry in the index and, when it is a suspension, one more target that is closed exactly when an
  abandon covers it.
\<close>

definition extra_targets :: "resolution_fold \<Rightarrow> journal_entry \<Rightarrow> (nat, target_state) jsmap \<Rightarrow> bool" where
  "extra_targets f e ts \<longleftrightarrow>
     (if je_status e = S_suspended then
        (if isCoveredEntry f e then \<exists>k. ts = [(je_seq e, close_by_abandon k (open_target e))]
         else ts = [(je_seq e, open_target e)])
      else ts = [])"

definition widened :: "journal_entry \<Rightarrow> resolution_fold \<Rightarrow> resolution_fold \<Rightarrow> bool" where
  "widened e f g \<longleftrightarrow>
     (\<exists>ts. g = f\<lparr> rf_bySeq := rf_bySeq f @ [(je_seq e, e)], rf_targets := rf_targets f @ ts \<rparr>
        \<and> extra_targets f e ts)
     \<and> targets_indexed f \<and> je_seq e \<notin> set (jm_keys (rf_bySeq f))"

lemma jm_get_append: "jm_get (m @ m') k = (case jm_get m k of Some v \<Rightarrow> Some v | None \<Rightarrow> jm_get m' k)"
  by (induction m) auto

lemma jm_set_append: "k \<in> set (jm_keys m) \<Longrightarrow> jm_set k v (m @ m') = jm_set k v m @ m'"
proof (induction m)
  case (Cons p m)
  then show ?case by (cases p) auto
qed simp

lemma widened_get:
  assumes "widened e f g" "r \<noteq> je_seq e"
  shows "jm_get (rf_bySeq g) r = jm_get (rf_bySeq f) r" "jm_get (rf_targets g) r = jm_get (rf_targets f) r"
  using assms by (auto simp: widened_def extra_targets_def jm_get_append split: option.splits if_splits)

lemma widened_covered: "widened e f g \<Longrightarrow> isCoveredEntry g = isCoveredEntry f"
  by (rule isCoveredEntry_cong) (auto simp: widened_def)

lemma widened_ref_target:
  assumes "widened e f g" "je_seq x \<le> je_seq e"
  shows "ref_target g x = ref_target f x"
  using widened_get(1) [OF assms(1)] assms(2)
  by (cases "je_ref x") (simp_all add: ref_target_def)

definition widened_result ::
  "journal_entry \<Rightarrow> resolution_fold \<times> classification result \<Rightarrow> resolution_fold \<times> classification result \<Rightarrow> bool" where
  "widened_result e x y \<longleftrightarrow>
     (case (snd x, snd y) of
        (Inl err, Inl err') \<Rightarrow> err = err'
      | (Inr c, Inr c') \<Rightarrow> c = c' \<and> widened e (fst x) (fst y)
      | _ \<Rightarrow> False)"

lemma widened_targets:
  assumes "widened e f g" "jm_get (rf_targets f) r = Some st" "targets_indexed (f\<lparr> rf_targets := jm_set r st' (rf_targets f) \<rparr>)"
  shows "widened e (f\<lparr> rf_targets := jm_set r st' (rf_targets f) \<rparr>) (g\<lparr> rf_targets := jm_set r st' (rf_targets g) \<rparr>)"
proof -
  have "r \<in> set (jm_keys (rf_targets f))" using assms(2) by (metis jm_get_None_keys option.discI)
  moreover have "isCoveredEntry (f\<lparr> rf_targets := u \<rparr>) = isCoveredEntry f" for u
    by (rule isCoveredEntry_cong) simp_all
  then have "extra_targets (f\<lparr> rf_targets := u \<rparr>) = extra_targets f" for u
    by (simp add: extra_targets_def fun_eq_iff)
  moreover from assms(1) obtain ts where
    "g = f\<lparr> rf_bySeq := rf_bySeq f @ [(je_seq e, e)], rf_targets := rf_targets f @ ts \<rparr>" "extra_targets f e ts"
    by (auto simp: widened_def)
  ultimately show ?thesis
    using assms(1,3) unfolding widened_def by (intro conjI exI [of _ ts]) (simp_all add: jm_set_append)
qed


lemma applyResolution_widened:
  assumes w: "widened e f g" and lt: "je_seq x \<le> je_seq e"
  shows "widened_result e (applyResolution validate f x) (applyResolution validate g x)"
proof (cases "ref_target f x")
  case (Inl err)
  then show ?thesis using widened_ref_target [OF w lt] by (simp add: applyResolution_def widened_result_def)
next
  case (Inr t)
  then obtain r where r: "je_ref x = Some r" "r < je_seq x" by (auto simp: ref_target_Inr)
  then have get: "jm_get (rf_targets g) r = jm_get (rf_targets f) r" using widened_get(2) [OF w] lt by simp
  have rt: "ref_target g x = Inr t" using Inr widened_ref_target [OF w lt] by simp
  have cov: "isCoveredEntry g = isCoveredEntry f" by (rule widened_covered [OF w])
  show ?thesis
  proof (cases "jm_get (rf_targets f) r")
    case None
    then show ?thesis using w r get by (simp add: applyResolution_def widened_result_def Inr rt)
  next
    case (Some st)
    have "targets_indexed f" using w by (simp add: widened_def)
    then have "targets_indexed (f\<lparr> rf_targets := jm_set r (close_by_resolution sq v st) (rf_targets f) \<rparr>)" for sq v
      using Some by (auto simp: targets_indexed_def jm_get_set close_by_resolution_def)
    then have close: "widened e (f\<lparr> rf_targets := jm_set r (close_by_resolution sq v st) (rf_targets f) \<rparr>)
        (g\<lparr> rf_targets := jm_set r (close_by_resolution sq v st) (rf_targets g) \<rparr>)" for sq v
      using w Some by (rule widened_targets [rotated 2])
    show ?thesis
      using w close Some unfolding applyResolution_def widened_result_def Inr rt cov
      by (simp add: r(1) get Let_def split: option.split sum.split)
  qed
qed

lemma widened_close:
  assumes w: "widened e f g" and ti: "targets_indexed (close_covered (f\<lparr> rf_coveredSeqs := cs, rf_coveredPrefixes := ps \<rparr>) sq)"
    and mono: "isCoveredEntry f e \<longrightarrow> isCoveredEntry (f\<lparr> rf_coveredSeqs := cs, rf_coveredPrefixes := ps \<rparr>) e"
  shows "widened e (close_covered (f\<lparr> rf_coveredSeqs := cs, rf_coveredPrefixes := ps \<rparr>) sq)
    (close_covered (g\<lparr> rf_coveredSeqs := cs, rf_coveredPrefixes := ps \<rparr>) sq)"
proof -
  let ?f = "f\<lparr> rf_coveredSeqs := cs, rf_coveredPrefixes := ps \<rparr>"
  let ?g = "g\<lparr> rf_coveredSeqs := cs, rf_coveredPrefixes := ps \<rparr>"
  obtain ts where g: "g = f\<lparr> rf_bySeq := rf_bySeq f @ [(je_seq e, e)], rf_targets := rf_targets f @ ts \<rparr>"
    and ts: "extra_targets f e ts" using w by (auto simp: widened_def)
  have cov: "isCoveredEntry ?g = isCoveredEntry ?f" by (rule isCoveredEntry_cong) simp_all
  have covc: "isCoveredEntry (close_covered ?f sq) = isCoveredEntry ?f" by (rule isCoveredEntry_cong) simp_all
  let ?c = "\<lambda>(n, st). (n, if ts_closedBy st = None \<and> isCoveredEntry ?f (ts_entry st) then close_by_abandon sq st else st)"
  have "extra_targets (close_covered ?f sq) e (map ?c ts)"
    using ts mono unfolding extra_targets_def covc
    by (auto simp: open_target_def close_by_abandon_def split: if_splits)
  moreover have "close_covered ?g sq = (close_covered ?f sq)\<lparr> rf_bySeq := rf_bySeq (close_covered ?f sq) @ [(je_seq e, e)],
      rf_targets := rf_targets (close_covered ?f sq) @ map ?c ts \<rparr>"
    unfolding close_covered_def cov by (simp add: g)
  ultimately show ?thesis using w ti unfolding widened_def by auto
qed

lemma applyAbandon_widened:
  assumes w: "widened e f g" and lt: "je_seq x \<le> je_seq e"
  shows "widened_result e (applyAbandon f x) (applyAbandon g x)"
proof (cases "ref_target f x")
  case (Inl err)
  then show ?thesis using widened_ref_target [OF w lt] by (simp add: applyAbandon_def widened_result_def)
next
  case (Inr t)
  have ti: "targets_indexed f" using w by (simp add: widened_def)
  obtain r where r: "r < je_seq x" "jm_get (rf_bySeq f) r = Some t" using Inr by (auto simp: ref_target_Inr)
  then have "je_seq t = r" using ti by (simp add: targets_indexed_def)
  then have get: "jm_get (rf_targets g) (je_seq t) = jm_get (rf_targets f) (je_seq t)"
    using widened_get(2) [OF w] r(1) lt by simp
  have rt: "ref_target g x = Inr t" using Inr widened_ref_target [OF w lt] by simp
  have cov: "isCoveredEntry g = isCoveredEntry f" by (rule widened_covered [OF w])
  have same: "rf_coveredSeqs g = rf_coveredSeqs f" "rf_coveredPrefixes g = rf_coveredPrefixes f"
    using w by (auto simp: widened_def)
  show ?thesis
  proof (cases "applyAbandon f x")
    case (Pair f' res)
    show ?thesis
    proof (cases res)
      case (Inl err)
      then show ?thesis using Pair w
        unfolding applyAbandon_def widened_result_def Inr rt cov same
        by (auto simp: Let_def get split: option.splits sum.splits if_splits)
    next
      case (Inr c)
      with Pair have ap: "applyAbandon f x = (f', Inr c)" by simp
      have "targets_indexed f'" using targets_indexed_abandon [OF ap ti] .
      from ap show ?thesis
      proof (cases rule: applyAbandon_cases)
        case kept
        then show ?thesis using ap w \<open>ref_target f x = Inr t\<close> rt cov get
          by (auto simp: applyAbandon_def widened_result_def Let_def split: option.splits sum.splits if_splits)
      next
        case (covering r' t' p)
        then have t': "t' = t" using \<open>ref_target f x = Inr t\<close> by (auto simp: ref_target_Inr)
        let ?cs = "List.insert (je_seq t) (rf_coveredSeqs f)"
        let ?ps = "rf_coveredPrefixes f @ [p]"
        have "applyAbandon g x = (close_covered (g\<lparr> rf_coveredSeqs := ?cs, rf_coveredPrefixes := ?ps \<rparr>) (je_seq x), Inr Applied)"
          using covering by (simp add: applyAbandon_def rt cov t' get same Let_def)
        moreover have "widened e f' (close_covered (g\<lparr> rf_coveredSeqs := ?cs, rf_coveredPrefixes := ?ps \<rparr>) (je_seq x))"
          unfolding covering(8) t'
          using w \<open>targets_indexed f'\<close> isCoveredEntry_mono covering(8) t' by (intro widened_close) auto
        ultimately show ?thesis using ap covering(1) by (simp add: widened_result_def)
      qed
    qed
  qed
qed

lemma widened_set_classification:
  assumes "widened e f g"
  shows "widened e (set_classification n c f) (set_classification n c g)"
proof -
  have "isCoveredEntry (set_classification n c f) = isCoveredEntry f" by (rule isCoveredEntry_cong) simp_all
  then have "extra_targets (set_classification n c f) = extra_targets f" by (simp add: extra_targets_def fun_eq_iff)
  moreover have "set_classification n c (f\<lparr> rf_bySeq := u, rf_targets := t \<rparr>) = (set_classification n c f)\<lparr> rf_bySeq := u, rf_targets := t \<rparr>" for u t
    by (simp add: set_classification_def)
  ultimately show ?thesis using assms by (auto simp: widened_def)
qed

lemma fold_entry_widened:
  assumes w: "widened e f g" and lt: "je_seq x \<le> je_seq e"
  shows "rel_sum (=) (widened e) (fold_entry validate f x) (fold_entry validate g x)"
proof (cases "je_kind x = K_resolution \<or> je_kind x = K_abandon")
  case False
  then show ?thesis using w by (simp add: fold_entry_def)
next
  case True
  have "widened_result e (apply_ref validate f x) (apply_ref validate g x)"
    using applyResolution_widened [OF w lt] applyAbandon_widened [OF w lt] by (simp add: apply_ref_def)
  with True show ?thesis
    by (auto simp: fold_entry_def widened_result_def widened_set_classification split: prod.splits sum.splits)
qed


lemma index_entry_sel [simp]:
  "rf_bySeq (index_entry f e) = jm_set (je_seq e) e (rf_bySeq f)"
  "rf_coveredSeqs (index_entry f e) = rf_coveredSeqs f" "rf_coveredPrefixes (index_entry f e) = rf_coveredPrefixes f"
  by (simp_all add: index_entry_def Let_def)

lemma targets_indexed_index:
  "targets_indexed f \<Longrightarrow> jm_get (rf_targets f) (je_seq e) = None \<Longrightarrow> targets_indexed (index_entry f e)"
  by (auto simp: targets_indexed_def index_entry_def Let_def jm_get_set open_target_def)

lemma index_entries:
  "distinct (map je_seq es) \<Longrightarrow>
    rf_bySeq (foldl index_entry empty_fold es) = map (\<lambda>e. (je_seq e, e)) es
    \<and> targets_indexed (foldl index_entry empty_fold es)
    \<and> rf_coveredSeqs (foldl index_entry empty_fold es) = [] \<and> rf_coveredPrefixes (foldl index_entry empty_fold es) = []"
proof (induction es rule: rev_induct)
  case Nil
  then show ?case by (simp add: empty_fold_def targets_indexed_def)
next
  case (snoc e es)
  let ?f = "foldl index_entry empty_fold es"
  have f: "rf_bySeq ?f = map (\<lambda>e. (je_seq e, e)) es" "targets_indexed ?f" "rf_coveredSeqs ?f = []" "rf_coveredPrefixes ?f = []"
    using snoc by simp_all
  have keys: "je_seq e \<notin> set (jm_keys (rf_bySeq ?f))" using snoc.prems f(1) by (auto simp: comp_def)
  have none: "jm_get (rf_targets ?f) (je_seq e) = None"
    using f(2) keys unfolding targets_indexed_def jm_get_None_keys [symmetric] by (metis not_None_eq)
  have "rf_bySeq (index_entry ?f e) = map (\<lambda>e. (je_seq e, e)) (es @ [e])"
    using f(1) keys by (simp add: jm_set_append_new)
  moreover have "targets_indexed (index_entry ?f e)" using f(2) none by (rule targets_indexed_index)
  ultimately show ?case using f(3,4) by simp
qed

lemma index_entry_widened:
  assumes "targets_indexed f" "je_seq e \<notin> set (jm_keys (rf_bySeq f))" "\<not> isCoveredEntry f e"
  shows "widened e f (index_entry f e)"
proof -
  have "jm_get (rf_targets f) (je_seq e) = None"
    using assms(1,2) unfolding targets_indexed_def jm_get_None_keys [symmetric] by (metis not_None_eq)
  then have "je_seq e \<notin> set (jm_keys (rf_targets f))" by (simp add: jm_get_None_keys)
  then have "index_entry f e = f\<lparr> rf_bySeq := rf_bySeq f @ [(je_seq e, e)],
      rf_targets := rf_targets f @ (if je_status e = S_suspended then [(je_seq e, open_target e)] else []) \<rparr>"
    using assms(2) by (simp add: index_entry_def Let_def jm_set_append_new)
  then show ?thesis using assms unfolding widened_def extra_targets_def by auto
qed

lemma new_fold_snoc:
  assumes "seqs_increasing (es @ [e])"
  shows "rel_sum (=) (\<lambda>b g. widened e b g) (new_fold validate es)
      (foldR (fold_entry validate) (foldl index_entry empty_fold (es @ [e])) es)"
    and "new_fold validate (es @ [e]) =
      bindR (foldR (fold_entry validate) (foldl index_entry empty_fold (es @ [e])) es) (\<lambda>g. fold_entry validate g e)"
proof -
  let ?f = "foldl index_entry empty_fold es"
  have inc: "\<forall>x\<in>set es. je_seq x < je_seq e" "distinct (map je_seq es)"
    using assms seqs_increasing_distinct by (auto simp: seqs_increasing_snoc)
  note ix = index_entries [OF inc(2)]
  have "widened e ?f (index_entry ?f e)"
    using ix inc(1) by (intro index_entry_widened) (auto simp: isCoveredEntry_def)
  then show "rel_sum (=) (\<lambda>b g. widened e b g) (new_fold validate es)
      (foldR (fold_entry validate) (foldl index_entry empty_fold (es @ [e])) es)"
    using inc(1) unfolding new_fold_def
    by (simp, intro foldR_simulation fold_entry_widened) auto
  show "new_fold validate (es @ [e]) =
      bindR (foldR (fold_entry validate) (foldl index_entry empty_fold (es @ [e])) es) (\<lambda>g. fold_entry validate g e)"
    by (simp add: new_fold_def foldR_snoc)
qed

text \<open>Registering the appended entry brings the live fold into agreement with the widened one.\<close>

lemma agree_register:
  assumes ag: "agree l b" and w: "widened e b g"
  shows "agree (if je_status e = S_suspended then registerSuspended e l else registerEntry e l) g"
proof -
  have keys: "je_seq e \<notin> set (jm_keys (rf_bySeq b))" "targets_indexed b" using w by (simp_all add: widened_def)
  have bs: "rf_bySeq l = rf_bySeq b" using ag by (simp add: agree_def)
  obtain ts where g: "g = b\<lparr> rf_bySeq := rf_bySeq b @ [(je_seq e, e)], rf_targets := rf_targets b @ ts \<rparr>"
    and ts: "extra_targets b e ts" using w by (auto simp: widened_def)
  have lset: "jm_set (je_seq e) e (rf_bySeq b) = rf_bySeq b @ [(je_seq e, e)]"
    using keys(1) by (rule jm_set_append_new)
  have cov: "isCoveredEntry l = isCoveredEntry b" by (rule agree_covered [OF ag])
  have inv: "isCoveredEntry (l\<lparr> rf_bySeq := u, rf_targets := t \<rparr>) = isCoveredEntry l"
    "isCoveredEntry (l\<lparr> rf_bySeq := u \<rparr>) = isCoveredEntry l" for u t
    by (rule isCoveredEntry_cong; simp)+
  then have ta: "target_agree (l\<lparr> rf_bySeq := u, rf_targets := t \<rparr>) = target_agree l"
    "target_agree (l\<lparr> rf_bySeq := u \<rparr>) = target_agree l" for u t
    by (simp_all add: target_agree_def fun_eq_iff)
  show ?thesis
  proof (cases "je_status e = S_suspended")
    case False
    then have "ts = []" using ts by (simp add: extra_targets_def)
    with False ag g show ?thesis by (simp add: registerEntry_def agree_def bs lset ta)
  next
    case True
    have "jm_get (rf_targets b) (je_seq e) = None"
      using keys unfolding targets_indexed_def jm_get_None_keys [symmetric] by (metis not_None_eq)
    moreover have "rel_option (target_agree l) (jm_get (rf_targets l) (je_seq e)) (jm_get (rf_targets b) (je_seq e))"
      using ag by (intro list_all2_get) (simp add: agree_def)
    ultimately have "jm_get (rf_targets l) (je_seq e) = None" by simp
    then have "je_seq e \<notin> set (jm_keys (rf_targets l))" by (simp only: jm_get_None_keys not_False_eq_True)
    then have lt: "jm_set (je_seq e) (open_target e) (rf_targets l) = rf_targets l @ [(je_seq e, open_target e)]"
      by (rule jm_set_append_new)
    have "list_all2 (\<lambda>(n, sl) (m, sb). n = m \<and> target_agree l sl sb) [(je_seq e, open_target e)] ts"
      using ts True cov by (auto simp: extra_targets_def target_agree_def shadowed_def open_target_def split: if_splits)
    then have "list_all2 (\<lambda>(n, sl) (m, sb). n = m \<and> target_agree l sl sb)
        (rf_targets l @ [(je_seq e, open_target e)]) (rf_targets b @ ts)"
      using ag by (intro list_all2_appendI) (simp_all add: agree_def)
    with True ag g show ?thesis
      by (simp add: registerSuspended_def agree_def bs lset lt ta)
  qed
qed

lemma agree_indexed: "agree l b \<Longrightarrow> targets_indexed b \<Longrightarrow> targets_indexed l"
proof -
  assume ag: "agree l b" and ti: "targets_indexed b"
  have "jm_get (rf_bySeq l) n = Some (ts_entry st)" if st: "jm_get (rf_targets l) n = Some st" for n st
  proof -
    have "rel_option (target_agree l) (jm_get (rf_targets l) n) (jm_get (rf_targets b) n)"
      using ag by (intro list_all2_get) (simp add: agree_def)
    then obtain sb where "jm_get (rf_targets b) n = Some sb" "target_agree l st sb"
      using st by (cases "jm_get (rf_targets b) n") auto
    then show ?thesis using ti target_agree_entry ag by (auto simp: targets_indexed_def agree_def)
  qed
  then show ?thesis using ag ti by (simp add: targets_indexed_def agree_def)
qed

lemma widened_indexed:
  assumes "widened e b g"
  shows "targets_indexed g"
proof -
  obtain ts where g: "g = b\<lparr> rf_bySeq := rf_bySeq b @ [(je_seq e, e)], rf_targets := rf_targets b @ ts \<rparr>"
    and ts: "extra_targets b e ts" and b: "targets_indexed b" "je_seq e \<notin> set (jm_keys (rf_bySeq b))"
    using assms by (auto simp: widened_def)
  have e: "jm_get (rf_bySeq b) (je_seq e) = None" using b(2) by (simp add: jm_get_None_keys)
  have "jm_get (rf_bySeq g) n = Some (ts_entry st)" if st: "jm_get (rf_targets g) n = Some st" for n st
  proof (cases "jm_get (rf_targets b) n")
    case None
    then have "jm_get ts n = Some st" using st g by (simp add: jm_get_append)
    then have "n = je_seq e" "ts_entry st = e"
      using ts by (auto simp: extra_targets_def open_target_def close_by_abandon_def split: if_splits)
    then show ?thesis using e g by (simp add: jm_get_append)
  next
    case (Some sb)
    then have "jm_get (rf_bySeq b) n = Some (ts_entry st)"
      using st g b(1) by (simp add: jm_get_append targets_indexed_def)
    then show ?thesis using g by (simp add: jm_get_append)
  qed
  moreover have "je_seq t = n" if "jm_get (rf_bySeq g) n = Some t" for n t
    using that b(1) g by (auto simp: jm_get_append targets_indexed_def split: option.splits if_splits)
  ultimately show ?thesis by (simp add: targets_indexed_def)
qed


lemma agree_live_step:
  assumes ag: "agree l b" and w: "widened e b g" and ns: "je_status e = S_suspended \<longrightarrow> \<not> is_ref_entry e"
  shows "rel_sum (=) agree (live_step validate l e) (fold_entry validate g e)"
proof (cases "is_ref_entry e")
  case False
  then have "fold_entry validate g e = Inr g" by (simp add: fold_entry_def is_ref_entry_iff)
  then show ?thesis using False agree_register [OF ag w] by (simp add: live_step_def split: if_splits)
next
  case True
  let ?l = "registerEntry e l"
  have st: "je_status e \<noteq> S_suspended" using True ns by blast
  have ag': "agree ?l g" using agree_register [OF ag w] st by simp
  then have "targets_indexed ?l" using widened_indexed [OF w] by (rule agree_indexed)
  then have cra: "class_result_agree (apply_ref validate ?l e) (apply_ref validate g e)"
    using apply_ref_agree [OF ag'] by blast
  have "live_step validate l e = (case apply_ref validate ?l e of (f', Inl err) \<Rightarrow> Inl err
      | (f', Inr c) \<Rightarrow> Inr (set_classification (je_seq e) c f'))"
    using True st by (auto simp: live_step_def registerRefEntry_def registerEntry_def split: prod.splits sum.splits)
  moreover have "fold_entry validate g e = (case apply_ref validate g e of (f', Inl err) \<Rightarrow> Inl err
      | (f', Inr c) \<Rightarrow> Inr (set_classification (je_seq e) c f'))"
    using True by (simp add: fold_entry_def is_ref_entry_iff)
  ultimately show ?thesis
    using cra by (auto simp: class_result_agree_def agree_set_classification split: prod.splits sum.splits)
qed

lemma live_reload_agree:
  assumes "seqs_increasing es" "\<forall>e\<in>set es. je_status e = S_suspended \<longrightarrow> \<not> is_ref_entry e"
  shows "rel_sum (=) agree (live_fold validate es) (new_fold validate es)"
  using assms
proof (induction es rule: rev_induct)
  case Nil
  then show ?case by (simp add: live_fold_def new_fold_def)
next
  case (snoc e es)
  have IH: "rel_sum (=) agree (live_fold validate es) (new_fold validate es)"
    using snoc by (simp add: seqs_increasing_snoc)
  let ?g = "foldR (fold_entry validate) (foldl index_entry empty_fold (es @ [e])) es"
  note w = new_fold_snoc [OF snoc.prems(1), of validate]
  have live: "live_fold validate (es @ [e]) = bindR (live_fold validate es) (\<lambda>l. live_step validate l e)"
    by (simp add: live_fold_def foldR_snoc)
  show ?case
  proof (cases "new_fold validate es")
    case (Inl err)
    with IH w(1) have "live_fold validate es = Inl err" "?g = Inl err" by (auto simp: rel_sum.simps)
    then show ?thesis unfolding live w(2) by simp
  next
    case (Inr b)
    with IH w(1) obtain l g where "live_fold validate es = Inr l" "agree l b" "?g = Inr g" "widened e b g"
      by (auto simp: rel_sum.simps)
    moreover have "je_status e = S_suspended \<longrightarrow> \<not> is_ref_entry e" using snoc.prems(2) by simp
    ultimately show ?thesis unfolding live w(2) using agree_live_step by simp
  qed
qed

section \<open>What agreement preserves\<close>

lemma agree_openSuspensions:
  assumes "agree l b"
  shows "openSuspensions l = openSuspensions b"
proof -
  have cov: "isCoveredEntry l = isCoveredEntry b" by (rule agree_covered [OF assms])
  have "map ts_entry (filter (\<lambda>st. ts_closedBy st = None \<and> \<not> isCoveredEntry b (ts_entry st)) (jm_values xs))
      = map ts_entry (filter (\<lambda>st. ts_closedBy st = None \<and> \<not> isCoveredEntry b (ts_entry st)) (jm_values ys))"
    if "list_all2 (\<lambda>(n, sl) (m, sb). n = m \<and> target_agree l sl sb) xs ys" for xs ys
    using that
  proof (induction rule: list_all2_induct)
    case (Cons p ps q qs)
    then show ?case
      using target_agree_entry [of l "snd p" "snd q"] target_agree_uncovered [of l "snd p" "snd q"] cov
      by (cases p; cases q) auto
  qed simp
  then show ?thesis using assms unfolding openSuspensions_def cov agree_def by blast
qed

lemma agree_isAbandoned: "agree l b \<Longrightarrow> fold_isAbandoned l = fold_isAbandoned b"
  using agree_covered [of l b] by (simp add: fold_isAbandoned_def agree_def fun_eq_iff split: option.split)

lemma agree_resolved: "agree l b \<Longrightarrow> resolved_by l n k v \<longleftrightarrow> resolved_by b n k v"
proof -
  assume ag: "agree l b"
  have "rel_option (target_agree l) (jm_get (rf_targets l) n) (jm_get (rf_targets b) n)"
    using ag by (intro list_all2_get) (simp add: agree_def)
  then show ?thesis
  proof (cases rule: option.rel_cases)
    case (Some sl sb)
    then show ?thesis
      by (auto simp: resolved_by_def target_agree_def shadowed_def close_by_abandon_def open_target_def)
  qed (simp add: resolved_by_def)
qed

lemma agree_classification: "agree l b \<Longrightarrow> rel_option class_agree (classificationOf l n) (classificationOf b n)"
  unfolding classificationOf_def agree_def by (intro list_all2_get) simp

text \<open>
  C31. The fold of the running segment and the fold of a reload promise the same: over any journal
  with increasing positions they throw the same error or agree on which suspensions are open, which
  entries are abandoned, which suspensions are resolved by what, and how every ref-entry is
  classified (a noop up to the entry it names as its superseder).
\<close>

theorem live_fold_matches_reload:
  assumes "seqs_increasing es" "\<forall>e\<in>set es. je_status e = S_suspended \<longrightarrow> \<not> is_ref_entry e"
  shows "case (live_fold validate es, new_fold validate es) of
      (Inl err, Inl err') \<Rightarrow> err = err'
    | (Inr l, Inr b) \<Rightarrow>
        openSuspensions l = openSuspensions b \<and> fold_isAbandoned l = fold_isAbandoned b
        \<and> (\<forall>n k v. resolved_by l n k v \<longleftrightarrow> resolved_by b n k v)
        \<and> (\<forall>n. rel_option class_agree (classificationOf l n) (classificationOf b n))
    | _ \<Rightarrow> False"
proof -
  from live_reload_agree [OF assms, of validate] show ?thesis
    by (cases "live_fold validate es"; cases "new_fold validate es")
      (auto simp: agree_openSuspensions agree_isAbandoned agree_resolved agree_classification)
qed

theorem live_fold_matches_reload_witness:
  "\<exists>l b. live_fold (\<lambda>_ _. Inr None) suspension_example = Inr l \<and> new_fold (\<lambda>_ _. Inr None) suspension_example = Inr b
     \<and> openSuspensions l = openSuspensions b"
proof -
  let ?v = "\<lambda>_ _. Inr None :: string option result"
  have "\<not> isl (live_fold ?v suspension_example)" "\<not> isl (new_fold ?v suspension_example)" by code_simp+
  then obtain l b where "live_fold ?v suspension_example = Inr l" "new_fold ?v suspension_example = Inr b"
    by (cases "live_fold ?v suspension_example"; cases "new_fold ?v suspension_example") auto
  moreover have "seqs_increasing suspension_example"
    "\<forall>e\<in>set suspension_example. je_status e = S_suspended \<longrightarrow> \<not> is_ref_entry e"
    by (simp_all add: seqs_increasing_def suspension_example_def is_ref_entry_iff)
  ultimately show ?thesis using live_fold_matches_reload [of suspension_example ?v] by simp
qed

text \<open>
  The agreement does not extend to \<open>suspensionState\<close>: a suspension that appears under an abandoned
  scope is still suspended in the live fold and abandoned after a reload.
\<close>

definition late_suspension_example :: "journal_entry list" where
  "late_suspension_example =
     [bare_entry 2 0 '''' ''a'' 0 K_agent S_running ''t'',
      (bare_entry 2 1 '''' ''x'' 0 K_abandon S_ok ''t'')\<lparr>je_ref := Some 0\<rparr>,
      bare_entry 2 2 ''agent:0'' ''q'' 0 K_approval S_suspended ''t'']"

lemma suspensionState_live_differs:
  "map_sum id (\<lambda>f. suspensionState f 2) (live_fold (\<lambda>_ _. Inr None) late_suspension_example) = Inr (Suspended None)
   \<and> map_sum id (\<lambda>f. suspensionState f 2) (new_fold (\<lambda>_ _. Inr None) late_suspension_example) = Inr (Abandoned 1)"
  by code_simp

end
