(* ===== verification/Serializable.thy ===== *)
theory Serializable
  imports Json JsNumber
begin

text \<open>
  The serializability check of the append path, \<open>packages/core/src/journal/serializable.ts\<close>. A
  JavaScript value is a finite tree: \<open>V_instance\<close> is an object whose prototype is neither
  \<open>Object.prototype\<close> nor \<open>null\<close>, \<open>V_other\<close> a value of the remaining types (function, symbol,
  bigint). The path in the error message is not kept.
\<close>

datatype js_value =
    V_undefined
  | V_null
  | V_bool bool
  | V_num js_number
  | V_str string
  | V_arr "js_value list"
  | V_obj "(string \<times> js_value) list"
  | V_instance
  | V_other

text \<open>
  \<open>check\<close> walks the value in order and throws at the first violation; every violation is the same
  error. An \<open>undefined\<close> member of an object is skipped, anywhere else \<open>undefined\<close> is refused.
\<close>

datatype verdict = Absent | Fine | Refused

primrec verdict_of :: "js_value \<Rightarrow> verdict" where
  "verdict_of V_undefined = Absent"
| "verdict_of V_null = Fine"
| "verdict_of (V_bool b) = Fine"
| "verdict_of (V_num n) = (if js_isFinite n then Fine else Refused)"
| "verdict_of (V_str s) = Fine"
| "verdict_of (V_arr xs) = (if list_all (\<lambda>r. r = Fine) (map verdict_of xs) then Fine else Refused)"
| "verdict_of (V_obj kvs) =
     (if list_all (\<lambda>r. snd r \<noteq> Refused) (map (map_prod id verdict_of) kvs) then Fine else Refused)"
| "verdict_of V_instance = Refused"
| "verdict_of V_other = Refused"

definition check :: "js_value \<Rightarrow> bool" where
  "check v \<longleftrightarrow> verdict_of v = Fine"

lemma check_simps [simp]:
  "\<not> check V_undefined" "check V_null" "check (V_bool b)" "check (V_num n) \<longleftrightarrow> js_isFinite n" "check (V_str s)"
  "check (V_arr xs) \<longleftrightarrow> list_all check xs"
  "check (V_obj kvs) \<longleftrightarrow> list_all (\<lambda>(k, v). v = V_undefined \<or> check v) kvs"
  "\<not> check V_instance" "\<not> check V_other"
proof -
  have "verdict_of v \<noteq> Refused \<longleftrightarrow> v = V_undefined \<or> verdict_of v = Fine" for v
    by (cases v) auto
  then show "check (V_obj kvs) \<longleftrightarrow> list_all (\<lambda>(k, v). v = V_undefined \<or> check v) kvs"
    by (auto simp: check_def list_all_iff split: prod.splits) 
qed (auto simp: check_def list_all_iff)

text \<open>
  \<open>JSON.parse(JSON.stringify(v))\<close>: object members that are \<open>undefined\<close> are dropped; the forms the
  check refuses have no counterpart.
\<close>

fun num_of :: "js_number \<Rightarrow> json option" where
  "num_of (Num q) = Some (JNum q)"
| "num_of _ = Some JNull"

primrec json_clone :: "js_value \<Rightarrow> json option" where
  "json_clone V_undefined = None"
| "json_clone V_null = Some JNull"
| "json_clone (V_bool b) = Some (JBool b)"
| "json_clone (V_num n) = num_of n"
| "json_clone (V_str s) = Some (JStr s)"
| "json_clone (V_arr xs) = Some (JArr (map (\<lambda>v. case v of Some j \<Rightarrow> j | None \<Rightarrow> JNull) (map json_clone xs)))"
| "json_clone (V_obj kvs) = Some (JObj (List.map_filter (\<lambda>(k, v). map_option (Pair k) v) (map (map_prod id json_clone) kvs)))"
| "json_clone V_instance = Some (JObj [])"
| "json_clone V_other = None"

definition toJournalValue :: "js_value \<Rightarrow> json result" where
  "toJournalValue v =
     (if check v then (case json_clone v of Some j \<Rightarrow> Inr j | None \<Rightarrow> Inl NonSerializableValueError)
      else Inl NonSerializableValueError)"

text \<open>The embedding of JSON into JavaScript values.\<close>

primrec js_of_json :: "json \<Rightarrow> js_value" where
  "js_of_json JNull = V_null"
| "js_of_json (JBool b) = V_bool b"
| "js_of_json (JNum q) = V_num (Num q)"
| "js_of_json (JStr s) = V_str s"
| "js_of_json (JArr xs) = V_arr (map js_of_json xs)"
| "js_of_json (JObj kvs) = V_obj (map (map_prod id js_of_json) kvs)"

lemma check_Some: "check v \<Longrightarrow> \<exists>j. json_clone v = Some j"
proof (cases v)
  case (V_num n)
  then show ?thesis by (cases n) simp_all
qed simp_all

lemma toJournalValue_check: "(\<exists>j. toJournalValue v = Inr j) \<longleftrightarrow> check v"
  using check_Some [of v] by (auto simp: toJournalValue_def split: option.splits)

lemma check_js_of_json: "check (js_of_json j) \<and> json_clone (js_of_json j) = Some j"
proof (induction j)
  case (JArr xs)
  then have "map (\<lambda>x. case json_clone (js_of_json x) of Some j \<Rightarrow> j | None \<Rightarrow> JNull) xs = xs"
    by (intro map_idI) simp
  with JArr show ?case by (simp add: list_all_iff comp_def)
next
  case (JObj kvs)
  have "List.map_filter (\<lambda>(k, v). map_option (Pair k) v) (map (map_prod id json_clone) (map (map_prod id js_of_json) kvs)) = kvs"
    using JObj
  proof (induction kvs)
    case (Cons p kvs)
    obtain k v where p: "p = (k, v)" by (cases p)
    have "json_clone (js_of_json v) = Some v" using Cons.prems [of p v] p by simp
    moreover have "List.map_filter (\<lambda>(k, v). map_option (Pair k) v) (map (map_prod id json_clone) (map (map_prod id js_of_json) kvs)) = kvs"
      using Cons.prems by (intro Cons.IH) auto
    ultimately show ?case by (simp add: p map_filter_simps id_def)
  qed (simp add: map_filter_simps)
  moreover have "check (js_of_json (JObj kvs))"
    using JObj by (fastforce simp: list_all_iff)
  ultimately show ?case by simp
qed simp_all

text \<open>
  A value the check accepts is journaled as its clone: the clone is JSON, journaling the clone
  again gives the same value, and the only difference to the original is that undefined object
  members are gone.
\<close>

primrec drop_undefined :: "js_value \<Rightarrow> js_value" where
  "drop_undefined V_undefined = V_undefined"
| "drop_undefined V_null = V_null"
| "drop_undefined (V_bool b) = V_bool b"
| "drop_undefined (V_num n) = V_num n"
| "drop_undefined (V_str s) = V_str s"
| "drop_undefined (V_arr xs) = V_arr (map drop_undefined xs)"
| "drop_undefined (V_obj kvs) = V_obj (filter (\<lambda>(k, v). v \<noteq> V_undefined) (map (map_prod id drop_undefined) kvs))"
| "drop_undefined V_instance = V_instance"
| "drop_undefined V_other = V_other"

lemma drop_undefined_undefined [simp]: "drop_undefined v = V_undefined \<longleftrightarrow> v = V_undefined"
  by (cases v) simp_all

lemma clone_faithful: "check v \<Longrightarrow> map_option js_of_json (json_clone v) = Some (drop_undefined v)"
proof (induction v)
  case (V_num n)
  then show ?case by (cases n) simp_all
next
  case (V_arr xs)
  then have "map_option js_of_json (json_clone x) = Some (drop_undefined x)" if "x \<in> set xs" for x
    using that by (auto simp: list_all_iff)
  then have "map (js_of_json \<circ> (\<lambda>v. case v of Some j \<Rightarrow> j | None \<Rightarrow> JNull) \<circ> json_clone) xs = map drop_undefined xs"
    by (intro map_cong) (force split: option.splits)+
  then show ?case by (simp add: comp_assoc)
next
  case (V_obj kvs)
  have ok: "\<forall>(k, v)\<in>set kvs. v = V_undefined \<or> check v" using V_obj.prems by (auto simp: list_all_iff)
  have IH: "v = V_undefined \<or> map_option js_of_json (json_clone v) = Some (drop_undefined v)" if "(k, v) \<in> set kvs" for k v
    using V_obj.IH [of "(k, v)" v] that ok by auto
  have "map (map_prod id js_of_json) (List.map_filter (\<lambda>(k, v). map_option (Pair k) v) (map (map_prod id json_clone) kvs))
      = filter (\<lambda>(k, v). v \<noteq> V_undefined) (map (map_prod id drop_undefined) kvs)"
    using IH
  proof (induction kvs)
    case (Cons p kvs)
    obtain k v where p: "p = (k, v)" by (cases p)
    have tl: "map (map_prod id js_of_json) (List.map_filter (\<lambda>(k, v). map_option (Pair k) v) (map (map_prod id json_clone) kvs))
      = filter (\<lambda>(k, v). v \<noteq> V_undefined) (map (map_prod id drop_undefined) kvs)"
      using Cons.prems by (intro Cons.IH) auto
    have "v = V_undefined \<or> map_option js_of_json (json_clone v) = Some (drop_undefined v)"
      using Cons.prems [of k v] p by simp
    then show ?case
    proof
      assume "v = V_undefined"
      then show ?thesis using tl by (simp add: p map_filter_simps id_def)
    next
      assume "map_option js_of_json (json_clone v) = Some (drop_undefined v)"
      moreover then have "v \<noteq> V_undefined" by auto
      ultimately show ?thesis using tl by (auto simp: p map_filter_simps id_def)
    qed
  qed (simp add: map_filter_simps)
  then show ?case by simp
qed simp_all

text \<open>
  Journaling keeps values: a value is either refused with the typed error and nothing is
  journaled, or what the journal holds is the value itself without its undefined object members,
  and every JSON value is journaled unchanged.
\<close>

lemma toJournalValue_faithful:
  "(case toJournalValue v of
      Inl err \<Rightarrow> err = NonSerializableValueError \<and> \<not> check v
    | Inr j \<Rightarrow> check v \<and> js_of_json j = drop_undefined v)
   \<and> toJournalValue (js_of_json j) = Inr j"
proof
  show "case toJournalValue v of
      Inl err \<Rightarrow> err = NonSerializableValueError \<and> \<not> check v
    | Inr j \<Rightarrow> check v \<and> js_of_json j = drop_undefined v"
    using clone_faithful [of v] check_Some [of v]
    by (auto simp: toJournalValue_def split: option.splits)
  show "toJournalValue (js_of_json j) = Inr j"
    using check_js_of_json [of j] by (simp add: toJournalValue_def)
qed

end
