(* ===== verification/Store.thy ===== *)
theory Store
  imports Entries
begin

text \<open>
  The journal store contract (\<open>packages/core/src/l0/spi/store.ts\<close>) as a locale, and the in-memory
  store (\<open>packages/core/src/stores/inmemory.ts\<close>, \<open>packages/core/src/stores/meta-lookup.ts\<close>) as its
  instance. The copies a store makes are the values themselves. Entry positions are natural numbers,
  so every position is finite. Members of a run's meta that no code here reads are kept as one JSON
  value.
\<close>

section \<open>The contract\<close>

text \<open>
  \<open>append run e s\<close> is the store after the call and the outcome the promise settles with. A store
  accepts an entry only after its tail, adds it at the end, keeps other runs, and leaves everything
  as it was when it rejects.
\<close>

locale journal_store =
  fixes append :: "string \<Rightarrow> journal_entry \<Rightarrow> 's \<Rightarrow> 's \<times> unit result"
    and load :: "string \<Rightarrow> 's \<Rightarrow> journal_entry list"
  assumes append_ok: "append r e s = (s', Inr u) \<Longrightarrow> load r s' = load r s @ [e]"
    and append_other: "append r e s = (s', res) \<Longrightarrow> r' \<noteq> r \<Longrightarrow> load r' s' = load r' s"
    and append_rejected: "append r e s = (s', Inl err) \<Longrightarrow> load r s' = load r s"
    and append_after_tail: "append r e s = (s', Inr u) \<Longrightarrow> load r s \<noteq> [] \<Longrightarrow> je_seq (last (load r s)) < je_seq e"
begin

text \<open>Whatever writers do, a run's journal stays ordered and only grows at its end.\<close>

lemma append_increasing:
  assumes "append r e s = (s', res)" "seqs_increasing (load q s)"
  shows "seqs_increasing (load q s')"
proof (cases "q = r")
  case False
  then show ?thesis using append_other assms by simp
next
  case True
  show ?thesis
  proof (cases res)
    case (Inl err)
    then show ?thesis using append_rejected assms True by simp
  next
    case (Inr u)
    have "je_seq x < je_seq e" if "x \<in> set (load r s)" for x
    proof -
      have ne: "load r s \<noteq> []" using that by auto
      then have "load r s = butlast (load r s) @ [last (load r s)]" by simp
      with assms(2) True that have "x = last (load r s) \<or> je_seq x < je_seq (last (load r s))"
        by (metis Un_iff empty_iff insert_iff list.set(1) list.set(2) seqs_increasing_snoc set_append)
      then show ?thesis using append_after_tail ne assms(1) Inr by force
    qed
    then show ?thesis using append_ok assms Inr True by (simp add: seqs_increasing_snoc)
  qed
qed

definition append_all :: "(string \<times> journal_entry) list \<Rightarrow> 's \<Rightarrow> 's" where
  "append_all ws s = foldl (\<lambda>s (r, e). fst (append r e s)) s ws"

lemma append_all_increasing:
  "seqs_increasing (load q s) \<Longrightarrow> seqs_increasing (load q (append_all ws s))"
proof (induction ws arbitrary: s)
  case Nil
  then show ?case by (simp add: append_all_def)
next
  case (Cons w ws)
  obtain r e where w: "w = (r, e)" by (cases w)
  have "seqs_increasing (load q (fst (append r e s)))"
    using append_increasing [of r e s] Cons.prems by (metis prod.collapse)
  then show ?case using Cons.IH by (simp add: append_all_def w)
qed

lemma append_prefix: "\<exists>es. load q (fst (append r e s)) = load q s @ es"
proof (cases "append r e s")
  case (Pair s' res)
  show ?thesis
  proof (cases "q = r")
    case True
    with Pair append_ok append_rejected show ?thesis by (cases res) auto
  next
    case False
    with Pair append_other show ?thesis by simp
  qed
qed

lemma append_all_prefix: "\<exists>es. load q (append_all ws s) = load q s @ es"
proof (induction ws arbitrary: s)
  case Nil
  then show ?case by (simp add: append_all_def)
next
  case (Cons w ws)
  obtain r e where w: "w = (r, e)" by (cases w)
  obtain es where es: "load q (fst (append r e s)) = load q s @ es" using append_prefix by blast
  obtain fs where "load q (append_all ws (fst (append r e s))) = load q (fst (append r e s)) @ fs"
    using Cons.IH by blast
  with es show ?case by (simp add: append_all_def w)
qed

end

section \<open>The in-memory store\<close>

record run_meta =
  rm_runId :: string
  rm_status :: string
  rm_name :: "string option"
  rm_tags :: "string list option"
  rm_rest :: json

record run_filter =
  flt_status :: "string option"
  flt_statuses :: "string list option"
  flt_name :: "string option"
  flt_tags :: "string list option"

definition metaMatchesFilter :: "run_meta \<Rightarrow> run_filter option \<Rightarrow> bool" where
  "metaMatchesFilter meta f =
     (case f of
        None \<Rightarrow> True
      | Some f \<Rightarrow>
          if (flt_status f \<noteq> None \<or> flt_statuses f \<noteq> None)
             \<and> \<not> (flt_status f = Some (rm_status meta))
             \<and> \<not> (case flt_statuses f of None \<Rightarrow> False | Some ss \<Rightarrow> rm_status meta \<in> set ss) then False
          else if flt_name f \<noteq> None \<and> rm_name meta \<noteq> flt_name f then False
          else (case flt_tags f of
                  None \<Rightarrow> True
                | Some tags \<Rightarrow>
                    list_all (\<lambda>tag. case rm_tags meta of None \<Rightarrow> False | Some ts \<Rightarrow> tag \<in> set ts) tags))"

record inmemory_store =
  im_runs :: "(string, journal_entry list) jsmap"
  im_metas :: "(string, run_meta) jsmap"
  im_warned :: bool

definition new_inmemory_store :: "bool \<Rightarrow> inmemory_store" where
  "new_inmemory_store quiet = \<lparr> im_runs = [], im_metas = [], im_warned = quiet \<rparr>"

definition run_entries :: "inmemory_store \<Rightarrow> string \<Rightarrow> journal_entry list" where
  "run_entries s runId = (case jm_get (im_runs s) runId of None \<Rightarrow> [] | Some es \<Rightarrow> es)"

definition im_append :: "string \<Rightarrow> journal_entry \<Rightarrow> inmemory_store \<Rightarrow> inmemory_store \<times> unit result" where
  "im_append runId e s0 =
     (let s = s0\<lparr> im_warned := True \<rparr>;
          entries = run_entries s runId
      in if entries \<noteq> [] \<and> je_seq e \<le> je_seq (last entries)
         then (s, Inl (JournalOrderViolation (je_seq e)))
         else (s\<lparr> im_runs := jm_set runId (entries @ [e]) (im_runs s) \<rparr>, Inr ()))"

definition im_load :: "string \<Rightarrow> inmemory_store \<Rightarrow> journal_entry list" where
  "im_load runId s = run_entries s runId"

definition im_putMeta :: "run_meta \<Rightarrow> inmemory_store \<Rightarrow> inmemory_store" where
  "im_putMeta m s = s\<lparr> im_metas := jm_set (rm_runId m) m (im_metas s) \<rparr>"

definition im_getMeta :: "string \<Rightarrow> inmemory_store \<Rightarrow> run_meta option" where
  "im_getMeta runId s = jm_get (im_metas s) runId"

definition im_listRuns :: "run_filter option \<Rightarrow> inmemory_store \<Rightarrow> run_meta list" where
  "im_listRuns f s = filter (\<lambda>m. metaMatchesFilter m f) (jm_values (im_metas s))"

definition im_delete :: "string \<Rightarrow> inmemory_store \<Rightarrow> inmemory_store" where
  "im_delete runId s = s\<lparr> im_runs := jm_delete runId (im_runs s), im_metas := jm_delete runId (im_metas s) \<rparr>"

text \<open>\<open>readRunMeta\<close> on a store without the exact lookup scans the catalog.\<close>

definition readRunMeta_scan :: "inmemory_store \<Rightarrow> string \<Rightarrow> run_meta option" where
  "readRunMeta_scan s runId = List.find (\<lambda>m. rm_runId m = runId) (im_listRuns None s)"

interpretation im: journal_store im_append im_load
proof
  fix r r' :: string and e :: journal_entry and s s' :: inmemory_store and u :: unit and err and res
  show "im_append r e s = (s', Inr u) \<Longrightarrow> im_load r s' = im_load r s @ [e]"
    by (auto simp: im_append_def im_load_def run_entries_def Let_def split: if_splits)
  show "im_append r e s = (s', res) \<Longrightarrow> r' \<noteq> r \<Longrightarrow> im_load r' s' = im_load r' s"
    by (auto simp: im_append_def im_load_def run_entries_def Let_def split: if_splits)
  show "im_append r e s = (s', Inl err) \<Longrightarrow> im_load r s' = im_load r s"
    by (auto simp: im_append_def im_load_def run_entries_def Let_def split: if_splits)
  show "im_append r e s = (s', Inr u) \<Longrightarrow> im_load r s \<noteq> [] \<Longrightarrow> je_seq (last (im_load r s)) < je_seq e"
    by (auto simp: im_append_def im_load_def run_entries_def Let_def not_le split: if_splits)
qed

section \<open>Properties\<close>

text \<open>
  Concurrent writers cannot corrupt a journal: whatever appends the in-memory store is given,
  for whatever runs and from whatever stale tails, every run's journal keeps strictly increasing
  positions and its earlier content as a prefix.
\<close>

lemma inmemory_appends_ordered:
  assumes "seqs_increasing (im_load q s)"
  shows "seqs_increasing (im_load q (foldl (\<lambda>s (r, e). fst (im_append r e s)) s ws))
    \<and> (\<exists>es. im_load q (foldl (\<lambda>s (r, e). fst (im_append r e s)) s ws) = im_load q s @ es)"
  using im.append_all_increasing [OF assms, of ws] im.append_all_prefix [of q ws s]
  unfolding im.append_all_def by blast

text \<open>Every meta is filed under its own run.\<close>

definition metas_filed :: "inmemory_store \<Rightarrow> bool" where
  "metas_filed s \<longleftrightarrow> jm_wf (im_metas s) \<and> (\<forall>(k, m)\<in>set (im_metas s). rm_runId m = k)"

lemma set_jm_set: "set (jm_set k v m) \<subseteq> insert (k, v) (set m)"
  by (induction m) (auto split: if_splits)

lemma metas_filed_ops:
  "metas_filed (new_inmemory_store quiet)"
  "metas_filed s \<Longrightarrow> metas_filed (im_putMeta m s)"
  "metas_filed s \<Longrightarrow> metas_filed (im_delete r s)"
  "metas_filed s \<Longrightarrow> metas_filed (fst (im_append r e s))"
  using set_jm_set [of "rm_runId m" m "im_metas s"]
  by (auto simp: metas_filed_def new_inmemory_store_def im_putMeta_def im_delete_def im_append_def
      jm_delete_def Let_def jm_wf_delete [unfolded jm_delete_def])

lemma find_by_key:
  "distinct (jm_keys ms) \<Longrightarrow> \<forall>(k, m)\<in>set ms. rm_runId m = k \<Longrightarrow>
    List.find (\<lambda>m. rm_runId m = runId) (jm_values ms) = jm_get ms runId"
  by (induction ms) auto

text \<open>
  The exact meta lookup and the catalog scan it replaces agree, and a deleted run is gone from
  both and from the journal.
\<close>

lemma readRunMeta_agrees:
  assumes "metas_filed s"
  shows "readRunMeta_scan s runId = im_getMeta runId s
    \<and> readRunMeta_scan (im_delete runId s) runId = None \<and> im_load runId (im_delete runId s) = []"
proof -
  have scan: "readRunMeta_scan t runId = im_getMeta runId t" if "metas_filed t" for t
    using find_by_key [of "im_metas t" runId] that
    by (simp add: readRunMeta_scan_def im_listRuns_def metaMatchesFilter_def im_getMeta_def metas_filed_def jm_wf_def)
  moreover have "im_getMeta runId (im_delete runId s) = None" "im_load runId (im_delete runId s) = []"
    by (simp_all add: im_getMeta_def im_delete_def im_load_def run_entries_def jm_get_delete)
  ultimately show ?thesis using assms metas_filed_ops(3) by simp
qed

end
