(* ===== verification/Replayer.thy ===== *)
theory Replayer
  imports Matching ResolutionFold Serializable Store Billing
begin

text \<open>
  The journal kernel write path, \<open>packages/core/src/journal/replayer.ts\<close>, with the arbiter of
  \<open>packages/core/src/journal/resolution.ts\<close> on top of it. Appends of a run go through one
  serialized queue, so an append is one step on the state; a submission to the arbiter is one step
  too. The store is the parameter \<open>put\<close> with the store state in the record; \<open>parses\<close> is
  \<open>Date.parse\<close>, \<open>validate\<close> the schema validator, and \<open>now\<close> the time stamp of the step. The lease
  rides inside \<open>put\<close>; the size warnings are not modelled.
\<close>

section \<open>The ledger\<close>

record ledger =
  lg_usage :: usage
  lg_usd :: js_number
  lg_agentsSpawned :: nat

definition ledger_step ::
  "(nat \<Rightarrow> bool) \<Rightarrow> price_fn option \<Rightarrow> ledger \<Rightarrow> journal_entry \<Rightarrow> ledger result" where
  "ledger_step abandoned priceUsd lg e =
     (if \<not> is_ref_entry e \<and> abandoned (case je_ref e of Some r \<Rightarrow> r | None \<Rightarrow> je_seq e) then Inr lg
      else
        let lg1 = (if je_kind e = K_agent \<and> je_status e = S_running
                   then lg\<lparr> lg_agentsSpawned := lg_agentsSpawned lg + 1 \<rparr> else lg)
        in if je_status e = S_running then Inr lg1
           else (case je_usage e of
                   None \<Rightarrow> Inr lg1
                 | Some u \<Rightarrow>
                     let lg2 = lg1\<lparr> lg_usage := sumUsage (lg_usage lg1) u \<rparr>
                     in (case priceUsd of
                           None \<Rightarrow> Inr lg2
                         | Some price \<Rightarrow>
                             bindR (priceEntryBilling e price) (\<lambda>b.
                               Inr (lg2\<lparr> lg_usd := lg_usd lg2 + ebf_usd b \<rparr>)))))"

definition foldLedger ::
  "journal_entry list \<Rightarrow> (nat \<Rightarrow> bool) \<Rightarrow> price_fn option \<Rightarrow> ledger result" where
  "foldLedger entries abandoned priceUsd =
     foldR (ledger_step abandoned priceUsd) \<lparr> lg_usage = zeroUsage, lg_usd = 0, lg_agentsSpawned = 0 \<rparr> entries"

section \<open>State\<close>

record 's replayer =
  rl_runId :: string
  rl_store :: 's
  rl_entries :: "journal_entry list"
  rl_ordinals :: "(string, nat) jsmap"
  rl_matcher :: matcher
  rl_fold :: resolution_fold
  rl_strict :: bool
  rl_invalidated :: "nat list"
  rl_appendFailure :: "rulvar_error option"
  rl_sealed :: bool
  rl_seq :: nat

type_synonym 's store_append = "string \<Rightarrow> journal_entry \<Rightarrow> 's \<Rightarrow> 's \<times> unit result"

definition ordinalMapKey :: "string \<Rightarrow> nat \<Rightarrow> string \<Rightarrow> string" where
  "ordinalMapKey scope hashVersion key = scope @ [CHR 0x00] @ show_nat hashVersion @ [CHR 0x00] @ key"

definition next_ordinal :: "(string, nat) jsmap \<Rightarrow> string \<Rightarrow> nat" where
  "next_ordinal m k = (case jm_get m k of None \<Rightarrow> 0 | Some n \<Rightarrow> n)"

section \<open>Construction\<close>

definition seed_prior :: "'s replayer \<Rightarrow> journal_entry \<Rightarrow> 's replayer" where
  "seed_prior r e =
     (let r1 = r\<lparr> rl_entries := rl_entries r @ [e],
                  rl_seq := (if je_seq e \<ge> rl_seq r then je_seq e + 1 else rl_seq r) \<rparr>
      in if je_ref e = None \<and> je_kind e \<noteq> K_resolution \<and> je_kind e \<noteq> K_abandon
            \<and> je_hashVersion e = CURRENT_HASH_VERSION then
           (let k = ordinalMapKey (je_scope e) (je_hashVersion e) (je_key e);
                current = next_ordinal (rl_ordinals r1) k
            in if je_ordinal e + 1 > current
               then r1\<lparr> rl_ordinals := jm_set k (je_ordinal e + 1) (rl_ordinals r1) \<rparr> else r1)
         else r1)"

definition new_replayer ::
  "validator \<Rightarrow> string \<Rightarrow> 's \<Rightarrow> key_ring \<Rightarrow> (journal_operation \<Rightarrow> operation_disposition result) \<Rightarrow> bool
     \<Rightarrow> journal_entry list \<Rightarrow> 's replayer result" where
  "new_replayer validate runId store keyRing disposition strict priors =
     bindR (new_fold validate priors) (\<lambda>fd.
       Inr (foldl seed_prior
         \<lparr> rl_runId = runId, rl_store = store, rl_entries = [], rl_ordinals = [],
           rl_matcher = new_matcher keyRing disposition priors, rl_fold = fd, rl_strict = strict,
           rl_invalidated = [], rl_appendFailure = None, rl_sealed = False, rl_seq = 0 \<rparr> priors))"

section \<open>Minting and persisting\<close>

definition mint ::
  "string \<Rightarrow> string \<Rightarrow> string \<Rightarrow> entry_kind \<Rightarrow> entry_status \<Rightarrow> 's replayer \<Rightarrow> journal_entry \<times> 's replayer" where
  "mint now scope key kind status r =
     (let k = ordinalMapKey scope CURRENT_HASH_VERSION key;
          ordinal = next_ordinal (rl_ordinals r) k
      in (bare_entry CURRENT_HASH_VERSION (rl_seq r) scope key ordinal kind status now,
          r\<lparr> rl_ordinals := jm_set k (ordinal + 1) (rl_ordinals r), rl_seq := rl_seq r + 1 \<rparr>))"

text \<open>The first failure is latched; the error goes on to the caller.\<close>

definition latch :: "rulvar_error \<Rightarrow> 's replayer \<Rightarrow> 's replayer" where
  "latch err r =
     r\<lparr> rl_appendFailure := (case rl_appendFailure r of None \<Rightarrow> Some err | Some f \<Rightarrow> Some f) \<rparr>"

definition persist ::
  "'s store_append \<Rightarrow> (string \<Rightarrow> bool) \<Rightarrow> journal_entry \<Rightarrow> 's replayer \<Rightarrow> 's replayer \<times> journal_entry result" where
  "persist put parses e r =
     (if rl_strict r then (r, Inl JournalMissError)
      else (case validateEntryShape parses e of
        Inl err \<Rightarrow> (latch err r, Inl err)
      | Inr (i # is) \<Rightarrow> (latch ConfigError r, Inl ConfigError)
      | Inr [] \<Rightarrow>
          (case put (rl_runId r) e (rl_store r) of
             (s, Inl err) \<Rightarrow> (latch err (r\<lparr> rl_store := s \<rparr>), Inl err)
           | (s, Inr _) \<Rightarrow>
               let r1 = r\<lparr> rl_store := s, rl_entries := rl_entries r @ [e] \<rparr>
               in (if je_status e = S_suspended then r1\<lparr> rl_fold := registerSuspended e (rl_fold r1) \<rparr>
                   else if je_kind e \<noteq> K_resolution \<and> je_kind e \<noteq> K_abandon
                   then r1\<lparr> rl_fold := registerEntry e (rl_fold r1) \<rparr>
                   else r1, Inr e))))"

section \<open>The append lanes\<close>

record base_append =
  ba_scope :: string
  ba_key :: string
  ba_kind :: entry_kind
  ba_spanId :: string
  ba_value :: "js_value option"

definition journal_value :: "js_value option \<Rightarrow> json option result" where
  "journal_value v =
     (case v of None \<Rightarrow> Inr None | Some x \<Rightarrow> bindR (toJournalValue x) (\<lambda>j. Inr (Some j)))"

text \<open>Refused after the settle, before anything is minted or serialized.\<close>

definition guarded ::
  "js_value option \<Rightarrow> (json option \<Rightarrow> 's replayer \<times> journal_entry result) \<Rightarrow> 's replayer
     \<Rightarrow> 's replayer \<times> journal_entry result" where
  "guarded v section r =
     (if rl_sealed r then (r, Inl JournalSealedError)
      else (case journal_value v of Inl err \<Rightarrow> (r, Inl err) | Inr j \<Rightarrow> section j))"

definition appendSinglePhase ::
  "'s store_append \<Rightarrow> (string \<Rightarrow> bool) \<Rightarrow> string \<Rightarrow> base_append \<Rightarrow> usage option \<Rightarrow> model_ref option
     \<Rightarrow> 's replayer \<Rightarrow> 's replayer \<times> journal_entry result" where
  "appendSinglePhase put parses now input usage servedBy r =
     guarded (ba_value input) (\<lambda>value.
       let (e, r1) = mint now (ba_scope input) (ba_key input) (ba_kind input) S_ok r
       in persist put parses
            (e\<lparr> je_value := value, je_usage := usage, je_servedBy := servedBy,
                je_spanId := ba_spanId input, je_endedAt := Some (je_startedAt e) \<rparr>) r1) r"

definition appendRunning ::
  "'s store_append \<Rightarrow> (string \<Rightarrow> bool) \<Rightarrow> string \<Rightarrow> base_append \<Rightarrow> bool option
     \<Rightarrow> 's replayer \<Rightarrow> 's replayer \<times> journal_entry result" where
  "appendRunning put parses now input memoizeOutcome r =
     guarded (ba_value input) (\<lambda>value.
       let (e, r1) = mint now (ba_scope input) (ba_key input) (ba_kind input) S_running r
       in persist put parses
            (e\<lparr> je_spanId := ba_spanId input, je_value := value, je_memoizeOutcome := memoizeOutcome \<rparr>) r1) r"

definition appendSuspended ::
  "'s store_append \<Rightarrow> (string \<Rightarrow> bool) \<Rightarrow> string \<Rightarrow> base_append \<Rightarrow> string option
     \<Rightarrow> 's replayer \<Rightarrow> 's replayer \<times> journal_entry result" where
  "appendSuspended put parses now input deadlineAt r =
     guarded (ba_value input) (\<lambda>value.
       let (e, r1) = mint now (ba_scope input) (ba_key input) (ba_kind input) S_suspended r
       in persist put parses
            (e\<lparr> je_spanId := ba_spanId input, je_value := value, je_deadlineAt := deadlineAt \<rparr>) r1) r"

text \<open>The fields a terminal adds; those that are JavaScript values go through the check.\<close>

record terminal_patch =
  tp_status :: entry_status
  tp_value :: "js_value option"
  tp_error :: "wire_error option"
  tp_usage :: "usage option"
  tp_usageApprox :: "bool option"
  tp_servedBy :: "model_ref option"
  tp_usageByModel :: "usage_slice list option"
  tp_costAttribution :: "cost_attribution_facts option"
  tp_providerCalls :: "provider_call_record list option"
  tp_usageSemantics :: "string option"
  tp_transcriptRef :: "string option"
  tp_checkpointRef :: "string option"
  tp_artifacts :: "js_value option"
  tp_evidence :: "evidence_verdict option"
  tp_evidenceEntries :: "(string \<times> string option) list option"
  tp_toolBudget :: "(nat \<times> nat option) option"
  tp_hostRejected :: "bool option"
  tp_escalation :: "js_value option"
  tp_memoizeOutcome :: "bool option"

definition terminal_entry ::
  "string \<Rightarrow> nat \<Rightarrow> journal_entry \<Rightarrow> terminal_patch \<Rightarrow> json option \<Rightarrow> journal_entry" where
  "terminal_entry now sq running patch value =
     (bare_entry (je_hashVersion running) sq (je_scope running) (je_key running) (je_ordinal running)
        (je_kind running) (tp_status patch) (je_startedAt running))
     \<lparr> je_ref := Some (je_seq running), je_spanId := je_spanId running, je_endedAt := Some now,
       je_value := value, je_error := tp_error patch, je_usage := tp_usage patch,
       je_usageApprox := tp_usageApprox patch, je_servedBy := tp_servedBy patch,
       je_usageByModel := tp_usageByModel patch, je_costAttribution := tp_costAttribution patch,
       je_providerCalls := tp_providerCalls patch, je_usageSemantics := tp_usageSemantics patch,
       je_transcriptRef := tp_transcriptRef patch, je_checkpointRef := tp_checkpointRef patch,
       je_evidence := tp_evidence patch, je_evidenceEntries := tp_evidenceEntries patch,
       je_toolBudget := tp_toolBudget patch, je_hostRejected := tp_hostRejected patch,
       je_memoizeOutcome := tp_memoizeOutcome patch \<rparr>"

definition appendTerminal ::
  "'s store_append \<Rightarrow> (string \<Rightarrow> bool) \<Rightarrow> string \<Rightarrow> nat \<Rightarrow> terminal_patch
     \<Rightarrow> 's replayer \<Rightarrow> 's replayer \<times> journal_entry result" where
  "appendTerminal put parses now runningSeq patch r =
     guarded (tp_value patch) (\<lambda>value.
       case List.find (\<lambda>e. je_seq e = runningSeq) (rl_entries r) of
         None \<Rightarrow> (r, Inl ConfigError)
       | Some running \<Rightarrow>
           if je_status running \<noteq> S_running then (r, Inl ConfigError)
           else
             let e = terminal_entry now (rl_seq r) running patch value;
                 r1 = r\<lparr> rl_seq := rl_seq r + 1 \<rparr>
             in (case journal_value (tp_artifacts patch) of
                   Inl err \<Rightarrow> (r1, Inl err)
                 | Inr artifacts \<Rightarrow>
                     (case journal_value (tp_escalation patch) of
                        Inl err \<Rightarrow> (r1, Inl err)
                      | Inr escalation \<Rightarrow>
                          persist put parses
                            (e\<lparr> je_artifacts := artifacts, je_escalation := escalation \<rparr>) r1))) r"

text \<open>The ref-entry lane stays open after the settle.\<close>

definition appendRefEntry ::
  "'s store_append \<Rightarrow> (string \<Rightarrow> bool) \<Rightarrow> string \<Rightarrow> entry_kind \<Rightarrow> nat \<Rightarrow> string \<Rightarrow> string
     \<Rightarrow> resolution_payload option \<Rightarrow> abandon_payload option
     \<Rightarrow> 's replayer \<Rightarrow> 's replayer \<times> journal_entry result" where
  "appendRefEntry put parses now kind ref scope spanId resolution abandon r =
     persist put parses
       ((bare_entry CURRENT_HASH_VERSION (rl_seq r) scope '''' 0 kind S_ok now)
          \<lparr> je_ref := Some ref, je_spanId := spanId, je_resolution := resolution, je_abandon := abandon \<rparr>)
       (r\<lparr> rl_seq := rl_seq r + 1 \<rparr>)"

section \<open>The arbiter\<close>

record resolution_attempt =
  rat_by :: resolution_by
  rat_value :: json
  rat_decisionRef :: "nat option"

record abandon_attempt =
  aat_target :: nat
  aat_authorizedBy :: nat
  aat_nodeId :: "string option"
  aat_logicalTaskId :: "string option"
  aat_reason :: string
  aat_retainCheckpoint :: "bool option"
  aat_retainWorktree :: "bool option"

datatype resolution_outcome =
    Outcome_applied nat
  | Outcome_superseded nat nat noop_reason

definition register_outcome ::
  "validator \<Rightarrow> journal_entry \<Rightarrow> nat \<Rightarrow> noop_reason \<Rightarrow> 's replayer \<Rightarrow> 's replayer \<times> resolution_outcome result" where
  "register_outcome validate e target fallback r =
     (case registerRefEntry validate e (rl_fold r) of
        (fd, res) \<Rightarrow>
          (r\<lparr> rl_fold := fd \<rparr>,
           bindR res (\<lambda>c. Inr (case c of
               Applied \<Rightarrow> Outcome_applied (je_seq e)
             | Noop by reason \<Rightarrow> Outcome_superseded (je_seq e) by reason
             | Invalid _ \<Rightarrow> Outcome_superseded (je_seq e) target fallback))))"

definition submitResolution ::
  "'s store_append \<Rightarrow> (string \<Rightarrow> bool) \<Rightarrow> validator \<Rightarrow> string \<Rightarrow> nat \<Rightarrow> string \<Rightarrow> string \<Rightarrow> resolution_attempt
     \<Rightarrow> 's replayer \<Rightarrow> 's replayer \<times> resolution_outcome result" where
  "submitResolution put parses validate now target scope spanId attempt r =
     (let payload = \<lparr> rp_target = target, rp_by = rat_by attempt, rp_value = rat_value attempt,
            rp_decisionRef = rat_decisionRef attempt, rp_logicalTaskId = None, rp_countsAgainstLimit = None \<rparr>
      in case appendRefEntry put parses now K_resolution target scope spanId (Some payload) None r of
           (r1, Inl err) \<Rightarrow> (r1, Inl err)
         | (r1, Inr e) \<Rightarrow> register_outcome validate e target Already_resolved r1)"

definition submitAbandon ::
  "'s store_append \<Rightarrow> (string \<Rightarrow> bool) \<Rightarrow> validator \<Rightarrow> string \<Rightarrow> string \<Rightarrow> string \<Rightarrow> abandon_attempt
     \<Rightarrow> 's replayer \<Rightarrow> 's replayer \<times> resolution_outcome result" where
  "submitAbandon put parses validate now scope spanId attempt r =
     (let payload = \<lparr> ap_target = aat_target attempt, ap_authorizedBy = aat_authorizedBy attempt,
            ap_nodeId = aat_nodeId attempt, ap_logicalTaskId = aat_logicalTaskId attempt, ap_reason = aat_reason attempt,
            ap_retainCheckpoint = Some (case aat_retainCheckpoint attempt of Some b \<Rightarrow> b | None \<Rightarrow> True),
            ap_retainWorktree = Some (case aat_retainWorktree attempt of Some b \<Rightarrow> b | None \<Rightarrow> False) \<rparr>
      in case appendRefEntry put parses now K_abandon (aat_target attempt) scope spanId None (Some payload) r of
           (r1, Inl err) \<Rightarrow> (r1, Inl err)
         | (r1, Inr e) \<Rightarrow> register_outcome validate e (aat_target attempt) Target_abandoned r1)"

definition resolveSuspended ::
  "'s store_append \<Rightarrow> (string \<Rightarrow> bool) \<Rightarrow> validator \<Rightarrow> string \<Rightarrow> nat \<Rightarrow> resolution_attempt
     \<Rightarrow> 's replayer \<Rightarrow> 's replayer \<times> resolution_outcome result" where
  "resolveSuspended put parses validate now target attempt r =
     (case List.find (\<lambda>e. je_seq e = target) (rl_entries r) of
        None \<Rightarrow> (r, Inl ConfigError)
      | Some t \<Rightarrow>
          if je_status t \<noteq> S_suspended then (r, Inl ConfigError)
          else submitResolution put parses validate now target (je_scope t) (je_spanId t) attempt r)"

definition abandonBranch ::
  "'s store_append \<Rightarrow> (string \<Rightarrow> bool) \<Rightarrow> validator \<Rightarrow> string \<Rightarrow> abandon_attempt
     \<Rightarrow> 's replayer \<Rightarrow> 's replayer \<times> resolution_outcome result" where
  "abandonBranch put parses validate now attempt r =
     (case List.find (\<lambda>e. je_seq e = aat_target attempt) (rl_entries r) of
        None \<Rightarrow> (r, Inl ConfigError)
      | Some t \<Rightarrow> submitAbandon put parses validate now (je_scope t) (je_spanId t) attempt r)"

section \<open>Matching, seal, flush and reports\<close>

definition replayer_match ::
  "string \<Rightarrow> identity_input \<Rightarrow> replay_mode \<Rightarrow> 's replayer \<Rightarrow> 's replayer \<times> match_result result" where
  "replayer_match scope identity mode r =
     (case match (rl_matcher r) scope identity mode of
        (m, res) \<Rightarrow>
          (r\<lparr> rl_matcher := m \<rparr>,
           bindR res (\<lambda>result.
             if rl_strict r \<and> (case result of M_live \<Rightarrow> True | M_rerun _ \<Rightarrow> True | M_rerun_dangling _ \<Rightarrow> True | _ \<Rightarrow> False)
             then Inl JournalMissError else Inr result)))"

definition invalidate :: "nat \<Rightarrow> 's replayer \<Rightarrow> 's replayer" where
  "invalidate sq r = r\<lparr> rl_invalidated := List.insert sq (rl_invalidated r) \<rparr>"

definition resumeReport :: "'s replayer \<Rightarrow> resume_report" where
  "resumeReport r =
     (let rep = report (rl_matcher r);
          abandoned = fold_isAbandoned (rl_fold r)
      in rep\<lparr> rr_skipped := rr_skipped rep + length (filter abandoned (rr_orphaned rep)),
              rr_orphaned := filter (\<lambda>n. \<not> abandoned n) (rr_orphaned rep) \<rparr>)"

definition seal :: "'s replayer \<Rightarrow> 's replayer" where
  "seal r = r\<lparr> rl_sealed := True \<rparr>"

definition flush :: "'s replayer \<Rightarrow> unit result" where
  "flush r = (case rl_appendFailure r of None \<Rightarrow> Inr () | Some _ \<Rightarrow> Inl JournalIntegrityError)"

definition ledger_of :: "price_fn option \<Rightarrow> 's replayer \<Rightarrow> ledger result" where
  "ledger_of priceUsd r = foldLedger (rl_entries r) (fold_isAbandoned (rl_fold r)) priceUsd"


section \<open>Steps and reachable states\<close>

inductive replayer_step ::
  "'s store_append \<Rightarrow> (string \<Rightarrow> bool) \<Rightarrow> validator \<Rightarrow> 's replayer \<Rightarrow> 's replayer \<Rightarrow> bool"
  for put parses validate where
  step_single: "appendSinglePhase put parses now input u sb r = (r', res) \<Longrightarrow> replayer_step put parses validate r r'"
| step_running: "appendRunning put parses now input memo r = (r', res) \<Longrightarrow> replayer_step put parses validate r r'"
| step_suspended: "appendSuspended put parses now input dl r = (r', res) \<Longrightarrow> replayer_step put parses validate r r'"
| step_terminal: "appendTerminal put parses now sq patch r = (r', res) \<Longrightarrow> replayer_step put parses validate r r'"
| step_resolve: "resolveSuspended put parses validate now sq ra r = (r', out) \<Longrightarrow> replayer_step put parses validate r r'"
| step_abandon: "abandonBranch put parses validate now aa r = (r', out) \<Longrightarrow> replayer_step put parses validate r r'"
| step_match: "replayer_match scope identity mode r = (r', m) \<Longrightarrow> replayer_step put parses validate r r'"
| step_invalidate: "replayer_step put parses validate r (invalidate n r)"
| step_seal: "replayer_step put parses validate r (seal r)"

inductive replayer_reaches ::
  "'s store_append \<Rightarrow> (string \<Rightarrow> bool) \<Rightarrow> validator \<Rightarrow> 's replayer \<Rightarrow> 's replayer \<Rightarrow> bool"
  for put parses validate where
  reaches_refl: "replayer_reaches put parses validate r r"
| reaches_step: "replayer_reaches put parses validate r r1 \<Longrightarrow> replayer_step put parses validate r1 r2
    \<Longrightarrow> replayer_reaches put parses validate r r2"

text \<open>What persisting may change.\<close>

lemma latch_sel [simp]:
  "rl_runId (latch err r) = rl_runId r" "rl_store (latch err r) = rl_store r" "rl_entries (latch err r) = rl_entries r"
  "rl_ordinals (latch err r) = rl_ordinals r" "rl_strict (latch err r) = rl_strict r" "rl_seq (latch err r) = rl_seq r"
  "rl_sealed (latch err r) = rl_sealed r" "rl_fold (latch err r) = rl_fold r"
  "rl_appendFailure (latch err r) = Some (case rl_appendFailure r of None \<Rightarrow> err | Some f \<Rightarrow> f)"
  by (simp_all add: latch_def split: option.split)

definition same_frame :: "'s replayer \<Rightarrow> 's replayer \<Rightarrow> bool" where
  "same_frame r r' \<longleftrightarrow> rl_runId r' = rl_runId r \<and> rl_ordinals r' = rl_ordinals r \<and> rl_seq r' = rl_seq r
     \<and> rl_strict r' = rl_strict r \<and> rl_sealed r' = rl_sealed r"

lemma persist_disj:
  assumes "persist put parses e r = (r', res)"
  shows "same_frame r r' \<and>
    ((\<exists>err. res = Inl err \<and> rl_entries r' = rl_entries r \<and> rl_fold r' = rl_fold r
        \<and> (rl_store r' = rl_store r \<or> put (rl_runId r) e (rl_store r) = (rl_store r', Inl err))
        \<and> (if rl_strict r then r' = r
           else rl_appendFailure r' = Some (case rl_appendFailure r of None \<Rightarrow> err | Some f \<Rightarrow> f)))
     \<or> res = Inr e \<and> \<not> rl_strict r \<and> valid_shape parses e \<and> rl_entries r' = rl_entries r @ [e]
        \<and> put (rl_runId r) e (rl_store r) = (rl_store r', Inr ()) \<and> rl_appendFailure r' = rl_appendFailure r)"
proof (cases "rl_strict r")
  case True
  then show ?thesis using assms by (auto simp: persist_def same_frame_def)
next
  case ns: False
  show ?thesis
  proof (cases "validateEntryShape parses e = Inr []")
    case False
    then obtain err where "r' = latch err r" "res = Inl err"
      using assms ns by (auto simp: persist_def split: sum.splits list.splits)
    then show ?thesis using ns by (simp add: same_frame_def)
  next
    case True
    obtain s pres where p: "put (rl_runId r) e (rl_store r) = (s, pres)" by (cases "put (rl_runId r) e (rl_store r)")
    show ?thesis
    proof (cases pres)
      case (Inl err)
      then have "r' = latch err (r\<lparr> rl_store := s \<rparr>)" "res = Inl err" using assms ns True p by (simp_all add: persist_def)
      then show ?thesis using ns p Inl by (simp add: same_frame_def)
    next
      case (Inr u)
      then show ?thesis using assms ns True p
        by (auto simp: persist_def Let_def same_frame_def valid_shape_def split: if_splits)
    qed
  qed
qed

lemma persist_cases:
  assumes "persist put parses e r = (r', res)"
  obtains (lost) err where "res = Inl err" "rl_entries r' = rl_entries r" "same_frame r r'"
      "rl_store r' = rl_store r \<or> put (rl_runId r) e (rl_store r) = (rl_store r', Inl err)"
  | (written) "res = Inr e" "same_frame r r'" "\<not> rl_strict r" "valid_shape parses e" "rl_entries r' = rl_entries r @ [e]"
      "put (rl_runId r) e (rl_store r) = (rl_store r', Inr ())"
  using persist_disj [OF assms] by blast

section \<open>The invariant of the write path\<close>

text \<open>An entry that opens an operation of the current profile, and the identity it occupies.\<close>

definition op_entry :: "journal_entry \<Rightarrow> bool" where
  "op_entry e \<longleftrightarrow> je_ref e = None \<and> je_kind e \<noteq> K_resolution \<and> je_kind e \<noteq> K_abandon
     \<and> je_hashVersion e = CURRENT_HASH_VERSION"

definition identity_of :: "journal_entry \<Rightarrow> string \<times> string \<times> nat" where
  "identity_of e = (je_scope e, je_key e, je_ordinal e)"

definition op_identities :: "journal_entry list \<Rightarrow> (string \<times> string \<times> nat) list" where
  "op_identities es = map identity_of (filter op_entry es)"

definition entry_ordinal_key :: "journal_entry \<Rightarrow> string" where
  "entry_ordinal_key e = ordinalMapKey (je_scope e) CURRENT_HASH_VERSION (je_key e)"

definition counters_ok :: "'s replayer \<Rightarrow> bool" where
  "counters_ok r \<longleftrightarrow>
     (\<forall>e\<in>set (rl_entries r). je_seq e < rl_seq r
        \<and> (op_entry e \<longrightarrow> je_ordinal e < next_ordinal (rl_ordinals r) (entry_ordinal_key e)))"

definition replayer_inv :: "(string \<Rightarrow> 's \<Rightarrow> journal_entry list) \<Rightarrow> 's replayer \<Rightarrow> bool" where
  "replayer_inv loads r \<longleftrightarrow>
     loads (rl_runId r) (rl_store r) = rl_entries r
     \<and> seqs_increasing (rl_entries r) \<and> distinct (op_identities (rl_entries r)) \<and> counters_ok r"

text \<open>An entry that can be added to the state it was minted in.\<close>

definition ready :: "'s replayer \<Rightarrow> journal_entry \<Rightarrow> bool" where
  "ready r e \<longleftrightarrow>
     (\<forall>x\<in>set (rl_entries r). je_seq x < je_seq e) \<and> je_seq e < rl_seq r
     \<and> (op_entry e \<longrightarrow> je_ordinal e < next_ordinal (rl_ordinals r) (entry_ordinal_key e)
          \<and> identity_of e \<notin> set (op_identities (rl_entries r)))"

lemma op_identities_snoc:
  "op_identities (es @ [e]) = op_identities es @ (if op_entry e then [identity_of e] else [])"
  by (simp add: op_identities_def)

lemma counters_frame:
  assumes "same_frame r r'" "rl_entries r' = rl_entries r" "counters_ok r"
  shows "counters_ok r'"
  using assms by (simp add: same_frame_def counters_ok_def)

lemma counters_snoc:
  "counters_ok r \<Longrightarrow> ready r e \<Longrightarrow> same_frame r r' \<Longrightarrow> rl_entries r' = rl_entries r @ [e] \<Longrightarrow> counters_ok r'"
  by (auto simp: counters_ok_def ready_def same_frame_def)

lemma mint_ready:
  assumes "mint now scope key kind status r = (e, r1)" "counters_ok r"
  shows "ready r1 e" "counters_ok r1" "rl_entries r1 = rl_entries r" "rl_store r1 = rl_store r"
    "rl_runId r1 = rl_runId r" "rl_strict r1 = rl_strict r" "rl_appendFailure r1 = rl_appendFailure r" "rl_sealed r1 = rl_sealed r"
proof -
  let ?k = "ordinalMapKey scope CURRENT_HASH_VERSION key"
  let ?n = "next_ordinal (rl_ordinals r) ?k"
  have e: "e = bare_entry CURRENT_HASH_VERSION (rl_seq r) scope key ?n kind status now"
    and r1: "r1 = r\<lparr> rl_ordinals := jm_set ?k (?n + 1) (rl_ordinals r), rl_seq := rl_seq r + 1 \<rparr>"
    using assms(1) by (simp_all add: mint_def Let_def)
  have set: "next_ordinal (rl_ordinals r1) k = (if k = ?k then ?n + 1 else next_ordinal (rl_ordinals r) k)" for k
    by (simp add: r1 next_ordinal_def jm_get_set)
  have ek: "entry_ordinal_key e = ?k" by (simp add: e entry_ordinal_key_def)
  have "identity_of x \<noteq> identity_of e" if x: "x \<in> set (rl_entries r)" "op_entry x" for x
  proof
    assume "identity_of x = identity_of e"
    then have "entry_ordinal_key x = ?k" "je_ordinal x = ?n" by (simp_all add: identity_of_def entry_ordinal_key_def e)
    moreover have "je_ordinal x < next_ordinal (rl_ordinals r) (entry_ordinal_key x)"
      using assms(2) x by (simp add: counters_ok_def)
    ultimately show False by simp
  qed
  then have "identity_of e \<notin> set (op_identities (rl_entries r))" by (force simp: op_identities_def)
  moreover have "\<forall>x\<in>set (rl_entries r). je_seq x < je_seq e" using assms(2) by (simp add: counters_ok_def e)
  ultimately show "ready r1 e" by (simp add: ready_def ek set) (simp add: r1 e)
  show "counters_ok r1"
    using assms(2) unfolding counters_ok_def by (auto simp: set) (auto simp: r1 less_SucI)
  show "rl_entries r1 = rl_entries r" "rl_store r1 = rl_store r" "rl_runId r1 = rl_runId r"
    "rl_strict r1 = rl_strict r" "rl_appendFailure r1 = rl_appendFailure r" "rl_sealed r1 = rl_sealed r"
    by (simp_all add: r1)
qed

lemma ready_cong:
  assumes "ready r e" "je_seq e' = je_seq e" "identity_of e' = identity_of e" "op_entry e' \<longrightarrow> op_entry e"
  shows "ready r e'"
  using assms by (simp add: ready_def entry_ordinal_key_def identity_of_def)

lemma ready_ref:
  assumes "counters_ok r" "je_ref e = Some n" "je_seq e = rl_seq r"
  shows "ready (r\<lparr> rl_seq := rl_seq r + 1 \<rparr>) e"
  using assms by (simp add: ready_def counters_ok_def op_entry_def)

lemma counters_bump: "counters_ok r \<Longrightarrow> counters_ok (r\<lparr> rl_seq := rl_seq r + 1 \<rparr>)"
  by (auto simp: counters_ok_def)


text \<open>
  One relation covers every step: what it keeps of the identity of the replayer, how it grows the
  journal, and what it does to the latch.
\<close>

definition grows :: "(string \<Rightarrow> bool) \<Rightarrow> 's replayer \<Rightarrow> 's replayer \<Rightarrow> bool" where
  "grows parses r r' \<longleftrightarrow>
     rl_runId r' = rl_runId r \<and> rl_strict r' = rl_strict r \<and> (rl_sealed r \<longrightarrow> rl_sealed r')
     \<and> (rl_strict r \<longrightarrow> rl_store r' = rl_store r \<and> rl_entries r' = rl_entries r)
     \<and> (\<exists>es. rl_entries r' = rl_entries r @ es \<and> list_all (valid_shape parses) es)
     \<and> (rl_appendFailure r \<noteq> None \<longrightarrow> rl_appendFailure r' = rl_appendFailure r)"

lemma grows_refl: "grows parses r r"
  by (simp add: grows_def)

lemma grows_trans: "grows parses r r1 \<Longrightarrow> grows parses r1 r2 \<Longrightarrow> grows parses r r2"
  unfolding grows_def by (elim conjE exE, intro conjI) auto

lemma persist_grows:
  assumes "persist put parses e r = (r', res)"
  shows "grows parses r r'"
  using persist_disj [OF assms] unfolding grows_def same_frame_def
  by (elim conjE disjE exE) (auto split: if_splits option.splits)

lemma mint_grows:
  assumes "mint now scope key kind status r = (e, r1)"
  shows "grows parses r r1"
  using assms by (auto simp: mint_def Let_def grows_def)

context journal_store
begin

lemma persist_inv:
  assumes "persist append parses e r = (r', res)" "ready r e" "replayer_inv load r"
  shows "replayer_inv load r'"
  using assms(1)
proof (cases rule: persist_cases)
  case (lost err)
  then have "load (rl_runId r') (rl_store r') = load (rl_runId r) (rl_store r)"
    using append_rejected by (auto simp: same_frame_def)
  then show ?thesis using assms(3) lost(2) counters_frame [OF lost(3,2)] by (simp add: replayer_inv_def)
next
  case written
  have "load (rl_runId r') (rl_store r') = rl_entries r'"
    using append_ok [OF written(6)] written(2,5) assms(3) by (simp add: same_frame_def replayer_inv_def)
  moreover have "seqs_increasing (rl_entries r')" using assms(2,3) written(5)
    by (simp add: seqs_increasing_snoc ready_def replayer_inv_def)
  moreover have "distinct (op_identities (rl_entries r'))"
    using assms(2,3) written(5) by (simp add: op_identities_snoc ready_def replayer_inv_def)
  moreover have "counters_ok r'"
    using counters_snoc [OF _ assms(2) written(2,5)] assms(3) by (simp add: replayer_inv_def)
  ultimately show ?thesis by (simp add: replayer_inv_def)
qed

lemma inv_after_mint:
  assumes "mint now scope key kind status r = (e, r1)" "replayer_inv load r"
  shows "replayer_inv load r1" "ready r1 e"
  using mint_ready [OF assms(1)] assms(2) by (simp_all add: replayer_inv_def)

lemma minted_persist_inv:
  assumes m: "mint now scope key kind status r = (e, r1)" and inv: "replayer_inv load r"
    and e': "je_seq e' = je_seq e" "identity_of e' = identity_of e" "op_entry e' \<longrightarrow> op_entry e"
    and p: "persist append parses e' r1 = (r', res)"
  shows "replayer_inv load r'"
  using persist_inv [OF p ready_cong [OF inv_after_mint(2) [OF m inv] e'] inv_after_mint(1) [OF m inv]] .

lemma inv_bump: "replayer_inv load r \<Longrightarrow> replayer_inv load (r\<lparr> rl_seq := rl_seq r + 1 \<rparr>)"
  by (simp add: replayer_inv_def counters_bump [simplified])

lemma appendSinglePhase_inv:
  assumes "appendSinglePhase append parses now input u sb r = (r', res)" "replayer_inv load r"
  shows "replayer_inv load r'"
proof -
  obtain e r1 where m: "mint now (ba_scope input) (ba_key input) (ba_kind input) S_ok r = (e, r1)"
    by (cases "mint now (ba_scope input) (ba_key input) (ba_kind input) S_ok r")
  show ?thesis
  proof (cases "r' = r")
    case False
    then obtain jv where "persist append parses (e\<lparr> je_value := jv, je_usage := u, je_servedBy := sb,
                je_spanId := ba_spanId input, je_endedAt := Some (je_startedAt e) \<rparr>) r1 = (r', res)"
      using assms(1) m by (auto simp: appendSinglePhase_def guarded_def split: if_splits sum.splits)
    then show ?thesis by (rule minted_persist_inv [OF m assms(2), rotated 3]) (simp_all add: identity_of_def op_entry_def)
  qed (use assms(2) in simp)
qed

lemma appendRunning_inv:
  assumes "appendRunning append parses now input memo r = (r', res)" "replayer_inv load r"
  shows "replayer_inv load r'"
proof -
  obtain e r1 where m: "mint now (ba_scope input) (ba_key input) (ba_kind input) S_running r = (e, r1)"
    by (cases "mint now (ba_scope input) (ba_key input) (ba_kind input) S_running r")
  show ?thesis
  proof (cases "r' = r")
    case False
    then obtain jv where "persist append parses
        (e\<lparr> je_spanId := ba_spanId input, je_value := jv, je_memoizeOutcome := memo \<rparr>) r1 = (r', res)"
      using assms(1) m by (auto simp: appendRunning_def guarded_def split: if_splits sum.splits)
    then show ?thesis by (rule minted_persist_inv [OF m assms(2), rotated 3]) (simp_all add: identity_of_def op_entry_def)
  qed (use assms(2) in simp)
qed

lemma appendSuspended_inv:
  assumes "appendSuspended append parses now input dl r = (r', res)" "replayer_inv load r"
  shows "replayer_inv load r'"
proof -
  obtain e r1 where m: "mint now (ba_scope input) (ba_key input) (ba_kind input) S_suspended r = (e, r1)"
    by (cases "mint now (ba_scope input) (ba_key input) (ba_kind input) S_suspended r")
  show ?thesis
  proof (cases "r' = r")
    case False
    then obtain jv where "persist append parses
        (e\<lparr> je_spanId := ba_spanId input, je_value := jv, je_deadlineAt := dl \<rparr>) r1 = (r', res)"
      using assms(1) m by (auto simp: appendSuspended_def guarded_def split: if_splits sum.splits)
    then show ?thesis by (rule minted_persist_inv [OF m assms(2), rotated 3]) (simp_all add: identity_of_def op_entry_def)
  qed (use assms(2) in simp)
qed

lemma appendTerminal_inv:
  assumes "appendTerminal append parses now sq patch r = (r', res)" "replayer_inv load r"
  shows "replayer_inv load r'"
proof -
  let ?r1 = "r\<lparr> rl_seq := rl_seq r + 1 \<rparr>"
  consider "r' = r" | "r' = ?r1"
    | running jv a x where "persist append parses
        ((terminal_entry now (rl_seq r) running patch jv)\<lparr> je_artifacts := a, je_escalation := x \<rparr>) ?r1 = (r', res)"
    using assms(1) by (auto simp: appendTerminal_def guarded_def Let_def split: if_splits sum.splits option.splits)
  then show ?thesis
  proof cases
    case (3 running jv a x)
    have "counters_ok r" using assms(2) by (simp add: replayer_inv_def)
    then have "ready ?r1 ((terminal_entry now (rl_seq r) running patch jv)\<lparr> je_artifacts := a, je_escalation := x \<rparr>)"
      by (rule ready_ref [where n = "je_seq running"]) (simp_all add: terminal_entry_def)
    with 3 show ?thesis using persist_inv inv_bump [OF assms(2)] by blast
  qed (use assms(2) inv_bump in simp_all)
qed

lemma appendRefEntry_inv:
  assumes "appendRefEntry append parses now kind ref scope spanId res abn r = (r', out)" "replayer_inv load r"
  shows "replayer_inv load r'"
  using assms persist_inv [OF _ ready_ref inv_bump]
  by (simp add: appendRefEntry_def replayer_inv_def)

lemma inv_fold [simp]: "replayer_inv load (r\<lparr> rl_fold := fd \<rparr>) = replayer_inv load r"
  by (simp add: replayer_inv_def counters_ok_def)

lemma register_outcome_inv:
  "register_outcome validate e t fb r = (r', out) \<Longrightarrow> replayer_inv load r \<Longrightarrow> replayer_inv load r'"
  by (auto simp: register_outcome_def split: prod.splits)

lemma resolve_inv:
  assumes "resolveSuspended append parses validate now sq ra r = (r', out)" "replayer_inv load r"
  shows "replayer_inv load r'"
  using assms appendRefEntry_inv register_outcome_inv
  by (auto simp: resolveSuspended_def submitResolution_def Let_def split: option.splits if_splits prod.splits sum.splits)

lemma abandon_inv:
  assumes "abandonBranch append parses validate now aa r = (r', out)" "replayer_inv load r"
  shows "replayer_inv load r'"
  using assms appendRefEntry_inv register_outcome_inv
  by (auto simp: abandonBranch_def submitAbandon_def Let_def split: option.splits if_splits prod.splits sum.splits)

lemma replayer_step_inv:
  "replayer_step append parses validate r r' \<Longrightarrow> replayer_inv load r \<Longrightarrow> replayer_inv load r'"
proof (induction rule: replayer_step.induct)
  case (step_match scope identity mode r r' m)
  then show ?case by (auto simp: replayer_match_def replayer_inv_def counters_ok_def split: prod.splits)
next
  case (step_invalidate r n)
  then show ?case by (simp add: invalidate_def replayer_inv_def counters_ok_def)
next
  case (step_seal r)
  then show ?case by (simp add: seal_def replayer_inv_def counters_ok_def)
qed (erule (1) appendSinglePhase_inv appendRunning_inv appendSuspended_inv appendTerminal_inv resolve_inv abandon_inv)+

lemma replayer_reaches_inv:
  "replayer_reaches append parses validate r r' \<Longrightarrow> replayer_inv load r \<Longrightarrow> replayer_inv load r'"
  by (induction rule: replayer_reaches.induct) (auto intro: replayer_step_inv)

end


section \<open>How steps grow the journal\<close>

lemma guarded_cases:
  assumes "guarded v section r = (r', res)"
  obtains (refused) err where "r' = r" "res = Inl err" "rl_sealed r \<longrightarrow> err = JournalSealedError"
  | (entered) j where "\<not> rl_sealed r" "section j = (r', res)"
  using assms by (auto simp: guarded_def split: if_splits sum.splits)

text \<open>A lane mints, or takes the next position, and then persists.\<close>

definition staged :: "'s replayer \<Rightarrow> 's replayer \<Rightarrow> bool" where
  "staged r r1 \<longleftrightarrow> rl_runId r1 = rl_runId r \<and> rl_store r1 = rl_store r \<and> rl_entries r1 = rl_entries r
     \<and> rl_strict r1 = rl_strict r \<and> rl_appendFailure r1 = rl_appendFailure r \<and> rl_sealed r1 = rl_sealed r"

lemma staged_bump [simp]: "staged r (r\<lparr> rl_seq := n \<rparr>)"
  by (simp add: staged_def)

lemma staged_mint: "mint now scope key kind status r = (e, r1) \<Longrightarrow> staged r r1"
  by (auto simp: mint_def Let_def staged_def)

text \<open>
  The outcome of one lane: refused with nothing touched, refused after taking a position because a
  late payload does not serialize, or persisted from a staged state.
\<close>

definition lane :: "'s store_append \<Rightarrow> (string \<Rightarrow> bool) \<Rightarrow> 's replayer \<Rightarrow> 's replayer \<Rightarrow> journal_entry result \<Rightarrow> bool" where
  "lane put parses r r' res \<longleftrightarrow>
     (r' = r \<and> isl res)
     \<or> (\<not> rl_sealed r \<and> staged r r' \<and> res = Inl NonSerializableValueError)
     \<or> (\<not> rl_sealed r \<and> (\<exists>e r1. staged r r1 \<and> persist put parses e r1 = (r', res)))"

lemma journal_value_error: "journal_value v = Inl err \<Longrightarrow> err = NonSerializableValueError"
  by (auto simp: journal_value_def toJournalValue_def result_simps bindR_def split: option.splits sum.splits if_splits)

lemma lane_minted:
  assumes "guarded v (\<lambda>j. let (e, r1) = mint now scope key kind status r in persist put parses (f j e) r1) r = (r', res)"
  shows "lane put parses r r' res"
  using assms
proof (cases rule: guarded_cases)
  case (refused err)
  then show ?thesis by (simp add: lane_def)
next
  case (entered j)
  obtain e r1 where m: "mint now scope key kind status r = (e, r1)" by (cases "mint now scope key kind status r")
  then have "persist put parses (f j e) r1 = (r', res)" using entered(2) by simp
  then show ?thesis using staged_mint [OF m] entered(1) unfolding lane_def by blast
qed

lemma lane_single: "appendSinglePhase put parses now input u sb r = (r', res) \<Longrightarrow> lane put parses r r' res"
  unfolding appendSinglePhase_def by (rule lane_minted)

lemma lane_running: "appendRunning put parses now input memo r = (r', res) \<Longrightarrow> lane put parses r r' res"
  unfolding appendRunning_def by (rule lane_minted)

lemma lane_suspended: "appendSuspended put parses now input dl r = (r', res) \<Longrightarrow> lane put parses r r' res"
  unfolding appendSuspended_def by (rule lane_minted)

lemma lane_terminal:
  assumes "appendTerminal put parses now sq patch r = (r', res)"
  shows "lane put parses r r' res"
  using assms unfolding appendTerminal_def
proof (cases rule: guarded_cases)
  case (refused err)
  then show ?thesis by (simp add: lane_def)
next
  case (entered j)
  show ?thesis
  proof (cases "List.find (\<lambda>e. je_seq e = sq) (rl_entries r)")
    case None
    then show ?thesis using entered by (auto simp: lane_def)
  next
    case (Some running)
    show ?thesis
    proof (cases "je_status running = S_running")
      case False
      then show ?thesis using entered Some by (auto simp: lane_def)
    next
      case True
      consider (a) err where "journal_value (tp_artifacts patch) = Inl err"
        | (x) a err where "journal_value (tp_artifacts patch) = Inr a" "journal_value (tp_escalation patch) = Inl err"
        | (ok) a x where "journal_value (tp_artifacts patch) = Inr a" "journal_value (tp_escalation patch) = Inr x"
        by (cases "journal_value (tp_artifacts patch)"; cases "journal_value (tp_escalation patch)") auto
      then show ?thesis
      proof cases
        case a
        then show ?thesis using entered Some True journal_value_error [OF a] by (auto simp: lane_def Let_def)
      next
        case x
        then show ?thesis using entered Some True journal_value_error [OF x(2)] by (auto simp: lane_def Let_def)
      next
        case ok
        then have "persist put parses ((terminal_entry now (rl_seq r) running patch j)\<lparr> je_artifacts := a, je_escalation := x \<rparr>)
            (r\<lparr> rl_seq := rl_seq r + 1 \<rparr>) = (r', res)"
          using entered(2) Some True by (simp add: Let_def)
        then show ?thesis using entered(1) staged_bump unfolding lane_def by blast
      qed
    qed
  qed
qed

lemma staged_grows: "staged r r1 \<Longrightarrow> grows parses r r1"
  by (simp add: staged_def grows_def)

lemma lane_grows:
  assumes "lane put parses r r' res"
  shows "grows parses r r'"
proof -
  consider "r' = r" | "staged r r'" | e r1 where "staged r r1" "persist put parses e r1 = (r', res)"
    using assms by (auto simp: lane_def)
  then show ?thesis
    by cases (blast intro: grows_refl staged_grows grows_trans persist_grows | simp add: grows_refl)+
qed

lemma appendRefEntry_grows:
  assumes "appendRefEntry put parses now kind ref scope spanId rs abn r = (r', res)"
  shows "grows parses r r'"
  using assms persist_grows staged_grows [OF staged_bump] grows_trans unfolding appendRefEntry_def by blast

text \<open>Both submissions append one ref-entry and then update only the fold.\<close>

definition via_ref :: "'s store_append \<Rightarrow> (string \<Rightarrow> bool) \<Rightarrow> 's replayer \<Rightarrow> 's replayer \<Rightarrow> bool" where
  "via_ref put parses r r' \<longleftrightarrow> r' = r \<or>
     (\<exists>now kind ref scope spanId rs abn r1 res fd. (kind = K_resolution \<or> kind = K_abandon)
        \<and> appendRefEntry put parses now kind ref scope spanId rs abn r = (r1, res) \<and> r' = r1\<lparr> rl_fold := fd \<rparr>)"

lemma via_refI:
  assumes "appendRefEntry put parses now kind ref scope spanId rs abn r = (r1, res)"
    and "kind = K_resolution \<or> kind = K_abandon" "r' = r1\<lparr> rl_fold := fd \<rparr>"
  shows "via_ref put parses r r'"
  using assms unfolding via_ref_def by blast

lemma submitResolution_via:
  assumes "submitResolution put parses validate now t scope spanId ra r = (r', out)"
  shows "via_ref put parses r r'"
proof -
  let ?p = "\<lparr> rp_target = t, rp_by = rat_by ra, rp_value = rat_value ra,
            rp_decisionRef = rat_decisionRef ra, rp_logicalTaskId = None, rp_countsAgainstLimit = None \<rparr>"
  obtain r1 res where a: "appendRefEntry put parses now K_resolution t scope spanId (Some ?p) None r = (r1, res)"
    by (cases "appendRefEntry put parses now K_resolution t scope spanId (Some ?p) None r")
  have "\<exists>fd. r' = r1\<lparr> rl_fold := fd \<rparr>"
    using assms a by (cases res) (auto simp: submitResolution_def register_outcome_def intro: exI [of _ "rl_fold r1"] split: prod.splits)
  then show ?thesis using via_refI [OF a] by blast
qed

lemma submitAbandon_via:
  assumes "submitAbandon put parses validate now scope spanId aa r = (r', out)"
  shows "via_ref put parses r r'"
proof -
  let ?p = "\<lparr> ap_target = aat_target aa, ap_authorizedBy = aat_authorizedBy aa,
            ap_nodeId = aat_nodeId aa, ap_logicalTaskId = aat_logicalTaskId aa, ap_reason = aat_reason aa,
            ap_retainCheckpoint = Some (case aat_retainCheckpoint aa of Some b \<Rightarrow> b | None \<Rightarrow> True),
            ap_retainWorktree = Some (case aat_retainWorktree aa of Some b \<Rightarrow> b | None \<Rightarrow> False) \<rparr>"
  obtain r1 res where a: "appendRefEntry put parses now K_abandon (aat_target aa) scope spanId None (Some ?p) r = (r1, res)"
    by (cases "appendRefEntry put parses now K_abandon (aat_target aa) scope spanId None (Some ?p) r")
  have "\<exists>fd. r' = r1\<lparr> rl_fold := fd \<rparr>"
    using assms a by (cases res) (auto simp: submitAbandon_def register_outcome_def intro: exI [of _ "rl_fold r1"] split: prod.splits)
  then show ?thesis using via_refI [OF a] by blast
qed

lemma resolve_via:
  assumes "resolveSuspended put parses validate now sq ra r = (r', out)"
  shows "via_ref put parses r r'"
proof (cases "List.find (\<lambda>e. je_seq e = sq) (rl_entries r)")
  case None
  then show ?thesis using assms by (simp add: resolveSuspended_def via_ref_def)
next
  case (Some t)
  show ?thesis
  proof (cases "je_status t = S_suspended")
    case True
    then have "submitResolution put parses validate now sq (je_scope t) (je_spanId t) ra r = (r', out)"
      using assms Some by (simp add: resolveSuspended_def)
    then show ?thesis by (rule submitResolution_via)
  next
    case False
    then show ?thesis using assms Some by (simp add: resolveSuspended_def via_ref_def)
  qed
qed

lemma abandon_via:
  assumes "abandonBranch put parses validate now aa r = (r', out)"
  shows "via_ref put parses r r'"
proof (cases "List.find (\<lambda>e. je_seq e = aat_target aa) (rl_entries r)")
  case None
  then show ?thesis using assms by (simp add: abandonBranch_def via_ref_def)
next
  case (Some t)
  then show ?thesis using assms submitAbandon_via by (simp add: abandonBranch_def)
qed

lemma via_ref_grows:
  assumes "via_ref put parses r r'"
  shows "grows parses r r'"
proof -
  have fold: "grows parses r1 (r1\<lparr> rl_fold := fd \<rparr>)" for r1 :: "'a replayer" and fd by (simp add: grows_def)
  consider "r' = r" | now kind ref scope spanId rs abn r1 res fd where
    "appendRefEntry put parses now kind ref scope spanId rs abn r = (r1, res)" "r' = r1\<lparr> rl_fold := fd \<rparr>"
    using assms unfolding via_ref_def by blast
  then show ?thesis
  proof cases
    case 2
    then show ?thesis using grows_trans [OF appendRefEntry_grows fold] by blast
  qed (simp add: grows_refl)
qed

text \<open>Every step is a lane, a submission, or touches neither the store nor the latch.\<close>

lemma step_forms:
  assumes "replayer_step put parses validate r r'"
  shows "(\<exists>res. lane put parses r r' res) \<or> via_ref put parses r r' \<or>
    (rl_runId r' = rl_runId r \<and> rl_store r' = rl_store r \<and> rl_entries r' = rl_entries r \<and> rl_strict r' = rl_strict r
      \<and> rl_appendFailure r' = rl_appendFailure r \<and> (rl_sealed r \<longrightarrow> rl_sealed r'))"
  using assms
proof cases
  case step_match
  then show ?thesis by (auto simp: replayer_match_def split: prod.splits)
qed (auto dest: lane_single lane_running lane_suspended lane_terminal resolve_via abandon_via
    simp: invalidate_def seal_def)

lemma step_grows:
  assumes "replayer_step put parses validate r r'"
  shows "grows parses r r'"
  using step_forms [OF assms]
proof (elim disjE exE)
  fix res assume "lane put parses r r' res"
  then show ?thesis by (rule lane_grows)
next
  assume "via_ref put parses r r'"
  then show ?thesis by (rule via_ref_grows)
qed (simp add: grows_def)

lemma reaches_grows: "replayer_reaches put parses validate r r' \<Longrightarrow> grows parses r r'"
  by (induction rule: replayer_reaches.induct) (blast intro: grows_refl grows_trans step_grows)+


section \<open>The initial state\<close>

lemma seed_prior_sel [simp]:
  "rl_entries (seed_prior r e) = rl_entries r @ [e]" "rl_store (seed_prior r e) = rl_store r"
  "rl_runId (seed_prior r e) = rl_runId r" "rl_strict (seed_prior r e) = rl_strict r"
  "rl_appendFailure (seed_prior r e) = rl_appendFailure r" "rl_sealed (seed_prior r e) = rl_sealed r"
  "rl_seq (seed_prior r e) = (if je_seq e \<ge> rl_seq r then je_seq e + 1 else rl_seq r)"
  by (simp_all add: seed_prior_def Let_def)

lemma seed_prior_ordinals:
  "next_ordinal (rl_ordinals (seed_prior r e)) k =
    (if op_entry e \<and> k = entry_ordinal_key e then max (je_ordinal e + 1) (next_ordinal (rl_ordinals r) k)
     else next_ordinal (rl_ordinals r) k)"
  by (auto simp: seed_prior_def op_entry_def entry_ordinal_key_def Let_def next_ordinal_def jm_get_set)

lemma seed_prior_counters:
  assumes "counters_ok r"
  shows "counters_ok (seed_prior r e)"
  unfolding counters_ok_def
proof (intro ballI conjI impI)
  fix x assume x: "x \<in> set (rl_entries (seed_prior r e))"
  show "je_seq x < rl_seq (seed_prior r e)" using x assms by (auto simp: counters_ok_def)
  assume op: "op_entry x"
  have "x = e \<or> je_ordinal x < next_ordinal (rl_ordinals r) (entry_ordinal_key x)"
    using x op assms by (auto simp: counters_ok_def)
  then show "je_ordinal x < next_ordinal (rl_ordinals (seed_prior r e)) (entry_ordinal_key x)"
    using op by (auto simp: seed_prior_ordinals less_max_iff_disj)
qed

lemma seed_priors:
  "counters_ok r \<Longrightarrow> counters_ok (foldl seed_prior r es) \<and> rl_entries (foldl seed_prior r es) = rl_entries r @ es
     \<and> rl_store (foldl seed_prior r es) = rl_store r \<and> rl_runId (foldl seed_prior r es) = rl_runId r
     \<and> rl_strict (foldl seed_prior r es) = rl_strict r \<and> rl_appendFailure (foldl seed_prior r es) = rl_appendFailure r
     \<and> rl_sealed (foldl seed_prior r es) = rl_sealed r"
  by (induction es arbitrary: r) (simp_all add: seed_prior_counters)

lemma new_replayer_state:
  assumes "new_replayer validate runId store ring disp strict priors = Inr r"
  shows "counters_ok r \<and> rl_entries r = priors \<and> rl_store r = store \<and> rl_runId r = runId
    \<and> rl_strict r = strict \<and> rl_appendFailure r = None \<and> \<not> rl_sealed r"
proof -
  obtain fd where r: "r = foldl seed_prior
         \<lparr> rl_runId = runId, rl_store = store, rl_entries = [], rl_ordinals = [],
           rl_matcher = new_matcher ring disp priors, rl_fold = fd, rl_strict = strict,
           rl_invalidated = [], rl_appendFailure = None, rl_sealed = False, rl_seq = 0 \<rparr> priors"
    using assms by (auto simp: new_replayer_def result_simps)
  show ?thesis unfolding r by (subst seed_priors; simp add: counters_ok_def)+
qed

section \<open>Properties\<close>

text \<open>
  C2. The write path keeps the journal's laws over the in-memory store: from a journal with
  increasing positions and unique identities, whatever a segment appends, resolves, abandons,
  matches or seals, the store holds exactly what the replayer believes it holds, positions stay
  strictly increasing, no two operations of the current profile share scope, key and ordinal, and
  what was added passed the shape gate and comes after the loaded journal.
\<close>

theorem write_path_invariant:
  assumes "im_load runId store = priors" "seqs_increasing priors" "distinct (op_identities priors)"
    and "new_replayer validate runId store ring disp strict priors = Inr r0"
    and "replayer_reaches im_append parses validate r0 r"
  shows "im_load runId (rl_store r) = rl_entries r \<and> seqs_increasing (rl_entries r)
    \<and> distinct (op_identities (rl_entries r))
    \<and> (\<exists>added. rl_entries r = priors @ added \<and> list_all (valid_shape parses) added)"
proof -
  note r0 = new_replayer_state [OF assms(4)]
  then have "replayer_inv im_load r0" using assms(1-3) by (simp add: replayer_inv_def)
  then have inv: "replayer_inv im_load r" using im.replayer_reaches_inv [OF assms(5)] by blast
  have g: "grows parses r0 r" by (rule reaches_grows [OF assms(5)])
  then have "rl_runId r = runId" using r0 by (simp add: grows_def)
  with inv g r0 show ?thesis by (simp add: replayer_inv_def grows_def)
qed

definition fresh_replayer :: "bool \<Rightarrow> inmemory_store replayer result" where
  "fresh_replayer strict = new_replayer (\<lambda>_ _. Inr None) ''run'' (new_inmemory_store True)
     (\<lambda>_ _. None) roundOneDisposition strict []"

definition example_append :: base_append where
  "example_append = \<lparr> ba_scope = '''', ba_key = ''k'', ba_kind = K_step, ba_spanId = ''s'', ba_value = None \<rparr>"

lemma fresh_replayer_ok: "\<exists>r. fresh_replayer strict = Inr r"
  by (simp add: fresh_replayer_def new_replayer_def new_fold_def result_simps)

theorem write_path_invariant_witness:
  "\<exists>r0. fresh_replayer False = Inr r0 \<and>
     (let r = fst (appendRunning im_append (\<lambda>_. True) ''t'' example_append None r0)
      in im_load ''run'' (rl_store r) = rl_entries r)"
proof -
  obtain r0 where r0: "fresh_replayer False = Inr r0" using fresh_replayer_ok by blast
  obtain r res where r: "appendRunning im_append (\<lambda>_. True) ''t'' example_append None r0 = (r, res)"
    by (cases "appendRunning im_append (\<lambda>_. True) ''t'' example_append None r0")
  have "replayer_reaches im_append (\<lambda>_. True) (\<lambda>_ _. Inr None) r0 r"
    using reaches_step [OF reaches_refl step_running [OF r]] .
  moreover have "im_load ''run'' (new_inmemory_store True) = []"
    by (simp add: im_load_def run_entries_def new_inmemory_store_def)
  ultimately have "im_load ''run'' (rl_store r) = rl_entries r"
    using write_path_invariant [OF _ _ _ r0 [unfolded fresh_replayer_def]]
    by (auto simp: seqs_increasing_def op_identities_def)
  with r0 r show ?thesis by simp
qed

text \<open>
  Replay-strict is a preview: over any store and from any state, a strict replayer never
  changes the store nor its journal, every append is refused, and no refusal is taken for a lost
  append.
\<close>

lemma strict_never_mutates:
  assumes "rl_strict r0" "replayer_reaches put parses validate r0 r"
  shows "rl_store r = rl_store r0 \<and> rl_entries r = rl_entries r0
    \<and> isl (snd (persist put parses e r)) \<and> fst (persist put parses e r) = r"
  using reaches_grows [OF assms(2)] assms(1) by (simp add: grows_def persist_def)

lemma persist_latches:
  assumes "persist put parses e r = (r', res)" "\<not> rl_strict r" "flush r' = Inr ()"
  shows "res = Inr e \<and> rl_entries r' = rl_entries r @ [e] \<and> put (rl_runId r) e (rl_store r) = (rl_store r', Inr ())"
  using persist_disj [OF assms(1)] assms(2,3)
  by (auto simp: flush_def split: option.splits)




lemma appendRefEntry_entries:
  assumes "appendRefEntry put parses now kind ref scope spanId rs abn r = (r1, res)" "kind = K_resolution \<or> kind = K_abandon"
  shows "\<exists>es. rl_entries r1 = rl_entries r @ es \<and> list_all is_ref_entry es"
proof -
  let ?e = "(bare_entry CURRENT_HASH_VERSION (rl_seq r) scope '''' 0 kind S_ok now)
          \<lparr> je_ref := Some ref, je_spanId := spanId, je_resolution := rs, je_abandon := abn \<rparr>"
  have "is_ref_entry ?e" using assms(2) by (auto simp: is_ref_entry_iff)
  moreover have "persist put parses ?e (r\<lparr> rl_seq := rl_seq r + 1 \<rparr>) = (r1, res)"
    using assms(1) by (simp add: appendRefEntry_def)
  ultimately show ?thesis using persist_disj [of put parses ?e "r\<lparr> rl_seq := rl_seq r + 1 \<rparr>" r1 res] by auto
qed

lemma sealed_step:
  assumes "replayer_step put parses validate r r'" "rl_sealed r"
  shows "\<exists>es. rl_entries r' = rl_entries r @ es \<and> list_all is_ref_entry es"
  using step_forms [OF assms(1)]
proof (elim disjE exE)
  fix res assume "lane put parses r r' res"
  then show ?thesis using assms(2) by (auto simp: lane_def)
next
  assume "via_ref put parses r r'"
  then show ?thesis using appendRefEntry_entries unfolding via_ref_def by fastforce
qed auto

lemma sealed_reaches:
  assumes "replayer_reaches put parses validate r r'" "rl_sealed r"
  shows "\<exists>es. rl_entries r' = rl_entries r @ es \<and> list_all is_ref_entry es"
  using assms
proof (induction rule: replayer_reaches.induct)
  case (reaches_refl r)
  then show ?case by simp
next
  case (reaches_step r r1 r2)
  then obtain es where es: "rl_entries r1 = rl_entries r @ es" "list_all is_ref_entry es" by blast
  have "rl_sealed r1" using reaches_grows [OF reaches_step.hyps(1)] reaches_step.prems by (simp add: grows_def)
  with sealed_step [OF reaches_step.hyps(2)] obtain fs where "rl_entries r2 = rl_entries r1 @ fs" "list_all is_ref_entry fs" by blast
  with es show ?case by simp
qed



section \<open>The ledger fold\<close>

definition counted :: "(nat \<Rightarrow> bool) \<Rightarrow> journal_entry \<Rightarrow> bool" where
  "counted abandoned e \<longleftrightarrow> is_ref_entry e \<or> \<not> abandoned (case je_ref e of Some r \<Rightarrow> r | None \<Rightarrow> je_seq e)"

lemma ledger_step_skip: "\<not> counted abandoned e \<Longrightarrow> ledger_step abandoned price lg e = Inr lg"
  by (simp add: ledger_step_def counted_def)

lemma ledger_step_count: "counted abandoned e \<Longrightarrow> ledger_step abandoned price lg e = ledger_step (\<lambda>_. False) price lg e"
proof -
  assume "counted abandoned e"
  then have "(\<not> is_ref_entry e \<and> abandoned (case je_ref e of Some r \<Rightarrow> r | None \<Rightarrow> je_seq e)) = False"
    by (auto simp: counted_def)
  then show ?thesis unfolding ledger_step_def by (simp only: simp_thms if_False)
qed

lemma ledger_fold_filter:
  "foldR (ledger_step abandoned price) lg es = foldR (ledger_step (\<lambda>_. False) price) lg (filter (counted abandoned) es)"
proof (induction es arbitrary: lg)
  case (Cons e es)
  show ?case
  proof (cases "counted abandoned e")
    case True
    then show ?thesis by (simp add: ledger_step_count [OF True] Cons.IH)
  next
    case False
    then show ?thesis by (simp add: ledger_step_skip [OF False] Cons.IH)
  qed
qed simp

lemma ledger_usage:
  assumes "foldR (ledger_step (\<lambda>_. False) price) lg es = Inr lg'"
  shows "lg_usage lg' = foldl sumUsage (lg_usage lg)
      (List.map_filter (\<lambda>e. if je_status e = S_running then None else je_usage e) es)
    \<and> lg_agentsSpawned lg' = lg_agentsSpawned lg
        + length (filter (\<lambda>e. je_kind e = K_agent \<and> je_status e = S_running) es)"
  using assms
proof (induction es arbitrary: lg)
  case Nil
  then show ?case by (simp add: map_filter_simps)
next
  case (Cons e es)
  then obtain lg1 where s: "ledger_step (\<lambda>_. False) price lg e = Inr lg1" and rest: "foldR (ledger_step (\<lambda>_. False) price) lg1 es = Inr lg'"
    by (auto simp: result_simps)
  have "lg_usage lg1 = (case (if je_status e = S_running then None else je_usage e) of None \<Rightarrow> lg_usage lg | Some u \<Rightarrow> sumUsage (lg_usage lg) u)
      \<and> lg_agentsSpawned lg1 = lg_agentsSpawned lg + (if je_kind e = K_agent \<and> je_status e = S_running then 1 else 0)"
    using s by (auto simp: ledger_step_def Let_def result_simps split: if_splits option.splits)
  with Cons.IH [OF rest] show ?case by (auto simp: map_filter_simps split: option.splits)
qed

text \<open>
  The budget ledger counts every settled entry once and abandoned work never: the fold of a
  journal is the fold of its counted entries alone, its usage is the sum over the entries that are
  not running, and its agents are the dispatches of agents.
\<close>

lemma ledger_counts_once:
  assumes "foldLedger entries abandoned price = Inr lg"
  shows "foldLedger (filter (counted abandoned) entries) (\<lambda>_. False) price = Inr lg
    \<and> lg_usage lg = foldl sumUsage zeroUsage
        (List.map_filter (\<lambda>e. if je_status e = S_running then None else je_usage e) (filter (counted abandoned) entries))
    \<and> lg_agentsSpawned lg = length (filter (\<lambda>e. je_kind e = K_agent \<and> je_status e = S_running) (filter (counted abandoned) entries))"
proof -
  have f: "foldLedger (filter (counted abandoned) entries) (\<lambda>_. False) price = Inr lg"
    using assms ledger_fold_filter [of abandoned price _ entries] by (simp add: foldLedger_def)
  show ?thesis using f ledger_usage [OF f [unfolded foldLedger_def]] by simp
qed

end
