(* ===== verification/TerminationAccount.thy ===== *)
theory TerminationAccount
  imports Serializable Entries Jcs
begin

text \<open>
  The termination account and its replay fold, \<open>packages/core/src/journal/termination.ts\<close>. Counters
  are rationals: the code counts in numbers that are integers when the limits are the validated
  ones, and the fold reads ladder lengths from the journal without further checks. A writer of denied
  entries is known by a name; what it does to the world is a parameter.
\<close>

section \<open>Limits\<close>

record termination_limits =
  tl_maxRevisionsPerRun :: rat
  tl_maxTotalSpawns :: rat
  tl_maxEscalationsPerLogicalTask :: rat
  tl_maxDepth :: rat
  tl_kMax :: rat
  tl_runBudgetUsdCeiling :: js_number
  tl_orchestratorCapUsd :: js_number
  tl_finalizeReserveUsd :: js_number

definition DEFAULT_MAX_REVISIONS_PER_RUN :: rat where
  "DEFAULT_MAX_REVISIONS_PER_RUN = 32"

definition DEFAULT_MAX_TOTAL_SPAWNS :: rat where
  "DEFAULT_MAX_TOTAL_SPAWNS = 128"

text \<open>Members of an object value; reading one of a primitive yields nothing.\<close>

fun v_member :: "js_value \<Rightarrow> string \<Rightarrow> js_value" where
  "v_member (V_obj kvs) k = (case map_of kvs k of Some v \<Rightarrow> v | None \<Rightarrow> V_undefined)"
| "v_member _ k = V_undefined"

fun v_nullish :: "js_value \<Rightarrow> bool" where
  "v_nullish V_undefined = True"
| "v_nullish V_null = True"
| "v_nullish _ = False"

text \<open>\<open>profile?.model\<close> and \<open>profile?.routing?.loop\<close>, then \<open>spec?.ladder\<close>; \<open>ladder.rungs\<close> of \<open>null\<close> throws.\<close>

definition ladder_rungs :: "js_value \<Rightarrow> nat option result" where
  "ladder_rungs spec =
     (let ladder = v_member spec ''ladder'' in
      if ladder = V_undefined then Inr None
      else if ladder = V_null then Inl TypeError
      else (case v_member ladder ''rungs'' of
              V_arr rungs \<Rightarrow> Inr (if rungs = [] then None else Some (length rungs))
            | _ \<Rightarrow> Inr None))"

definition ladderLengthOf :: "js_value \<Rightarrow> nat result" where
  "ladderLengthOf profile =
     bindR (ladder_rungs (v_member profile ''model'')) (\<lambda>a.
       case a of
         Some n \<Rightarrow> Inr n
       | None \<Rightarrow>
           bindR (ladder_rungs (v_member (v_member profile ''routing'') ''loop'')) (\<lambda>b.
             Inr (case b of Some n \<Rightarrow> n | None \<Rightarrow> 1)))"

definition kMaxOf :: "(string \<times> js_value) list \<Rightarrow> nat result" where
  "kMaxOf profiles = foldR (\<lambda>k (name, profile). bindR (ladderLengthOf profile) (\<lambda>n. Inr (max k n))) 1 profiles"

definition profileRegistrySnapshotHash ::
  "(string \<Rightarrow> string) \<Rightarrow> (rat \<Rightarrow> string) \<Rightarrow> (string \<times> js_value) list \<Rightarrow> string result" where
  "profileRegistrySnapshotHash sha numstr profiles =
     bindR (foldR (\<lambda>m (name, profile). bindR (ladderLengthOf profile) (\<lambda>n. Inr (jm_set name (JNum (of_nat n)) m))) [] profiles)
       (\<lambda>m. Inr (sha (jcsSerialize numstr (JObj m))))"

definition limit_count :: "js_value \<Rightarrow> string \<Rightarrow> rat \<Rightarrow> rat result" where
  "limit_count raw name fallback =
     (let v = v_member raw name in
      if v_nullish v then Inr fallback
      else (case v of
              V_num (Num q) \<Rightarrow> if js_isInteger (Num q) \<and> \<not> q < 0 then Inr q else Inl ConfigError
            | _ \<Rightarrow> Inl ConfigError))"

definition limit_usd :: "js_value \<Rightarrow> string \<Rightarrow> js_number result" where
  "limit_usd raw name =
     (case v_member raw name of
        V_num n \<Rightarrow> if n = NaN \<or> n < 0 then Inl ConfigError else Inr n
      | _ \<Rightarrow> Inl ConfigError)"

text \<open>\<open>'name' in raw\<close> throws on everything that is not an object.\<close>

fun v_is_object :: "js_value \<Rightarrow> bool" where
  "v_is_object (V_obj _) = True"
| "v_is_object (V_arr _) = True"
| "v_is_object V_instance = True"
| "v_is_object _ = False"

fun v_has :: "js_value \<Rightarrow> string \<Rightarrow> bool" where
  "v_has (V_obj kvs) k \<longleftrightarrow> k \<in> set (map fst kvs)"
| "v_has _ k \<longleftrightarrow> False"

definition validateTerminationLimits :: "js_value \<Rightarrow> termination_limits result" where
  "validateTerminationLimits raw =
     (if \<not> v_is_object raw then Inl TypeError
      else if v_has raw ''maxEscalationsPerNode'' then Inl ConfigError
      else bindR (limit_count raw ''kMax'' 1) (\<lambda>kMax.
        if kMax < 1 then Inl ConfigError
        else
          bindR (limit_count raw ''maxRevisionsPerRun'' DEFAULT_MAX_REVISIONS_PER_RUN) (\<lambda>revisions.
          bindR (limit_count raw ''maxTotalSpawns'' DEFAULT_MAX_TOTAL_SPAWNS) (\<lambda>spawns.
          bindR (limit_count raw ''maxEscalationsPerLogicalTask'' 2) (\<lambda>escalations.
          bindR (limit_count raw ''maxDepth'' 1) (\<lambda>depth.
          bindR (limit_usd raw ''runBudgetUsdCeiling'') (\<lambda>ceiling.
          bindR (limit_usd raw ''orchestratorCapUsd'') (\<lambda>cap.
          bindR (limit_usd raw ''finalizeReserveUsd'') (\<lambda>reserve.
            Inr \<lparr> tl_maxRevisionsPerRun = revisions, tl_maxTotalSpawns = spawns,
                  tl_maxEscalationsPerLogicalTask = escalations, tl_maxDepth = depth, tl_kMax = kMax,
                  tl_runBudgetUsdCeiling = ceiling, tl_orchestratorCapUsd = cap,
                  tl_finalizeReserveUsd = reserve \<rparr>)))))))))"

definition lineageWeightOf :: "termination_limits \<Rightarrow> rat" where
  "lineageWeightOf l = tl_maxEscalationsPerLogicalTask l + tl_kMax l"

definition phiInitialOf :: "termination_limits \<Rightarrow> rat" where
  "phiInitialOf l = tl_maxRevisionsPerRun l + lineageWeightOf l * tl_maxTotalSpawns l"

text \<open>The payload of the init entry, and the drift of a live configuration from the frozen vector.\<close>

definition limits_fields :: "termination_limits \<Rightarrow> (string \<times> js_number) list" where
  "limits_fields l =
     [(''maxRevisionsPerRun'', Num (tl_maxRevisionsPerRun l)), (''maxTotalSpawns'', Num (tl_maxTotalSpawns l)),
      (''maxEscalationsPerLogicalTask'', Num (tl_maxEscalationsPerLogicalTask l)), (''maxDepth'', Num (tl_maxDepth l)),
      (''kMax'', Num (tl_kMax l)), (''runBudgetUsdCeiling'', tl_runBudgetUsdCeiling l),
      (''orchestratorCapUsd'', tl_orchestratorCapUsd l), (''finalizeReserveUsd'', tl_finalizeReserveUsd l)]"

definition buildTerminationInitValue :: "termination_limits \<Rightarrow> string \<Rightarrow> js_value" where
  "buildTerminationInitValue limits registrySnapshotHash =
     V_obj [(''limits'', V_obj (map (\<lambda>(k, n). (k, V_num n)) (limits_fields limits))),
            (''profileRegistrySnapshotHash'', V_str registrySnapshotHash),
            (''phiInitial'', V_num (Num (phiInitialOf limits)))]"

text \<open>\<open>!==\<close> on numbers: \<open>NaN\<close> differs from itself.\<close>

definition strict_neq :: "js_number \<Rightarrow> js_number \<Rightarrow> bool" where
  "strict_neq a b \<longleftrightarrow> a = NaN \<or> b = NaN \<or> a \<noteq> b"

definition terminationConfigDrift ::
  "termination_limits \<Rightarrow> (string \<times> js_number) list \<Rightarrow> (string \<times> js_number \<times> js_number) list" where
  "terminationConfigDrift frozen live =
     List.map_filter (\<lambda>(field, frozenValue).
       case map_of live field of
         None \<Rightarrow> None
       | Some liveValue \<Rightarrow> if strict_neq liveValue frozenValue then Some (field, frozenValue, liveValue) else None)
       (limits_fields frozen)"

lemma drift_iff:
  "(f, frozenValue, liveValue) \<in> set (terminationConfigDrift frozen live)
   \<longleftrightarrow> (f, frozenValue) \<in> set (limits_fields frozen) \<and> map_of live f = Some liveValue \<and> strict_neq liveValue frozenValue"
  by (force simp: terminationConfigDrift_def map_filter_def split: option.splits if_splits)

lemma limits_fields_get:
  "map_of (map (\<lambda>(k, n). (k, V_num n)) (limits_fields l)) k = map_option V_num (map_of (limits_fields l) k)"
  by (simp add: map_of_map)

section \<open>The account\<close>

record lineage_state =
  ls_escalationUnitsRemaining :: rat
  ls_rungsRemaining :: rat
  ls_rungIndex :: rat

record termination_account =
  ta_limits :: termination_limits
  ta_revisionUnits :: rat
  ta_spawnUnits :: rat
  ta_lineages :: "(string, lineage_state) jsmap"
  ta_deniedWriter :: "nat option"

datatype termination_resource = R_revisionUnits | R_spawnUnits | R_escalationUnits | R_rungs | R_depth

definition new_account :: "termination_limits \<Rightarrow> nat option \<Rightarrow> termination_account" where
  "new_account limits writer = \<lparr>
     ta_limits = limits, ta_revisionUnits = tl_maxRevisionsPerRun limits,
     ta_spawnUnits = tl_maxTotalSpawns limits, ta_lineages = [], ta_deniedWriter = writer \<rparr>"

definition bindDeniedWriter :: "nat \<Rightarrow> termination_account \<Rightarrow> termination_account result" where
  "bindDeniedWriter writer a =
     (if ta_deniedWriter a \<noteq> None \<and> ta_deniedWriter a \<noteq> Some writer then Inl ConfigError
      else Inr (a\<lparr> ta_deniedWriter := Some writer \<rparr>))"

definition phi :: "termination_account \<Rightarrow> rat" where
  "phi a = foldl (\<lambda>p st. p + (ls_escalationUnitsRemaining st + ls_rungsRemaining st))
     (ta_revisionUnits a + lineageWeightOf (ta_limits a) * ta_spawnUnits a) (jm_values (ta_lineages a))"

record account_snapshot =
  sn_revisionUnitsRemaining :: rat
  sn_spawnUnitsRemaining :: rat
  sn_perLineage :: "(string, rat \<times> rat) jsmap"
  sn_phi :: rat

definition snapshot :: "termination_account \<Rightarrow> account_snapshot" where
  "snapshot a = \<lparr>
     sn_revisionUnitsRemaining = ta_revisionUnits a, sn_spawnUnitsRemaining = ta_spawnUnits a,
     sn_perLineage = map (\<lambda>(k, st). (k, (ls_escalationUnitsRemaining st, ls_rungsRemaining st))) (ta_lineages a),
     sn_phi = phi a \<rparr>"

definition rungIndexOf :: "termination_account \<Rightarrow> string \<Rightarrow> rat" where
  "rungIndexOf a ltid = (case jm_get (ta_lineages a) ltid of None \<Rightarrow> 0 | Some st \<Rightarrow> ls_rungIndex st)"

definition spawnUnitsExhausted :: "termination_account \<Rightarrow> bool" where
  "spawnUnitsExhausted a \<longleftrightarrow> ta_spawnUnits a \<le> 0"

definition revisionUnitsRemaining :: "termination_account \<Rightarrow> rat" where
  "revisionUnitsRemaining a = ta_revisionUnits a"

definition requireLineage :: "string \<Rightarrow> termination_account \<Rightarrow> lineage_state \<times> termination_account" where
  "requireLineage ltid a =
     (case jm_get (ta_lineages a) ltid of
        Some st \<Rightarrow> (st, a)
      | None \<Rightarrow>
          let fresh = \<lparr> ls_escalationUnitsRemaining = tl_maxEscalationsPerLogicalTask (ta_limits a),
                        ls_rungsRemaining = 0, ls_rungIndex = 0 \<rparr>
          in (fresh, a\<lparr> ta_lineages := jm_set ltid fresh (ta_lineages a) \<rparr>))"

section \<open>Debits\<close>

datatype 'a debit_outcome = Debited 'a | Denied termination_resource

record spawn_lineage =
  sl_logicalTaskId :: string
  sl_isNew :: bool
  sl_ladderLength :: "rat option"

definition debitSpawn ::
  "spawn_lineage option \<Rightarrow> termination_account \<Rightarrow> (termination_account \<times> rat debit_outcome) result" where
  "debitSpawn lineage a =
     (if ta_spawnUnits a \<le> 0 then Inr (a, Denied R_spawnUnits)
      else bindR
        (case lineage of
           None \<Rightarrow> Inr a
         | Some l \<Rightarrow>
             let ladderLength = (case sl_ladderLength l of None \<Rightarrow> 1 | Some n \<Rightarrow> n)
             in if ladderLength > tl_kMax (ta_limits a) then Inl ConfigError
                else if sl_isNew l \<and> \<not> jm_has (ta_lineages a) (sl_logicalTaskId l) then
                  Inr (a\<lparr> ta_lineages := jm_set (sl_logicalTaskId l)
                         \<lparr> ls_escalationUnitsRemaining = tl_maxEscalationsPerLogicalTask (ta_limits a),
                           ls_rungsRemaining = ladderLength - 1, ls_rungIndex = 0 \<rparr> (ta_lineages a) \<rparr>)
                else Inr a)
        (\<lambda>a1. Inr (a1\<lparr> ta_spawnUnits := ta_spawnUnits a1 - 1 \<rparr>, Debited (ta_spawnUnits a1 - 1))))"

definition debitRevision :: "termination_account \<Rightarrow> termination_account \<times> rat debit_outcome" where
  "debitRevision a =
     (if ta_revisionUnits a \<le> 0 then (a, Denied R_revisionUnits)
      else (a\<lparr> ta_revisionUnits := ta_revisionUnits a - 1 \<rparr>, Debited (ta_revisionUnits a - 1)))"

definition debitEscalation :: "string \<Rightarrow> termination_account \<Rightarrow> termination_account \<times> rat debit_outcome" where
  "debitEscalation ltid a =
     (case requireLineage ltid a of
        (st, a1) \<Rightarrow>
          if ls_escalationUnitsRemaining st \<le> 0 then (a1, Denied R_escalationUnits)
          else (a1\<lparr> ta_lineages := jm_set ltid
                   (st\<lparr> ls_escalationUnitsRemaining := ls_escalationUnitsRemaining st - 1 \<rparr>) (ta_lineages a1) \<rparr>,
                Debited (ls_escalationUnitsRemaining st - 1)))"

text \<open>The result carries the rung index and the rungs left.\<close>

definition debitRung :: "string \<Rightarrow> termination_account \<Rightarrow> termination_account \<times> (rat \<times> rat) debit_outcome" where
  "debitRung ltid a =
     (case requireLineage ltid a of
        (st, a1) \<Rightarrow>
          if ls_rungsRemaining st \<le> 0 then (a1, Denied R_rungs)
          else (a1\<lparr> ta_lineages := jm_set ltid
                   (st\<lparr> ls_rungsRemaining := ls_rungsRemaining st - 1, ls_rungIndex := ls_rungIndex st + 1 \<rparr>) (ta_lineages a1) \<rparr>,
                Debited (ls_rungIndex st + 1, ls_rungsRemaining st - 1)))"

definition requireLineageId :: "string option \<Rightarrow> string result" where
  "requireLineageId lineage = (case lineage of None \<Rightarrow> Inl ConfigError | Some l \<Rightarrow> Inr l)"

fun map_debit :: "('a \<Rightarrow> 'b) \<Rightarrow> 'a debit_outcome \<Rightarrow> 'b debit_outcome" where
  "map_debit f (Debited x) = Debited (f x)"
| "map_debit f (Denied r) = Denied r"

definition tryDebit ::
  "termination_resource \<Rightarrow> string option \<Rightarrow> termination_account \<Rightarrow> (termination_account \<times> rat debit_outcome) result" where
  "tryDebit resource lineage a =
     (case resource of
        R_revisionUnits \<Rightarrow> Inr (debitRevision a)
      | R_spawnUnits \<Rightarrow> debitSpawn None a
      | R_escalationUnits \<Rightarrow> bindR (requireLineageId lineage) (\<lambda>l. Inr (debitEscalation l a))
      | R_rungs \<Rightarrow> bindR (requireLineageId lineage) (\<lambda>l. Inr (map_prod id (map_debit snd) (debitRung l a)))
      | R_depth \<Rightarrow> Inl TypeError)"

fun exhaustionCodeOf :: "termination_resource \<Rightarrow> string" where
  "exhaustionCodeOf R_revisionUnits = ''revision_budget_exhausted''"
| "exhaustionCodeOf R_spawnUnits = ''termination_exhausted''"
| "exhaustionCodeOf R_escalationUnits = ''escalation_budget_exhausted''"
| "exhaustionCodeOf R_rungs = ''ladder_exhausted''"
| "exhaustionCodeOf R_depth = ''depth''"

record termination_denied =
  td_resource :: termination_resource
  td_logicalTaskId :: "string option"
  td_requestedByRef :: "nat option"
  td_reasonCode :: string
  td_snapshotAfter :: account_snapshot

datatype debit_result = Ok_balance rat | Refused_at nat termination_resource

text \<open>The denied entry is written before the failure is returned; \<open>world\<close> is what the writer acts on.\<close>

definition debit ::
  "(nat \<Rightarrow> termination_denied \<Rightarrow> 'w \<Rightarrow> 'w \<times> nat result) \<Rightarrow> termination_resource \<Rightarrow> string option \<Rightarrow> nat option
     \<Rightarrow> string option \<Rightarrow> 'w \<Rightarrow> termination_account \<Rightarrow> 'w \<times> (termination_account \<times> debit_result result)" where
  "debit write resource lineage requestedByRef reasonCode world a =
     (case tryDebit resource lineage a of
        Inl err \<Rightarrow> (world, (a, Inl err))
      | Inr (a1, Debited b) \<Rightarrow> (world, (a1, Inr (Ok_balance b)))
      | Inr (a1, Denied _) \<Rightarrow>
          (case ta_deniedWriter a1 of
             None \<Rightarrow> (world, (a1, Inl ConfigError))
           | Some w \<Rightarrow>
               let denied = \<lparr> td_resource = resource, td_logicalTaskId = lineage, td_requestedByRef = requestedByRef,
                     td_reasonCode = (case reasonCode of Some c \<Rightarrow> c | None \<Rightarrow> exhaustionCodeOf resource),
                     td_snapshotAfter = snapshot a1 \<rparr>
               in (case write w denied world of
                     (world', Inl err) \<Rightarrow> (world', (a1, Inl err))
                   | (world', Inr ref) \<Rightarrow> (world', (a1, Inr (Refused_at ref resource))))))"

definition restoreLineage :: "string \<Rightarrow> rat \<Rightarrow> rat \<Rightarrow> rat option \<Rightarrow> termination_account \<Rightarrow> termination_account" where
  "restoreLineage ltid escalation rungs rungIndex a =
     a\<lparr> ta_lineages := jm_set ltid \<lparr> ls_escalationUnitsRemaining = escalation, ls_rungsRemaining = rungs,
          ls_rungIndex = (case rungIndex of Some n \<Rightarrow> n | None \<Rightarrow> 0) \<rparr> (ta_lineages a) \<rparr>"

definition restoreCounters :: "rat option \<Rightarrow> rat option \<Rightarrow> termination_account \<Rightarrow> termination_account" where
  "restoreCounters revisions spawns a =
     a\<lparr> ta_revisionUnits := (case revisions of Some n \<Rightarrow> n | None \<Rightarrow> ta_revisionUnits a),
         ta_spawnUnits := (case spawns of Some n \<Rightarrow> n | None \<Rightarrow> ta_spawnUnits a) \<rparr>"


section \<open>The replay fold\<close>

record termination_init =
  ti_limits :: json
  ti_profileRegistrySnapshotHash :: "json option"
  ti_phiInitial :: rat

definition readTerminationInit :: "journal_entry \<Rightarrow> termination_init option result" where
  "readTerminationInit e =
     (if je_kind e \<noteq> K_termination_init then Inr None
      else if je_value e = None then Inr None
      else bindR (js_member (je_value e) ''phiInitial'') (\<lambda>p.
             Inr (case (as_number p, opt_member (je_value e) ''limits'') of
                    (Some n, Some l) \<Rightarrow>
                      Some \<lparr> ti_limits = l,
                             ti_profileRegistrySnapshotHash = opt_member (je_value e) ''profileRegistrySnapshotHash'',
                             ti_phiInitial = n \<rparr>
                  | _ \<Rightarrow> None)))"

record fold_admission =
  fa_logicalTaskId :: "string option"
  fa_isNew :: bool
  fa_ladderLength :: "rat option"
  fa_spawnUnitsAfter :: "json option"

definition readSpawnAdmission :: "json \<Rightarrow> fold_admission option" where
  "readSpawnAdmission value =
     (let decision = asRecord (member_of value ''decision'');
          verdict = asRecord (opt_member decision ''verdict'')
      in case verdict of
           None \<Rightarrow> None
         | Some vd \<Rightarrow>
             if member_of vd ''kind'' = Some (JStr ''reject'') then None
             else
               let lineage = asRecord (member_of vd ''lineage'')
               in Some \<lparr> fa_logicalTaskId = as_string (opt_member lineage ''logicalTaskId''),
                         fa_isNew = (opt_member lineage ''isNew'' = Some (JBool True)),
                         fa_ladderLength = as_number (opt_member decision ''ladderLength''),
                         fa_spawnUnitsAfter = member_of vd ''spawnUnitsAfter'' \<rparr>)"

definition readAdmissions :: "journal_entry \<Rightarrow> fold_admission list" where
  "readAdmissions e =
     (case as_array (opt_member (asRecord (je_value e)) ''admissions'') of
        None \<Rightarrow> []
      | Some raws \<Rightarrow>
          List.map_filter (\<lambda>raw. case asRecord (Some raw) of None \<Rightarrow> None | Some r \<Rightarrow> readSpawnAdmission r) raws)"

definition assertBalance :: "journal_entry \<Rightarrow> json option \<Rightarrow> rat \<Rightarrow> unit result" where
  "assertBalance e embedded recomputed =
     (case as_number embedded of
        Some n \<Rightarrow> if n \<noteq> recomputed then Inl (PlanInvariantError (je_seq e)) else Inr ()
      | None \<Rightarrow> Inr ())"

definition admission_lineage :: "fold_admission \<Rightarrow> spawn_lineage option" where
  "admission_lineage ad =
     map_option (\<lambda>l. \<lparr> sl_logicalTaskId = l, sl_isNew = fa_isNew ad, sl_ladderLength = fa_ladderLength ad \<rparr>)
       (fa_logicalTaskId ad)"

text \<open>A denied debit or a differing balance is a divergence at this entry.\<close>

definition settle ::
  "journal_entry \<Rightarrow> termination_account \<times> 'a debit_outcome \<Rightarrow> ('a \<Rightarrow> unit result) \<Rightarrow> termination_account result" where
  "settle e r check_balance =
     (case r of
        (a, Denied _) \<Rightarrow> Inl (PlanInvariantError (je_seq e))
      | (a, Debited b) \<Rightarrow> bindR (check_balance b) (\<lambda>_. Inr a))"

definition applySpawnDebit ::
  "journal_entry \<Rightarrow> termination_account \<Rightarrow> fold_admission \<Rightarrow> termination_account result" where
  "applySpawnDebit e a ad =
     bindR (debitSpawn (admission_lineage ad) a) (\<lambda>r. settle e r (assertBalance e (fa_spawnUnitsAfter ad)))"

definition escalation_debits :: "json \<Rightarrow> json list" where
  "escalation_debits value =
     (if as_string (member_of value ''logicalTaskId'') \<noteq> None then [value] else [])
     @ (case as_array (member_of value ''debits'') of
          None \<Rightarrow> []
        | Some raws \<Rightarrow>
            filter (\<lambda>d. as_string (member_of d ''logicalTaskId'') \<noteq> None)
              (List.map_filter (\<lambda>raw. asRecord (Some raw)) raws))"

definition apply_escalation :: "journal_entry \<Rightarrow> termination_account \<Rightarrow> json \<Rightarrow> termination_account result" where
  "apply_escalation e a d =
     (case as_string (member_of d ''logicalTaskId'') of
        None \<Rightarrow> Inr a
      | Some l \<Rightarrow> settle e (debitEscalation l a) (assertBalance e (member_of d ''escalationUnitsAfter'')))"

record termination_fold =
  tf_account :: termination_account
  tf_closedTargets :: "nat list"
  tf_denials :: "(nat \<times> json option) list"

definition fold_resolution :: "journal_entry \<Rightarrow> nat \<Rightarrow> termination_fold \<Rightarrow> termination_fold result" where
  "fold_resolution e r st =
     (if r \<in> set (tf_closedTargets st) then Inr st
      else
        let st1 = st\<lparr> tf_closedTargets := tf_closedTargets st @ [r] \<rparr>
        in case je_resolution e of
             Some p \<Rightarrow>
               (case rp_logicalTaskId p of
                  Some l \<Rightarrow>
                    if rp_countsAgainstLimit p = Some True \<and> rp_by p \<noteq> By_class_decision then
                      bindR (settle e (debitEscalation l (tf_account st1)) (\<lambda>_. Inr ()))
                        (\<lambda>a. Inr (st1\<lparr> tf_account := a \<rparr>))
                    else Inr st1
                | None \<Rightarrow> Inr st1)
           | None \<Rightarrow> Inr st1)"

definition fold_revision :: "journal_entry \<Rightarrow> termination_account \<Rightarrow> termination_account result" where
  "fold_revision e a =
     bindR (settle e (debitRevision a) (assertBalance e (opt_member (asRecord (je_value e)) ''revisionUnitsAfter'')))
       (\<lambda>a1. foldR (applySpawnDebit e) a1 (readAdmissions e))"

definition fold_decision :: "journal_entry \<Rightarrow> termination_account \<Rightarrow> termination_account result" where
  "fold_decision e a =
     (let rec = asRecord (je_value e);
          decisionType = opt_member rec ''decisionType''
      in if decisionType = Some (JStr ''spawn-admission'') then
           (case readSpawnAdmission (case rec of Some v \<Rightarrow> v | None \<Rightarrow> JObj []) of
              None \<Rightarrow> Inr a
            | Some ad \<Rightarrow> applySpawnDebit e a ad)
         else if decisionType = Some (JStr ''escalation-decision'')
                 \<and> opt_member rec ''countsAgainstLimit'' = Some (JBool True) then
           bindR (foldR (apply_escalation e) a (escalation_debits (case rec of Some v \<Rightarrow> v | None \<Rightarrow> JObj [])))
             (\<lambda>a1. foldR (applySpawnDebit e) a1 (readAdmissions e))
         else if decisionType = Some (JStr ''ladder-verdict'')
                 \<and> opt_member rec ''raisesRung'' = Some (JBool True) then
           (case as_string (opt_member rec ''logicalTaskId'') of
              None \<Rightarrow> Inr a
            | Some l \<Rightarrow>
                bindR (settle e (debitRung l a) (\<lambda>(index, rungs).
                    bindR (assertBalance e (opt_member rec ''rungIndexAfter'') index)
                      (\<lambda>_. assertBalance e (opt_member rec ''rungsRemainingAfter'') rungs)))
                  (\<lambda>a1. foldR (applySpawnDebit e) a1 (readAdmissions e)))
         else Inr a)"

definition termination_step :: "nat \<Rightarrow> termination_fold \<Rightarrow> journal_entry \<Rightarrow> termination_fold result" where
  "termination_step initSeq st e =
     (if je_seq e \<le> initSeq then Inr st
      else if je_kind e = K_termination_denied then
        Inr (st\<lparr> tf_denials := tf_denials st @ [(je_seq e, je_value e)] \<rparr>)
      else (case (je_kind e, je_ref e) of
        (K_resolution, Some r) \<Rightarrow> fold_resolution e r st
      | _ \<Rightarrow>
          if je_kind e = K_plan_revision then
            bindR (fold_revision e (tf_account st)) (\<lambda>a. Inr (st\<lparr> tf_account := a \<rparr>))
          else if je_kind e = K_decision then
            bindR (fold_decision e (tf_account st)) (\<lambda>a. Inr (st\<lparr> tf_account := a \<rparr>))
          else Inr st))"

definition foldTermination :: "journal_entry list \<Rightarrow> (nat \<times> termination_init \<times> termination_fold) option result" where
  "foldTermination entries =
     (case List.find (\<lambda>e. je_kind e = K_termination_init) entries of
        None \<Rightarrow> Inr None
      | Some initEntry \<Rightarrow>
          bindR (readTerminationInit initEntry) (\<lambda>init.
            case init of
              None \<Rightarrow> Inl (PlanInvariantError (je_seq initEntry))
            | Some iv \<Rightarrow>
                bindR (validateTerminationLimits (js_of_json (ti_limits iv))) (\<lambda>limits.
                bindR (foldR (termination_step (je_seq initEntry))
                         \<lparr> tf_account = new_account limits None, tf_closedTargets = [], tf_denials = [] \<rparr> entries)
                  (\<lambda>st. Inr (Some (je_seq initEntry, iv, st))))))"

section \<open>The variant\<close>

text \<open>
  Machines whose steps either happen or are refused, with a rank that every step that happens
  lowers by one, up to the credit the step brings along. The number of steps that happen is then
  bounded by the initial rank and the credits.
\<close>

fun run_all :: "('s \<Rightarrow> 'c \<Rightarrow> 's \<times> bool) \<Rightarrow> 's \<Rightarrow> 'c list \<Rightarrow> 's \<times> nat" where
  "run_all step s [] = (s, 0)"
| "run_all step s (c # cs) =
     (case step s c of
        (s', done) \<Rightarrow> (case run_all step s' cs of (t, n) \<Rightarrow> (t, (if done then Suc n else n))))"

lemma fst_run_all_Cons: "fst (run_all step s (c # cs)) = fst (run_all step (fst (step s c)) cs)"
  by (simp split: prod.splits)

fun count_along :: "('s \<Rightarrow> 'c \<Rightarrow> 's \<times> bool) \<Rightarrow> ('s \<Rightarrow> 'c \<Rightarrow> bool) \<Rightarrow> 's \<Rightarrow> 'c list \<Rightarrow> nat" where
  "count_along step P s [] = 0"
| "count_along step P s (c # cs) = (if P s c then 1 else 0) + count_along step P (fst (step s c)) cs"

locale ranked_machine =
  fixes step :: "'s \<Rightarrow> 'c \<Rightarrow> 's \<times> bool"
    and rank :: "'s \<Rightarrow> rat"
    and good :: "'s \<Rightarrow> bool"
    and sane :: "'c \<Rightarrow> bool"
    and credited :: "'s \<Rightarrow> 'c \<Rightarrow> bool"
    and credit :: "'s \<Rightarrow> rat"
  assumes good_step: "good s \<Longrightarrow> sane c \<Longrightarrow> good (fst (step s c))"
    and credit_step: "credit (fst (step s c)) = credit s"
    and rank_step: "good s \<Longrightarrow> sane c \<Longrightarrow>
      rank (fst (step s c)) + of_bool (snd (step s c)) \<le> rank s + credit s * of_bool (credited s c)"
    and rank_nonneg: "good s \<Longrightarrow> 0 \<le> rank s"
begin

lemma good_run: "good s \<Longrightarrow> list_all sane cs \<Longrightarrow> good (fst (run_all step s cs))"
proof (induction cs arbitrary: s)
  case (Cons c cs)
  then show ?case
    using good_step [of s c] by (simp add: fst_run_all_Cons del: run_all.simps)
qed simp

lemma run_bounded:
  assumes "good s" "list_all sane cs"
  shows "of_nat (snd (run_all step s cs)) + rank (fst (run_all step s cs))
         \<le> rank s + credit s * of_nat (count_along step credited s cs)"
  using assms
proof (induction cs arbitrary: s)
  case (Cons c cs)
  obtain s' b where st: "step s c = (s', b)" by (cases "step s c")
  obtain t n where run: "run_all step s' cs = (t, n)" by (cases "run_all step s' cs")
  have "good s'" using good_step [of s c] Cons.prems st by simp
  then have "of_nat n + rank t \<le> rank s' + credit s' * of_nat (count_along step credited s' cs)"
    using Cons.IH [of s'] Cons.prems run by simp
  moreover have "rank s' + of_bool b \<le> rank s + credit s * of_bool (credited s c)"
    using rank_step [of s c] Cons.prems st by simp
  moreover have "credit s' = credit s" using credit_step [of s c] st by simp
  ultimately show ?case
    using st run by (auto simp: algebra_simps)
qed simp

text \<open>With rank bounded below by zero the steps that happen are bounded outright.\<close>

lemma steps_bounded:
  assumes "good s" "list_all sane cs"
  shows "of_nat (snd (run_all step s cs)) \<le> rank s + credit s * of_nat (count_along step credited s cs)"
proof -
  have "0 \<le> rank (fst (run_all step s cs))"
    using good_run assms rank_nonneg by blast
  with run_bounded [OF assms] show ?thesis by linarith
qed

end

section \<open>Debits as commands\<close>

datatype debit_command =
    D_revision
  | D_spawn "spawn_lineage option"
  | D_escalation string
  | D_rung string

definition run_command :: "termination_account \<Rightarrow> debit_command \<Rightarrow> (termination_account \<times> rat list debit_outcome) result" where
  "run_command a c =
     (case c of
        D_revision \<Rightarrow> Inr (map_prod id (map_debit (\<lambda>b. [b])) (debitRevision a))
      | D_spawn l \<Rightarrow> bindR (debitSpawn l a) (\<lambda>r. Inr (map_prod id (map_debit (\<lambda>b. [b])) r))
      | D_escalation l \<Rightarrow> Inr (map_prod id (map_debit (\<lambda>b. [b])) (debitEscalation l a))
      | D_rung l \<Rightarrow> Inr (map_prod id (map_debit (\<lambda>(i, r). [i, r])) (debitRung l a)))"

text \<open>A caller that catches the configuration error goes on with the account as it was.\<close>

definition run_debit :: "termination_account \<Rightarrow> debit_command \<Rightarrow> termination_account \<times> bool" where
  "run_debit a c =
     (case run_command a c of
        Inl _ \<Rightarrow> (a, False)
      | Inr (a', Denied _) \<Rightarrow> (a', False)
      | Inr (a', Debited _) \<Rightarrow> (a', True))"

text \<open>Whole non-negative counters throughout.\<close>

definition counter :: "rat \<Rightarrow> bool" where
  "counter q \<longleftrightarrow> q \<in> \<nat>"

definition account_ok :: "termination_account \<Rightarrow> bool" where
  "account_ok a \<longleftrightarrow>
     counter (ta_revisionUnits a) \<and> counter (ta_spawnUnits a)
     \<and> counter (tl_maxEscalationsPerLogicalTask (ta_limits a))
     \<and> counter (tl_kMax (ta_limits a)) \<and> 1 \<le> tl_kMax (ta_limits a)
     \<and> jm_wf (ta_lineages a)
     \<and> (\<forall>st \<in> set (jm_values (ta_lineages a)).
          counter (ls_escalationUnitsRemaining st) \<and> counter (ls_rungsRemaining st))"

fun command_sane :: "debit_command \<Rightarrow> bool" where
  "command_sane (D_spawn (Some l)) \<longleftrightarrow> (case sl_ladderLength l of None \<Rightarrow> True | Some n \<Rightarrow> counter n \<and> 1 \<le> n)"
| "command_sane _ \<longleftrightarrow> True"

text \<open>The command touches a lineage no admission has introduced.\<close>

fun first_touch :: "termination_account \<Rightarrow> debit_command \<Rightarrow> bool" where
  "first_touch a (D_escalation l) \<longleftrightarrow> \<not> jm_has (ta_lineages a) l"
| "first_touch a (D_rung l) \<longleftrightarrow> \<not> jm_has (ta_lineages a) l"
| "first_touch a _ \<longleftrightarrow> False"

lemma counter_simps [simp]: "counter 0" "counter 1" "counter (of_nat n)"
  by (simp_all add: counter_def)

lemma counter_nonneg: "counter q \<Longrightarrow> 0 \<le> q"
  by (auto simp: counter_def elim: Nats_cases)

lemma counter_pred: "counter q \<Longrightarrow> 0 < q \<Longrightarrow> counter (q - 1)"
proof -
  assume "counter q" "0 < q"
  then obtain n where "q = of_nat (Suc n)"
    by (metis Nats_cases counter_def gr0_implies_Suc of_nat_0_less_iff)
  then show ?thesis by simp
qed

lemma counter_pos: "counter q \<Longrightarrow> \<not> q \<le> 0 \<Longrightarrow> counter (q - 1)"
  by (simp add: counter_pred)

lemma counter_pred_ge1: "counter q \<Longrightarrow> 1 \<le> q \<Longrightarrow> counter (q - 1)"
  by (simp add: counter_pred)

text \<open>The weight of a lineage, and the sum the loop of \<open>phi\<close> computes.\<close>

definition lineage_weight :: "lineage_state \<Rightarrow> rat" where
  "lineage_weight st = ls_escalationUnitsRemaining st + ls_rungsRemaining st"

lemma foldl_sum_list: "foldl (\<lambda>p x. p + f x) s xs = s + sum_list (map f xs)" for f :: "'a \<Rightarrow> rat"
  by (induction xs arbitrary: s) (simp_all add: add.assoc)

lemma phi_sum: "phi a = ta_revisionUnits a + lineageWeightOf (ta_limits a) * ta_spawnUnits a
    + sum_list (map lineage_weight (jm_values (ta_lineages a)))"
  unfolding phi_def lineage_weight_def [symmetric] by (simp only: foldl_sum_list)

lemma sum_list_jm_set:
  fixes f :: "'v \<Rightarrow> rat"
  shows "jm_wf m \<Longrightarrow> sum_list (map f (jm_values (jm_set k v m)))
     = sum_list (map f (jm_values m)) + f v - (case jm_get m k of None \<Rightarrow> 0 | Some w \<Rightarrow> f w)"
proof (induction m)
  case (Cons p m)
  obtain k' w where p: "p = (k', w)" by (cases p)
  have "jm_wf m" using Cons.prems by (simp add: jm_wf_def)
  from Cons.IH [OF this] show ?case by (simp add: p)
qed simp

lemma values_jm_set: "st \<in> set (jm_values (jm_set k v m)) \<Longrightarrow> st = v \<or> st \<in> set (jm_values m)"
  by (induction m) (auto split: if_splits simp: image_iff Bex_def, blast)

section \<open>Effect of a command on the rank\<close>

text \<open>Replacing the state of a lineage, or adding one, keeps the account sound and moves \<open>phi\<close> by the difference.\<close>

lemma account_ok_set:
  assumes "account_ok a" "counter (ls_escalationUnitsRemaining st)" "counter (ls_rungsRemaining st)"
  shows "account_ok (a\<lparr> ta_lineages := jm_set l st (ta_lineages a) \<rparr>)"
  using assms values_jm_set unfolding account_ok_def by (fastforce simp del: set_map)

lemma phi_set:
  assumes "account_ok a"
  shows "phi (a\<lparr> ta_lineages := jm_set l st (ta_lineages a) \<rparr>)
         = phi a + lineage_weight st - (case jm_get (ta_lineages a) l of None \<Rightarrow> 0 | Some w \<Rightarrow> lineage_weight w)"
proof -
  have "jm_wf (ta_lineages a)" using assms by (simp add: account_ok_def)
  from sum_list_jm_set [OF this] show ?thesis by (simp add: phi_sum del: map_map)
qed

lemma account_ok_lineage:
  assumes "account_ok a" "jm_get (ta_lineages a) l = Some st"
  shows "counter (ls_escalationUnitsRemaining st)" "counter (ls_rungsRemaining st)"
  using assms jm_get_in [OF assms(2)] unfolding account_ok_def by force+

lemma account_ok_units:
  assumes "account_ok a"
  shows "counter (ta_revisionUnits a)" "counter (ta_spawnUnits a)"
    "counter (tl_maxEscalationsPerLogicalTask (ta_limits a))" "1 \<le> tl_kMax (ta_limits a)"
  using assms by (simp_all add: account_ok_def)

lemma requireLineage_cases:
  assumes "requireLineage l a = (st, a1)"
  shows "jm_get (ta_lineages a) l = Some st \<and> a1 = a
         \<or> \<not> jm_has (ta_lineages a) l \<and> a1 = a\<lparr> ta_lineages := jm_set l st (ta_lineages a) \<rparr>
           \<and> st = \<lparr> ls_escalationUnitsRemaining = tl_maxEscalationsPerLogicalTask (ta_limits a),
                    ls_rungsRemaining = 0, ls_rungIndex = 0 \<rparr>"
  using assms by (auto simp: requireLineage_def jm_has_def Let_def split: option.splits)

lemma requireLineage_props:
  assumes "account_ok a" "requireLineage l a = (st, a1)"
  shows requireLineage_ok: "account_ok a1"
    and requireLineage_get: "jm_get (ta_lineages a1) l = Some st"
    and requireLineage_limits: "ta_limits a1 = ta_limits a"
    and requireLineage_phi:
      "phi a1 = phi a + (if jm_has (ta_lineages a) l then 0 else tl_maxEscalationsPerLogicalTask (ta_limits a))"
proof -
  have "account_ok a1 \<and> jm_get (ta_lineages a1) l = Some st \<and> ta_limits a1 = ta_limits a
        \<and> phi a1 = phi a + (if jm_has (ta_lineages a) l then 0 else tl_maxEscalationsPerLogicalTask (ta_limits a))"
    using requireLineage_cases [OF assms(2)]
  proof
    assume known: "jm_get (ta_lineages a) l = Some st \<and> a1 = a"
    then show ?thesis using assms(1) by (simp add: jm_has_def)
  next
    assume "\<not> jm_has (ta_lineages a) l \<and> a1 = a\<lparr> ta_lineages := jm_set l st (ta_lineages a) \<rparr>
           \<and> st = \<lparr> ls_escalationUnitsRemaining = tl_maxEscalationsPerLogicalTask (ta_limits a),
                    ls_rungsRemaining = 0, ls_rungIndex = 0 \<rparr>"
    then show ?thesis
      using assms(1) account_ok_set [of a st l] account_ok_units(3) [of a] phi_set [of a l st]
      by (auto simp: jm_has_def lineage_weight_def)
  qed
  then show "account_ok a1" "jm_get (ta_lineages a1) l = Some st" "ta_limits a1 = ta_limits a"
    "phi a1 = phi a + (if jm_has (ta_lineages a) l then 0 else tl_maxEscalationsPerLogicalTask (ta_limits a))"
    by blast+
qed

text \<open>The four debits: soundness, frozen limits and the change of \<open>phi\<close>.\<close>

definition debit_effect :: "termination_account \<Rightarrow> bool \<Rightarrow> termination_account \<Rightarrow> bool \<Rightarrow> bool" where
  "debit_effect a touch a' done \<longleftrightarrow>
     account_ok a' \<and> ta_limits a' = ta_limits a
     \<and> phi a' + of_bool done \<le> phi a + tl_maxEscalationsPerLogicalTask (ta_limits a) * of_bool touch"

lemma debitRevision_effect:
  assumes "account_ok a"
  shows "debit_effect a False (fst (debitRevision a)) (\<exists>b. snd (debitRevision a) = Debited b)"
  using assms counter_pos [of "ta_revisionUnits a"]
  by (auto simp: debitRevision_def debit_effect_def account_ok_def phi_sum)

lemma debitEscalation_effect:
  assumes "account_ok a"
  shows "debit_effect a (\<not> jm_has (ta_lineages a) l) (fst (debitEscalation l a))
           (\<exists>b. snd (debitEscalation l a) = Debited b)"
proof -
  obtain st a1 where r: "requireLineage l a = (st, a1)" by (cases "requireLineage l a")
  note p = requireLineage_props [OF assms r]
  show ?thesis
  proof (cases "ls_escalationUnitsRemaining st \<le> 0")
    case True
    then show ?thesis using p r by (simp add: debitEscalation_def debit_effect_def)
  next
    case False
    let ?st = "st\<lparr> ls_escalationUnitsRemaining := ls_escalationUnitsRemaining st - 1 \<rparr>"
    have "account_ok (a1\<lparr> ta_lineages := jm_set l ?st (ta_lineages a1) \<rparr>)"
      using account_ok_set [OF p(1), of ?st l] account_ok_lineage [OF p(1,2)] False counter_pos by simp
    moreover have "phi (a1\<lparr> ta_lineages := jm_set l ?st (ta_lineages a1) \<rparr>) = phi a1 - 1"
      using phi_set [OF p(1), of l ?st] p(2) by (simp add: lineage_weight_def)
    ultimately show ?thesis using p r False by (simp add: debitEscalation_def debit_effect_def)
  qed
qed

lemma debitRung_effect:
  assumes "account_ok a"
  shows "debit_effect a (\<not> jm_has (ta_lineages a) l) (fst (debitRung l a)) (\<exists>b. snd (debitRung l a) = Debited b)"
proof -
  obtain st a1 where r: "requireLineage l a = (st, a1)" by (cases "requireLineage l a")
  note p = requireLineage_props [OF assms r]
  show ?thesis
  proof (cases "ls_rungsRemaining st \<le> 0")
    case True
    then show ?thesis using p r by (simp add: debitRung_def debit_effect_def)
  next
    case False
    let ?st = "st\<lparr> ls_rungsRemaining := ls_rungsRemaining st - 1, ls_rungIndex := ls_rungIndex st + 1 \<rparr>"
    have "account_ok (a1\<lparr> ta_lineages := jm_set l ?st (ta_lineages a1) \<rparr>)"
      using account_ok_set [OF p(1), of ?st l] account_ok_lineage [OF p(1,2)] False counter_pos by simp
    moreover have "phi (a1\<lparr> ta_lineages := jm_set l ?st (ta_lineages a1) \<rparr>) = phi a1 - 1"
      using phi_set [OF p(1), of l ?st] p(2) by (simp add: lineage_weight_def)
    ultimately show ?thesis using p r False by (simp add: debitRung_def debit_effect_def)
  qed
qed

text \<open>Spending a spawn unit pays for the lineage it may open.\<close>

lemma spend_spawn:
  assumes "account_ok a" "\<not> ta_spawnUnits a \<le> 0"
  shows "account_ok (a\<lparr> ta_spawnUnits := ta_spawnUnits a - 1 \<rparr>)"
    and "phi (a\<lparr> ta_spawnUnits := ta_spawnUnits a - 1 \<rparr>) = phi a - lineageWeightOf (ta_limits a)"
  using assms counter_pos [of "ta_spawnUnits a"]
  by (auto simp: account_ok_def phi_sum algebra_simps)

lemma weight_ge_1: "account_ok a \<Longrightarrow> 1 \<le> lineageWeightOf (ta_limits a)"
  using account_ok_units(3,4) [of a] counter_nonneg [of "tl_maxEscalationsPerLogicalTask (ta_limits a)"]
  by (simp add: lineageWeightOf_def)

lemma debitSpawn_cases:
  assumes "debitSpawn lineage a = Inr (a', r)"
  shows "ta_spawnUnits a \<le> 0 \<and> a' = a \<and> r = Denied R_spawnUnits
         \<or> \<not> ta_spawnUnits a \<le> 0 \<and> a' = a\<lparr> ta_spawnUnits := ta_spawnUnits a - 1 \<rparr> \<and> r = Debited (ta_spawnUnits a - 1)
         \<or> (\<exists>l n. \<not> ta_spawnUnits a \<le> 0 \<and> lineage = Some l
              \<and> n = (case sl_ladderLength l of None \<Rightarrow> 1 | Some m \<Rightarrow> m) \<and> n \<le> tl_kMax (ta_limits a)
              \<and> \<not> jm_has (ta_lineages a) (sl_logicalTaskId l)
              \<and> a' = a\<lparr> ta_lineages := jm_set (sl_logicalTaskId l)
                         \<lparr> ls_escalationUnitsRemaining = tl_maxEscalationsPerLogicalTask (ta_limits a),
                           ls_rungsRemaining = n - 1, ls_rungIndex = 0 \<rparr> (ta_lineages a),
                       ta_spawnUnits := ta_spawnUnits a - 1 \<rparr>
              \<and> r = Debited (ta_spawnUnits a - 1))"
  using assms
  by (simp add: debitSpawn_def Let_def split: option.splits if_splits) (auto simp: not_less)

lemma debitSpawn_effect:
  assumes "account_ok a" "command_sane (D_spawn lineage)" "debitSpawn lineage a = Inr (a', r)"
  shows "debit_effect a False a' (\<exists>b. r = Debited b)"
  using debitSpawn_cases [OF assms(3)]
proof (elim disjE exE conjE)
  show ?thesis if "a' = a" "r = Denied R_spawnUnits"
    using that assms(1) by (simp add: debit_effect_def)
  show ?thesis if "\<not> ta_spawnUnits a \<le> 0" "a' = a\<lparr> ta_spawnUnits := ta_spawnUnits a - 1 \<rparr>"
    "r = Debited (ta_spawnUnits a - 1)"
    using that spend_spawn [OF assms(1)] weight_ge_1 [OF assms(1)] by (simp add: debit_effect_def)
next
  fix l :: spawn_lineage and n
  let ?st = "\<lparr> ls_escalationUnitsRemaining = tl_maxEscalationsPerLogicalTask (ta_limits a),
               ls_rungsRemaining = n - 1, ls_rungIndex = 0 \<rparr>"
  let ?a1 = "a\<lparr> ta_lineages := jm_set (sl_logicalTaskId l) ?st (ta_lineages a) \<rparr>"
  assume units: "\<not> ta_spawnUnits a \<le> 0" and l: "lineage = Some l"
    and n: "n = (case sl_ladderLength l of None \<Rightarrow> 1 | Some m \<Rightarrow> m)" "n \<le> tl_kMax (ta_limits a)"
    and new: "\<not> jm_has (ta_lineages a) (sl_logicalTaskId l)"
    and a': "a' = a\<lparr> ta_lineages := jm_set (sl_logicalTaskId l) ?st (ta_lineages a),
                   ta_spawnUnits := ta_spawnUnits a - 1 \<rparr>"
    and r: "r = Debited (ta_spawnUnits a - 1)"
  have "counter (n - 1)" using assms(2) n(1) l by (auto split: option.splits intro: counter_pred_ge1)
  then have ok1: "account_ok ?a1"
    using account_ok_set [OF assms(1)] account_ok_units(3) [OF assms(1)] by simp
  have phi1: "phi ?a1 = phi a + tl_maxEscalationsPerLogicalTask (ta_limits a) + (n - 1)"
    using phi_set [OF assms(1), of "sl_logicalTaskId l" ?st] new
    by (simp add: lineage_weight_def jm_has_def)
  have "a' = ?a1\<lparr> ta_spawnUnits := ta_spawnUnits ?a1 - 1 \<rparr>" using a' by simp
  moreover have "\<not> ta_spawnUnits ?a1 \<le> 0" using units by simp
  ultimately have "account_ok a'" "phi a' = phi ?a1 - lineageWeightOf (ta_limits ?a1)"
    using spend_spawn [OF ok1] by simp_all
  then show ?thesis using phi1 n(2) a' r by (simp add: debit_effect_def lineageWeightOf_def)
qed

lemma run_debit_effect:
  assumes "account_ok a" "command_sane c"
  shows "debit_effect a (first_touch a c) (fst (run_debit a c)) (snd (run_debit a c))"
proof (cases c)
  case D_revision
  obtain a' r where "debitRevision a = (a', r)" by (cases "debitRevision a")
  then show ?thesis
    using debitRevision_effect [OF assms(1)] D_revision by (cases r) (simp_all add: run_debit_def run_command_def)
next
  case (D_spawn l)
  show ?thesis
  proof (cases "debitSpawn l a")
    case (Inl e)
    then show ?thesis using D_spawn assms(1) by (simp add: run_debit_def run_command_def debit_effect_def)
  next
    case (Inr ar)
    obtain a' r where "ar = (a', r)" by (cases ar)
    then show ?thesis
      using debitSpawn_effect [of a l a' r] assms D_spawn Inr
      by (cases r) (simp_all add: run_debit_def run_command_def)
  qed
next
  case (D_escalation l)
  obtain a' r where "debitEscalation l a = (a', r)" by (cases "debitEscalation l a")
  then show ?thesis
    using debitEscalation_effect [OF assms(1), of l] D_escalation
    by (cases r) (simp_all add: run_debit_def run_command_def)
next
  case (D_rung l)
  obtain a' r where "debitRung l a = (a', r)" by (cases "debitRung l a")
  then show ?thesis
    using debitRung_effect [OF assms(1), of l] D_rung
    by (cases r) (simp_all add: run_debit_def run_command_def)
qed

lemma run_debit_limits: "ta_limits (fst (run_debit a c)) = ta_limits a"
  by (cases c) (auto simp: run_debit_def run_command_def debitRevision_def debitSpawn_def debitEscalation_def
      debitRung_def requireLineage_def Let_def bindR_def split: option.splits sum.splits)

lemma phi_nonneg: "account_ok a \<Longrightarrow> 0 \<le> phi a"
proof -
  assume ok: "account_ok a"
  have "0 \<le> sum_list (map lineage_weight (jm_values (ta_lineages a)))"
    using ok counter_nonneg unfolding account_ok_def lineage_weight_def
    by (intro sum_list_nonneg) fastforce
  then show ?thesis
    using account_ok_units [OF ok] weight_ge_1 [OF ok] counter_nonneg by (simp add: phi_sum)
qed

interpretation ta: ranked_machine run_debit phi account_ok command_sane first_touch
  "\<lambda>a. tl_maxEscalationsPerLogicalTask (ta_limits a)"
  using run_debit_effect run_debit_limits phi_nonneg
  by unfold_locales (simp_all add: debit_effect_def)

lemma limit_count_counter:
  assumes "limit_count raw name fallback = Inr q" "counter fallback"
  shows "counter q"
proof -
  have "q = fallback \<or> js_isInteger (Num q) \<and> \<not> q < 0"
    using assms(1) by (auto simp: limit_count_def Let_def split: js_value.splits js_number.splits if_splits)
  moreover have "counter q" if "js_isInteger (Num q)" "\<not> q < 0"
  proof -
    have "q = of_int \<lfloor>q\<rfloor>" using that(1) by (simp only: js_isInteger.simps)
    moreover have "0 \<le> \<lfloor>q\<rfloor>" using that(2) by simp
    ultimately
    have "q = of_nat (nat \<lfloor>q\<rfloor>)" by (metis nat_0_le of_int_of_nat_eq)
    then show ?thesis by (metis counter_simps(3))
  qed
  ultimately show ?thesis using assms(2) by blast
qed

text \<open>The vector read back from the init entry is the vector written there.\<close>

lemma limit_count_again: "counter q \<Longrightarrow> v_member raw f = V_num (Num q) \<Longrightarrow> limit_count raw f d = Inr q"
  using counter_nonneg [of q] by (auto simp: limit_count_def counter_def not_less Nats_altdef2 Ints_def)

lemma limit_usd_again:
  "limit_usd raw f = Inr n \<Longrightarrow> v_member raw' f' = V_num n \<Longrightarrow> limit_usd raw' f' = Inr n"
  by (auto simp: limit_usd_def split: js_value.splits if_splits)

lemma limits_roundtrip:
  assumes "validateTerminationLimits raw = Inr limits"
  shows "validateTerminationLimits (v_member (buildTerminationInitValue limits h) ''limits'') = Inr limits"
proof -
  let ?w = "V_obj (map (\<lambda>(k, n). (k, V_num n)) (limits_fields limits))"
  have d: "counter DEFAULT_MAX_REVISIONS_PER_RUN" "counter DEFAULT_MAX_TOTAL_SPAWNS" "counter 2" "counter 1"
    by (simp_all add: counter_def DEFAULT_MAX_REVISIONS_PER_RUN_def DEFAULT_MAX_TOTAL_SPAWNS_def)
  have c: "counter (tl_maxRevisionsPerRun limits)" "counter (tl_maxTotalSpawns limits)"
    "counter (tl_maxEscalationsPerLogicalTask limits)" "counter (tl_maxDepth limits)" "counter (tl_kMax limits)"
    "1 \<le> tl_kMax limits"
    using assms limit_count_counter d by (auto simp: validateTerminationLimits_def result_simps not_less split: if_splits)
  have u: "limit_usd raw ''runBudgetUsdCeiling'' = Inr (tl_runBudgetUsdCeiling limits)"
    "limit_usd raw ''orchestratorCapUsd'' = Inr (tl_orchestratorCapUsd limits)"
    "limit_usd raw ''finalizeReserveUsd'' = Inr (tl_finalizeReserveUsd limits)"
    using assms by (auto simp: validateTerminationLimits_def result_simps split: if_splits)
  have m: "v_member ?w f = (case map_of (limits_fields limits) f of None \<Rightarrow> V_undefined | Some n \<Rightarrow> V_num n)" for f
    by (simp add: limits_fields_get split: option.split)
  have w: "v_member (buildTerminationInitValue limits h) ''limits'' = ?w"
    by (simp add: buildTerminationInitValue_def)
  have no: "\<not> v_has ?w ''maxEscalationsPerNode''" by (simp add: limits_fields_def)
  have counts: "limit_count ?w ''kMax'' 1 = Inr (tl_kMax limits)"
    "limit_count ?w ''maxRevisionsPerRun'' dr = Inr (tl_maxRevisionsPerRun limits)"
    "limit_count ?w ''maxTotalSpawns'' ds = Inr (tl_maxTotalSpawns limits)"
    "limit_count ?w ''maxEscalationsPerLogicalTask'' de = Inr (tl_maxEscalationsPerLogicalTask limits)"
    "limit_count ?w ''maxDepth'' dd = Inr (tl_maxDepth limits)" for dr ds de dd
    by (rule limit_count_again; simp add: c limits_fields_def)+
  have usds: "limit_usd ?w ''runBudgetUsdCeiling'' = Inr (tl_runBudgetUsdCeiling limits)"
    "limit_usd ?w ''orchestratorCapUsd'' = Inr (tl_orchestratorCapUsd limits)"
    "limit_usd ?w ''finalizeReserveUsd'' = Inr (tl_finalizeReserveUsd limits)"
    by (rule limit_usd_again [OF u(1)], simp add: limits_fields_def)
      (rule limit_usd_again [OF u(2)], simp add: limits_fields_def,
       rule limit_usd_again [OF u(3)], simp add: limits_fields_def)
  show ?thesis
    unfolding w validateTerminationLimits_def counts usds using no c(6) by simp
qed

lemma new_account_ok:
  assumes "validateTerminationLimits raw = Inr limits"
  shows "account_ok (new_account limits w)"
proof -
  have "counter DEFAULT_MAX_REVISIONS_PER_RUN" "counter DEFAULT_MAX_TOTAL_SPAWNS" "counter 2"
    by (simp_all add: counter_def DEFAULT_MAX_REVISIONS_PER_RUN_def DEFAULT_MAX_TOTAL_SPAWNS_def)
  then show ?thesis
    using assms
    by (auto simp: validateTerminationLimits_def result_simps new_account_def account_ok_def not_less
        split: if_splits intro: limit_count_counter)
qed

lemma phi_new_account [simp]: "phi (new_account limits w) = phiInitialOf limits"
  by (simp add: phi_sum new_account_def phiInitialOf_def)

lemma limits_new_account [simp]: "ta_limits (new_account limits w) = limits"
  by (simp add: new_account_def)

section \<open>Properties of the account\<close>

text \<open>A raw limits record and a short history of debits, for the examples.\<close>

definition small_raw :: js_value where
  "small_raw = V_obj [(''maxRevisionsPerRun'', V_num (Num 2)), (''maxTotalSpawns'', V_num (Num 3)), (''kMax'', V_num (Num 2)),
     (''runBudgetUsdCeiling'', V_num (Num 5)), (''orchestratorCapUsd'', V_num (Num 1)), (''finalizeReserveUsd'', V_num (Num 0))]"

definition small_limits :: termination_limits where
  "small_limits = \<lparr> tl_maxRevisionsPerRun = 2, tl_maxTotalSpawns = 3, tl_maxEscalationsPerLogicalTask = 2, tl_maxDepth = 1,
     tl_kMax = 2, tl_runBudgetUsdCeiling = Num 5, tl_orchestratorCapUsd = Num 1, tl_finalizeReserveUsd = Num 0 \<rparr>"

definition small_history :: "debit_command list" where
  "small_history = [D_spawn (Some \<lparr> sl_logicalTaskId = ''t'', sl_isNew = True, sl_ladderLength = Some 2 \<rparr>),
     D_revision, D_rung ''t'', D_rung ''t'', D_escalation ''t'', D_escalation ''u'', D_spawn None]"

lemma small_limits_valid: "validateTerminationLimits small_raw = Inr small_limits"
  by code_simp

text \<open>C4. The termination lemma. Start from the limits \<open>validateTerminationLimits\<close> accepts and issue any sequence of
  debits, whatever is denied and whatever ladder length is refused on the way. The debits that
  succeed, plus the variant \<open>phi\<close> at the end, never exceed \<open>phiInitialOf\<close> plus the escalation
  allowance of each lineage that was touched before any admission introduced it; and \<open>phi\<close> stays
  non-negative. So a run whose lineages are all admitted makes at most \<open>phiInitialOf\<close> debits.\<close>

theorem termination_lemma:
  assumes "validateTerminationLimits raw = Inr limits"
    and "list_all command_sane cs"
  shows "of_nat (snd (run_all run_debit (new_account limits w) cs)) + phi (fst (run_all run_debit (new_account limits w) cs))
           \<le> phiInitialOf limits
             + tl_maxEscalationsPerLogicalTask limits * of_nat (count_along run_debit first_touch (new_account limits w) cs)
         \<and> 0 \<le> phi (fst (run_all run_debit (new_account limits w) cs))"
  using ta.run_bounded [OF new_account_ok [OF assms(1)] assms(2)]
    phi_nonneg [OF ta.good_run [OF new_account_ok [OF assms(1)] assms(2)]]
  by simp

theorem termination_lemma_witness:
  "snd (run_all run_debit (new_account small_limits None) small_history) = 6
   \<and> count_along run_debit first_touch (new_account small_limits None) small_history = 1
   \<and> phi (fst (run_all run_debit (new_account small_limits None) small_history)) \<le> 10"
proof -
  have "list_all command_sane small_history"
    by (simp add: small_history_def counter_def)
  note bound = termination_lemma [OF small_limits_valid this, of None]
  have "snd (run_all run_debit (new_account small_limits None) small_history) = 6"
    "count_along run_debit first_touch (new_account small_limits None) small_history = 1"
    by code_simp+
  with bound show ?thesis by (simp add: phiInitialOf_def lineageWeightOf_def small_limits_def)
qed

text \<open>
  The first touch of a lineage no admission introduced raises the variant: by the escalation
  allowance less the unit spent, and by the whole allowance on a rung debit, which is denied.
\<close>

lemma first_touch_raises_phi:
  assumes "account_ok a" "\<not> jm_has (ta_lineages a) l" "0 < tl_maxEscalationsPerLogicalTask (ta_limits a)"
  shows "phi (fst (debitEscalation l a)) = phi a + tl_maxEscalationsPerLogicalTask (ta_limits a) - 1"
    and "snd (debitRung l a) = Denied R_rungs"
    and "phi (fst (debitRung l a)) = phi a + tl_maxEscalationsPerLogicalTask (ta_limits a)"
proof -
  obtain st a1 where r: "requireLineage l a = (st, a1)" by (cases "requireLineage l a")
  note p = requireLineage_props [OF assms(1) r]
  have st: "ls_escalationUnitsRemaining st = tl_maxEscalationsPerLogicalTask (ta_limits a)" "ls_rungsRemaining st = 0"
    using requireLineage_cases [OF r] assms(2) by (auto simp: jm_has_def)
  let ?st = "st\<lparr> ls_escalationUnitsRemaining := ls_escalationUnitsRemaining st - 1 \<rparr>"
  have "phi (a1\<lparr> ta_lineages := jm_set l ?st (ta_lineages a1) \<rparr>) = phi a1 - 1"
    using phi_set [OF p(1), of l ?st] p(2) by (simp add: lineage_weight_def)
  then show "phi (fst (debitEscalation l a)) = phi a + tl_maxEscalationsPerLogicalTask (ta_limits a) - 1"
    using p(4) st assms(2,3) by (simp add: debitEscalation_def r)
  show "snd (debitRung l a) = Denied R_rungs"
    "phi (fst (debitRung l a)) = phi a + tl_maxEscalationsPerLogicalTask (ta_limits a)"
    using p(4) st assms(2) by (simp_all add: debitRung_def r)
qed

text \<open>Which command a unified debit issues.\<close>

fun debit_command_of :: "termination_resource \<Rightarrow> string option \<Rightarrow> debit_command option" where
  "debit_command_of R_revisionUnits _ = Some D_revision"
| "debit_command_of R_spawnUnits _ = Some (D_spawn None)"
| "debit_command_of R_escalationUnits l = map_option D_escalation l"
| "debit_command_of R_rungs l = map_option D_rung l"
| "debit_command_of R_depth _ = None"

lemma tryDebit_runs:
  assumes "debit_command_of resource lineage = Some c" "run_debit a c = (a', ok)"
  shows "\<exists>r. tryDebit resource lineage a = Inr (a', r) \<and> (ok \<longleftrightarrow> (\<exists>b. r = Debited b))"
proof (cases resource)
  case R_revisionUnits
  then show ?thesis
    using assms by (auto simp: tryDebit_def run_debit_def run_command_def debitRevision_def split: if_splits)
next
  case R_spawnUnits
  then show ?thesis
    using assms by (auto simp: tryDebit_def run_debit_def run_command_def debitSpawn_def split: if_splits)
next
  case R_escalationUnits
  then obtain l where l: "lineage = Some l" "c = D_escalation l" using assms(1) by auto
  obtain a1 r where d: "debitEscalation l a = (a1, r)" by (cases "debitEscalation l a")
  show ?thesis
    using assms(2) R_escalationUnits l d
    by (cases r) (auto simp: tryDebit_def run_debit_def run_command_def requireLineageId_def)
next
  case R_rungs
  then obtain l where l: "lineage = Some l" "c = D_rung l" using assms(1) by auto
  obtain a1 r where d: "debitRung l a = (a1, r)" by (cases "debitRung l a")
  show ?thesis
    using assms(2) R_rungs l d
    by (cases r) (auto simp: tryDebit_def run_debit_def run_command_def requireLineageId_def)
qed (use assms in simp)

text \<open>The unified \<open>debit\<close>: with a writer bound, a debit that goes through writes nothing; a
  refused one calls the writer exactly once, with the resource, the lineage, the given or the
  standard reason code and the balances after the attempt, before the failure is returned; the
  failure carries the reference the writer handed back, or is the writer's own error. Without a
  writer a refusal is a \<open>ConfigError\<close>.\<close>

lemma debit_denied_first:
  assumes "debit_command_of resource lineage = Some c"
    and "run_debit a c = (a', ok)"
  shows "debit write resource lineage ref reason world a =
    (if ok then (world, (a', Inr (Ok_balance (case tryDebit resource lineage a of Inr (_, Debited b) \<Rightarrow> b))))
     else (case ta_deniedWriter a' of
             None \<Rightarrow> (world, (a', Inl ConfigError))
           | Some w \<Rightarrow>
               (case write w \<lparr> td_resource = resource, td_logicalTaskId = lineage, td_requestedByRef = ref,
                              td_reasonCode = (case reason of Some r \<Rightarrow> r | None \<Rightarrow> exhaustionCodeOf resource),
                              td_snapshotAfter = snapshot a' \<rparr> world of
                  (world', answer) \<Rightarrow> (world', (a', map_sum id (\<lambda>n. Refused_at n resource) answer)))))"
proof -
  obtain r where r: "tryDebit resource lineage a = Inr (a', r)" "ok \<longleftrightarrow> (\<exists>b. r = Debited b)"
    using tryDebit_runs [OF assms] by blast
  then show ?thesis
    by (cases r) (simp_all add: debit_def Let_def split: option.splits prod.splits sum.splits)
qed

section \<open>The replay fold against the debit commands\<close>

text \<open>
  The specification of the fold: the journal is read as a list of debits, each with the seq of its
  carrying entry and the balances that entry embeds; a debit passes when it succeeds and every
  embedded balance is the recomputed one.
\<close>

record journal_debit =
  jd_seq :: nat
  jd_command :: debit_command
  jd_embedded :: "rat option list"

definition balances_agree :: "rat option list \<Rightarrow> rat list \<Rightarrow> bool" where
  "balances_agree embedded bs \<longleftrightarrow> list_all2 (\<lambda>e b. e = None \<or> e = Some b) embedded bs"

definition audit :: "termination_account \<Rightarrow> journal_debit \<Rightarrow> termination_account result" where
  "audit a d =
     bindR (run_command a (jd_command d)) (\<lambda>(a', r).
       case r of
         Denied _ \<Rightarrow> Inl (PlanInvariantError (jd_seq d))
       | Debited bs \<Rightarrow>
           if balances_agree (jd_embedded d) bs then Inr a' else Inl (PlanInvariantError (jd_seq d)))"

definition admission_debit :: "journal_entry \<Rightarrow> fold_admission \<Rightarrow> journal_debit" where
  "admission_debit e ad =
     \<lparr> jd_seq = je_seq e, jd_command = D_spawn (admission_lineage ad), jd_embedded = [as_number (fa_spawnUnitsAfter ad)] \<rparr>"

definition admissions_debits :: "journal_entry \<Rightarrow> journal_debit list" where
  "admissions_debits e = map (admission_debit e) (readAdmissions e)"

definition resolution_debits :: "journal_entry \<Rightarrow> journal_debit list" where
  "resolution_debits e =
     (case je_resolution e of
        None \<Rightarrow> []
      | Some p \<Rightarrow>
          (case rp_logicalTaskId p of
             None \<Rightarrow> []
           | Some l \<Rightarrow>
               if rp_countsAgainstLimit p = Some True \<and> rp_by p \<noteq> By_class_decision
               then [\<lparr> jd_seq = je_seq e, jd_command = D_escalation l, jd_embedded = [None] \<rparr>] else []))"

definition revision_debits :: "journal_entry \<Rightarrow> journal_debit list" where
  "revision_debits e =
     \<lparr> jd_seq = je_seq e, jd_command = D_revision,
        jd_embedded = [as_number (opt_member (asRecord (je_value e)) ''revisionUnitsAfter'')] \<rparr> # admissions_debits e"

definition escalation_debit :: "journal_entry \<Rightarrow> json \<Rightarrow> journal_debit list" where
  "escalation_debit e d =
     (case as_string (member_of d ''logicalTaskId'') of
        None \<Rightarrow> []
      | Some l \<Rightarrow> [\<lparr> jd_seq = je_seq e, jd_command = D_escalation l,
                    jd_embedded = [as_number (member_of d ''escalationUnitsAfter'')] \<rparr>])"

definition decision_debits :: "journal_entry \<Rightarrow> journal_debit list" where
  "decision_debits e =
     (let rec = asRecord (je_value e);
          decisionType = opt_member rec ''decisionType'';
          payload = (case rec of Some v \<Rightarrow> v | None \<Rightarrow> JObj [])
      in if decisionType = Some (JStr ''spawn-admission'') then
           (case readSpawnAdmission payload of None \<Rightarrow> [] | Some ad \<Rightarrow> [admission_debit e ad])
         else if decisionType = Some (JStr ''escalation-decision'')
                 \<and> opt_member rec ''countsAgainstLimit'' = Some (JBool True) then
           concat (map (escalation_debit e) (escalation_debits payload)) @ admissions_debits e
         else if decisionType = Some (JStr ''ladder-verdict'')
                 \<and> opt_member rec ''raisesRung'' = Some (JBool True) then
           (case as_string (opt_member rec ''logicalTaskId'') of
              None \<Rightarrow> []
            | Some l \<Rightarrow>
                \<lparr> jd_seq = je_seq e, jd_command = D_rung l,
                   jd_embedded = [as_number (opt_member rec ''rungIndexAfter''), as_number (opt_member rec ''rungsRemainingAfter'')] \<rparr>
                # admissions_debits e)
         else [])"

definition plain_debits :: "journal_entry \<Rightarrow> journal_debit list" where
  "plain_debits e =
     (if je_kind e = K_plan_revision then revision_debits e
      else if je_kind e = K_decision then decision_debits e else [])"

text \<open>The debits of a journal after its init entry; only the first resolution of a target counts.\<close>

fun journal_debits :: "nat \<Rightarrow> nat list \<Rightarrow> journal_entry list \<Rightarrow> journal_debit list" where
  "journal_debits init shut [] = []"
| "journal_debits init shut (e # es) =
     (if je_seq e \<le> init then journal_debits init shut es
      else (case (je_kind e, je_ref e) of
        (K_resolution, Some r) \<Rightarrow>
          if r \<in> set shut then journal_debits init shut es
          else resolution_debits e @ journal_debits init (shut @ [r]) es
      | _ \<Rightarrow>
          plain_debits e @ journal_debits init shut es))"

lemma assertBalance_iff:
  "assertBalance e v b = (if balances_agree [as_number v] [b] then Inr () else Inl (PlanInvariantError (je_seq e)))"
  by (auto simp: assertBalance_def balances_agree_def split: option.splits)

lemma settle_audit:
  assumes "run_command a (jd_command d) = Inr (map_prod id (map_debit f) r)"
    and "jd_seq d = je_seq e"
    and "\<And>b. check_balance b = (if balances_agree (jd_embedded d) (f b) then Inr () else Inl (PlanInvariantError (je_seq e)))"
  shows "settle e r check_balance = audit a d"
proof -
  obtain a' o' where r: "r = (a', o')" by (cases r)
  show ?thesis
    using assms by (cases o') (auto simp: settle_def audit_def r)
qed

lemma applySpawnDebit_audit: "applySpawnDebit e a ad = audit a (admission_debit e ad)"
proof (cases "debitSpawn (admission_lineage ad) a")
  case (Inl err)
  then show ?thesis by (simp add: applySpawnDebit_def audit_def admission_debit_def run_command_def)
next
  case (Inr r)
  then have "settle e r (assertBalance e (fa_spawnUnitsAfter ad)) = audit a (admission_debit e ad)"
    by (intro settle_audit [where f = "\<lambda>b. [b]"]) (simp_all add: run_command_def admission_debit_def assertBalance_iff)
  with Inr show ?thesis by (simp add: applySpawnDebit_def)
qed

lemma admissions_audit: "foldR (applySpawnDebit e) a (readAdmissions e) = foldR audit a (admissions_debits e)"
  by (simp add: admissions_debits_def foldR_map applySpawnDebit_audit [abs_def])

lemma fold_revision_audit: "fold_revision e a = foldR audit a (revision_debits e)"
  unfolding fold_revision_def revision_debits_def foldR.simps(2) admissions_audit
  by (subst settle_audit [where f = "\<lambda>b. [b]"]) (simp_all add: run_command_def assertBalance_iff)

lemma apply_escalation_audit: "apply_escalation e a d = foldR audit a (escalation_debit e d)"
proof (cases "as_string (member_of d ''logicalTaskId'')")
  case None
  then show ?thesis by (simp add: apply_escalation_def escalation_debit_def)
next
  case (Some l)
  have "settle e (debitEscalation l a) (assertBalance e (member_of d ''escalationUnitsAfter''))
        = audit a \<lparr> jd_seq = je_seq e, jd_command = D_escalation l,
                    jd_embedded = [as_number (member_of d ''escalationUnitsAfter'')] \<rparr>"
    by (rule settle_audit [where f = "\<lambda>b. [b]"]) (simp_all add: run_command_def assertBalance_iff)
  then show ?thesis by (simp add: apply_escalation_def escalation_debit_def Some foldR_single del: foldR.simps)
qed

lemma rung_balances:
  "(case b of (index, rungs) \<Rightarrow> bindR (assertBalance e u index) (\<lambda>_. assertBalance e v rungs))
   = (if balances_agree [as_number u, as_number v] (case b of (i, r) \<Rightarrow> [i, r]) then Inr ()
      else Inl (PlanInvariantError (je_seq e)))"
  by (cases b) (auto simp: assertBalance_iff balances_agree_def)

lemma fold_decision_audit: "fold_decision e a = foldR audit a (decision_debits e)"
proof -
  have escalations: "foldR (apply_escalation e) a ds = foldR audit a (concat (map (escalation_debit e) ds))" for ds
    by (simp add: foldR_concat_map apply_escalation_audit [abs_def])
  have rung: "settle e (debitRung l a) (\<lambda>(index, rungs).
        bindR (assertBalance e u index) (\<lambda>_. assertBalance e v rungs))
      = audit a \<lparr> jd_seq = je_seq e, jd_command = D_rung l, jd_embedded = [as_number u, as_number v] \<rparr>" for l u v
    by (rule settle_audit [where f = "\<lambda>(i, r). [i, r]"]) (simp_all add: run_command_def rung_balances)
  show ?thesis
    unfolding fold_decision_def decision_debits_def Let_def escalations rung admissions_audit applySpawnDebit_audit
    by (simp add: foldR_append foldR_single split: option.split del: foldR.simps(2)) (simp split: option.split)
qed

lemma resolution_audit:
  assumes "r \<notin> set (tf_closedTargets st)"
  shows "fold_resolution e r st = bindR (foldR audit (tf_account st) (resolution_debits e))
           (\<lambda>a. Inr (st\<lparr> tf_closedTargets := tf_closedTargets st @ [r], tf_account := a \<rparr>))"
proof -
  have "settle e (debitEscalation l a) (\<lambda>_. Inr ())
        = audit a \<lparr> jd_seq = je_seq e, jd_command = D_escalation l, jd_embedded = [None] \<rparr>" for l a
    by (rule settle_audit [where f = "\<lambda>b. [b]"]) (simp_all add: run_command_def balances_agree_def)
  then show ?thesis
    using assms
    by (auto simp: fold_resolution_def resolution_debits_def Let_def foldR_single simp del: foldR.simps(2) split: option.splits)
qed

lemma step_other:
  assumes "\<not> (je_kind e = K_resolution \<and> je_ref e \<noteq> None)" "\<not> je_seq e \<le> init"
  shows "map_sum id tf_account (termination_step init st e)
           = foldR audit (tf_account st)
               (plain_debits e)"
    and "termination_step init st e = Inr st' \<Longrightarrow> tf_closedTargets st' = tf_closedTargets st"
proof -
  have fall: "(case (je_kind e, je_ref e) of (K_resolution, Some r) \<Rightarrow> f r | _ \<Rightarrow> g) = g" for f :: "nat \<Rightarrow> 'b" and g
    using assms(1) by (cases "je_kind e"; cases "je_ref e") simp_all
  have st: "termination_step init st e =
      (if je_kind e = K_termination_denied then Inr (st\<lparr> tf_denials := tf_denials st @ [(je_seq e, je_value e)] \<rparr>)
       else if je_kind e = K_plan_revision then
         bindR (foldR audit (tf_account st) (revision_debits e)) (\<lambda>a. Inr (st\<lparr> tf_account := a \<rparr>))
       else if je_kind e = K_decision then
         bindR (foldR audit (tf_account st) (decision_debits e)) (\<lambda>a. Inr (st\<lparr> tf_account := a \<rparr>))
       else Inr st)"
    using assms(2) unfolding termination_step_def fall fold_revision_audit fold_decision_audit by simp
  have lift: "map_sum id tf_account (bindR m (\<lambda>a. Inr (st\<lparr> tf_account := a \<rparr>))) = m" for m
    by (cases m) simp_all
  show "map_sum id tf_account (termination_step init st e)
      = foldR audit (tf_account st)
          (plain_debits e)"
    unfolding st plain_debits_def using lift by simp
  show "tf_closedTargets st' = tf_closedTargets st" if "termination_step init st e = Inr st'"
    using that unfolding st by (auto simp: result_simps split: if_splits)
qed

lemma journal_debits_other:
  assumes "\<not> (je_kind e = K_resolution \<and> je_ref e \<noteq> None)" "\<not> je_seq e \<le> init"
  shows "journal_debits init shut (e # es) =
    plain_debits e @ journal_debits init shut es"
  using assms by (cases "je_kind e"; cases "je_ref e") simp_all

text \<open>The fold over the entries is the audit of the journal's debits.\<close>

lemma fold_steps_audit:
  "map_sum id tf_account (foldR (termination_step init) st es)
   = foldR audit (tf_account st) (journal_debits init (tf_closedTargets st) es)"
proof (induction es arbitrary: st)
  case (Cons e es)
  consider (early) "je_seq e \<le> init"
    | (resolution) r where "\<not> je_seq e \<le> init" "je_kind e = K_resolution" "je_ref e = Some r"
    | (other) "\<not> je_seq e \<le> init" "\<not> (je_kind e = K_resolution \<and> je_ref e \<noteq> None)"
    by blast
  then show ?case
  proof cases
    case early
    then show ?thesis using Cons.IH by (simp add: termination_step_def)
  next
    case (resolution r)
    then have step: "termination_step init st e = fold_resolution e r st" by (simp add: termination_step_def)
    show ?thesis
    proof (cases "r \<in> set (tf_closedTargets st)")
      case True
      then show ?thesis using Cons.IH [of st] resolution step by (simp add: fold_resolution_def)
    next
      case False
      show ?thesis
        using resolution False Cons.IH
        by (cases "foldR audit (tf_account st) (resolution_debits e)")
          (simp_all add: step resolution_audit foldR_append)
    qed
  next
    case other
    note o = step_other [OF other(2,1)]
    show ?thesis
    proof (cases "termination_step init st e")
      case (Inl err)
      then have "foldR audit (tf_account st) (plain_debits e) = Inl err"
        using o(1) [of st] by simp
      then show ?thesis
        unfolding journal_debits_other [OF other(2,1)] foldR_append using Inl by simp
    next
      case (Inr st')
      then have "foldR audit (tf_account st) (plain_debits e) = Inr (tf_account st')"
        using o(1) [of st] by simp
      then show ?thesis
        unfolding journal_debits_other [OF other(2,1)] foldR_append using Inr Cons.IH [of st'] o(2) [OF Inr] by simp
    qed
  qed
qed simp

text \<open>What an audit that passes, and one that stops, says of the debits.\<close>

lemma audit_ok:
  assumes "audit a d = Inr a'"
  shows "run_debit a (jd_command d) = (a', True)"
proof (cases "run_command a (jd_command d)")
  case (Inl err)
  then show ?thesis using assms by (simp add: audit_def)
next
  case (Inr r)
  obtain a1 o1 where "r = (a1, o1)" by (cases r)
  with Inr assms show ?thesis by (cases o1) (auto simp: audit_def run_debit_def split: if_splits)
qed

lemma audits_ok:
  "foldR audit a ds = Inr a' \<Longrightarrow> run_all run_debit a (map jd_command ds) = (a', length ds)"
  by (induction ds arbitrary: a) (auto simp: result_simps dest!: audit_ok)

lemma run_command_error: "run_command a c = Inl err \<Longrightarrow> err = ConfigError"
  by (cases c) (auto simp: run_command_def debitSpawn_def Let_def bindR_def split: sum.splits if_splits option.splits)

lemma audit_divergence:
  assumes "audit a d = Inl (PlanInvariantError n)"
  shows "jd_seq d = n"
    and "case run_command a (jd_command d) of
           Inl _ \<Rightarrow> False | Inr (_, Denied _) \<Rightarrow> True | Inr (_, Debited bs) \<Rightarrow> \<not> balances_agree (jd_embedded d) bs"
  using assms run_command_error [of a "jd_command d"]
  by (auto simp: audit_def bindR_def split: sum.splits debit_outcome.splits if_splits prod.splits)

lemma termination_step_denials:
  "termination_step init st e = Inr st' \<Longrightarrow>
   tf_denials st' = tf_denials st @ (if init < je_seq e \<and> je_kind e = K_termination_denied then [(je_seq e, je_value e)] else [])"
  by (auto simp: termination_step_def fold_resolution_def result_simps Let_def
      split: if_splits entry_kind.splits option.splits)

lemma fold_denials:
  "foldR (termination_step init) st es = Inr st' \<Longrightarrow>
   tf_denials st' = tf_denials st
     @ map (\<lambda>e. (je_seq e, je_value e)) (filter (\<lambda>e. init < je_seq e \<and> je_kind e = K_termination_denied) es)"
  by (induction es arbitrary: st) (auto simp: result_simps dest!: termination_step_denials)

lemma foldTermination_run:
  assumes "List.find (\<lambda>e. je_kind e = K_termination_init) entries = Some initEntry"
    and "readTerminationInit initEntry = Inr (Some iv)"
    and "validateTerminationLimits (js_of_json (ti_limits iv)) = Inr limits"
  shows "map_sum id (map_option (\<lambda>(_, _, st). tf_account st)) (foldTermination entries)
    = map_sum id Some (foldR audit (new_account limits None) (journal_debits (je_seq initEntry) [] entries))"
proof -
  let ?st = "\<lparr> tf_account = new_account limits None, tf_closedTargets = [], tf_denials = [] \<rparr>"
  have "map_sum id tf_account (foldR (termination_step (je_seq initEntry)) ?st entries)
      = foldR audit (new_account limits None) (journal_debits (je_seq initEntry) [] entries)"
    using fold_steps_audit [of "je_seq initEntry" ?st entries] by simp
  then show ?thesis
    using assms by (cases "foldR (termination_step (je_seq initEntry)) ?st entries")
      (auto simp: foldTermination_def dest: sym)
qed

lemma foldTermination_success:
  assumes "foldTermination entries = Inr (Some (s, iv, st))"
  shows "\<exists>initEntry limits. List.find (\<lambda>e. je_kind e = K_termination_init) entries = Some initEntry
     \<and> s = je_seq initEntry \<and> readTerminationInit initEntry = Inr (Some iv)
     \<and> validateTerminationLimits (js_of_json (ti_limits iv)) = Inr limits
     \<and> foldR (termination_step s) \<lparr> tf_account = new_account limits None, tf_closedTargets = [], tf_denials = [] \<rparr> entries
         = Inr st"
  using assms by (auto simp: foldTermination_def result_simps split: option.splits)

text \<open>A journal with a revision that admits a spawn, a rung raise and a denial.\<close>

definition carrying :: "nat \<Rightarrow> entry_kind \<Rightarrow> json \<Rightarrow> journal_entry" where
  "carrying n kind v = (bare_entry 2 n ''root'' ''k'' 0 kind S_ok ''t0'')\<lparr> je_value := Some v \<rparr>"

definition raise_entry :: "nat \<Rightarrow> journal_entry" where
  "raise_entry n = carrying n K_decision (JObj [(''decisionType'', JStr ''ladder-verdict''), (''raisesRung'', JBool True),
     (''logicalTaskId'', JStr ''t''), (''rungIndexAfter'', JNum 1), (''rungsRemainingAfter'', JNum 0)])"

definition audited_journal :: "journal_entry list" where
  "audited_journal =
     [carrying 0 K_termination_init (JObj [(''phiInitial'', JNum 14), (''limits'', JObj
        [(''maxRevisionsPerRun'', JNum 2), (''maxTotalSpawns'', JNum 3), (''kMax'', JNum 2), (''runBudgetUsdCeiling'', JNum 5),
         (''orchestratorCapUsd'', JNum 1), (''finalizeReserveUsd'', JNum 0)])]),
      carrying 1 K_plan_revision (JObj [(''revisionUnitsAfter'', JNum 1), (''admissions'', JArr [JObj [(''decision'',
        JObj [(''ladderLength'', JNum 2), (''verdict'', JObj [(''kind'', JStr ''admit''), (''spawnUnitsAfter'', JNum 2),
          (''lineage'', JObj [(''logicalTaskId'', JStr ''t''), (''isNew'', JBool True)])])])]])]),
      raise_entry 2,
      carrying 3 K_termination_denied (JObj [])]"

definition audited_init :: termination_init where
  "audited_init = \<lparr> ti_limits = JObj
     [(''maxRevisionsPerRun'', JNum 2), (''maxTotalSpawns'', JNum 3), (''kMax'', JNum 2), (''runBudgetUsdCeiling'', JNum 5),
      (''orchestratorCapUsd'', JNum 1), (''finalizeReserveUsd'', JNum 0)],
      ti_profileRegistrySnapshotHash = None, ti_phiInitial = 14 \<rparr>"

definition audited_state :: termination_fold where
  "audited_state = \<lparr> tf_account = \<lparr> ta_limits = small_limits, ta_revisionUnits = 1, ta_spawnUnits = 2,
       ta_lineages = [(''t'', \<lparr> ls_escalationUnitsRemaining = 2, ls_rungsRemaining = 0, ls_rungIndex = 1 \<rparr>)],
       ta_deniedWriter = None \<rparr>,
     tf_closedTargets = [], tf_denials = [(3, Some (JObj []))] \<rparr>"

text \<open>C33. The replay fold refines the live debit API: when \<open>foldTermination\<close> returns an account, the journal's debits,
  read off the entries after the init entry in order (revisions, admissions, escalations, rung
  raises, and the first counting resolution of each target), were all granted by the live debit
  operations starting from the frozen limits, and the account returned is the one they leave
  behind; the denials are the \<open>termination.denied\<close> entries in journal order.\<close>

theorem fold_replays_debits:
  assumes "foldTermination entries = Inr (Some (s, iv, st))"
  shows "\<exists>limits. validateTerminationLimits (js_of_json (ti_limits iv)) = Inr limits
     \<and> run_all run_debit (new_account limits None) (map jd_command (journal_debits s [] entries))
         = (tf_account st, length (journal_debits s [] entries))
     \<and> tf_denials st = map (\<lambda>e. (je_seq e, je_value e))
         (filter (\<lambda>e. s < je_seq e \<and> je_kind e = K_termination_denied) entries)"
proof -
  obtain initEntry limits where
      v: "validateTerminationLimits (js_of_json (ti_limits iv)) = Inr limits"
    and f: "foldR (termination_step s) \<lparr> tf_account = new_account limits None, tf_closedTargets = [], tf_denials = [] \<rparr> entries
         = Inr st"
    using foldTermination_success [OF assms] by blast
  have "foldR audit (new_account limits None) (journal_debits s [] entries) = Inr (tf_account st)"
    using fold_steps_audit [of s "\<lparr> tf_account = new_account limits None, tf_closedTargets = [], tf_denials = [] \<rparr>" entries]
    by (simp add: f)
  from audits_ok [OF this] show ?thesis using v fold_denials [OF f] by simp
qed

theorem fold_replays_debits_witness:
  "foldTermination audited_journal = Inr (Some (0, audited_init, audited_state))
   \<and> (\<exists>limits. run_all run_debit (new_account limits None) (map jd_command (journal_debits 0 [] audited_journal))
        = (tf_account audited_state, 3))"
proof -
  have fold: "foldTermination audited_journal = Inr (Some (0, audited_init, audited_state))" by code_simp
  have "length (journal_debits 0 [] audited_journal) = 3" by code_simp
  with fold_replays_debits [OF fold] fold show ?thesis by auto
qed

text \<open>C39. A divergence is reported at exactly the diverging entry: when the fold raises \<open>PlanInvariantError\<close> at seq
  \<open>n\<close> with well-formed limits, the debits before some debit \<open>d\<close> of the entry at \<open>n\<close> were all granted,
  and \<open>d\<close> itself is refused by the live operation or reports a balance other than an embedded one.\<close>

theorem fold_divergence_located:
  assumes "List.find (\<lambda>e. je_kind e = K_termination_init) entries = Some initEntry"
    and "readTerminationInit initEntry = Inr (Some iv)"
    and "validateTerminationLimits (js_of_json (ti_limits iv)) = Inr limits"
    and "foldTermination entries = Inl (PlanInvariantError n)"
  shows "\<exists>before d after a. journal_debits (je_seq initEntry) [] entries = before @ d # after
     \<and> jd_seq d = n
     \<and> run_all run_debit (new_account limits None) (map jd_command before) = (a, length before)
     \<and> (case run_command a (jd_command d) of
          Inl _ \<Rightarrow> False | Inr (_, Denied _) \<Rightarrow> True | Inr (_, Debited bs) \<Rightarrow> \<not> balances_agree (jd_embedded d) bs)"
proof -
  have "foldR audit (new_account limits None) (journal_debits (je_seq initEntry) [] entries) = Inl (PlanInvariantError n)"
    using foldTermination_run [OF assms(1-3)] assms(4)
    by (cases "foldR audit (new_account limits None) (journal_debits (je_seq initEntry) [] entries)") simp_all
  then obtain before d after a where
      "journal_debits (je_seq initEntry) [] entries = before @ d # after"
      "foldR audit (new_account limits None) before = Inr a" "audit a d = Inl (PlanInvariantError n)"
    using foldR_first_error by metis
  then show ?thesis
    using audits_ok [of "new_account limits None" before a] audit_divergence [of a d n] by blast
qed

theorem fold_divergence_located_witness:
  "foldTermination (audited_journal @ [raise_entry 4]) = Inl (PlanInvariantError 4)
   \<and> (\<exists>before d after. journal_debits 0 [] (audited_journal @ [raise_entry 4]) = before @ d # after \<and> jd_seq d = 4)"
proof -
  have i: "List.find (\<lambda>e. je_kind e = K_termination_init) (audited_journal @ [raise_entry 4]) = Some (hd audited_journal)"
    by code_simp
  have r: "readTerminationInit (hd audited_journal) = Inr (Some audited_init)" by code_simp
  have v: "validateTerminationLimits (js_of_json (ti_limits audited_init)) = Inr small_limits" by code_simp
  have f: "foldTermination (audited_journal @ [raise_entry 4]) = Inl (PlanInvariantError 4)" by code_simp
  have "je_seq (hd audited_journal) = 0" by code_simp
  with fold_divergence_located [OF i r v f] f show ?thesis by auto
qed

end
