(* ===== verification/EffectTypes.thy ===== *)
theory EffectTypes
  imports Entries
begin

text \<open>
  The vocabulary of the effect lane and its reader, \<open>packages/core/src/effects/types.ts\<close>. A lane
  fact is a \<open>decision\<close> entry with a lane \<open>decisionType\<close>; a payload that fails validation reads as
  malformed. Members the reader checks have their type here, members it casts without a check stay
  JSON; the texts of the malformed verdicts are not kept.
\<close>

section \<open>Decisions\<close>

datatype capability_row = Row_idempotency_key | Row_lookup | Row_neither
datatype lookup_qualification = Acceptance_closing | Conditional_create
datatype effect_class = Class_monetary | Class_signing | Class_case
datatype terminal_kind = T_confirmed | T_quarantined | T_cancelled_before_dispatch | T_compensated | T_refused
datatype attempt_outcome = O_accepted | O_failed | O_unknown
datatype receipt_verification = Verified | Unverified
datatype probe_kind = Probe_lookup | Probe_close_acceptance

record effect_budgets =
  eb_attempts :: nat
  eb_lookups :: nat
  eb_receiptWaitMs :: rat
  eb_authorizationWaitMs :: "rat option"
  eb_reconcileBy :: string

record effect_declared =
  ed_logicalKey :: string
  ed_effectClass :: effect_class
  ed_capabilityRow :: capability_row
  ed_argumentsHash :: string
  ed_amountOrDocumentHash :: "json option"

record effect_intent =
  ei_opId :: string
  ei_logicalKey :: string
  ei_approvalRef :: nat
  ei_epochRef :: nat
  ei_effectClass :: effect_class
  ei_capabilityRow :: capability_row
  ei_lookupQualification :: "json option"
  ei_argumentsHash :: string
  ei_artifactHash :: "json option"
  ei_configFingerprint :: "json option"
  ei_budgets :: effect_budgets
  ei_compensates :: "nat option"
  ei_successorOf :: "nat option"

record effect_attempt =
  ea_intentRef :: nat
  ea_ordinal :: nat
  ea_notAfter :: string
  ea_idempotencyKey :: "json option"
  ea_transport :: "json option"

record effect_receipt =
  er_intentRef :: nat
  er_verification :: receipt_verification
  er_transferId :: "json option"
  er_amount :: "json option"
  er_currency :: "json option"
  er_documentHash :: "json option"
  er_providerRef :: "json option"
  er_timestamp :: "json option"

record effect_terminal =
  et_intentRef :: "nat option"
  et_logicalKey :: "json option"
  et_terminal :: terminal_kind
  et_reason :: "json option"
  et_causalRef :: "json option"

text \<open>The decisions beside their operation id; the small payloads are constructor arguments.\<close>

datatype effect_decision =
    E_epoch string "int option"
  | E_declared effect_declared
  | E_intent effect_intent
  | E_attempt effect_attempt
  | E_outcome nat nat attempt_outcome
  | E_receipt effect_receipt
  | E_terminal effect_terminal
  | E_incident nat string "json option" "json option"
  | E_disposition nat string string string "json option"
  | E_probe nat probe_kind bool "json option"
  | E_reconciliation_complete nat

datatype effect_lane_read = Not_lane | Malformed | Lane string effect_decision

section \<open>Checks\<close>

definition nonEmptyString :: "json option \<Rightarrow> string option" where
  "nonEmptyString v = (case as_string v of Some s \<Rightarrow> if s = [] then None else Some s | None \<Rightarrow> None)"

definition isPositiveInt :: "json option \<Rightarrow> nat option" where
  "isPositiveInt v = (case as_seq v of Some n \<Rightarrow> if 0 < n then Some n else None | None \<Rightarrow> None)"

fun as_boolean :: "json option \<Rightarrow> bool option" where
  "as_boolean (Some (JBool b)) = Some b"
| "as_boolean _ = None"

definition as_integer :: "json option \<Rightarrow> int option" where
  "as_integer v =
     (case as_number v of Some q \<Rightarrow> if of_int \<lfloor>q\<rfloor> = q then Some \<lfloor>q\<rfloor> else None | None \<Rightarrow> None)"

text \<open>A literal union read by its table.\<close>

definition one_of :: "(string \<times> 'a) list \<Rightarrow> json option \<Rightarrow> 'a option" where
  "one_of table v = Option.bind (as_string v) (map_of table)"

definition isCapabilityRow :: "json option \<Rightarrow> capability_row option" where
  "isCapabilityRow = one_of
     [(''idempotency-key'', Row_idempotency_key), (''lookup'', Row_lookup), (''neither'', Row_neither)]"

definition isEffectClass :: "json option \<Rightarrow> effect_class option" where
  "isEffectClass = one_of [(''monetary'', Class_monetary), (''signing'', Class_signing), (''case'', Class_case)]"

definition isTerminalState :: "json option \<Rightarrow> terminal_kind option" where
  "isTerminalState = one_of
     [(''confirmed'', T_confirmed), (''quarantined'', T_quarantined),
      (''cancelled-before-dispatch'', T_cancelled_before_dispatch),
      (''compensated'', T_compensated), (''refused'', T_refused)]"

definition lookupQualificationOf :: "json option \<Rightarrow> lookup_qualification option" where
  "lookupQualificationOf = one_of
     [(''acceptance-closing'', Acceptance_closing), (''conditional-create'', Conditional_create)]"

definition outcomeOf :: "json option \<Rightarrow> attempt_outcome option" where
  "outcomeOf = one_of [(''accepted'', O_accepted), (''failed'', O_failed), (''unknown'', O_unknown)]"

definition verificationOf :: "json option \<Rightarrow> receipt_verification option" where
  "verificationOf = one_of [(''verified'', Verified), (''unverified'', Unverified)]"

definition probeOf :: "json option \<Rightarrow> probe_kind option" where
  "probeOf = one_of [(''lookup'', Probe_lookup), (''close-acceptance'', Probe_close_acceptance)]"

definition non_negative :: "json option \<Rightarrow> rat option" where
  "non_negative v = (case as_number v of Some q \<Rightarrow> if 0 \<le> q then Some q else None | None \<Rightarrow> None)"

text \<open>An optional member: absent, or present and passing its check.\<close>

definition optionally :: "(json option \<Rightarrow> 'a option) \<Rightarrow> json option \<Rightarrow> 'a option option" where
  "optionally check v = (case v of None \<Rightarrow> Some None | Some _ \<Rightarrow> map_option Some (check v))"

definition isBudgets :: "json option \<Rightarrow> effect_budgets option" where
  "isBudgets v =
     Option.bind (asRecord v) (\<lambda>r.
     Option.bind (isPositiveInt (member_of r ''attempts'')) (\<lambda>attempts.
     Option.bind (as_seq (member_of r ''lookups'')) (\<lambda>lookups.
     Option.bind (non_negative (member_of r ''receiptWaitMs'')) (\<lambda>receiptWait.
     Option.bind (optionally non_negative (member_of r ''authorizationWaitMs'')) (\<lambda>authorizationWait.
     Option.bind (nonEmptyString (member_of r ''reconcileBy'')) (\<lambda>reconcileBy.
       Some \<lparr> eb_attempts = attempts, eb_lookups = lookups, eb_receiptWaitMs = receiptWait,
              eb_authorizationWaitMs = authorizationWait, eb_reconcileBy = reconcileBy \<rparr>))))))"

section \<open>The reader\<close>

definition EFFECT_LANE_DECISION_TYPES :: "string list" where
  "EFFECT_LANE_DECISION_TYPES =
     [''effect_epoch'', ''effect_declared'', ''effect_intent'', ''effect_attempt'', ''effect_outcome'',
      ''effect_receipt'', ''effect_terminal'', ''effect_incident'', ''effect_disposition'', ''effect_probe'',
      ''effect_reconciliation_complete'']"

definition read_epoch :: "json \<Rightarrow> effect_decision option" where
  "read_epoch r =
     Option.bind (nonEmptyString (member_of r ''generation'')) (\<lambda>generation.
     Option.bind (optionally as_integer (member_of r ''restorationGeneration'')) (\<lambda>restoration.
       Some (E_epoch generation restoration)))"

definition read_declared :: "json \<Rightarrow> effect_decision option" where
  "read_declared r =
     Option.bind (nonEmptyString (member_of r ''logicalKey'')) (\<lambda>logicalKey.
     Option.bind (isEffectClass (member_of r ''effectClass'')) (\<lambda>cls.
     Option.bind (isCapabilityRow (member_of r ''capabilityRow'')) (\<lambda>row.
     Option.bind (nonEmptyString (member_of r ''argumentsHash'')) (\<lambda>argumentsHash.
       Some (E_declared \<lparr> ed_logicalKey = logicalKey, ed_effectClass = cls, ed_capabilityRow = row,
               ed_argumentsHash = argumentsHash,
               ed_amountOrDocumentHash = member_of r ''amountOrDocumentHash'' \<rparr>)))))"

definition read_intent :: "string \<Rightarrow> json \<Rightarrow> effect_decision option" where
  "read_intent opId r =
     Option.bind (nonEmptyString (member_of r ''logicalKey'')) (\<lambda>logicalKey.
     Option.bind (as_seq (member_of r ''approvalRef'')) (\<lambda>approvalRef.
     Option.bind (as_seq (member_of r ''epochRef'')) (\<lambda>epochRef.
     Option.bind (isEffectClass (member_of r ''effectClass'')) (\<lambda>cls.
     Option.bind (isCapabilityRow (member_of r ''capabilityRow'')) (\<lambda>row.
     Option.bind (nonEmptyString (member_of r ''argumentsHash'')) (\<lambda>argumentsHash.
     Option.bind (isBudgets (member_of r ''budgets'')) (\<lambda>budgets.
     if row = Row_lookup \<and> lookupQualificationOf (member_of r ''lookupQualification'') = None then None
     else
     Option.bind (optionally as_seq (member_of r ''compensates'')) (\<lambda>compensates.
     Option.bind (optionally as_seq (member_of r ''successorOf'')) (\<lambda>successorOf.
       Some (E_intent \<lparr> ei_opId = opId, ei_logicalKey = logicalKey, ei_approvalRef = approvalRef, ei_epochRef = epochRef,
               ei_effectClass = cls, ei_capabilityRow = row,
               ei_lookupQualification = member_of r ''lookupQualification'',
               ei_argumentsHash = argumentsHash, ei_artifactHash = member_of r ''artifactHash'',
               ei_configFingerprint = member_of r ''configFingerprint'', ei_budgets = budgets,
               ei_compensates = compensates, ei_successorOf = successorOf \<rparr>))))))))))"

definition read_attempt :: "json \<Rightarrow> effect_decision option" where
  "read_attempt r =
     Option.bind (as_seq (member_of r ''intentRef'')) (\<lambda>intentRef.
     Option.bind (isPositiveInt (member_of r ''ordinal'')) (\<lambda>ordinal.
     Option.bind (nonEmptyString (member_of r ''notAfter'')) (\<lambda>notAfter.
       Some (E_attempt \<lparr> ea_intentRef = intentRef, ea_ordinal = ordinal, ea_notAfter = notAfter,
               ea_idempotencyKey = member_of r ''idempotencyKey'', ea_transport = member_of r ''transport'' \<rparr>))))"

definition read_outcome :: "json \<Rightarrow> effect_decision option" where
  "read_outcome r =
     Option.bind (as_seq (member_of r ''intentRef'')) (\<lambda>intentRef.
     Option.bind (as_seq (member_of r ''attemptRef'')) (\<lambda>attemptRef.
     Option.bind (outcomeOf (member_of r ''outcome'')) (\<lambda>outcome.
       Some (E_outcome intentRef attemptRef outcome))))"

definition read_receipt :: "json \<Rightarrow> effect_decision option" where
  "read_receipt r =
     Option.bind (as_seq (member_of r ''intentRef'')) (\<lambda>intentRef.
     Option.bind (verificationOf (member_of r ''verification'')) (\<lambda>verification.
       Some (E_receipt \<lparr> er_intentRef = intentRef, er_verification = verification,
               er_transferId = member_of r ''transferId'', er_amount = member_of r ''amount'',
               er_currency = member_of r ''currency'', er_documentHash = member_of r ''documentHash'',
               er_providerRef = member_of r ''providerRef'', er_timestamp = member_of r ''timestamp'' \<rparr>)))"

definition read_terminal :: "json \<Rightarrow> effect_decision option" where
  "read_terminal r =
     Option.bind (isTerminalState (member_of r ''terminal'')) (\<lambda>terminal.
       let decision = (\<lambda>intentRef. Some (E_terminal \<lparr> et_intentRef = intentRef,
             et_logicalKey = member_of r ''logicalKey'', et_terminal = terminal,
             et_reason = member_of r ''reason'', et_causalRef = member_of r ''causalRef'' \<rparr>))
       in case member_of r ''intentRef'' of
            None \<Rightarrow>
              if terminal \<noteq> T_refused \<and> terminal \<noteq> T_quarantined \<or> nonEmptyString (member_of r ''logicalKey'') = None
              then None else decision None
          | Some v \<Rightarrow> Option.bind (as_seq (Some v)) (\<lambda>n. decision (Some n)))"

definition read_incident :: "json \<Rightarrow> effect_decision option" where
  "read_incident r =
     Option.bind (as_seq (member_of r ''intentRef'')) (\<lambda>intentRef.
     Option.bind (nonEmptyString (member_of r ''incident'')) (\<lambda>incident.
       Some (E_incident intentRef incident (member_of r ''causalRef'') (member_of r ''detail''))))"

definition read_probe :: "json \<Rightarrow> effect_decision option" where
  "read_probe r =
     Option.bind (as_seq (member_of r ''intentRef'')) (\<lambda>intentRef.
     Option.bind (probeOf (member_of r ''probe'')) (\<lambda>probe.
     Option.bind (as_boolean (member_of r ''found'')) (\<lambda>found.
       Some (E_probe intentRef probe found (member_of r ''acceptanceClosed'')))))"

definition read_disposition :: "json \<Rightarrow> effect_decision option" where
  "read_disposition r =
     Option.bind (as_seq (member_of r ''intentRef'')) (\<lambda>intentRef.
     Option.bind (nonEmptyString (member_of r ''principal'')) (\<lambda>principal.
     Option.bind (nonEmptyString (member_of r ''reason'')) (\<lambda>reason.
     Option.bind (nonEmptyString (member_of r ''disposition'')) (\<lambda>disposition.
       Some (E_disposition intentRef principal reason disposition (member_of r ''causalRef''))))))"

definition read_payload :: "string \<Rightarrow> string \<Rightarrow> json \<Rightarrow> effect_decision option" where
  "read_payload decisionType opId r =
     (if decisionType = ''effect_epoch'' then read_epoch r
      else if decisionType = ''effect_declared'' then read_declared r
      else if decisionType = ''effect_intent'' then read_intent opId r
      else if decisionType = ''effect_attempt'' then read_attempt r
      else if decisionType = ''effect_outcome'' then read_outcome r
      else if decisionType = ''effect_receipt'' then read_receipt r
      else if decisionType = ''effect_terminal'' then read_terminal r
      else if decisionType = ''effect_incident'' then read_incident r
      else if decisionType = ''effect_probe'' then read_probe r
      else if decisionType = ''effect_reconciliation_complete'' then
        map_option E_reconciliation_complete (as_seq (member_of r ''epochRef''))
      else if decisionType = ''effect_disposition'' then read_disposition r
      else None)"

definition readEffectLaneDecision :: "journal_entry \<Rightarrow> effect_lane_read" where
  "readEffectLaneDecision e =
     (if je_kind e \<noteq> K_decision then Not_lane
      else (case as_string (opt_member (je_value e) ''decisionType'') of
        None \<Rightarrow> Not_lane
      | Some decisionType \<Rightarrow>
          if decisionType \<notin> set EFFECT_LANE_DECISION_TYPES then Not_lane
          else (case nonEmptyString (opt_member (je_value e) ''opId'') of
            None \<Rightarrow> Malformed
          | Some opId \<Rightarrow>
              (case Option.bind (je_value e) (read_payload decisionType opId) of
                 None \<Rightarrow> Malformed
               | Some d \<Rightarrow> Lane opId d))))"

definition readApprovalExpired :: "journal_entry \<Rightarrow> (nat \<times> string) option" where
  "readApprovalExpired e =
     (if je_kind e \<noteq> K_decision then None
      else if opt_member (je_value e) ''decisionType'' \<noteq> Some (JStr ''approval_expired'') then None
      else Option.bind (as_seq (opt_member (je_value e) ''targetRef'')) (\<lambda>targetRef.
           Option.bind (nonEmptyString (opt_member (je_value e) ''expiresAt'')) (\<lambda>expiresAt.
             Some (targetRef, expiresAt))))"

definition readApprovalRevoked :: "journal_entry \<Rightarrow> nat option" where
  "readApprovalRevoked e =
     (if je_kind e \<noteq> K_decision then None
      else if opt_member (je_value e) ''decisionType'' \<noteq> Some (JStr ''approval_revoked'') then None
      else as_seq (opt_member (je_value e) ''targetRef''))"

definition approvalLicensedKey :: "journal_entry \<Rightarrow> string option" where
  "approvalLicensedKey e = nonEmptyString (opt_member (je_value e) ''effectLogicalKey'')"

lemma read_lane_opId:
  assumes "readEffectLaneDecision e = Lane opId d"
  shows "opId \<noteq> []" and "je_kind e = K_decision" and "opt_member (je_value e) ''opId'' = Some (JStr opId)"
  using assms
  by (auto simp: readEffectLaneDecision_def nonEmptyString_def split: if_splits option.splits)

end
