(* ===== verification/EffectFold.thy ===== *)
theory EffectFold
  imports EffectTypes ResolutionFold
begin

text \<open>
  The effect lane fold, \<open>packages/core/src/effects/fold.ts\<close>: one pass over the journal that decides
  which intents consumed their approval, which attempts may be sent, and how each effect machine
  ends. The canonical-intent map is keyed by the pair of epoch position and logical key, for which
  the code uses the text joining them with a colon. Texts of the refusals are not kept; the branch
  that refused is.
\<close>

section \<open>State\<close>

datatype void_reason =
    No_epoch | Stale_epoch | No_such_approval | Approval_not_allowed | Approval_revoked | Approval_expired
  | Approval_names_no_key | Approval_key_mismatch | Duplicate_logical_key | Compensation_depth | Bad_causal_ref

datatype invalid_reason =
    Re_dispatch_disabled
  | Attempt_already_open
  | No_such_attempt
  | Attempt_closed
  | Illegal_cancel
  | Confirmed_without_receipt
  | Compensation_unlicensed
  | No_such_epoch
  | No_such_intent
  | Void_intent

datatype lane_classification =
    L_applied
  | L_replay nat
  | L_void void_reason
  | L_superseded nat
  | L_incident nat
  | L_invalid invalid_reason
  | L_malformed

datatype machine_state = MS_intent | MS_dispatching | MS_awaiting_receipt | MS_unknown | MS_terminal terminal_kind

record attempt_state =
  at_seq :: nat
  at_ordinal :: nat
  at_notAfter :: string
  at_idempotencyKey :: "json option"
  at_transport :: "json option"
  at_open :: bool
  at_outcome :: "attempt_outcome option"
  at_outcomeSeq :: "nat option"
  at_at :: string
  at_outcomeAt :: "string option"

record receipt_state =
  rs_seq :: nat
  rs_at :: string
  rs_verification :: receipt_verification
  rs_transferId :: "json option"
  rs_amount :: "json option"
  rs_currency :: "json option"
  rs_documentHash :: "json option"
  rs_providerRef :: "json option"
  rs_timestamp :: "json option"
  rs_benignDuplicateOf :: "nat option"
  rs_conflictWith :: "nat option"

record incident_state =
  ic_seq :: nat
  ic_incident :: string
  ic_causalRef :: "json option"
  ic_detail :: "json option"

record disposition_state =
  dp_seq :: nat
  dp_principal :: string
  dp_reason :: string
  dp_disposition :: string
  dp_causalRef :: "json option"

record probe_state =
  pb_seq :: nat
  pb_probe :: probe_kind
  pb_found :: bool
  pb_acceptanceClosed :: "json option"

record machine_terminal =
  mt_seq :: nat
  mt_terminal :: terminal_kind
  mt_reason :: "json option"
  mt_causalRef :: "json option"

datatype closer_kind = Revoked | Expired

record effect_machine =
  em_intentSeq :: nat
  em_at :: string
  em_intent :: effect_intent
  em_consumed :: bool
  em_voidReason :: "void_reason option"
  em_state :: machine_state
  em_attempts :: "attempt_state list"
  em_receipts :: "receipt_state list"
  em_incidents :: "incident_state list"
  em_dispositions :: "disposition_state list"
  em_probes :: "probe_state list"
  em_terminal :: "machine_terminal option"
  em_pendingConflict :: "nat option"
  em_postIntentCloser :: "(nat \<times> closer_kind) option"
  em_compensatedBy :: "nat option"

record epoch_state =
  ep_seq :: nat
  ep_generation :: string
  ep_restorationGeneration :: "int option"
  ep_needsReconciliation :: bool
  ep_reconciled :: bool

record standalone_record =
  sr_seq :: nat
  sr_logicalKey :: string
  sr_reason :: "json option"

record effect_lane_fold =
  elf_bySeq :: "(nat, journal_entry) jsmap"
  elf_machines :: "(nat, effect_machine) jsmap"
  elf_canonical :: "(nat \<times> string, nat) jsmap"
  elf_classifications :: "(nat, lane_classification) jsmap"
  elf_opIds :: "(string, nat) jsmap"
  elf_epochs :: "epoch_state list"
  elf_declarations :: "(nat \<times> effect_declared) list"
  elf_refusals :: "standalone_record list"
  elf_quarantines :: "standalone_record list"
  elf_revoked :: "(nat, nat list) jsmap"
  elf_expired :: "(nat, nat list) jsmap"
  elf_resolutions :: resolution_fold

definition effectiveEffectState :: "effect_machine \<Rightarrow> machine_state" where
  "effectiveEffectState m =
     (if em_state m = MS_terminal T_confirmed \<and> em_compensatedBy m \<noteq> None
      then MS_terminal T_compensated else em_state m)"

section \<open>Small steps\<close>

definition classify :: "nat \<Rightarrow> lane_classification \<Rightarrow> effect_lane_fold \<Rightarrow> effect_lane_fold" where
  "classify sq c f = f\<lparr> elf_classifications := jm_set sq c (elf_classifications f) \<rparr>"

definition put_machine :: "effect_machine \<Rightarrow> effect_lane_fold \<Rightarrow> effect_lane_fold" where
  "put_machine m f = f\<lparr> elf_machines := jm_set (em_intentSeq m) m (elf_machines f) \<rparr>"

definition index_of :: "(nat, nat list) jsmap \<Rightarrow> nat \<Rightarrow> nat list" where
  "index_of m ref = (case jm_get m ref of None \<Rightarrow> [] | Some l \<Rightarrow> l)"

definition firstAtOrBelow :: "nat list \<Rightarrow> nat \<Rightarrow> nat option" where
  "firstAtOrBelow l position = List.find (\<lambda>s. s < position) l"

definition firstAbove :: "nat list \<Rightarrow> nat \<Rightarrow> nat option" where
  "firstAbove l position = List.find (\<lambda>s. position < s) l"

definition latestEpochBefore :: "effect_lane_fold \<Rightarrow> nat \<Rightarrow> epoch_state option" where
  "latestEpochBefore f position =
     foldl (\<lambda>latest ep. if ep_seq ep < position then Some ep else latest) None (elf_epochs f)"

definition closerAfterIntent :: "effect_lane_fold \<Rightarrow> effect_machine \<Rightarrow> (nat \<times> closer_kind) option" where
  "closerAfterIntent f m =
     (let revoked = firstAbove (index_of (elf_revoked f) (ei_approvalRef (em_intent m))) (em_intentSeq m);
          expired = firstAbove (index_of (elf_expired f) (ei_approvalRef (em_intent m))) (em_intentSeq m)
      in case (revoked, expired) of
           (None, None) \<Rightarrow> None
         | (Some r, None) \<Rightarrow> Some (r, Revoked)
         | (None, Some x) \<Rightarrow> Some (x, Expired)
         | (Some r, Some x) \<Rightarrow> if r \<le> x then Some (r, Revoked) else Some (x, Expired))"

text \<open>The machine a sub-record addresses, or the reason it addresses none.\<close>

definition liveMachine :: "effect_lane_fold \<Rightarrow> nat \<Rightarrow> invalid_reason + effect_machine" where
  "liveMachine f intentRef =
     (case jm_get (elf_machines f) intentRef of
        None \<Rightarrow> Inl No_such_intent
      | Some m \<Rightarrow> if em_consumed m then Inr m else Inl Void_intent)"

definition on_machine ::
  "nat \<Rightarrow> nat \<Rightarrow> (effect_machine \<Rightarrow> effect_machine \<times> lane_classification) \<Rightarrow> effect_lane_fold \<Rightarrow> effect_lane_fold" where
  "on_machine sq intentRef act f =
     (case liveMachine f intentRef of
        Inl why \<Rightarrow> classify sq (L_invalid why) f
      | Inr m \<Rightarrow> (case act m of (m', c) \<Rightarrow> classify sq c (put_machine m' f)))"

section \<open>Intents\<close>

definition new_machine :: "journal_entry \<Rightarrow> effect_intent \<Rightarrow> effect_machine" where
  "new_machine e i = \<lparr>
     em_intentSeq = je_seq e, em_at = je_startedAt e, em_intent = i, em_consumed = False, em_voidReason = None,
     em_state = MS_terminal T_refused, em_attempts = [], em_receipts = [], em_incidents = [], em_dispositions = [],
     em_probes = [], em_terminal = None, em_pendingConflict = None, em_postIntentCloser = None, em_compensatedBy = None \<rparr>"

definition approval_allowed :: "resolution_fold \<Rightarrow> nat \<Rightarrow> nat \<Rightarrow> bool" where
  "approval_allowed rf approvalRef position =
     (case suspensionState rf approvalRef of
        Resolved by v \<Rightarrow> by < position \<and> opt_member (Some v) ''decision'' = Some (JStr ''allow'')
      | _ \<Rightarrow> False)"

definition causal_machine :: "effect_lane_fold \<Rightarrow> nat \<Rightarrow> effect_machine option" where
  "causal_machine f ref =
     (case jm_get (elf_machines f) ref of Some m \<Rightarrow> if em_consumed m then Some m else None | None \<Rightarrow> None)"

text \<open>Compensations reach back one step only.\<close>

definition compensation_verdict :: "effect_lane_fold \<Rightarrow> effect_intent \<Rightarrow> void_reason option" where
  "compensation_verdict f i =
     (case ei_compensates i of
        None \<Rightarrow> None
      | Some c \<Rightarrow>
          (case causal_machine f c of
             None \<Rightarrow> Some Bad_causal_ref
           | Some target \<Rightarrow> if ei_compensates (em_intent target) \<noteq> None then Some Compensation_depth else None))"

definition successor_missing :: "effect_lane_fold \<Rightarrow> effect_intent \<Rightarrow> bool" where
  "successor_missing f i = (case ei_successorOf i of Some s \<Rightarrow> causal_machine f s = None | None \<Rightarrow> False)"

text \<open>The consumption verdict of an intent at its position, in the order of the early returns.\<close>

definition approval_verdict :: "effect_lane_fold \<Rightarrow> nat \<Rightarrow> effect_intent \<Rightarrow> void_reason option" where
  "approval_verdict f position i =
     (case jm_get (elf_bySeq f) (ei_approvalRef i) of
        None \<Rightarrow> Some No_such_approval
      | Some approval \<Rightarrow>
          if je_kind approval \<noteq> K_approval then Some No_such_approval
          else if \<not> approval_allowed (elf_resolutions f) (ei_approvalRef i) position then Some Approval_not_allowed
          else if firstAtOrBelow (index_of (elf_revoked f) (ei_approvalRef i)) position \<noteq> None then Some Approval_revoked
          else if firstAtOrBelow (index_of (elf_expired f) (ei_approvalRef i)) position \<noteq> None then Some Approval_expired
          else (case approvalLicensedKey approval of
            None \<Rightarrow> Some Approval_names_no_key
          | Some key \<Rightarrow> if key \<noteq> ei_logicalKey i then Some Approval_key_mismatch else None))"

definition consumption_verdict :: "effect_lane_fold \<Rightarrow> journal_entry \<Rightarrow> effect_intent \<Rightarrow> void_reason option" where
  "consumption_verdict f e i =
     (case latestEpochBefore f (je_seq e) of
        None \<Rightarrow> Some No_epoch
      | Some epoch \<Rightarrow>
          if ep_seq epoch \<noteq> ei_epochRef i then Some Stale_epoch
          else (case approval_verdict f (je_seq e) i of
            Some reason \<Rightarrow> Some reason
          | None \<Rightarrow>
              (case compensation_verdict f i of
                 Some reason \<Rightarrow> Some reason
               | None \<Rightarrow>
                   if successor_missing f i then Some Bad_causal_ref
                   else if jm_get (elf_canonical f) (ep_seq epoch, ei_logicalKey i) \<noteq> None
                   then Some Duplicate_logical_key else None)))"

definition applyIntent :: "journal_entry \<Rightarrow> effect_intent \<Rightarrow> effect_lane_fold \<Rightarrow> effect_lane_fold" where
  "applyIntent e i f =
     (let f1 = put_machine (new_machine e i) f
      in case consumption_verdict f1 e i of
           Some reason \<Rightarrow>
             classify (je_seq e) (L_void reason)
               (put_machine ((new_machine e i)\<lparr> em_voidReason := Some reason \<rparr>) f1)
         | None \<Rightarrow>
             classify (je_seq e) L_applied
               (put_machine ((new_machine e i)\<lparr> em_consumed := True, em_state := MS_intent \<rparr>)
                 (f1\<lparr> elf_canonical := jm_set (ei_epochRef i, ei_logicalKey i) (je_seq e) (elf_canonical f1) \<rparr>)))"

section \<open>Attempts, outcomes and receipts\<close>

definition open_attempt :: "journal_entry \<Rightarrow> effect_attempt \<Rightarrow> attempt_state" where
  "open_attempt e d = \<lparr> at_seq = je_seq e, at_ordinal = ea_ordinal d, at_notAfter = ea_notAfter d,
     at_idempotencyKey = ea_idempotencyKey d, at_transport = ea_transport d, at_open = True, at_outcome = None,
     at_outcomeSeq = None, at_at = je_startedAt e, at_outcomeAt = None \<rparr>"

definition dispatch_disabled :: "effect_lane_fold \<Rightarrow> effect_machine \<Rightarrow> nat \<Rightarrow> bool" where
  "dispatch_disabled f m position = (case closerAfterIntent f m of Some (c, _) \<Rightarrow> c < position | None \<Rightarrow> False)"

definition applyAttempt ::
  "effect_lane_fold \<Rightarrow> journal_entry \<Rightarrow> effect_attempt \<Rightarrow> effect_machine \<Rightarrow> effect_machine \<times> lane_classification" where
  "applyAttempt f e d m =
     (case em_terminal m of
        Some t \<Rightarrow> (m, L_superseded (mt_seq t))
      | None \<Rightarrow>
          if dispatch_disabled f m (je_seq e) then (m, L_invalid Re_dispatch_disabled)
          else if list_ex at_open (em_attempts m) then (m, L_invalid Attempt_already_open)
          else (m\<lparr> em_attempts := em_attempts m @ [open_attempt e d], em_state := MS_dispatching \<rparr>, L_applied))"

text \<open>Rewriting the first attempt at a position.\<close>

fun update_attempt :: "nat \<Rightarrow> (attempt_state \<Rightarrow> attempt_state) \<Rightarrow> attempt_state list \<Rightarrow> attempt_state list" where
  "update_attempt sq g [] = []"
| "update_attempt sq g (a # as) = (if at_seq a = sq then g a # as else a # update_attempt sq g as)"

definition close_attempt :: "journal_entry \<Rightarrow> attempt_outcome \<Rightarrow> attempt_state \<Rightarrow> attempt_state" where
  "close_attempt e outcome a =
     a\<lparr> at_open := False, at_outcome := Some outcome, at_outcomeSeq := Some (je_seq e), at_outcomeAt := Some (je_startedAt e) \<rparr>"

definition seq_json :: "nat \<Rightarrow> json option" where
  "seq_json n = Some (JNum (of_nat n))"

definition applyOutcome ::
  "journal_entry \<Rightarrow> nat \<Rightarrow> attempt_outcome \<Rightarrow> effect_machine \<Rightarrow> effect_machine \<times> lane_classification" where
  "applyOutcome e attemptRef outcome m =
     (case List.find (\<lambda>a. at_seq a = attemptRef) (em_attempts m) of
        None \<Rightarrow> (m, L_invalid No_such_attempt)
      | Some a \<Rightarrow>
          if \<not> at_open a then (m, L_invalid Attempt_closed)
          else
            let m1 = m\<lparr> em_attempts := update_attempt attemptRef (close_attempt e outcome) (em_attempts m) \<rparr>
            in if em_terminal m \<noteq> None
               then (m1\<lparr> em_incidents := em_incidents m1 @ [\<lparr> ic_seq = je_seq e, ic_incident = ''post-terminal-outcome'',
                             ic_causalRef = seq_json attemptRef, ic_detail = None \<rparr>] \<rparr>,
                     L_incident (em_intentSeq m))
               else (m1\<lparr> em_state := (case outcome of O_accepted \<Rightarrow> MS_awaiting_receipt
                                                      | O_failed \<Rightarrow> MS_intent | O_unknown \<Rightarrow> MS_unknown) \<rparr>, L_applied))"

text \<open>\<open>===\<close> on JSON members: objects and arrays of different entries are never identical.\<close>

fun strict_same :: "json option \<Rightarrow> json option \<Rightarrow> bool" where
  "strict_same (Some (JArr _)) _ = False"
| "strict_same (Some (JObj _)) _ = False"
| "strict_same a b = (a = b)"

definition new_receipt :: "journal_entry \<Rightarrow> effect_receipt \<Rightarrow> receipt_state" where
  "new_receipt e d = \<lparr>
     rs_seq = je_seq e, rs_at = je_startedAt e, rs_verification = er_verification d, rs_transferId = er_transferId d,
     rs_amount = er_amount d, rs_currency = er_currency d, rs_documentHash = er_documentHash d,
     rs_providerRef = er_providerRef d, rs_timestamp = er_timestamp d,
     rs_benignDuplicateOf = None, rs_conflictWith = None \<rparr>"

definition add_receipt :: "receipt_state \<Rightarrow> effect_machine \<Rightarrow> effect_machine" where
  "add_receipt r m = m\<lparr> em_receipts := em_receipts m @ [r] \<rparr>"

definition add_incident :: "nat \<Rightarrow> string \<Rightarrow> json option \<Rightarrow> json option \<Rightarrow> effect_machine \<Rightarrow> effect_machine" where
  "add_incident sq incident causalRef detail m =
     m\<lparr> em_incidents := em_incidents m @ [\<lparr> ic_seq = sq, ic_incident = incident, ic_causalRef = causalRef, ic_detail = detail \<rparr>] \<rparr>"

definition applyReceipt ::
  "journal_entry \<Rightarrow> effect_receipt \<Rightarrow> effect_machine \<Rightarrow> effect_machine \<times> lane_classification" where
  "applyReceipt e d m =
     (let receipt = new_receipt e d; sq = je_seq e in
      if er_verification d = Unverified then
        (if em_terminal m = None
         then ((add_receipt receipt m)\<lparr> em_state := MS_unknown \<rparr>, L_applied)
         else (add_incident sq ''receipt-after-terminal'' (seq_json sq) None (add_receipt receipt m),
               L_incident (em_intentSeq m)))
      else (case List.find (\<lambda>r. rs_verification r = Verified) (em_receipts m) of
        Some prior \<Rightarrow>
          if strict_same (rs_transferId prior) (rs_transferId receipt)
             \<and> strict_same (rs_amount prior) (rs_amount receipt)
             \<and> strict_same (rs_documentHash prior) (rs_documentHash receipt)
          then (add_receipt (receipt\<lparr> rs_benignDuplicateOf := Some (rs_seq prior) \<rparr>) m, L_applied)
          else
            let m1 = add_receipt (receipt\<lparr> rs_conflictWith := Some (rs_seq prior) \<rparr>) m
            in if em_terminal m \<noteq> None
               then (add_incident sq ''conflicting-duplicate'' (seq_json (rs_seq prior))
                       (Some (JStr ''same logical key, different provider identity or amount, after the terminal'')) m1,
                     L_incident (em_intentSeq m))
               else (m1\<lparr> em_pendingConflict := Some sq \<rparr>, L_applied)
      | None \<Rightarrow>
          let m1 = add_receipt receipt m
          in if em_terminal m \<noteq> None
             then (add_incident sq ''receipt-after-terminal'' (seq_json sq) None m1, L_incident (em_intentSeq m))
             else (m1, L_applied)))"

section \<open>Terminals\<close>

definition compensation_licensed :: "effect_lane_fold \<Rightarrow> nat \<Rightarrow> effect_machine \<Rightarrow> json option \<Rightarrow> bool" where
  "compensation_licensed f sq m causalRef =
     (case Option.bind (as_seq causalRef) (jm_get (elf_machines f)) of
        None \<Rightarrow> False
      | Some c \<Rightarrow>
          em_consumed c \<and> ei_compensates (em_intent c) = Some (em_intentSeq m)
          \<and> (case em_terminal c of Some t \<Rightarrow> mt_terminal t = T_confirmed \<and> mt_seq t < sq | None \<Rightarrow> False))"

definition terminalIllegality ::
  "effect_lane_fold \<Rightarrow> nat \<Rightarrow> effect_machine \<Rightarrow> terminal_kind \<Rightarrow> json option \<Rightarrow> invalid_reason option" where
  "terminalIllegality f sq m terminal causalRef =
     (if terminal = T_cancelled_before_dispatch
         \<and> list_ex (\<lambda>a. at_open a \<or> at_outcome a \<noteq> Some O_failed) (em_attempts m) then Some Illegal_cancel
      else if terminal = T_confirmed \<and> \<not> list_ex (\<lambda>r. rs_verification r = Verified) (em_receipts m)
      then Some Confirmed_without_receipt
      else if terminal = T_compensated \<and> \<not> compensation_licensed f sq m causalRef then Some Compensation_unlicensed
      else None)"

definition applyTerminal ::
  "effect_lane_fold \<Rightarrow> journal_entry \<Rightarrow> effect_terminal \<Rightarrow> effect_machine \<Rightarrow> effect_machine \<times> lane_classification" where
  "applyTerminal f e d m =
     (case em_terminal m of
        Some t \<Rightarrow> (m, L_superseded (mt_seq t))
      | None \<Rightarrow>
          (case terminalIllegality f (je_seq e) m (et_terminal d) (et_causalRef d) of
             Some why \<Rightarrow> (m, L_invalid why)
           | None \<Rightarrow>
               (m\<lparr> em_terminal := Some \<lparr> mt_seq = je_seq e, mt_terminal = et_terminal d, mt_reason = et_reason d,
                                        mt_causalRef = et_causalRef d \<rparr>,
                   em_state := MS_terminal (et_terminal d) \<rparr>, L_applied)))"

definition standalone :: "journal_entry \<Rightarrow> effect_terminal \<Rightarrow> effect_lane_fold \<Rightarrow> effect_lane_fold" where
  "standalone e d f =
     (let r = \<lparr> sr_seq = je_seq e, sr_logicalKey = (case as_string (et_logicalKey d) of Some k \<Rightarrow> k | None \<Rightarrow> ''''),
                sr_reason = et_reason d \<rparr>
      in classify (je_seq e) L_applied
           (if et_terminal d = T_quarantined then f\<lparr> elf_quarantines := elf_quarantines f @ [r] \<rparr>
            else f\<lparr> elf_refusals := elf_refusals f @ [r] \<rparr>))"

section \<open>Epochs\<close>

definition applyEpoch :: "journal_entry \<Rightarrow> string \<Rightarrow> int option \<Rightarrow> effect_lane_fold \<Rightarrow> effect_lane_fold" where
  "applyEpoch e generation restoration f =
     classify (je_seq e) L_applied
       (f\<lparr> elf_epochs := elf_epochs f @ [\<lparr> ep_seq = je_seq e, ep_generation = generation,
            ep_restorationGeneration = restoration,
            ep_needsReconciliation = (elf_epochs f \<noteq> []
              \<and> (case ep_restorationGeneration (last (elf_epochs f)) of Some g \<Rightarrow> g | None \<Rightarrow> 0)
                \<noteq> (case restoration of Some g \<Rightarrow> g | None \<Rightarrow> 0)),
            ep_reconciled = False \<rparr>] \<rparr>)"

fun reconcile_epoch :: "nat \<Rightarrow> epoch_state list \<Rightarrow> epoch_state list" where
  "reconcile_epoch ref [] = []"
| "reconcile_epoch ref (ep # eps) =
     (if ep_seq ep = ref then ep\<lparr> ep_reconciled := True \<rparr> # eps else ep # reconcile_epoch ref eps)"

definition applyReconciliation :: "journal_entry \<Rightarrow> nat \<Rightarrow> effect_lane_fold \<Rightarrow> effect_lane_fold" where
  "applyReconciliation e epochRef f =
     (if list_ex (\<lambda>ep. ep_seq ep = epochRef) (elf_epochs f)
      then classify (je_seq e) L_applied (f\<lparr> elf_epochs := reconcile_epoch epochRef (elf_epochs f) \<rparr>)
      else classify (je_seq e) (L_invalid No_such_epoch) f)"

section \<open>The pass\<close>

definition applyDecision :: "journal_entry \<Rightarrow> effect_decision \<Rightarrow> effect_lane_fold \<Rightarrow> effect_lane_fold" where
  "applyDecision e d f =
     (case d of
        E_epoch generation restoration \<Rightarrow> applyEpoch e generation restoration f
      | E_declared x \<Rightarrow>
          classify (je_seq e) L_applied (f\<lparr> elf_declarations := elf_declarations f @ [(je_seq e, x)] \<rparr>)
      | E_intent i \<Rightarrow> applyIntent e i f
      | E_attempt x \<Rightarrow> on_machine (je_seq e) (ea_intentRef x) (applyAttempt f e x) f
      | E_outcome intentRef attemptRef outcome \<Rightarrow> on_machine (je_seq e) intentRef (applyOutcome e attemptRef outcome) f
      | E_receipt x \<Rightarrow> on_machine (je_seq e) (er_intentRef x) (applyReceipt e x) f
      | E_terminal x \<Rightarrow>
          (case et_intentRef x of
             None \<Rightarrow> standalone e x f
           | Some intentRef \<Rightarrow> on_machine (je_seq e) intentRef (applyTerminal f e x) f)
      | E_incident intentRef incident causalRef detail \<Rightarrow>
          on_machine (je_seq e) intentRef (\<lambda>m. (add_incident (je_seq e) incident causalRef detail m, L_applied)) f
      | E_disposition intentRef who reason disposition causalRef \<Rightarrow>
          on_machine (je_seq e) intentRef (\<lambda>m. (m\<lparr> em_dispositions := em_dispositions m @ [\<lparr> dp_seq = je_seq e,
            dp_principal = who, dp_reason = reason, dp_disposition = disposition, dp_causalRef = causalRef \<rparr>] \<rparr>, L_applied)) f
      | E_probe intentRef probe found acceptanceClosed \<Rightarrow>
          on_machine (je_seq e) intentRef (\<lambda>m. (m\<lparr> em_probes := em_probes m @ [\<lparr> pb_seq = je_seq e, pb_probe = probe,
            pb_found = found, pb_acceptanceClosed = acceptanceClosed \<rparr>] \<rparr>, L_applied)) f
      | E_reconciliation_complete epochRef \<Rightarrow> applyReconciliation e epochRef f)"

definition applyEntry :: "effect_lane_fold \<Rightarrow> journal_entry \<Rightarrow> effect_lane_fold" where
  "applyEntry f e =
     (case readEffectLaneDecision e of
        Not_lane \<Rightarrow> f
      | Malformed \<Rightarrow> classify (je_seq e) L_malformed f
      | Lane opId d \<Rightarrow>
          (case jm_get (elf_opIds f) opId of
             Some firstSeq \<Rightarrow> classify (je_seq e) (L_replay firstSeq) f
           | None \<Rightarrow> applyDecision e d (f\<lparr> elf_opIds := jm_set opId (je_seq e) (elf_opIds f) \<rparr>)))"

definition push_index :: "nat \<Rightarrow> nat \<Rightarrow> (nat, nat list) jsmap \<Rightarrow> (nat, nat list) jsmap" where
  "push_index ref sq m = jm_set ref (index_of m ref @ [sq]) m"

definition indexEntry :: "effect_lane_fold \<Rightarrow> journal_entry \<Rightarrow> effect_lane_fold" where
  "indexEntry f e =
     (let f1 = f\<lparr> elf_bySeq := jm_set (je_seq e) e (elf_bySeq f) \<rparr>;
          f2 = (case readApprovalRevoked e of
                  None \<Rightarrow> f1 | Some ref \<Rightarrow> f1\<lparr> elf_revoked := push_index ref (je_seq e) (elf_revoked f1) \<rparr>)
      in case readApprovalExpired e of
           None \<Rightarrow> f2 | Some (ref, _) \<Rightarrow> f2\<lparr> elf_expired := push_index ref (je_seq e) (elf_expired f2) \<rparr>)"

text \<open>The closing pass visits the machines in order and may mark an earlier or a later one.\<close>

definition finalize_machine :: "effect_lane_fold \<Rightarrow> nat \<Rightarrow> effect_lane_fold" where
  "finalize_machine f sq =
     (case jm_get (elf_machines f) sq of
        None \<Rightarrow> f
      | Some m \<Rightarrow>
          if \<not> em_consumed m then f
          else
            let f1 = (case closerAfterIntent f m of
                        None \<Rightarrow> f
                      | Some c \<Rightarrow> f\<lparr> elf_machines := jm_set sq (m\<lparr> em_postIntentCloser := Some c \<rparr>) (elf_machines f) \<rparr>)
            in if map_option mt_terminal (em_terminal m) = Some T_confirmed
               then (case Option.bind (ei_compensates (em_intent m)) (jm_get (elf_machines f1)) of
                       None \<Rightarrow> f1
                     | Some orig \<Rightarrow>
                         if map_option mt_terminal (em_terminal orig) = Some T_confirmed
                         then f1\<lparr> elf_machines := jm_set (the (ei_compensates (em_intent m)))
                                     (orig\<lparr> em_compensatedBy := Some (em_intentSeq m) \<rparr>) (elf_machines f1) \<rparr>
                         else f1)
               else f1)"

definition finalize :: "effect_lane_fold \<Rightarrow> effect_lane_fold" where
  "finalize f = foldl finalize_machine f (jm_keys (elf_machines f))"

definition empty_lane :: "resolution_fold \<Rightarrow> effect_lane_fold" where
  "empty_lane rf = \<lparr> elf_bySeq = [], elf_machines = [], elf_canonical = [], elf_classifications = [], elf_opIds = [],
     elf_epochs = [], elf_declarations = [], elf_refusals = [], elf_quarantines = [], elf_revoked = [], elf_expired = [],
     elf_resolutions = rf \<rparr>"

definition lane_pass :: "resolution_fold \<Rightarrow> journal_entry list \<Rightarrow> effect_lane_fold" where
  "lane_pass rf entries = foldl applyEntry (foldl indexEntry (empty_lane rf) entries) entries"

text \<open>The constructor; without a fold of the resolutions it builds one, which may throw.\<close>

definition new_lane_fold ::
  "validator \<Rightarrow> journal_entry list \<Rightarrow> resolution_fold option \<Rightarrow> effect_lane_fold result" where
  "new_lane_fold validate entries resolutions =
     bindR (case resolutions of Some rf \<Rightarrow> Inr rf | None \<Rightarrow> new_fold validate entries)
       (\<lambda>rf. Inr (finalize (lane_pass rf entries)))"

section \<open>Queries\<close>

definition machines :: "effect_lane_fold \<Rightarrow> effect_machine list" where
  "machines f = jm_values (elf_machines f)"

definition machineAt :: "effect_lane_fold \<Rightarrow> nat \<Rightarrow> effect_machine option" where
  "machineAt f sq = jm_get (elf_machines f) sq"

definition currentEpoch :: "effect_lane_fold \<Rightarrow> epoch_state option" where
  "currentEpoch f = (if elf_epochs f = [] then None else Some (last (elf_epochs f)))"

definition canonicalIntent :: "effect_lane_fold \<Rightarrow> string \<Rightarrow> effect_machine option" where
  "canonicalIntent f logicalKey =
     (case currentEpoch f of
        None \<Rightarrow> None
      | Some ep \<Rightarrow> Option.bind (jm_get (elf_canonical f) (ep_seq ep, logicalKey)) (jm_get (elf_machines f)))"

definition laneClassificationOf :: "effect_lane_fold \<Rightarrow> nat \<Rightarrow> lane_classification option" where
  "laneClassificationOf f sq = jm_get (elf_classifications f) sq"

definition openMachines :: "effect_lane_fold \<Rightarrow> effect_machine list" where
  "openMachines f = filter (\<lambda>m. em_consumed m \<and> em_terminal m = None) (machines f)"

section \<open>Resolutions as the lane reads them\<close>

text \<open>What a target closed by the fold carries.\<close>

definition closings_ok :: "resolution_fold \<Rightarrow> bool" where
  "closings_ok f \<longleftrightarrow> (\<forall>n st k. jm_get (rf_targets f) n = Some st \<and> ts_closedBy st = Some k \<longrightarrow>
     ts_closedKind st = Some Closed_abandon
     \<or> ts_closedKind st = Some Closed_resolution \<and> n < k \<and> ts_value st \<noteq> None)"

lemma closings_ok_fold_entry:
  assumes "fold_entry validate f e = Inr f'" "closings_ok f"
  shows "closings_ok f'"
proof (cases "je_kind e = K_resolution \<or> je_kind e = K_abandon")
  case False
  then show ?thesis using assms by (simp add: fold_entry_def)
next
  case True
  then obtain g c where g: "apply_ref validate f e = (g, Inr c)" "f' = set_classification (je_seq e) c g"
    using assms(1) by (auto simp: fold_entry_def split: prod.splits sum.splits)
  have "closings_ok g"
  proof (cases "je_kind e = K_resolution")
    case True
    then have "applyResolution validate f e = (g, Inr c)" using g(1) by (simp add: apply_ref_def)
    then show ?thesis
    proof (cases rule: applyResolution_cases)
      case (closed r st p)
      then show ?thesis
        using assms(2) unfolding closings_ok_def by (auto simp: jm_get_set close_by_resolution_def)
    qed (simp add: assms(2))
  next
    case False
    then have "applyAbandon f e = (g, Inr c)" using g(1) by (simp add: apply_ref_def)
    then show ?thesis
    proof (cases rule: applyAbandon_cases)
      case (covering r t p)
      have t: "jm_get (rf_targets g) n = Some st \<Longrightarrow>
        \<exists>st0. jm_get (rf_targets f) n = Some st0 \<and> (st = st0 \<or> ts_closedKind st = Some Closed_abandon)" for n st
        unfolding covering(8) close_covered_get by (auto simp: close_by_abandon_def split: if_splits)
      show ?thesis using assms(2) t unfolding closings_ok_def by blast
    qed (simp add: assms(2))
  qed
  then show ?thesis by (simp add: g(2) closings_ok_def)
qed

lemma closings_ok_new_fold:
  assumes "new_fold validate es = Inr f"
  shows "closings_ok f"
proof (rule foldR_invariant [where P = closings_ok])
  show "foldR (fold_entry validate) (foldl index_entry empty_fold es) es = Inr f"
    using assms by (simp add: new_fold_def)
  show "closings_ok (foldl index_entry empty_fold es)"
    using index_entries_targets unfolding closings_ok_def by (fastforce simp: open_target_def)
  show "closings_ok t'" if "closings_ok t" "fold_entry validate t x = Inr t'" for t x t'
    using closings_ok_fold_entry that by blast
qed

lemma approval_allowed_iff:
  assumes "closings_ok f"
  shows "approval_allowed f n p \<longleftrightarrow>
    (\<exists>k v. resolved_by f n k v \<and> n < k \<and> k < p \<and> member_of v ''decision'' = Some (JStr ''allow''))"
proof
  assume "approval_allowed f n p"
  then obtain k v where s: "suspensionState f n = Resolved k v" "k < p" "member_of v ''decision'' = Some (JStr ''allow'')"
    by (auto simp: approval_allowed_def split: suspension_state.splits)
  then obtain st where st: "jm_get (rf_targets f) n = Some st" "ts_closedBy st = Some k" "ts_closedKind st \<noteq> Some Closed_abandon"
      "v = (case ts_value st of Some v \<Rightarrow> v | None \<Rightarrow> JNull)"
    by (auto simp: suspensionState_def split: option.splits if_splits)
  then have "ts_closedKind st = Some Closed_resolution" "n < k" "ts_value st = Some v"
    using assms unfolding closings_ok_def by fastforce+
  then have "resolved_by f n k v" using st by (simp add: resolved_by_def)
  with s(2,3) \<open>n < k\<close> show "\<exists>k v. resolved_by f n k v \<and> n < k \<and> k < p \<and> member_of v ''decision'' = Some (JStr ''allow'')"
    by blast
qed (auto simp: approval_allowed_def suspensionState_def resolved_by_def)

text \<open>An appended entry resolves nothing at an earlier position.\<close>

lemma widened_resolved: "widened e f g \<Longrightarrow> resolved_by g n k v \<longleftrightarrow> resolved_by f n k v"
proof (cases "n = je_seq e")
  case True
  assume w: "widened e f g"
  then have "jm_get (rf_targets f) n = None"
    using True unfolding widened_def targets_indexed_def jm_get_None_keys [symmetric] by (metis not_None_eq)
  then show ?thesis
    using w True by (auto simp: widened_def extra_targets_def resolved_by_def jm_get_append close_by_abandon_def open_target_def
        split: if_splits)
next
  case False
  assume "widened e f g"
  then show ?thesis using widened_get(2) False by (simp add: resolved_by_def)
qed

lemma fold_entry_resolved_before:
  assumes "fold_entry validate g e = Inr g'" "k < je_seq e"
  shows "resolved_by g' n k v \<longleftrightarrow> resolved_by g n k v"
proof (cases "je_kind e = K_resolution \<or> je_kind e = K_abandon")
  case False
  then show ?thesis using assms(1) by (simp add: fold_entry_def)
next
  case True
  then obtain h c where h: "apply_ref validate g e = (h, Inr c)" "g' = set_classification (je_seq e) c h"
    using assms(1) by (auto simp: fold_entry_def split: prod.splits sum.splits)
  then show ?thesis
    using resolved_by_resolution [of validate g e h c n k v] resolved_by_abandon [of g e h c n k v] assms(2)
    by (auto simp: apply_ref_def split: if_splits)
qed

lemma new_fold_prefix:
  assumes "seqs_increasing (es @ [e])" "new_fold validate (es @ [e]) = Inr g"
  shows "\<exists>f. new_fold validate es = Inr f \<and> (\<forall>n p. p \<le> je_seq e \<longrightarrow> approval_allowed g n p = approval_allowed f n p)"
proof -
  note snoc = new_fold_snoc [OF assms(1), of validate]
  obtain g0 where g0: "foldR (fold_entry validate) (foldl index_entry empty_fold (es @ [e])) es = Inr g0"
      "fold_entry validate g0 e = Inr g"
    using assms(2) snoc(2) by (auto simp: result_simps)
  then obtain f where f: "new_fold validate es = Inr f" "widened e f g0"
    using snoc(1) by (cases "new_fold validate es") (auto simp: rel_sum.simps)
  have res: "k < je_seq e \<Longrightarrow> resolved_by g n k v \<longleftrightarrow> resolved_by f n k v" for n k v
    using fold_entry_resolved_before [OF g0(2)] widened_resolved [OF f(2)] by simp
  have "approval_allowed g n p = approval_allowed f n p" if "p \<le> je_seq e" for n p
    unfolding approval_allowed_iff [OF closings_ok_new_fold [OF f(1)]] approval_allowed_iff [OF closings_ok_new_fold [OF assms(2)]]
    using res that by (meson less_le_trans)
  with f(1) show ?thesis by blast
qed

section \<open>The indexes\<close>

definition revocations :: "journal_entry list \<Rightarrow> nat \<Rightarrow> nat list" where
  "revocations es ref = map je_seq (filter (\<lambda>e. readApprovalRevoked e = Some ref) es)"

definition expiries :: "journal_entry list \<Rightarrow> nat \<Rightarrow> nat list" where
  "expiries es ref = map je_seq (filter (\<lambda>e. map_option fst (readApprovalExpired e) = Some ref) es)"

lemma index_of_push: "index_of (push_index ref sq m) r = (if r = ref then index_of m ref @ [sq] else index_of m r)"
  by (simp add: push_index_def index_of_def jm_get_set)

lemma indexEntry_sel [simp]:
  "elf_machines (indexEntry f e) = elf_machines f" "elf_canonical (indexEntry f e) = elf_canonical f"
  "elf_classifications (indexEntry f e) = elf_classifications f" "elf_opIds (indexEntry f e) = elf_opIds f"
  "elf_epochs (indexEntry f e) = elf_epochs f" "elf_resolutions (indexEntry f e) = elf_resolutions f"
  "elf_bySeq (indexEntry f e) = jm_set (je_seq e) e (elf_bySeq f)"
  "elf_declarations (indexEntry f e) = elf_declarations f" "elf_refusals (indexEntry f e) = elf_refusals f"
  "elf_quarantines (indexEntry f e) = elf_quarantines f"
  by (simp_all add: indexEntry_def Let_def split: option.split prod.split)

lemma indexEntry_indexes:
  "index_of (elf_revoked (indexEntry f e)) ref
     = index_of (elf_revoked f) ref @ (if readApprovalRevoked e = Some ref then [je_seq e] else [])"
  "index_of (elf_expired (indexEntry f e)) ref
     = index_of (elf_expired f) ref @ (if map_option fst (readApprovalExpired e) = Some ref then [je_seq e] else [])"
  by (auto simp: indexEntry_def Let_def index_of_push split: option.split prod.split)

definition indexed :: "resolution_fold \<Rightarrow> journal_entry list \<Rightarrow> effect_lane_fold" where
  "indexed rf es = foldl indexEntry (empty_lane rf) es"

lemma indexed_snoc [simp]: "indexed rf (es @ [e]) = indexEntry (indexed rf es) e" "indexed rf [] = empty_lane rf"
  by (simp_all add: indexed_def)

lemma indexed_sel:
  "elf_machines (indexed rf es) = []" "elf_canonical (indexed rf es) = []" "elf_classifications (indexed rf es) = []"
  "elf_opIds (indexed rf es) = []" "elf_epochs (indexed rf es) = []" "elf_resolutions (indexed rf es) = rf"
  "elf_declarations (indexed rf es) = []" "elf_refusals (indexed rf es) = []" "elf_quarantines (indexed rf es) = []"
  "index_of (elf_revoked (indexed rf es)) = revocations es" "index_of (elf_expired (indexed rf es)) = expiries es"
  by (induction es rule: rev_induct)
    (auto simp: empty_lane_def indexEntry_indexes index_of_def [of "[]"] revocations_def expiries_def fun_eq_iff)

lemma indexed_bySeq:
  assumes "distinct (map je_seq es)"
  shows "jm_get (elf_bySeq (indexed rf es)) n = Some a \<longleftrightarrow> a \<in> set es \<and> je_seq a = n"
  using assms
proof (induction es arbitrary: n a rule: rev_induct)
  case (snoc e es)
  have "\<forall>x\<in>set es. je_seq x \<noteq> je_seq e" using snoc.prems by (auto simp: image_iff)
  then show ?case using snoc by (auto simp: jm_get_set)
qed (simp add: empty_lane_def)

text \<open>Steps of the pass never touch the indexes.\<close>

definition same_indexes :: "effect_lane_fold \<Rightarrow> effect_lane_fold \<Rightarrow> bool" where
  "same_indexes f g \<longleftrightarrow> elf_bySeq g = elf_bySeq f \<and> elf_revoked g = elf_revoked f \<and> elf_expired g = elf_expired f
     \<and> elf_resolutions g = elf_resolutions f"

lemma classify_sel [simp]:
  "elf_bySeq (classify n c f) = elf_bySeq f" "elf_machines (classify n c f) = elf_machines f"
  "elf_canonical (classify n c f) = elf_canonical f" "elf_opIds (classify n c f) = elf_opIds f"
  "elf_epochs (classify n c f) = elf_epochs f" "elf_revoked (classify n c f) = elf_revoked f"
  "elf_expired (classify n c f) = elf_expired f" "elf_resolutions (classify n c f) = elf_resolutions f"
  "elf_classifications (classify n c f) = jm_set n c (elf_classifications f)"
  "elf_declarations (classify n c f) = elf_declarations f" "elf_refusals (classify n c f) = elf_refusals f"
  "elf_quarantines (classify n c f) = elf_quarantines f"
  by (simp_all add: classify_def)

lemma put_machine_sel [simp]:
  "elf_bySeq (put_machine m f) = elf_bySeq f" "elf_machines (put_machine m f) = jm_set (em_intentSeq m) m (elf_machines f)"
  "elf_canonical (put_machine m f) = elf_canonical f" "elf_opIds (put_machine m f) = elf_opIds f"
  "elf_epochs (put_machine m f) = elf_epochs f" "elf_revoked (put_machine m f) = elf_revoked f"
  "elf_expired (put_machine m f) = elf_expired f" "elf_resolutions (put_machine m f) = elf_resolutions f"
  "elf_classifications (put_machine m f) = elf_classifications f"
  "elf_declarations (put_machine m f) = elf_declarations f" "elf_refusals (put_machine m f) = elf_refusals f"
  "elf_quarantines (put_machine m f) = elf_quarantines f"
  by (simp_all add: put_machine_def)

lemma same_indexes_trans: "same_indexes f g \<Longrightarrow> same_indexes g h \<Longrightarrow> same_indexes f h"
  by (simp add: same_indexes_def)

lemma on_machine_indexes: "same_indexes f (on_machine n r act f)"
  by (simp add: on_machine_def same_indexes_def split: sum.split prod.split)

lemma applyIntent_indexes: "same_indexes f (applyIntent e i f)"
  by (simp add: applyIntent_def same_indexes_def Let_def split: option.split)

lemma applyDecision_indexes: "same_indexes f (applyDecision e d f)"
  by (cases d) (simp_all add: applyDecision_def on_machine_indexes applyIntent_indexes split: option.split,
      simp_all add: same_indexes_def applyEpoch_def standalone_def applyReconciliation_def Let_def)

lemma applyEntry_indexes: "same_indexes f (applyEntry f e)"
proof -
  have "same_indexes f (applyDecision e d (f\<lparr> elf_opIds := u \<rparr>))" for d u
    using applyDecision_indexes [of "f\<lparr> elf_opIds := u \<rparr>" e d] by (simp add: same_indexes_def)
  then show ?thesis by (simp add: applyEntry_def split: effect_lane_read.split option.split) (simp add: same_indexes_def)
qed

lemma lane_pass_indexes: "same_indexes f (foldl applyEntry f es)"
  by (induction es arbitrary: f) (simp add: same_indexes_def, metis applyEntry_indexes foldl_Cons same_indexes_trans)

section \<open>Licences and closers\<close>

text \<open>The consumption verdict as one condition.\<close>

definition licensed :: "effect_lane_fold \<Rightarrow> nat \<Rightarrow> nat \<Rightarrow> string \<Rightarrow> bool" where
  "licensed f ref position key \<longleftrightarrow>
     (\<exists>a. jm_get (elf_bySeq f) ref = Some a \<and> je_kind a = K_approval \<and> approvalLicensedKey a = Some key)
     \<and> approval_allowed (elf_resolutions f) ref position
     \<and> (\<forall>s \<in> set (index_of (elf_revoked f) ref) \<union> set (index_of (elf_expired f) ref). position \<le> s)"

definition causal_ok :: "(nat, effect_machine) jsmap \<Rightarrow> effect_intent \<Rightarrow> bool" where
  "causal_ok ms i \<longleftrightarrow>
     (\<forall>c. ei_compensates i = Some c \<longrightarrow>
        (\<exists>m. jm_get ms c = Some m \<and> em_consumed m \<and> ei_compensates (em_intent m) = None))
     \<and> (\<forall>s. ei_successorOf i = Some s \<longrightarrow> (\<exists>m. jm_get ms s = Some m \<and> em_consumed m))"

lemma find_None_iff_all: "(List.find P xs = None) \<longleftrightarrow> (\<forall>x\<in>set xs. \<not> P x)"
  by (auto simp: find_None_iff)

lemma causal_machine_iff: "causal_machine f r = Some m \<longleftrightarrow> jm_get (elf_machines f) r = Some m \<and> em_consumed m"
  by (auto simp: causal_machine_def split: option.splits if_splits)

lemma causal_machine_None: "causal_machine f r = None \<longleftrightarrow> (\<nexists>m. jm_get (elf_machines f) r = Some m \<and> em_consumed m)"
  by (auto simp: causal_machine_def split: option.splits if_splits)

lemma approval_verdict_None:
  "approval_verdict f p i = None \<longleftrightarrow> licensed f (ei_approvalRef i) p (ei_logicalKey i)"
proof -
  have "(firstAtOrBelow (index_of (elf_revoked f) r) p = None \<and> firstAtOrBelow (index_of (elf_expired f) r) p = None)
      \<longleftrightarrow> (\<forall>s \<in> set (index_of (elf_revoked f) r) \<union> set (index_of (elf_expired f) r). p \<le> s)" for r
    by (auto simp: firstAtOrBelow_def find_None_iff_all not_less)
  note old = this [symmetric]
  show ?thesis
    unfolding approval_verdict_def licensed_def old by (auto split: option.splits)
qed

lemma causal_ok_iff: "compensation_verdict f i = None \<and> \<not> successor_missing f i \<longleftrightarrow> causal_ok (elf_machines f) i"
proof -
  have "compensation_verdict f i = None \<longleftrightarrow> (\<forall>c. ei_compensates i = Some c \<longrightarrow>
        (\<exists>m. jm_get (elf_machines f) c = Some m \<and> em_consumed m \<and> ei_compensates (em_intent m) = None))"
    by (auto simp: compensation_verdict_def causal_machine_def split: option.splits if_splits)
  moreover have "\<not> successor_missing f i \<longleftrightarrow>
      (\<forall>s. ei_successorOf i = Some s \<longrightarrow> (\<exists>m. jm_get (elf_machines f) s = Some m \<and> em_consumed m))"
    by (auto simp: successor_missing_def causal_machine_None split: option.split)
  ultimately show ?thesis unfolding causal_ok_def by blast
qed

lemma consumption_iff:
  "consumption_verdict f e i = None \<longleftrightarrow>
     (\<exists>ep. latestEpochBefore f (je_seq e) = Some ep \<and> ep_seq ep = ei_epochRef i)
     \<and> licensed f (ei_approvalRef i) (je_seq e) (ei_logicalKey i)
     \<and> causal_ok (elf_machines f) i
     \<and> jm_get (elf_canonical f) (ei_epochRef i, ei_logicalKey i) = None"
  unfolding approval_verdict_None [symmetric] causal_ok_iff [symmetric]
  by (auto simp: consumption_verdict_def split: option.splits if_splits)

text \<open>With ascending indexes a closer lies before a position iff some entry between closes the approval.\<close>

definition closed_between :: "effect_lane_fold \<Rightarrow> nat \<Rightarrow> nat \<Rightarrow> nat \<Rightarrow> bool" where
  "closed_between f ref lower upper \<longleftrightarrow>
     (\<exists>s \<in> set (index_of (elf_revoked f) ref) \<union> set (index_of (elf_expired f) ref). lower < s \<and> s < upper)"

lemma firstAbove_min:
  assumes "sorted xs"
  shows "(\<exists>s. firstAbove xs n = Some s \<and> s < p) \<longleftrightarrow> (\<exists>s\<in>set xs. n < s \<and> s < p)"
  using assms
proof (induction xs)
  case (Cons x xs)
  then show ?case by (auto simp: firstAbove_def dest: order.strict_trans1)
qed (simp add: firstAbove_def)

lemma dispatch_disabled_iff:
  assumes "sorted (index_of (elf_revoked f) (ei_approvalRef (em_intent m)))"
    and "sorted (index_of (elf_expired f) (ei_approvalRef (em_intent m)))"
  shows "dispatch_disabled f m p \<longleftrightarrow> closed_between f (ei_approvalRef (em_intent m)) (em_intentSeq m) p"
proof -
  let ?r = "firstAbove (index_of (elf_revoked f) (ei_approvalRef (em_intent m))) (em_intentSeq m)"
  let ?x = "firstAbove (index_of (elf_expired f) (ei_approvalRef (em_intent m))) (em_intentSeq m)"
  have "dispatch_disabled f m p \<longleftrightarrow> (\<exists>s. ?r = Some s \<and> s < p) \<or> (\<exists>s. ?x = Some s \<and> s < p)"
    by (cases ?r; cases ?x) (auto simp: dispatch_disabled_def closerAfterIntent_def Let_def)
  then show ?thesis unfolding closed_between_def firstAbove_min [OF assms(1)] firstAbove_min [OF assms(2)] by blast
qed

section \<open>Steps of one machine\<close>

inductive machine_step :: "effect_lane_fold \<Rightarrow> journal_entry \<Rightarrow> effect_machine \<Rightarrow> effect_machine \<Rightarrow> bool"
  for f e where
  attempt: "machine_step f e m (fst (applyAttempt f e x m))"
| outcome: "machine_step f e m (fst (applyOutcome e r v m))"
| receipt: "machine_step f e m (fst (applyReceipt e d m))"
| terminal: "machine_step f e m (fst (applyTerminal f e t m))"
| incident: "machine_step f e m (add_incident (je_seq e) what causalRef detail m)"
| disposition: "machine_step f e m (m\<lparr> em_dispositions := ds \<rparr>)"
| probe: "machine_step f e m (m\<lparr> em_probes := ps \<rparr>)"

lemma add_sel [simp]:
  "em_intentSeq (add_receipt r m) = em_intentSeq m" "em_intent (add_receipt r m) = em_intent m"
  "em_consumed (add_receipt r m) = em_consumed m" "em_state (add_receipt r m) = em_state m"
  "em_attempts (add_receipt r m) = em_attempts m" "em_receipts (add_receipt r m) = em_receipts m @ [r]"
  "em_terminal (add_receipt r m) = em_terminal m" "em_voidReason (add_receipt r m) = em_voidReason m"
  "em_intentSeq (add_incident sq w c d m) = em_intentSeq m" "em_intent (add_incident sq w c d m) = em_intent m"
  "em_consumed (add_incident sq w c d m) = em_consumed m" "em_state (add_incident sq w c d m) = em_state m"
  "em_attempts (add_incident sq w c d m) = em_attempts m" "em_receipts (add_incident sq w c d m) = em_receipts m"
  "em_terminal (add_incident sq w c d m) = em_terminal m" "em_voidReason (add_incident sq w c d m) = em_voidReason m"
  by (simp_all add: add_receipt_def add_incident_def)

text \<open>What each operation may do, as far as the machine's promises go.\<close>

lemma applyAttempt_cases:
  "fst (applyAttempt f e x m) = m
   \<or> em_terminal m = None \<and> \<not> dispatch_disabled f m (je_seq e) \<and> \<not> list_ex at_open (em_attempts m)
     \<and> fst (applyAttempt f e x m) = m\<lparr> em_attempts := em_attempts m @ [open_attempt e x], em_state := MS_dispatching \<rparr>"
  by (simp add: applyAttempt_def split: option.split)

lemma applyOutcome_cases:
  "fst (applyOutcome e r v m) = m
   \<or> (\<exists>s. em_attempts (fst (applyOutcome e r v m)) = update_attempt r (close_attempt e v) (em_attempts m)
       \<and> List.find (\<lambda>a. at_seq a = r) (em_attempts m) \<noteq> None
       \<and> at_open (the (List.find (\<lambda>a. at_seq a = r) (em_attempts m)))
       \<and> em_intentSeq (fst (applyOutcome e r v m)) = em_intentSeq m \<and> em_intent (fst (applyOutcome e r v m)) = em_intent m
       \<and> em_consumed (fst (applyOutcome e r v m)) = em_consumed m \<and> em_receipts (fst (applyOutcome e r v m)) = em_receipts m
       \<and> em_terminal (fst (applyOutcome e r v m)) = em_terminal m
       \<and> em_state (fst (applyOutcome e r v m)) = (if em_terminal m = None then s else em_state m) \<and> (\<forall>t. s \<noteq> MS_terminal t))"
  by (cases v) (auto simp: applyOutcome_def Let_def split: option.splits)

lemma applyReceipt_sel [simp]:
  "em_intentSeq (fst (applyReceipt e d m)) = em_intentSeq m" "em_intent (fst (applyReceipt e d m)) = em_intent m"
  "em_consumed (fst (applyReceipt e d m)) = em_consumed m" "em_attempts (fst (applyReceipt e d m)) = em_attempts m"
  "em_terminal (fst (applyReceipt e d m)) = em_terminal m"
  by (auto simp: applyReceipt_def Let_def split: option.splits)

lemma applyReceipt_grows:
  "(\<exists>r. em_receipts (fst (applyReceipt e d m)) = em_receipts m @ [r] \<and> rs_seq r = je_seq e)
   \<and> (em_state (fst (applyReceipt e d m)) = em_state m
      \<or> em_terminal m = None \<and> em_state (fst (applyReceipt e d m)) = MS_unknown)"
  by (auto simp: applyReceipt_def Let_def new_receipt_def split: option.splits)

lemma applyTerminal_cases:
  "fst (applyTerminal f e d m) = m
   \<or> em_terminal m = None \<and> terminalIllegality f (je_seq e) m (et_terminal d) (et_causalRef d) = None
     \<and> fst (applyTerminal f e d m) = m\<lparr> em_terminal := Some \<lparr> mt_seq = je_seq e, mt_terminal = et_terminal d,
           mt_reason = et_reason d, mt_causalRef = et_causalRef d \<rparr>, em_state := MS_terminal (et_terminal d) \<rparr>"
  by (simp add: applyTerminal_def split: option.split)

lemma machine_step_frame:
  assumes "machine_step f e m m'"
  shows "em_intentSeq m' = em_intentSeq m" and "em_intent m' = em_intent m" and "em_consumed m' = em_consumed m"
    and "em_terminal m = Some t \<Longrightarrow> em_terminal m' = Some t"
proof -
  have "em_intentSeq m' = em_intentSeq m \<and> em_intent m' = em_intent m \<and> em_consumed m' = em_consumed m
      \<and> (em_terminal m = Some t \<longrightarrow> em_terminal m' = Some t)"
    using assms
  proof cases
    case (attempt x)
    then show ?thesis using applyAttempt_cases [of f e x m] by auto
  next
    case (outcome r v)
    then show ?thesis using applyOutcome_cases [of e r v m] by auto
  next
    case (terminal t)
    then show ?thesis using applyTerminal_cases [of f e t m] by auto
  qed simp_all
  then show "em_intentSeq m' = em_intentSeq m" "em_intent m' = em_intent m" "em_consumed m' = em_consumed m"
    "em_terminal m = Some t \<Longrightarrow> em_terminal m' = Some t" by blast+
qed

section \<open>Soundness of a machine\<close>

definition attempts_sound :: "attempt_state list \<Rightarrow> bool" where
  "attempts_sound as \<longleftrightarrow> distinct (map at_seq as) \<and> length (filter at_open as) \<le> 1
     \<and> (\<forall>a\<in>set as. at_open a \<longleftrightarrow> at_outcome a = None)"

definition terminal_sound :: "effect_machine \<Rightarrow> machine_terminal \<Rightarrow> bool" where
  "terminal_sound m t \<longleftrightarrow> em_state m = MS_terminal (mt_terminal t)
     \<and> (mt_terminal t = T_confirmed \<longrightarrow> (\<exists>r\<in>set (em_receipts m). rs_verification r = Verified \<and> rs_seq r < mt_seq t))
     \<and> (mt_terminal t = T_cancelled_before_dispatch \<longrightarrow>
          (\<forall>a\<in>set (em_attempts m). \<not> at_open a \<and> at_outcome a = Some O_failed))"

definition machine_sound :: "effect_machine \<Rightarrow> bool" where
  "machine_sound m \<longleftrightarrow> attempts_sound (em_attempts m)
     \<and> (\<not> em_consumed m \<longrightarrow> em_state m = MS_terminal T_refused \<and> em_attempts m = [] \<and> em_receipts m = [] \<and> em_terminal m = None)
     \<and> (em_consumed m \<and> em_terminal m = None \<longrightarrow> (\<forall>t. em_state m \<noteq> MS_terminal t))
     \<and> (\<forall>t. em_terminal m = Some t \<longrightarrow> terminal_sound m t)"

text \<open>All the positions a machine carries lie before the entry that is applied next.\<close>

definition machine_before :: "nat \<Rightarrow> effect_machine \<Rightarrow> bool" where
  "machine_before p m \<longleftrightarrow> em_intentSeq m < p \<and> (\<forall>a\<in>set (em_attempts m). at_seq a < p) \<and> (\<forall>r\<in>set (em_receipts m). rs_seq r < p)"

lemma update_attempt_seqs [simp]: "map at_seq (update_attempt r (close_attempt e v) as) = map at_seq as"
  by (induction as) (simp_all add: close_attempt_def)

lemma update_attempt_open:
  assumes "List.find (\<lambda>a. at_seq a = r) as = Some a" "at_open a"
  shows "length (filter at_open (update_attempt r (close_attempt e v) as)) < length (filter at_open as)"
  using assms by (induction as) (auto simp: close_attempt_def split: if_splits)

lemma update_attempt_in:
  "b \<in> set (update_attempt r (close_attempt e v) as) \<Longrightarrow> b \<in> set as \<or> (\<exists>a\<in>set as. b = close_attempt e v a)"
  by (induction as) (auto split: if_splits)

lemma attempts_sound_close:
  assumes "attempts_sound as" "List.find (\<lambda>a. at_seq a = r) as = Some a" "at_open a"
  shows "attempts_sound (update_attempt r (close_attempt e v) as)"
proof -
  have "length (filter at_open (update_attempt r (close_attempt e v) as)) \<le> 1"
    using update_attempt_open [OF assms(2,3)] assms(1) by (meson attempts_sound_def less_le_trans nat_less_le)
  moreover have "at_open b \<longleftrightarrow> at_outcome b = None" if "b \<in> set (update_attempt r (close_attempt e v) as)" for b
    using update_attempt_in [OF that] assms(1) by (auto simp: attempts_sound_def close_attempt_def)
  ultimately show ?thesis using assms(1) by (simp add: attempts_sound_def)
qed

lemma attempts_sound_open:
  assumes "attempts_sound as" "\<not> list_ex at_open as" "\<forall>a\<in>set as. at_seq a < je_seq e"
  shows "attempts_sound (as @ [open_attempt e x])"
proof -
  have "filter at_open as = []" using assms(2) by (auto simp: list_ex_iff filter_empty_conv)
  then show ?thesis using assms by (auto simp: attempts_sound_def open_attempt_def)
qed

lemma terminal_sound_close:
  assumes "terminalIllegality f (je_seq e) m (mt_terminal t) causalRef = None" "machine_before (je_seq e) m" "mt_seq t = je_seq e"
  shows "terminal_sound (m\<lparr> em_terminal := Some t, em_state := MS_terminal (mt_terminal t) \<rparr>) t"
proof (cases "mt_terminal t")
  case T_confirmed
  then obtain r where "r \<in> set (em_receipts m)" "rs_verification r = Verified"
    using assms(1) by (auto simp: terminalIllegality_def list_ex_iff split: if_splits)
  then show ?thesis using T_confirmed assms(2,3) by (auto simp: terminal_sound_def machine_before_def)
next
  case T_cancelled_before_dispatch
  then have "\<forall>a\<in>set (em_attempts m). \<not> at_open a \<and> at_outcome a = Some O_failed"
    using assms(1) by (auto simp: terminalIllegality_def list_ex_iff split: if_splits)
  then show ?thesis using T_cancelled_before_dispatch by (simp add: terminal_sound_def)
qed (simp_all add: terminal_sound_def)

lemma machine_sound_step:
  assumes "machine_step f e m m'" "machine_sound m" "em_consumed m" "machine_before (je_seq e) m"
  shows "machine_sound m'"
  using assms(1)
proof cases
  case (attempt x)
  then show ?thesis
    using applyAttempt_cases [of f e x m] attempts_sound_open [of "em_attempts m" e x] assms(2-4)
    by (auto simp: machine_sound_def machine_before_def)
next
  case (outcome r v)
  show ?thesis
  proof (cases "m' = m")
    case False
    then obtain s a where o: "em_attempts m' = update_attempt r (close_attempt e v) (em_attempts m)"
        "List.find (\<lambda>a. at_seq a = r) (em_attempts m) = Some a" "at_open a"
        "em_consumed m' = em_consumed m" "em_receipts m' = em_receipts m" "em_terminal m' = em_terminal m"
        "em_state m' = (if em_terminal m = None then s else em_state m)" "\<forall>t. s \<noteq> MS_terminal t"
      using applyOutcome_cases [of e r v m] outcome by fastforce
    have "a \<in> set (em_attempts m)" using o(2) by (metis find_Some_iff nth_mem)
    then have "mt_terminal t \<noteq> T_cancelled_before_dispatch" if "em_terminal m = Some t" for t
      using assms(2) o(3) that by (auto simp: machine_sound_def terminal_sound_def)
    then show ?thesis
      using assms(2,3) o attempts_sound_close [OF _ o(2,3)] by (auto simp: machine_sound_def terminal_sound_def)
  qed (simp add: assms(2))
next
  case (receipt d)
  then show ?thesis
    using assms(2,3) applyReceipt_grows [of e d m] by (fastforce simp: machine_sound_def terminal_sound_def)
next
  case (terminal d)
  show ?thesis
  proof (cases "m' = m")
    case False
    let ?t = "\<lparr> mt_seq = je_seq e, mt_terminal = et_terminal d, mt_reason = et_reason d, mt_causalRef = et_causalRef d \<rparr>"
    have m': "m' = m\<lparr> em_terminal := Some ?t, em_state := MS_terminal (mt_terminal ?t) \<rparr>"
      and legal: "terminalIllegality f (je_seq e) m (mt_terminal ?t) (et_causalRef d) = None"
      using applyTerminal_cases [of f e d m] terminal False by simp_all
    have "terminal_sound m' ?t" unfolding m' using terminal_sound_close [OF legal assms(4)] by simp
    then show ?thesis using assms(2,3) m' by (simp add: machine_sound_def)
  qed (simp add: assms(2))
qed (use assms(2) in \<open>simp_all add: machine_sound_def terminal_sound_def\<close>)

lemma machine_before_step:
  assumes "machine_step f e m m'" "machine_before (je_seq e) m" "je_seq e < p"
  shows "machine_before p m'"
  using assms(1)
proof cases
  case (attempt x)
  then show ?thesis
    using applyAttempt_cases [of f e x m] assms(2,3) by (fastforce simp: machine_before_def open_attempt_def)
next
  case (outcome r v)
  show ?thesis
  proof (cases "m' = m")
    case False
    then have o: "em_attempts m' = update_attempt r (close_attempt e v) (em_attempts m)"
      "em_intentSeq m' = em_intentSeq m" "em_receipts m' = em_receipts m"
      using applyOutcome_cases [of e r v m] outcome by auto
    have "at_seq ` set (em_attempts m') = at_seq ` set (em_attempts m)"
      unfolding o(1) by (metis set_map update_attempt_seqs)
    then show ?thesis
      using assms(2,3) o(2,3) unfolding machine_before_def by (metis (no_types, lifting) image_iff less_trans)
  qed (use assms(2,3) in \<open>fastforce simp: machine_before_def\<close>)
next
  case (receipt d)
  then show ?thesis
    using assms(2,3) applyReceipt_grows [of e d m] by (fastforce simp: machine_before_def)
next
  case (terminal t)
  then show ?thesis
    using assms(2,3) applyTerminal_cases [of f e t m] by (fastforce simp: machine_before_def)
qed (use assms(2,3) in \<open>fastforce simp: machine_before_def\<close>)+

end
