(* ===== verification/EffectLane.thy ===== *)
theory EffectLane
  imports EffectFold
begin

text \<open>
  What the effect lane fold guarantees over a whole journal: the invariant of the pass, the exact
  rule of consumption, and that later entries never change a verdict. The definitions are those of
  \<open>EffectFold\<close>.
\<close>

section \<open>One entry at a time\<close>

lemma machine_step_opIds: "machine_step (f\<lparr> elf_opIds := u \<rparr>) e m m' = machine_step f e m m'"
proof -
  have attempt: "applyAttempt (f\<lparr> elf_opIds := u \<rparr>) = applyAttempt f"
    by (simp add: fun_eq_iff applyAttempt_def dispatch_disabled_def closerAfterIntent_def)
  have terminal: "applyTerminal (f\<lparr> elf_opIds := u \<rparr>) = applyTerminal f"
    by (simp add: fun_eq_iff applyTerminal_def terminalIllegality_def compensation_licensed_def cong: option.case_cong)
  show ?thesis by (simp add: machine_step.simps attempt terminal)
qed

lemma on_machine_cases:
  assumes "\<And>m. machine_step f e m (fst (act m))"
  shows "elf_canonical (on_machine n r act f) = elf_canonical f \<and> elf_epochs (on_machine n r act f) = elf_epochs f
    \<and> (elf_machines (on_machine n r act f) = elf_machines f
       \<or> (\<exists>m m'. jm_get (elf_machines f) r = Some m \<and> em_consumed m \<and> machine_step f e m m'
            \<and> elf_machines (on_machine n r act f) = jm_set (em_intentSeq m') m' (elf_machines f)))"
proof (cases "liveMachine f r")
  case (Inl why)
  then show ?thesis by (simp add: on_machine_def)
next
  case (Inr m)
  then have m: "jm_get (elf_machines f) r = Some m" "em_consumed m"
    by (auto simp: liveMachine_def split: option.splits if_splits)
  obtain m' c where "act m = (m', c)" by (cases "act m")
  then show ?thesis using assms [of m] m Inr by (auto simp: on_machine_def)
qed

definition machine_moves :: "effect_lane_fold \<Rightarrow> journal_entry \<Rightarrow> effect_lane_fold \<Rightarrow> bool" where
  "machine_moves f e g \<longleftrightarrow> elf_canonical g = elf_canonical f \<and> elf_epochs g = elf_epochs f
     \<and> (\<exists>r m m'. jm_get (elf_machines f) r = Some m \<and> em_consumed m \<and> machine_step f e m m'
          \<and> elf_machines g = jm_set (em_intentSeq m') m' (elf_machines f))"

definition epoch_moves :: "effect_lane_fold \<Rightarrow> journal_entry \<Rightarrow> effect_lane_fold \<Rightarrow> bool" where
  "epoch_moves f e g \<longleftrightarrow> elf_canonical g = elf_canonical f \<and> elf_machines g = elf_machines f
     \<and> (map ep_seq (elf_epochs g) = map ep_seq (elf_epochs f)
        \<or> map ep_seq (elf_epochs g) = map ep_seq (elf_epochs f) @ [je_seq e])"

lemma reconcile_epoch_seqs [simp]: "map ep_seq (reconcile_epoch r eps) = map ep_seq eps"
  by (induction eps) simp_all

lemma applyDecision_cases:
  "epoch_moves f e (applyDecision e d f) \<or> machine_moves f e (applyDecision e d f)
   \<or> (\<exists>i. d = E_intent i \<and> applyDecision e d f = applyIntent e i f)"
proof -
  have on: "epoch_moves f e (on_machine n r act f) \<or> machine_moves f e (on_machine n r act f)"
    if "\<And>m. machine_step f e m (fst (act m))" for n r act
    using on_machine_cases [where n = n and r = r, OF that] unfolding epoch_moves_def machine_moves_def
    by (elim conjE disjE) auto
  show ?thesis
  proof (cases d)
    case (E_terminal x)
    show ?thesis
    proof (cases "et_intentRef x")
      case None
      then show ?thesis by (simp add: E_terminal applyDecision_def standalone_def epoch_moves_def Let_def)
    next
      case (Some r)
      then show ?thesis using on [OF machine_step.terminal] by (simp add: E_terminal applyDecision_def)
    qed
  next
    case (E_attempt x)
    then show ?thesis using on [OF machine_step.attempt] by (simp add: applyDecision_def)
  next
    case (E_outcome r a v)
    then show ?thesis using on [OF machine_step.outcome] by (simp add: applyDecision_def)
  next
    case (E_receipt x)
    then show ?thesis using on [OF machine_step.receipt] by (simp add: applyDecision_def)
  next
    case (E_incident r w c dt)
    have "machine_step f e m (fst ((\<lambda>m. (add_incident (je_seq e) w c dt m, L_applied)) m))" for m
      by (simp add: machine_step.incident)
    from on [OF this] show ?thesis by (simp add: E_incident applyDecision_def)
  next
    case (E_disposition r w why d' c)
    show ?thesis
      unfolding E_disposition applyDecision_def effect_decision.case using on by (simp add: machine_step.disposition)
  next
    case (E_probe r k fd c)
    show ?thesis unfolding E_probe applyDecision_def effect_decision.case using on by (simp add: machine_step.probe)
  qed (simp_all add: applyDecision_def applyEpoch_def applyReconciliation_def epoch_moves_def)
qed

lemma applyEntry_cases:
  "epoch_moves f e (applyEntry f e) \<or> machine_moves f e (applyEntry f e)
   \<or> (\<exists>opId i. readEffectLaneDecision e = Lane opId (E_intent i) \<and> jm_get (elf_opIds f) opId = None
        \<and> applyEntry f e = applyIntent e i (f\<lparr> elf_opIds := jm_set opId (je_seq e) (elf_opIds f) \<rparr>))"
proof (cases "readEffectLaneDecision e")
  case (Lane opId d)
  let ?f = "f\<lparr> elf_opIds := jm_set opId (je_seq e) (elf_opIds f) \<rparr>"
  have "epoch_moves ?f e g = epoch_moves f e g" "machine_moves ?f e g = machine_moves f e g" for g
    by (simp_all add: epoch_moves_def machine_moves_def machine_step_opIds)
  then show ?thesis
    using applyDecision_cases [of ?f e d] Lane
    by (cases "jm_get (elf_opIds f) opId") (auto simp: applyEntry_def epoch_moves_def)
qed (simp_all add: applyEntry_def epoch_moves_def)

section \<open>Entitlement\<close>

text \<open>Whether an intent was consumed, and what it claims: all that later verdicts read of a machine.\<close>

definition view :: "effect_lane_fold \<Rightarrow> nat \<Rightarrow> (bool \<times> effect_intent) option" where
  "view f n = map_option (\<lambda>m. (em_consumed m, em_intent m)) (jm_get (elf_machines f) n)"

definition epoch_before :: "effect_lane_fold \<Rightarrow> nat \<Rightarrow> nat option" where
  "epoch_before f n = map_option ep_seq (latestEpochBefore f n)"

text \<open>
  An intent at a position is entitled to its approval: it cites the latest epoch before it, the
  approval is licensed for its key there, the intents it compensates or succeeds were consumed
  before it, and no intent before it was consumed for the same key in the same epoch.
\<close>

definition entitled :: "effect_lane_fold \<Rightarrow> nat \<Rightarrow> effect_intent \<Rightarrow> bool" where
  "entitled f n i \<longleftrightarrow>
     epoch_before f n = Some (ei_epochRef i)
     \<and> licensed f (ei_approvalRef i) n (ei_logicalKey i)
     \<and> (\<forall>c. ei_compensates i = Some c \<longrightarrow> c < n \<and> (\<exists>j. view f c = Some (True, j) \<and> ei_compensates j = None))
     \<and> (\<forall>s. ei_successorOf i = Some s \<longrightarrow> s < n \<and> (\<exists>j. view f s = Some (True, j)))
     \<and> (\<forall>k<n. \<forall>j. view f k = Some (True, j) \<longrightarrow>
          (ei_epochRef j, ei_logicalKey j) \<noteq> (ei_epochRef i, ei_logicalKey i))"

lemma licensed_same_indexes: "same_indexes f g \<Longrightarrow> licensed g = licensed f"
  by (simp add: fun_eq_iff licensed_def same_indexes_def)

lemma closed_between_same_indexes: "same_indexes f g \<Longrightarrow> closed_between g = closed_between f"
  by (simp add: fun_eq_iff closed_between_def same_indexes_def)

lemma entitled_frame:
  assumes "same_indexes f g" "\<And>k. k < n \<Longrightarrow> view g k = view f k" "epoch_before g n = epoch_before f n"
  shows "entitled g n i = entitled f n i"
proof -
  have "(\<forall>c. ei_compensates i = Some c \<longrightarrow> c < n \<and> (\<exists>j. view g c = Some (True, j) \<and> ei_compensates j = None))
      = (\<forall>c. ei_compensates i = Some c \<longrightarrow> c < n \<and> (\<exists>j. view f c = Some (True, j) \<and> ei_compensates j = None))"
    using assms(2) by auto
  moreover have "(\<forall>s. ei_successorOf i = Some s \<longrightarrow> s < n \<and> (\<exists>j. view g s = Some (True, j)))
      = (\<forall>s. ei_successorOf i = Some s \<longrightarrow> s < n \<and> (\<exists>j. view f s = Some (True, j)))"
    using assms(2) by auto
  ultimately show ?thesis
    using assms(2,3) licensed_same_indexes [OF assms(1)] by (simp add: entitled_def)
qed

text \<open>The latest epoch before a position only depends on where the epochs are.\<close>

lemma epoch_before_fold:
  "epoch_before f n = foldl (\<lambda>latest s. if s < n then Some s else latest) None (map ep_seq (elf_epochs f))"
proof -
  have "map_option ep_seq (foldl (\<lambda>latest ep. if ep_seq ep < n then Some ep else latest) o' eps)
      = foldl (\<lambda>latest s. if s < n then Some s else latest) (map_option ep_seq o') (map ep_seq eps)" for o' eps
    by (induction eps arbitrary: o') (simp_all add: if_distrib)
  from this [of None "elf_epochs f"] show ?thesis by (simp add: epoch_before_def latestEpochBefore_def)
qed

lemma epoch_before_moves:
  assumes "map ep_seq (elf_epochs g) = map ep_seq (elf_epochs f)
           \<or> map ep_seq (elf_epochs g) = map ep_seq (elf_epochs f) @ [je_seq e]"
    and "n \<le> je_seq e"
  shows "epoch_before g n = epoch_before f n"
  using assms by (auto simp: epoch_before_fold)

section \<open>The invariant of the pass\<close>

definition attempts_licensed :: "effect_lane_fold \<Rightarrow> effect_machine \<Rightarrow> bool" where
  "attempts_licensed f m \<longleftrightarrow>
     (\<forall>a\<in>set (em_attempts m). \<not> closed_between f (ei_approvalRef (em_intent m)) (em_intentSeq m) (at_seq a))"

definition machine_ok :: "nat \<Rightarrow> effect_lane_fold \<Rightarrow> nat \<Rightarrow> effect_machine \<Rightarrow> bool" where
  "machine_ok p f n m \<longleftrightarrow> em_intentSeq m = n \<and> machine_sound m \<and> machine_before p m \<and> attempts_licensed f m"

definition confirmed_at :: "effect_machine \<Rightarrow> nat \<Rightarrow> bool" where
  "confirmed_at m p \<longleftrightarrow> em_consumed m \<and> (\<exists>t. em_terminal m = Some t \<and> mt_terminal t = T_confirmed \<and> mt_seq t < p)"

definition compensations_ok :: "effect_lane_fold \<Rightarrow> bool" where
  "compensations_ok f \<longleftrightarrow> (\<forall>n m t. jm_get (elf_machines f) n = Some m \<and> em_terminal m = Some t
     \<and> mt_terminal t = T_compensated \<longrightarrow>
       (\<exists>c mc. jm_get (elf_machines f) c = Some mc \<and> ei_compensates (em_intent mc) = Some n \<and> confirmed_at mc (mt_seq t)))"

definition canonical_ok :: "effect_lane_fold \<Rightarrow> bool" where
  "canonical_ok f \<longleftrightarrow> (\<forall>k n. jm_get (elf_canonical f) k = Some n
     \<longleftrightarrow> (\<exists>j. view f n = Some (True, j) \<and> (ei_epochRef j, ei_logicalKey j) = k))"

definition lane_inv :: "nat \<Rightarrow> effect_lane_fold \<Rightarrow> bool" where
  "lane_inv p f \<longleftrightarrow>
     (\<forall>n m. jm_get (elf_machines f) n = Some m \<longrightarrow> machine_ok p f n m)
     \<and> (\<forall>ep\<in>set (elf_epochs f). ep_seq ep < p)
     \<and> canonical_ok f \<and> compensations_ok f
     \<and> (\<forall>n b i. view f n = Some (b, i) \<longrightarrow> (b \<longleftrightarrow> entitled f n i))"

definition indexes_sorted :: "effect_lane_fold \<Rightarrow> bool" where
  "indexes_sorted f \<longleftrightarrow> (\<forall>r. sorted (index_of (elf_revoked f) r) \<and> sorted (index_of (elf_expired f) r))"

lemma machine_before_mono: "machine_before p m \<Longrightarrow> p \<le> q \<Longrightarrow> machine_before q m"
  by (fastforce simp: machine_before_def)

lemma machine_ok_mono: "machine_ok p f n m \<Longrightarrow> p \<le> q \<Longrightarrow> same_indexes f g \<Longrightarrow> machine_ok q g n m"
  using machine_before_mono closed_between_same_indexes [of f g]
  by (auto simp: machine_ok_def attempts_licensed_def)

lemma machine_step_licensed:
  assumes "machine_step f e m m'" "attempts_licensed f m" "indexes_sorted f"
  shows "attempts_licensed f m'"
  using assms(1)
proof cases
  case (attempt x)
  then show ?thesis
    using applyAttempt_cases [of f e x m] assms(2,3) dispatch_disabled_iff [of f m "je_seq e"]
    by (auto simp: attempts_licensed_def indexes_sorted_def open_attempt_def)
next
  case (outcome r v)
  show ?thesis
  proof (cases "m' = m")
    case False
    then have o: "em_attempts m' = update_attempt r (close_attempt e v) (em_attempts m)"
      "em_intentSeq m' = em_intentSeq m" "em_intent m' = em_intent m"
      using applyOutcome_cases [of e r v m] outcome by auto
    have "at_seq ` set (em_attempts m') = at_seq ` set (em_attempts m)"
      unfolding o(1) by (metis set_map update_attempt_seqs)
    then show ?thesis
      using assms(2) o(2,3) unfolding attempts_licensed_def by (metis (no_types, lifting) image_iff)
  qed (simp add: assms(2))
next
  case (terminal t)
  then show ?thesis using assms(2) applyTerminal_cases [of f e t m] by (auto simp: attempts_licensed_def)
qed (use assms(2) in \<open>simp_all add: attempts_licensed_def\<close>)

lemma machine_ok_step:
  assumes "machine_step f e m m'" "machine_ok p f n m" "em_consumed m" "p \<le> je_seq e" "indexes_sorted f" "je_seq e < q"
  shows "machine_ok q f n m'"
proof -
  have ok: "em_intentSeq m = n" "machine_sound m" "machine_before (je_seq e) m" "attempts_licensed f m"
    using assms(2,4) machine_before_mono by (auto simp: machine_ok_def)
  show ?thesis
    using machine_step_frame(1) [OF assms(1)] machine_sound_step [OF assms(1) ok(2) assms(3) ok(3)]
      machine_before_step [OF assms(1) ok(3) assms(6)] machine_step_licensed [OF assms(1) ok(4) assms(5)] ok(1)
    by (simp add: machine_ok_def)
qed

lemma machine_step_compensated:
  assumes "machine_step f e m m'" "em_terminal m' = Some t" "em_terminal m \<noteq> Some t" "mt_terminal t = T_compensated"
  shows "mt_seq t = je_seq e \<and> (\<exists>c mc. jm_get (elf_machines f) c = Some mc
           \<and> ei_compensates (em_intent mc) = Some (em_intentSeq m) \<and> confirmed_at mc (je_seq e))"
  using assms(1)
proof cases
  case (attempt x)
  then show ?thesis using applyAttempt_cases [of f e x m] assms(2,3) by auto
next
  case (outcome r v)
  then show ?thesis using applyOutcome_cases [of e r v m] assms(2,3) by auto
next
  case (terminal d)
  then have "mt_seq t = je_seq e" "compensation_licensed f (je_seq e) m (et_causalRef d)"
    using applyTerminal_cases [of f e d m] assms(2-4) by (auto simp: terminalIllegality_def split: if_splits)
  then show ?thesis
    by (auto simp: compensation_licensed_def confirmed_at_def bind_eq_Some_conv split: option.splits)
qed (use assms(2,3) in simp_all)

text \<open>Moves of epochs and of one machine.\<close>

lemma lane_inv_epoch_moves:
  assumes inv: "lane_inv p f" and "p \<le> je_seq e" and mv: "epoch_moves f e g" and ix: "same_indexes f g"
  shows "lane_inv (Suc (je_seq e)) g"
proof -
  have ms: "elf_machines g = elf_machines f" "elf_canonical g = elf_canonical f" using mv by (simp_all add: epoch_moves_def)
  then have vw: "view g = view f" by (simp add: view_def fun_eq_iff)
  have before: "n < p" if "view f n = Some b" for n b
    using that inv by (auto simp: lane_inv_def view_def machine_ok_def machine_before_def)
  have "entitled g n i = entitled f n i" if "n < p" for n i
  proof (rule entitled_frame [OF ix])
    show "epoch_before g n = epoch_before f n"
      using mv that assms(2) by (intro epoch_before_moves [of g f e]) (simp_all add: epoch_moves_def)
  qed (simp add: vw)
  then have ent: "\<forall>n b i. view g n = Some (b, i) \<longrightarrow> (b \<longleftrightarrow> entitled g n i)"
    using inv vw before unfolding lane_inv_def by (metis (full_types))
  have "set (map ep_seq (elf_epochs g)) \<subseteq> insert (je_seq e) (set (map ep_seq (elf_epochs f)))"
    using mv unfolding epoch_moves_def by (elim conjE disjE) (simp_all only: set_append, auto)
  moreover have "\<forall>s\<in>set (map ep_seq (elf_epochs f)). s < p" using inv by (simp add: lane_inv_def)
  ultimately have eps: "\<forall>ep\<in>set (elf_epochs g). ep_seq ep < Suc (je_seq e)"
    using assms(2) by (fastforce simp: less_Suc_eq_le)
  have "\<forall>n m. jm_get (elf_machines g) n = Some m \<longrightarrow> machine_ok (Suc (je_seq e)) g n m"
    using inv ms(1) machine_ok_mono [OF _ _ ix] assms(2) by (fastforce simp: lane_inv_def)
  moreover have "canonical_ok g = canonical_ok f" "compensations_ok g = compensations_ok f"
    by (simp_all add: canonical_ok_def compensations_ok_def ms vw)
  ultimately show ?thesis
    using inv eps ent unfolding lane_inv_def by blast
qed

lemma lane_inv_machine_moves:
  assumes inv: "lane_inv p f" and p: "p \<le> je_seq e" and mv: "machine_moves f e g" and ix: "same_indexes f g"
    and srt: "indexes_sorted f"
  shows "lane_inv (Suc (je_seq e)) g"
proof -
  obtain r m m' where m: "jm_get (elf_machines f) r = Some m" "em_consumed m" "machine_step f e m m'"
      "elf_machines g = jm_set (em_intentSeq m') m' (elf_machines f)"
    and rest: "elf_canonical g = elf_canonical f" "elf_epochs g = elf_epochs f"
    using mv by (auto simp: machine_moves_def)
  note frame = machine_step_frame [OF m(3)]
  have mok: "machine_ok p f r m" using inv m(1) by (simp add: lane_inv_def)
  then have r: "em_intentSeq m' = r" "em_intentSeq m = r" using frame(1) by (simp_all add: machine_ok_def)
  have get: "jm_get (elf_machines g) n = (if n = r then Some m' else jm_get (elf_machines f) n)" for n
    using m(4) r(1) by (simp add: jm_get_set)
  have vw: "view g = view f" using m(1) frame(2,3) by (simp add: view_def fun_eq_iff get)
  have ep: "epoch_before g n = epoch_before f n" for n using rest(2) by (simp add: epoch_before_fold)
  have ent: "entitled g n i = entitled f n i" for n i by (rule entitled_frame [OF ix]) (simp_all add: vw ep)
  have "machine_ok (Suc (je_seq e)) f r m'" by (rule machine_ok_step [OF m(3) mok m(2) p srt]) simp
  then have machines: "\<forall>n u. jm_get (elf_machines g) n = Some u \<longrightarrow> machine_ok (Suc (je_seq e)) g n u"
    using inv machine_ok_mono [OF _ _ ix, of p] machine_ok_mono [OF _ _ ix, of "Suc (je_seq e)" r m'] le_SucI [OF p]
    unfolding get lane_inv_def by (metis option.inject order_refl)
  have kept: "\<exists>u'. jm_get (elf_machines g) c = Some u' \<and> em_intent u' = em_intent u \<and> (confirmed_at u q \<longrightarrow> confirmed_at u' q)"
    if "jm_get (elf_machines f) c = Some u" for c u q
    using that m(1) frame by (cases "c = r") (auto simp: get confirmed_at_def)
  have "compensations_ok g"
    unfolding compensations_ok_def
  proof (intro allI impI, elim conjE)
    fix n u t
    assume u: "jm_get (elf_machines g) n = Some u" "em_terminal u = Some t" "mt_terminal t = T_compensated"
    have "\<exists>c mc. jm_get (elf_machines f) c = Some mc \<and> ei_compensates (em_intent mc) = Some n \<and> confirmed_at mc (mt_seq t)"
    proof (cases "n = r \<and> em_terminal m \<noteq> Some t")
      case True
      then show ?thesis using u machine_step_compensated [OF m(3), of t] r(2) by (auto simp: get)
    next
      case False
      then obtain u0 where "jm_get (elf_machines f) n = Some u0" "em_terminal u0 = Some t"
        using u m(1) by (auto simp: get split: if_splits)
      then show ?thesis using inv u(3) unfolding lane_inv_def compensations_ok_def by blast
    qed
    then show "\<exists>c mc. jm_get (elf_machines g) c = Some mc \<and> ei_compensates (em_intent mc) = Some n \<and> confirmed_at mc (mt_seq t)"
      using kept by metis
  qed
  moreover have "canonical_ok g" using inv vw rest(1) by (simp add: lane_inv_def canonical_ok_def)
  ultimately show ?thesis
    using inv machines vw ent p rest(2) unfolding lane_inv_def by (auto simp: less_SucI)
qed

text \<open>A new intent: its machine starts void or consumed, as it is entitled.\<close>

lemma applyIntent_sel:
  fixes e i f
  defines "g \<equiv> applyIntent e i f"
  shows "elf_epochs g = elf_epochs f"
    and "jm_get (elf_machines g) n = (if n = je_seq e then
      Some (case consumption_verdict (put_machine (new_machine e i) f) e i of
              Some why \<Rightarrow> (new_machine e i)\<lparr> em_voidReason := Some why \<rparr>
            | None \<Rightarrow> (new_machine e i)\<lparr> em_consumed := True, em_state := MS_intent \<rparr>) else jm_get (elf_machines f) n)"
    and "elf_canonical g = (case consumption_verdict (put_machine (new_machine e i) f) e i of
              Some why \<Rightarrow> elf_canonical f
            | None \<Rightarrow> jm_set (ei_epochRef i, ei_logicalKey i) (je_seq e) (elf_canonical f))"
  unfolding g_def by (auto simp: applyIntent_def Let_def new_machine_def jm_get_set split: option.splits)

lemma verdict_entitled:
  assumes inv: "lane_inv p f" and p: "p \<le> je_seq e"
  shows "consumption_verdict (put_machine (new_machine e i) f) e i = None \<longleftrightarrow> entitled f (je_seq e) i"
proof -
  let ?f = "put_machine (new_machine e i) f"
  have get: "jm_get (elf_machines ?f) n = (if n = je_seq e then Some (new_machine e i) else jm_get (elf_machines f) n)" for n
    by (simp add: jm_get_set new_machine_def)
  have consumed: "(\<exists>m. jm_get (elf_machines ?f) n = Some m \<and> em_consumed m \<and> P (em_intent m))
      \<longleftrightarrow> n < je_seq e \<and> (\<exists>j. view f n = Some (True, j) \<and> P j)" for n P
  proof (cases "jm_get (elf_machines f) n")
    case None
    then show ?thesis unfolding get by (auto simp: view_def new_machine_def)
  next
    case (Some m)
    then have "n < je_seq e"
      using inv p by (fastforce simp: lane_inv_def machine_ok_def machine_before_def)
    then show ?thesis using Some unfolding get by (auto simp: view_def)
  qed
  have canon: "jm_get (elf_canonical f) k = None
      \<longleftrightarrow> (\<forall>n<je_seq e. \<forall>j. view f n = Some (True, j) \<longrightarrow> (ei_epochRef j, ei_logicalKey j) \<noteq> k)" for k
  proof -
    have "n < je_seq e" if "view f n = Some (True, j)" for n j
      using that inv p by (fastforce simp: view_def lane_inv_def machine_ok_def machine_before_def)
    moreover have "jm_get (elf_canonical f) k \<noteq> None
        \<longleftrightarrow> (\<exists>n j. view f n = Some (True, j) \<and> (ei_epochRef j, ei_logicalKey j) = k)"
      using inv unfolding lane_inv_def canonical_ok_def by blast
    ultimately show ?thesis by blast
  qed
  have "epoch_before ?f (je_seq e) = epoch_before f (je_seq e)" by (simp add: epoch_before_fold)
  moreover have "(\<exists>ep. latestEpochBefore ?f (je_seq e) = Some ep \<and> ep_seq ep = ei_epochRef i)
      \<longleftrightarrow> epoch_before ?f (je_seq e) = Some (ei_epochRef i)"
    by (simp add: epoch_before_def)
  moreover have "licensed ?f = licensed f"
    by (rule licensed_same_indexes) (simp add: same_indexes_def)
  ultimately show ?thesis
    unfolding consumption_iff entitled_def causal_ok_def
    using consumed [where P = "\<lambda>j. ei_compensates j = None"] consumed [where P = "\<lambda>j. True"] canon by simp
qed

lemma lane_inv_intent:
  assumes inv: "lane_inv p f" and p: "p \<le> je_seq e"
  shows "lane_inv (Suc (je_seq e)) (applyIntent e i f)"
proof -
  let ?g = "applyIntent e i f" and ?n = "je_seq e"
  let ?v = "consumption_verdict (put_machine (new_machine e i) f) e i"
  note sel = applyIntent_sel [of e i f]
  note ix = applyIntent_indexes [of f e i]
  have lt: "n < ?n" if "jm_get (elf_machines f) n = Some m" for n m
    using that inv p by (fastforce simp: lane_inv_def machine_ok_def machine_before_def)
  have old: "view ?g k = view f k" if "k \<noteq> ?n" for k using that by (simp add: view_def sel(2))
  have new: "view ?g ?n = Some (?v = None, i)" by (simp add: view_def sel(2) new_machine_def split: option.split)
  have fresh: "view f ?n = None" using lt [of ?n] by (cases "jm_get (elf_machines f) ?n") (auto simp: view_def)
  have ep: "epoch_before ?g n = epoch_before f n" for n by (simp add: epoch_before_fold sel(1))
  have ent: "entitled ?g n j = entitled f n j" if "n \<le> ?n" for n j
    by (rule entitled_frame [OF ix]) (use that old ep in auto)
  have vd: "?v = None \<longleftrightarrow> entitled f ?n i" by (rule verdict_entitled [OF inv p])
  have "b \<longleftrightarrow> entitled ?g n j" if "view ?g n = Some (b, j)" for n b j
  proof (cases "n = ?n")
    case True
    then have "(?v = None, i) = (b, j)" using that new by (metis option.inject)
    then have "b = (?v = None)" "j = i" by blast+
    then show ?thesis using ent [of ?n i] vd True by simp
  next
    case False
    then have "view f n = Some (b, j)" using that old by simp
    moreover then have "n \<le> ?n" using lt by (auto simp: view_def intro: less_imp_le)
    ultimately show ?thesis using inv ent unfolding lane_inv_def by blast
  qed
  moreover have "machine_ok (Suc ?n) ?g n m" if "jm_get (elf_machines ?g) n = Some m" for n m
  proof (cases "n = ?n")
    case True
    then show ?thesis
      using that by (auto simp: sel(2) new_machine_def machine_ok_def machine_sound_def machine_before_def attempts_sound_def
          attempts_licensed_def split: option.splits)
  next
    case False
    then have "machine_ok p f n m" using that inv by (simp add: sel(2) lane_inv_def)
    then show ?thesis by (rule machine_ok_mono [OF _ _ ix]) (simp add: le_SucI p)
  qed
  moreover have "canonical_ok ?g"
  proof -
    have "jm_get (elf_canonical ?g) k = Some n \<longleftrightarrow> (\<exists>j. view ?g n = Some (True, j) \<and> (ei_epochRef j, ei_logicalKey j) = k)" for k n
    proof (cases "n = ?n")
      case True
      have "jm_get (elf_canonical f) k \<noteq> Some ?n"
        using inv fresh unfolding lane_inv_def canonical_ok_def by (metis option.distinct(1))
      then show ?thesis using True new by (auto simp: sel(3) jm_get_set split: option.split)
    next
      case False
      have "jm_get (elf_canonical f) (ei_epochRef i, ei_logicalKey i) = None" if "?v = None"
        using that unfolding consumption_iff by simp
      then have "jm_get (elf_canonical ?g) k = Some n \<longleftrightarrow> jm_get (elf_canonical f) k = Some n"
        using False by (auto simp: sel(3) jm_get_set split: option.split)
      moreover have "jm_get (elf_canonical f) k = Some n
          \<longleftrightarrow> (\<exists>j. view f n = Some (True, j) \<and> (ei_epochRef j, ei_logicalKey j) = k)"
        using inv unfolding lane_inv_def canonical_ok_def by blast
      ultimately show ?thesis using old [OF False] by simp
    qed
    then show ?thesis by (simp add: canonical_ok_def)
  qed
  moreover have "compensations_ok ?g"
  proof -
    have "c \<noteq> ?n" if "jm_get (elf_machines f) c = Some u" for c u using lt that by blast
    moreover have "em_terminal u = None" if "jm_get (elf_machines ?g) ?n = Some u" for u
      using that by (auto simp: sel(2) new_machine_def split: option.splits)
    ultimately show ?thesis
      using inv unfolding lane_inv_def compensations_ok_def sel(2) by (metis option.distinct(1))
  qed
  ultimately show ?thesis
    using inv p unfolding lane_inv_def sel(1) by (auto intro: less_SucI)
qed

lemma lane_inv_step:
  assumes "lane_inv p f" "p \<le> je_seq e" "indexes_sorted f"
  shows "lane_inv (Suc (je_seq e)) (applyEntry f e)"
  using applyEntry_cases [of f e]
proof (elim disjE exE conjE)
  assume "epoch_moves f e (applyEntry f e)"
  then show ?thesis using lane_inv_epoch_moves assms(1,2) applyEntry_indexes by blast
next
  assume "machine_moves f e (applyEntry f e)"
  then show ?thesis using lane_inv_machine_moves assms applyEntry_indexes by blast
next
  fix opId i
  let ?f = "f\<lparr> elf_opIds := jm_set opId (je_seq e) (elf_opIds f) \<rparr>"
  assume app: "applyEntry f e = applyIntent e i ?f"
  have "entitled ?f n j = entitled f n j" for n j
    by (rule entitled_frame) (simp_all add: same_indexes_def view_def epoch_before_fold)
  moreover have "machine_ok p ?f n m = machine_ok p f n m" for n m
    by (simp add: machine_ok_def attempts_licensed_def closed_between_def)
  moreover have "view ?f = view f" by (simp add: view_def fun_eq_iff)
  moreover have "compensations_ok ?f = compensations_ok f" by (simp add: compensations_ok_def)
  moreover have "canonical_ok ?f = canonical_ok f" using \<open>view ?f = view f\<close> by (simp add: canonical_ok_def)
  ultimately have "lane_inv p ?f" using assms(1) by (simp add: lane_inv_def)
  then show ?thesis unfolding app using assms(2) by (rule lane_inv_intent)
qed

lemma indexes_sorted_same: "same_indexes f g \<Longrightarrow> indexes_sorted g = indexes_sorted f"
  by (simp add: indexes_sorted_def same_indexes_def)

lemma indexes_sorted_indexed: "seqs_increasing es \<Longrightarrow> indexes_sorted (indexed rf es)"
proof -
  assume inc: "seqs_increasing es"
  have "sorted (map je_seq (filter P es))" for P
  proof -
    have "sorted_wrt (<) (map je_seq (filter P es))"
      using inc unfolding seqs_increasing_def sorted_wrt_map by (rule sorted_wrt_filter)
    then show ?thesis by (rule strict_sorted_imp_sorted)
  qed
  then show ?thesis by (simp add: indexes_sorted_def indexed_sel revocations_def expiries_def)
qed

lemma lane_inv_fold:
  assumes "lane_inv p f" "indexes_sorted f" "seqs_increasing es" "\<forall>e\<in>set es. p \<le> je_seq e"
  shows "\<exists>q. lane_inv q (foldl applyEntry f es) \<and> (\<forall>e\<in>set es. je_seq e < q) \<and> p \<le> q \<and> (\<forall>s. (\<forall>e\<in>set es. je_seq e < s) \<and> p \<le> s \<longrightarrow> q \<le> s)"
  using assms
proof (induction es arbitrary: p f)
  case Nil
  then show ?case by auto
next
  case (Cons e es)
  have "lane_inv (Suc (je_seq e)) (applyEntry f e)" using Cons.prems by (intro lane_inv_step) auto
  moreover have "indexes_sorted (applyEntry f e)"
    using indexes_sorted_same [OF applyEntry_indexes] Cons.prems(2) by simp
  moreover have "seqs_increasing es" "\<forall>x\<in>set es. Suc (je_seq e) \<le> je_seq x"
    using Cons.prems(3) by (auto simp: seqs_increasing_def Suc_le_eq)
  ultimately obtain q where q: "lane_inv q (foldl applyEntry (applyEntry f e) es)" "\<forall>x\<in>set es. je_seq x < q" "Suc (je_seq e) \<le> q"
      "\<forall>s. (\<forall>x\<in>set es. je_seq x < s) \<and> Suc (je_seq e) \<le> s \<longrightarrow> q \<le> s"
    using Cons.IH by blast
  then show ?case using Cons.prems(4) by (intro exI [of _ q]) (auto simp: Suc_le_eq)
qed

lemma lane_inv_pass:
  assumes "seqs_increasing es" "\<forall>e\<in>set es. je_seq e < p"
  shows "lane_inv p (lane_pass rf es)"
proof -
  have "lane_inv 0 (indexed rf es)"
    by (simp add: lane_inv_def indexed_sel view_def canonical_ok_def compensations_ok_def)
  then obtain q where "lane_inv q (lane_pass rf es)" "q \<le> p"
    using lane_inv_fold [of 0 "indexed rf es" es] indexes_sorted_indexed [OF assms(1)] assms
    unfolding lane_pass_def indexed_def [symmetric] by auto
  then show ?thesis
    unfolding lane_inv_def using machine_ok_mono [of q] by (fastforce simp: same_indexes_def)
qed

section \<open>Later entries\<close>

text \<open>
  The fold of a longer journal reads the earlier entries with larger indexes. Up to the reason a
  void intent is refused with, it does the same: what a verdict at a position reads of the indexes
  lies before that position.
\<close>

definition forget_machine :: "effect_machine \<Rightarrow> effect_machine" where
  "forget_machine m = m\<lparr> em_voidReason := None \<rparr>"

definition forget_class :: "lane_classification \<Rightarrow> lane_classification" where
  "forget_class c = (case c of L_void _ \<Rightarrow> L_void No_epoch | _ \<Rightarrow> c)"

definition lane_sim :: "effect_lane_fold \<Rightarrow> effect_lane_fold \<Rightarrow> bool" where
  "lane_sim f g \<longleftrightarrow>
     map (map_prod id forget_machine) (elf_machines g) = map (map_prod id forget_machine) (elf_machines f)
     \<and> map (map_prod id forget_class) (elf_classifications g) = map (map_prod id forget_class) (elf_classifications f)
     \<and> elf_canonical g = elf_canonical f \<and> elf_opIds g = elf_opIds f \<and> elf_epochs g = elf_epochs f"

definition ctx_agree :: "effect_lane_fold \<Rightarrow> effect_lane_fold \<Rightarrow> nat \<Rightarrow> bool" where
  "ctx_agree f g p \<longleftrightarrow> (\<forall>r k. licensed g r p k = licensed f r p k) \<and> (\<forall>m. dispatch_disabled g m p = dispatch_disabled f m p)"

lemma map_jm_set: "map (map_prod id h) (jm_set k v m) = jm_set k (h v) (map (map_prod id h) m)"
  by (induction m) auto

lemma jm_get_map: "jm_get (map (map_prod id h) m) k = map_option h (jm_get m k)"
  by (induction m) auto

lemma lane_sim_refl [simp]: "lane_sim f f"
  by (simp add: lane_sim_def)

lemma forget_machine_sel [simp]:
  "em_intentSeq (forget_machine m) = em_intentSeq m" "em_consumed (forget_machine m) = em_consumed m"
  "em_terminal (forget_machine m) = em_terminal m" "em_attempts (forget_machine m) = em_attempts m"
  "em_receipts (forget_machine m) = em_receipts m" "em_intent (forget_machine m) = em_intent m"
  "em_state (forget_machine m) = em_state m"
  by (simp_all add: forget_machine_def)

lemma forget_fields:
  assumes "forget_machine m' = forget_machine m"
  shows "em_consumed m' = em_consumed m" "em_intent m' = em_intent m" "em_terminal m' = em_terminal m"
    "em_intentSeq m' = em_intentSeq m" "em_attempts m' = em_attempts m"
  using assms by (metis forget_machine_sel)+

lemma sim_get:
  assumes "lane_sim f g"
  shows "rel_option (\<lambda>m m'. forget_machine m' = forget_machine m) (jm_get (elf_machines f) n) (jm_get (elf_machines g) n)"
proof -
  have "map_option forget_machine (jm_get (elf_machines g) n) = map_option forget_machine (jm_get (elf_machines f) n)"
    using assms unfolding lane_sim_def by (metis jm_get_map)
  then show ?thesis by (cases "jm_get (elf_machines f) n"; cases "jm_get (elf_machines g) n") simp_all
qed

lemma sim_put: "lane_sim f g \<Longrightarrow> forget_machine m' = forget_machine m \<Longrightarrow> lane_sim (put_machine m f) (put_machine m' g)"
  by (simp add: lane_sim_def map_jm_set) (metis forget_machine_sel(1))

lemma sim_classify: "lane_sim f g \<Longrightarrow> forget_class c' = forget_class c \<Longrightarrow> lane_sim (classify n c f) (classify n c' g)"
  by (simp add: lane_sim_def map_jm_set)

lemma sim_on_machine:
  assumes "lane_sim f g"
    and "\<And>m m'. forget_machine m' = forget_machine m \<Longrightarrow>
      forget_machine (fst (act' m')) = forget_machine (fst (act m)) \<and> forget_class (snd (act' m')) = forget_class (snd (act m))"
  shows "lane_sim (on_machine n r act f) (on_machine n r act' g)"
  using sim_get [OF assms(1), of r]
proof (cases rule: option.rel_cases)
  case None
  then show ?thesis using sim_classify [OF assms(1)] by (simp add: on_machine_def liveMachine_def)
next
  case (Some m m')
  have c: "em_consumed m' = em_consumed m" using Some(3) by (metis forget_machine_sel(2))
  show ?thesis
  proof (cases "em_consumed m")
    case False
    then show ?thesis using sim_classify [OF assms(1)] Some c by (simp add: on_machine_def liveMachine_def)
  next
    case True
    obtain u w u' w' where "act m = (u, w)" "act' m' = (u', w')" by (cases "act m"; cases "act' m'")
    then show ?thesis
      using assms(2) [OF Some(3)] sim_classify [OF sim_put [OF assms(1)]] Some c True
      by (simp add: on_machine_def liveMachine_def)
  qed
qed

text \<open>The operations of a machine ignore the reason it is void for.\<close>

lemma forget_eq: "forget_machine m' = forget_machine m \<longleftrightarrow> m' = m\<lparr> em_voidReason := em_voidReason m' \<rparr>"
  by (cases m; cases m') (simp add: forget_machine_def)

lemma applyOutcome_void: "applyOutcome e r v (m\<lparr> em_voidReason := y \<rparr>) = apfst (\<lambda>u. u\<lparr> em_voidReason := y \<rparr>) (applyOutcome e r v m)"
  by (auto simp: applyOutcome_def Let_def split: option.split)

lemma applyReceipt_void: "applyReceipt e d (m\<lparr> em_voidReason := y \<rparr>) = apfst (\<lambda>u. u\<lparr> em_voidReason := y \<rparr>) (applyReceipt e d m)"
  by (auto simp: applyReceipt_def Let_def add_receipt_def add_incident_def split: option.split)

lemma applyAttempt_void:
  assumes "\<And>u. dispatch_disabled g u (je_seq e) = dispatch_disabled f u (je_seq e)"
  shows "applyAttempt g e x (m\<lparr> em_voidReason := y \<rparr>) = apfst (\<lambda>u. u\<lparr> em_voidReason := y \<rparr>) (applyAttempt f e x m)"
proof -
  have "dispatch_disabled f (m\<lparr> em_voidReason := y \<rparr>) (je_seq e) = dispatch_disabled f m (je_seq e)"
    by (simp add: dispatch_disabled_def closerAfterIntent_def)
  then show ?thesis using assms by (auto simp: applyAttempt_def split: option.split)
qed

lemma applyTerminal_void:
  assumes "lane_sim f g"
  shows "applyTerminal g e t (m\<lparr> em_voidReason := y \<rparr>) = apfst (\<lambda>u. u\<lparr> em_voidReason := y \<rparr>) (applyTerminal f e t m)"
proof -
  have "compensation_licensed g n (m\<lparr> em_voidReason := y \<rparr>) c = compensation_licensed f n m c" for n c
  proof (cases "as_seq c")
    case (Some k)
    note k = this
    show ?thesis
      using sim_get [OF assms, of k]
    proof (cases rule: option.rel_cases)
      case (Some u u')
      with forget_fields [OF Some(3)] k show ?thesis by (simp add: compensation_licensed_def)
    qed (simp add: compensation_licensed_def k)
  qed (simp add: compensation_licensed_def)
  then have "terminalIllegality g n (m\<lparr> em_voidReason := y \<rparr>) k c = terminalIllegality f n m k c" for n k c
    by (simp add: terminalIllegality_def)
  then show ?thesis by (auto simp: applyTerminal_def split: option.split)
qed

lemma sim_act:
  assumes "\<And>m y. act' (m\<lparr> em_voidReason := y \<rparr>) = apfst (\<lambda>u. u\<lparr> em_voidReason := y \<rparr>) (act m)"
    and "forget_machine m' = forget_machine m"
  shows "forget_machine (fst (act' m')) = forget_machine (fst (act m)) \<and> forget_class (snd (act' m')) = forget_class (snd (act m))"
proof -
  have "act' m' = apfst (\<lambda>u. u\<lparr> em_voidReason := em_voidReason m' \<rparr>) (act m)"
    using assms(1) [where m = m and y = "em_voidReason m'"] assms(2) forget_eq by metis
  then show ?thesis by (simp add: forget_machine_def)
qed

lemma sim_intent:
  assumes "lane_sim f g" "ctx_agree f g (je_seq e)"
  shows "lane_sim (applyIntent e i f) (applyIntent e i g)"
proof -
  let ?f = "put_machine (new_machine e i) f" and ?g = "put_machine (new_machine e i) g"
  have s: "lane_sim ?f ?g" using sim_put [OF assms(1)] by simp
  have "latestEpochBefore ?g = latestEpochBefore ?f"
    using assms(1) by (simp add: fun_eq_iff latestEpochBefore_def lane_sim_def)
  moreover have "causal_ok (elf_machines ?g) i = causal_ok (elf_machines ?f) i"
  proof -
    have "(\<exists>m. jm_get (elf_machines ?g) n = Some m \<and> em_consumed m \<and> P (em_intent m))
        \<longleftrightarrow> (\<exists>m. jm_get (elf_machines ?f) n = Some m \<and> em_consumed m \<and> P (em_intent m))" for n P
      using sim_get [OF s, of n]
    proof (cases rule: option.rel_cases)
      case (Some u u')
      with forget_fields [OF Some(3)] show ?thesis by auto
    qed auto
    from this [where P = "\<lambda>j. ei_compensates j = None"] this [where P = "\<lambda>_. True"]
    show ?thesis unfolding causal_ok_def by simp
  qed
  moreover have "licensed ?g r (je_seq e) k = licensed ?f r (je_seq e) k" for r k
    using assms(2) by (simp add: ctx_agree_def licensed_def)
  moreover have "elf_canonical ?g = elf_canonical ?f" using assms(1) by (simp add: lane_sim_def)
  ultimately have v: "consumption_verdict ?g e i = None \<longleftrightarrow> consumption_verdict ?f e i = None"
    unfolding consumption_iff by simp
  show ?thesis
  proof (cases "consumption_verdict ?f e i")
    case None
    let ?c = "\<lambda>h. h\<lparr> elf_canonical := jm_set (ei_epochRef i, ei_logicalKey i) (je_seq e) (elf_canonical h) \<rparr>"
    have "lane_sim (?c ?f) (?c ?g)" using s by (simp add: lane_sim_def)
    then show ?thesis using None v unfolding applyIntent_def Let_def by (simp add: sim_classify sim_put)
  next
    case (Some why)
    then obtain why' where why': "consumption_verdict ?g e i = Some why'" using v by (cases "consumption_verdict ?g e i") auto
    show ?thesis
      unfolding applyIntent_def Let_def Some why' option.case
      by (intro sim_classify sim_put s) (simp_all add: forget_class_def forget_machine_def)
  qed
qed

lemma sim_simple:
  assumes "lane_sim f g"
  shows "lane_sim (standalone e x f) (standalone e x g)"
    and "lane_sim (applyEpoch e gen rg f) (applyEpoch e gen rg g)"
    and "lane_sim (applyReconciliation e r f) (applyReconciliation e r g)"
    and "lane_sim (f\<lparr> elf_declarations := u \<rparr>) (g\<lparr> elf_declarations := v \<rparr>)"
    and "lane_sim (f\<lparr> elf_opIds := w \<rparr>) (g\<lparr> elf_opIds := w \<rparr>)"
  using assms
  by (simp_all add: standalone_def applyEpoch_def applyReconciliation_def Let_def lane_sim_def map_jm_set)

lemma sim_decision:
  assumes "lane_sim f g" "ctx_agree f g (je_seq e)"
  shows "lane_sim (applyDecision e d f) (applyDecision e d g)"
proof (cases d)
  case (E_epoch gen rg)
  then show ?thesis using sim_simple(2) [OF assms(1)] by (simp add: applyDecision_def)
next
  case (E_declared x)
  then show ?thesis using sim_classify [OF sim_simple(4) [OF assms(1)]] by (simp add: applyDecision_def)
next
  case (E_intent i)
  then show ?thesis using sim_intent [OF assms] by (simp add: applyDecision_def)
next
  case (E_attempt x)
  have "lane_sim (on_machine (je_seq e) (ea_intentRef x) (applyAttempt f e x) f)
      (on_machine (je_seq e) (ea_intentRef x) (applyAttempt g e x) g)"
    by (rule sim_on_machine [OF assms(1) sim_act [OF applyAttempt_void]]) (use assms(2) in \<open>simp add: ctx_agree_def\<close>)
  then show ?thesis by (simp add: E_attempt applyDecision_def)
next
  case (E_outcome r a v)
  then show ?thesis
    using sim_on_machine [OF assms(1) sim_act [OF applyOutcome_void]] by (simp add: applyDecision_def)
next
  case (E_receipt x)
  then show ?thesis
    using sim_on_machine [OF assms(1) sim_act [OF applyReceipt_void]] by (simp add: applyDecision_def)
next
  case (E_terminal x)
  then show ?thesis
    using sim_on_machine [OF assms(1) sim_act [OF applyTerminal_void [OF assms(1)]]] sim_simple(1) [OF assms(1)]
    by (simp add: applyDecision_def split: option.split)
next
  case (E_incident r w c dt)
  show ?thesis
    unfolding E_incident applyDecision_def effect_decision.case
    by (rule sim_on_machine [OF assms(1) sim_act]) (simp_all add: add_incident_def)
next
  case (E_disposition r w why d' c)
  show ?thesis
    unfolding E_disposition applyDecision_def effect_decision.case
    by (rule sim_on_machine [OF assms(1) sim_act]) simp_all
next
  case (E_probe r k fd c)
  show ?thesis
    unfolding E_probe applyDecision_def effect_decision.case
    by (rule sim_on_machine [OF assms(1) sim_act]) simp_all
next
  case (E_reconciliation_complete r)
  then show ?thesis using sim_simple(3) [OF assms(1)] by (simp add: applyDecision_def)
qed

lemma sim_step:
  assumes "lane_sim f g" "ctx_agree f g (je_seq e)"
  shows "lane_sim (applyEntry f e) (applyEntry g e)"
proof (cases "readEffectLaneDecision e")
  case (Lane opId d)
  let ?u = "\<lambda>h. h\<lparr> elf_opIds := jm_set opId (je_seq e) (elf_opIds h) \<rparr>"
  have ids: "elf_opIds g = elf_opIds f" using assms(1) by (simp add: lane_sim_def)
  have "lane_sim (?u f) (?u g)" using sim_simple(5) [OF assms(1)] ids by simp
  moreover have "ctx_agree (?u f) (?u g) (je_seq e)"
    using assms(2) by (simp add: ctx_agree_def licensed_def dispatch_disabled_def closerAfterIntent_def)
  ultimately have "lane_sim (applyDecision e d (?u f)) (applyDecision e d (?u g))" by (rule sim_decision)
  then show ?thesis
    using Lane sim_classify [OF assms(1)] ids by (simp add: applyEntry_def split: option.split)
qed (use assms(1) sim_classify [OF assms(1)] in \<open>simp_all add: applyEntry_def\<close>)

lemma ctx_agree_same: "same_indexes f f' \<Longrightarrow> same_indexes g g' \<Longrightarrow> ctx_agree f g p \<Longrightarrow> ctx_agree f' g' p"
  using licensed_same_indexes [of f f'] licensed_same_indexes [of g g']
  by (simp add: ctx_agree_def dispatch_disabled_def closerAfterIntent_def same_indexes_def)

lemma sim_fold:
  assumes "lane_sim f g" "\<forall>e\<in>set es. ctx_agree f g (je_seq e)"
  shows "lane_sim (foldl applyEntry f es) (foldl applyEntry g es)"
  using assms
proof (induction es arbitrary: f g)
  case (Cons e es)
  have "lane_sim (applyEntry f e) (applyEntry g e)" using Cons.prems by (intro sim_step) simp_all
  moreover have "\<forall>x\<in>set es. ctx_agree (applyEntry f e) (applyEntry g e) (je_seq x)"
    using Cons.prems(2) ctx_agree_same [OF applyEntry_indexes applyEntry_indexes] by simp
  ultimately show ?case using Cons.IH by simp
qed simp

lemma indexed_bySeq_rf: "elf_bySeq (indexed rf' es) = elf_bySeq (indexed rf es)"
  by (induction es rule: rev_induct) (simp_all add: empty_lane_def)

lemma ctx_agree_indexed:
  assumes inc: "seqs_increasing (es @ [x])" and p: "p \<le> je_seq x"
    and rf: "closings_ok rf'" "\<And>n. approval_allowed rf' n p = approval_allowed rf n p"
  shows "ctx_agree (indexed rf es) (indexed rf' (es @ [x])) p"
proof -
  let ?f = "indexed rf es" and ?g = "indexed rf' (es @ [x])"
  have d: "distinct (map je_seq (es @ [x]))" "seqs_increasing es" "\<forall>e\<in>set es. je_seq e < je_seq x"
    using inc seqs_increasing_distinct by (auto simp: seqs_increasing_snoc)
  have idx: "s \<in> set (index_of (elf_revoked ?g) r) \<union> set (index_of (elf_expired ?g) r)
      \<longleftrightarrow> s \<in> set (index_of (elf_revoked ?f) r) \<union> set (index_of (elf_expired ?f) r)" if "s < p" for s r
    using that p unfolding indexed_sel revocations_def expiries_def by auto
  have closed: "closed_between ?g r n p = closed_between ?f r n p" for r n
    unfolding closed_between_def using idx by blast
  have sorted: "indexes_sorted ?f" "indexes_sorted ?g" using indexes_sorted_indexed inc d(2) by blast+
  have "dispatch_disabled ?g m p = dispatch_disabled ?f m p" for m
    using closed dispatch_disabled_iff [of ?f m p] dispatch_disabled_iff [of ?g m p] sorted by (simp add: indexes_sorted_def)
  moreover have "licensed ?g r p k = licensed ?f r p k" for r k
  proof (cases "r = je_seq x")
    case True
    have "\<not> approval_allowed rf' r p" using rf(1) p True by (auto simp: approval_allowed_iff)
    then show ?thesis using rf(2) by (simp add: licensed_def indexed_sel(6))
  next
    case False
    have "jm_get (elf_bySeq ?g) r = jm_get (elf_bySeq ?f) r"
      using False by (simp add: jm_get_set indexed_bySeq_rf [of rf' es rf])
    moreover have "(\<forall>s\<in>set (index_of (elf_revoked ?g) r) \<union> set (index_of (elf_expired ?g) r). p \<le> s)
        \<longleftrightarrow> (\<forall>s\<in>set (index_of (elf_revoked ?f) r) \<union> set (index_of (elf_expired ?f) r). p \<le> s)"
      using idx by (meson not_le)
    ultimately show ?thesis using rf(2) by (simp add: licensed_def indexed_sel(6))
  qed
  ultimately show ?thesis by (simp add: ctx_agree_def)
qed

text \<open>What a later fold keeps of an earlier one.\<close>

definition carried :: "effect_lane_fold \<Rightarrow> effect_lane_fold \<Rightarrow> bool" where
  "carried f g \<longleftrightarrow>
     (\<forall>n m. machineAt f n = Some m \<longrightarrow> (\<exists>m'. machineAt g n = Some m' \<and> em_consumed m' = em_consumed m
        \<and> em_intent m' = em_intent m \<and> (\<forall>t. em_terminal m = Some t \<longrightarrow> em_terminal m' = Some t)))
     \<and> (\<forall>n c. laneClassificationOf f n = Some c \<longrightarrow>
        (\<exists>c'. laneClassificationOf g n = Some c' \<and> forget_class c' = forget_class c))"

lemma carried_trans:
  assumes "carried f g" "carried g h"
  shows "carried f h"
  unfolding carried_def
proof (intro conjI allI impI)
  fix n m
  assume "machineAt f n = Some m"
  then obtain m' where m': "machineAt g n = Some m'" "em_consumed m' = em_consumed m" "em_intent m' = em_intent m"
      "\<forall>t. em_terminal m = Some t \<longrightarrow> em_terminal m' = Some t"
    using assms(1) unfolding carried_def by blast
  then obtain m'' where "machineAt h n = Some m''" "em_consumed m'' = em_consumed m'" "em_intent m'' = em_intent m'"
      "\<forall>t. em_terminal m' = Some t \<longrightarrow> em_terminal m'' = Some t"
    using assms(2) unfolding carried_def by blast
  with m' show "\<exists>m'. machineAt h n = Some m' \<and> em_consumed m' = em_consumed m
        \<and> em_intent m' = em_intent m \<and> (\<forall>t. em_terminal m = Some t \<longrightarrow> em_terminal m' = Some t)" by auto
next
  fix n c
  assume "laneClassificationOf f n = Some c"
  then obtain c' where "laneClassificationOf g n = Some c'" "forget_class c' = forget_class c"
    using assms(1) unfolding carried_def by blast
  then show "\<exists>c'. laneClassificationOf h n = Some c' \<and> forget_class c' = forget_class c"
    using assms(2) unfolding carried_def by metis
qed

lemma sim_carried: "lane_sim f g \<Longrightarrow> carried f g"
proof -
  assume s: "lane_sim f g"
  have "\<exists>m'. machineAt g n = Some m' \<and> em_consumed m' = em_consumed m \<and> em_intent m' = em_intent m
      \<and> em_terminal m' = em_terminal m" if "machineAt f n = Some m" for n m
    using sim_get [OF s, of n]
  proof (cases rule: option.rel_cases)
    case (Some u u')
    with forget_fields [OF Some(3)] that show ?thesis by (simp add: machineAt_def)
  qed (use that in \<open>simp add: machineAt_def\<close>)
  moreover have "map_option forget_class (laneClassificationOf g n) = map_option forget_class (laneClassificationOf f n)" for n
    using s unfolding lane_sim_def laneClassificationOf_def by (metis jm_get_map)
  then have "\<exists>c'. laneClassificationOf g n = Some c' \<and> forget_class c' = forget_class c" if "laneClassificationOf f n = Some c" for n c
    using that by (metis map_option_eq_Some)
  ultimately show ?thesis unfolding carried_def by fastforce
qed

lemma applyDecision_class:
  "n \<noteq> je_seq e \<Longrightarrow> laneClassificationOf (applyDecision e d f) n = laneClassificationOf f n"
proof -
  assume n: "n \<noteq> je_seq e"
  have on: "laneClassificationOf (on_machine (je_seq e) r act f) n = laneClassificationOf f n" for r act
    using n by (simp add: on_machine_def laneClassificationOf_def split: sum.split prod.split)
  show ?thesis
    using n by (cases d) (simp_all add: applyDecision_def on split: option.split,
      simp_all add: laneClassificationOf_def applyEpoch_def applyIntent_def standalone_def applyReconciliation_def Let_def
        split: option.split)
qed

lemma applyEntry_class: "n \<noteq> je_seq e \<Longrightarrow> laneClassificationOf (applyEntry f e) n = laneClassificationOf f n"
  using applyDecision_class [of n e]
  by (auto simp: applyEntry_def laneClassificationOf_def split: effect_lane_read.split option.split)

lemma lane_pass_classified: "laneClassificationOf (foldl applyEntry (indexed rf xs) es) n \<noteq> None \<Longrightarrow> n \<in> je_seq ` set es"
proof (induction es rule: rev_induct)
  case Nil
  then show ?case by (simp add: laneClassificationOf_def indexed_sel)
next
  case (snoc e es)
  then show ?case using applyEntry_class [of n e "foldl applyEntry (indexed rf xs) es"] by (cases "n = je_seq e") auto
qed

text \<open>An entry at the end moves machines forward only.\<close>

lemma applyEntry_carried:
  assumes "lane_inv p f" "p \<le> je_seq e" "laneClassificationOf f (je_seq e) = None"
  shows "carried f (applyEntry f e)"
proof -
  have cls: "laneClassificationOf (applyEntry f e) n = Some c" if "laneClassificationOf f n = Some c" for n c
    using that assms(3) applyEntry_class [of n e f] by (cases "n = je_seq e") auto
  have "\<exists>m'. machineAt (applyEntry f e) n = Some m' \<and> em_consumed m' = em_consumed m
        \<and> em_intent m' = em_intent m \<and> (\<forall>t. em_terminal m = Some t \<longrightarrow> em_terminal m' = Some t)"
    if m: "machineAt f n = Some m" for n m
  proof -
    have ok: "machine_ok p f n m" using m assms(1) by (simp add: lane_inv_def machineAt_def)
    have fresh: "n \<noteq> je_seq e" using ok assms(2) by (auto simp: machine_ok_def machine_before_def)
    show ?thesis using applyEntry_cases [of f e]
    proof (elim disjE exE conjE)
      assume "epoch_moves f e (applyEntry f e)"
      then show ?thesis using m by (auto simp: epoch_moves_def machineAt_def)
    next
      assume "machine_moves f e (applyEntry f e)"
      then obtain r u u' where u: "jm_get (elf_machines f) r = Some u" "machine_step f e u u'"
          "elf_machines (applyEntry f e) = jm_set (em_intentSeq u') u' (elf_machines f)"
        by (auto simp: machine_moves_def)
      have "em_intentSeq u' = r" using machine_step_frame(1) [OF u(2)] u(1) assms(1) by (simp add: lane_inv_def machine_ok_def)
      then show ?thesis
        using m u machine_step_frame [OF u(2)] by (cases "n = r") (auto simp: machineAt_def)
    next
      fix opId i
      assume "applyEntry f e = applyIntent e i (f\<lparr> elf_opIds := jm_set opId (je_seq e) (elf_opIds f) \<rparr>)"
      then show ?thesis using m fresh by (auto simp: machineAt_def applyIntent_sel(2))
    qed
  qed
  then show ?thesis using cls unfolding carried_def by blast
qed

lemma lane_pass_snoc_carried:
  assumes inc: "seqs_increasing (es @ [x])" and g: "new_fold validate (es @ [x]) = Inr rf'"
  shows "\<exists>rf. new_fold validate es = Inr rf \<and> carried (lane_pass rf es) (lane_pass rf' (es @ [x]))"
proof -
  obtain rf where rf: "new_fold validate es = Inr rf" "\<forall>n p. p \<le> je_seq x \<longrightarrow> approval_allowed rf' n p = approval_allowed rf n p"
    using new_fold_prefix [OF inc g] by blast
  have lt: "\<forall>e\<in>set es. je_seq e < je_seq x" and inc': "seqs_increasing es" using inc by (auto simp: seqs_increasing_snoc)
  let ?f = "lane_pass rf es" and ?h = "foldl applyEntry (indexed rf' (es @ [x])) es"
  have "lane_sim (indexed rf es) (indexed rf' (es @ [x]))"
    unfolding lane_sim_def by (simp add: indexed_sel del: indexed_snoc)
  moreover have "\<forall>e\<in>set es. ctx_agree (indexed rf es) (indexed rf' (es @ [x])) (je_seq e)"
    using lt rf(2) closings_ok_new_fold [OF g] by (auto intro!: ctx_agree_indexed [OF inc] simp del: indexed_snoc simp: less_imp_le)
  ultimately have sim: "lane_sim ?f ?h" unfolding lane_pass_def indexed_def [symmetric] by (rule sim_fold)
  have "lane_inv 0 (indexed rf' (es @ [x]))"
    unfolding lane_inv_def view_def canonical_ok_def compensations_ok_def by (simp add: indexed_sel del: indexed_snoc)
  then obtain q where q: "lane_inv q ?h" "q \<le> je_seq x"
    using lane_inv_fold [of 0 "indexed rf' (es @ [x])" es] indexes_sorted_indexed [OF inc] inc' lt by auto
  have "laneClassificationOf ?h (je_seq x) = None"
    using lane_pass_classified [of rf' "es @ [x]" es "je_seq x"] lt by (metis imageE less_irrefl)
  then have "carried ?h (applyEntry ?h x)" by (rule applyEntry_carried [OF q])
  moreover have "lane_pass rf' (es @ [x]) = applyEntry ?h x" by (simp add: lane_pass_def indexed_def)
  ultimately show ?thesis using rf(1) carried_trans [OF sim_carried [OF sim]] by auto
qed

section \<open>The closing pass\<close>

text \<open>It only fills in the closer of a machine and the compensation that overlays it.\<close>

definition core_same :: "effect_machine \<Rightarrow> effect_machine \<Rightarrow> bool" where
  "core_same m m' \<longleftrightarrow> (\<exists>c d. m' = m\<lparr> em_postIntentCloser := c, em_compensatedBy := d \<rparr>)"

lemma core_same_refl [simp]: "core_same m m"
  unfolding core_same_def by (intro exI [of _ "em_postIntentCloser m"] exI [of _ "em_compensatedBy m"]) simp

lemma core_same_trans: "core_same m m' \<Longrightarrow> core_same m' m'' \<Longrightarrow> core_same m m''"
  unfolding core_same_def by force

lemma core_same_fields:
  assumes "core_same m m'"
  shows "em_consumed m' = em_consumed m" "em_intent m' = em_intent m" "em_terminal m' = em_terminal m"
    "em_intentSeq m' = em_intentSeq m" "em_attempts m' = em_attempts m" "em_receipts m' = em_receipts m"
    "em_state m' = em_state m"
  using assms by (auto simp: core_same_def)

lemma core_same_sound: "core_same m m' \<Longrightarrow> machine_sound m' = machine_sound m"
  by (auto simp: core_same_def machine_sound_def terminal_sound_def)

lemma finalize_machine_get:
  "rel_option core_same (jm_get (elf_machines f) n) (jm_get (elf_machines (finalize_machine f k)) n)"
proof -
  have refl: "rel_option core_same z z" for z by (cases z) simp_all
  have set1: "rel_option core_same z (jm_get (jm_set r m' ms) n)"
    if "rel_option core_same z (jm_get ms n)" "jm_get ms r = Some m" "core_same m m'" for z ms r m m'
    using that by (cases z) (auto simp: jm_get_set intro: core_same_trans)
  have closer: "core_same m (m\<lparr> em_postIntentCloser := c \<rparr>)" for m c
    unfolding core_same_def by (intro exI [of _ c] exI [of _ "em_compensatedBy m"]) simp
  have overlay: "core_same m (m\<lparr> em_compensatedBy := c \<rparr>)" for m c
    unfolding core_same_def by (intro exI [of _ "em_postIntentCloser m"] exI [of _ c]) simp
  show ?thesis
  proof (cases "jm_get (elf_machines f) k")
    case None
    then show ?thesis by (simp add: finalize_machine_def refl)
  next
    case (Some m)
    define f1 where "f1 = (case closerAfterIntent f m of None \<Rightarrow> f
        | Some c \<Rightarrow> f\<lparr> elf_machines := jm_set k (m\<lparr> em_postIntentCloser := Some c \<rparr>) (elf_machines f) \<rparr>)"
    have f1: "rel_option core_same (jm_get (elf_machines f) n) (jm_get (elf_machines f1) n)"
      unfolding f1_def using set1 [OF refl Some closer] refl by (auto split: option.split)
    then show ?thesis
      using refl set1 [OF f1 _ overlay] Some
      by (auto simp: finalize_machine_def Let_def f1_def [symmetric] bind_eq_Some_conv split: option.split)
  qed
qed

lemma finalize_machine_sel:
  "elf_epochs (finalize_machine f k) = elf_epochs f" "elf_classifications (finalize_machine f k) = elf_classifications f"
  "same_indexes f (finalize_machine f k)"
  by (auto simp: finalize_machine_def same_indexes_def Let_def split: option.split)

lemma finalize_sel:
  "elf_epochs (finalize f) = elf_epochs f" "elf_classifications (finalize f) = elf_classifications f"
  "same_indexes f (finalize f)"
  "rel_option core_same (machineAt f n) (machineAt (finalize f) n)"
proof -
  have "elf_epochs (foldl finalize_machine g ks) = elf_epochs g
      \<and> elf_classifications (foldl finalize_machine g ks) = elf_classifications g
      \<and> same_indexes g (foldl finalize_machine g ks)
      \<and> rel_option core_same (machineAt g n) (machineAt (foldl finalize_machine g ks) n)" for g ks
  proof (induction ks arbitrary: g)
    case Nil
    then show ?case by (cases "machineAt g n") (simp_all add: same_indexes_def)
  next
    case (Cons k ks)
    have "rel_option core_same (machineAt g n) (machineAt (finalize_machine g k) n)"
      unfolding machineAt_def by (rule finalize_machine_get)
    moreover have "rel_option core_same (machineAt (finalize_machine g k) n)
        (machineAt (foldl finalize_machine (finalize_machine g k) ks) n)" using Cons.IH by blast
    ultimately have "rel_option core_same (machineAt g n) (machineAt (foldl finalize_machine (finalize_machine g k) ks) n)"
      by (cases "machineAt g n"; cases "machineAt (finalize_machine g k) n";
          cases "machineAt (foldl finalize_machine (finalize_machine g k) ks) n") (auto intro: core_same_trans)
    then show ?case
      using Cons.IH [of "finalize_machine g k"] finalize_machine_sel(1,2) [of g k]
        same_indexes_trans [OF finalize_machine_sel(3) [of g k]] by auto
  qed
  then show "elf_epochs (finalize f) = elf_epochs f" "elf_classifications (finalize f) = elf_classifications f"
    "same_indexes f (finalize f)" "rel_option core_same (machineAt f n) (machineAt (finalize f) n)"
    unfolding finalize_def by blast+
qed

lemma finalize_view: "view (finalize f) n = view f n"
  using finalize_sel(4) [of f n] unfolding machineAt_def view_def
proof (cases rule: option.rel_cases)
  case (Some u u')
  with core_same_fields [OF Some(3)] show "map_option (\<lambda>m. (em_consumed m, em_intent m)) (jm_get (elf_machines (finalize f)) n)
      = map_option (\<lambda>m. (em_consumed m, em_intent m)) (jm_get (elf_machines f) n)" by simp
qed simp

lemma finalize_entitled: "entitled (finalize f) n i = entitled f n i"
  by (rule entitled_frame [OF finalize_sel(3)]) (simp_all add: finalize_view epoch_before_fold finalize_sel(1))

lemma finalize_back:
  assumes "machineAt (finalize f) n = Some m'"
  obtains m where "machineAt f n = Some m" "core_same m m'"
  using finalize_sel(4) [of f n] assms by (cases "machineAt f n") auto

lemma finalize_carried:
  assumes "carried f g"
  shows "carried (finalize f) (finalize g)"
  unfolding carried_def laneClassificationOf_def finalize_sel(2)
proof (intro conjI allI impI)
  fix n m
  assume "machineAt (finalize f) n = Some m"
  then obtain u where u: "machineAt f n = Some u" "core_same u m" by (rule finalize_back)
  then obtain v where v: "machineAt g n = Some v" "em_consumed v = em_consumed u" "em_intent v = em_intent u"
      "\<forall>t. em_terminal u = Some t \<longrightarrow> em_terminal v = Some t"
    using assms unfolding carried_def by blast
  obtain w where w: "machineAt (finalize g) n = Some w" "core_same v w"
    using finalize_sel(4) [of g n] v(1) by (cases "machineAt (finalize g) n") auto
  show "\<exists>m'. machineAt (finalize g) n = Some m' \<and> em_consumed m' = em_consumed m
        \<and> em_intent m' = em_intent m \<and> (\<forall>t. em_terminal m = Some t \<longrightarrow> em_terminal m' = Some t)"
    using w v core_same_fields [OF u(2)] core_same_fields [OF w(2)] by simp
next
  fix n c
  assume "jm_get (elf_classifications f) n = Some c"
  then show "\<exists>c'. jm_get (elf_classifications g) n = Some c' \<and> forget_class c' = forget_class c"
    using assms unfolding carried_def laneClassificationOf_def by blast
qed

section \<open>Properties\<close>

lemma new_lane_fold_Inr:
  "new_lane_fold validate es None = Inr F \<longleftrightarrow> (\<exists>rf. new_fold validate es = Inr rf \<and> F = finalize (lane_pass rf es))"
  by (auto simp: new_lane_fold_def result_simps)

text \<open>
  The rule by which an intent consumes its approval, read off the journal: an approval entry that
  names the intent's key was allowed before the intent, and no revocation or expiry of it precedes
  the intent.
\<close>

definition approval_stands :: "journal_entry list \<Rightarrow> resolution_fold \<Rightarrow> nat \<Rightarrow> nat \<Rightarrow> string \<Rightarrow> bool" where
  "approval_stands es rf ref n key \<longleftrightarrow>
     (\<exists>a\<in>set es. je_seq a = ref \<and> je_kind a = K_approval \<and> approvalLicensedKey a = Some key)
     \<and> (\<exists>k v. resolved_by rf ref k v \<and> ref < k \<and> k < n \<and> member_of v ''decision'' = Some (JStr ''allow''))
     \<and> (\<forall>x\<in>set es. je_seq x < n \<longrightarrow> readApprovalRevoked x \<noteq> Some ref \<and> map_option fst (readApprovalExpired x) \<noteq> Some ref)"

lemma licensed_stands:
  assumes "seqs_increasing es" "new_fold validate es = Inr rf" "same_indexes (indexed rf es) f"
  shows "licensed f ref n key \<longleftrightarrow> approval_stands es rf ref n key"
proof -
  have d: "distinct (map je_seq es)" by (rule seqs_increasing_distinct [OF assms(1)])
  have "(\<exists>a. jm_get (elf_bySeq (indexed rf es)) ref = Some a \<and> je_kind a = K_approval \<and> approvalLicensedKey a = Some key)
      \<longleftrightarrow> (\<exists>a\<in>set es. je_seq a = ref \<and> je_kind a = K_approval \<and> approvalLicensedKey a = Some key)"
    unfolding indexed_bySeq [OF d] by blast
  moreover have "(\<forall>s\<in>set (index_of (elf_revoked (indexed rf es)) ref) \<union> set (index_of (elf_expired (indexed rf es)) ref). n \<le> s)
      \<longleftrightarrow> (\<forall>x\<in>set es. je_seq x < n \<longrightarrow> readApprovalRevoked x \<noteq> Some ref \<and> map_option fst (readApprovalExpired x) \<noteq> Some ref)"
    unfolding indexed_sel revocations_def expiries_def by (auto simp: not_le [symmetric])
  ultimately show ?thesis
    unfolding licensed_same_indexes [OF assms(3)] licensed_def approval_stands_def indexed_sel(6)
      approval_allowed_iff [OF closings_ok_new_fold [OF assms(2)]] by blast
qed

lemma lane_inv_lane_pass: "seqs_increasing es \<Longrightarrow> \<exists>p. lane_inv p (lane_pass rf es)"
  using lane_inv_pass [of es "Suc (Max (je_seq ` set es))" rf] by (auto simp: less_Suc_eq_le)

lemma lane_pass_same_indexes: "same_indexes (indexed rf es) (finalize (lane_pass rf es))"
  using same_indexes_trans [OF lane_pass_indexes finalize_sel(3)] unfolding lane_pass_def indexed_def by blast

text \<open>A journal in which a payment is approved, sent, confirmed, and asked for a second time.\<close>

definition lane_row :: "nat \<Rightarrow> (string \<times> json) list \<Rightarrow> journal_entry" where
  "lane_row n kvs = (bare_entry 2 n ''effects'' ''op'' 0 K_decision S_ok ''t'')\<lparr> je_value := Some (JObj kvs) \<rparr>"

definition pay_budgets :: effect_budgets where
  "pay_budgets = \<lparr> eb_attempts = 2, eb_lookups = 1, eb_receiptWaitMs = 10, eb_authorizationWaitMs = None, eb_reconcileBy = ''z'' \<rparr>"

definition pay_intent :: "string \<Rightarrow> nat \<Rightarrow> effect_intent" where
  "pay_intent opId approval = \<lparr> ei_opId = opId, ei_logicalKey = ''pay'', ei_approvalRef = approval, ei_epochRef = 0,
     ei_effectClass = Class_monetary, ei_capabilityRow = Row_idempotency_key, ei_lookupQualification = None,
     ei_argumentsHash = ''h'', ei_artifactHash = None, ei_configFingerprint = None, ei_budgets = pay_budgets,
     ei_compensates = None, ei_successorOf = None \<rparr>"

definition intent_row :: "nat \<Rightarrow> nat \<Rightarrow> string \<Rightarrow> journal_entry" where
  "intent_row n approval opId = lane_row n
     [(''decisionType'', JStr ''effect_intent''), (''opId'', JStr opId), (''logicalKey'', JStr ''pay''),
      (''approvalRef'', JNum (of_nat approval)), (''epochRef'', JNum 0), (''effectClass'', JStr ''monetary''),
      (''capabilityRow'', JStr ''idempotency-key''), (''argumentsHash'', JStr ''h''),
      (''budgets'', JObj [(''attempts'', JNum 2), (''lookups'', JNum 1), (''receiptWaitMs'', JNum 10), (''reconcileBy'', JStr ''z'')])]"

definition epoch_row :: journal_entry where
  "epoch_row = lane_row 0 [(''decisionType'', JStr ''effect_epoch''), (''opId'', JStr ''e''), (''generation'', JStr ''g'')]"

definition approval_row :: "nat \<Rightarrow> journal_entry" where
  "approval_row n =
     (bare_entry 2 n '''' ''q'' 0 K_approval S_suspended ''t'')\<lparr> je_value := Some (JObj [(''effectLogicalKey'', JStr ''pay'')]) \<rparr>"

definition allow_row :: journal_entry where
  "allow_row = (bare_entry 2 3 '''' ''r'' 0 K_resolution S_ok ''t'')\<lparr> je_ref := Some 2, je_resolution :=
     Some \<lparr> rp_target = 2, rp_by = By_operator, rp_value = JObj [(''decision'', JStr ''allow'')], rp_decisionRef = None,
            rp_logicalTaskId = None, rp_countsAgainstLimit = None \<rparr> \<rparr>"

definition pay_receipt :: effect_receipt where
  "pay_receipt = \<lparr> er_intentRef = 4, er_verification = Verified, er_transferId = Some (JStr ''x''), er_amount = None,
     er_currency = None, er_documentHash = None, er_providerRef = None, er_timestamp = None \<rparr>"

definition receipt_row :: journal_entry where
  "receipt_row = lane_row 5 [(''decisionType'', JStr ''effect_receipt''), (''opId'', JStr ''c''), (''intentRef'', JNum 4),
     (''verification'', JStr ''verified''), (''transferId'', JStr ''x'')]"

definition terminal_row :: journal_entry where
  "terminal_row = lane_row 6 [(''decisionType'', JStr ''effect_terminal''), (''opId'', JStr ''t''), (''intentRef'', JNum 4),
     (''terminal'', JStr ''confirmed'')]"

definition payment_journal :: "journal_entry list" where
  "payment_journal = [epoch_row, approval_row 2, allow_row, intent_row 4 2 ''i'', receipt_row, terminal_row, intent_row 7 2 ''j'']"

definition accepts_all :: validator where
  "accepts_all schema v = Inr None"

lemma row_reads:
  "readEffectLaneDecision epoch_row = Lane ''e'' (E_epoch ''g'' None)"
  "readEffectLaneDecision (approval_row n) = Not_lane" "readEffectLaneDecision allow_row = Not_lane"
  "readEffectLaneDecision receipt_row = Lane ''c'' (E_receipt pay_receipt)"
  "readEffectLaneDecision terminal_row = Lane ''t'' (E_terminal \<lparr> et_intentRef = Some 4, et_logicalKey = None,
      et_terminal = T_confirmed, et_reason = None, et_causalRef = None \<rparr>)"
  "readEffectLaneDecision (intent_row 4 2 ''i'') = Lane ''i'' (E_intent (pay_intent ''i'' 2))"
  "readEffectLaneDecision (intent_row 7 2 ''j'') = Lane ''j'' (E_intent (pay_intent ''j'' 2))"
  "readEffectLaneDecision (intent_row 2 3 ''i'') = Lane ''i'' (E_intent (pay_intent ''i'' 3))"
  by code_simp+

lemma row_sel:
  "je_seq epoch_row = 0" "je_kind epoch_row = K_decision" "je_status epoch_row = S_ok"
  "je_seq (approval_row n) = n" "je_kind (approval_row n) = K_approval" "je_status (approval_row n) = S_suspended"
  "je_value (approval_row n) = Some (JObj [(''effectLogicalKey'', JStr ''pay'')])" "je_scope (approval_row n) = ''''"
  "je_seq allow_row = 3" "je_kind allow_row = K_resolution" "je_status allow_row = S_ok" "je_ref allow_row = Some 2"
  "map_option rp_value (je_resolution allow_row) = Some (JObj [(''decision'', JStr ''allow'')])"
  "je_seq receipt_row = 5" "je_kind receipt_row = K_decision" "je_status receipt_row = S_ok"
  "je_seq terminal_row = 6" "je_kind terminal_row = K_decision" "je_status terminal_row = S_ok"
  "je_seq (intent_row n a opId) = n" "je_kind (intent_row n a opId) = K_decision" "je_status (intent_row n a opId) = S_ok"
  by (simp_all add: epoch_row_def approval_row_def allow_row_def receipt_row_def terminal_row_def intent_row_def lane_row_def)

lemma row_closers:
  "readApprovalRevoked epoch_row = None" "readApprovalExpired epoch_row = None"
  "readApprovalRevoked (approval_row n) = None" "readApprovalExpired (approval_row n) = None"
  "readApprovalRevoked allow_row = None" "readApprovalExpired allow_row = None"
  "readApprovalRevoked receipt_row = None" "readApprovalExpired receipt_row = None"
  "readApprovalRevoked terminal_row = None" "readApprovalExpired terminal_row = None"
  "readApprovalRevoked (intent_row n a opId) = None" "readApprovalExpired (intent_row n a opId) = None"
  by (simp_all add: readApprovalRevoked_def readApprovalExpired_def row_sel)
    (simp_all add: epoch_row_def receipt_row_def terminal_row_def intent_row_def lane_row_def)

lemma row_licence: "approvalLicensedKey (approval_row n) = Some ''pay''"
  by (simp add: approvalLicensedKey_def nonEmptyString_def row_sel)

lemma payment_increasing: "seqs_increasing payment_journal"
  by (simp add: payment_journal_def seqs_increasing_def row_sel)

definition pay_resolutions :: resolution_fold where
  "pay_resolutions = \<lparr>
     rf_targets = [(2, close_by_resolution 3 (JObj [(''decision'', JStr ''allow'')]) (open_target (approval_row 2)))],
     rf_bySeq = map (\<lambda>e. (je_seq e, e)) payment_journal,
     rf_classifications = [(3, Applied)], rf_coveredSeqs = [], rf_coveredPrefixes = [] \<rparr>"

lemma payment_resolutions: "new_fold accepts_all payment_journal = Inr pay_resolutions"
proof -
  obtain p where p: "je_resolution allow_row = Some p" "rp_value p = JObj [(''decision'', JStr ''allow'')]"
    using row_sel(13) by (cases "je_resolution allow_row") auto
  show ?thesis
    by (simp add: new_fold_def payment_journal_def pay_resolutions_def row_sel index_entry_def empty_fold_def fold_entry_def
        apply_ref_def applyResolution_def ref_target_def isCoveredEntry_def open_target_def set_classification_def p
        close_by_resolution_def Let_def)
qed

text \<open>The lane after the pass: one intent confirmed, the other void.\<close>

lemmas lane_eval = lane_pass_def payment_journal_def empty_lane_def indexEntry_def applyEntry_def applyDecision_def
  applyEpoch_def applyIntent_def on_machine_def liveMachine_def classify_def put_machine_def new_machine_def
  consumption_verdict_def latestEpochBefore_def approval_verdict_def firstAtOrBelow_def index_of_def
  approval_allowed_def suspensionState_def compensation_verdict_def successor_missing_def pay_intent_def
  applyReceipt_def add_receipt_def new_receipt_def pay_receipt_def applyTerminal_def terminalIllegality_def
  pay_resolutions_def close_by_resolution_def open_target_def Let_def row_sel row_reads row_closers row_licence

lemma payment_pass:
  "map (\<lambda>(n, m). (n, em_consumed m, map_option mt_terminal (em_terminal m), ei_approvalRef (em_intent m), ei_logicalKey (em_intent m)))
     (elf_machines (lane_pass pay_resolutions payment_journal))
   = [(4, True, Some T_confirmed, 2, ''pay''), (7, False, None, 2, ''pay'')]"
  by (simp add: lane_eval)

lemma payment_fold: "new_lane_fold accepts_all payment_journal None = Inr (finalize (lane_pass pay_resolutions payment_journal))"
  by (simp add: new_lane_fold_def payment_resolutions)

lemma payment_machine:
  assumes "(n, c, t, a, k) \<in> set (map (\<lambda>(n, m). (n, em_consumed m, map_option mt_terminal (em_terminal m),
      ei_approvalRef (em_intent m), ei_logicalKey (em_intent m))) (elf_machines (lane_pass pay_resolutions payment_journal)))"
  shows "\<exists>m. machineAt (finalize (lane_pass pay_resolutions payment_journal)) n = Some m \<and> em_consumed m = c
     \<and> map_option mt_terminal (em_terminal m) = t \<and> ei_approvalRef (em_intent m) = a \<and> ei_logicalKey (em_intent m) = k"
proof -
  let ?f = "lane_pass pay_resolutions payment_journal"
  obtain u where u: "(n, u) \<in> set (elf_machines ?f)" "em_consumed u = c" "map_option mt_terminal (em_terminal u) = t"
      "ei_approvalRef (em_intent u) = a" "ei_logicalKey (em_intent u) = k"
    using assms by auto
  have "jm_wf (elf_machines ?f)" using arg_cong [OF payment_pass, of "map fst"] by (simp add: jm_wf_def case_prod_beta comp_def)
  then have "machineAt ?f n = Some u" using u(1) by (simp add: machineAt_def jm_in_get)
  then obtain m where "machineAt (finalize ?f) n = Some m" "core_same u m"
    using finalize_sel(4) [of ?f n] by (cases "machineAt (finalize ?f) n") auto
  then show ?thesis using core_same_fields [of u m] u by auto
qed

lemma payment_machines:
  "\<exists>m. machineAt (finalize (lane_pass pay_resolutions payment_journal)) 4 = Some m \<and> em_consumed m
     \<and> map_option mt_terminal (em_terminal m) = Some T_confirmed \<and> ei_approvalRef (em_intent m) = 2 \<and> ei_logicalKey (em_intent m) = ''pay''"
  "\<exists>m. machineAt (finalize (lane_pass pay_resolutions payment_journal)) 7 = Some m \<and> \<not> em_consumed m"
  using payment_machine [of 4 True "Some T_confirmed" 2 "''pay''"] payment_machine [of 7 False None 2 "''pay''"]
  unfolding payment_pass by auto

text \<open>C7. Consumption is exact: over any journal with increasing positions, an intent consumed its approval if and only if
  it cites the latest epoch before it, its approval was allowed before it for exactly its logical
  key and not revoked or expired before it, the intent it compensates was consumed before it and is
  no compensation itself, the one it succeeds was consumed before it, and no earlier intent was
  consumed for the same key in the same epoch.\<close>

theorem consumption_exact:
  assumes "seqs_increasing es"
    and "new_fold validate es = Inr rf"
    and "new_lane_fold validate es None = Inr F"
    and "machineAt F n = Some m"
  shows "em_consumed m \<longleftrightarrow>
    epoch_before F n = Some (ei_epochRef (em_intent m))
    \<and> approval_stands es rf (ei_approvalRef (em_intent m)) n (ei_logicalKey (em_intent m))
    \<and> (\<forall>c. ei_compensates (em_intent m) = Some c \<longrightarrow>
         c < n \<and> (\<exists>u. machineAt F c = Some u \<and> em_consumed u \<and> ei_compensates (em_intent u) = None))
    \<and> (\<forall>s. ei_successorOf (em_intent m) = Some s \<longrightarrow> s < n \<and> (\<exists>u. machineAt F s = Some u \<and> em_consumed u))
    \<and> (\<forall>k u. k < n \<and> machineAt F k = Some u \<and> em_consumed u \<longrightarrow>
         (ei_epochRef (em_intent u), ei_logicalKey (em_intent u)) \<noteq> (ei_epochRef (em_intent m), ei_logicalKey (em_intent m)))"
proof -
  have F: "F = finalize (lane_pass rf es)" using assms(2,3) by (simp add: new_lane_fold_Inr)
  obtain p where inv: "lane_inv p (lane_pass rf es)" using lane_inv_lane_pass [OF assms(1)] by blast
  have "view F n = Some (em_consumed m, em_intent m)" using assms(4) by (simp add: view_def machineAt_def)
  then have "em_consumed m \<longleftrightarrow> entitled F n (em_intent m)"
    using inv unfolding F finalize_view finalize_entitled lane_inv_def by blast
  moreover have "view F k = Some (True, j) \<longleftrightarrow> (\<exists>u. machineAt F k = Some u \<and> em_consumed u \<and> em_intent u = j)" for k j
    by (auto simp: view_def machineAt_def)
  moreover have "licensed F r n k \<longleftrightarrow> approval_stands es rf r n k" for r k
    using licensed_stands [OF assms(1,2)] lane_pass_same_indexes F by blast
  ultimately show ?thesis unfolding entitled_def by auto
qed

theorem consumption_exact_witness:
  "\<exists>F m1 m2. new_lane_fold accepts_all payment_journal None = Inr F \<and> machineAt F 4 = Some m1 \<and> machineAt F 7 = Some m2
     \<and> em_consumed m1 \<and> approval_stands payment_journal pay_resolutions 2 4 ''pay'' \<and> \<not> em_consumed m2"
proof -
  obtain m1 m2 where m: "machineAt (finalize (lane_pass pay_resolutions payment_journal)) 4 = Some m1" "em_consumed m1"
      "ei_approvalRef (em_intent m1) = 2" "ei_logicalKey (em_intent m1) = ''pay''"
      "machineAt (finalize (lane_pass pay_resolutions payment_journal)) 7 = Some m2" "\<not> em_consumed m2"
    using payment_machines by blast
  from consumption_exact [OF payment_increasing payment_resolutions payment_fold m(1)] m payment_fold show ?thesis by auto
qed

text \<open>C8. Every effect machine of a folded journal is sound: at most one attempt is open; a void intent has no attempts,
  receipts or terminal; no attempt was recorded after a revocation or expiry of the approval that
  follows the intent; a confirmed machine has an earlier verified receipt; a machine cancelled
  before dispatch has only attempts that provably failed; a compensated one is cited by a
  compensation confirmed before; and two consumed intents never share epoch and logical key.\<close>

theorem machines_stay_sound:
  assumes "seqs_increasing es"
    and "new_lane_fold validate es None = Inr F"
    and "machineAt F n = Some m"
  shows "machine_sound m
    \<and> (\<forall>a\<in>set (em_attempts m). \<forall>x\<in>set es. n < je_seq x \<and> je_seq x < at_seq a \<longrightarrow>
         readApprovalRevoked x \<noteq> Some (ei_approvalRef (em_intent m))
         \<and> map_option fst (readApprovalExpired x) \<noteq> Some (ei_approvalRef (em_intent m)))
    \<and> (\<forall>t. em_terminal m = Some t \<and> mt_terminal t = T_compensated \<longrightarrow>
         (\<exists>c u. machineAt F c = Some u \<and> ei_compensates (em_intent u) = Some n \<and> confirmed_at u (mt_seq t)))
    \<and> (\<forall>k u. machineAt F k = Some u \<and> em_consumed m \<and> em_consumed u
         \<and> ei_epochRef (em_intent u) = ei_epochRef (em_intent m)
         \<and> ei_logicalKey (em_intent u) = ei_logicalKey (em_intent m) \<longrightarrow> k = n)"
proof -
  obtain rf where F: "F = finalize (lane_pass rf es)" using assms(2) by (auto simp: new_lane_fold_Inr)
  let ?f = "lane_pass rf es"
  obtain p where inv: "lane_inv p ?f" using lane_inv_lane_pass [OF assms(1)] by blast
  obtain u where u: "machineAt ?f n = Some u" "core_same u m" using assms(3) unfolding F by (rule finalize_back)
  note fields = core_same_fields [OF u(2)]
  have ok: "machine_ok p ?f n u" using inv u(1) by (simp add: lane_inv_def machineAt_def)
  have ix: "same_indexes (indexed rf es) ?f" unfolding lane_pass_def indexed_def by (rule lane_pass_indexes)
  have "readApprovalRevoked x \<noteq> Some (ei_approvalRef (em_intent m))
        \<and> map_option fst (readApprovalExpired x) \<noteq> Some (ei_approvalRef (em_intent m))"
    if "a \<in> set (em_attempts m)" "x \<in> set es" "n < je_seq x" "je_seq x < at_seq a" for a x
    using ok that fields(2,5)
    unfolding machine_ok_def attempts_licensed_def closed_between_same_indexes [OF ix] closed_between_def indexed_sel
      revocations_def expiries_def by auto
  moreover have "\<exists>c v. machineAt F c = Some v \<and> ei_compensates (em_intent v) = Some n \<and> confirmed_at v (mt_seq t)"
    if tt: "em_terminal m = Some t" "mt_terminal t = T_compensated" for t
  proof -
    obtain c w where w: "machineAt ?f c = Some w" "ei_compensates (em_intent w) = Some n" "confirmed_at w (mt_seq t)"
      using inv u(1) tt fields(3) unfolding lane_inv_def compensations_ok_def machineAt_def by metis
    obtain v where v: "machineAt F c = Some v" "core_same w v"
      using finalize_sel(4) [of ?f c] w(1) unfolding F by (cases "machineAt (finalize ?f) c") auto
    then have "ei_compensates (em_intent v) = Some n" "confirmed_at v (mt_seq t)"
      using w core_same_fields [OF v(2)] by (simp_all add: confirmed_at_def)
    then show ?thesis using v(1) by blast
  qed
  moreover have "k = n" if "machineAt F k = Some v" "em_consumed m" "em_consumed v"
      "ei_epochRef (em_intent v) = ei_epochRef (em_intent m)" "ei_logicalKey (em_intent v) = ei_logicalKey (em_intent m)" for k v
  proof -
    have "view ?f k = Some (True, em_intent v)" "view ?f n = Some (True, em_intent m)"
      using that(1-3) assms(3) finalize_view [of ?f k] finalize_view [of ?f n]
      by (simp_all add: F [symmetric] view_def machineAt_def)
    then have "jm_get (elf_canonical ?f) (ei_epochRef (em_intent m), ei_logicalKey (em_intent m)) = Some k"
      "jm_get (elf_canonical ?f) (ei_epochRef (em_intent m), ei_logicalKey (em_intent m)) = Some n"
      using inv that(4,5) unfolding lane_inv_def canonical_ok_def by metis+
    then show ?thesis by simp
  qed
  ultimately show ?thesis
    using ok core_same_sound [OF u(2)] by (auto simp: machine_ok_def)
qed

theorem machines_stay_sound_witness:
  "\<exists>F m. new_lane_fold accepts_all payment_journal None = Inr F \<and> machineAt F 4 = Some m
     \<and> map_option mt_terminal (em_terminal m) = Some T_confirmed
     \<and> (\<exists>r\<in>set (em_receipts m). rs_verification r = Verified)"
proof -
  obtain m where m: "machineAt (finalize (lane_pass pay_resolutions payment_journal)) 4 = Some m"
      "map_option mt_terminal (em_terminal m) = Some T_confirmed"
    using payment_machines(1) by blast
  then obtain t where t: "em_terminal m = Some t" "mt_terminal t = T_confirmed" by auto
  have "machine_sound m" using machines_stay_sound [OF payment_increasing payment_fold m(1)] by blast
  then have "\<exists>r\<in>set (em_receipts m). rs_verification r = Verified"
    using t unfolding machine_sound_def terminal_sound_def by blast
  then show ?thesis using m payment_fold by blast
qed



text \<open>The reason of a void intent is not final: the position it cites may become an approval later.\<close>

lemma void_reason_changes:
  "laneClassificationOf (lane_pass empty_fold [epoch_row, intent_row 2 3 ''i'']) 2 = Some (L_void No_such_approval)"
  "laneClassificationOf (lane_pass rf [epoch_row, intent_row 2 3 ''i'', approval_row 3]) 2 = Some (L_void Approval_not_allowed)"
  if "rf = empty_fold\<lparr> rf_targets := [(3, open_target (approval_row 3))], rf_bySeq := bs \<rparr>"
  using that by (simp_all add: lane_eval laneClassificationOf_def empty_fold_def)

end
