(* ===== verification/EffectWriter.thy ===== *)
theory EffectWriter
  imports EffectLane Store
begin

text \<open>
  The writer of the effect lane, \<open>packages/core/src/effects/writer.ts\<close>. The store is a record of its
  calls over a world of type \<open>'w\<close>: the world is whatever else happens to the journal, so a call may
  find it grown by other holders. A lane operation takes the writer and the world and returns both
  with a result; an exception keeps what was changed before it. The fold's texts are not modelled,
  so the text of a refused verdict is an argument of the configuration.
\<close>

section \<open>State\<close>

record lease =
  le_runId :: string
  le_owner :: string
  le_epoch :: nat

text \<open>
  The store as the writer sees it for its run. \<open>ls_leases\<close> is present on a leasable store and
  \<open>ls_generation\<close> on one with the effect lane capability.
\<close>

record 'w lane_store =
  ls_append :: "journal_entry \<Rightarrow> lease option \<Rightarrow> 'w \<Rightarrow> 'w \<times> unit result"
  ls_load :: "'w \<Rightarrow> 'w \<times> journal_entry list result"
  ls_leases :: "((string \<Rightarrow> 'w \<Rightarrow> 'w \<times> lease result) \<times> (lease \<Rightarrow> 'w \<Rightarrow> 'w \<times> unit result)) option"
  ls_fencedWrites :: bool
  ls_generation :: "('w \<Rightarrow> 'w \<times> int result) option"
  ls_now :: "'w \<Rightarrow> string"

record lane_config =
  lc_owner :: string
  lc_singleProcess :: bool
  lc_validate :: validator
  lc_refusalText :: "lane_classification option \<Rightarrow> string"

record lane_writer =
  lw_lease :: "lease option"
  lw_entries :: "journal_entry list"
  lw_fold :: effect_lane_fold
  lw_opened :: bool
  lw_closed :: bool

type_synonym 'w lane_state = "lane_writer \<times> 'w"
type_synonym ('w, 'a) lane_op = "'w lane_state \<Rightarrow> 'w lane_state \<times> 'a result"

definition retW :: "'a \<Rightarrow> ('w, 'a) lane_op" where
  "retW a = (\<lambda>s. (s, Inr a))"

definition failW :: "rulvar_error \<Rightarrow> ('w, 'a) lane_op" where
  "failW e = (\<lambda>s. (s, Inl e))"

definition bindW :: "('w, 'a) lane_op \<Rightarrow> ('a \<Rightarrow> ('w, 'b) lane_op) \<Rightarrow> ('w, 'b) lane_op" where
  "bindW m k = (\<lambda>s. case m s of (s', Inl e) \<Rightarrow> (s', Inl e) | (s', Inr a) \<Rightarrow> k a s')"

definition catchW :: "('w, 'a) lane_op \<Rightarrow> (rulvar_error \<Rightarrow> ('w, 'a) lane_op) \<Rightarrow> ('w, 'a) lane_op" where
  "catchW m h = (\<lambda>s. case m s of (s', Inl e) \<Rightarrow> h e s' | (s', Inr a) \<Rightarrow> (s', Inr a))"

definition selfW :: "('w, lane_writer) lane_op" where
  "selfW = (\<lambda>s. (s, Inr (fst s)))"

definition updateW :: "(lane_writer \<Rightarrow> lane_writer) \<Rightarrow> ('w, unit) lane_op" where
  "updateW g = (\<lambda>s. ((g (fst s), snd s), Inr ()))"

definition callW :: "('w \<Rightarrow> 'w \<times> 'a result) \<Rightarrow> ('w, 'a) lane_op" where
  "callW c = (\<lambda>s. case c (snd s) of (w, r) \<Rightarrow> ((fst s, w), r))"

definition ofW :: "'a result \<Rightarrow> ('w, 'a) lane_op" where
  "ofW r = (\<lambda>s. (s, r))"

definition refuseW :: "lane_rule \<Rightarrow> ('w, 'a) lane_op" where
  "refuseW rule = failW (EffectLaneRefused rule)"

section \<open>Payloads\<close>

definition name_in :: "(string \<times> 'a) list \<Rightarrow> 'a \<Rightarrow> string" where
  "name_in table x = (case List.find (\<lambda>p. snd p = x) table of Some p \<Rightarrow> fst p | None \<Rightarrow> '''')"

definition effectClass_text :: "effect_class \<Rightarrow> string" where
  "effectClass_text = name_in [(''monetary'', Class_monetary), (''signing'', Class_signing), (''case'', Class_case)]"

definition capabilityRow_text :: "capability_row \<Rightarrow> string" where
  "capabilityRow_text = name_in
     [(''idempotency-key'', Row_idempotency_key), (''lookup'', Row_lookup), (''neither'', Row_neither)]"

definition lookupQualification_text :: "lookup_qualification \<Rightarrow> string" where
  "lookupQualification_text = name_in
     [(''acceptance-closing'', Acceptance_closing), (''conditional-create'', Conditional_create)]"

definition terminal_text :: "terminal_kind \<Rightarrow> string" where
  "terminal_text = name_in
     [(''confirmed'', T_confirmed), (''quarantined'', T_quarantined),
      (''cancelled-before-dispatch'', T_cancelled_before_dispatch),
      (''compensated'', T_compensated), (''refused'', T_refused)]"

definition outcome_text :: "attempt_outcome \<Rightarrow> string" where
  "outcome_text = name_in [(''accepted'', O_accepted), (''failed'', O_failed), (''unknown'', O_unknown)]"

definition verification_text :: "receipt_verification \<Rightarrow> string" where
  "verification_text = name_in [(''verified'', Verified), (''unverified'', Unverified)]"

definition probe_text :: "probe_kind \<Rightarrow> string" where
  "probe_text = name_in [(''lookup'', Probe_lookup), (''close-acceptance'', Probe_close_acceptance)]"

definition JSeq :: "nat \<Rightarrow> json" where
  "JSeq n = JNum (of_nat n)"

text \<open>\<open>...(v === undefined ? {} : { name: v })\<close>\<close>

definition given :: "string \<Rightarrow> ('a \<Rightarrow> json) \<Rightarrow> 'a option \<Rightarrow> (string \<times> json) list" where
  "given name f v = (case v of None \<Rightarrow> [] | Some x \<Rightarrow> [(name, f x)])"

definition decision_payload :: "string \<Rightarrow> string \<Rightarrow> (string \<times> json) list \<Rightarrow> json" where
  "decision_payload decisionType opId rest = JObj ((''decisionType'', JStr decisionType) # (''opId'', JStr opId) # rest)"

record effect_intent_spec =
  is_opId :: string
  is_logicalKey :: string
  is_approvalRef :: nat
  is_effectClass :: effect_class
  is_capabilityRow :: capability_row
  is_lookupQualification :: "lookup_qualification option"
  is_argumentsHash :: string
  is_artifactHash :: "string option"
  is_configFingerprint :: "string option"
  is_budgets :: effect_budgets
  is_compensates :: "nat option"
  is_successorOf :: "nat option"

definition budgets_json :: "effect_budgets \<Rightarrow> json" where
  "budgets_json b = JObj
     ([(''attempts'', JSeq (eb_attempts b)), (''lookups'', JSeq (eb_lookups b)), (''receiptWaitMs'', JNum (eb_receiptWaitMs b))]
      @ given ''authorizationWaitMs'' JNum (eb_authorizationWaitMs b)
      @ [(''reconcileBy'', JStr (eb_reconcileBy b))])"

definition intent_payload :: "effect_intent_spec \<Rightarrow> int \<Rightarrow> json" where
  "intent_payload spec epochRef = decision_payload ''effect_intent'' (is_opId spec)
     ([(''logicalKey'', JStr (is_logicalKey spec)), (''approvalRef'', JSeq (is_approvalRef spec)),
       (''epochRef'', JNum (of_int epochRef)), (''effectClass'', JStr (effectClass_text (is_effectClass spec))),
       (''capabilityRow'', JStr (capabilityRow_text (is_capabilityRow spec)))]
      @ given ''lookupQualification'' (\<lambda>q. JStr (lookupQualification_text q)) (is_lookupQualification spec)
      @ [(''argumentsHash'', JStr (is_argumentsHash spec))]
      @ given ''artifactHash'' JStr (is_artifactHash spec)
      @ given ''configFingerprint'' JStr (is_configFingerprint spec)
      @ [(''budgets'', budgets_json (is_budgets spec))]
      @ given ''compensates'' JSeq (is_compensates spec)
      @ given ''successorOf'' JSeq (is_successorOf spec))"

section \<open>The session\<close>

definition new_lane_writer :: "lane_config \<Rightarrow> 'w lane_store \<Rightarrow> lane_writer result" where
  "new_lane_writer cfg st =
     (if \<not> lc_singleProcess cfg \<and> ls_leases st = None then Inl ConfigError
      else if \<not> lc_singleProcess cfg \<and> \<not> ls_fencedWrites st then Inl ConfigError
      else bindR (new_lane_fold (lc_validate cfg) [] None) (\<lambda>F.
        Inr \<lparr> lw_lease = None, lw_entries = [], lw_fold = F, lw_opened = False, lw_closed = False \<rparr>))"

definition reload :: "lane_config \<Rightarrow> 'w lane_store \<Rightarrow> ('w, unit) lane_op" where
  "reload cfg st =
     bindW (callW (ls_load st)) (\<lambda>entries.
     bindW (updateW (\<lambda>w. w\<lparr> lw_entries := entries \<rparr>)) (\<lambda>_.
     bindW (ofW (new_lane_fold (lc_validate cfg) entries None)) (\<lambda>F.
     updateW (\<lambda>w. w\<lparr> lw_fold := F \<rparr>))))"

definition open_lane :: "lane_config \<Rightarrow> 'w lane_store \<Rightarrow> ('w, unit) lane_op" where
  "open_lane cfg st =
     bindW selfW (\<lambda>w.
     if lw_opened w then retW ()
     else
       bindW (case ls_leases st of
                Some (acquire, _) \<Rightarrow>
                  if lc_singleProcess cfg then retW ()
                  else bindW (callW (acquire (lc_owner cfg))) (\<lambda>l. updateW (\<lambda>w. w\<lparr> lw_lease := Some l \<rparr>))
              | None \<Rightarrow> retW ()) (\<lambda>_.
       bindW (reload cfg st) (\<lambda>_.
       updateW (\<lambda>w. w\<lparr> lw_opened := True \<rparr>))))"

definition close_lane :: "'w lane_store \<Rightarrow> ('w, unit) lane_op" where
  "close_lane st =
     bindW selfW (\<lambda>w.
     if lw_closed w then retW ()
     else
       bindW (updateW (\<lambda>w. w\<lparr> lw_closed := True \<rparr>)) (\<lambda>_.
       case (lw_lease w, ls_leases st) of
         (Some l, Some (_, release)) \<Rightarrow> callW (release l)
       | _ \<Rightarrow> retW ()))"

definition refresh :: "lane_config \<Rightarrow> 'w lane_store \<Rightarrow> ('w, effect_lane_fold) lane_op" where
  "refresh cfg st = bindW (reload cfg st) (\<lambda>_. bindW selfW (\<lambda>w. retW (lw_fold w)))"

definition entriesSnapshot :: "lane_config \<Rightarrow> 'w lane_store \<Rightarrow> ('w, journal_entry list) lane_op" where
  "entriesSnapshot cfg st = bindW (reload cfg st) (\<lambda>_. bindW selfW (\<lambda>w. retW (lw_entries w)))"

definition tail_seq :: "journal_entry list \<Rightarrow> int" where
  "tail_seq entries = foldl (\<lambda>mx e. if int (je_seq e) > mx then int (je_seq e) else mx) (- 1) entries"

definition template :: "string \<Rightarrow> nat \<Rightarrow> string \<Rightarrow> json \<Rightarrow> journal_entry" where
  "template now sq opId v =
     (bare_entry CURRENT_HASH_VERSION sq ''effects'' opId 0 K_decision S_ok now)\<lparr> je_value := Some v, je_spanId := ''effects'' \<rparr>"

definition carries_opId :: "string \<Rightarrow> journal_entry \<Rightarrow> bool" where
  "carries_opId opId e \<longleftrightarrow> je_kind e = K_decision \<and> opt_member (je_value e) ''opId'' = Some (JStr opId)"

definition findOpId :: "string \<Rightarrow> journal_entry list \<Rightarrow> nat option" where
  "findOpId opId entries = map_option je_seq (List.find (carries_opId opId) entries)"

definition assertRestorationCurrent :: "'w lane_store \<Rightarrow> ('w, unit) lane_op" where
  "assertRestorationCurrent st =
     (case ls_generation st of
        None \<Rightarrow> retW ()
      | Some generation \<Rightarrow>
          bindW (callW generation) (\<lambda>storeGeneration.
          bindW selfW (\<lambda>w.
          case currentEpoch (lw_fold w) of
            None \<Rightarrow> retW ()
          | Some epoch \<Rightarrow>
              if (case ep_restorationGeneration epoch of Some g \<Rightarrow> g | None \<Rightarrow> 0) \<noteq> storeGeneration
              then refuseW Restoration_generation_stale else retW ())))"

section \<open>The lane append\<close>

definition APPEND_RETRIES :: nat where
  "APPEND_RETRIES = 8"

text \<open>
  A verdict sees the payload, may update it, and refuses with a text. One try of the loop: an
  operation id that is in the view ends it; otherwise the entry is appended at the tail of the view,
  and after any failure but a lost lease the journal is loaded and searched before anything else.
\<close>

type_synonym 'w lane_verdict = "json \<Rightarrow> ('w, json \<times> string option) lane_op"

definition append_failed ::
  "lane_config \<Rightarrow> 'w lane_store \<Rightarrow> string \<Rightarrow> ('w, nat \<times> bool) lane_op \<Rightarrow> rulvar_error \<Rightarrow> ('w, nat \<times> bool) lane_op" where
  "append_failed cfg st opId retry thrown =
     (if thrown = LeaseHeldError then failW thrown
      else
        bindW (reload cfg st) (\<lambda>_.
        bindW selfW (\<lambda>w.
        case findOpId opId (lw_entries w) of
          Some landed \<Rightarrow> retW (landed, False)
        | None \<Rightarrow> (case thrown of JournalOrderViolation _ \<Rightarrow> retry | _ \<Rightarrow> failW thrown))))"

definition append_at_tail ::
  "lane_config \<Rightarrow> 'w lane_store \<Rightarrow> string \<Rightarrow> json \<Rightarrow> ('w, nat \<times> bool) lane_op" where
  "append_at_tail cfg st opId payload =
     (\<lambda>(w, world).
        let sq = nat (tail_seq (lw_entries w) + 1);
            e = template (ls_now st world) sq opId payload
        in (bindW (callW (ls_append st e (lw_lease w))) (\<lambda>_.
            bindW (updateW (\<lambda>w. w\<lparr> lw_entries := lw_entries w @ [e] \<rparr>)) (\<lambda>_.
            bindW selfW (\<lambda>w.
            bindW (ofW (new_lane_fold (lc_validate cfg) (lw_entries w) None)) (\<lambda>F.
            bindW (updateW (\<lambda>w. w\<lparr> lw_fold := F \<rparr>)) (\<lambda>_.
            retW (sq, False))))))) (w, world))"

primrec lane_tries ::
  "nat \<Rightarrow> lane_config \<Rightarrow> 'w lane_store \<Rightarrow> string \<Rightarrow> 'w lane_verdict \<Rightarrow> json \<Rightarrow> ('w, nat \<times> bool) lane_op" where
  "lane_tries 0 cfg st opId verdict payload =
     refuseW (Append_contention (''the lane append for operation '' @ [CHR 0x27] @ opId @ [CHR 0x27]
       @ '' lost the tail '' @ show_nat APPEND_RETRIES @ '' times; giving up''))"
| "lane_tries (Suc n) cfg st opId verdict payload =
     bindW selfW (\<lambda>w.
     case findOpId opId (lw_entries w) of
       Some existing \<Rightarrow> retW (existing, True)
     | None \<Rightarrow>
         bindW (verdict payload) (\<lambda>(payload', reason).
         case reason of
           Some r \<Rightarrow> refuseW (Verdict_refused r)
         | None \<Rightarrow>
             catchW (append_at_tail cfg st opId payload')
               (append_failed cfg st opId (lane_tries n cfg st opId verdict payload'))))"

definition laneAppend ::
  "lane_config \<Rightarrow> 'w lane_store \<Rightarrow> string \<Rightarrow> json \<Rightarrow> 'w lane_verdict option \<Rightarrow> ('w, nat \<times> bool) lane_op" where
  "laneAppend cfg st opId payload verdict =
     bindW selfW (\<lambda>w.
     if lw_closed w then failW ConfigError
     else lane_tries APPEND_RETRIES cfg st opId
            (case verdict of Some v \<Rightarrow> v | None \<Rightarrow> (\<lambda>p. retW (p, None))) payload)"

section \<open>Epochs\<close>

definition show_int :: "int \<Rightarrow> string" where
  "show_int i = (if i < 0 then ''-'' @ show_nat (nat (- i)) else show_nat (nat i))"

definition ensureEpoch :: "lane_config \<Rightarrow> 'w lane_store \<Rightarrow> string \<Rightarrow> ('w, nat \<times> bool) lane_op" where
  "ensureEpoch cfg st generation =
     bindW (reload cfg st) (\<lambda>_.
     bindW (case ls_generation st of None \<Rightarrow> retW None | Some g \<Rightarrow> bindW (callW g) (\<lambda>n. retW (Some n))) (\<lambda>storeGeneration.
     bindW selfW (\<lambda>w.
     let n = (case storeGeneration of Some n \<Rightarrow> n | None \<Rightarrow> 0);
         opId = ''effect-epoch:'' @ generation @ '':'' @ show_int n;
         fresh = laneAppend cfg st opId (decision_payload ''effect_epoch'' opId
                   ((''generation'', JStr generation)
                    # given ''restorationGeneration'' (\<lambda>g. JNum (of_int g)) storeGeneration)) None
     in case currentEpoch (lw_fold w) of
          Some cur \<Rightarrow>
            if ep_generation cur = generation
               \<and> (case ep_restorationGeneration cur of Some g \<Rightarrow> g | None \<Rightarrow> 0) = n
            then retW (ep_seq cur, True) else fresh
        | None \<Rightarrow> fresh)))"

section \<open>Consuming an approval\<close>

definition allowValueOf :: "nat \<Rightarrow> journal_entry list \<Rightarrow> json option" where
  "allowValueOf approvalRef entries =
     Option.bind (List.find (\<lambda>e. je_kind e = K_resolution \<and> map_option rp_target (je_resolution e) = Some approvalRef) entries)
       (\<lambda>e. map_option rp_value (je_resolution e))"

text \<open>
  The local clock only triggers the durable fact: a crossed expiry is appended as a decision, and the
  intent is refused either way.
\<close>

definition intake_expiry :: "lane_config \<Rightarrow> 'w lane_store \<Rightarrow> effect_intent_spec \<Rightarrow> ('w, unit) lane_op" where
  "intake_expiry cfg st spec =
     (\<lambda>(w, world).
        (case as_string (opt_member (allowValueOf (is_approvalRef spec) (lw_entries w)) ''expiresAt'') of
           None \<Rightarrow> retW ()
         | Some expiresAt \<Rightarrow>
             if \<not> expiresAt < ls_now st world then retW ()
             else
               let opId = ''approval-expired:'' @ show_nat (is_approvalRef spec)
               in bindW (if list_ex (\<lambda>e. map_option fst (readApprovalExpired e) = Some (is_approvalRef spec)) (lw_entries w)
                         then retW ()
                         else bindW (laneAppend cfg st opId (decision_payload ''approval_expired'' opId
                                [(''targetRef'', JSeq (is_approvalRef spec)), (''expiresAt'', JStr expiresAt),
                                 (''observer'', JStr (lc_owner cfg))]) None) (\<lambda>_. retW ()))
                    (\<lambda>_. refuseW Intake_approval_expired)) (w, world))"

definition intakeApproval :: "lane_config \<Rightarrow> 'w lane_store \<Rightarrow> effect_intent_spec \<Rightarrow> ('w, unit) lane_op" where
  "intakeApproval cfg st spec =
     bindW selfW (\<lambda>w.
     case List.find (\<lambda>e. je_seq e = is_approvalRef spec) (lw_entries w) of
       None \<Rightarrow> refuseW Intake_no_such_approval
     | Some approval \<Rightarrow>
         if je_kind approval \<noteq> K_approval then refuseW Intake_no_such_approval
         else if je_deadlineAt approval = None then refuseW Approval_deadline_required
         else if approvalLicensedKey approval \<noteq> Some (is_logicalKey spec) then refuseW Intake_key_mismatch
         else intake_expiry cfg st spec)"

text \<open>
  The verdict of an intent folds the view with the candidate appended: writer and reader decide by
  the same fold.
\<close>

definition intent_verdict :: "lane_config \<Rightarrow> 'w lane_store \<Rightarrow> effect_intent_spec \<Rightarrow> 'w lane_verdict" where
  "intent_verdict cfg st spec payload =
     (\<lambda>(w, world).
        (case currentEpoch (lw_fold w) of
           None \<Rightarrow> retW (payload, Some ''no effect_epoch precedes the intent; call ensureEpoch first'')
         | Some epoch \<Rightarrow>
             let payload' = intent_payload spec (int (ep_seq epoch));
                 sq = nat (tail_seq (lw_entries w) + 1);
                 candidate = template (ls_now st world) sq (is_opId spec) payload'
             in bindW (ofW (new_lane_fold (lc_validate cfg) (lw_entries w @ [candidate]) None)) (\<lambda>folded.
                let c = laneClassificationOf folded sq
                in retW (payload', if c = Some L_applied then None else Some (lc_refusalText cfg c)))) (w, world))"

definition record_intent :: "lane_config \<Rightarrow> 'w lane_store \<Rightarrow> effect_intent_spec \<Rightarrow> ('w, nat \<times> effect_machine \<times> bool) lane_op" where
  "record_intent cfg st spec =
     bindW selfW (\<lambda>w.
     bindW (laneAppend cfg st (is_opId spec)
              (intent_payload spec (case currentEpoch (lw_fold w) of Some epoch \<Rightarrow> int (ep_seq epoch) | None \<Rightarrow> - 1))
              (Some (intent_verdict cfg st spec))) (\<lambda>(sq, replayed).
     bindW selfW (\<lambda>w.
     case machineAt (lw_fold w) sq of
       None \<Rightarrow> refuseW Intent_folded_void
     | Some m \<Rightarrow> if \<not> em_consumed m then refuseW Intent_folded_void else retW (sq, m, replayed))))"

definition refused_record :: "string \<Rightarrow> string \<Rightarrow> string \<Rightarrow> json" where
  "refused_record opId logicalKey reason = decision_payload ''effect_terminal'' opId
     [(''terminal'', JStr ''refused''), (''logicalKey'', JStr logicalKey), (''reason'', JStr reason)]"

definition give_up :: "lane_config \<Rightarrow> 'w lane_store \<Rightarrow> effect_intent_spec \<Rightarrow> rulvar_error \<Rightarrow> ('w, 'a) lane_op" where
  "give_up cfg st spec thrown =
     (let refuseOp = ''effect-refused:'' @ is_opId spec;
          durable = (\<lambda>reason. bindW (laneAppend cfg st refuseOp (refused_record refuseOp (is_logicalKey spec) reason) None)
                                (\<lambda>_. failW thrown))
      in case thrown of
           EffectLaneRefused (Append_contention reason) \<Rightarrow> durable reason
         | EffectLaneRefused (Verdict_refused reason) \<Rightarrow> durable reason
         | _ \<Rightarrow> failW thrown)"

definition consumeApprovalAndRecordIntent ::
  "lane_config \<Rightarrow> 'w lane_store \<Rightarrow> effect_intent_spec \<Rightarrow> ('w, nat \<times> effect_machine \<times> bool) lane_op" where
  "consumeApprovalAndRecordIntent cfg st spec =
     bindW (reload cfg st) (\<lambda>_.
     bindW (assertRestorationCurrent st) (\<lambda>_.
     bindW selfW (\<lambda>w.
     case findOpId (is_opId spec) (lw_entries w) of
       Some existing \<Rightarrow>
         (case machineAt (lw_fold w) existing of
            None \<Rightarrow> refuseW Operation_id_collision
          | Some m \<Rightarrow> retW (existing, m, True))
     | None \<Rightarrow>
         bindW (intakeApproval cfg st spec) (\<lambda>_.
         catchW (record_intent cfg st spec) (give_up cfg st spec)))))"

section \<open>The other transitions\<close>

definition requireMachine :: "nat \<Rightarrow> ('w, effect_machine) lane_op" where
  "requireMachine intentSeq =
     bindW selfW (\<lambda>w.
     case machineAt (lw_fold w) intentSeq of
       None \<Rightarrow> refuseW Intent_not_consumed
     | Some m \<Rightarrow> if em_consumed m then retW m else refuseW Intent_not_consumed)"

record attempt_spec =
  as_opId :: string
  as_notAfter :: string
  as_idempotencyKey :: "string option"
  as_transport :: "string option"

datatype attempt_opened = Cancelled nat | Opened nat bool

definition closer_text :: "closer_kind \<Rightarrow> string" where
  "closer_text k = (case k of Revoked \<Rightarrow> ''revoked'' | Expired \<Rightarrow> ''expired'')"

definition cancel_payload :: "string \<Rightarrow> nat \<Rightarrow> nat \<Rightarrow> closer_kind \<Rightarrow> json" where
  "cancel_payload opId intentSeq closer kind = decision_payload ''effect_terminal'' opId
     [(''intentRef'', JSeq intentSeq), (''terminal'', JStr ''cancelled-before-dispatch''),
      (''reason'', JStr (''the approval was '' @ closer_text kind @ '' at seq '' @ show_nat closer
         @ '' with zero attempt records; the journal proves no conforming send ever happened'')),
      (''causalRef'', JSeq closer)]"

definition attempt_payload :: "nat \<Rightarrow> nat \<Rightarrow> attempt_spec \<Rightarrow> json" where
  "attempt_payload intentSeq ordinal spec = decision_payload ''effect_attempt'' (as_opId spec)
     ([(''intentRef'', JSeq intentSeq), (''ordinal'', JSeq ordinal), (''notAfter'', JStr (as_notAfter spec))]
      @ given ''idempotencyKey'' JStr (as_idempotencyKey spec) @ given ''transport'' JStr (as_transport spec))"

definition dispatch_attempt ::
  "lane_config \<Rightarrow> 'w lane_store \<Rightarrow> nat \<Rightarrow> effect_machine \<Rightarrow> attempt_spec \<Rightarrow> ('w, attempt_opened) lane_op" where
  "dispatch_attempt cfg st intentSeq m spec =
     (if em_terminal m \<noteq> None then refuseW Machine_closed
      else (case em_postIntentCloser m of
        Some (closer, kind) \<Rightarrow>
          if em_attempts m = []
          then
            let opId = ''effect-cancel:'' @ show_nat intentSeq @ '':'' @ show_nat closer
            in bindW (laneAppend cfg st opId (cancel_payload opId intentSeq closer kind) None)
                 (\<lambda>(sq, _). retW (Cancelled sq))
          else refuseW Reconcile_only
      | None \<Rightarrow>
          if length (em_attempts m) \<ge> eb_attempts (ei_budgets (em_intent m)) then refuseW Attempts_exhausted
          else
            bindW (laneAppend cfg st (as_opId spec) (attempt_payload intentSeq (length (em_attempts m) + 1) spec) None)
              (\<lambda>(sq, replayed). retW (Opened sq replayed))))"

definition openAttempt ::
  "lane_config \<Rightarrow> 'w lane_store \<Rightarrow> nat \<Rightarrow> attempt_spec \<Rightarrow> ('w, attempt_opened) lane_op" where
  "openAttempt cfg st intentSeq spec =
     bindW (reload cfg st) (\<lambda>_.
     bindW (assertRestorationCurrent st) (\<lambda>_.
     bindW selfW (\<lambda>w.
     if (case currentEpoch (lw_fold w) of Some ep \<Rightarrow> ep_needsReconciliation ep \<and> \<not> ep_reconciled ep | None \<Rightarrow> False)
     then refuseW Reconciliation_pending
     else
       bindW (requireMachine intentSeq) (\<lambda>m.
       case findOpId (as_opId spec) (lw_entries w) of
         Some existing \<Rightarrow> retW (Opened existing True)
       | None \<Rightarrow> dispatch_attempt cfg st intentSeq m spec))))"

text \<open>The records that need a consumed intent: reload, require it, append.\<close>

definition append_under ::
  "lane_config \<Rightarrow> 'w lane_store \<Rightarrow> nat \<Rightarrow> string \<Rightarrow> string \<Rightarrow> (string \<times> json) list \<Rightarrow> ('w, nat \<times> bool) lane_op" where
  "append_under cfg st intentSeq decisionType opId rest =
     bindW (reload cfg st) (\<lambda>_.
     bindW (requireMachine intentSeq) (\<lambda>_.
     laneAppend cfg st opId (decision_payload decisionType opId ((''intentRef'', JSeq intentSeq) # rest)) None))"

definition appendOutcome ::
  "lane_config \<Rightarrow> 'w lane_store \<Rightarrow> nat \<Rightarrow> nat \<Rightarrow> string \<Rightarrow> attempt_outcome \<Rightarrow> string option \<Rightarrow> ('w, nat \<times> bool) lane_op" where
  "appendOutcome cfg st intentSeq attemptSeq opId outcome detail =
     append_under cfg st intentSeq ''effect_outcome'' opId
       ([(''attemptRef'', JSeq attemptSeq), (''outcome'', JStr (outcome_text outcome))] @ given ''detail'' JStr detail)"

record receipt_spec =
  rc_opId :: string
  rc_verification :: receipt_verification
  rc_transferId :: "string option"
  rc_amount :: "rat option"
  rc_currency :: "string option"
  rc_documentHash :: "string option"
  rc_providerRef :: "string option"
  rc_timestamp :: "string option"
  rc_detail :: "string option"

definition appendReceipt :: "lane_config \<Rightarrow> 'w lane_store \<Rightarrow> nat \<Rightarrow> receipt_spec \<Rightarrow> ('w, nat \<times> bool) lane_op" where
  "appendReceipt cfg st intentSeq spec =
     append_under cfg st intentSeq ''effect_receipt'' (rc_opId spec)
       ([(''verification'', JStr (verification_text (rc_verification spec)))]
        @ given ''transferId'' JStr (rc_transferId spec) @ given ''amount'' JNum (rc_amount spec)
        @ given ''currency'' JStr (rc_currency spec) @ given ''documentHash'' JStr (rc_documentHash spec)
        @ given ''providerRef'' JStr (rc_providerRef spec) @ given ''timestamp'' JStr (rc_timestamp spec)
        @ given ''detail'' JStr (rc_detail spec))"

definition appendTerminal_lane ::
  "lane_config \<Rightarrow> 'w lane_store \<Rightarrow> nat \<Rightarrow> string \<Rightarrow> terminal_kind \<Rightarrow> string option \<Rightarrow> nat option \<Rightarrow> ('w, nat \<times> bool) lane_op" where
  "appendTerminal_lane cfg st intentSeq opId terminal reason causalRef =
     bindW (append_under cfg st intentSeq ''effect_terminal'' opId
              ([(''terminal'', JStr (terminal_text terminal))] @ given ''reason'' JStr reason
               @ given ''causalRef'' JSeq causalRef)) (\<lambda>(sq, replayed).
     bindW selfW (\<lambda>w.
     case laneClassificationOf (lw_fold w) sq of
       Some (L_invalid _) \<Rightarrow> refuseW Terminal_invalid
     | _ \<Rightarrow> retW (sq, replayed)))"

definition appendIncident ::
  "lane_config \<Rightarrow> 'w lane_store \<Rightarrow> nat \<Rightarrow> string \<Rightarrow> string \<Rightarrow> nat option \<Rightarrow> string option \<Rightarrow> ('w, nat \<times> bool) lane_op" where
  "appendIncident cfg st intentSeq opId incident causalRef detail =
     append_under cfg st intentSeq ''effect_incident'' opId
       ([(''incident'', JStr incident)] @ given ''causalRef'' JSeq causalRef @ given ''detail'' JStr detail)"

definition appendDisposition ::
  "lane_config \<Rightarrow> 'w lane_store \<Rightarrow> nat \<Rightarrow> string \<Rightarrow> string \<Rightarrow> string \<Rightarrow> string \<Rightarrow> nat option \<Rightarrow> ('w, nat \<times> bool) lane_op" where
  "appendDisposition cfg st intentSeq opId who reason disposition causalRef =
     append_under cfg st intentSeq ''effect_disposition'' opId
       ([(''principal'', JStr who), (''reason'', JStr reason), (''disposition'', JStr disposition)]
        @ given ''causalRef'' JSeq causalRef)"

definition appendProbe ::
  "lane_config \<Rightarrow> 'w lane_store \<Rightarrow> nat \<Rightarrow> string option \<Rightarrow> probe_kind \<Rightarrow> bool \<Rightarrow> bool option \<Rightarrow> ('w, nat \<times> bool) lane_op" where
  "appendProbe cfg st intentSeq given_opId probe found acceptanceClosed =
     bindW (reload cfg st) (\<lambda>_.
     bindW (requireMachine intentSeq) (\<lambda>m.
     if length (em_probes m) \<ge> eb_lookups (ei_budgets (em_intent m)) then refuseW Lookups_exhausted
     else
       let opId = (case given_opId of Some o1 \<Rightarrow> o1
                   | None \<Rightarrow> ''probe:'' @ show_nat intentSeq @ '':'' @ show_nat (length (em_probes m) + 1))
       in laneAppend cfg st opId (decision_payload ''effect_probe'' opId
            ([(''intentRef'', JSeq intentSeq), (''probe'', JStr (probe_text probe)), (''found'', JBool found)]
             @ given ''acceptanceClosed'' JBool acceptanceClosed)) None))"

definition appendStandaloneRefusal ::
  "lane_config \<Rightarrow> 'w lane_store \<Rightarrow> string \<Rightarrow> string \<Rightarrow> string \<Rightarrow> ('w, nat \<times> bool) lane_op" where
  "appendStandaloneRefusal cfg st opId logicalKey reason =
     bindW (reload cfg st) (\<lambda>_. laneAppend cfg st opId (refused_record opId logicalKey reason) None)"

definition appendStandaloneQuarantine ::
  "lane_config \<Rightarrow> 'w lane_store \<Rightarrow> string \<Rightarrow> string \<Rightarrow> string \<Rightarrow> ('w, nat \<times> bool) lane_op" where
  "appendStandaloneQuarantine cfg st opId logicalKey reason =
     bindW (reload cfg st) (\<lambda>_. laneAppend cfg st opId (decision_payload ''effect_terminal'' opId
       [(''terminal'', JStr ''quarantined''), (''logicalKey'', JStr logicalKey), (''reason'', JStr reason)]) None)"

definition appendReconciliationComplete ::
  "lane_config \<Rightarrow> 'w lane_store \<Rightarrow> string \<Rightarrow> nat \<Rightarrow> nat \<Rightarrow> ('w, nat \<times> bool) lane_op" where
  "appendReconciliationComplete cfg st opId epochRef swept =
     bindW (reload cfg st) (\<lambda>_. laneAppend cfg st opId (decision_payload ''effect_reconciliation_complete'' opId
       [(''epochRef'', JSeq epochRef), (''swept'', JSeq swept)]) None)"

end
