(* ===== verification/LaneAppend.thy ===== *)
theory LaneAppend
  imports EffectWriter
begin

text \<open>
  What the writer of the effect lane promises: triples over its operations, the store contract with
  other holders and lost acknowledgements as a locale, at-most-once appends, progress under bounded
  contention, and the licence behind every recorded intent.
\<close>

section \<open>Reasoning about lane operations\<close>

definition hoareW ::
  "('w lane_state \<Rightarrow> bool) \<Rightarrow> ('w, 'a) lane_op \<Rightarrow> ('a \<Rightarrow> 'w lane_state \<Rightarrow> bool) \<Rightarrow> (rulvar_error \<Rightarrow> 'w lane_state \<Rightarrow> bool) \<Rightarrow> bool" where
  "hoareW P m Q E \<longleftrightarrow>
     (\<forall>s s' a. P s \<and> m s = (s', Inr a) \<longrightarrow> Q a s') \<and> (\<forall>s s' e. P s \<and> m s = (s', Inl e) \<longrightarrow> E e s')"

lemma hoareW_I:
  "(\<And>s s' a. P s \<Longrightarrow> m s = (s', Inr a) \<Longrightarrow> Q a s') \<Longrightarrow> (\<And>s s' e. P s \<Longrightarrow> m s = (s', Inl e) \<Longrightarrow> E e s') \<Longrightarrow> hoareW P m Q E"
  unfolding hoareW_def by blast

lemma hoareW_Inr: "hoareW P m Q E \<Longrightarrow> P s \<Longrightarrow> m s = (s', Inr a) \<Longrightarrow> Q a s'"
  unfolding hoareW_def by blast

lemma hoareW_Inl: "hoareW P m Q E \<Longrightarrow> P s \<Longrightarrow> m s = (s', Inl e) \<Longrightarrow> E e s'"
  unfolding hoareW_def by blast

lemma bindW_cases:
  assumes "bindW m k s = (s', r)"
  obtains (failed) e where "m s = (s', Inl e)" "r = Inl e"
  | (went_on) t a where "m s = (t, Inr a)" "k a t = (s', r)"
  using assms by (auto simp: bindW_def split: prod.splits sum.splits)

lemma catchW_cases:
  assumes "catchW m h s = (s', r)"
  obtains (kept) a where "m s = (s', Inr a)" "r = Inr a"
  | (caught) t e where "m s = (t, Inl e)" "h e t = (s', r)"
  using assms by (auto simp: catchW_def split: prod.splits sum.splits)

lemma hoareW_bind:
  assumes "hoareW P m R E" "\<And>a. hoareW (R a) (k a) Q E"
  shows "hoareW P (bindW m k) Q E"
proof (rule hoareW_I)
  show "Q b s'" if "P s" "bindW m k s = (s', Inr b)" for s s' b
    using that(2)
  proof (cases rule: bindW_cases)
    case (went_on t a)
    then show ?thesis using hoareW_Inr [OF assms(1) that(1)] hoareW_Inr [OF assms(2)] by blast
  qed simp
  show "E e s'" if "P s" "bindW m k s = (s', Inl e)" for s s' e
    using that(2)
  proof (cases rule: bindW_cases)
    case (failed e')
    then show ?thesis using hoareW_Inl [OF assms(1) that(1)] by simp
  next
    case (went_on t a)
    then show ?thesis using hoareW_Inr [OF assms(1) that(1)] hoareW_Inl [OF assms(2)] by blast
  qed
qed

lemma hoareW_catch:
  assumes "hoareW P m Q F" "\<And>e. hoareW (F e) (h e) Q E"
  shows "hoareW P (catchW m h) Q E"
proof (rule hoareW_I)
  show "Q b s'" if "P s" "catchW m h s = (s', Inr b)" for s s' b
    using that(2)
  proof (cases rule: catchW_cases)
    case (kept a)
    then show ?thesis using hoareW_Inr [OF assms(1) that(1)] by simp
  next
    case (caught t e)
    then show ?thesis using hoareW_Inl [OF assms(1) that(1)] hoareW_Inr [OF assms(2)] by blast
  qed
  show "E e s'" if "P s" "catchW m h s = (s', Inl e)" for s s' e
    using that(2)
  proof (cases rule: catchW_cases)
    case (caught t e)
    then show ?thesis using hoareW_Inl [OF assms(1) that(1)] hoareW_Inl [OF assms(2)] by blast
  qed simp
qed

lemma hoareW_ret: "(\<And>s. P s \<Longrightarrow> Q a s) \<Longrightarrow> hoareW P (retW a) Q E"
  by (rule hoareW_I) (auto simp: retW_def)

lemma hoareW_fail: "(\<And>s. P s \<Longrightarrow> E e s) \<Longrightarrow> hoareW P (failW e) Q E"
  by (rule hoareW_I) (auto simp: failW_def)

lemma hoareW_refuse: "(\<And>s. P s \<Longrightarrow> E (EffectLaneRefused r) s) \<Longrightarrow> hoareW P (refuseW r) Q E"
  by (simp add: refuseW_def hoareW_fail)

lemma hoareW_update: "(\<And>w world. P (w, world) \<Longrightarrow> Q () (g w, world)) \<Longrightarrow> hoareW P (updateW g) Q E"
  by (rule hoareW_I) (auto simp: updateW_def)

lemma hoareW_of:
  "(\<And>s a. P s \<Longrightarrow> r = Inr a \<Longrightarrow> Q a s) \<Longrightarrow> (\<And>s e. P s \<Longrightarrow> r = Inl e \<Longrightarrow> E e s) \<Longrightarrow> hoareW P (ofW r) Q E"
  by (rule hoareW_I) (auto simp: ofW_def)

lemma hoareW_call:
  "(\<And>w world world' a. P (w, world) \<Longrightarrow> c world = (world', Inr a) \<Longrightarrow> Q a (w, world')) \<Longrightarrow>
   (\<And>w world world' e. P (w, world) \<Longrightarrow> c world = (world', Inl e) \<Longrightarrow> E e (w, world')) \<Longrightarrow> hoareW P (callW c) Q E"
  by (rule hoareW_I) (auto simp: callW_def split: prod.splits)

text \<open>Reading the writer fixes it for the rest of the operation.\<close>

lemma hoareW_self:
  "(\<And>w. hoareW (\<lambda>s. P s \<and> fst s = w) (k w) Q E) \<Longrightarrow> hoareW P (bindW selfW k) Q E"
  unfolding hoareW_def bindW_def selfW_def by auto

lemma hoareW_selfW: "hoareW P selfW (\<lambda>v s. P s \<and> fst s = v) E"
  by (rule hoareW_I) (auto simp: selfW_def)

lemma hoareW_state:
  "(\<And>w world. P (w, world) \<Longrightarrow> hoareW (\<lambda>s. s = (w, world)) (k w world) Q E) \<Longrightarrow> hoareW P (\<lambda>(w, world). k w world (w, world)) Q E"
  unfolding hoareW_def by (metis (no_types, lifting) case_prod_conv surj_pair)

lemma hoareW_pre: "hoareW P m Q E \<Longrightarrow> (\<And>s. P' s \<Longrightarrow> P s) \<Longrightarrow> hoareW P' m Q E"
  unfolding hoareW_def by blast

lemma hoareW_post:
  "hoareW P m Q E \<Longrightarrow> (\<And>a s. Q a s \<Longrightarrow> Q' a s) \<Longrightarrow> (\<And>e s. E e s \<Longrightarrow> E' e s) \<Longrightarrow> hoareW P m Q' E'"
  unfolding hoareW_def by blast

text \<open>A verdict reads the state without changing it, and keeps the operation id in the payload.\<close>

definition sound_verdict :: "(json \<Rightarrow> bool) \<Rightarrow> 'w lane_verdict \<Rightarrow> bool" where
  "sound_verdict good v \<longleftrightarrow>
     (\<forall>p s. fst (v p s) = s) \<and> (\<forall>p s p' why. good p \<and> snd (v p s) = Inr (p', why) \<longrightarrow> good p')"

lemma hoareW_verdict:
  assumes "sound_verdict good v" "good p"
  shows "hoareW P (v p) (\<lambda>(p', _) s. P s \<and> good p') (\<lambda>_. P)"
proof (rule hoareW_I)
  have same: "fst (v p s) = s" for s using assms(1) unfolding sound_verdict_def by blast
  show "(case a of (p', _) \<Rightarrow> \<lambda>s. P s \<and> good p') s'" if "P s" "v p s = (s', Inr a)" for s s' a
    using that same [of s] assms unfolding sound_verdict_def by (cases a) (metis fst_conv old.prod.case snd_conv)
  show "P s'" if "P s" "v p s = (s', Inl e)" for s s' e using that same [of s] by simp
qed

section \<open>A journal with other holders\<close>

lemma tail_seq_Nil: "tail_seq [] = - 1"
  by (simp add: tail_seq_def)

lemma tail_seq_snoc: "tail_seq (es @ [e]) = max (tail_seq es) (int (je_seq e))"
  by (simp add: tail_seq_def max_def)

lemma tail_seq_bound: "x \<in> set es \<Longrightarrow> int (je_seq x) \<le> tail_seq es"
  by (induction es rule: rev_induct) (auto simp: tail_seq_snoc)

lemma tail_seq_ge: "- 1 \<le> tail_seq es"
  by (induction es rule: rev_induct) (auto simp: tail_seq_snoc tail_seq_Nil)

lemma tail_seq_attained: "es \<noteq> [] \<Longrightarrow> \<exists>x\<in>set es. tail_seq es = int (je_seq x)"
proof (induction es rule: rev_induct)
  case (snoc x xs)
  then show ?case by (cases "xs = []") (auto simp: tail_seq_snoc tail_seq_def [of "[]"] tail_seq_def [of "[x]"] max_def)
qed simp

lemma next_position:
  assumes "x \<in> set es"
  shows "je_seq x < nat (tail_seq es + 1)"
  using tail_seq_bound [OF assms] by linarith

text \<open>What lies behind a view starts at or after the position the view would append at.\<close>

lemma beyond_view:
  assumes "seqs_increasing (es @ os)" "x \<in> set os"
  shows "nat (tail_seq es + 1) \<le> je_seq x"
proof (cases "es = []")
  case True
  then show ?thesis by (simp add: tail_seq_Nil)
next
  case False
  then obtain y where y: "y \<in> set es" "tail_seq es = int (je_seq y)" using tail_seq_attained by blast
  then have "je_seq y < je_seq x" using assms by (auto simp: seqs_increasing_def sorted_wrt_append)
  then show ?thesis using y by simp
qed

definition carriers :: "string \<Rightarrow> journal_entry list \<Rightarrow> journal_entry list" where
  "carriers opId es = filter (carries_opId opId) es"

lemma carriers_simps [simp]:
  "carriers opId [] = []"
  "carriers opId (es @ fs) = carriers opId es @ carriers opId fs"
  "carriers opId (e # es) = (if carries_opId opId e then e # carriers opId es else carriers opId es)"
  by (simp_all add: carriers_def)

lemma findOpId_None: "findOpId opId es = None \<longleftrightarrow> carriers opId es = []"
  by (auto simp: findOpId_def carriers_def find_None_all filter_empty_conv)

lemma findOpId_Some: "findOpId opId es = Some n \<Longrightarrow> \<exists>e\<in>set es. carries_opId opId e \<and> je_seq e = n"
  by (auto simp: findOpId_def dest: find_Some_in)

text \<open>
  The store contract the lane relies on: a call may find the journal grown by entries of other
  operations, an append commits only after every entry already there, and a rejected append may have
  committed nevertheless.
\<close>

locale contended_log =
  fixes st :: "'w lane_store"
    and log :: "'w \<Rightarrow> journal_entry list"
    and opId :: string
  assumes load_law: "ls_load st w = (w', r) \<Longrightarrow> seqs_increasing (log w) \<Longrightarrow>
      seqs_increasing (log w') \<and> (\<exists>os. log w' = log w @ os \<and> carriers opId os = [])
      \<and> (\<forall>es. r = Inr es \<longrightarrow> es = log w')"
    and append_law: "ls_append st e l w = (w', u) \<Longrightarrow> seqs_increasing (log w) \<Longrightarrow>
      seqs_increasing (log w')
      \<and> ((\<exists>os os'. log w' = log w @ os @ e # os' \<and> carriers opId (os @ os') = [])
         \<or> u \<noteq> Inr () \<and> (\<exists>os. log w' = log w @ os \<and> carriers opId os = []))"
begin

text \<open>
  What every call keeps, seen from a journal \<open>past\<close> and for entries the writer may have written: the
  journal is ordered and only grew, and the operation is in it at most once. While the writer's view
  is a prefix of the journal it may be stale.
\<close>

definition once :: "(journal_entry \<Rightarrow> bool) \<Rightarrow> journal_entry list \<Rightarrow> 'w lane_state \<Rightarrow> bool" where
  "once mine past s \<longleftrightarrow> seqs_increasing (log (snd s)) \<and> (\<exists>os. log (snd s) = past @ os)
     \<and> length (carriers opId (log (snd s))) \<le> 1 \<and> (\<forall>x\<in>set (carriers opId (log (snd s))). mine x)"

definition viewed :: "(journal_entry \<Rightarrow> bool) \<Rightarrow> journal_entry list \<Rightarrow> 'w lane_state \<Rightarrow> bool" where
  "viewed mine past s \<longleftrightarrow> once mine past s \<and> (\<exists>os. log (snd s) = lw_entries (fst s) @ os)"

definition folded :: "lane_config \<Rightarrow> 'w lane_state \<Rightarrow> bool" where
  "folded cfg s \<longleftrightarrow> new_lane_fold (lc_validate cfg) (lw_entries (fst s)) None = Inr (lw_fold (fst s))"

definition found :: "(journal_entry \<Rightarrow> bool) \<Rightarrow> journal_entry list \<Rightarrow> nat \<Rightarrow> 'w lane_state \<Rightarrow> bool" where
  "found mine past n s \<longleftrightarrow> viewed mine past s \<and> (\<exists>e\<in>set (lw_entries (fst s)). carries_opId opId e \<and> je_seq e = n)"

text \<open>Entries of others keep it.\<close>

lemma once_grows:
  assumes "once mine past (w, world)" "seqs_increasing (log world')" "log world' = log world @ os" "carriers opId os = []"
  shows "once mine past (w', world')"
  using assms by (auto simp: once_def)

lemma reload_once:
  "hoareW (once mine past) (reload cfg st)
     (\<lambda>_ s. once mine past s \<and> lw_entries (fst s) = log (snd s) \<and> folded cfg s) (\<lambda>_. once mine past)"
proof -
  have law: "once mine past (w', world')" "r = Inr es \<Longrightarrow> es = log world'"
    if "once mine past (w, world)" "ls_load st world = (world', r)" for w w' world world' r es
  proof -
    have "seqs_increasing (log world)" using that(1) by (simp add: once_def)
    note l = load_law [OF that(2) this]
    show "once mine past (w', world')" using l once_grows [OF that(1)] by blast
    show "es = log world'" if "r = Inr es" using l that by blast
  qed
  show ?thesis
    unfolding reload_def
  proof (intro hoareW_bind)
    show "hoareW (once mine past) (callW (ls_load st)) (\<lambda>es s. once mine past s \<and> es = log (snd s)) (\<lambda>_. once mine past)"
      by (rule hoareW_call) (use law in auto)
    show "hoareW (\<lambda>s. once mine past s \<and> es = log (snd s)) (updateW (\<lambda>w. w\<lparr> lw_entries := es \<rparr>))
        (\<lambda>_ s. once mine past s \<and> lw_entries (fst s) = log (snd s) \<and> es = log (snd s)) (\<lambda>_. once mine past)" for es
      by (rule hoareW_update) (auto simp: once_def)
    show "hoareW (\<lambda>s. once mine past s \<and> lw_entries (fst s) = log (snd s) \<and> es = log (snd s))
        (ofW (new_lane_fold (lc_validate cfg) es None))
        (\<lambda>F s. once mine past s \<and> lw_entries (fst s) = log (snd s)
           \<and> new_lane_fold (lc_validate cfg) (lw_entries (fst s)) None = Inr F) (\<lambda>_. once mine past)" for es
      by (rule hoareW_of) auto
    show "hoareW (\<lambda>s. once mine past s \<and> lw_entries (fst s) = log (snd s)
           \<and> new_lane_fold (lc_validate cfg) (lw_entries (fst s)) None = Inr F) (updateW (\<lambda>w. w\<lparr> lw_fold := F \<rparr>))
        (\<lambda>_ s. once mine past s \<and> lw_entries (fst s) = log (snd s) \<and> folded cfg s) (\<lambda>_. once mine past)" for F
      by (rule hoareW_update) (auto simp: once_def folded_def)
  qed
qed

lemma viewed_fresh: "once mine past s \<Longrightarrow> lw_entries (fst s) = log (snd s) \<Longrightarrow> viewed mine past s"
  by (simp add: viewed_def)

text \<open>
  A commit can only happen when the view is the whole journal, so the operation it does not show is
  not there.
\<close>

lemma commit_at_view:
  assumes "viewed mine past (w, world)" "je_seq e = nat (tail_seq (lw_entries w) + 1)"
    and "seqs_increasing (log world')" "log world' = log world @ os @ e # os'"
  shows "log world' = lw_entries w @ e # os'"
proof -
  obtain vs where vs: "log world = lw_entries w @ vs" using assms(1) by (auto simp: viewed_def)
  have "False" if "x \<in> set (vs @ os)" for x
  proof -
    have "nat (tail_seq (lw_entries w) + 1) \<le> je_seq x"
      using beyond_view [of "lw_entries w" "vs @ os @ e # os'" x] assms(3,4) vs that by auto
    moreover have "je_seq x < je_seq e"
      using assms(3,4) vs that by (auto simp: seqs_increasing_def sorted_wrt_append)
    ultimately show False using assms(2) by simp
  qed
  then have "vs @ os = []" by (metis list.set_intros(1) neq_Nil_conv)
  then show ?thesis using assms(4) vs by simp
qed

lemma append_call:
  assumes "viewed mine past (w, world)" "carriers opId (lw_entries w) = []"
    and e: "je_seq e = nat (tail_seq (lw_entries w) + 1)" "mine e" "carries_opId opId e"
    and call: "ls_append st e l world = (world', u)"
  shows "once mine past (w', world')"
    and "u = Inr () \<Longrightarrow> \<exists>os. log world' = (lw_entries w @ [e]) @ os"
proof -
  have inc: "seqs_increasing (log world)" using assms(1) by (simp add: viewed_def once_def)
  note law = append_law [OF call inc]
  have committed: "log world' = lw_entries w @ e # os'" "once mine past (w', world')"
    if "log world' = log world @ os @ e # os'" "carriers opId (os @ os') = []" for os os'
  proof -
    show *: "log world' = lw_entries w @ e # os'" using commit_at_view [OF assms(1) e(1)] law that(1) by blast
    have "carriers opId (log world') = [e]" unfolding * using assms(2) e(3) that(2) by simp
    moreover have "\<exists>ps. log world' = past @ ps" using assms(1) that(1) by (auto simp: viewed_def once_def)
    ultimately show "once mine past (w', world')" using law e(2) by (simp add: once_def)
  qed
  show "once mine past (w', world')"
    using law committed(2) once_grows [of mine past w world world'] assms(1) by (auto simp: viewed_def)
  show "\<exists>os. log world' = (lw_entries w @ [e]) @ os" if ok: "u = Inr ()"
  proof -
    obtain os os' where "log world' = log world @ os @ e # os'" "carriers opId (os @ os') = []" using law ok by blast
    from committed(1) [OF this] show ?thesis by simp
  qed
qed

lemma append_at_tail_once:
  assumes mine: "\<And>t n. mine (template t n opId payload) \<and> carries_opId opId (template t n opId payload)"
  shows "hoareW (\<lambda>s. viewed mine past s \<and> carriers opId (lw_entries (fst s)) = []) (append_at_tail cfg st opId payload)
     (\<lambda>(n, b) s. found mine past n s \<and> folded cfg s \<and> \<not> b) (\<lambda>_. once mine past)"
  unfolding append_at_tail_def Let_def
proof (rule hoareW_state, simp only: fst_conv, elim conjE)
  fix w world
  assume pre: "viewed mine past (w, world)" "carriers opId (lw_entries w) = []"
  let ?n = "nat (tail_seq (lw_entries w) + 1)"
  let ?e = "template (ls_now st world) ?n opId payload"
  have e: "je_seq ?e = ?n" by (simp add: template_def)
  note after = append_call [OF pre e conjunct1 [OF mine] conjunct2 [OF mine]]
  let ?Q = "\<lambda>s. once mine past s \<and> (\<exists>os. log (snd s) = lw_entries (fst s) @ os) \<and> ?e \<in> set (lw_entries (fst s))"
  show "hoareW (\<lambda>s. s = (w, world))
     (bindW (callW (ls_append st ?e (lw_lease w))) (\<lambda>_. bindW (updateW (\<lambda>w. w\<lparr> lw_entries := lw_entries w @ [?e] \<rparr>)) (\<lambda>_.
      bindW selfW (\<lambda>w. bindW (ofW (new_lane_fold (lc_validate cfg) (lw_entries w) None)) (\<lambda>F.
      bindW (updateW (\<lambda>w. w\<lparr> lw_fold := F \<rparr>)) (\<lambda>_. retW (?n, False)))))))
     (\<lambda>(n, b) s. found mine past n s \<and> folded cfg s \<and> \<not> b) (\<lambda>_. once mine past)"
  proof (intro hoareW_bind)
    show "hoareW (\<lambda>s. s = (w, world)) (callW (ls_append st ?e (lw_lease w)))
        (\<lambda>_ s. once mine past s \<and> fst s = w \<and> (\<exists>os. log (snd s) = (lw_entries w @ [?e]) @ os)) (\<lambda>_. once mine past)"
      by (rule hoareW_call) (use after in fastforce)+
    show "hoareW (\<lambda>s. once mine past s \<and> fst s = w \<and> (\<exists>os. log (snd s) = (lw_entries w @ [?e]) @ os))
        (updateW (\<lambda>w. w\<lparr> lw_entries := lw_entries w @ [?e] \<rparr>)) (\<lambda>_. ?Q) (\<lambda>_. once mine past)"
      by (rule hoareW_update) (auto simp: once_def)
    show "hoareW ?Q selfW (\<lambda>v s. ?Q s \<and> fst s = v) (\<lambda>_. once mine past)" by (rule hoareW_selfW)
    show "hoareW (\<lambda>s. ?Q s \<and> fst s = v) (ofW (new_lane_fold (lc_validate cfg) (lw_entries v) None))
        (\<lambda>F s. ?Q s \<and> new_lane_fold (lc_validate cfg) (lw_entries (fst s)) None = Inr F) (\<lambda>_. once mine past)" for v
      by (rule hoareW_of) auto
    show "hoareW (\<lambda>s. ?Q s \<and> new_lane_fold (lc_validate cfg) (lw_entries (fst s)) None = Inr F)
        (updateW (\<lambda>w. w\<lparr> lw_fold := F \<rparr>)) (\<lambda>_ s. ?Q s \<and> folded cfg s) (\<lambda>_. once mine past)" for F
      by (rule hoareW_update) (auto simp: once_def folded_def)
    show "hoareW (\<lambda>s. ?Q s \<and> folded cfg s) (retW (?n, False))
        (\<lambda>(n, b) s. found mine past n s \<and> folded cfg s \<and> \<not> b) (\<lambda>_. once mine past)"
      by (rule hoareW_ret) (use e mine in \<open>auto simp: found_def viewed_def\<close>)
  qed
qed

lemma append_failed_once:
  assumes "hoareW (\<lambda>s. viewed mine past s \<and> folded cfg s) retry
      (\<lambda>(n, b) s. found mine past n s \<and> folded cfg s) (\<lambda>_. once mine past)"
  shows "hoareW (once mine past) (append_failed cfg st opId retry thrown)
     (\<lambda>(n, b) s. found mine past n s \<and> folded cfg s) (\<lambda>_. once mine past)"
proof (cases "thrown = LeaseHeldError")
  case True
  then show ?thesis by (simp add: append_failed_def hoareW_fail)
next
  case False
  have "hoareW (once mine past) (bindW (reload cfg st) (\<lambda>_. bindW selfW (\<lambda>w.
      case findOpId opId (lw_entries w) of Some landed \<Rightarrow> retW (landed, False)
      | None \<Rightarrow> (case thrown of JournalOrderViolation _ \<Rightarrow> retry | _ \<Rightarrow> failW thrown))))
      (\<lambda>(n, b) s. found mine past n s \<and> folded cfg s) (\<lambda>_. once mine past)"
  proof (rule hoareW_bind [OF reload_once], rule hoareW_self)
    fix w
    let ?P = "\<lambda>s. (once mine past s \<and> lw_entries (fst s) = log (snd s) \<and> folded cfg s) \<and> fst s = w"
    show "hoareW ?P (case findOpId opId (lw_entries w) of Some landed \<Rightarrow> retW (landed, False)
        | None \<Rightarrow> (case thrown of JournalOrderViolation _ \<Rightarrow> retry | _ \<Rightarrow> failW thrown))
        (\<lambda>(n, b) s. found mine past n s \<and> folded cfg s) (\<lambda>_. once mine past)"
    proof (cases "findOpId opId (lw_entries w)")
      case None
      have "hoareW ?P retry (\<lambda>(n, b) s. found mine past n s \<and> folded cfg s) (\<lambda>_. once mine past)"
        by (rule hoareW_pre [OF assms]) (use viewed_fresh in blast)
      moreover have "hoareW ?P (failW thrown) (\<lambda>(n, b) s. found mine past n s \<and> folded cfg s) (\<lambda>_. once mine past)"
        by (rule hoareW_fail) simp
      ultimately show ?thesis using None by (auto split: rulvar_error.split)
    next
      case (Some n)
      have "found mine past n s" if "?P s" for s
        using findOpId_Some [OF Some] that viewed_fresh [of mine past s] unfolding found_def by blast
      then show ?thesis using Some by (auto intro: hoareW_ret)
    qed
  qed
  then show ?thesis using False by (simp add: append_failed_def)
qed

lemma lane_tries_once:
  assumes mine: "\<And>t n p. good p \<Longrightarrow> mine (template t n opId p) \<and> carries_opId opId (template t n opId p)"
    and v: "sound_verdict good v"
  shows "good p \<Longrightarrow> hoareW (\<lambda>s. viewed mine past s \<and> folded cfg s) (lane_tries n cfg st opId v p)
     (\<lambda>(n, b) s. found mine past n s \<and> folded cfg s) (\<lambda>_. once mine past)"
proof (induction n arbitrary: p)
  case 0
  then show ?case by (auto simp: viewed_def intro: hoareW_refuse)
next
  case (Suc n)
  let ?Q = "\<lambda>(n, b) s. found mine past n s \<and> folded cfg s"
  show ?case
    unfolding lane_tries.simps
  proof (rule hoareW_self)
    fix w
    let ?P = "\<lambda>s. (viewed mine past s \<and> folded cfg s) \<and> fst s = w"
    let ?go = "\<lambda>(p', why). case why of Some r \<Rightarrow> refuseW (Verdict_refused r)
        | None \<Rightarrow> catchW (append_at_tail cfg st opId p') (append_failed cfg st opId (lane_tries n cfg st opId v p'))"
    show "hoareW ?P (case findOpId opId (lw_entries w) of Some existing \<Rightarrow> retW (existing, True) | None \<Rightarrow> bindW (v p) ?go)
        ?Q (\<lambda>_. once mine past)"
    proof (cases "findOpId opId (lw_entries w)")
      case (Some k)
      then have "hoareW ?P (retW (k, True)) ?Q (\<lambda>_. once mine past)"
        using findOpId_Some [OF Some] by (auto simp: found_def intro: hoareW_ret)
      then show ?thesis using Some by simp
    next
      case None
      have "hoareW (\<lambda>s. ?P s \<and> good p') (catchW (append_at_tail cfg st opId p')
          (append_failed cfg st opId (lane_tries n cfg st opId v p'))) ?Q (\<lambda>_. once mine past)" for p'
      proof (cases "good p'")
        case True
        have "hoareW (\<lambda>s. ?P s \<and> good p') (append_at_tail cfg st opId p') ?Q (\<lambda>_. once mine past)"
          by (rule hoareW_pre, rule hoareW_post, rule append_at_tail_once [OF mine [OF True]])
            (use None in \<open>auto simp: findOpId_None\<close>)
        then show ?thesis by (rule hoareW_catch) (rule append_failed_once [OF Suc.IH [OF True]])
      qed (auto intro: hoareW_I)
      then have go: "hoareW (\<lambda>s. ?P s \<and> good p') (?go (p', why)) ?Q (\<lambda>_. once mine past)" for p' why
        by (cases why) (auto simp: viewed_def intro: hoareW_refuse)
      have verdict: "hoareW ?P (v p) (\<lambda>(p', _) s. ?P s \<and> good p') (\<lambda>_. once mine past)"
        by (rule hoareW_post [OF hoareW_verdict [OF v Suc.prems]]) (auto simp: viewed_def)
      have "hoareW ((\<lambda>(p', _) s. ?P s \<and> good p') a) (?go a) ?Q (\<lambda>_. once mine past)" for a
        using go by (cases a) simp
      then have "hoareW ?P (bindW (v p) ?go) ?Q (\<lambda>_. once mine past)" by (rule hoareW_bind [OF verdict])
      then show ?thesis using None by simp
    qed
  qed
qed

lemma laneAppend_once:
  assumes mine: "\<And>t n p. good p \<Longrightarrow> mine (template t n opId p) \<and> carries_opId opId (template t n opId p)"
    and v: "\<And>v. verdict = Some v \<Longrightarrow> sound_verdict good v" and p: "good p"
  shows "hoareW (\<lambda>s. viewed mine past s \<and> folded cfg s) (laneAppend cfg st opId p verdict)
     (\<lambda>(n, b) s. found mine past n s \<and> folded cfg s) (\<lambda>_. once mine past)"
proof -
  have "sound_verdict good (case verdict of Some v \<Rightarrow> v | None \<Rightarrow> (\<lambda>p. retW (p, None)))"
    using v by (auto simp: sound_verdict_def retW_def split: option.split)
  note tries = lane_tries_once [OF mine this p]
  show ?thesis
    unfolding laneAppend_def
  proof (rule hoareW_self)
    fix w
    show "hoareW (\<lambda>s. (viewed mine past s \<and> folded cfg s) \<and> fst s = w)
        (if lw_closed w then failW ConfigError else lane_tries APPEND_RETRIES cfg st opId
          (case verdict of Some v \<Rightarrow> v | None \<Rightarrow> (\<lambda>p. retW (p, None))) p)
        (\<lambda>(n, b) s. found mine past n s \<and> folded cfg s) (\<lambda>_. once mine past)"
    proof (cases "lw_closed w")
      case True
      then show ?thesis by (auto simp: viewed_def intro: hoareW_fail)
    next
      case False
      have "hoareW (\<lambda>s. (viewed mine past s \<and> folded cfg s) \<and> fst s = w) (lane_tries APPEND_RETRIES cfg st opId
          (case verdict of Some v \<Rightarrow> v | None \<Rightarrow> (\<lambda>p. retW (p, None))) p)
        (\<lambda>(n, b) s. found mine past n s \<and> folded cfg s) (\<lambda>_. once mine past)"
        by (rule hoareW_pre [OF tries]) blast+
      then show ?thesis using False by simp
    qed
  qed
qed

end

section \<open>The in-memory store as a lane store\<close>

definition im_lane_store :: "string \<Rightarrow> (inmemory_store \<Rightarrow> string) \<Rightarrow> inmemory_store lane_store" where
  "im_lane_store runId clock = \<lparr>
     ls_append = (\<lambda>e _ s. im_append runId e s), ls_load = (\<lambda>s. (s, Inr (im_load runId s))),
     ls_leases = None, ls_fencedWrites = False, ls_generation = None, ls_now = clock \<rparr>"

lemma im_append_keeps_order:
  assumes "im_append r e s = (s', u)" "seqs_increasing (im_load r s)"
  shows "seqs_increasing (im_load r s')"
  by (rule im.append_increasing [OF assms])

interpretation mem: contended_log "im_lane_store runId clock" "im_load runId" opId
proof
  fix e :: journal_entry and l and w w' :: inmemory_store and r u
  show "seqs_increasing (im_load runId w') \<and> (\<exists>os. im_load runId w' = im_load runId w @ os \<and> carriers opId os = [])
      \<and> (\<forall>es. r = Inr es \<longrightarrow> es = im_load runId w')"
    if "ls_load (im_lane_store runId clock) w = (w', r)" "seqs_increasing (im_load runId w)"
    using that by (auto simp: im_lane_store_def)
  show "seqs_increasing (im_load runId w')
      \<and> ((\<exists>os os'. im_load runId w' = im_load runId w @ os @ e # os' \<and> carriers opId (os @ os') = [])
         \<or> u \<noteq> Inr () \<and> (\<exists>os. im_load runId w' = im_load runId w @ os \<and> carriers opId os = []))"
    if call: "ls_append (im_lane_store runId clock) e l w = (w', u)" and inc: "seqs_increasing (im_load runId w)"
  proof -
    have a: "im_append runId e w = (w', u)" using call by (simp add: im_lane_store_def)
    show ?thesis
    proof (cases u)
      case (Inl err)
      then show ?thesis using im_append_keeps_order [OF a inc] im.append_rejected [of runId e w w' err] a by auto
    next
      case (Inr v)
      then have "im_load runId w' = im_load runId w @ [] @ e # []" using im.append_ok [of runId e w w' v] a by simp
      then show ?thesis using im_append_keeps_order [OF a inc] by (metis append_Nil carriers_simps(1))
    qed
  qed
qed

section \<open>Progress under bounded contention\<close>

definition readable :: "validator \<Rightarrow> journal_entry list \<Rightarrow> bool" where
  "readable validate es \<longleftrightarrow> (\<exists>F. new_lane_fold validate es None = Inr F)"

lemma readable_decision:
  assumes "seqs_increasing (es @ [e])" "readable validate es" "je_kind e = K_decision"
  shows "readable validate (es @ [e])"
proof -
  obtain f where "new_fold validate es = Inr f" using assms(2) by (auto simp: readable_def new_lane_fold_Inr)
  then obtain g where "foldR (fold_entry validate) (foldl index_entry empty_fold (es @ [e])) es = Inr g"
    using new_fold_snoc(1) [OF assms(1), of validate] by (auto elim: rel_sum.cases)
  then have "new_fold validate (es @ [e]) = Inr g"
    using new_fold_snoc(2) [OF assms(1), of validate] assms(3) by (simp add: fold_entry_def)
  then show ?thesis by (auto simp: readable_def new_lane_fold_Inr)
qed

text \<open>
  A store on which an append behind the current tail fails only by losing that tail to another
  holder, at most \<open>losses\<close> times from here on, or with its acknowledgement lost, and whose journal
  always folds.
\<close>

locale bounded_contention = contended_log st log opId
  for st :: "'w lane_store" and log opId +
  fixes validate :: validator
    and losses :: "'w \<Rightarrow> nat"
  assumes load_returns: "seqs_increasing (log w) \<Longrightarrow> readable validate (log w) \<Longrightarrow>
      \<exists>w'. ls_load st w = (w', Inr (log w')) \<and> losses w' \<le> losses w \<and> readable validate (log w')"
    and append_fails: "ls_append st e l w = (w', Inl err) \<Longrightarrow> seqs_increasing (log w) \<Longrightarrow> readable validate (log w) \<Longrightarrow>
      je_kind e = K_decision \<Longrightarrow> \<forall>x\<in>set (log w). je_seq x < je_seq e \<Longrightarrow>
      err \<noteq> LeaseHeldError \<and> readable validate (log w')
      \<and> (e \<in> set (log w') \<or> (\<exists>n. err = JournalOrderViolation n) \<and> losses w' < losses w)"
begin

definition calm :: "nat \<Rightarrow> 'w \<Rightarrow> bool" where
  "calm k w \<longleftrightarrow> seqs_increasing (log w) \<and> readable validate (log w) \<and> losses w < k"

lemma reload_returns:
  assumes "lc_validate cfg = validate" "calm k (snd s)"
  shows "\<exists>s'. reload cfg st s = (s', Inr ()) \<and> calm k (snd s') \<and> lw_entries (fst s') = log (snd s')
    \<and> lw_closed (fst s') = lw_closed (fst s) \<and> (\<exists>os. log (snd s') = log (snd s) @ os)"
proof -
  obtain w' where w': "ls_load st (snd s) = (w', Inr (log w'))" "losses w' \<le> losses (snd s)" "readable validate (log w')"
    using load_returns assms(2) unfolding calm_def by blast
  moreover have "seqs_increasing (log w')" "\<exists>os. log w' = log (snd s) @ os"
    using load_law [OF w'(1)] assms(2) unfolding calm_def by blast+
  moreover obtain F where "new_lane_fold validate (log w') None = Inr F" using w'(3) by (auto simp: readable_def)
  ultimately show ?thesis
    using assms by (auto simp: reload_def bindW_def callW_def updateW_def ofW_def calm_def)
qed

lemma append_at_tail_calm:
  assumes "lc_validate cfg = validate" "calm k (snd s)" "lw_entries (fst s) = log (snd s)"
    and "append_at_tail cfg st opId p s = (s', Inl err)" and p: "opt_member (Some p) ''opId'' = Some (JStr opId)"
  shows "err \<noteq> LeaseHeldError \<and> seqs_increasing (log (snd s')) \<and> readable validate (log (snd s'))
    \<and> (carriers opId (log (snd s')) \<noteq> [] \<or> (\<exists>n. err = JournalOrderViolation n) \<and> losses (snd s') < losses (snd s))"
proof -
  let ?n = "nat (tail_seq (lw_entries (fst s)) + 1)"
  let ?e = "template (ls_now st (snd s)) ?n opId p"
  have e: "je_seq ?e = ?n" "je_kind ?e = K_decision" "carries_opId opId ?e" using p by (simp_all add: template_def carries_opId_def)
  have after: "\<forall>x\<in>set (log (snd s)). je_seq x < je_seq ?e" using next_position assms(3) e(1) by simp
  have inc: "seqs_increasing (log (snd s))" "readable validate (log (snd s))" using assms(2) by (simp_all add: calm_def)
  have "seqs_increasing (log (snd s) @ [?e])" using inc(1) after by (simp add: seqs_increasing_snoc)
  then obtain F where F: "new_lane_fold validate (lw_entries (fst s) @ [?e]) None = Inr F"
    using readable_decision inc(2) e(2) assms(3) unfolding readable_def by metis
  obtain w' u where call: "ls_append st ?e (lw_lease (fst s)) (snd s) = (w', u)" by fastforce
  have unfold: "append_at_tail cfg st opId p s = (case u of Inl err \<Rightarrow> ((fst s, w'), Inl err)
      | Inr _ \<Rightarrow> (((fst s)\<lparr> lw_entries := lw_entries (fst s) @ [?e], lw_fold := F \<rparr>, w'), Inr (?n, False)))"
    using call F assms(1)
    by (auto simp: append_at_tail_def bindW_def callW_def updateW_def selfW_def ofW_def retW_def Let_def
        case_prod_beta split: sum.split)
  then have u: "u = Inl err" "snd s' = w'" using assms(4) by (auto split: sum.splits)
  have "carriers opId (log w') \<noteq> []" if "?e \<in> set (log w')" using that e(3) by (auto simp: carriers_def filter_empty_conv)
  then show ?thesis
    using append_fails [OF call [unfolded u] inc e(2) after] append_law [OF call inc(1)] u by auto
qed

lemma lane_tries_return:
  assumes "lc_validate cfg = validate" "opt_member (Some p) ''opId'' = Some (JStr opId)"
  shows "calm n (snd s) \<Longrightarrow> lw_entries (fst s) = log (snd s) \<Longrightarrow>
    \<exists>s' a. lane_tries n cfg st opId (\<lambda>p. retW (p, None)) p s = (s', Inr a)"
proof (induction n arbitrary: s)
  case 0
  then show ?case by (simp add: calm_def)
next
  case (Suc n)
  let ?next = "lane_tries n cfg st opId (\<lambda>p. retW (p, None)) p"
  show ?case
  proof (cases "findOpId opId (lw_entries (fst s))")
    case (Some k)
    then show ?thesis by (auto simp: bindW_def selfW_def retW_def)
  next
    case None
    then have unfold: "lane_tries (Suc n) cfg st opId (\<lambda>p. retW (p, None)) p s
        = catchW (append_at_tail cfg st opId p) (append_failed cfg st opId ?next) s"
      by (simp add: bindW_def selfW_def retW_def)
    obtain t r where t: "append_at_tail cfg st opId p s = (t, r)" by fastforce
    show ?thesis
    proof (cases r)
      case (Inr a)
      then show ?thesis unfolding unfold using t by (auto simp: catchW_def)
    next
      case (Inl err)
      note failed = append_at_tail_calm [OF assms(1) Suc.prems t [unfolded Inl] assms(2)]
      have "calm (Suc (losses (snd t))) (snd t)" using failed by (simp add: calm_def)
      from reload_returns [OF assms(1) this] obtain v where v: "reload cfg st t = (v, Inr ())"
          "calm (Suc (losses (snd t))) (snd v)" "lw_entries (fst v) = log (snd v)" "\<exists>os. log (snd v) = log (snd t) @ os"
        by blast
      have unfold2: "append_failed cfg st opId ?next err t = (case findOpId opId (lw_entries (fst v)) of
          Some landed \<Rightarrow> (v, Inr (landed, False)) | None \<Rightarrow> (case err of JournalOrderViolation _ \<Rightarrow> ?next v | _ \<Rightarrow> (v, Inl err)))"
        using failed v(1) by (auto simp: append_failed_def bindW_def selfW_def retW_def failW_def split: option.split rulvar_error.split)
      show ?thesis
      proof (cases "findOpId opId (lw_entries (fst v))")
        case (Some k)
        then show ?thesis unfolding unfold using unfold2 t Inl by (auto simp: catchW_def)
      next
        case None
        then have "carriers opId (log (snd t)) = []" using v(3,4) by (auto simp: findOpId_None)
        then obtain m where m: "err = JournalOrderViolation m" "losses (snd t) < losses (snd s)" using failed by blast
        then have "calm n (snd v)" using v(2) Suc.prems(1) by (auto simp: calm_def)
        with Suc.IH v(3) show ?thesis unfolding unfold using unfold2 t Inl None m(1) by (auto simp: catchW_def)
      qed
    qed
  qed
qed

end

text \<open>The in-memory store has one holder: an append behind its tail is never lost.\<close>

interpretation mem_calm: bounded_contention "im_lane_store runId clock" "im_load runId" opId validate "\<lambda>_. 0"
proof
  fix e :: journal_entry and l and w w' :: inmemory_store and err
  show "\<exists>w'. ls_load (im_lane_store runId clock) w = (w', Inr (im_load runId w')) \<and> (0::nat) \<le> 0 \<and> readable validate (im_load runId w')"
    if "readable validate (im_load runId w)"
    using that by (auto simp: im_lane_store_def)
  show "err \<noteq> LeaseHeldError \<and> readable validate (im_load runId w')
      \<and> (e \<in> set (im_load runId w') \<or> (\<exists>n. err = JournalOrderViolation n) \<and> (0::nat) < 0)"
    if "ls_append (im_lane_store runId clock) e l w = (w', Inl err)" "\<forall>x\<in>set (im_load runId w). je_seq x < je_seq e"
    using that last_in_set [of "im_load runId w"]
    by (fastforce simp: im_lane_store_def im_append_def im_load_def run_entries_def Let_def split: if_splits)
qed

section \<open>Properties of the append\<close>

text \<open>An operation submitted again and again, each time from a fresh load.\<close>

definition submit ::
  "lane_config \<Rightarrow> 'w lane_store \<Rightarrow> string \<Rightarrow> json \<Rightarrow> 'w lane_verdict option \<Rightarrow> ('w, nat \<times> bool) lane_op" where
  "submit cfg st opId p verdict = bindW (reload cfg st) (\<lambda>_. laneAppend cfg st opId p verdict)"

primrec resubmit ::
  "nat \<Rightarrow> lane_config \<Rightarrow> 'w lane_store \<Rightarrow> string \<Rightarrow> json \<Rightarrow> 'w lane_verdict option \<Rightarrow> 'w lane_state \<Rightarrow> 'w lane_state" where
  "resubmit 0 cfg st opId p verdict s = s"
| "resubmit (Suc k) cfg st opId p verdict s = resubmit k cfg st opId p verdict (fst (submit cfg st opId p verdict s))"

definition names_opId :: "string \<Rightarrow> json \<Rightarrow> bool" where
  "names_opId opId p \<longleftrightarrow> member_of p ''opId'' = Some (JStr opId)"

lemma template_carries: "names_opId opId p \<Longrightarrow> carries_opId opId (template t n opId p)"
  by (simp add: names_opId_def carries_opId_def template_def)

lemma submit_once:
  assumes "contended_log st journal opId"
    and "\<And>t n p. good p \<Longrightarrow> mine (template t n opId p) \<and> carries_opId opId (template t n opId p)"
    and "\<And>v. verdict = Some v \<Longrightarrow> sound_verdict good v" and "good p"
  shows "hoareW (contended_log.once journal opId mine past) (submit cfg st opId p verdict)
     (\<lambda>(n, b) s. contended_log.found journal opId mine past n s \<and> contended_log.folded cfg s)
     (\<lambda>_. contended_log.once journal opId mine past)"
  unfolding submit_def
  by (rule hoareW_bind [OF contended_log.reload_once [OF assms(1)]],
      rule hoareW_pre [OF contended_log.laneAppend_once [OF assms]])
    (use contended_log.viewed_fresh [OF assms(1)] in blast)+

lemma submit_step:
  assumes ctx: "contended_log st journal opId" and named: "names_opId opId p"
    and v: "\<forall>v. verdict = Some v \<longrightarrow> sound_verdict (names_opId opId) v"
    and pre: "contended_log.once journal opId (\<lambda>_. True) past s" and call: "submit cfg st opId p verdict s = (t, r)"
  shows "contended_log.once journal opId (\<lambda>_. True) past t"
    and "r = Inr (n, b) \<Longrightarrow> contended_log.found journal opId (\<lambda>_. True) past n t"
proof -
  have one: "hoareW (contended_log.once journal opId (\<lambda>_. True) past) (submit cfg st opId p verdict)
     (\<lambda>(n, b) s. contended_log.found journal opId (\<lambda>_. True) past n s \<and> contended_log.folded cfg s)
     (\<lambda>_. contended_log.once journal opId (\<lambda>_. True) past)"
    by (rule submit_once [OF ctx, of "names_opId opId"]) (use v named template_carries in auto)
  show f: "contended_log.found journal opId (\<lambda>_. True) past n t" if "r = Inr (n, b)" for n b
    using hoareW_Inr [OF one pre call [unfolded that]] by simp
  show "contended_log.once journal opId (\<lambda>_. True) past t"
  proof (cases r)
    case (Inl e)
    then show ?thesis using hoareW_Inl [OF one pre] call by simp
  next
    case (Inr a)
    then show ?thesis
      using f unfolding contended_log.found_def [OF ctx] contended_log.viewed_def [OF ctx] by (cases a) blast
  qed
qed

lemma resubmit_once:
  assumes "contended_log st journal opId" "names_opId opId p" "\<forall>v. verdict = Some v \<longrightarrow> sound_verdict (names_opId opId) v"
  shows "contended_log.once journal opId (\<lambda>_. True) past s \<Longrightarrow>
    contended_log.once journal opId (\<lambda>_. True) past (resubmit k cfg st opId p verdict s)"
proof (induction k arbitrary: s)
  case (Suc k)
  obtain t r where t: "submit cfg st opId p verdict s = (t, r)" by fastforce
  show ?case using Suc.IH [OF submit_step(1) [OF assms Suc.prems t]] t by simp
qed simp

lemma submit_found:
  assumes "contended_log st journal opId" "names_opId opId p" "\<forall>v. verdict = Some v \<longrightarrow> sound_verdict (names_opId opId) v"
    and "contended_log.once journal opId (\<lambda>_. True) past s" "submit cfg st opId p verdict s = (t, Inr (n, b))"
  shows "\<exists>e. carriers opId (journal (snd t)) = [e] \<and> je_seq e = n"
proof -
  note after = submit_step [OF assms]
  obtain e where e: "e \<in> set (journal (snd t))" "carries_opId opId e" "je_seq e = n"
    using after(2) [OF refl] unfolding contended_log.found_def [OF assms(1)] contended_log.viewed_def [OF assms(1)] by fastforce
  then have "e \<in> set (carriers opId (journal (snd t)))" by (simp add: carriers_def)
  moreover have "length (carriers opId (journal (snd t))) \<le> 1"
    using after(1) by (simp add: contended_log.once_def [OF assms(1)])
  ultimately have "carriers opId (journal (snd t)) = [e]" by (cases "carriers opId (journal (snd t))") auto
  then show ?thesis using e(3) by blast
qed

text \<open>
  A store with scripted misfortunes for the examples: the next append loses the tail to another
  holder, or commits without an acknowledgement.
\<close>

datatype misfortune = Tail_lost | Ack_lost

definition rival_entry :: "nat \<Rightarrow> journal_entry" where
  "rival_entry n = template ''t'' n ''rival'' (decision_payload ''note'' ''rival'' [])"

fun flaky_append :: "journal_entry \<Rightarrow> journal_entry list \<times> misfortune list \<Rightarrow> (journal_entry list \<times> misfortune list) \<times> unit result" where
  "flaky_append e (es, []) =
     (if list_all (\<lambda>x. je_seq x < je_seq e) es then ((es @ [e], []), Inr ())
      else ((es, []), Inl (JournalOrderViolation (je_seq e))))"
| "flaky_append e (es, Tail_lost # ms) =
     ((es @ [rival_entry (nat (tail_seq es + 1))], ms), Inl (JournalOrderViolation (je_seq e)))"
| "flaky_append e (es, Ack_lost # ms) =
     (if list_all (\<lambda>x. je_seq x < je_seq e) es then ((es @ [e], ms), Inl StoreFailure)
      else ((es, ms), Inl (JournalOrderViolation (je_seq e))))"

definition flaky_store :: "(journal_entry list \<times> misfortune list) lane_store" where
  "flaky_store = \<lparr> ls_append = (\<lambda>e _ w. flaky_append e w), ls_load = (\<lambda>w. (w, Inr (fst w))), ls_leases = None,
     ls_fencedWrites = False, ls_generation = None, ls_now = (\<lambda>_. ''t'') \<rparr>"

lemma rival_sel [simp]: "je_seq (rival_entry n) = n" "je_kind (rival_entry n) = K_decision"
  by (simp_all add: rival_entry_def template_def)

lemma rival_carries: "opId \<noteq> ''rival'' \<Longrightarrow> \<not> carries_opId opId (rival_entry n)"
  by (auto simp: carries_opId_def rival_entry_def template_def decision_payload_def)

lemma seqs_increasing_rival: "seqs_increasing es \<Longrightarrow> seqs_increasing (es @ [rival_entry (nat (tail_seq es + 1))])"
  using next_position by (auto simp: seqs_increasing_snoc)

interpretation flaky: bounded_contention flaky_store fst "''op''" validate "\<lambda>w. length (snd w)"
proof
  fix e :: journal_entry and l and w w' :: "journal_entry list \<times> misfortune list" and u r err
  obtain es ms where w: "w = (es, ms)" by (cases w)
  show "seqs_increasing (fst w') \<and> (\<exists>os. fst w' = fst w @ os \<and> carriers ''op'' os = []) \<and> (\<forall>es. r = Inr es \<longrightarrow> es = fst w')"
    if "ls_load flaky_store w = (w', r)" "seqs_increasing (fst w)"
    using that by (auto simp: flaky_store_def)
  show "seqs_increasing (fst w')
      \<and> ((\<exists>os os'. fst w' = fst w @ os @ e # os' \<and> carriers ''op'' (os @ os') = [])
         \<or> u \<noteq> Inr () \<and> (\<exists>os. fst w' = fst w @ os \<and> carriers ''op'' os = []))"
    if "ls_append flaky_store e l w = (w', u)" "seqs_increasing (fst w)"
  proof (cases "(e, w)" rule: flaky_append.cases)
    case (2 e' es' ms')
    then have w': "fst w' = fst w @ [rival_entry (nat (tail_seq (fst w) + 1))]" "u \<noteq> Inr ()"
      using that(1) by (auto simp: flaky_store_def)
    then show ?thesis using seqs_increasing_rival [OF that(2)] by (auto simp: rival_carries)
  qed (use that in \<open>force simp: flaky_store_def seqs_increasing_snoc list_all_iff split: if_splits\<close>)+
  show "\<exists>w'. ls_load flaky_store w = (w', Inr (fst w')) \<and> length (snd w') \<le> length (snd w) \<and> readable validate (fst w')"
    if "readable validate (fst w)"
    using that by (auto simp: flaky_store_def)
  show "err \<noteq> LeaseHeldError \<and> readable validate (fst w')
      \<and> (e \<in> set (fst w') \<or> (\<exists>n. err = JournalOrderViolation n) \<and> length (snd w') < length (snd w))"
    if call: "ls_append flaky_store e l w = (w', Inl err)" and inc: "seqs_increasing (fst w)"
      and rd: "readable validate (fst w)" and e: "je_kind e = K_decision" "\<forall>x\<in>set (fst w). je_seq x < je_seq e"
  proof (cases "(e, w)" rule: flaky_append.cases)
    case (2 e' es' ms')
    then show ?thesis
      using call readable_decision [OF seqs_increasing_rival [OF inc] rd] by (auto simp: flaky_store_def)
  next
    case (3 e' es' ms')
    moreover have "seqs_increasing (fst w @ [e])" using inc e(2) by (simp add: seqs_increasing_snoc)
    ultimately show ?thesis
      using call readable_decision [OF _ rd e(1)] e(2) by (auto simp: flaky_store_def list_all_iff)
  qed (use call e(2) in \<open>auto simp: flaky_store_def list_all_iff\<close>)
qed

definition quiet_config :: lane_config where
  "quiet_config = \<lparr> lc_owner = ''effect-lane'', lc_singleProcess = True, lc_validate = accepts_all, lc_refusalText = (\<lambda>_. ''refused'') \<rparr>"

definition fresh_writer :: lane_writer where
  "fresh_writer = \<lparr> lw_lease = None, lw_entries = [], lw_fold = empty_lane empty_fold, lw_opened = True, lw_closed = False \<rparr>"

definition note_payload :: json where
  "note_payload = decision_payload ''effect_epoch'' ''op'' [(''generation'', JStr ''g'')]"

lemma note_names: "names_opId ''op'' note_payload"
  by (simp add: names_opId_def note_payload_def decision_payload_def)

text \<open>C10. However often an operation is submitted to the effect lane, with other holders appending in
  between, with acknowledgements lost and with any errors, the journal only grows and holds the
  operation at most once; and a submission that returns names the position of that one entry.\<close>

theorem lane_append_once:
  assumes "contended_log st journal opId"
    and "seqs_increasing (journal (snd s))" "length (carriers opId (journal (snd s))) \<le> 1"
    and "names_opId opId p" "\<forall>v. verdict = Some v \<longrightarrow> sound_verdict (names_opId opId) v"
    and "submit cfg st opId p verdict (resubmit k cfg st opId p verdict s) = (s', r)"
  shows "(\<exists>os. journal (snd s') = journal (snd s) @ os) \<and> length (carriers opId (journal (snd s'))) \<le> 1
    \<and> (\<forall>n replayed. r = Inr (n, replayed) \<longrightarrow> (\<exists>e. carriers opId (journal (snd s')) = [e] \<and> je_seq e = n))"
proof -
  let ?past = "journal (snd s)"
  let ?once = "contended_log.once journal opId (\<lambda>_. True) ?past"
  have "?once s" using assms(2,3) by (simp add: contended_log.once_def [OF assms(1)])
  then have "?once (resubmit k cfg st opId p verdict s)" by (rule resubmit_once [OF assms(1,4,5)])
  from submit_step(1) [OF assms(1,4,5) this assms(6)] submit_found [OF assms(1,4,5) this] assms(6)
  show ?thesis unfolding contended_log.once_def [OF assms(1)] by blast
qed

theorem lane_append_once_witness:
  "\<exists>s' r. submit quiet_config flaky_store ''op'' note_payload None
       (resubmit 2 quiet_config flaky_store ''op'' note_payload None (fresh_writer, ([], [Tail_lost, Ack_lost]))) = (s', r)
     \<and> length (carriers ''op'' (fst (snd s'))) \<le> 1"
proof -
  let ?s = "(fresh_writer, ([], [Tail_lost, Ack_lost]))"
  obtain s' r where c: "submit quiet_config flaky_store ''op'' note_payload None
      (resubmit 2 quiet_config flaky_store ''op'' note_payload None ?s) = (s', r)" by fastforce
  have "seqs_increasing (fst (snd ?s))" "length (carriers ''op'' (fst (snd ?s))) \<le> 1" by (simp_all add: seqs_increasing_def)
  from lane_append_once [OF flaky.contended_log_axioms this note_names _ c] c show ?thesis by blast
qed

text \<open>C12. An append makes progress: when the store loses at most seven tails to other holders and
  otherwise fails only by losing acknowledgements, an open writer's submission returns, and the
  journal then holds the operation exactly once, at the position returned.\<close>

theorem lane_append_lands:
  assumes "bounded_contention st journal opId validate losses"
    and "lc_validate cfg = validate" "\<not> lw_closed (fst s)" "names_opId opId p"
    and "seqs_increasing (journal (snd s))" "readable validate (journal (snd s))"
    and "length (carriers opId (journal (snd s))) \<le> 1" "losses (snd s) < APPEND_RETRIES"
  shows "\<exists>s' n replayed e. submit cfg st opId p None s = (s', Inr (n, replayed))
    \<and> carriers opId (journal (snd s')) = [e] \<and> je_seq e = n"
proof -
  note ctx = bounded_contention.axioms(1) [OF assms(1)]
  let ?once = "contended_log.once journal opId (\<lambda>_. True) (journal (snd s))"
  have "?once s" using assms(5,7) by (simp add: contended_log.once_def [OF ctx])
  have "bounded_contention.calm journal validate losses APPEND_RETRIES (snd s)"
    using assms(5,6,8) by (simp add: bounded_contention.calm_def [OF assms(1)])
  from bounded_contention.reload_returns [OF assms(1,2) this] obtain t where t: "reload cfg st s = (t, Inr ())"
      "bounded_contention.calm journal validate losses APPEND_RETRIES (snd t)" "lw_entries (fst t) = journal (snd t)"
      "\<not> lw_closed (fst t)"
    using assms(3) by blast
  have "opt_member (Some p) ''opId'' = Some (JStr opId)" using assms(4) by (simp add: names_opId_def)
  from bounded_contention.lane_tries_return [OF assms(1,2) this t(2,3)]
  obtain s' a where "lane_tries APPEND_RETRIES cfg st opId (\<lambda>p. retW (p, None)) p t = (s', Inr a)" by blast
  then have "submit cfg st opId p None s = (s', Inr a)"
    using t(1,4) by (simp add: submit_def laneAppend_def bindW_def selfW_def)
  moreover obtain n b where "a = (n, b)" by (cases a)
  ultimately have ok: "submit cfg st opId p None s = (s', Inr (n, b))" by simp
  have "\<forall>v. None = Some v \<longrightarrow> sound_verdict (names_opId opId) v" by simp
  from submit_found [OF ctx assms(4) this \<open>?once s\<close> ok] ok show ?thesis by blast
qed

theorem lane_append_lands_witness:
  "\<exists>s' n b e. submit quiet_config flaky_store ''op'' note_payload None (fresh_writer, ([], [Tail_lost, Tail_lost, Ack_lost]))
       = (s', Inr (n, b)) \<and> carriers ''op'' (fst (snd s')) = [e] \<and> je_seq e = n"
proof -
  let ?s = "(fresh_writer, ([], [Tail_lost, Tail_lost, Ack_lost]))"
  have "readable accepts_all []" by (simp add: readable_def new_lane_fold_def new_fold_def)
  moreover have "lc_validate quiet_config = accepts_all" by (simp add: quiet_config_def)
  moreover have "\<not> lw_closed (fst ?s)" by (simp add: fresh_writer_def)
  ultimately show ?thesis
    using lane_append_lands [OF flaky.bounded_contention_axioms [of accepts_all], where cfg = quiet_config and s = ?s and p = note_payload] note_names
    by (simp add: seqs_increasing_def APPEND_RETRIES_def)
qed

end
