(* ===== verification/LaneIntent.thy ===== *)
theory LaneIntent
  imports LaneAppend
begin

text \<open>
  The licence behind an intent the writer of the effect lane reports as recorded
  (\<open>consumeApprovalAndRecordIntent\<close> of \<open>packages/core/src/effects/writer.ts\<close>).
\<close>

section \<open>Where machines come from\<close>

definition originates :: "journal_entry list \<Rightarrow> effect_lane_fold \<Rightarrow> bool" where
  "originates es f \<longleftrightarrow> (\<forall>n m. jm_get (elf_machines f) n = Some m \<longrightarrow>
     em_intentSeq m = n \<and> (\<exists>e\<in>set es. je_seq e = n \<and> (\<exists>op. readEffectLaneDecision e = Lane op (E_intent (em_intent m)))))"

lemma originates_step:
  assumes "originates es f" "e \<in> set es"
  shows "originates es (applyEntry f e)"
  using applyEntry_cases [of f e]
proof (elim disjE)
  assume "epoch_moves f e (applyEntry f e)"
  then show ?thesis using assms(1) by (simp add: originates_def epoch_moves_def)
next
  assume "machine_moves f e (applyEntry f e)"
  then obtain r m m' where m: "jm_get (elf_machines f) r = Some m" "machine_step f e m m'"
      "elf_machines (applyEntry f e) = jm_set (em_intentSeq m') m' (elf_machines f)"
    unfolding machine_moves_def by blast
  have "em_intentSeq m' = em_intentSeq m" "em_intent m' = em_intent m" using machine_step_frame [OF m(2)] by simp_all
  then show ?thesis using assms(1) m(1,3) unfolding originates_def by (auto simp: jm_get_set)
next
  assume "\<exists>opId i. readEffectLaneDecision e = Lane opId (E_intent i) \<and> jm_get (elf_opIds f) opId = None
        \<and> applyEntry f e = applyIntent e i (f\<lparr> elf_opIds := jm_set opId (je_seq e) (elf_opIds f) \<rparr>)"
  then obtain opId i where i: "readEffectLaneDecision e = Lane opId (E_intent i)"
      "applyEntry f e = applyIntent e i (f\<lparr> elf_opIds := jm_set opId (je_seq e) (elf_opIds f) \<rparr>)" by blast
  show ?thesis
    using assms i(1) unfolding i(2) originates_def applyIntent_sel(2)
    by (auto simp: new_machine_def split: option.split)
qed

lemma lane_fold_originates:
  assumes "new_lane_fold validate es None = Inr F" "machineAt F n = Some m"
  shows "\<exists>e\<in>set es. je_seq e = n \<and> (\<exists>op. readEffectLaneDecision e = Lane op (E_intent (em_intent m)))"
proof -
  obtain rf where F: "F = finalize (lane_pass rf es)" using assms(1) by (auto simp: new_lane_fold_Inr)
  have "originates es (foldl applyEntry f xs)" if "originates es f" "set xs \<subseteq> set es" for f xs
    using that by (induction xs arbitrary: f) (simp_all add: originates_step)
  moreover have "originates es (indexed rf es)" by (simp add: originates_def indexed_sel)
  ultimately have "originates es (lane_pass rf es)" by (simp add: lane_pass_def indexed_def)
  moreover obtain u where "machineAt (lane_pass rf es) n = Some u" "core_same u m"
    using assms(2) unfolding F by (rule finalize_back)
  ultimately show ?thesis using core_same_fields [of u m] by (auto simp: originates_def machineAt_def)
qed

lemma consumed_stands:
  assumes "seqs_increasing es" "new_lane_fold validate es None = Inr F" "machineAt F n = Some m" "em_consumed m"
  shows "\<exists>rf. new_fold validate es = Inr rf
    \<and> approval_stands es rf (ei_approvalRef (em_intent m)) n (ei_logicalKey (em_intent m))"
proof -
  obtain rf where rf: "new_fold validate es = Inr rf" "F = finalize (lane_pass rf es)"
    using assms(2) by (auto simp: new_lane_fold_Inr)
  obtain p where inv: "lane_inv p (lane_pass rf es)" using lane_inv_lane_pass [OF assms(1)] by blast
  have "view F n = Some (True, em_intent m)" using assms(3,4) by (simp add: view_def machineAt_def)
  then have "entitled F n (em_intent m)"
    using inv unfolding rf(2) finalize_view finalize_entitled lane_inv_def by blast
  then have "licensed F (ei_approvalRef (em_intent m)) n (ei_logicalKey (em_intent m))" by (simp add: entitled_def)
  then show ?thesis
    using licensed_stands [OF assms(1) rf(1) lane_pass_same_indexes] rf unfolding rf(2) by blast
qed

section \<open>What the writer writes the reader reads\<close>

definition intent_of :: "effect_intent_spec \<Rightarrow> nat \<Rightarrow> effect_intent" where
  "intent_of spec epochRef = \<lparr> ei_opId = is_opId spec, ei_logicalKey = is_logicalKey spec, ei_approvalRef = is_approvalRef spec,
     ei_epochRef = epochRef, ei_effectClass = is_effectClass spec, ei_capabilityRow = is_capabilityRow spec,
     ei_lookupQualification = map_option (\<lambda>q. JStr (lookupQualification_text q)) (is_lookupQualification spec),
     ei_argumentsHash = is_argumentsHash spec, ei_artifactHash = map_option JStr (is_artifactHash spec),
     ei_configFingerprint = map_option JStr (is_configFingerprint spec), ei_budgets = is_budgets spec,
     ei_compensates = is_compensates spec, ei_successorOf = is_successorOf spec \<rparr>"

lemma map_of_given:
  "map_of (given name f v @ rest) k = (if k = name \<and> v \<noteq> None then Some (f (the v)) else map_of rest k)"
  "map_of (given name f v) k = (if k = name \<and> v \<noteq> None then Some (f (the v)) else None)"
  by (cases v; simp add: given_def)+

lemma budgets_members:
  "asRecord (Some (budgets_json b)) = Some (budgets_json b)"
  "member_of (budgets_json b) ''attempts'' = Some (JSeq (eb_attempts b))"
  "member_of (budgets_json b) ''lookups'' = Some (JSeq (eb_lookups b))"
  "member_of (budgets_json b) ''receiptWaitMs'' = Some (JNum (eb_receiptWaitMs b))"
  "member_of (budgets_json b) ''authorizationWaitMs'' = map_option JNum (eb_authorizationWaitMs b)"
  "member_of (budgets_json b) ''reconcileBy'' = Some (JStr (eb_reconcileBy b))"
  by (cases "eb_authorizationWaitMs b"; simp add: budgets_json_def map_of_given del: map_of_append)+

lemma intent_members:
  "member_of (intent_payload spec ep) ''decisionType'' = Some (JStr ''effect_intent'')"
  "member_of (intent_payload spec ep) ''opId'' = Some (JStr (is_opId spec))"
  "member_of (intent_payload spec ep) ''logicalKey'' = Some (JStr (is_logicalKey spec))"
  "member_of (intent_payload spec ep) ''approvalRef'' = Some (JSeq (is_approvalRef spec))"
  "member_of (intent_payload spec ep) ''epochRef'' = Some (JNum (of_int ep))"
  "member_of (intent_payload spec ep) ''effectClass'' = Some (JStr (effectClass_text (is_effectClass spec)))"
  "member_of (intent_payload spec ep) ''capabilityRow'' = Some (JStr (capabilityRow_text (is_capabilityRow spec)))"
  "member_of (intent_payload spec ep) ''lookupQualification'' = map_option (\<lambda>q. JStr (lookupQualification_text q)) (is_lookupQualification spec)"
  "member_of (intent_payload spec ep) ''argumentsHash'' = Some (JStr (is_argumentsHash spec))"
  "member_of (intent_payload spec ep) ''artifactHash'' = map_option JStr (is_artifactHash spec)"
  "member_of (intent_payload spec ep) ''configFingerprint'' = map_option JStr (is_configFingerprint spec)"
  "member_of (intent_payload spec ep) ''budgets'' = Some (budgets_json (is_budgets spec))"
  "member_of (intent_payload spec ep) ''compensates'' = map_option JSeq (is_compensates spec)"
  "member_of (intent_payload spec ep) ''successorOf'' = map_option JSeq (is_successorOf spec)"
  by (simp add: intent_payload_def decision_payload_def map_of_given option.map_sel map_option_case split: option.split
      del: map_of_append)+

lemma text_inverse:
  "isEffectClass (Some (JStr (effectClass_text c))) = Some c"
  "isCapabilityRow (Some (JStr (capabilityRow_text r))) = Some r"
  by (cases c; simp add: isEffectClass_def one_of_def effectClass_text_def name_in_def)
    (cases r; simp add: isCapabilityRow_def one_of_def capabilityRow_text_def name_in_def)

lemma as_seq_JSeq [simp]: "as_seq (Some (JSeq n)) = Some n"
  by (simp add: JSeq_def)

lemma nonEmptyString_Some [simp]: "nonEmptyString (Some (JStr s)) = Some t \<longleftrightarrow> t = s \<and> s \<noteq> []"
  by (auto simp: nonEmptyString_def)

lemma non_negative_Some [simp]: "non_negative (Some (JNum q)) = Some r \<longleftrightarrow> r = q \<and> 0 \<le> q"
  by (auto simp: non_negative_def)

lemma isBudgets_json: "isBudgets (Some (budgets_json b)) = Some c \<Longrightarrow> c = b"
  by (cases "eb_authorizationWaitMs b")
    (auto simp: isBudgets_def budgets_members isPositiveInt_def bind_eq_Some_conv optionally_def split: if_splits)

lemma optionally_seq: "optionally as_seq (map_option JSeq v) = Some v"
  by (cases v) (simp_all add: optionally_def)

lemma as_seq_of_int: "as_seq (Some (JNum (of_int (int n)))) = Some n"
  by (simp add: as_seq_def)

lemma read_intent_payload:
  assumes "readEffectLaneDecision (template t n opId (intent_payload spec (int ep))) = Lane op (E_intent i)"
  shows "op = is_opId spec" "i = intent_of spec ep"
proof -
  let ?p = "intent_payload spec (int ep)"
  have r: "read_intent (is_opId spec) ?p = Some (E_intent i) \<and> op = is_opId spec"
    using assms intent_members(1,2) [of spec "int ep"]
    by (auto simp: readEffectLaneDecision_def template_def read_payload_def EFFECT_LANE_DECISION_TYPES_def nonEmptyString_def
        split: option.splits if_splits)
  then show "op = is_opId spec" by blast
  obtain b where b: "isBudgets (Some (budgets_json (is_budgets spec))) = Some b"
    using r unfolding read_intent_def intent_members by (auto simp: bind_eq_Some_conv)
  show "i = intent_of spec ep"
    using r b isBudgets_json [OF b] unfolding read_intent_def intent_members optionally_seq text_inverse as_seq_of_int as_seq_JSeq
    by (auto simp: intent_of_def bind_eq_Some_conv split: if_splits)
qed

section \<open>Recording an intent\<close>

definition asks :: "effect_intent_spec \<Rightarrow> json \<Rightarrow> bool" where
  "asks spec p \<longleftrightarrow> (\<exists>ep. p = intent_payload spec ep)"

definition asked :: "effect_intent_spec \<Rightarrow> journal_entry \<Rightarrow> bool" where
  "asked spec e \<longleftrightarrow> (\<exists>t n p. asks spec p \<and> e = template t n (is_opId spec) p)"

lemma asked_template:
  "asks spec p \<Longrightarrow> asked spec (template t n (is_opId spec) p) \<and> carries_opId (is_opId spec) (template t n (is_opId spec) p)"
  using intent_members(2) by (auto simp: asked_def asks_def carries_opId_def template_def)

lemma intent_verdict_sound: "sound_verdict (asks spec) (intent_verdict cfg st spec)"
proof -
  have "intent_verdict cfg st spec p s = (s, snd (intent_verdict cfg st spec p s))
      \<and> (\<forall>p' why. asks spec p \<and> snd (intent_verdict cfg st spec p s) = Inr (p', why) \<longrightarrow> asks spec p')" for p s
    by (cases s)
      (auto simp: intent_verdict_def retW_def bindW_def ofW_def asks_def Let_def split: option.split sum.split)
  then show ?thesis unfolding sound_verdict_def by (metis fst_conv)
qed

lemma record_intent_recorded:
  assumes "contended_log st journal (is_opId spec)"
  shows "hoareW (\<lambda>s. contended_log.viewed journal (is_opId spec) (asked spec) past s \<and> contended_log.folded cfg s)
     (record_intent cfg st spec)
     (\<lambda>(n, m, b) s. contended_log.found journal (is_opId spec) (asked spec) past n s \<and> contended_log.folded cfg s
        \<and> machineAt (lw_fold (fst s)) n = Some m \<and> em_consumed m) (\<lambda>_ _. True)"
  unfolding record_intent_def
proof (rule hoareW_self, rule hoareW_bind)
  let ?P = "\<lambda>s. contended_log.viewed journal (is_opId spec) (asked spec) past s \<and> contended_log.folded cfg s"
  let ?R = "\<lambda>(n, b) s. contended_log.found journal (is_opId spec) (asked spec) past n s \<and> contended_log.folded cfg s"
  show "hoareW (\<lambda>s. ?P s \<and> fst s = w)
      (laneAppend cfg st (is_opId spec)
        (intent_payload spec (case currentEpoch (lw_fold w) of Some epoch \<Rightarrow> int (ep_seq epoch) | None \<Rightarrow> - 1))
        (Some (intent_verdict cfg st spec))) ?R (\<lambda>_ _. True)" for w
  proof (rule hoareW_pre [OF hoareW_post [OF contended_log.laneAppend_once [OF assms, of "asks spec"]]])
    show "asks spec (intent_payload spec (case currentEpoch (lw_fold w) of Some epoch \<Rightarrow> int (ep_seq epoch) | None \<Rightarrow> - 1))"
      by (auto simp: asks_def)
  qed (use asked_template intent_verdict_sound in auto)
  show "hoareW (?R a) (case a of (sq, replayed) \<Rightarrow> bindW selfW (\<lambda>w. case machineAt (lw_fold w) sq of
          None \<Rightarrow> refuseW Intent_folded_void
        | Some m \<Rightarrow> if \<not> em_consumed m then refuseW Intent_folded_void else retW (sq, m, replayed)))
      (\<lambda>(n, m, b) s. contended_log.found journal (is_opId spec) (asked spec) past n s \<and> contended_log.folded cfg s
        \<and> machineAt (lw_fold (fst s)) n = Some m \<and> em_consumed m) (\<lambda>_ _. True)" for a
    by (rule hoareW_I)
      (auto simp: bindW_def selfW_def refuseW_def failW_def retW_def split: prod.splits option.splits if_splits)
qed

lemma intake_passed:
  assumes "intakeApproval cfg st spec s = (s', Inr u)"
  shows "s' = s" "\<exists>a\<in>set (lw_entries (fst s)). je_seq a = is_approvalRef spec \<and> je_kind a = K_approval \<and> je_deadlineAt a \<noteq> None"
proof -
  obtain a where a: "List.find (\<lambda>e. je_seq e = is_approvalRef spec) (lw_entries (fst s)) = Some a"
      "je_kind a = K_approval" "je_deadlineAt a \<noteq> None" "intake_expiry cfg st spec s = (s', Inr u)"
    using assms by (auto simp: intakeApproval_def bindW_def selfW_def refuseW_def failW_def split: option.splits if_splits)
  then show "\<exists>a\<in>set (lw_entries (fst s)). je_seq a = is_approvalRef spec \<and> je_kind a = K_approval \<and> je_deadlineAt a \<noteq> None"
    using find_Some_in [OF a(1)] by blast
  show "s' = s"
    using a(4)
    by (cases s) (auto simp: intake_expiry_def retW_def bindW_def refuseW_def failW_def Let_def
        split: option.splits if_splits prod.splits sum.splits)
qed

lemma give_up_never_returns: "give_up cfg st spec thrown s \<noteq> (s', Inr a)"
  by (auto simp: give_up_def bindW_def failW_def Let_def split: rulvar_error.splits lane_rule.splits prod.splits sum.splits)

lemma asked_read:
  assumes "asked spec e" "readEffectLaneDecision e = Lane op (E_intent i)"
  shows "\<exists>ep. i = intent_of spec ep \<and> op = is_opId spec"
proof -
  obtain t n ep where e: "e = template t n (is_opId spec) (intent_payload spec ep)" using assms(1) by (auto simp: asked_def asks_def)
  show ?thesis
  proof (cases "0 \<le> ep")
    case True
    then have "ep = int (nat ep)" by simp
    then show ?thesis using read_intent_payload assms(2) e by metis
  next
    case False
    then have "read_intent (is_opId spec) (intent_payload spec ep) = None"
      unfolding read_intent_def intent_members by (auto simp: as_seq_def bind_eq_None_conv)
    then have False
      using assms(2) intent_members(1,2) [of spec ep] unfolding e
      by (auto simp: readEffectLaneDecision_def template_def read_payload_def EFFECT_LANE_DECISION_TYPES_def
          nonEmptyString_def split: option.splits if_splits)
    then show ?thesis ..
  qed
qed

lemma assertRestorationCurrent_kept:
  assumes "assertRestorationCurrent st s = (s', Inr u)" "\<forall>g w. ls_generation st = Some g \<longrightarrow> journal (fst (g w)) = journal w"
  shows "fst s' = fst s" "journal (snd s') = journal (snd s)"
  using assms
  by (auto simp: assertRestorationCurrent_def bindW_def callW_def selfW_def retW_def refuseW_def failW_def
      split: option.splits prod.splits sum.splits if_splits) (metis fst_conv)+

lemma consume_steps:
  assumes "consumeApprovalAndRecordIntent cfg st spec s = (s', Inr (n, m, False))"
  shows "\<exists>s1 s2. reload cfg st s = (s1, Inr ()) \<and> assertRestorationCurrent st s1 = (s2, Inr ())
    \<and> intakeApproval cfg st spec s2 = (s2, Inr ()) \<and> record_intent cfg st spec s2 = (s', Inr (n, m, False))"
proof -
  let ?rest = "\<lambda>w. case findOpId (is_opId spec) (lw_entries w) of
       Some existing \<Rightarrow> (case machineAt (lw_fold w) existing of None \<Rightarrow> refuseW Operation_id_collision | Some m \<Rightarrow> retW (existing, m, True))
     | None \<Rightarrow> bindW (intakeApproval cfg st spec) (\<lambda>_. catchW (record_intent cfg st spec) (give_up cfg st spec))"
  obtain s1 s2 where s: "reload cfg st s = (s1, Inr ())" "assertRestorationCurrent st s1 = (s2, Inr ())"
      "?rest (fst s2) s2 = (s', Inr (n, m, False))"
    using assms unfolding consumeApprovalAndRecordIntent_def
    by (auto elim!: bindW_cases simp: selfW_def)
  then have "bindW (intakeApproval cfg st spec) (\<lambda>_. catchW (record_intent cfg st spec) (give_up cfg st spec)) s2
      = (s', Inr (n, m, False))"
    by (auto simp: refuseW_def failW_def retW_def split: option.splits)
  then obtain s3 where s3: "intakeApproval cfg st spec s2 = (s3, Inr ())"
      "catchW (record_intent cfg st spec) (give_up cfg st spec) s3 = (s', Inr (n, m, False))"
    by (auto elim: bindW_cases)
  have "record_intent cfg st spec s3 = (s', Inr (n, m, False))"
    using s3(2) by (cases rule: catchW_cases) (simp_all add: give_up_never_returns)
  then show ?thesis using s(1,2) s3(1) intake_passed(1) [OF s3(1)] by blast
qed

text \<open>The one entry behind a machine the writer found.\<close>

lemma found_entry:
  assumes ctx: "contended_log st journal (is_opId spec)"
    and fin: "contended_log.found journal (is_opId spec) (asked spec) past n s" "contended_log.folded cfg s"
      "machineAt (lw_fold (fst s)) n = Some m"
  shows "\<exists>e os ep. carriers (is_opId spec) (journal (snd s)) = [e] \<and> je_seq e = n \<and> journal (snd s) = lw_entries (fst s) @ os
     \<and> readEffectLaneDecision e = Lane (is_opId spec) (E_intent (em_intent m)) \<and> em_intent m = intent_of spec ep"
    and "seqs_increasing (lw_entries (fst s))" "\<exists>ps. journal (snd s) = past @ ps"
    and "new_lane_fold (lc_validate cfg) (lw_entries (fst s)) None = Inr (lw_fold (fst s))"
proof -
  let ?op = "is_opId spec"
  obtain e os where e: "e \<in> set (lw_entries (fst s))" "carries_opId ?op e" "je_seq e = n"
      "journal (snd s) = lw_entries (fst s) @ os" "contended_log.once journal ?op (asked spec) past s"
    using fin(1) unfolding contended_log.found_def [OF ctx] contended_log.viewed_def [OF ctx] by blast
  then have once: "seqs_increasing (journal (snd s))" "length (carriers ?op (journal (snd s))) \<le> 1"
      "\<forall>x\<in>set (carriers ?op (journal (snd s))). asked spec x" "\<exists>ps. journal (snd s) = past @ ps"
    unfolding contended_log.once_def [OF ctx] by blast+
  then show "\<exists>ps. journal (snd s) = past @ ps" by blast
  have in_carriers: "e \<in> set (carriers ?op (journal (snd s)))" using e by (simp add: carriers_def)
  then have one: "carriers ?op (journal (snd s)) = [e]" using once(2) by (cases "carriers ?op (journal (snd s))") auto
  show inc: "seqs_increasing (lw_entries (fst s))"
    using once(1) unfolding e(4) by (simp add: seqs_increasing_def sorted_wrt_append)
  show F: "new_lane_fold (lc_validate cfg) (lw_entries (fst s)) None = Inr (lw_fold (fst s))"
    using fin(2) by (simp add: contended_log.folded_def [OF ctx])
  obtain x op where x: "x \<in> set (lw_entries (fst s))" "je_seq x = n" "readEffectLaneDecision x = Lane op (E_intent (em_intent m))"
    using lane_fold_originates [OF F fin(3)] by blast
  then have "x = e" using e(1,3) seqs_increasing_distinct [OF inc] by (metis by_seq_get option.inject)
  with x(3) asked_read once(3) in_carriers obtain ep where "em_intent m = intent_of spec ep" "op = ?op" by metis
  with one e(3,4) x(3) \<open>x = e\<close> show "\<exists>e os ep. carriers ?op (journal (snd s)) = [e] \<and> je_seq e = n
     \<and> journal (snd s) = lw_entries (fst s) @ os
     \<and> readEffectLaneDecision e = Lane ?op (E_intent (em_intent m)) \<and> em_intent m = intent_of spec ep" by blast
qed

text \<open>C11. An intent the writer reports as newly recorded is licensed and is what was asked for: the
  journal holds exactly one entry of the operation, at the returned position; it reads back as the
  specified intent, the fold of the journal up to there counts it as consumed, the approval named in
  the specification stands there for the specified key, and that approval carries a deadline.\<close>

theorem recorded_intent_licensed:
  assumes "contended_log st journal (is_opId spec)"
    and "\<forall>g w. ls_generation st = Some g \<longrightarrow> journal (fst (g w)) = journal w"
    and "seqs_increasing (journal (snd s))" "carriers (is_opId spec) (journal (snd s)) = []"
    and "consumeApprovalAndRecordIntent cfg st spec s = (s', Inr (n, m, False))"
  shows "(\<exists>e. carriers (is_opId spec) (journal (snd s')) = [e] \<and> je_seq e = n
        \<and> readEffectLaneDecision e = Lane (is_opId spec) (E_intent (em_intent m)))
    \<and> (\<exists>epochRef. em_intent m = intent_of spec epochRef)
    \<and> em_consumed m \<and> (\<exists>os. journal (snd s') = lw_entries (fst s') @ os)
    \<and> (\<exists>rf. new_fold (lc_validate cfg) (lw_entries (fst s')) = Inr rf
        \<and> approval_stands (lw_entries (fst s')) rf (is_approvalRef spec) n (is_logicalKey spec))
    \<and> (\<exists>a\<in>set (journal (snd s')). je_seq a = is_approvalRef spec \<and> je_kind a = K_approval \<and> je_deadlineAt a \<noteq> None)"
proof -
  let ?op = "is_opId spec"
  note ctx = assms(1)
  have once0: "contended_log.once journal ?op (asked spec) (journal (snd s)) s"
    using assms(3,4) by (simp add: contended_log.once_def [OF ctx])
  obtain s1 s2 where s: "reload cfg st s = (s1, Inr ())" "assertRestorationCurrent st s1 = (s2, Inr ())"
      "intakeApproval cfg st spec s2 = (s2, Inr ())" "record_intent cfg st spec s2 = (s', Inr (n, m, False))"
    using consume_steps [OF assms(5)] by blast
  note s1 = hoareW_Inr [OF contended_log.reload_once [OF ctx] once0 s(1)]
  note s2 = assertRestorationCurrent_kept [OF s(2) assms(2)]
  let ?past = "journal (snd s2)"
  have "contended_log.once journal ?op (asked spec) ?past s2"
    using s1 s2 unfolding contended_log.once_def [OF ctx] by simp
  moreover have e2: "lw_entries (fst s2) = ?past" "contended_log.folded cfg s2"
    using s1 unfolding s2 contended_log.folded_def [OF ctx] by auto
  ultimately have "contended_log.viewed journal ?op (asked spec) ?past s2 \<and> contended_log.folded cfg s2"
    using contended_log.viewed_fresh [OF ctx] by blast
  from hoareW_Inr [OF record_intent_recorded [OF ctx] this s(4)]
  have fin: "contended_log.found journal ?op (asked spec) ?past n s'" "contended_log.folded cfg s'"
      "machineAt (lw_fold (fst s')) n = Some m" "em_consumed m"
    by simp_all
  note entry = found_entry [OF ctx fin(1-3)]
  obtain e os ep where e: "carriers ?op (journal (snd s')) = [e]" "je_seq e = n" "journal (snd s') = lw_entries (fst s') @ os"
     "readEffectLaneDecision e = Lane ?op (E_intent (em_intent m))" "em_intent m = intent_of spec ep"
    using entry(1) by blast
  have "\<exists>rf. new_fold (lc_validate cfg) (lw_entries (fst s')) = Inr rf
      \<and> approval_stands (lw_entries (fst s')) rf (is_approvalRef spec) n (is_logicalKey spec)"
    using consumed_stands [OF entry(2,4) fin(3,4)] e(5) by (simp add: intent_of_def)
  moreover have "\<exists>a\<in>set (journal (snd s')). je_seq a = is_approvalRef spec \<and> je_kind a = K_approval \<and> je_deadlineAt a \<noteq> None"
    using intake_passed(2) [OF s(3)] entry(3) e2(1) by auto
  ultimately show ?thesis using e fin(4) by blast
qed

section \<open>An example\<close>

text \<open>The payment of the fold's example, asked for through the writer.\<close>

definition pay_spec :: effect_intent_spec where
  "pay_spec = \<lparr> is_opId = ''op'', is_logicalKey = ''pay'', is_approvalRef = 2, is_effectClass = Class_monetary,
     is_capabilityRow = Row_idempotency_key, is_lookupQualification = None, is_argumentsHash = ''h'', is_artifactHash = None,
     is_configFingerprint = None, is_budgets = pay_budgets, is_compensates = None, is_successorOf = None \<rparr>"

definition deadline_row :: journal_entry where
  "deadline_row = (approval_row 2)\<lparr> je_deadlineAt := Some ''z'' \<rparr>"

definition asking_journal :: "journal_entry list" where
  "asking_journal = [epoch_row, deadline_row, allow_row]"

definition pay_entry :: journal_entry where
  "pay_entry = template ''t'' 4 ''op'' (intent_payload pay_spec 0)"

lemma pay_entry_sel: "je_seq pay_entry = 4" "je_kind pay_entry = K_decision" "je_status pay_entry = S_ok"
  by (simp_all add: pay_entry_def template_def)

lemma deadline_sel:
  "je_seq deadline_row = 2" "je_kind deadline_row = K_approval" "je_status deadline_row = S_suspended"
  "je_value deadline_row = Some (JObj [(''effectLogicalKey'', JStr ''pay'')])" "je_scope deadline_row = ''''"
  "je_deadlineAt deadline_row = Some ''z''"
  by (simp_all add: deadline_row_def row_sel)

lemma pay_entry_read: "readEffectLaneDecision pay_entry = Lane ''op'' (E_intent (intent_of pay_spec 0))"
  by code_simp

lemma asking_reads:
  "readEffectLaneDecision deadline_row = Not_lane" "readApprovalRevoked deadline_row = None" "readApprovalExpired deadline_row = None"
  "readApprovalRevoked pay_entry = None" "readApprovalExpired pay_entry = None" "approvalLicensedKey deadline_row = Some ''pay''"
  by code_simp+

definition asking_resolutions :: "journal_entry list \<Rightarrow> resolution_fold" where
  "asking_resolutions es = \<lparr>
     rf_targets = [(2, close_by_resolution 3 (JObj [(''decision'', JStr ''allow'')]) (open_target deadline_row))],
     rf_bySeq = map (\<lambda>e. (je_seq e, e)) es, rf_classifications = [(3, Applied)], rf_coveredSeqs = [], rf_coveredPrefixes = [] \<rparr>"

lemma asking_fold:
  "new_fold accepts_all asking_journal = Inr (asking_resolutions asking_journal)"
  "new_fold accepts_all (asking_journal @ [pay_entry]) = Inr (asking_resolutions (asking_journal @ [pay_entry]))"
proof -
  obtain p where p: "je_resolution allow_row = Some p" "rp_value p = JObj [(''decision'', JStr ''allow'')]"
    using row_sel(13) by (cases "je_resolution allow_row") auto
  show "new_fold accepts_all asking_journal = Inr (asking_resolutions asking_journal)"
    "new_fold accepts_all (asking_journal @ [pay_entry]) = Inr (asking_resolutions (asking_journal @ [pay_entry]))"
    by (simp_all add: new_fold_def asking_journal_def asking_resolutions_def row_sel deadline_sel pay_entry_sel index_entry_def
        empty_fold_def fold_entry_def apply_ref_def applyResolution_def ref_target_def isCoveredEntry_def open_target_def
        set_classification_def p close_by_resolution_def Let_def)
qed

lemmas asking_eval = lane_eval asking_journal_def asking_resolutions_def deadline_sel pay_entry_sel pay_entry_read asking_reads
  intent_of_def pay_spec_def

lemma asking_pass:
  "map ep_seq (elf_epochs (lane_pass (asking_resolutions asking_journal) asking_journal)) = [0]"
  "laneClassificationOf (lane_pass (asking_resolutions (asking_journal @ [pay_entry])) (asking_journal @ [pay_entry])) 4 = Some L_applied"
  "map_option em_consumed (machineAt (lane_pass (asking_resolutions (asking_journal @ [pay_entry])) (asking_journal @ [pay_entry])) 4) = Some True"
  by (simp_all add: asking_eval laneClassificationOf_def machineAt_def)

definition asking_lane :: "journal_entry list \<Rightarrow> effect_lane_fold" where
  "asking_lane es = finalize (lane_pass (asking_resolutions es) es)"

lemma asking_lane_fold:
  "new_lane_fold accepts_all asking_journal None = Inr (asking_lane asking_journal)"
  "new_lane_fold accepts_all (asking_journal @ [pay_entry]) None = Inr (asking_lane (asking_journal @ [pay_entry]))"
  by (simp_all add: new_lane_fold_Inr asking_fold asking_lane_def)

lemma asking_lane_facts:
  "\<exists>ep. currentEpoch (asking_lane asking_journal) = Some ep \<and> ep_seq ep = 0"
  "laneClassificationOf (asking_lane (asking_journal @ [pay_entry])) 4 = Some L_applied"
  "\<exists>m. machineAt (asking_lane (asking_journal @ [pay_entry])) 4 = Some m \<and> em_consumed m"
proof -
  show "\<exists>ep. currentEpoch (asking_lane asking_journal) = Some ep \<and> ep_seq ep = 0"
    using asking_pass(1) by (auto simp: currentEpoch_def asking_lane_def finalize_sel(1))
  show "laneClassificationOf (asking_lane (asking_journal @ [pay_entry])) 4 = Some L_applied"
    using asking_pass(2) by (simp add: laneClassificationOf_def asking_lane_def finalize_sel(2))
  let ?f = "lane_pass (asking_resolutions (asking_journal @ [pay_entry])) (asking_journal @ [pay_entry])"
  obtain u where u: "machineAt ?f 4 = Some u" "em_consumed u" using asking_pass(3) by auto
  then obtain m where m: "machineAt (finalize ?f) 4 = Some m" "core_same u m"
    using finalize_sel(4) [of ?f 4] by (cases "machineAt (finalize ?f) 4") auto
  then show "\<exists>m. machineAt (asking_lane (asking_journal @ [pay_entry])) 4 = Some m \<and> em_consumed m"
    using core_same_fields(1) [OF m(2)] u(2) by (simp add: asking_lane_def)
qed

lemma asking_steps:
  "findOpId ''op'' asking_journal = None" "tail_seq asking_journal = 3"
  "List.find (\<lambda>e. je_seq e = 2) asking_journal = Some deadline_row"
  "as_string (opt_member (allowValueOf 2 asking_journal) ''expiresAt'') = None"
  by code_simp+

lemma asking_consumes:
  "\<exists>s' m. consumeApprovalAndRecordIntent quiet_config flaky_store pay_spec (fresh_writer, (asking_journal, [])) = (s', Inr (4, m, False))"
proof -
  let ?w = "fresh_writer\<lparr> lw_entries := asking_journal, lw_fold := asking_lane asking_journal \<rparr>"
  let ?v = "?w\<lparr> lw_entries := asking_journal @ [pay_entry], lw_fold := asking_lane (asking_journal @ [pay_entry]) \<rparr>"
  let ?s = "(?w, (asking_journal, []))"
  obtain ep where ep: "currentEpoch (asking_lane asking_journal) = Some ep" "ep_seq ep = 0" using asking_lane_facts(1) by blast
  obtain m where m: "machineAt (asking_lane (asking_journal @ [pay_entry])) 4 = Some m" "em_consumed m"
    using asking_lane_facts(3) by blast
  have cfg: "lc_validate quiet_config = accepts_all" by (simp add: quiet_config_def)
  have spec: "is_opId pay_spec = ''op''" "is_approvalRef pay_spec = 2" "is_logicalKey pay_spec = ''pay''" by (simp_all add: pay_spec_def)
  have load: "reload quiet_config flaky_store (fresh_writer, (asking_journal, [])) = (?s, Inr ())"
    by (simp add: reload_def bindW_def callW_def updateW_def ofW_def flaky_store_def cfg asking_lane_fold)
  have gen: "assertRestorationCurrent flaky_store ?s = (?s, Inr ())"
    by (simp add: assertRestorationCurrent_def flaky_store_def retW_def)
  have intake: "intakeApproval quiet_config flaky_store pay_spec ?s = (?s, Inr ())"
    by (simp add: intakeApproval_def intake_expiry_def bindW_def selfW_def retW_def spec asking_steps deadline_sel asking_reads)
  have verdict: "intent_verdict quiet_config flaky_store pay_spec p ?s = (?s, Inr (intent_payload pay_spec 0, None))" for p
    using ep asking_lane_facts(2)
    by (simp add: intent_verdict_def bindW_def ofW_def retW_def Let_def flaky_store_def spec asking_steps cfg
        pay_entry_def [symmetric] asking_lane_fold)
  have append: "append_at_tail quiet_config flaky_store ''op'' (intent_payload pay_spec 0) ?s
      = ((?v, (asking_journal @ [pay_entry], [])), Inr (4, False))"
  proof -
    have "list_all (\<lambda>x. je_seq x < je_seq pay_entry) asking_journal"
      by (simp add: asking_journal_def row_sel deadline_sel pay_entry_sel)
    then show ?thesis
      by (simp add: append_at_tail_def bindW_def callW_def updateW_def selfW_def ofW_def retW_def Let_def flaky_store_def
          asking_steps pay_entry_def [symmetric] cfg asking_lane_fold)
  qed
  have tries: "lane_tries (Suc n) quiet_config flaky_store ''op'' (intent_verdict quiet_config flaky_store pay_spec) p ?s
      = ((?v, (asking_journal @ [pay_entry], [])), Inr (4, False))" for n p
    by (simp add: bindW_def selfW_def verdict catchW_def append asking_steps)
  obtain n where "APPEND_RETRIES = Suc n" by (cases APPEND_RETRIES) (simp_all add: APPEND_RETRIES_def)
  then have "laneAppend quiet_config flaky_store ''op'' p (Some (intent_verdict quiet_config flaky_store pay_spec)) ?s
      = ((?v, (asking_journal @ [pay_entry], [])), Inr (4, False))" for p
    using tries [of n p] by (simp add: laneAppend_def bindW_def selfW_def fresh_writer_def del: lane_tries.simps)
  then have "record_intent quiet_config flaky_store pay_spec ?s = ((?v, (asking_journal @ [pay_entry], [])), Inr (4, m, False))"
    using m by (simp add: record_intent_def bindW_def selfW_def spec retW_def)
  then show ?thesis
    by (simp add: consumeApprovalAndRecordIntent_def bindW_def selfW_def load gen spec asking_steps intake catchW_def)
qed

theorem recorded_intent_licensed_witness:
  "\<exists>s' m e. consumeApprovalAndRecordIntent quiet_config flaky_store pay_spec (fresh_writer, (asking_journal, [])) = (s', Inr (4, m, False))
     \<and> carriers ''op'' (fst (snd s')) = [e] \<and> je_seq e = 4 \<and> em_consumed m"
proof -
  obtain s' m where c: "consumeApprovalAndRecordIntent quiet_config flaky_store pay_spec (fresh_writer, (asking_journal, []))
      = (s', Inr (4, m, False))" using asking_consumes by blast
  have op: "is_opId pay_spec = ''op''" by (simp add: pay_spec_def)
  have "seqs_increasing (fst (snd (fresh_writer, (asking_journal, [] :: misfortune list))))"
    by (simp add: seqs_increasing_def asking_journal_def row_sel deadline_sel)
  moreover have "carriers (is_opId pay_spec) (fst (snd (fresh_writer, (asking_journal, [] :: misfortune list)))) = []"
    using asking_steps(1) by (simp add: op findOpId_None)
  moreover have "\<forall>g w. ls_generation flaky_store = Some g \<longrightarrow> fst (fst (g w)) = fst w" by (simp add: flaky_store_def)
  ultimately show ?thesis
    using recorded_intent_licensed [OF flaky.contended_log_axioms [folded op] _ _ _ c] c by (auto simp: op)
qed

end
