(* ===== verification/AdmissionAlgorithms.thy ===== *)
theory AdmissionAlgorithms
  imports Jcs "HOL-Library.Product_Lexorder"
begin

text \<open>
  The pure arithmetic of admission, \<open>packages/core/src/admission/algorithms.ts\<close>: start-time fair
  queuing, sliding windows, token buckets, the keys of the three levels and the arithmetic of
  reservations, with the data of \<open>packages/core/src/l0/spi/admission.ts\<close>. Amounts, tags and instants
  are rationals; slots of the clock are integers. A queue's finish tags are a map from member to tag.
\<close>

section \<open>Data\<close>

record reservation =
  rv_wires :: rat
  rv_inputTokens :: "rat option"
  rv_usd :: "rat option"
  rv_exposureUsd :: "rat option"

record scope_dimensions =
  sd_tenant :: "string option"
  sd_account :: "string option"
  sd_project :: "string option"
  sd_legalDomain :: "string option"
  sd_region :: "string option"
  sd_providerAccount :: "string option"
  sd_sponsor :: "string option"

definition wires_only :: "rat \<Rightarrow> reservation" where
  "wires_only w = \<lparr> rv_wires = w, rv_inputTokens = None, rv_usd = None, rv_exposureUsd = None \<rparr>"

definition else_zero :: "rat option \<Rightarrow> rat" where
  "else_zero v = (case v of Some x \<Rightarrow> x | None \<Rightarrow> 0)"

section \<open>Fair queues\<close>

record fair_queue =
  fq_virtualTime :: rat
  fq_finishTags :: "(string, rat) jsmap"

definition emptyFairQueue :: fair_queue where
  "emptyFairQueue = \<lparr> fq_virtualTime = 0, fq_finishTags = [] \<rparr>"

definition sfqTagsOnArrival :: "fair_queue \<Rightarrow> string \<Rightarrow> rat \<Rightarrow> rat \<Rightarrow> rat \<times> rat" where
  "sfqTagsOnArrival q memberKey costWires weight =
     (let startTag = max (else_zero (jm_get (fq_finishTags q) memberKey)) (fq_virtualTime q)
      in (startTag, startTag + costWires / weight))"

definition sfqRecordArrival :: "fair_queue \<Rightarrow> string \<Rightarrow> rat \<Rightarrow> fair_queue" where
  "sfqRecordArrival q memberKey finishTag = q\<lparr> fq_finishTags := jm_set memberKey finishTag (fq_finishTags q) \<rparr>"

definition sfqRecordGrant :: "fair_queue \<Rightarrow> rat \<Rightarrow> fair_queue" where
  "sfqRecordGrant q startTag = q\<lparr> fq_virtualTime := max (fq_virtualTime q) startTag \<rparr>"

text \<open>The stable sort by start tag and, on a tie, arrival.\<close>

definition sfqGrantOrder :: "('a \<Rightarrow> rat) \<Rightarrow> ('a \<Rightarrow> nat) \<Rightarrow> 'a list \<Rightarrow> 'a list" where
  "sfqGrantOrder startTag arrivalSeq queued = sort_key (\<lambda>t. (startTag t, arrivalSeq t)) queued"

section \<open>Sliding windows\<close>

record sliding_window =
  sw_slots :: "rat list"
  sw_headSlot :: int

definition emptySlidingWindow :: "nat \<Rightarrow> sliding_window" where
  "emptySlidingWindow slotCount = \<lparr> sw_slots = replicate slotCount 0, sw_headSlot = 0 \<rparr>"

definition windowAdvance :: "sliding_window \<Rightarrow> int \<Rightarrow> sliding_window" where
  "windowAdvance w nowSlot =
     (let advanceBy = nat (max 0 (nowSlot - sw_headSlot w)); len = length (sw_slots w)
      in if advanceBy = 0 then w
         else \<lparr> sw_slots = (if advanceBy \<ge> len then replicate len 0
                             else drop advanceBy (sw_slots w) @ replicate advanceBy 0),
                sw_headSlot = nowSlot \<rparr>)"

definition windowSum :: "sliding_window \<Rightarrow> rat" where
  "windowSum w = foldl (+) 0 (sw_slots w)"

definition windowAdmits :: "sliding_window \<Rightarrow> rat \<Rightarrow> rat \<Rightarrow> bool" where
  "windowAdmits w cap amount \<longleftrightarrow> windowSum w + amount \<le> cap"

text \<open>A window has at least one slot; the last is the current one.\<close>

definition windowConsume :: "sliding_window \<Rightarrow> rat \<Rightarrow> sliding_window" where
  "windowConsume w amount =
     w\<lparr> sw_slots := (sw_slots w)[length (sw_slots w) - 1 := last (sw_slots w) + amount] \<rparr>"

text \<open>A refund eats from the newest slot backwards while anything remains.\<close>

fun refund_slots :: "rat \<Rightarrow> rat list \<Rightarrow> rat list" where
  "refund_slots remaining [] = []"
| "refund_slots remaining (x # older) =
     (if remaining > 0 then (x - min x remaining) # refund_slots (remaining - min x remaining) older else x # older)"

definition windowRefund :: "sliding_window \<Rightarrow> rat \<Rightarrow> sliding_window" where
  "windowRefund w amount = w\<lparr> sw_slots := rev (refund_slots amount (rev (sw_slots w))) \<rparr>"

section \<open>Token buckets\<close>

record token_bucket =
  tb_tokens :: rat
  tb_lastMs :: rat

definition bucketAdvance :: "token_bucket \<Rightarrow> rat \<Rightarrow> rat \<Rightarrow> rat \<Rightarrow> token_bucket" where
  "bucketAdvance b nowMs ratePerSecond burst =
     (let elapsed = max 0 (nowMs - tb_lastMs b)
      in \<lparr> tb_tokens = min burst (tb_tokens b + (elapsed / 1000) * ratePerSecond), tb_lastMs = max (tb_lastMs b) nowMs \<rparr>)"

definition bucketAdmits :: "token_bucket \<Rightarrow> rat \<Rightarrow> bool" where
  "bucketAdmits b amount \<longleftrightarrow> tb_tokens b \<ge> amount"

definition bucketConsume :: "token_bucket \<Rightarrow> rat \<Rightarrow> token_bucket" where
  "bucketConsume b amount = b\<lparr> tb_tokens := tb_tokens b - amount \<rparr>"

definition bucketRefund :: "token_bucket \<Rightarrow> rat \<Rightarrow> rat \<Rightarrow> token_bucket" where
  "bucketRefund b amount burst = b\<lparr> tb_tokens := min burst (tb_tokens b + amount) \<rparr>"

section \<open>Levels\<close>

datatype level_name = Level_tenant | Level_providerAccount | Level_scope

definition LEVELS :: "level_name list" where
  "LEVELS = [Level_tenant, Level_providerAccount, Level_scope]"

type_synonym level_keys = "level_name \<Rightarrow> string option"

text \<open>The serialized members are strings, so the number format is never asked.\<close>

definition scope_members :: "scope_dimensions \<Rightarrow> (string \<times> json) list" where
  "scope_members sc =
     concat (map (\<lambda>(name, v). case v of None \<Rightarrow> [] | Some s \<Rightarrow> [(name, JStr s)])
       [(''tenant'', sd_tenant sc), (''account'', sd_account sc), (''project'', sd_project sc),
        (''legalDomain'', sd_legalDomain sc), (''region'', sd_region sc),
        (''providerAccount'', sd_providerAccount sc), (''sponsor'', sd_sponsor sc)])"

definition level_key :: "(string \<times> json) list \<Rightarrow> string" where
  "level_key kvs = jcsSerialize (\<lambda>_. '''') (JObj kvs)"

definition admissionLevelKeys :: "string option \<Rightarrow> scope_dimensions option \<Rightarrow> level_keys" where
  "admissionLevelKeys resolvedTenant sc level =
     (case level of
        Level_tenant \<Rightarrow> map_option (\<lambda>t. level_key [(''tenant'', JStr t)]) resolvedTenant
      | Level_providerAccount \<Rightarrow>
          (case (resolvedTenant, Option.bind sc sd_providerAccount) of
             (Some t, Some p) \<Rightarrow> Some (level_key [(''providerAccount'', JStr p), (''tenant'', JStr t)])
           | _ \<Rightarrow> None)
      | Level_scope \<Rightarrow>
          (case sc of
             Some s \<Rightarrow> if scope_members s \<noteq> [] then Some (level_key (scope_members s)) else None
           | None \<Rightarrow> None))"

section \<open>Reservations\<close>

definition minus_member :: "rat option \<Rightarrow> rat option \<Rightarrow> rat option" where
  "minus_member a b = map_option (\<lambda>x. max 0 (x - else_zero b)) a"

definition reservationMinus :: "reservation \<Rightarrow> reservation \<Rightarrow> reservation" where
  "reservationMinus a b = \<lparr>
     rv_wires = max 0 (rv_wires a - rv_wires b),
     rv_inputTokens = minus_member (rv_inputTokens a) (rv_inputTokens b),
     rv_usd = minus_member (rv_usd a) (rv_usd b),
     rv_exposureUsd = minus_member (rv_exposureUsd a) (rv_exposureUsd b) \<rparr>"

definition merge_member :: "rat option \<Rightarrow> rat option \<Rightarrow> rat option" where
  "merge_member current nxt =
     (if nxt \<noteq> None \<or> current \<noteq> None then Some (max (else_zero current) (else_zero nxt)) else None)"

definition coverMerge :: "reservation option \<Rightarrow> reservation \<Rightarrow> reservation" where
  "coverMerge current nxt = \<lparr>
     rv_wires = max (else_zero (map_option rv_wires current)) (rv_wires nxt),
     rv_inputTokens = merge_member (Option.bind current rv_inputTokens) (rv_inputTokens nxt),
     rv_usd = merge_member (Option.bind current rv_usd) (rv_usd nxt),
     rv_exposureUsd = merge_member (Option.bind current rv_exposureUsd) (rv_exposureUsd nxt) \<rparr>"

section \<open>Windows keep their sum\<close>

lemma windowSum_sum: "windowSum w = sum_list (sw_slots w)"
proof -
  have "foldl (+) z xs = z + sum_list xs" for z :: rat and xs by (induction xs arbitrary: z) simp_all
  then show ?thesis by (simp add: windowSum_def)
qed

definition window_ok :: "rat \<Rightarrow> sliding_window \<Rightarrow> bool" where
  "window_ok cap w \<longleftrightarrow> sw_slots w \<noteq> [] \<and> (\<forall>x\<in>set (sw_slots w). 0 \<le> x) \<and> windowSum w \<le> cap"

lemma sum_list_drop_le: "\<forall>x\<in>set xs. (0::rat) \<le> x \<Longrightarrow> sum_list (drop k xs) \<le> sum_list xs"
proof -
  assume a: "\<forall>x\<in>set xs. (0::rat) \<le> x"
  have "sum_list xs = sum_list (take k xs) + sum_list (drop k xs)" by (metis append_take_drop_id sum_list_append)
  moreover have "0 \<le> sum_list (take k xs)" using a in_set_takeD by (fastforce intro: sum_list_nonneg)
  ultimately show ?thesis by simp
qed

lemma window_ok_advance: "window_ok cap w \<Longrightarrow> window_ok cap (windowAdvance w n)"
proof -
  assume ok: "window_ok cap w"
  then have "0 \<le> windowSum w" by (auto simp: window_ok_def windowSum_sum intro: sum_list_nonneg)
  then show ?thesis
    using ok sum_list_drop_le [of "sw_slots w"]
    by (auto simp: window_ok_def windowAdvance_def windowSum_sum Let_def sum_list_replicate dest: in_set_dropD
        intro: order_trans)
qed

lemma window_ok_empty: "0 < n \<Longrightarrow> 0 \<le> cap \<Longrightarrow> window_ok cap (emptySlidingWindow n)"
  by (simp add: window_ok_def emptySlidingWindow_def windowSum_sum sum_list_replicate)

lemma windowSum_consume: "sw_slots w \<noteq> [] \<Longrightarrow> windowSum (windowConsume w a) = windowSum w + a"
proof -
  assume "sw_slots w \<noteq> []"
  then have "sw_slots w = butlast (sw_slots w) @ [last (sw_slots w)]" by simp
  then show ?thesis
    unfolding windowConsume_def windowSum_sum by (metis (no_types, lifting) ab_semigroup_add_class.add_ac(1) add.right_neutral
        length_append_singleton diff_Suc_1 list_update_length last_snoc sliding_window.select_convs(1)
        sliding_window.surjective sliding_window.update_convs(1) sum_list.Cons sum_list.Nil sum_list_append)
qed

lemma window_ok_consume:
  assumes "window_ok cap w" "windowAdmits w c a" "c \<le> cap" "0 \<le> a"
  shows "window_ok cap (windowConsume w a)"
proof -
  have ne: "sw_slots w \<noteq> []" using assms(1) by (simp add: window_ok_def)
  then have "0 \<le> last (sw_slots w)" using assms(1) by (simp add: window_ok_def)
  then have "\<forall>x\<in>set (sw_slots (windowConsume w a)). 0 \<le> x"
    using assms(1,4) set_update_subset_insert [of "sw_slots w" "length (sw_slots w) - 1" "last (sw_slots w) + a"]
    by (auto simp: windowConsume_def window_ok_def)
  moreover have "windowSum (windowConsume w a) \<le> cap"
    using windowSum_consume [OF ne] assms(2,3) by (simp add: windowAdmits_def)
  ultimately show ?thesis using ne by (simp add: window_ok_def windowConsume_def)
qed

lemma refund_slots_ok:
  "\<forall>x\<in>set xs. 0 \<le> x \<Longrightarrow> (\<forall>x\<in>set (refund_slots r xs). 0 \<le> x) \<and> sum_list (refund_slots r xs) \<le> sum_list xs"
  by (induction r xs rule: refund_slots.induct) (auto simp: min_def add_mono)

lemma refund_slots_Nil [simp]: "refund_slots r xs = [] \<longleftrightarrow> xs = []"
  by (cases xs) simp_all

lemma window_ok_refund:
  assumes "window_ok cap w"
  shows "window_ok cap (windowRefund w a)"
  using assms refund_slots_ok [of "rev (sw_slots w)" a]
  by (auto simp: window_ok_def windowRefund_def windowSum_sum intro: order_trans)

end
