(* ===== verification/Admission.thy ===== *)
theory Admission
  imports AdmissionAlgorithms
begin

text \<open>
  The admission scheduler, \<open>packages/core/src/admission/memory.ts\<close>: tickets, buckets per level and key,
  fair queues, leases. A call reads the clock once and gets the reading as an argument; \<open>enqueue\<close> reads
  it again for its pump. A \<open>concurrency\<close> is a whole number and a window has at least one slot. Tickets
  are named by their map key, for which the code uses the object. Denials carry the branch that
  denied, not its text.
\<close>

section \<open>State\<close>

datatype limiter = Sliding_window | Token_bucket

record level_config =
  al_algorithm :: limiter
  al_capWires :: rat
  al_windowMs :: "rat option"
  al_slots :: "nat option"
  al_refillWiresPerSecond :: "rat option"
  al_concurrency :: "nat option"
  al_emergencyReserveFraction :: "rat option"

record admission_options =
  ao_levels :: "level_name \<Rightarrow> level_config option"
  ao_weights :: "(string, rat) jsmap"
  ao_leaseTtlMs :: rat
  ao_debtAgeMs :: "rat option"

record admission_request =
  aq_unitId :: string
  aq_generation :: string
  aq_resolvedTenant :: "string option"
  aq_tenantFromScope :: bool
  aq_scope :: "scope_dimensions option"
  aq_weight :: "rat option"
  aq_reservation :: reservation
  aq_emergency :: bool

datatype ticket_state = TS_queued | TS_granted | TS_released | TS_refunded | TS_expired | TS_denied

datatype denied_reason =
    Cannot_key level_name
  | Infeasible level_name
  | Denied_before
  | Unit_settled ticket_state
  | Rebind_not_granted
  | Rebind_cannot_key level_name
  | Rebind_refused

record ticket =
  tk_unitId :: string
  tk_generation :: string
  tk_state :: ticket_state
  tk_resolvedTenant :: "string option"
  tk_scope :: "scope_dimensions option"
  tk_reservation :: reservation
  tk_weight :: rat
  tk_arrivalSeq :: nat
  tk_startTag :: rat
  tk_finishTag :: rat
  tk_enqueuedAtMs :: rat
  tk_grantedAtMs :: "rat option"
  tk_leaseExpiresAtMs :: "rat option"
  tk_cover :: "reservation option"
  tk_deniedReason :: "denied_reason option"

record bucket_state =
  bs_window :: "sliding_window option"
  bs_bucket :: "token_bucket option"
  bs_debts :: "(rat \<times> rat) list"
  bs_held :: nat
  bs_parked :: nat

record internal_ticket =
  it_ticket :: ticket
  it_request :: admission_request
  it_keys :: level_keys
  it_accountStartTag :: rat
  it_accountFinishTag :: rat
  it_appliedOps :: "string list"
  it_slotParked :: bool

record admission =
  ad_tickets :: "(string, internal_ticket) jsmap"
  ad_buckets :: "(string, bucket_state) jsmap"
  ad_tenantQueue :: fair_queue
  ad_accountQueues :: "(string, fair_queue) jsmap"
  ad_arrivalCounter :: nat

datatype ticket_decision = Granted ticket | Queued ticket nat | Denied denied_reason
datatype recovery = R_granted ticket | R_queued ticket nat | R_unknown

definition ticket_key :: "string \<Rightarrow> string \<Rightarrow> string" where
  "ticket_key unitId generation = unitId @ ''#'' @ generation"

definition empty_admission :: admission where
  "empty_admission = \<lparr> ad_tickets = [], ad_buckets = [], ad_tenantQueue = emptyFairQueue, ad_accountQueues = [], ad_arrivalCounter = 0 \<rparr>"

text \<open>The constructor on an empty state; hydration replaces the state by a persisted one.\<close>

definition new_admission :: "admission_options \<Rightarrow> admission option \<Rightarrow> admission result" where
  "new_admission opts persisted =
     (if list_ex (\<lambda>level. case ao_levels opts level of Some c \<Rightarrow> al_capWires c \<le> 0 | None \<Rightarrow> False) LEVELS
      then Inl ConfigError
      else Inr (case persisted of Some s \<Rightarrow> s | None \<Rightarrow> empty_admission))"

section \<open>Buckets\<close>

definition level_text :: "level_name \<Rightarrow> string" where
  "level_text level = (case level of Level_tenant \<Rightarrow> ''tenant'' | Level_providerAccount \<Rightarrow> ''providerAccount'' | Level_scope \<Rightarrow> ''scope'')"

definition bucket_id :: "level_name \<Rightarrow> string \<Rightarrow> string" where
  "bucket_id level bucketKey = level_text level @ '':'' @ bucketKey"

definition new_bucket :: "level_config option \<Rightarrow> rat \<Rightarrow> bucket_state" where
  "new_bucket config now = \<lparr>
     bs_window = (case config of Some c \<Rightarrow>
         if al_algorithm c = Sliding_window then Some (emptySlidingWindow (case al_slots c of Some n \<Rightarrow> n | None \<Rightarrow> 6)) else None
       | None \<Rightarrow> None),
     bs_bucket = (case config of Some c \<Rightarrow>
         if al_algorithm c = Token_bucket then Some \<lparr> tb_tokens = al_capWires c, tb_lastMs = now \<rparr> else None
       | None \<Rightarrow> None),
     bs_debts = [], bs_held = 0, bs_parked = 0 \<rparr>"

definition bucketFor :: "admission_options \<Rightarrow> rat \<Rightarrow> level_name \<Rightarrow> string \<Rightarrow> admission \<Rightarrow> bucket_state" where
  "bucketFor opts now level bucketKey s =
     (case jm_get (ad_buckets s) (bucket_id level bucketKey) of
        Some b \<Rightarrow> b
      | None \<Rightarrow> new_bucket (ao_levels opts level) now)"

definition put_bucket :: "level_name \<Rightarrow> string \<Rightarrow> bucket_state \<Rightarrow> admission \<Rightarrow> admission" where
  "put_bucket level bucketKey b s = s\<lparr> ad_buckets := jm_set (bucket_id level bucketKey) b (ad_buckets s) \<rparr>"

definition slotOf :: "level_config \<Rightarrow> rat \<Rightarrow> int" where
  "slotOf c now =
     \<lfloor>now / ((case al_windowMs c of Some w \<Rightarrow> w | None \<Rightarrow> 60000) / of_nat (case al_slots c of Some n \<Rightarrow> n | None \<Rightarrow> 6))\<rfloor>"

definition debt_horizon :: "admission_options \<Rightarrow> rat" where
  "debt_horizon opts =
     (case ao_debtAgeMs opts of
        Some h \<Rightarrow> h
      | None \<Rightarrow> (case Option.bind (ao_levels opts Level_tenant) al_windowMs of Some w \<Rightarrow> w | None \<Rightarrow> 60000))"

definition live_debts :: "admission_options \<Rightarrow> rat \<Rightarrow> (rat \<times> rat) list \<Rightarrow> (rat \<times> rat) list" where
  "live_debts opts now debts = filter (\<lambda>(wires, atMs). now - atMs < debt_horizon opts) debts"

definition admissibleCap :: "level_config \<Rightarrow> bool \<Rightarrow> rat" where
  "admissibleCap c emergency = al_capWires c * (1 - (if emergency then 0 else else_zero (al_emergencyReserveFraction c)))"

definition semaphore_free :: "level_config \<Rightarrow> bucket_state \<Rightarrow> bool" where
  "semaphore_free c b = (case al_concurrency c of Some n \<Rightarrow> bs_held b < n | None \<Rightarrow> True)"

text \<open>Aged debts are dropped and the bucket is brought to the present even when it refuses.\<close>

definition levelAdmits ::
  "admission_options \<Rightarrow> rat \<Rightarrow> level_name \<Rightarrow> string \<Rightarrow> rat \<Rightarrow> bool \<Rightarrow> admission \<Rightarrow> admission \<times> bool" where
  "levelAdmits opts now level bucketKey wires emergency s =
     (case ao_levels opts level of
        None \<Rightarrow> (s, True)
      | Some c \<Rightarrow>
          let b0 = bucketFor opts now level bucketKey s;
              b = b0\<lparr> bs_debts := live_debts opts now (bs_debts b0) \<rparr>;
              cap = admissibleCap c emergency - sum_list (map fst (bs_debts b))
          in case (al_algorithm c, bs_window b, bs_bucket b) of
               (Sliding_window, Some w, _) \<Rightarrow>
                 let w' = windowAdvance w (slotOf c now)
                 in (put_bucket level bucketKey (b\<lparr> bs_window := Some w' \<rparr>) s, windowAdmits w' cap wires \<and> semaphore_free c b)
             | (Token_bucket, _, Some tb) \<Rightarrow>
                 let tb' = bucketAdvance tb now (case al_refillWiresPerSecond c of Some r \<Rightarrow> r | None \<Rightarrow> al_capWires c) cap
                 in (put_bucket level bucketKey (b\<lparr> bs_bucket := Some tb' \<rparr>) s, bucketAdmits tb' wires \<and> semaphore_free c b)
             | _ \<Rightarrow> (put_bucket level bucketKey b s, semaphore_free c b))"

fun first_refusing ::
  "admission_options \<Rightarrow> rat \<Rightarrow> level_keys \<Rightarrow> rat \<Rightarrow> bool \<Rightarrow> level_name list \<Rightarrow> admission \<Rightarrow> admission \<times> level_name option" where
  "first_refusing opts now keys wires emergency [] s = (s, None)"
| "first_refusing opts now keys wires emergency (level # levels) s =
     (case keys level of
        None \<Rightarrow> first_refusing opts now keys wires emergency levels s
      | Some bucketKey \<Rightarrow>
          if ao_levels opts level = None then first_refusing opts now keys wires emergency levels s
          else (case levelAdmits opts now level bucketKey wires emergency s of
                  (s', True) \<Rightarrow> first_refusing opts now keys wires emergency levels s'
                | (s', False) \<Rightarrow> (s', Some level)))"

definition firstRefusingLevel :: "admission_options \<Rightarrow> rat \<Rightarrow> internal_ticket \<Rightarrow> admission \<Rightarrow> admission \<times> level_name option" where
  "firstRefusingLevel opts now t s =
     first_refusing opts now (it_keys t) (rv_wires (tk_reservation (it_ticket t))) (aq_emergency (it_request t)) LEVELS s"

text \<open>A loop over the configured levels the keys match.\<close>

definition each_level ::
  "admission_options \<Rightarrow> rat \<Rightarrow> level_keys \<Rightarrow> (level_config \<Rightarrow> bucket_state \<Rightarrow> bucket_state) \<Rightarrow> admission \<Rightarrow> admission" where
  "each_level opts now keys act s =
     foldl (\<lambda>s level. case (keys level, ao_levels opts level) of
               (Some bucketKey, Some c) \<Rightarrow> put_bucket level bucketKey (act c (bucketFor opts now level bucketKey s)) s
             | _ \<Rightarrow> s) s LEVELS"

definition consume_bucket :: "rat \<Rightarrow> rat \<Rightarrow> level_config \<Rightarrow> bucket_state \<Rightarrow> bucket_state" where
  "consume_bucket now wires c b =
     b\<lparr> bs_window := (if al_algorithm c = Sliding_window
                        then map_option (\<lambda>w. windowConsume (windowAdvance w (slotOf c now)) wires) (bs_window b) else bs_window b),
         bs_bucket := (if al_algorithm c = Token_bucket
                        then map_option (\<lambda>tb. bucketConsume tb wires) (bs_bucket b) else bs_bucket b),
         bs_held := (if al_concurrency c \<noteq> None then bs_held b + 1 else bs_held b) \<rparr>"

definition consumeLevels :: "admission_options \<Rightarrow> rat \<Rightarrow> internal_ticket \<Rightarrow> admission \<Rightarrow> admission" where
  "consumeLevels opts now t = each_level opts now (it_keys t) (consume_bucket now (rv_wires (tk_reservation (it_ticket t))))"

definition refund_bucket :: "rat \<Rightarrow> bool \<Rightarrow> level_config \<Rightarrow> bucket_state \<Rightarrow> bucket_state" where
  "refund_bucket wires restoreSlot c b =
     b\<lparr> bs_window := (if wires > 0 \<and> al_algorithm c = Sliding_window
                        then map_option (\<lambda>w. windowRefund w wires) (bs_window b) else bs_window b),
         bs_bucket := (if wires > 0 \<and> al_algorithm c = Token_bucket
                        then map_option (\<lambda>tb. bucketRefund tb wires (al_capWires c)) (bs_bucket b) else bs_bucket b),
         bs_held := (if al_concurrency c \<noteq> None \<and> restoreSlot then bs_held b - 1 else bs_held b) \<rparr>"

definition refundLevels :: "admission_options \<Rightarrow> rat \<Rightarrow> level_keys \<Rightarrow> rat \<Rightarrow> bool \<Rightarrow> admission \<Rightarrow> admission" where
  "refundLevels opts now keys wires restoreSlot = each_level opts now keys (refund_bucket wires restoreSlot)"

definition has_semaphore :: "admission_options \<Rightarrow> level_name \<Rightarrow> bool" where
  "has_semaphore opts level = (Option.bind (ao_levels opts level) al_concurrency \<noteq> None)"

definition semaphore_keys :: "admission_options \<Rightarrow> level_keys \<Rightarrow> level_keys" where
  "semaphore_keys opts keys level = (if has_semaphore opts level then keys level else None)"

definition put_ticket :: "string \<Rightarrow> internal_ticket \<Rightarrow> admission \<Rightarrow> admission" where
  "put_ticket k t s = s\<lparr> ad_tickets := jm_set k t (ad_tickets s) \<rparr>"

definition parkSlots :: "admission_options \<Rightarrow> rat \<Rightarrow> string \<Rightarrow> internal_ticket \<Rightarrow> admission \<Rightarrow> admission" where
  "parkSlots opts now k t s =
     put_ticket k (t\<lparr> it_slotParked := list_ex (\<lambda>level. semaphore_keys opts (it_keys t) level \<noteq> None) LEVELS \<rparr>)
       (each_level opts now (semaphore_keys opts (it_keys t)) (\<lambda>_ b. b\<lparr> bs_parked := bs_parked b + 1 \<rparr>) s)"

definition unparkSlots :: "admission_options \<Rightarrow> rat \<Rightarrow> string \<Rightarrow> internal_ticket \<Rightarrow> admission \<Rightarrow> admission" where
  "unparkSlots opts now k t s =
     (if \<not> it_slotParked t then s
      else each_level opts now (semaphore_keys opts (it_keys t))
             (\<lambda>_ b. b\<lparr> bs_held := bs_held b - 1, bs_parked := bs_parked b - 1 \<rparr>)
             (put_ticket k (t\<lparr> it_slotParked := False \<rparr>) s))"

definition recordDebt :: "admission_options \<Rightarrow> rat \<Rightarrow> level_keys \<Rightarrow> rat \<Rightarrow> admission \<Rightarrow> admission" where
  "recordDebt opts now keys wires s =
     (if wires \<le> 0 then s
      else each_level opts now keys (\<lambda>_ b. b\<lparr> bs_debts := bs_debts b @ [(wires, now)] \<rparr>) s)"

section \<open>Tickets\<close>

definition is_queued :: "admission \<Rightarrow> string \<Rightarrow> bool" where
  "is_queued s k = (case jm_get (ad_tickets s) k of Some t \<Rightarrow> tk_state (it_ticket t) = TS_queued | None \<Rightarrow> False)"

definition queued_keys :: "admission \<Rightarrow> string list" where
  "queued_keys s = filter (is_queued s) (jm_keys (ad_tickets s))"

definition queuedInGrantOrder :: "admission \<Rightarrow> string list" where
  "queuedInGrantOrder s =
     sfqGrantOrder (\<lambda>k. case jm_get (ad_tickets s) k of Some t \<Rightarrow> tk_startTag (it_ticket t) | None \<Rightarrow> 0)
       (\<lambda>k. case jm_get (ad_tickets s) k of Some t \<Rightarrow> tk_arrivalSeq (it_ticket t) | None \<Rightarrow> 0) (queued_keys s)"

fun position_of :: "string \<Rightarrow> string list \<Rightarrow> nat" where
  "position_of k [] = 0"
| "position_of k (x # xs) = (if x = k then 0 else if k \<in> set xs then position_of k xs + 1 else 0)"

definition decisionOf :: "string \<Rightarrow> internal_ticket \<Rightarrow> admission \<Rightarrow> ticket_decision" where
  "decisionOf k t s =
     (case tk_state (it_ticket t) of
        TS_granted \<Rightarrow> Granted (it_ticket t)
      | TS_queued \<Rightarrow> Queued (it_ticket t) (position_of k (queuedInGrantOrder s))
      | TS_denied \<Rightarrow> Denied (case tk_deniedReason (it_ticket t) of Some r \<Rightarrow> r | None \<Rightarrow> Denied_before)
      | st \<Rightarrow> Denied (Unit_settled st))"

definition account_queue_id :: "string option \<Rightarrow> string" where
  "account_queue_id tenant = ''accounts:'' @ (case tenant of Some t \<Rightarrow> t | None \<Rightarrow> ''-'')"

definition mint_weight :: "admission_options \<Rightarrow> admission_request \<Rightarrow> rat" where
  "mint_weight opts req =
     (case aq_weight req of
        Some w \<Rightarrow> w
      | None \<Rightarrow> (case jm_get (ao_weights opts) (case aq_resolvedTenant req of Some t \<Rightarrow> t | None \<Rightarrow> '''') of
                  Some w \<Rightarrow> w | None \<Rightarrow> 1))"

definition mintTicket ::
  "admission_options \<Rightarrow> rat \<Rightarrow> admission_request \<Rightarrow> level_keys \<Rightarrow> ticket_state \<Rightarrow> denied_reason option \<Rightarrow> admission \<Rightarrow> admission result" where
  "mintTicket opts now req keys st why s =
     (let weight = mint_weight opts req
      in if \<not> weight > 0 then Inl ConfigError
         else
           let wires = rv_wires (aq_reservation req);
               tenantMember = (case aq_resolvedTenant req of Some t \<Rightarrow> t | None \<Rightarrow> ''-'');
               (startTag, finishTag) = sfqTagsOnArrival (ad_tenantQueue s) tenantMember wires weight;
               aid = account_queue_id (aq_resolvedTenant req);
               aq = (case jm_get (ad_accountQueues s) aid of Some q \<Rightarrow> q | None \<Rightarrow> emptyFairQueue);
               accountMember = (case Option.bind (aq_scope req) sd_providerAccount of Some p \<Rightarrow> p | None \<Rightarrow> ''-'');
               (accountStart, accountFinish) = sfqTagsOnArrival aq accountMember wires weight;
               tk = \<lparr> tk_unitId = aq_unitId req, tk_generation = aq_generation req, tk_state = st,
                      tk_resolvedTenant = aq_resolvedTenant req, tk_scope = aq_scope req, tk_reservation = aq_reservation req,
                      tk_weight = weight, tk_arrivalSeq = ad_arrivalCounter s + 1, tk_startTag = startTag, tk_finishTag = finishTag,
                      tk_enqueuedAtMs = now, tk_grantedAtMs = None, tk_leaseExpiresAtMs = None, tk_cover = None,
                      tk_deniedReason = why \<rparr>;
               t = \<lparr> it_ticket = tk, it_request = req, it_keys = keys, it_accountStartTag = accountStart,
                     it_accountFinishTag = accountFinish, it_appliedOps = [], it_slotParked = False \<rparr>
           in Inr (put_ticket (ticket_key (aq_unitId req) (aq_generation req)) t
                (s\<lparr> ad_arrivalCounter := ad_arrivalCounter s + 1,
                     ad_tenantQueue := sfqRecordArrival (ad_tenantQueue s) tenantMember finishTag,
                     ad_accountQueues := jm_set aid (sfqRecordArrival aq accountMember accountFinish) (ad_accountQueues s) \<rparr>)))"

section \<open>The pump\<close>

definition expire_ticket :: "admission_options \<Rightarrow> rat \<Rightarrow> admission \<Rightarrow> string \<Rightarrow> admission" where
  "expire_ticket opts now s k =
     (case jm_get (ad_tickets s) k of
        None \<Rightarrow> s
      | Some t \<Rightarrow>
          if tk_state (it_ticket t) = TS_granted \<and> (case tk_leaseExpiresAtMs (it_ticket t) of Some x \<Rightarrow> x \<le> now | None \<Rightarrow> False)
          then
            let covered = (case tk_cover (it_ticket t) of Some c \<Rightarrow> c | None \<Rightarrow> wires_only 0);
                refund = reservationMinus (tk_reservation (it_ticket t)) covered
            in parkSlots opts now k (t\<lparr> it_ticket := (it_ticket t)\<lparr> tk_state := TS_expired \<rparr> \<rparr>)
                 (refundLevels opts now (it_keys t) (rv_wires refund) False s)
          else s)"

definition granted_ticket :: "admission_options \<Rightarrow> rat \<Rightarrow> internal_ticket \<Rightarrow> internal_ticket" where
  "granted_ticket opts now t = t\<lparr> it_ticket := (it_ticket t)\<lparr> tk_state := TS_granted, tk_grantedAtMs := Some now,
     tk_leaseExpiresAtMs := Some (now + ao_leaseTtlMs opts) \<rparr> \<rparr>"

definition grant :: "admission_options \<Rightarrow> rat \<Rightarrow> string \<Rightarrow> internal_ticket \<Rightarrow> admission \<Rightarrow> admission" where
  "grant opts now k t s =
     (let s1 = consumeLevels opts now t s;
          aid = account_queue_id (tk_resolvedTenant (it_ticket t))
      in put_ticket k (granted_ticket opts now t)
           (s1\<lparr> ad_tenantQueue := sfqRecordGrant (ad_tenantQueue s1) (tk_startTag (it_ticket t)),
                 ad_accountQueues := (case jm_get (ad_accountQueues s1) aid of
                     Some q \<Rightarrow> jm_set aid (sfqRecordGrant q (it_accountStartTag t)) (ad_accountQueues s1)
                   | None \<Rightarrow> ad_accountQueues s1) \<rparr>))"

definition behind_blocked :: "string list \<Rightarrow> level_keys \<Rightarrow> bool" where
  "behind_blocked blocked keys =
     list_ex (\<lambda>level. case keys level of Some k \<Rightarrow> bucket_id level k \<in> set blocked | None \<Rightarrow> False) LEVELS"

text \<open>
  One pass over the queue in grant order: it stops at the first ticket it grants; a ticket refused
  at a level blocks that bucket for everything behind it.
\<close>

fun grant_pass :: "admission_options \<Rightarrow> rat \<Rightarrow> string list \<Rightarrow> string list \<Rightarrow> admission \<Rightarrow> admission \<times> string option" where
  "grant_pass opts now blocked [] s = (s, None)"
| "grant_pass opts now blocked (k # ks) s =
     (case jm_get (ad_tickets s) k of
        None \<Rightarrow> grant_pass opts now blocked ks s
      | Some t \<Rightarrow>
          if behind_blocked blocked (it_keys t) then grant_pass opts now blocked ks s
          else (case firstRefusingLevel opts now t s of
                  (s', Some level) \<Rightarrow>
                    grant_pass opts now
                      (case it_keys t level of Some bk \<Rightarrow> bucket_id level bk # blocked | None \<Rightarrow> blocked) ks s'
                | (s', None) \<Rightarrow> (grant opts now k t s', Some k)))"

subsection \<open>Frames\<close>

lemma put_bucket_sel [simp]:
  "ad_tickets (put_bucket level k b s) = ad_tickets s" "ad_tenantQueue (put_bucket level k b s) = ad_tenantQueue s"
  "ad_accountQueues (put_bucket level k b s) = ad_accountQueues s" "ad_arrivalCounter (put_bucket level k b s) = ad_arrivalCounter s"
  "ad_buckets (put_bucket level k b s) = jm_set (bucket_id level k) b (ad_buckets s)"
  by (simp_all add: put_bucket_def)

lemma put_ticket_sel [simp]:
  "ad_buckets (put_ticket k t s) = ad_buckets s" "ad_tenantQueue (put_ticket k t s) = ad_tenantQueue s"
  "ad_accountQueues (put_ticket k t s) = ad_accountQueues s" "ad_arrivalCounter (put_ticket k t s) = ad_arrivalCounter s"
  "ad_tickets (put_ticket k t s) = jm_set k t (ad_tickets s)"
  by (simp_all add: put_ticket_def)

lemma levelAdmits_tickets [simp]: "ad_tickets (fst (levelAdmits opts now level k wires em s)) = ad_tickets s"
  by (auto simp: levelAdmits_def Let_def split: option.split limiter.split)

lemma first_refusing_tickets [simp]: "ad_tickets (fst (first_refusing opts now keys wires em levels s)) = ad_tickets s"
proof (induction levels arbitrary: s)
  case (Cons level levels)
  show ?case
  proof (cases "keys level = None \<or> ao_levels opts level = None")
    case True
    then show ?thesis using Cons by (auto split: option.split)
  next
    case False
    then obtain bk where bk: "keys level = Some bk" "ao_levels opts level \<noteq> None" by auto
    obtain s' b where "levelAdmits opts now level bk wires em s = (s', b)" by fastforce
    moreover then have "ad_tickets s' = ad_tickets s" using levelAdmits_tickets by (metis fst_conv)
    ultimately show ?thesis using bk Cons by (cases b) auto
  qed
qed simp

lemma firstRefusingLevel_tickets: "firstRefusingLevel opts now t s = (s', r) \<Longrightarrow> ad_tickets s' = ad_tickets s"
  unfolding firstRefusingLevel_def by (metis first_refusing_tickets fst_conv)

lemma each_level_tickets [simp]: "ad_tickets (each_level opts now keys act s) = ad_tickets s"
proof -
  have "ad_tickets (foldl (\<lambda>s level. case (keys level, ao_levels opts level) of
      (Some bk, Some c) \<Rightarrow> put_bucket level bk (act c (bucketFor opts now level bk s)) s | _ \<Rightarrow> s) s ls) = ad_tickets s" for ls
    by (induction ls arbitrary: s) (simp_all split: option.split)
  then show ?thesis by (simp add: each_level_def)
qed

lemma grant_tickets [simp]: "ad_tickets (grant opts now k t s) = jm_set k (granted_ticket opts now t) (ad_tickets s)"
  by (simp add: grant_def Let_def consumeLevels_def)

lemma granted_ticket_sel [simp]:
  "tk_state (it_ticket (granted_ticket opts now t)) = TS_granted" "it_keys (granted_ticket opts now t) = it_keys t"
  "it_slotParked (granted_ticket opts now t) = it_slotParked t"
  "tk_reservation (it_ticket (granted_ticket opts now t)) = tk_reservation (it_ticket t)"
  by (simp_all add: granted_ticket_def)

text \<open>How one pass ends: with everything refused or blocked, or with one grant.\<close>

lemma grant_pass_granted:
  assumes "grant_pass opts now blocked ks s = (s', Some k)"
  shows "k \<in> set ks \<and> (\<exists>t. jm_get (ad_tickets s) k = Some t \<and> ad_tickets s' = jm_set k (granted_ticket opts now t) (ad_tickets s))"
  using assms
proof (induction ks arbitrary: blocked s)
  case (Cons j ks)
  show ?case
  proof (cases "jm_get (ad_tickets s) j")
    case None
    then show ?thesis using Cons by simp
  next
    case (Some t)
    note t = Some
    show ?thesis
    proof (cases "behind_blocked blocked (it_keys t)")
      case True
      then show ?thesis using t Cons by simp
    next
      case False
      obtain s1 r where r: "firstRefusingLevel opts now t s = (s1, r)" by fastforce
      note same = firstRefusingLevel_tickets [OF r]
      show ?thesis
      proof (cases r)
        case None
        then have "k = j" "s' = grant opts now j t s1" using Cons.prems t False r by auto
        then show ?thesis using t same by simp
      next
        case (Some level)
        let ?bl = "(case it_keys t level of Some bk \<Rightarrow> bucket_id level bk # blocked | None \<Rightarrow> blocked)"
        have "grant_pass opts now ?bl ks s1 = (s', Some k)" using Cons.prems t False r Some by simp
        from Cons.IH [OF this] same show ?thesis by simp
      qed
    qed
  qed
qed simp

lemma queued_keys_granted:
  assumes "is_queued s k" "ad_tickets s' = jm_set k (granted_ticket opts now t) (ad_tickets s)"
  shows "length (queued_keys s') < length (queued_keys s)"
proof -
  have kin: "k \<in> set (jm_keys (ad_tickets s))"
    using assms(1) jm_get_None_keys [of "ad_tickets s" k] by (auto simp: is_queued_def split: option.splits)
  have "is_queued s' = (\<lambda>j. is_queued s j \<and> j \<noteq> k)"
    unfolding is_queued_def assms(2) by (auto simp: jm_get_set fun_eq_iff)
  then have "queued_keys s' = filter (\<lambda>j. j \<noteq> k) (queued_keys s)"
    unfolding queued_keys_def assms(2) using kin by (simp add: jm_keys_set conj_commute)
  then show ?thesis using kin assms(1) length_filter_less [of k "queued_keys s" "\<lambda>j. j \<noteq> k"] by (simp add: queued_keys_def)
qed

lemma set_queuedInGrantOrder [simp]: "set (queuedInGrantOrder s) = set (queued_keys s)"
  by (simp add: queuedInGrantOrder_def sfqGrantOrder_def)

subsection \<open>The loop\<close>

text \<open>Every pass but the last grants a queued ticket, so there are at most as many as tickets queue.\<close>

function grant_loop :: "admission_options \<Rightarrow> rat \<Rightarrow> admission \<Rightarrow> admission \<times> string list" where
  "grant_loop opts now s =
     (case grant_pass opts now [] (queuedInGrantOrder s) s of
        (s', None) \<Rightarrow> (s', [])
      | (s', Some k) \<Rightarrow> (case grant_loop opts now s' of (s'', ks) \<Rightarrow> (s'', k # ks)))"
  by pat_completeness auto
termination
proof (relation "measure (\<lambda>(opts, now, s). length (queued_keys s))")
  show "wf (measure (\<lambda>(opts, now, s). length (queued_keys s)))" by simp
  fix opts :: admission_options and now s s' y k
  assume "(s', y) = grant_pass opts now [] (queuedInGrantOrder s) s" "y = Some k"
  then have g: "grant_pass opts now [] (queuedInGrantOrder s) s = (s', Some k)" by simp
  then have "is_queued s k" "\<exists>t. ad_tickets s' = jm_set k (granted_ticket opts now t) (ad_tickets s)"
    using grant_pass_granted [OF g] by (auto simp: queued_keys_def)
  then show "((opts, now, s'), (opts, now, s)) \<in> measure (\<lambda>(opts, now, s). length (queued_keys s))"
    using queued_keys_granted by fastforce
qed

declare grant_loop.simps [simp del]

definition pump :: "admission_options \<Rightarrow> rat \<Rightarrow> admission \<Rightarrow> admission \<times> string list" where
  "pump opts now s = grant_loop opts now (foldl (expire_ticket opts now) s (jm_keys (ad_tickets s)))"

section \<open>The lifecycle\<close>

text \<open>\<open>applied\<close>: whether the operation was seen, and the ticket that has seen it.\<close>

definition applied :: "string \<Rightarrow> internal_ticket \<Rightarrow> internal_ticket \<times> bool" where
  "applied opId t = (if opId \<in> set (it_appliedOps t) then (t, True) else (t\<lparr> it_appliedOps := it_appliedOps t @ [opId] \<rparr>, False))"

text \<open>
  \<open>enqueue\<close> up to its pump: a live identity answers with its ticket, a settled one starts afresh, and
  a request that cannot key a configured level or can never fit is denied.
\<close>

datatype enqueue_front = Answered ticket_decision | Minted string

definition unkeyed_level :: "admission_options \<Rightarrow> level_keys \<Rightarrow> level_name option" where
  "unkeyed_level opts keys = List.find (\<lambda>level. ao_levels opts level \<noteq> None \<and> keys level = None) LEVELS"

definition infeasible_level :: "admission_options \<Rightarrow> level_keys \<Rightarrow> rat \<Rightarrow> bool \<Rightarrow> level_name option" where
  "infeasible_level opts keys wires emergency =
     List.find (\<lambda>level. case (ao_levels opts level, keys level) of
         (Some c, Some _) \<Rightarrow> wires > admissibleCap c emergency | _ \<Rightarrow> False) LEVELS"

definition tenants_disagree :: "admission_request \<Rightarrow> bool" where
  "tenants_disagree req =
     (case (aq_resolvedTenant req, Option.bind (aq_scope req) sd_tenant) of
        (Some t, Some t') \<Rightarrow> t \<noteq> t' \<and> \<not> aq_tenantFromScope req | _ \<Rightarrow> False)"

definition admit_fresh ::
  "admission_options \<Rightarrow> rat \<Rightarrow> admission_request \<Rightarrow> admission \<Rightarrow> admission \<times> enqueue_front result" where
  "admit_fresh opts now req s =
     (let wires = rv_wires (aq_reservation req); keys = admissionLevelKeys (aq_resolvedTenant req) (aq_scope req)
      in if \<not> (of_int \<lfloor>wires\<rfloor> = wires) \<or> wires < 1 then (s, Inl ConfigError)
         else if tenants_disagree req then (s, Inl ConfigError)
         else (case unkeyed_level opts keys of
           Some level \<Rightarrow> (s, Inr (Answered (Denied (Cannot_key level))))
         | None \<Rightarrow>
             (case infeasible_level opts keys wires (aq_emergency req) of
                Some level \<Rightarrow>
                  (case mintTicket opts now req keys TS_denied (Some (Infeasible level)) s of
                     Inl e \<Rightarrow> (s, Inl e)
                   | Inr s' \<Rightarrow> (s', Inr (Answered (Denied (Infeasible level)))))
              | None \<Rightarrow>
                  (case mintTicket opts now req keys TS_queued None s of
                     Inl e \<Rightarrow> (s, Inl e)
                   | Inr s' \<Rightarrow> (s', Inr (Minted (ticket_key (aq_unitId req) (aq_generation req))))))))"

definition enqueue_mint ::
  "admission_options \<Rightarrow> rat \<Rightarrow> admission_request \<Rightarrow> admission \<Rightarrow> admission \<times> enqueue_front result" where
  "enqueue_mint opts now req s =
     (let k = ticket_key (aq_unitId req) (aq_generation req)
      in case jm_get (ad_tickets s) k of
           None \<Rightarrow> admit_fresh opts now req s
         | Some t \<Rightarrow>
             if tk_state (it_ticket t) \<in> {TS_released, TS_refunded, TS_expired}
             then
               let s1 = unparkSlots opts now k t s
               in admit_fresh opts now req (s1\<lparr> ad_tickets := jm_delete k (ad_tickets s1) \<rparr>)
             else (s, Inr (Answered (decisionOf k t s))))"

text \<open>The rest of \<open>enqueue\<close> is the pump, at a later reading of the clock, and the answer.\<close>

definition enqueue ::
  "admission_options \<Rightarrow> rat \<Rightarrow> rat \<Rightarrow> admission_request \<Rightarrow> admission \<Rightarrow> admission \<times> ticket_decision result" where
  "enqueue opts now pump_now req s =
     (case enqueue_mint opts now req s of
        (s', Inl e) \<Rightarrow> (s', Inl e)
      | (s', Inr (Answered d)) \<Rightarrow> (s', Inr d)
      | (s', Inr (Minted k)) \<Rightarrow>
          let s'' = fst (pump opts pump_now s')
          in (s'', Inr (case jm_get (ad_tickets s'') k of
                          Some t \<Rightarrow> decisionOf k t s'' | None \<Rightarrow> Denied Denied_before)))"

definition renew :: "admission_options \<Rightarrow> rat \<Rightarrow> string \<Rightarrow> string \<Rightarrow> admission \<Rightarrow> admission" where
  "renew opts now unitId generation s =
     (case jm_get (ad_tickets s) (ticket_key unitId generation) of
        None \<Rightarrow> s
      | Some t \<Rightarrow>
          if tk_state (it_ticket t) = TS_granted
          then put_ticket (ticket_key unitId generation)
                 (t\<lparr> it_ticket := (it_ticket t)\<lparr> tk_leaseExpiresAtMs := Some (now + ao_leaseTtlMs opts) \<rparr> \<rparr>) s
          else s)"

definition recover :: "admission_options \<Rightarrow> rat \<Rightarrow> string \<Rightarrow> string \<Rightarrow> admission \<Rightarrow> admission \<times> recovery" where
  "recover opts now unitId generation s =
     (let k = ticket_key unitId generation
      in case jm_get (ad_tickets s) k of
           None \<Rightarrow> (s, R_unknown)
         | Some t \<Rightarrow>
             (case tk_state (it_ticket t) of
                TS_granted \<Rightarrow>
                  let s' = renew opts now unitId generation s
                  in (s', R_granted (case jm_get (ad_tickets s') k of Some t' \<Rightarrow> it_ticket t' | None \<Rightarrow> it_ticket t))
              | TS_queued \<Rightarrow> (s, R_queued (it_ticket t) (position_of k (queuedInGrantOrder s)))
              | _ \<Rightarrow> (s, R_unknown)))"

definition checkpointCover ::
  "rat \<Rightarrow> string \<Rightarrow> string \<Rightarrow> reservation \<Rightarrow> string \<Rightarrow> admission \<Rightarrow> admission \<times> unit result" where
  "checkpointCover now unitId generation cover opId s =
     (let k = ticket_key unitId generation
      in case jm_get (ad_tickets s) k of
           None \<Rightarrow> (s, Inl ConfigError)
         | Some t \<Rightarrow>
             if tk_state (it_ticket t) \<noteq> TS_granted then (s, Inl ConfigError)
             else if else_zero (tk_leaseExpiresAtMs (it_ticket t)) \<le> now then (s, Inl ConfigError)
             else (case applied opId t of
                     (t', True) \<Rightarrow> (s, Inr ())
                   | (t', False) \<Rightarrow>
                       (put_ticket k (t'\<lparr> it_ticket := (it_ticket t')\<lparr> tk_cover := Some (coverMerge (tk_cover (it_ticket t')) cover) \<rparr> \<rparr>) s,
                        Inr ())))"

definition release :: "admission_options \<Rightarrow> rat \<Rightarrow> string \<Rightarrow> string \<Rightarrow> reservation \<Rightarrow> string \<Rightarrow> admission \<Rightarrow> admission" where
  "release opts now unitId generation actuals opId s =
     (let k = ticket_key unitId generation
      in case jm_get (ad_tickets s) k of
           None \<Rightarrow> s
         | Some t0 \<Rightarrow>
             (case applied opId t0 of
                (t, True) \<Rightarrow> s
              | (t, False) \<Rightarrow>
                  if tk_state (it_ticket t) = TS_granted
                  then
                    let unused = reservationMinus (tk_reservation (it_ticket t)) actuals;
                        s1 = refundLevels opts now (it_keys t) (rv_wires unused) True s;
                        s2 = recordDebt opts now (it_keys t)
                               (max 0 (rv_wires actuals - rv_wires (tk_reservation (it_ticket t)))) s1
                    in put_ticket k (t\<lparr> it_ticket := (it_ticket t)\<lparr> tk_state := TS_released \<rparr> \<rparr>) s2
                  else if tk_state (it_ticket t) = TS_expired
                  then
                    let covered = else_zero (map_option rv_wires (tk_cover (it_ticket t)))
                    in unparkSlots opts now k t
                         (recordDebt opts now (it_keys t) (max 0 (rv_wires actuals - covered)) (put_ticket k t s))
                  else put_ticket k t s))"

text \<open>\<open>cancel\<close> marks the operation and settles a queued ticket; a held one it releases, which is a call of its own.\<close>

definition cancel_mark :: "string \<Rightarrow> string \<Rightarrow> string \<Rightarrow> admission \<Rightarrow> admission \<times> reservation option" where
  "cancel_mark unitId generation opId s =
     (let k = ticket_key unitId generation
      in case jm_get (ad_tickets s) k of
           None \<Rightarrow> (s, None)
         | Some t0 \<Rightarrow>
             (case applied opId t0 of
                (t, True) \<Rightarrow> (s, None)
              | (t, False) \<Rightarrow>
                  if tk_state (it_ticket t) = TS_queued
                  then (put_ticket k (t\<lparr> it_ticket := (it_ticket t)\<lparr> tk_state := TS_refunded \<rparr> \<rparr>) s, None)
                  else (put_ticket k t s,
                        if tk_state (it_ticket t) = TS_granted \<or> tk_state (it_ticket t) = TS_expired
                        then Some (case tk_cover (it_ticket t) of Some c \<Rightarrow> c | None \<Rightarrow> wires_only 0) else None)))"

definition cancel :: "admission_options \<Rightarrow> rat \<Rightarrow> string \<Rightarrow> string \<Rightarrow> string \<Rightarrow> admission \<Rightarrow> admission" where
  "cancel opts now unitId generation opId s =
     (case cancel_mark unitId generation opId s of
        (s', Some actuals) \<Rightarrow> release opts now unitId generation actuals (opId @ '':release'') s'
      | (s', None) \<Rightarrow> s')"

text \<open>\<open>LEVELS.every\<close> stops at the first level that refuses.\<close>

fun target_admits ::
  "admission_options \<Rightarrow> rat \<Rightarrow> level_keys \<Rightarrow> rat \<Rightarrow> bool \<Rightarrow> level_name list \<Rightarrow> admission \<Rightarrow> admission \<times> bool" where
  "target_admits opts now keys wires emergency [] s = (s, True)"
| "target_admits opts now keys wires emergency (level # levels) s =
     (case keys level of
        None \<Rightarrow> target_admits opts now keys wires emergency levels s
      | Some bk \<Rightarrow>
          (case levelAdmits opts now level bk wires emergency s of
             (s', True) \<Rightarrow> target_admits opts now keys wires emergency levels s'
           | (s', False) \<Rightarrow> (s', False)))"

definition rebind ::
  "admission_options \<Rightarrow> rat \<Rightarrow> string \<Rightarrow> string \<Rightarrow> scope_dimensions \<Rightarrow> string \<Rightarrow> admission \<Rightarrow> admission \<times> ticket_decision" where
  "rebind opts now unitId generation target opId s =
     (let k = ticket_key unitId generation
      in case jm_get (ad_tickets s) k of
           None \<Rightarrow> (s, Denied Rebind_not_granted)
         | Some t0 \<Rightarrow>
             if tk_state (it_ticket t0) \<noteq> TS_granted then (s, Denied Rebind_not_granted)
             else (case applied opId t0 of
               (t, True) \<Rightarrow> (s, decisionOf k t0 s)
             | (t, False) \<Rightarrow>
                 let s0 = put_ticket k t s;
                     keys = admissionLevelKeys (tk_resolvedTenant (it_ticket t)) (Some target);
                     wires = rv_wires (tk_reservation (it_ticket t))
                 in case unkeyed_level opts keys of
                      Some level \<Rightarrow> (s0, Denied (Rebind_cannot_key level))
                    | None \<Rightarrow>
                        (case target_admits opts now keys wires (aq_emergency (it_request t)) LEVELS s0 of
                           (s1, False) \<Rightarrow> (s1, Denied Rebind_refused)
                         | (s1, True) \<Rightarrow>
                             let t' = t\<lparr> it_keys := keys, it_request := (it_request t)\<lparr> aq_scope := Some target \<rparr>,
                                         it_ticket := (it_ticket t)\<lparr> tk_scope := Some target \<rparr> \<rparr>;
                                 s2 = refundLevels opts now (it_keys t) wires True (consumeLevels opts now t' (put_ticket k t' s1))
                             in (s2, Granted (it_ticket t')))))"

end
