(* ===== verification/AdmissionSafety.thy ===== *)
theory AdmissionSafety
  imports Admission
begin

text \<open>
  What the admission scheduler guarantees over every interleaving of its calls: semaphores count
  exactly the tickets that hold them, no level exceeds its capacity, and the pump leaves no ticket
  waiting without a refusal at or ahead of it.
\<close>

section \<open>Buckets under level loops\<close>

lemma bucket_id_inject [simp]: "bucket_id l k = bucket_id l' k' \<longleftrightarrow> l = l' \<and> k = k'"
  by (cases l; cases l') (auto simp: bucket_id_def level_text_def)

definition bucket_at :: "admission \<Rightarrow> level_name \<Rightarrow> string \<Rightarrow> bucket_state option" where
  "bucket_at s level bk = jm_get (ad_buckets s) (bucket_id level bk)"

lemma bucket_at_frame [simp]:
  "bucket_at (put_ticket k t s) = bucket_at s"
  "bucket_at (s\<lparr> ad_tickets := ts \<rparr>) = bucket_at s"
  "bucket_at (s\<lparr> ad_tenantQueue := q \<rparr>) = bucket_at s" "bucket_at (s\<lparr> ad_accountQueues := qs \<rparr>) = bucket_at s"
  "bucket_at (s\<lparr> ad_arrivalCounter := n \<rparr>) = bucket_at s"
  by (simp_all add: bucket_at_def fun_eq_iff)

lemma bucket_at_put [simp]:
  "bucket_at (put_bucket level k b s) level' k' = (if level' = level \<and> k' = k then Some b else bucket_at s level' k')"
  by (simp add: bucket_at_def jm_get_set)

lemma bucketFor_at: "bucketFor opts now level bk s = (case bucket_at s level bk of Some b \<Rightarrow> b | None \<Rightarrow> new_bucket (ao_levels opts level) now)"
  by (simp add: bucketFor_def bucket_at_def)

lemma bucket_at_each_level:
  "bucket_at (each_level opts now keys act s) level bk =
     (case ao_levels opts level of
        Some c \<Rightarrow> if keys level = Some bk then Some (act c (bucketFor opts now level bk s)) else bucket_at s level bk
      | None \<Rightarrow> bucket_at s level bk)"
  by (cases level)
    (auto simp: each_level_def LEVELS_def bucketFor_at split: option.split)

definition held_at :: "admission \<Rightarrow> level_name \<Rightarrow> string \<Rightarrow> nat" where
  "held_at s level bk = (case bucket_at s level bk of Some b \<Rightarrow> bs_held b | None \<Rightarrow> 0)"

definition parked_at :: "admission \<Rightarrow> level_name \<Rightarrow> string \<Rightarrow> nat" where
  "parked_at s level bk = (case bucket_at s level bk of Some b \<Rightarrow> bs_parked b | None \<Rightarrow> 0)"

lemma bucketFor_counts [simp]:
  "bs_held (bucketFor opts now level bk s) = held_at s level bk" "bs_parked (bucketFor opts now level bk s) = parked_at s level bk"
  by (simp_all add: bucketFor_at held_at_def parked_at_def new_bucket_def split: option.split)

lemma held_at_each_level:
  assumes "ao_levels opts level = Some c"
  shows "held_at (each_level opts now keys act s) level bk =
      (if keys level = Some bk then bs_held (act c (bucketFor opts now level bk s)) else held_at s level bk)"
    "parked_at (each_level opts now keys act s) level bk =
      (if keys level = Some bk then bs_parked (act c (bucketFor opts now level bk s)) else parked_at s level bk)"
  using assms by (simp_all add: held_at_def parked_at_def bucket_at_each_level)

text \<open>A check changes no count.\<close>

lemma levelAdmits_counts:
  "held_at (fst (levelAdmits opts now l k w em s)) level bk = held_at s level bk"
  "parked_at (fst (levelAdmits opts now l k w em s)) level bk = parked_at s level bk"
  using bucketFor_counts [of opts now l k s]
  by (auto simp: levelAdmits_def held_at_def parked_at_def Let_def split: option.split limiter.split)

text \<open>What every check keeps, a run of checks keeps.\<close>

lemma first_refusing_rel:
  assumes "\<And>s. R s s" "\<And>s t u. R s t \<Longrightarrow> R t u \<Longrightarrow> R s u" "\<And>l k s. R s (fst (levelAdmits opts now l k w em s))"
  shows "R s (fst (first_refusing opts now keys w em ls s))"
proof (induction ls arbitrary: s)
  case (Cons l ls)
  have step: "R s s'" if "levelAdmits opts now l bk w em s = (s', b)" for bk s' b
    using assms(3) [of s l bk] that by simp
  show ?case
  proof (cases "keys l")
    case None
    then show ?thesis using Cons by simp
  next
    case (Some bk)
    obtain s' b where b: "levelAdmits opts now l bk w em s = (s', b)" by fastforce
    note step [OF b] assms(2) [OF step [OF b] Cons.IH]
    then show ?thesis using Some b Cons.IH by (cases b) auto
  qed
qed (simp add: assms(1))

lemma target_admits_rel:
  assumes "\<And>s. R s s" "\<And>s t u. R s t \<Longrightarrow> R t u \<Longrightarrow> R s u" "\<And>l k s. R s (fst (levelAdmits opts now l k w em s))"
  shows "R s (fst (target_admits opts now keys w em ls s))"
proof (induction ls arbitrary: s)
  case (Cons l ls)
  have step: "R s s'" if "levelAdmits opts now l bk w em s = (s', b)" for bk s' b
    using assms(3) [of s l bk] that by simp
  show ?case
  proof (cases "keys l")
    case None
    then show ?thesis using Cons by simp
  next
    case (Some bk)
    obtain s' b where b: "levelAdmits opts now l bk w em s = (s', b)" by fastforce
    note step [OF b] assms(2) [OF step [OF b] Cons.IH]
    then show ?thesis using Some b Cons.IH by (cases b) auto
  qed
qed (simp add: assms(1))

section \<open>Counting tickets\<close>

definition tickets_with :: "(internal_ticket \<Rightarrow> bool) \<Rightarrow> (string, internal_ticket) jsmap \<Rightarrow> nat" where
  "tickets_with P m = length (filter (\<lambda>(k, t). P t) m)"

lemma tickets_with_Nil [simp]: "tickets_with P [] = 0"
  by (simp add: tickets_with_def)

lemma tickets_with_set:
  "jm_get m k = Some t \<Longrightarrow> tickets_with P (jm_set k t' m) + of_bool (P t) = tickets_with P m + of_bool (P t')"
  by (induction m) (auto simp: tickets_with_def split: if_splits)

lemma tickets_with_new: "jm_get m k = None \<Longrightarrow> tickets_with P (jm_set k t' m) = tickets_with P m + of_bool (P t')"
  by (induction m) (auto simp: tickets_with_def split: if_splits)

lemma tickets_with_delete:
  "jm_wf m \<Longrightarrow> jm_get m k = Some t \<Longrightarrow> tickets_with P (jm_delete k m) + of_bool (P t) = tickets_with P m"
proof (induction m)
  case (Cons p m)
  have rest: "jm_wf m" using Cons.prems(1) by (simp add: jm_wf_def)
  show ?case
  proof (cases "fst p = k")
    case True
    then have "jm_delete k m = m" using Cons.prems(1)
      by (auto simp: jm_wf_def jm_delete_def image_iff intro!: filter_True)
    then show ?thesis using True Cons.prems(2) by (cases p) (auto simp: jm_delete_def tickets_with_def)
  next
    case False
    then show ?thesis using Cons rest by (cases p) (auto simp: jm_delete_def tickets_with_def)
  qed
qed simp

lemma tickets_with_cong: "(\<And>k t. (k, t) \<in> set m \<Longrightarrow> P t = Q t) \<Longrightarrow> tickets_with P m = tickets_with Q m"
  unfolding tickets_with_def by (auto intro!: arg_cong [where f = length] filter_cong)

section \<open>The invariant\<close>

text \<open>A ticket holds its semaphores while it is granted, and after an expiry while its slots are parked.\<close>

definition holds :: "internal_ticket \<Rightarrow> bool" where
  "holds t \<longleftrightarrow> tk_state (it_ticket t) = TS_granted \<or> it_slotParked t"

definition holding :: "level_name \<Rightarrow> string \<Rightarrow> internal_ticket \<Rightarrow> bool" where
  "holding level bk t \<longleftrightarrow> holds t \<and> it_keys t level = Some bk"

definition parking :: "level_name \<Rightarrow> string \<Rightarrow> internal_ticket \<Rightarrow> bool" where
  "parking level bk t \<longleftrightarrow> it_slotParked t \<and> it_keys t level = Some bk"

definition ticket_ok :: "internal_ticket \<Rightarrow> bool" where
  "ticket_ok t \<longleftrightarrow> (it_slotParked t \<longrightarrow> tk_state (it_ticket t) = TS_expired) \<and> 1 \<le> rv_wires (tk_reservation (it_ticket t))"

definition counts_exact :: "admission_options \<Rightarrow> admission \<Rightarrow> bool" where
  "counts_exact opts s \<longleftrightarrow> (\<forall>level c n bk. ao_levels opts level = Some c \<and> al_concurrency c = Some n \<longrightarrow>
     held_at s level bk = tickets_with (holding level bk) (ad_tickets s)
     \<and> parked_at s level bk = tickets_with (parking level bk) (ad_tickets s)
     \<and> held_at s level bk \<le> n)"

definition bucket_ok :: "level_config \<Rightarrow> bucket_state \<Rightarrow> bool" where
  "bucket_ok c b \<longleftrightarrow> (\<forall>w. bs_window b = Some w \<longrightarrow> window_ok (al_capWires c) w)
     \<and> (\<forall>tb. bs_bucket b = Some tb \<longrightarrow> tb_tokens tb \<le> al_capWires c) \<and> (\<forall>d\<in>set (bs_debts b). 0 < fst d)"

definition buckets_ok :: "admission_options \<Rightarrow> admission \<Rightarrow> bool" where
  "buckets_ok opts s \<longleftrightarrow> (\<forall>level bk c b. ao_levels opts level = Some c \<and> bucket_at s level bk = Some b \<longrightarrow> bucket_ok c b)"

definition tickets_ok :: "admission \<Rightarrow> bool" where
  "tickets_ok s \<longleftrightarrow> jm_wf (ad_tickets s) \<and> (\<forall>k t. jm_get (ad_tickets s) k = Some t \<longrightarrow> ticket_ok t)"

definition admission_inv :: "admission_options \<Rightarrow> admission \<Rightarrow> bool" where
  "admission_inv opts s \<longleftrightarrow> tickets_ok s \<and> buckets_ok opts s \<and> counts_exact opts s"

text \<open>What the configuration must satisfy; the first conjunct is the constructor's check.\<close>

definition options_ok :: "admission_options \<Rightarrow> bool" where
  "options_ok opts \<longleftrightarrow> (\<forall>level c. ao_levels opts level = Some c \<longrightarrow>
     0 < al_capWires c \<and> al_slots c \<noteq> Some 0 \<and> 0 \<le> else_zero (al_emergencyReserveFraction c))"

lemma new_bucket_ok:
  assumes "options_ok opts" "ao_levels opts level = Some c"
  shows "bucket_ok c (new_bucket (Some c) now)"
proof -
  have "0 < al_capWires c" "al_slots c \<noteq> Some 0" using assms unfolding options_ok_def by blast+
  then show ?thesis
    by (auto simp: bucket_ok_def new_bucket_def intro!: window_ok_empty split: if_splits option.splits)
qed

lemma bucketFor_ok:
  assumes "options_ok opts" "ao_levels opts level = Some c" "buckets_ok opts s"
  shows "bucket_ok c (bucketFor opts now level bk s)"
  using assms new_bucket_ok by (auto simp: bucketFor_at buckets_ok_def split: option.split)

lemma buckets_ok_each_level:
  assumes "options_ok opts" "buckets_ok opts s"
    and "\<And>level c bk b. ao_levels opts level = Some c \<Longrightarrow> keys level = Some bk \<Longrightarrow> b = bucketFor opts now level bk s \<Longrightarrow>
      bucket_ok c b \<Longrightarrow> bucket_ok c (act c b)"
  shows "buckets_ok opts (each_level opts now keys act s)"
  using assms(2,3) bucketFor_ok [OF assms(1) _ assms(2)]
  unfolding buckets_ok_def bucket_at_each_level by (auto split: if_splits)

lemma refund_bucket_ok: "bucket_ok c b \<Longrightarrow> bucket_ok c (refund_bucket wires r c b)"
  by (auto simp: bucket_ok_def refund_bucket_def bucketRefund_def window_ok_refund)

section \<open>Checks\<close>

definition room :: "level_config \<Rightarrow> rat \<Rightarrow> bucket_state \<Rightarrow> bool" where
  "room c wires b \<longleftrightarrow> (\<forall>n. al_concurrency c = Some n \<longrightarrow> bs_held b < n)
     \<and> (\<forall>w. al_algorithm c = Sliding_window \<and> bs_window b = Some w \<longrightarrow> windowSum w + wires \<le> al_capWires c)"

lemma admissibleCap_le:
  assumes "options_ok opts" "ao_levels opts level = Some c"
  shows "admissibleCap c em \<le> al_capWires c"
proof -
  have "0 < al_capWires c" "0 \<le> else_zero (al_emergencyReserveFraction c)" using assms unfolding options_ok_def by blast+
  then show ?thesis by (simp add: admissibleCap_def mult_le_cancel_left)
qed

lemma live_debts_sum:
  assumes "\<forall>d\<in>set ds. 0 < fst d"
  shows "0 \<le> sum_list (map fst (live_debts opts now ds))" "\<forall>d\<in>set (live_debts opts now ds). 0 < fst d"
proof -
  show pos: "\<forall>d\<in>set (live_debts opts now ds). 0 < fst d" using assms by (simp add: live_debts_def)
  show "0 \<le> sum_list (map fst (live_debts opts now ds))"
    by (rule sum_list_nonneg) (use pos in fastforce)
qed

lemma bucket_ok_debts: "bucket_ok c b \<Longrightarrow> \<forall>d\<in>set ds. 0 < fst d \<Longrightarrow> bucket_ok c (b\<lparr> bs_debts := ds \<rparr>)"
  by (simp add: bucket_ok_def)

lemma levelAdmits_bucket:
  assumes opts: "options_ok opts" "buckets_ok opts s" and c: "ao_levels opts level = Some c"
    and that: "bucket_at (fst (levelAdmits opts now level bk wires em s)) level bk = Some b"
  shows "bucket_ok c b \<and> (snd (levelAdmits opts now level bk wires em s) \<longrightarrow> room c wires b)"
proof -
  let ?old = "bucketFor opts now level bk s"
  let ?b = "?old\<lparr> bs_debts := live_debts opts now (bs_debts ?old) \<rparr>"
  let ?cap = "admissibleCap c em - sum_list (map fst (bs_debts ?b))"
  have ok0: "bucket_ok c ?old" by (rule bucketFor_ok [OF opts(1) c opts(2)])
  then have debts: "\<forall>d\<in>set (bs_debts ?old). 0 < fst d" by (simp add: bucket_ok_def)
  have cap: "?cap \<le> al_capWires c"
    using admissibleCap_le [OF opts(1) c, of em] live_debts_sum(1) [OF debts, of opts now] by simp
  have ok: "bucket_ok c ?b" by (rule bucket_ok_debts [OF ok0 live_debts_sum(2) [OF debts]])
  have "snd (levelAdmits opts now level bk wires em s) \<longrightarrow> semaphore_free c ?b"
    using c by (simp add: levelAdmits_def Let_def split: limiter.split option.split)
  then have sem: "snd (levelAdmits opts now level bk wires em s) \<longrightarrow> (\<forall>n. al_concurrency c = Some n \<longrightarrow> bs_held ?old < n)"
    by (auto simp: semaphore_free_def)
  have win: "window_ok (al_capWires c) (windowAdvance w (slotOf c now))" if "bs_window ?old = Some w" for w
    using ok0 window_ok_advance that by (simp add: bucket_ok_def)
  show ?thesis
    using that ok cap sem win c unfolding levelAdmits_def
    by (auto simp: Let_def bucket_ok_def room_def windowAdmits_def bucketAdvance_def min_def
        split: limiter.splits option.splits if_splits)
qed

lemma levelAdmits_other:
  "level' \<noteq> level \<or> bk' \<noteq> bk \<Longrightarrow> bucket_at (fst (levelAdmits opts now level bk wires em s)) level' bk' = bucket_at s level' bk'"
  by (auto simp: levelAdmits_def Let_def split: option.split limiter.split)

lemma levelAdmits_present:
  "ao_levels opts level = Some c \<Longrightarrow> bucket_at (fst (levelAdmits opts now level bk wires em s)) level bk \<noteq> None"
  by (auto simp: levelAdmits_def Let_def split: option.split limiter.split)

lemma levelAdmits_buckets_ok:
  assumes "options_ok opts" "buckets_ok opts s"
  shows "buckets_ok opts (fst (levelAdmits opts now level bk wires em s))"
  unfolding buckets_ok_def
proof (intro allI impI, elim conjE)
  fix level' bk' c b
  assume c: "ao_levels opts level' = Some c" and b: "bucket_at (fst (levelAdmits opts now level bk wires em s)) level' bk' = Some b"
  show "bucket_ok c b"
  proof (cases "level' = level \<and> bk' = bk")
    case True
    then show ?thesis using levelAdmits_bucket [OF assms] c b by blast
  next
    case False
    then have "bucket_at s level' bk' = Some b" using b levelAdmits_other [of level' level bk' bk] by auto
    then show ?thesis using assms(2) c unfolding buckets_ok_def by blast
  qed
qed

text \<open>The part of the state that checks may touch.\<close>

definition checked :: "admission_options \<Rightarrow> admission \<Rightarrow> admission \<Rightarrow> bool" where
  "checked opts s s' \<longleftrightarrow> ad_tickets s' = ad_tickets s \<and> held_at s' = held_at s \<and> parked_at s' = parked_at s
     \<and> (buckets_ok opts s \<longrightarrow> buckets_ok opts s')"

lemma levelAdmits_checked: "options_ok opts \<Longrightarrow> checked opts s (fst (levelAdmits opts now l k w em s))"
  by (auto simp: checked_def levelAdmits_counts fun_eq_iff levelAdmits_buckets_ok)

lemma checked_refl [simp]: "checked opts s s"
  by (simp add: checked_def)

lemma checked_trans: "checked opts s t \<Longrightarrow> checked opts t u \<Longrightarrow> checked opts s u"
  by (auto simp: checked_def)

lemma first_refusing_checked: "options_ok opts \<Longrightarrow> checked opts s (fst (first_refusing opts now keys w em ls s))"
  by (rule first_refusing_rel [where R = "checked opts"]) (auto intro: checked_trans levelAdmits_checked)

lemma target_admits_checked: "options_ok opts \<Longrightarrow> checked opts s (fst (target_admits opts now keys w em ls s))"
  by (rule target_admits_rel [where R = "checked opts"]) (auto intro: checked_trans levelAdmits_checked)

lemma checked_inv: "checked opts s s' \<Longrightarrow> admission_inv opts s \<Longrightarrow> admission_inv opts s'"
  unfolding checked_def admission_inv_def tickets_ok_def counts_exact_def by metis

definition has_room :: "admission_options \<Rightarrow> level_keys \<Rightarrow> rat \<Rightarrow> level_name \<Rightarrow> admission \<Rightarrow> bool" where
  "has_room opts keys wires level s \<longleftrightarrow> (\<forall>bk c. keys level = Some bk \<and> ao_levels opts level = Some c \<longrightarrow>
     (\<exists>b. bucket_at s level bk = Some b \<and> room c wires b))"

lemma levelAdmits_has_room:
  assumes "options_ok opts" "buckets_ok opts s" "levelAdmits opts now level bk w em s = (s', True)" "keys level = Some bk"
  shows "has_room opts keys w level s'"
  unfolding has_room_def
proof (intro allI impI, elim conjE)
  fix bk' c
  assume c: "keys level = Some bk'" "ao_levels opts level = Some c"
  then have "bk' = bk" using assms(4) by simp
  moreover obtain b where b: "bucket_at s' level bk = Some b"
    using levelAdmits_present [OF c(2), where now = now and bk = bk and wires = w and em = em and s = s] assms(3) by auto
  ultimately show "\<exists>b. bucket_at s' level bk' = Some b \<and> room c w b"
    using levelAdmits_bucket [OF assms(1,2) c(2), of now bk w em b] assms(3) by auto
qed

lemma has_room_cong:
  "(\<And>bk. bucket_at s' level bk = bucket_at s level bk) \<Longrightarrow> has_room opts keys w level s \<Longrightarrow> has_room opts keys w level s'"
  by (simp add: has_room_def)

text \<open>The shared step of the two runs of checks: the level passed, and the rest touches other levels.\<close>

lemma admitted_step:
  assumes "options_ok opts" "buckets_ok opts s" "keys l = Some bk" "levelAdmits opts now l bk w em s = (s1, True)"
    and "l \<notin> set ls"
    and "(\<forall>j\<in>set ls. has_room opts keys w j s') \<and> (\<forall>j bk. j \<notin> set ls \<longrightarrow> bucket_at s' j bk = bucket_at s1 j bk)"
  shows "(\<forall>j\<in>set (l # ls). has_room opts keys w j s') \<and> (\<forall>j bk. j \<notin> set (l # ls) \<longrightarrow> bucket_at s' j bk = bucket_at s j bk)"
proof -
  have "has_room opts keys w l s'"
    using has_room_cong [of s' l s1] levelAdmits_has_room [where keys = keys, OF assms(1,2,4,3)] assms(5,6) by simp
  moreover have "bucket_at s1 j bk' = bucket_at s j bk'" if "j \<noteq> l" for j bk'
    using levelAdmits_other [of j l bk' bk opts now w em s] that assms(4) by simp
  ultimately show ?thesis using assms(6) by simp
qed

lemma unkeyed_has_room: "keys l = None \<or> ao_levels opts l = None \<Longrightarrow> has_room opts keys w l s"
  by (auto simp: has_room_def)

lemma first_refusing_admitted:
  assumes "options_ok opts" "distinct ls" "buckets_ok opts s" "first_refusing opts now keys w em ls s = (s', None)"
  shows "(\<forall>l\<in>set ls. has_room opts keys w l s') \<and> (\<forall>l bk. l \<notin> set ls \<longrightarrow> bucket_at s' l bk = bucket_at s l bk)"
  using assms(2-4)
proof (induction ls arbitrary: s)
  case (Cons l ls)
  show ?case
  proof (cases "keys l = None \<or> ao_levels opts l = None")
    case True
    then have "first_refusing opts now keys w em ls s = (s', None)" using Cons.prems(3) by (auto split: option.splits)
    then show ?thesis using Cons True unkeyed_has_room [of keys l opts w s'] by simp
  next
    case False
    then obtain bk where bk: "keys l = Some bk" by auto
    obtain s1 b where b: "levelAdmits opts now l bk w em s = (s1, b)" by fastforce
    have rest: "b" "first_refusing opts now keys w em ls s1 = (s', None)"
      using Cons.prems(3) b bk False by (auto split: bool.splits)
    have "buckets_ok opts s1" using levelAdmits_buckets_ok [OF assms(1) Cons.prems(2), of now l bk w em] b by simp
    then have "(\<forall>j\<in>set ls. has_room opts keys w j s') \<and> (\<forall>j bk. j \<notin> set ls \<longrightarrow> bucket_at s' j bk = bucket_at s1 j bk)"
      using Cons.IH [OF _ _ rest(2)] Cons.prems(1) by simp
    then show ?thesis
      by (intro admitted_step [where keys = keys, OF assms(1) Cons.prems(2) bk, where now = now and em = em and ?s1.0 = s1])
        (use b rest(1) Cons.prems(1) in simp_all)
  qed
qed simp

lemma target_admits_admitted:
  assumes "options_ok opts" "distinct ls" "buckets_ok opts s" "target_admits opts now keys w em ls s = (s', True)"
  shows "(\<forall>l\<in>set ls. has_room opts keys w l s') \<and> (\<forall>l bk. l \<notin> set ls \<longrightarrow> bucket_at s' l bk = bucket_at s l bk)"
  using assms(2-4)
proof (induction ls arbitrary: s)
  case (Cons l ls)
  show ?case
  proof (cases "keys l")
    case None
    then show ?thesis using Cons unkeyed_has_room [of keys l opts w s'] by simp
  next
    case (Some bk)
    obtain s1 b where b: "levelAdmits opts now l bk w em s = (s1, b)" by fastforce
    have rest: "b" "target_admits opts now keys w em ls s1 = (s', True)"
      using Cons.prems(3) b Some by (auto split: bool.splits)
    have "buckets_ok opts s1" using levelAdmits_buckets_ok [OF assms(1) Cons.prems(2), of now l bk w em] b by simp
    then have "(\<forall>j\<in>set ls. has_room opts keys w j s') \<and> (\<forall>j bk. j \<notin> set ls \<longrightarrow> bucket_at s' j bk = bucket_at s1 j bk)"
      using Cons.IH [OF _ _ rest(2)] Cons.prems(1) by simp
    then show ?thesis
      by (intro admitted_step [where keys = keys, OF assms(1) Cons.prems(2) Some, where now = now and em = em and ?s1.0 = s1])
        (use b rest(1) Cons.prems(1) in simp_all)
  qed
qed simp

lemma LEVELS_all [simp]: "l \<in> set LEVELS" "distinct LEVELS"
  by (cases l; simp add: LEVELS_def) (simp add: LEVELS_def)

section \<open>Operations keep the invariant\<close>

text \<open>
  A step that changes one ticket keeps the counts exact when, at every semaphore, the counts move as
  the ticket's own holding does.
\<close>

definition counts_move :: "admission_options \<Rightarrow> internal_ticket \<Rightarrow> internal_ticket \<Rightarrow> admission \<Rightarrow> admission \<Rightarrow> bool" where
  "counts_move opts t t' s s' \<longleftrightarrow> (\<forall>level c n bk. ao_levels opts level = Some c \<and> al_concurrency c = Some n \<longrightarrow>
     held_at s' level bk + of_bool (holding level bk t) = held_at s level bk + of_bool (holding level bk t')
     \<and> parked_at s' level bk + of_bool (parking level bk t) = parked_at s level bk + of_bool (parking level bk t')
     \<and> held_at s' level bk \<le> n)"

lemma counts_move_exact:
  assumes "counts_exact opts s" "jm_get (ad_tickets s) k = Some t" "counts_move opts t t' s s'"
    and "ad_tickets s' = jm_set k t' (ad_tickets s)"
  shows "counts_exact opts s'"
  unfolding counts_exact_def
proof (intro allI impI)
  fix level c n bk
  assume c: "ao_levels opts level = Some c \<and> al_concurrency c = Some n"
  have "held_at s' level bk + of_bool (holding level bk t) = held_at s level bk + of_bool (holding level bk t')"
    "parked_at s' level bk + of_bool (parking level bk t) = parked_at s level bk + of_bool (parking level bk t')"
    "held_at s' level bk \<le> n"
    using assms(3) c unfolding counts_move_def by blast+
  moreover have "held_at s level bk = tickets_with (holding level bk) (ad_tickets s)"
    "parked_at s level bk = tickets_with (parking level bk) (ad_tickets s)"
    using assms(1) c unfolding counts_exact_def by blast+
  ultimately show "held_at s' level bk = tickets_with (holding level bk) (ad_tickets s')
      \<and> parked_at s' level bk = tickets_with (parking level bk) (ad_tickets s') \<and> held_at s' level bk \<le> n"
    unfolding assms(4)
    using tickets_with_set [OF assms(2), of "holding level bk" t'] tickets_with_set [OF assms(2), of "parking level bk" t']
    by simp
qed

lemma tickets_ok_set: "tickets_ok s \<Longrightarrow> ticket_ok t' \<Longrightarrow> ad_tickets s' = jm_set k t' (ad_tickets s) \<Longrightarrow> tickets_ok s'"
  by (auto simp: tickets_ok_def jm_get_set)

lemma ticket_step_inv:
  assumes "admission_inv opts s" "jm_get (ad_tickets s) k = Some t" "ad_tickets s' = jm_set k t' (ad_tickets s)"
    and "ticket_ok t'" "counts_move opts t t' s s'" "buckets_ok opts s'"
  shows "admission_inv opts s'"
  using assms tickets_ok_set counts_move_exact unfolding admission_inv_def by blast

lemma held_exact:
  assumes "admission_inv opts s" "ao_levels opts level = Some c" "al_concurrency c = Some n"
  shows "held_at s level bk = tickets_with (holding level bk) (ad_tickets s)"
    "parked_at s level bk = tickets_with (parking level bk) (ad_tickets s)" "held_at s level bk \<le> n"
  using assms unfolding admission_inv_def counts_exact_def by blast+

lemma tickets_with_pos: "jm_get m k = Some t \<Longrightarrow> P t \<Longrightarrow> 0 < tickets_with P m"
  using jm_get_in [of m k t] by (auto simp: tickets_with_def filter_empty_conv)

text \<open>Changes that touch no bucket and no holding.\<close>

lemma quiet_move:
  assumes "admission_inv opts s" "jm_get (ad_tickets s) k = Some t" "ticket_ok t'"
    and "it_keys t' = it_keys t" "it_slotParked t' = it_slotParked t" "holds t' = holds t"
  shows "admission_inv opts (put_ticket k t' s)"
proof (rule ticket_step_inv [OF assms(1,2) _ assms(3)])
  show "counts_move opts t t' s (put_ticket k t' s)"
    using held_exact(3) [OF assms(1)] assms(4-6)
    by (auto simp: counts_move_def held_at_def parked_at_def holding_def parking_def)
  show "buckets_ok opts (put_ticket k t' s)" using assms(1) by (simp add: admission_inv_def buckets_ok_def)
qed simp

lemma inv_ticket_ok: "admission_inv opts s \<Longrightarrow> jm_get (ad_tickets s) k = Some t \<Longrightarrow> ticket_ok t"
  unfolding admission_inv_def tickets_ok_def by blast

subsection \<open>Bucket loops\<close>

lemma refundLevels_counts:
  assumes "ao_levels opts level = Some c" "al_concurrency c = Some n"
  shows "held_at (refundLevels opts now keys w r s) level bk = (if keys level = Some bk \<and> r then held_at s level bk - 1 else held_at s level bk)"
    "parked_at (refundLevels opts now keys w r s) level bk = parked_at s level bk"
  using assms by (simp_all add: refundLevels_def held_at_each_level refund_bucket_def)

lemma consumeLevels_counts:
  assumes "ao_levels opts level = Some c" "al_concurrency c = Some n"
  shows "held_at (consumeLevels opts now t s) level bk = held_at s level bk + of_bool (it_keys t level = Some bk)"
    "parked_at (consumeLevels opts now t s) level bk = parked_at s level bk"
  using assms by (simp_all add: consumeLevels_def held_at_each_level consume_bucket_def)

lemma recordDebt_counts:
  assumes "ao_levels opts level = Some c"
  shows "held_at (recordDebt opts now keys w s) level bk = held_at s level bk"
    "parked_at (recordDebt opts now keys w s) level bk = parked_at s level bk"
  using assms by (simp_all add: recordDebt_def held_at_each_level)

lemma semaphore_keys_on: "ao_levels opts level = Some c \<Longrightarrow> al_concurrency c = Some n \<Longrightarrow> semaphore_keys opts keys level = keys level"
  by (simp add: semaphore_keys_def has_semaphore_def)

lemma bucket_loops_tickets [simp]:
  "ad_tickets (refundLevels opts now keys w r s) = ad_tickets s" "ad_tickets (consumeLevels opts now t s) = ad_tickets s"
  "ad_tickets (recordDebt opts now keys w s) = ad_tickets s"
  by (simp_all add: refundLevels_def consumeLevels_def recordDebt_def)

lemma refundLevels_ok: "options_ok opts \<Longrightarrow> buckets_ok opts s \<Longrightarrow> buckets_ok opts (refundLevels opts now keys w r s)"
  unfolding refundLevels_def by (rule buckets_ok_each_level) (auto intro: refund_bucket_ok)

lemma recordDebt_ok: "options_ok opts \<Longrightarrow> buckets_ok opts s \<Longrightarrow> buckets_ok opts (recordDebt opts now keys w s)"
  unfolding recordDebt_def by (auto intro!: buckets_ok_each_level bucket_ok_debts) (fastforce simp: bucket_ok_def)+

lemma counts_only_ok:
  "bucket_ok c (b\<lparr> bs_parked := p \<rparr>) = bucket_ok c b" "bucket_ok c (b\<lparr> bs_held := h \<rparr>) = bucket_ok c b"
  by (simp_all add: bucket_ok_def)

text \<open>Consuming is safe where the checks found room.\<close>

lemma windowSum_advance_le: "window_ok cap w \<Longrightarrow> windowSum (windowAdvance w n) \<le> windowSum w"
proof -
  assume ok: "window_ok cap w"
  then have "0 \<le> windowSum w" by (auto simp: window_ok_def windowSum_sum intro: sum_list_nonneg)
  then show ?thesis
    using ok sum_list_drop_le [of "sw_slots w"]
    by (auto simp: window_ok_def windowAdvance_def windowSum_sum Let_def sum_list_replicate)
qed

lemma consume_bucket_ok:
  assumes "bucket_ok c b" "room c wires b" "0 \<le> wires"
  shows "bucket_ok c (consume_bucket now wires c b)"
proof -
  have "window_ok (al_capWires c) (windowConsume (windowAdvance w (slotOf c now)) wires)"
    if w: "bs_window b = Some w" "al_algorithm c = Sliding_window" for w
  proof (rule window_ok_consume [OF _ _ order_refl assms(3)])
    have ok: "window_ok (al_capWires c) w" using assms(1) w by (simp add: bucket_ok_def)
    then show "window_ok (al_capWires c) (windowAdvance w (slotOf c now))" by (rule window_ok_advance)
    show "windowAdmits (windowAdvance w (slotOf c now)) (al_capWires c) wires"
      using assms(2) w windowSum_advance_le [OF ok, of "slotOf c now"] by (auto simp: room_def windowAdmits_def)
  qed
  then show ?thesis
    using assms by (auto simp: bucket_ok_def consume_bucket_def bucketConsume_def)
qed

lemma consumeLevels_ok:
  assumes "options_ok opts" "buckets_ok opts s" "\<forall>l. has_room opts (it_keys t) (rv_wires (tk_reservation (it_ticket t))) l s"
    and "0 \<le> rv_wires (tk_reservation (it_ticket t))"
  shows "buckets_ok opts (consumeLevels opts now t s)"
  unfolding consumeLevels_def
proof (rule buckets_ok_each_level [OF assms(1,2)])
  fix level c bk b
  assume a: "ao_levels opts level = Some c" "it_keys t level = Some bk" "b = bucketFor opts now level bk s" "bucket_ok c b"
  then obtain b' where "bucket_at s level bk = Some b'" "room c (rv_wires (tk_reservation (it_ticket t))) b'"
    using assms(3) unfolding has_room_def by blast
  then have "room c (rv_wires (tk_reservation (it_ticket t))) b" using a(3) by (simp add: bucketFor_at)
  then show "bucket_ok c (consume_bucket now (rv_wires (tk_reservation (it_ticket t))) c b)"
    using a(4) assms(4) by (intro consume_bucket_ok)
qed

lemma has_room_held:
  assumes "has_room opts keys w level s" "keys level = Some bk" "ao_levels opts level = Some c" "al_concurrency c = Some n"
  shows "held_at s level bk < n"
  using assms unfolding has_room_def by (auto simp: held_at_def room_def)

subsection \<open>Grants\<close>

lemma counts_moveI:
  assumes "\<And>level c n bk. ao_levels opts level = Some c \<Longrightarrow> al_concurrency c = Some n \<Longrightarrow>
      held_at s' level bk + of_bool (holding level bk t) = held_at s level bk + of_bool (holding level bk t')"
    and "\<And>level c n bk. ao_levels opts level = Some c \<Longrightarrow> al_concurrency c = Some n \<Longrightarrow>
      parked_at s' level bk + of_bool (parking level bk t) = parked_at s level bk + of_bool (parking level bk t')"
    and "\<And>level c n bk. ao_levels opts level = Some c \<Longrightarrow> al_concurrency c = Some n \<Longrightarrow> held_at s' level bk \<le> n"
  shows "counts_move opts t t' s s'"
  using assms unfolding counts_move_def by blast

lemma grant_bucket_at [simp]: "bucket_at (grant opts now k t s) = bucket_at (consumeLevels opts now t s)"
  by (simp add: grant_def Let_def)

lemma same_buckets_counts:
  "bucket_at s' = bucket_at s \<Longrightarrow> held_at s' = held_at s" "bucket_at s' = bucket_at s \<Longrightarrow> parked_at s' = parked_at s"
  by (simp_all add: held_at_def parked_at_def fun_eq_iff)

lemma put_ticket_counts [simp]:
  "held_at (put_ticket k t s) = held_at s" "parked_at (put_ticket k t s) = parked_at s"
  "buckets_ok opts (put_ticket k t s) = buckets_ok opts s"
  by (simp_all add: held_at_def parked_at_def buckets_ok_def fun_eq_iff)

lemma same_buckets_ok: "bucket_at s' = bucket_at s \<Longrightarrow> buckets_ok opts s' = buckets_ok opts s"
  by (simp add: buckets_ok_def)

lemma consumed_le:
  assumes "options_ok opts" "admission_inv opts s" "\<forall>l. has_room opts (it_keys t) w l s"
    and "ao_levels opts level = Some c" "al_concurrency c = Some n"
  shows "held_at (consumeLevels opts now t s) level bk \<le> n"
  using has_room_held [OF assms(3) [rule_format] _ assms(4,5), of bk] held_exact(3) [OF assms(2,4,5), of bk]
  by (simp add: consumeLevels_counts [OF assms(4,5)] Suc_le_eq)

lemma grant_inv:
  assumes "options_ok opts" "admission_inv opts s" "jm_get (ad_tickets s) k = Some t" "tk_state (it_ticket t) = TS_queued"
    and room: "\<forall>l. has_room opts (it_keys t) (rv_wires (tk_reservation (it_ticket t))) l s"
  shows "admission_inv opts (grant opts now k t s)"
proof (rule ticket_step_inv [OF assms(2,3) grant_tickets])
  have ok: "ticket_ok t" by (rule inv_ticket_ok [OF assms(2,3)])
  then have np: "\<not> it_slotParked t" using assms(4) by (auto simp: ticket_ok_def)
  then show "ticket_ok (granted_ticket opts now t)" using ok by (simp add: ticket_ok_def)
  show "buckets_ok opts (grant opts now k t s)"
    using consumeLevels_ok [OF assms(1) _ room, of now] assms(2) ok
    by (simp add: same_buckets_ok [OF grant_bucket_at] admission_inv_def ticket_ok_def)
  show "counts_move opts t (granted_ticket opts now t) s (grant opts now k t s)"
    by (rule counts_moveI)
      (use np assms(4) consumed_le [OF assms(1,2) room] in
        \<open>simp_all add: same_buckets_counts [OF grant_bucket_at] consumeLevels_counts holding_def parking_def holds_def\<close>)
qed

lemma firstRefusingLevel_room:
  assumes "options_ok opts" "admission_inv opts s" "firstRefusingLevel opts now t s = (s', None)"
  shows "\<forall>l. has_room opts (it_keys t) (rv_wires (tk_reservation (it_ticket t))) l s'"
  using first_refusing_admitted [OF assms(1) LEVELS_all(2)] assms(2,3)
  unfolding firstRefusingLevel_def admission_inv_def using LEVELS_all(1) by blast

lemma firstRefusingLevel_inv:
  assumes "options_ok opts" "admission_inv opts s" "firstRefusingLevel opts now t s = (s', r)"
  shows "admission_inv opts s'"
  using checked_inv [OF first_refusing_checked [OF assms(1)] assms(2)] assms(3)
  unfolding firstRefusingLevel_def by (metis fst_conv)

lemma grant_pass_inv:
  assumes "options_ok opts"
  shows "admission_inv opts s \<Longrightarrow> \<forall>k\<in>set ks. is_queued s k \<Longrightarrow> admission_inv opts (fst (grant_pass opts now blocked ks s))"
proof (induction ks arbitrary: blocked s)
  case (Cons k ks)
  from Cons.prems(2) obtain t where t: "jm_get (ad_tickets s) k = Some t" "tk_state (it_ticket t) = TS_queued"
    by (auto simp: is_queued_def split: option.splits)
  obtain s1 r where r: "firstRefusingLevel opts now t s = (s1, r)" by fastforce
  note inv1 = firstRefusingLevel_inv [OF assms Cons.prems(1) r] and same = firstRefusingLevel_tickets [OF r]
  have q: "\<forall>k\<in>set ks. is_queued s1 k" using Cons.prems(2) same by (simp add: is_queued_def)
  show ?case
  proof (cases r)
    case None
    have "admission_inv opts (grant opts now k t s1)"
      using grant_inv [OF assms inv1 _ t(2)] firstRefusingLevel_room [OF assms Cons.prems(1)] r None t same by simp
    then show ?thesis using Cons r None t by simp
  next
    case (Some level)
    then show ?thesis using Cons.IH [OF inv1 q] Cons.IH [OF Cons.prems(1)] Cons.prems(2) r t by simp
  qed
qed simp

lemma grant_loop_inv:
  "options_ok opts \<Longrightarrow> admission_inv opts s \<Longrightarrow> admission_inv opts (fst (grant_loop opts now s))"
proof (induction opts now s rule: grant_loop.induct)
  case (1 opts now s)
  obtain s1 r where r: "grant_pass opts now [] (queuedInGrantOrder s) s = (s1, r)" by fastforce
  have inv1: "admission_inv opts s1"
    using grant_pass_inv [OF "1.prems", of "queuedInGrantOrder s" now "[]"] r by (simp add: queued_keys_def)
  show ?case
  proof (cases r)
    case None
    then show ?thesis using r inv1 by (subst grant_loop.simps) simp
  next
    case (Some k)
    have "admission_inv opts (fst (grant_loop opts now s1))"
      by (rule "1.IH" [OF r [symmetric] Some "1.prems"(1) inv1])
    then show ?thesis using r Some by (subst grant_loop.simps) (auto split: prod.split)
  qed
qed

subsection \<open>Expiry and settlement\<close>

lemma any_semaphore:
  "ao_levels opts level = Some c \<Longrightarrow> al_concurrency c = Some n \<Longrightarrow> keys level = Some bk \<Longrightarrow>
    list_ex (\<lambda>level. semaphore_keys opts keys level \<noteq> None) LEVELS"
  unfolding list_ex_iff using semaphore_keys_on LEVELS_all(1) by (metis option.distinct(1))

lemma parkSlots_counts:
  assumes "ao_levels opts level = Some c" "al_concurrency c = Some n"
  shows "held_at (parkSlots opts now k t s) level bk = held_at s level bk"
    "parked_at (parkSlots opts now k t s) level bk = parked_at s level bk + of_bool (it_keys t level = Some bk)"
  using held_at_each_level [OF assms(1)] semaphore_keys_on [OF assms]
  by (simp_all add: parkSlots_def)

lemma parkSlots_ok: "options_ok opts \<Longrightarrow> buckets_ok opts s \<Longrightarrow> buckets_ok opts (parkSlots opts now k t s)"
  unfolding parkSlots_def by (auto intro!: buckets_ok_each_level simp: counts_only_ok)

lemma expire_inv:
  assumes "options_ok opts" "admission_inv opts s"
  shows "admission_inv opts (expire_ticket opts now s k)"
proof (cases "expire_ticket opts now s k = s")
  case False
  then obtain t where t: "jm_get (ad_tickets s) k = Some t" "tk_state (it_ticket t) = TS_granted"
    and e: "expire_ticket opts now s k =
      parkSlots opts now k (t\<lparr> it_ticket := (it_ticket t)\<lparr> tk_state := TS_expired \<rparr> \<rparr>)
        (refundLevels opts now (it_keys t) (rv_wires (reservationMinus (tk_reservation (it_ticket t))
          (case tk_cover (it_ticket t) of Some c \<Rightarrow> c | None \<Rightarrow> wires_only 0))) False s)"
    by (auto simp: expire_ticket_def Let_def split: option.splits if_splits)
  let ?t' = "t\<lparr> it_ticket := (it_ticket t)\<lparr> tk_state := TS_expired \<rparr>,
    it_slotParked := list_ex (\<lambda>level. semaphore_keys opts (it_keys t) level \<noteq> None) LEVELS \<rparr>"
  have ok: "ticket_ok t" by (rule inv_ticket_ok [OF assms(2) t(1)])
  have np: "\<not> it_slotParked t" using ok t(2) by (auto simp: ticket_ok_def)
  show ?thesis
  proof (rule ticket_step_inv [OF assms(2) t(1)])
    show "ad_tickets (expire_ticket opts now s k) = jm_set k ?t' (ad_tickets s)" by (simp add: e parkSlots_def)
    show "ticket_ok ?t'" using ok by (simp add: ticket_ok_def)
    show "buckets_ok opts (expire_ticket opts now s k)"
      using assms unfolding e admission_inv_def by (simp add: parkSlots_ok refundLevels_ok)
    show "counts_move opts t ?t' s (expire_ticket opts now s k)"
      unfolding e
      by (rule counts_moveI)
        (use np t(2) held_exact(3) [OF assms(2)] any_semaphore in
          \<open>auto simp: parkSlots_counts refundLevels_counts holding_def parking_def holds_def\<close>)
  qed
qed (simp add: assms(2))

lemma pump_inv:
  assumes "options_ok opts" "admission_inv opts s"
  shows "admission_inv opts (fst (pump opts now s))"
proof -
  have "admission_inv opts (foldl (expire_ticket opts now) s ks)" for ks
    using assms(2) by (induction ks arbitrary: s) (auto intro: expire_inv [OF assms(1)])
  then show ?thesis unfolding pump_def by (rule grant_loop_inv [OF assms(1)])
qed

lemma unparkSlots_inv:
  assumes "options_ok opts" "admission_inv opts s" "jm_get (ad_tickets s) k = Some t"
  shows "admission_inv opts (unparkSlots opts now k t s)"
proof (cases "it_slotParked t")
  case True
  have ok: "ticket_ok t" by (rule inv_ticket_ok [OF assms(2,3)])
  let ?t' = "t\<lparr> it_slotParked := False \<rparr>" and ?s' = "unparkSlots opts now k t s"
  have counts: "held_at ?s' level bk = held_at s level bk - of_bool (it_keys t level = Some bk)"
    "parked_at ?s' level bk = parked_at s level bk - of_bool (it_keys t level = Some bk)"
    if "ao_levels opts level = Some c" "al_concurrency c = Some n" for level c n bk
    using held_at_each_level [OF that(1)] semaphore_keys_on [OF that] True
    by (simp_all add: unparkSlots_def)
  have pos: "0 < held_at s level bk \<and> 0 < parked_at s level bk"
    if "ao_levels opts level = Some c" "al_concurrency c = Some n" "it_keys t level = Some bk" for level c n bk
    using tickets_with_pos [OF assms(3), of "holding level bk"] tickets_with_pos [OF assms(3), of "parking level bk"] True that
    by (simp add: held_exact [OF assms(2) that(1,2)] holding_def parking_def holds_def)
  show ?thesis
  proof (rule ticket_step_inv [OF assms(2,3)])
    show "ad_tickets ?s' = jm_set k ?t' (ad_tickets s)" using True by (simp add: unparkSlots_def)
    show "ticket_ok ?t'" using ok by (simp add: ticket_ok_def)
    show "buckets_ok opts ?s'"
      using assms True unfolding admission_inv_def
      by (auto simp: unparkSlots_def counts_only_ok intro!: buckets_ok_each_level)
    have "held_at ?s' level bk + of_bool (holding level bk t) = held_at s level bk + of_bool (holding level bk ?t')"
      "parked_at ?s' level bk + of_bool (parking level bk t) = parked_at s level bk + of_bool (parking level bk ?t')"
      "held_at ?s' level bk \<le> n"
      if c: "ao_levels opts level = Some c" "al_concurrency c = Some n" for level c n bk
      using pos [OF c, of bk] held_exact(3) [OF assms(2) c, of bk] True ok
      by (auto simp: counts [OF c] holding_def parking_def holds_def ticket_ok_def)
    then show "counts_move opts t ?t' s ?s'" by (rule counts_moveI)
  qed
qed (simp add: unparkSlots_def assms(2))

lemma applied_cases:
  obtains "applied opId t = (t, True)" | "applied opId t = (t\<lparr> it_appliedOps := it_appliedOps t @ [opId] \<rparr>, False)"
  by (cases "opId \<in> set (it_appliedOps t)") (auto simp: applied_def)

lemma ops_fields [simp]:
  "ticket_ok (t\<lparr> it_appliedOps := x \<rparr>) = ticket_ok t" "holds (t\<lparr> it_appliedOps := x \<rparr>) = holds t"
  by (simp_all add: ticket_ok_def holds_def)

lemma settle_granted_inv:
  assumes "options_ok opts" "admission_inv opts s" "jm_get (ad_tickets s) k = Some t" "tk_state (it_ticket t) = TS_granted"
    and "ticket_ok t'" "\<not> holds t'"
  shows "admission_inv opts (put_ticket k t' (recordDebt opts now (it_keys t) d (refundLevels opts now (it_keys t) w True s)))"
    (is "admission_inv opts ?s'")
proof (rule ticket_step_inv [OF assms(2,3) _ assms(5)])
  have np: "\<not> it_slotParked t" using inv_ticket_ok [OF assms(2,3)] assms(4) by (auto simp: ticket_ok_def)
  have pos: "0 < held_at s level bk"
    if "ao_levels opts level = Some c" "al_concurrency c = Some n" "it_keys t level = Some bk" for level c n bk
    using tickets_with_pos [OF assms(3), of "holding level bk"] that assms(4)
    by (simp add: held_exact [OF assms(2) that(1,2)] holding_def holds_def)
  show "ad_tickets ?s' = jm_set k t' (ad_tickets s)" by simp
  show "buckets_ok opts ?s'" using assms(1,2) by (simp add: recordDebt_ok refundLevels_ok admission_inv_def)
  have "held_at ?s' level bk + of_bool (holding level bk t) = held_at s level bk + of_bool (holding level bk t')"
    "parked_at ?s' level bk + of_bool (parking level bk t) = parked_at s level bk + of_bool (parking level bk t')"
    "held_at ?s' level bk \<le> n"
    if c: "ao_levels opts level = Some c" "al_concurrency c = Some n" for level c n bk
    using pos [OF c, of bk] held_exact(3) [OF assms(2) c, of bk] np assms(4,6)
    by (auto simp: recordDebt_counts [OF c(1)] refundLevels_counts [OF c] holding_def parking_def holds_def)
  then show "counts_move opts t t' s ?s'" by (rule counts_moveI)
qed

lemma recordDebt_inv:
  assumes "options_ok opts" "admission_inv opts s"
  shows "admission_inv opts (recordDebt opts now keys w s)"
  using assms recordDebt_ok [OF assms(1)] recordDebt_counts
  unfolding admission_inv_def tickets_ok_def counts_exact_def bucket_loops_tickets by (metis (no_types, lifting))

lemma release_inv:
  assumes "options_ok opts" "admission_inv opts s"
  shows "admission_inv opts (release opts now unitId generation actuals opId s)"
proof (cases "jm_get (ad_tickets s) (ticket_key unitId generation)")
  case None
  then show ?thesis using assms by (simp add: release_def Let_def)
next
  case (Some t)
  let ?k = "ticket_key unitId generation"
  note ok = inv_ticket_ok [OF assms(2) Some]
  show ?thesis
  proof (cases rule: applied_cases [of opId t])
    case 1
    then show ?thesis using Some assms by (simp add: release_def Let_def)
  next
    case 2
    let ?t = "t\<lparr> it_appliedOps := it_appliedOps t @ [opId] \<rparr>"
    have quiet: "admission_inv opts (put_ticket ?k ?t s)" by (rule quiet_move [OF assms(2) Some]) (use ok in simp_all)
    consider "tk_state (it_ticket t) = TS_granted" | "tk_state (it_ticket t) = TS_expired"
      | "tk_state (it_ticket t) \<noteq> TS_granted" "tk_state (it_ticket t) \<noteq> TS_expired" by blast
    then show ?thesis
    proof cases
      case 1
      then have "ticket_ok (?t\<lparr> it_ticket := (it_ticket t)\<lparr> tk_state := TS_released \<rparr> \<rparr>)"
        "\<not> holds (?t\<lparr> it_ticket := (it_ticket t)\<lparr> tk_state := TS_released \<rparr> \<rparr>)"
        using ok by (auto simp: ticket_ok_def holds_def)
      from settle_granted_inv [OF assms Some 1 this] 1 2 Some show ?thesis by (simp add: release_def Let_def)
    next
      case e: 2
      have "admission_inv opts (unparkSlots opts now ?k ?t (recordDebt opts now (it_keys t) w (put_ticket ?k ?t s)))" for w
        by (rule unparkSlots_inv [OF assms(1) recordDebt_inv [OF assms(1) quiet]]) simp
      then show ?thesis using e 2 Some by (simp add: release_def Let_def)
    next
      case 3
      then show ?thesis using 2 Some quiet by (simp add: release_def Let_def)
    qed
  qed
qed

lemma renew_inv: "admission_inv opts s \<Longrightarrow> admission_inv opts (renew opts now unitId generation s)"
  using inv_ticket_ok
  by (auto simp: renew_def Let_def holds_def ticket_ok_def split: option.split intro!: quiet_move)

lemma checkpointCover_inv: "admission_inv opts s \<Longrightarrow> admission_inv opts (fst (checkpointCover now unitId generation cover opId s))"
  using inv_ticket_ok
  by (auto simp: checkpointCover_def Let_def applied_def holds_def ticket_ok_def split: option.split intro!: quiet_move)

lemma cancel_mark_inv: "admission_inv opts s \<Longrightarrow> admission_inv opts (fst (cancel_mark unitId generation opId s))"
  using inv_ticket_ok
  by (auto simp: cancel_mark_def Let_def applied_def holds_def ticket_ok_def split: option.split intro!: quiet_move)

subsection \<open>Arrival and rebinding\<close>

lemma counts_exact_cong:
  assumes "counts_exact opts s" "held_at s' = held_at s" "parked_at s' = parked_at s"
    and "\<And>level bk. tickets_with (holding level bk) (ad_tickets s') = tickets_with (holding level bk) (ad_tickets s)"
    and "\<And>level bk. tickets_with (parking level bk) (ad_tickets s') = tickets_with (parking level bk) (ad_tickets s)"
  shows "counts_exact opts s'"
  using assms unfolding counts_exact_def by metis

lemma mint_inv:
  assumes "admission_inv opts s" "jm_get (ad_tickets s) (ticket_key (aq_unitId req) (aq_generation req)) = None"
    and "1 \<le> rv_wires (aq_reservation req)" "st = TS_queued \<or> st = TS_denied" "mintTicket opts now req keys st why s = Inr s'"
  shows "admission_inv opts s'"
proof -
  let ?k = "ticket_key (aq_unitId req) (aq_generation req)"
  from assms(5) obtain t where t: "ad_tickets s' = jm_set ?k t (ad_tickets s)" "bucket_at s' = bucket_at s"
    and shape: "tk_state (it_ticket t) = st" "\<not> it_slotParked t" "tk_reservation (it_ticket t) = aq_reservation req"
    by (auto simp: mintTicket_def Let_def split: if_splits prod.splits)
  have free: "\<not> holding level bk t" "\<not> parking level bk t" for level bk
    using shape assms(4) by (auto simp: holding_def parking_def holds_def)
  have "tickets_ok s'"
    using tickets_ok_set [OF _ _ t(1)] assms(1,3) shape by (simp add: admission_inv_def ticket_ok_def)
  moreover have "counts_exact opts s'"
    by (rule counts_exact_cong [of opts s])
      (use assms(1) free in \<open>simp_all add: admission_inv_def t(1) tickets_with_new [OF assms(2)] same_buckets_counts [OF t(2)]\<close>)
  ultimately show ?thesis using assms(1) same_buckets_ok [OF t(2)] by (simp add: admission_inv_def)
qed

lemma delete_inv:
  assumes "admission_inv opts s" "jm_get (ad_tickets s) k = Some t" "\<not> holds t" "\<not> it_slotParked t"
  shows "admission_inv opts (s\<lparr> ad_tickets := jm_delete k (ad_tickets s) \<rparr>)" (is "admission_inv opts ?s'")
proof -
  have wf: "jm_wf (ad_tickets s)" using assms(1) by (simp add: admission_inv_def tickets_ok_def)
  have same: "bucket_at ?s' = bucket_at s" by simp
  have gone: "tickets_with P (ad_tickets ?s') = tickets_with P (ad_tickets s)" if "\<not> P t" for P
    using tickets_with_delete [OF wf assms(2), of P] that by simp
  have "counts_exact opts ?s'"
  proof (rule counts_exact_cong)
    show "counts_exact opts s" using assms(1) by (simp add: admission_inv_def)
    show "tickets_with (holding level bk) (ad_tickets ?s') = tickets_with (holding level bk) (ad_tickets s)" for level bk
      by (rule gone) (simp add: holding_def assms(3))
    show "tickets_with (parking level bk) (ad_tickets ?s') = tickets_with (parking level bk) (ad_tickets s)" for level bk
      by (rule gone) (simp add: parking_def assms(4))
  qed (rule same_buckets_counts [OF same])+
  moreover have "tickets_ok ?s'" using assms(1) by (auto simp: admission_inv_def tickets_ok_def jm_get_delete split: if_splits)
  ultimately show ?thesis using assms(1) same_buckets_ok [OF same] by (simp add: admission_inv_def)
qed

lemma admit_fresh_inv:
  assumes "admission_inv opts s" "jm_get (ad_tickets s) (ticket_key (aq_unitId req) (aq_generation req)) = None"
  shows "admission_inv opts (fst (admit_fresh opts now req s))"
proof -
  have "admission_inv opts s'"
    if "\<not> rv_wires (aq_reservation req) < 1" "mintTicket opts now req keys st why s = Inr s'" "st = TS_queued \<or> st = TS_denied"
    for keys st why s'
    using mint_inv [OF assms _ that(3,2)] that(1) by simp
  then show ?thesis
    using assms(1) by (simp add: admit_fresh_def Let_def split: option.split sum.split)
qed

lemma unparkSlots_settled:
  "jm_get (ad_tickets s) k = Some t \<Longrightarrow> jm_get (ad_tickets (unparkSlots opts now k t s)) k = Some (t\<lparr> it_slotParked := False \<rparr>)"
  by (simp add: unparkSlots_def)

lemma enqueue_mint_inv:
  assumes "options_ok opts" "admission_inv opts s"
  shows "admission_inv opts (fst (enqueue_mint opts now req s))"
proof (cases "jm_get (ad_tickets s) (ticket_key (aq_unitId req) (aq_generation req))")
  case None
  then show ?thesis using admit_fresh_inv [OF assms(2) None] by (simp add: enqueue_mint_def)
next
  case (Some t)
  let ?k = "ticket_key (aq_unitId req) (aq_generation req)"
  let ?u = "unparkSlots opts now ?k t s"
  show ?thesis
  proof (cases "tk_state (it_ticket t) \<in> {TS_released, TS_refunded, TS_expired}")
    case True
    have "admission_inv opts (?u\<lparr> ad_tickets := jm_delete ?k (ad_tickets ?u) \<rparr>)"
      by (rule delete_inv [OF unparkSlots_inv [OF assms Some] unparkSlots_settled [OF Some]])
        (use True in \<open>auto simp: holds_def\<close>)
    then show ?thesis using Some True admit_fresh_inv by (simp add: enqueue_mint_def Let_def jm_get_delete)
  next
    case False
    then show ?thesis using Some assms(2) by (simp add: enqueue_mint_def Let_def)
  qed
qed

lemma transfer_inv:
  assumes "options_ok opts" "admission_inv opts s" "jm_get (ad_tickets s) k = Some t" "tk_state (it_ticket t) = TS_granted"
    and room: "\<forall>l. has_room opts (it_keys t') (rv_wires (tk_reservation (it_ticket t'))) l s"
    and t': "ticket_ok t'" "tk_state (it_ticket t') = TS_granted"
  shows "admission_inv opts (refundLevels opts now (it_keys t) w True (consumeLevels opts now t' (put_ticket k t' s)))"
    (is "admission_inv opts ?s'")
proof (rule ticket_step_inv [OF assms(2,3) _ t'(1)])
  have np: "\<not> it_slotParked t" "\<not> it_slotParked t'"
    using inv_ticket_ok [OF assms(2,3)] t' assms(4) by (auto simp: ticket_ok_def)
  have room': "\<forall>l. has_room opts (it_keys t') (rv_wires (tk_reservation (it_ticket t'))) l (put_ticket k t' s)"
    using room has_room_cong [where s = s and s' = "put_ticket k t' s"] by simp
  have pos: "0 < held_at s level bk"
    if "ao_levels opts level = Some c" "al_concurrency c = Some n" "it_keys t level = Some bk" for level c n bk
    using tickets_with_pos [OF assms(3), of "holding level bk"] that assms(4)
    by (simp add: held_exact [OF assms(2) that(1,2)] holding_def holds_def)
  show "ad_tickets ?s' = jm_set k t' (ad_tickets s)" by simp
  show "buckets_ok opts ?s'"
    using assms(1,2) t'(1) consumeLevels_ok [OF assms(1) _ room'] by (simp add: refundLevels_ok admission_inv_def ticket_ok_def)
  have "held_at ?s' level bk + of_bool (holding level bk t) = held_at s level bk + of_bool (holding level bk t')"
    "parked_at ?s' level bk + of_bool (parking level bk t) = parked_at s level bk + of_bool (parking level bk t')"
    "held_at ?s' level bk \<le> n"
    if c: "ao_levels opts level = Some c" "al_concurrency c = Some n" for level c n bk
    using pos [OF c, of bk] held_exact(3) [OF assms(2) c, of bk] has_room_held [OF room [rule_format] _ c, of bk] np assms(4) t'(2)
    by (auto simp: refundLevels_counts [OF c] consumeLevels_counts [OF c] holding_def parking_def holds_def)
  then show "counts_move opts t t' s ?s'" by (rule counts_moveI)
qed

lemma rebind_inv:
  assumes "options_ok opts" "admission_inv opts s"
  shows "admission_inv opts (fst (rebind opts now unitId generation target opId s))"
proof (cases "\<exists>t. jm_get (ad_tickets s) (ticket_key unitId generation) = Some t \<and> tk_state (it_ticket t) = TS_granted
    \<and> opId \<notin> set (it_appliedOps t)")
  case False
  then show ?thesis using assms(2) by (auto simp: rebind_def applied_def Let_def split: option.split)
next
  case True
  let ?k = "ticket_key unitId generation"
  obtain t0 where t0: "jm_get (ad_tickets s) ?k = Some t0" "tk_state (it_ticket t0) = TS_granted" "opId \<notin> set (it_appliedOps t0)"
    using True by blast
  let ?t = "t0\<lparr> it_appliedOps := it_appliedOps t0 @ [opId] \<rparr>"
  let ?keys = "admissionLevelKeys (tk_resolvedTenant (it_ticket t0)) (Some target)"
  let ?wires = "rv_wires (tk_reservation (it_ticket t0))" and ?em = "aq_emergency (it_request t0)"
  let ?t' = "?t\<lparr> it_keys := ?keys, it_request := (it_request t0)\<lparr> aq_scope := Some target \<rparr>,
    it_ticket := (it_ticket t0)\<lparr> tk_scope := Some target \<rparr> \<rparr>"
  note ok = inv_ticket_ok [OF assms(2) t0(1)]
  have inv0: "admission_inv opts (put_ticket ?k ?t s)" by (rule quiet_move [OF assms(2) t0(1)]) (use ok in simp_all)
  obtain s1 b where b: "target_admits opts now ?keys ?wires ?em LEVELS (put_ticket ?k ?t s) = (s1, b)" by fastforce
  have ck: "checked opts (put_ticket ?k ?t s) s1"
    using target_admits_checked [OF assms(1), of "put_ticket ?k ?t s" now ?keys ?wires ?em LEVELS] b by simp
  note inv1 = checked_inv [OF ck inv0]
  have get1: "jm_get (ad_tickets s1) ?k = Some ?t" using ck by (simp add: checked_def)
  have "admission_inv opts (refundLevels opts now (it_keys ?t) ?wires True (consumeLevels opts now ?t' (put_ticket ?k ?t' s1)))"
    if "b"
  proof (rule transfer_inv [OF assms(1) inv1 get1])
    show "\<forall>l. has_room opts (it_keys ?t') (rv_wires (tk_reservation (it_ticket ?t'))) l s1"
      using target_admits_admitted [OF assms(1) LEVELS_all(2), of "put_ticket ?k ?t s" now ?keys ?wires ?em s1] b that inv0
      by (simp add: admission_inv_def)
  qed (use ok t0 in \<open>simp_all add: ticket_ok_def\<close>)
  then show ?thesis
    using t0 b inv0 inv1 by (auto simp: rebind_def applied_def Let_def split: option.split bool.split)
qed

section \<open>Every interleaving\<close>

text \<open>
  A call yields at its awaits only, so an execution is a sequence of the atomic parts below, with any
  reading of the clock. \<open>enqueue\<close> is an arrival and a pump, \<open>cancel\<close> a mark and a release, \<open>recover\<close> a renewal.
\<close>

inductive admission_step :: "admission_options \<Rightarrow> admission \<Rightarrow> admission \<Rightarrow> bool" for opts where
  step_arrive: "admission_step opts s (fst (enqueue_mint opts now req s))"
| step_pump: "admission_step opts s (fst (pump opts now s))"
| step_renew: "admission_step opts s (renew opts now unitId generation s)"
| step_cover: "admission_step opts s (fst (checkpointCover now unitId generation cover opId s))"
| step_release: "admission_step opts s (release opts now unitId generation actuals opId s)"
| step_cancel: "admission_step opts s (fst (cancel_mark unitId generation opId s))"
| step_rebind: "admission_step opts s (fst (rebind opts now unitId generation target opId s))"

lemma composite_steps:
  "(admission_step opts)\<^sup>*\<^sup>* s (fst (enqueue opts now later req s))"
  "(admission_step opts)\<^sup>*\<^sup>* s (cancel opts now unitId generation opId s)"
  "(admission_step opts)\<^sup>*\<^sup>* s (fst (recover opts now unitId generation s))"
proof -
  have "(admission_step opts)\<^sup>*\<^sup>* s (fst (pump opts later (fst (enqueue_mint opts now req s))))"
    by (meson step_arrive step_pump rtranclp.rtrancl_into_rtrancl rtranclp.rtrancl_refl)
  then show "(admission_step opts)\<^sup>*\<^sup>* s (fst (enqueue opts now later req s))"
    using step_arrive [of opts s now req]
    by (auto simp: enqueue_def Let_def split: prod.split sum.split enqueue_front.split)
  have "(admission_step opts)\<^sup>*\<^sup>* s (release opts now unitId generation a op (fst (cancel_mark unitId generation opId s)))" for a op
    by (meson step_cancel step_release rtranclp.rtrancl_into_rtrancl rtranclp.rtrancl_refl)
  then show "(admission_step opts)\<^sup>*\<^sup>* s (cancel opts now unitId generation opId s)"
    using step_cancel [of opts s unitId generation opId] by (auto simp: cancel_def split: prod.split option.split)
  show "(admission_step opts)\<^sup>*\<^sup>* s (fst (recover opts now unitId generation s))"
    by (auto simp: recover_def Let_def intro: step_renew split: option.split ticket_state.split)
qed

lemma empty_inv: "admission_inv opts empty_admission"
  by (simp add: admission_inv_def tickets_ok_def buckets_ok_def counts_exact_def empty_admission_def bucket_at_def
      held_at_def parked_at_def)

lemma step_inv: "admission_step opts s s' \<Longrightarrow> options_ok opts \<Longrightarrow> admission_inv opts s \<Longrightarrow> admission_inv opts s'"
  by (induction rule: admission_step.induct)
    (auto intro: enqueue_mint_inv pump_inv renew_inv checkpointCover_inv release_inv cancel_mark_inv rebind_inv)

lemma reachable_inv:
  "(admission_step opts)\<^sup>*\<^sup>* s s' \<Longrightarrow> options_ok opts \<Longrightarrow> admission_inv opts s \<Longrightarrow> admission_inv opts s'"
  by (induction rule: rtranclp_induct) (auto intro: step_inv)

end
