(* ===== verification/AdmissionPump.thy ===== *)
theory AdmissionPump
  imports AdmissionSafety
begin

text \<open>
  What callers of the admission scheduler rely on: capacity and exact counts after every
  interleaving, a pump that leaves no ticket waiting without a refusal at or ahead of it, and the
  emergency reserve of a token bucket, which an ordinary check takes away.
\<close>

section \<open>Refusals persist\<close>

text \<open>Checks at one instant can only take room away: what was refused before them is refused after.\<close>

lemma windowAdvance_idem [simp]: "windowAdvance (windowAdvance w n) n = windowAdvance w n"
  by (simp add: windowAdvance_def Let_def)

lemma live_debts_idem [simp]: "live_debts opts now (live_debts opts now ds) = live_debts opts now ds"
  by (simp add: live_debts_def)

lemma bucketAdvance_again:
  "bucketAdmits (bucketAdvance (bucketAdvance tb now r cap') now r cap) w \<Longrightarrow> bucketAdmits (bucketAdvance tb now r cap) w"
  by (auto simp: bucketAdvance_def bucketAdmits_def Let_def)

definition persists :: "admission_options \<Rightarrow> rat \<Rightarrow> admission \<Rightarrow> admission \<Rightarrow> bool" where
  "persists opts now s s' \<longleftrightarrow> (\<forall>level bk w em. snd (levelAdmits opts now level bk w em s') \<longrightarrow> snd (levelAdmits opts now level bk w em s))"

lemma levelAdmits_cong:
  "bucket_at s' level bk = bucket_at s level bk \<Longrightarrow> snd (levelAdmits opts now level bk w em s') = snd (levelAdmits opts now level bk w em s)"
  by (simp add: levelAdmits_def bucketFor_at Let_def split: option.split limiter.split)

lemma levelAdmits_again:
  assumes "snd (levelAdmits opts now level bk w em (fst (levelAdmits opts now level bk w' em' s)))"
  shows "snd (levelAdmits opts now level bk w em s)"
proof (cases "ao_levels opts level")
  case None
  then show ?thesis by (simp add: levelAdmits_def)
next
  case (Some c)
  obtain s' b' where s': "levelAdmits opts now level bk w' em' s = (s', b')" by fastforce
  let ?b = "bucketFor opts now level bk s"
  have "bucketFor opts now level bk s' = (?b\<lparr> bs_debts := live_debts opts now (bs_debts ?b) \<rparr>)
      \<lparr> bs_window := (if al_algorithm c = Sliding_window then map_option (\<lambda>v. windowAdvance v (slotOf c now)) (bs_window ?b) else bs_window ?b),
        bs_bucket := (if al_algorithm c = Token_bucket then map_option (\<lambda>tb. bucketAdvance tb now
            (case al_refillWiresPerSecond c of Some r \<Rightarrow> r | None \<Rightarrow> al_capWires c)
            (admissibleCap c em' - sum_list (map fst (live_debts opts now (bs_debts ?b))))) (bs_bucket ?b) else bs_bucket ?b) \<rparr>"
    using s' Some
    by (cases "bs_window ?b"; cases "bs_bucket ?b")
      (auto simp: levelAdmits_def Let_def bucketFor_at split: limiter.splits)
  then show ?thesis
    using assms Some unfolding s' fst_conv
    by (auto simp: levelAdmits_def Let_def semaphore_free_def bucketAdvance_again split: limiter.splits option.splits)
qed

lemma levelAdmits_persists: "persists opts now s (fst (levelAdmits opts now l k w em s))"
  unfolding persists_def
proof (intro allI impI)
  fix level bk w' em'
  assume a: "snd (levelAdmits opts now level bk w' em' (fst (levelAdmits opts now l k w em s)))"
  show "snd (levelAdmits opts now level bk w' em' s)"
  proof (cases "level = l \<and> bk = k")
    case True
    then show ?thesis using a levelAdmits_again by blast
  next
    case False
    then show ?thesis using a levelAdmits_cong [OF levelAdmits_other [of level l bk k opts now w em s]] by blast
  qed
qed

lemma persists_refl [simp]: "persists opts now s s"
  by (simp add: persists_def)

lemma persists_trans: "persists opts now s t \<Longrightarrow> persists opts now t u \<Longrightarrow> persists opts now s u"
  unfolding persists_def by blast

lemma firstRefusingLevel_persists: "firstRefusingLevel opts now t s = (s', r) \<Longrightarrow> persists opts now s s'"
  using first_refusing_rel [where R = "persists opts now" and s = s and now = now and opts = opts
      and keys = "it_keys t" and w = "rv_wires (tk_reservation (it_ticket t))" and em = "aq_emergency (it_request t)" and ls = LEVELS]
    persists_refl persists_trans levelAdmits_persists
  unfolding firstRefusingLevel_def by (metis (no_types, lifting) fst_conv)

lemma first_refusing_refused:
  "first_refusing opts now keys w em ls s = (s', Some level) \<Longrightarrow>
    \<exists>bk. keys level = Some bk \<and> ao_levels opts level \<noteq> None \<and> \<not> snd (levelAdmits opts now level bk w em s')"
proof (induction ls arbitrary: s)
  case (Cons l ls)
  show ?case
  proof (cases "keys l = None \<or> ao_levels opts l = None")
    case True
    then show ?thesis using Cons by (auto split: option.splits)
  next
    case False
    then obtain bk where bk: "keys l = Some bk" by auto
    obtain s1 b where b: "levelAdmits opts now l bk w em s = (s1, b)" by fastforce
    show ?thesis
    proof (cases b)
      case True
      then show ?thesis using Cons b bk False by auto
    next
      case no: False
      then have e: "s' = s1" "level = l" using Cons.prems b bk False by auto
      have "\<not> snd (levelAdmits opts now l bk w em s1)"
        using levelAdmits_again [of opts now l bk w em w em s] b no by auto
      then show ?thesis using e bk False by blast
    qed
  qed
qed simp

section \<open>The pump is exhaustive\<close>

text \<open>The ticket \<open>k\<close> shares a bucket with \<open>k'\<close>, and the bucket refuses \<open>k'\<close>.\<close>

definition waits_behind :: "admission_options \<Rightarrow> rat \<Rightarrow> admission \<Rightarrow> string \<Rightarrow> string \<Rightarrow> bool" where
  "waits_behind opts now s k k' \<longleftrightarrow> (\<exists>t t' level bk. jm_get (ad_tickets s) k = Some t \<and> jm_get (ad_tickets s) k' = Some t'
     \<and> it_keys t level = Some bk \<and> it_keys t' level = Some bk \<and> ao_levels opts level \<noteq> None
     \<and> \<not> snd (levelAdmits opts now level bk (rv_wires (tk_reservation (it_ticket t'))) (aq_emergency (it_request t')) s))"

lemma waits_behind_persists:
  "persists opts now s s' \<Longrightarrow> ad_tickets s' = ad_tickets s \<Longrightarrow> waits_behind opts now s k k' \<Longrightarrow> waits_behind opts now s' k k'"
  unfolding waits_behind_def persists_def by metis

definition kept_waiting :: "admission_options \<Rightarrow> rat \<Rightarrow> string list \<Rightarrow> string list \<Rightarrow> admission \<Rightarrow> bool" where
  "kept_waiting opts now blocked ks s \<longleftrightarrow> (\<forall>i<length ks.
     (\<exists>t. jm_get (ad_tickets s) (ks ! i) = Some t \<and> behind_blocked blocked (it_keys t))
     \<or> (\<exists>j\<le>i. waits_behind opts now s (ks ! i) (ks ! j)))"

lemma kept_waiting_Cons:
  assumes "(\<exists>t. jm_get (ad_tickets s) k = Some t \<and> behind_blocked blocked (it_keys t)) \<or> waits_behind opts now s k k"
    and "kept_waiting opts now blocked ks s"
  shows "kept_waiting opts now blocked (k # ks) s"
  unfolding kept_waiting_def
proof (intro allI impI)
  fix i
  assume i: "i < length (k # ks)"
  show "(\<exists>t. jm_get (ad_tickets s) ((k # ks) ! i) = Some t \<and> behind_blocked blocked (it_keys t))
     \<or> (\<exists>j\<le>i. waits_behind opts now s ((k # ks) ! i) ((k # ks) ! j))"
  proof (cases i)
    case 0
    then show ?thesis using assms(1) by auto
  next
    case (Suc n)
    then have "(\<exists>t. jm_get (ad_tickets s) (ks ! n) = Some t \<and> behind_blocked blocked (it_keys t))
        \<or> (\<exists>j\<le>n. waits_behind opts now s (ks ! n) (ks ! j))"
      using assms(2) i unfolding kept_waiting_def by simp
    moreover have "\<exists>j'\<le>i. waits_behind opts now s ((k # ks) ! i) ((k # ks) ! j')"
      if "j \<le> n" "waits_behind opts now s (ks ! n) (ks ! j)" for j
      using that Suc by (intro exI [of _ "Suc j"]) simp
    ultimately show ?thesis using Suc by auto
  qed
qed

lemma behind_blocked_iff: "behind_blocked blocked keys \<longleftrightarrow> (\<exists>level bk. keys level = Some bk \<and> bucket_id level bk \<in> set blocked)"
proof -
  have "behind_blocked blocked keys \<longleftrightarrow> (\<exists>level. case keys level of Some k \<Rightarrow> bucket_id level k \<in> set blocked | None \<Rightarrow> False)"
    using LEVELS_all(1) by (auto simp: behind_blocked_def list_ex_iff)
  then show ?thesis by (auto split: option.splits)
qed

text \<open>The bucket the head blocks: what waits for it waits behind the head.\<close>

lemma kept_waiting_unblock:
  assumes "kept_waiting opts now (bucket_id level bk # blocked) ks s" "jm_get (ad_tickets s) k = Some t" "it_keys t level = Some bk"
    and "ao_levels opts level \<noteq> None"
    and "\<not> snd (levelAdmits opts now level bk (rv_wires (tk_reservation (it_ticket t))) (aq_emergency (it_request t)) s)"
  shows "kept_waiting opts now blocked (k # ks) s"
  unfolding kept_waiting_def
proof (intro allI impI)
  fix i
  assume i: "i < length (k # ks)"
  have head: "waits_behind opts now s j k" if "jm_get (ad_tickets s) j = Some t'" "it_keys t' level = Some bk" for j t'
    using that assms(2-5) unfolding waits_behind_def by blast
  show "(\<exists>t. jm_get (ad_tickets s) ((k # ks) ! i) = Some t \<and> behind_blocked blocked (it_keys t))
     \<or> (\<exists>j\<le>i. waits_behind opts now s ((k # ks) ! i) ((k # ks) ! j))"
  proof (cases i)
    case 0
    then show ?thesis using head [OF assms(2,3)] by auto
  next
    case (Suc n)
    then consider (b) t' where "jm_get (ad_tickets s) (ks ! n) = Some t'" "behind_blocked (bucket_id level bk # blocked) (it_keys t')"
      | (w) j where "j \<le> n" "waits_behind opts now s (ks ! n) (ks ! j)"
      using assms(1) i unfolding kept_waiting_def by auto
    then show ?thesis
    proof cases
      case b
      then have "it_keys t' level = Some bk \<or> behind_blocked blocked (it_keys t')" by (auto simp: behind_blocked_iff)
      then show ?thesis using b(1) head [OF b(1)] Suc by auto
    next
      case w
      then show ?thesis using Suc by (intro disjI2 exI [of _ "Suc j"]) simp
    qed
  qed
qed

lemma grant_pass_exhaustive:
  assumes "grant_pass opts now blocked ks s = (s', None)" "\<forall>k\<in>set ks. jm_get (ad_tickets s) k \<noteq> None"
  shows "persists opts now s s' \<and> ad_tickets s' = ad_tickets s \<and> kept_waiting opts now blocked ks s'"
  using assms
proof (induction ks arbitrary: blocked s)
  case (Cons k ks)
  obtain t where t: "jm_get (ad_tickets s) k = Some t" using Cons.prems(2) by auto
  show ?case
  proof (cases "behind_blocked blocked (it_keys t)")
    case True
    then have "persists opts now s s' \<and> ad_tickets s' = ad_tickets s \<and> kept_waiting opts now blocked ks s'"
      using Cons t by simp
    then show ?thesis using True t by (auto intro: kept_waiting_Cons)
  next
    case False
    obtain s1 r where r: "firstRefusingLevel opts now t s = (s1, r)" by fastforce
    note same = firstRefusingLevel_tickets [OF r] and p1 = firstRefusingLevel_persists [OF r]
    obtain level where level: "r = Some level" using Cons.prems(1) t False r by (cases r) auto
    obtain bk where bk: "it_keys t level = Some bk" "ao_levels opts level \<noteq> None"
      and no: "\<not> snd (levelAdmits opts now level bk (rv_wires (tk_reservation (it_ticket t))) (aq_emergency (it_request t)) s1)"
      using first_refusing_refused r level unfolding firstRefusingLevel_def by blast
    have "grant_pass opts now (bucket_id level bk # blocked) ks s1 = (s', None)" using Cons.prems(1) t False r level bk by simp
    from Cons.IH [OF this] same Cons.prems(2)
    have ih: "persists opts now s1 s'" "ad_tickets s' = ad_tickets s1" "kept_waiting opts now (bucket_id level bk # blocked) ks s'"
      by auto
    have no': "\<not> snd (levelAdmits opts now level bk (rv_wires (tk_reservation (it_ticket t))) (aq_emergency (it_request t)) s')"
      using ih(1) no unfolding persists_def by blast
    have "jm_get (ad_tickets s') k = Some t" using t ih(2) same by simp
    from kept_waiting_unblock [OF ih(3) this bk no'] show ?thesis
      using persists_trans [OF p1 ih(1)] ih(2) same by simp
  qed
qed (simp add: kept_waiting_def)

lemma grant_loop_exhaustive:
  "grant_loop opts now s = (s', ks) \<Longrightarrow> kept_waiting opts now [] (queuedInGrantOrder s') s'"
proof (induction opts now s arbitrary: ks rule: grant_loop.induct)
  case (1 opts now s)
  obtain s1 r where r: "grant_pass opts now [] (queuedInGrantOrder s) s = (s1, r)" by fastforce
  show ?case
  proof (cases r)
    case None
    then have e: "s' = s1" using "1.prems" r by (subst (asm) grant_loop.simps) simp
    have "\<forall>k\<in>set (queuedInGrantOrder s). jm_get (ad_tickets s) k \<noteq> None" by (auto simp: queued_keys_def is_queued_def split: option.splits)
    from grant_pass_exhaustive [OF r [unfolded None] this]
    have w: "ad_tickets s1 = ad_tickets s" "kept_waiting opts now [] (queuedInGrantOrder s) s1" by auto
    have "queuedInGrantOrder s1 = queuedInGrantOrder s"
      unfolding queuedInGrantOrder_def queued_keys_def is_queued_def w(1) ..
    then show ?thesis using w(2) e by simp
  next
    case (Some k)
    then obtain ks' where "grant_loop opts now s1 = (s', ks')"
      using "1.prems" r by (subst (asm) grant_loop.simps) (auto split: prod.splits)
    then show ?thesis using "1.IH" [OF r [symmetric] Some] by blast
  qed
qed

section \<open>The emergency reserve of a token bucket\<close>

text \<open>
  A check of ordinary work brings the bucket to the present with the capacity less the reserve as its
  burst, and stores it: until the bucket refills, emergency work finds no more than ordinary work does.
\<close>

lemma ordinary_check_takes_reserve:
  assumes "ao_levels opts level = Some c" "al_algorithm c = Token_bucket" "bs_bucket (bucketFor opts now level bk s) = Some tb"
    and "\<forall>d\<in>set (bs_debts (bucketFor opts now level bk s)). 0 < fst d" "admissibleCap c False < wires"
  shows "\<not> snd (levelAdmits opts now level bk wires True (fst (levelAdmits opts now level bk w False s)))"
proof -
  let ?b = "bucketFor opts now level bk s" and ?s' = "fst (levelAdmits opts now level bk w False s)"
  let ?r = "case al_refillWiresPerSecond c of Some r \<Rightarrow> r | None \<Rightarrow> al_capWires c"
  let ?debt = "sum_list (map fst (live_debts opts now (bs_debts ?b)))"
  have b': "bucketFor opts now level bk ?s' =
      ?b\<lparr> bs_debts := live_debts opts now (bs_debts ?b), bs_bucket := Some (bucketAdvance tb now ?r (admissibleCap c False - ?debt)) \<rparr>"
    using assms(1-3) by (auto simp: levelAdmits_def Let_def bucketFor_at)
  have "tb_tokens (bucketAdvance tb now ?r (admissibleCap c False - ?debt)) \<le> admissibleCap c False"
    using live_debts_sum(1) [OF assms(4), of opts now] by (simp add: bucketAdvance_def Let_def min_def)
  then show ?thesis
    using assms(1,2,5) b' by (auto simp: levelAdmits_def Let_def bucketAdmits_def bucketAdvance_def)
qed

section \<open>Two tickets for one slot\<close>

definition demo_level :: level_config where
  "demo_level = \<lparr> al_algorithm = Sliding_window, al_capWires = 10, al_windowMs = None, al_slots = Some 2,
     al_refillWiresPerSecond = None, al_concurrency = Some 1, al_emergencyReserveFraction = None \<rparr>"

definition demo_options :: admission_options where
  "demo_options = \<lparr> ao_levels = (\<lambda>l. if l = Level_tenant then Some demo_level else None), ao_weights = [], ao_leaseTtlMs = 1000, ao_debtAgeMs = None \<rparr>"

definition demo_request :: "string \<Rightarrow> admission_request" where
  "demo_request u = \<lparr> aq_unitId = u, aq_generation = ''g'', aq_resolvedTenant = Some ''t'', aq_tenantFromScope = False,
     aq_scope = None, aq_weight = None, aq_reservation = wires_only 4, aq_emergency = False \<rparr>"


definition demo_keys :: level_keys where
  "demo_keys = admissionLevelKeys (Some ''t'') None"

definition demo_key :: string where
  "demo_key = level_key [(''tenant'', JStr ''t'')]"

lemma demo_keys_level [simp]:
  "demo_keys Level_tenant = Some demo_key" "demo_keys Level_providerAccount = None" "demo_keys Level_scope = None"
  by (simp_all add: demo_keys_def demo_key_def admissionLevelKeys_def)

definition demo_ticket :: "string \<Rightarrow> nat \<Rightarrow> rat \<Rightarrow> internal_ticket" where
  "demo_ticket u n tag = \<lparr> it_ticket = \<lparr> tk_unitId = u, tk_generation = ''g'', tk_state = TS_queued, tk_resolvedTenant = Some ''t'',
     tk_scope = None, tk_reservation = wires_only 4, tk_weight = 1, tk_arrivalSeq = n, tk_startTag = tag, tk_finishTag = tag + 4,
     tk_enqueuedAtMs = 0, tk_grantedAtMs = None, tk_leaseExpiresAtMs = None, tk_cover = None, tk_deniedReason = None \<rparr>,
     it_request = demo_request u, it_keys = demo_keys, it_accountStartTag = tag, it_accountFinishTag = tag + 4, it_appliedOps = [],
     it_slotParked = False \<rparr>"

lemmas demo_data = demo_options_def demo_level_def demo_request_def wires_only_def LEVELS_def

definition demo_queue :: "(string \<times> internal_ticket) list \<Rightarrow> nat \<Rightarrow> rat \<Rightarrow> admission" where
  "demo_queue ts n tag = \<lparr> ad_tickets = ts, ad_buckets = [],
     ad_tenantQueue = \<lparr> fq_virtualTime = 0, fq_finishTags = [(''t'', tag)] \<rparr>,
     ad_accountQueues = [(''accounts:t'', \<lparr> fq_virtualTime = 0, fq_finishTags = [(''-'', tag)] \<rparr>)], ad_arrivalCounter = n \<rparr>"

definition demo_waiting :: admission where
  "demo_waiting = demo_queue [(''a#g'', demo_ticket ''a'' 1 0), (''b#g'', demo_ticket ''b'' 2 4)] 2 8"

lemma demo_arrival_a: "fst (enqueue_mint demo_options 0 (demo_request ''a'') empty_admission) = demo_queue [(''a#g'', demo_ticket ''a'' 1 0)] 1 4"
  by (simp add: demo_data enqueue_mint_def admit_fresh_def mintTicket_def empty_admission_def unkeyed_level_def infeasible_level_def
    tenants_disagree_def demo_keys_def [symmetric] admissibleCap_def else_zero_def mint_weight_def sfqTagsOnArrival_def emptyFairQueue_def
    sfqRecordArrival_def account_queue_id_def put_ticket_def ticket_key_def demo_queue_def demo_ticket_def)

lemma demo_arrival_b:
  "fst (enqueue_mint demo_options 0 (demo_request ''b'') (demo_queue [(''a#g'', demo_ticket ''a'' 1 0)] 1 4)) = demo_waiting"
  by (simp add: demo_data enqueue_mint_def admit_fresh_def mintTicket_def empty_admission_def unkeyed_level_def infeasible_level_def
    tenants_disagree_def demo_keys_def [symmetric] admissibleCap_def else_zero_def mint_weight_def sfqTagsOnArrival_def emptyFairQueue_def
    sfqRecordArrival_def account_queue_id_def put_ticket_def ticket_key_def demo_queue_def demo_ticket_def demo_waiting_def Let_def numeral_2_eq_2)


definition demo_bucket :: "rat \<Rightarrow> nat \<Rightarrow> bucket_state" where
  "demo_bucket used n = \<lparr> bs_window = Some \<lparr> sw_slots = [0, used], sw_headSlot = 0 \<rparr>, bs_bucket = None, bs_debts = [], bs_held = n, bs_parked = 0 \<rparr>"

lemma demo_order: "queuedInGrantOrder demo_waiting = [''a#g'', ''b#g'']"
  by (simp add: queuedInGrantOrder_def queued_keys_def sfqGrantOrder_def is_queued_def demo_waiting_def demo_queue_def demo_ticket_def)

lemma demo_no_expiry: "foldl (expire_ticket demo_options 5) demo_waiting (jm_keys (ad_tickets demo_waiting)) = demo_waiting"
  by (simp add: expire_ticket_def demo_waiting_def demo_queue_def demo_ticket_def)

definition demo_granted :: admission where
  "demo_granted = (demo_queue [(''a#g'', granted_ticket demo_options 5 (demo_ticket ''a'' 1 0)), (''b#g'', demo_ticket ''b'' 2 4)] 2 8)
     \<lparr> ad_buckets := [(bucket_id Level_tenant demo_key, demo_bucket 4 1)] \<rparr>"

lemmas demo_check = levelAdmits_def bucketFor_def new_bucket_def live_debts_def admissibleCap_def else_zero_def semaphore_free_def
  windowAdvance_def windowAdmits_def windowSum_def slotOf_def emptySlidingWindow_def put_bucket_def

lemma demo_first:
  "grant_pass demo_options 5 [] [''a#g'', ''b#g''] demo_waiting = (demo_granted, Some ''a#g'')"
  by (simp add: demo_waiting_def demo_queue_def behind_blocked_def firstRefusingLevel_def demo_check demo_data Let_def numeral_2_eq_2
     grant_def consumeLevels_def each_level_def consume_bucket_def windowConsume_def demo_granted_def demo_ticket_def demo_bucket_def
     sfqRecordGrant_def account_queue_id_def put_ticket_def granted_ticket_def)

lemma demo_second: "grant_pass demo_options 5 [] [''b#g''] demo_granted = (demo_granted, None)"
  by (simp add: demo_granted_def demo_queue_def behind_blocked_def firstRefusingLevel_def demo_check demo_data Let_def
      demo_ticket_def demo_bucket_def)

lemma demo_order_granted: "queuedInGrantOrder demo_granted = [''b#g'']"
  by (simp add: queuedInGrantOrder_def queued_keys_def sfqGrantOrder_def is_queued_def demo_granted_def demo_queue_def demo_ticket_def)

lemma demo_pump: "pump demo_options 5 demo_waiting = (demo_granted, [''a#g''])"
proof -
  have last: "grant_loop demo_options 5 demo_granted = (demo_granted, [])"
    by (subst grant_loop.simps) (simp only: demo_order_granted demo_second prod.case option.case)
  show ?thesis unfolding pump_def demo_no_expiry
    by (subst grant_loop.simps) (simp only: demo_order demo_first last prod.case option.case)
qed

section \<open>Capacity\<close>

text \<open>
  C13. At every level a scheduler is configured with, after any interleaving of arrivals, pumps,
  renewals, covers, releases, cancels and rebinds: the semaphore of a bucket counts exactly the tickets that
  hold it (the granted ones, and the expired ones whose slots are parked), the parked count is exact
  too, no more hold it than the configured concurrency; the window's sum and the bucket's tokens stay within
  the capacity.
\<close>

theorem admission_capacity:
  assumes "options_ok opts" "new_admission opts None = Inr s0" "(admission_step opts)\<^sup>*\<^sup>* s0 s"
    and "ao_levels opts level = Some c" "bucket_at s level bk = Some b"
  shows "(\<forall>n. al_concurrency c = Some n \<longrightarrow>
        bs_held b = tickets_with (holding level bk) (ad_tickets s)
        \<and> bs_parked b = tickets_with (parking level bk) (ad_tickets s) \<and> bs_held b \<le> n)
    \<and> (\<forall>w. bs_window b = Some w \<longrightarrow> windowSum w \<le> al_capWires c)
    \<and> (\<forall>tb. bs_bucket b = Some tb \<longrightarrow> tb_tokens tb \<le> al_capWires c)"
proof -
  have "s0 = empty_admission" using assms(2) by (simp add: new_admission_def split: if_splits)
  then have inv: "admission_inv opts s" using reachable_inv [OF assms(3,1)] empty_inv by simp
  then have "bucket_ok c b" using assms(4,5) unfolding admission_inv_def buckets_ok_def by blast
  then show ?thesis
    using held_exact [OF inv assms(4), of _ bk] assms(5)
    by (simp add: held_at_def parked_at_def bucket_ok_def window_ok_def)
qed

lemma demo_options_ok: "options_ok demo_options"
  by (simp add: options_ok_def demo_options_def demo_level_def else_zero_def)

lemma demo_new: "new_admission demo_options None = Inr empty_admission"
  by (simp add: new_admission_def LEVELS_def demo_options_def demo_level_def)

lemma demo_reachable: "(admission_step demo_options)\<^sup>*\<^sup>* empty_admission demo_granted"
proof -
  have "admission_step demo_options empty_admission (demo_queue [(''a#g'', demo_ticket ''a'' 1 0)] 1 4)"
    using step_arrive [of demo_options empty_admission 0 "demo_request ''a''"] by (simp only: demo_arrival_a)
  moreover have "admission_step demo_options (demo_queue [(''a#g'', demo_ticket ''a'' 1 0)] 1 4) demo_waiting"
    using step_arrive [of demo_options "demo_queue [(''a#g'', demo_ticket ''a'' 1 0)] 1 4" 0 "demo_request ''b''"]
    by (simp only: demo_arrival_b)
  moreover have "admission_step demo_options demo_waiting demo_granted"
    using step_pump [of demo_options demo_waiting 5] by (simp only: demo_pump fst_conv)
  ultimately show ?thesis by (meson converse_rtranclp_into_rtranclp rtranclp.rtrancl_refl)
qed

lemma demo_levels [simp]: "ao_levels demo_options Level_tenant = Some demo_level" "al_concurrency demo_level = Some 1"
  by (simp_all add: demo_options_def demo_level_def)

lemma demo_bucket_at: "bucket_at demo_granted Level_tenant demo_key = Some (demo_bucket 4 1)"
  by (simp add: bucket_at_def demo_granted_def)

theorem admission_capacity_witness:
  "bs_held (demo_bucket 4 1) = tickets_with (holding Level_tenant demo_key) (ad_tickets demo_granted) \<and> bs_held (demo_bucket 4 1) \<le> 1"
  using admission_capacity [OF demo_options_ok demo_new demo_reachable demo_levels(1) demo_bucket_at] demo_levels(2) by blast

text \<open>
  C14. The pump ends, and it grants all that can be granted: for every ticket it leaves in the queue there is
  a ticket at or before it in grant order that uses one of the same buckets, and that bucket refuses
  this ticket in the state the pump leaves.
\<close>

theorem pump_exhaustive:
  assumes "pump opts now s = (s', granted)" "i < length (queuedInGrantOrder s')"
  shows "\<exists>j\<le>i. waits_behind opts now s' (queuedInGrantOrder s' ! i) (queuedInGrantOrder s' ! j)"
proof -
  have "kept_waiting opts now [] (queuedInGrantOrder s') s'" using grant_loop_exhaustive assms(1) unfolding pump_def by blast
  then show ?thesis using assms(2) unfolding kept_waiting_def behind_blocked_iff by auto
qed

theorem pump_exhaustive_witness:
  "pump demo_options 5 demo_waiting = (demo_granted, [''a#g'']) \<and> waits_behind demo_options 5 demo_granted ''b#g'' ''b#g''"
  using pump_exhaustive [OF demo_pump, of 0] demo_order_granted demo_pump by simp

end
