(* ===== verification/Pricing.thy ===== *)
theory Pricing
  imports Usage
begin

text \<open>
  Price rows, \<open>packages/core/src/model/pricing.ts\<close>, with the row of \<open>l0/spi/provider.ts\<close>. A row may
  come from untyped configuration, so its two required rates may be absent: arithmetic over an
  absent rate is \<open>NaN\<close>, as it is in the language. The comparison with documented rates
  returns its findings as data instead of text.
\<close>

section \<open>Rows\<close>

record pricing_tier =
  pt_aboveInputTokens :: js_number
  pt_inputMultiplier :: js_number
  pt_outputMultiplier :: js_number

record pricing =
  pr_inputUsdPerMTok :: "js_number option"
  pr_outputUsdPerMTok :: "js_number option"
  pr_cacheReadUsdPerMTok :: "js_number option"
  pr_cacheWriteUsdPerMTok :: "js_number option"
  pr_cacheWrite1hUsdPerMTok :: "js_number option"
  pr_tiers :: "pricing_tier list option"
  pr_ratesVerifiedAt :: "string option"

record price_table =
  pl_pricingVersion :: string
  pl_models :: "(string, pricing) jsmap"

definition or_else :: "'a option \<Rightarrow> 'a option \<Rightarrow> 'a option" where
  "or_else a b = (case a of Some x \<Rightarrow> Some x | None \<Rightarrow> b)"

definition number_or_nan :: "js_number option \<Rightarrow> js_number" where
  "number_or_nan v = (case v of Some x \<Rightarrow> x | None \<Rightarrow> NaN)"

definition resolvePricing :: "string \<Rightarrow> price_table option \<Rightarrow> pricing option \<Rightarrow> pricing option" where
  "resolvePricing ref table capsPricing = or_else (Option.bind table (\<lambda>t. jm_get (pl_models t) ref)) capsPricing"

definition tiers_of :: "pricing \<Rightarrow> pricing_tier list" where
  "tiers_of p = (case pr_tiers p of Some ts \<Rightarrow> ts | None \<Rightarrow> [])"

definition tierFor :: "pricing \<Rightarrow> js_number \<Rightarrow> pricing_tier option" where
  "tierFor p inputs =
     foldl (\<lambda>tier candidate.
        if pt_aboveInputTokens candidate < inputs
           \<and> (case tier of None \<Rightarrow> True | Some t \<Rightarrow> pt_aboveInputTokens t < pt_aboveInputTokens candidate)
        then Some candidate else tier) None (tiers_of p)"

section \<open>Prices\<close>

record priced_component =
  pc_tokens :: js_number
  pc_usd :: js_number

record priced_components =
  ps_input :: priced_component
  ps_output :: priced_component
  ps_cachedInput :: priced_component
  ps_cacheWrite :: priced_component

definition per_million :: "js_number \<Rightarrow> js_number" where
  "per_million tokens = js_div tokens (Num 1000000)"

definition priceComponentsOf :: "pricing \<Rightarrow> usage \<Rightarrow> priced_components" where
  "priceComponentsOf p u =
     (let tier = tierFor p (inputTokens u);
          inputMul = (case tier of Some t \<Rightarrow> pt_inputMultiplier t | None \<Rightarrow> Num 1);
          outputMul = (case tier of Some t \<Rightarrow> pt_outputMultiplier t | None \<Rightarrow> Num 1);
          uncached = js_max 0 (inputTokens u - cacheReadTokens u - cacheWriteTokens u);
          writeRate = number_or_nan (or_else (pr_cacheWriteUsdPerMTok p) (pr_inputUsdPerMTok p));
          write1hRate = (case pr_cacheWrite1hUsdPerMTok p of Some r \<Rightarrow> r | None \<Rightarrow> writeRate);
          write1h = (if split_present u then or_zero (cacheWrite1hTokens u) else 0);
          writeDefault = js_max 0 (cacheWriteTokens u - write1h)
      in \<lparr> ps_input = \<lparr> pc_tokens = uncached, pc_usd = per_million uncached * number_or_nan (pr_inputUsdPerMTok p) * inputMul \<rparr>,
           ps_output = \<lparr> pc_tokens = outputTokens u,
             pc_usd = per_million (outputTokens u) * number_or_nan (pr_outputUsdPerMTok p) * outputMul \<rparr>,
           ps_cachedInput = \<lparr> pc_tokens = cacheReadTokens u,
             pc_usd = per_million (cacheReadTokens u) * number_or_nan (or_else (pr_cacheReadUsdPerMTok p) (pr_inputUsdPerMTok p)) * inputMul \<rparr>,
           ps_cacheWrite = \<lparr> pc_tokens = cacheWriteTokens u,
             pc_usd = (per_million writeDefault * writeRate + per_million write1h * write1hRate) * inputMul \<rparr> \<rparr>)"

definition priceUsdOf :: "pricing \<Rightarrow> usage \<Rightarrow> js_number" where
  "priceUsdOf p u =
     (let parts = priceComponentsOf p u
      in pc_usd (ps_input parts) + pc_usd (ps_output parts) + pc_usd (ps_cachedInput parts) + pc_usd (ps_cacheWrite parts))"

definition prompt_usage :: "js_number \<Rightarrow> js_number \<Rightarrow> usage" where
  "prompt_usage inp out = \<lparr> inputTokens = inp, outputTokens = out, cacheReadTokens = 0, cacheWriteTokens = 0,
     reasoningTokens = None, cacheWrite5mTokens = None, cacheWrite1hTokens = None \<rparr>"

definition affordableOutputTokens :: "pricing \<Rightarrow> js_number \<Rightarrow> js_number \<Rightarrow> js_number option" where
  "affordableOutputTokens p remainingUsd estimatedInputTokens =
     (let tier = tierFor p estimatedInputTokens;
          outputRate = number_or_nan (pr_outputUsdPerMTok p) * (case tier of Some t \<Rightarrow> pt_outputMultiplier t | None \<Rightarrow> Num 1)
      in if outputRate \<le> 0 then None
         else Some (js_floor (js_div (remainingUsd - priceUsdOf p (prompt_usage estimatedInputTokens 0)) outputRate * Num 1000000)))"

section \<open>Documented rates\<close>

datatype rate_field = InputRate | OutputRate | CacheReadRate | CacheWriteRate | CacheWrite1hRate
datatype tier_field = AboveInputTokens | InputMultiplier | OutputMultiplier

datatype rate_finding =
    Rate_undeclared rate_field
  | Rate_gone rate_field
  | Rate_moved rate_field
  | Tiers_undeclared nat
  | Tiers_count nat "nat option"
  | Tier_moved nat tier_field

definition RATE_FIELDS :: "rate_field list" where
  "RATE_FIELDS = [InputRate, OutputRate, CacheReadRate, CacheWriteRate, CacheWrite1hRate]"

definition TIER_FIELDS :: "tier_field list" where
  "TIER_FIELDS = [AboveInputTokens, InputMultiplier, OutputMultiplier]"

fun rate_of :: "pricing \<Rightarrow> rate_field \<Rightarrow> js_number option" where
  "rate_of p InputRate = pr_inputUsdPerMTok p"
| "rate_of p OutputRate = pr_outputUsdPerMTok p"
| "rate_of p CacheReadRate = pr_cacheReadUsdPerMTok p"
| "rate_of p CacheWriteRate = pr_cacheWriteUsdPerMTok p"
| "rate_of p CacheWrite1hRate = pr_cacheWrite1hUsdPerMTok p"

fun tier_value :: "pricing_tier \<Rightarrow> tier_field \<Rightarrow> js_number" where
  "tier_value t AboveInputTokens = pt_aboveInputTokens t"
| "tier_value t InputMultiplier = pt_inputMultiplier t"
| "tier_value t OutputMultiplier = pt_outputMultiplier t"

definition agrees :: "js_number \<Rightarrow> js_number \<Rightarrow> bool" where
  "agrees a b \<longleftrightarrow> js_abs (a - b) \<le> Num (1 / 1000000000)"

definition compare_rate :: "pricing \<Rightarrow> pricing \<Rightarrow> rate_field \<Rightarrow> rate_finding list" where
  "compare_rate seed page f =
     (case (rate_of seed f, rate_of page f) of
        (None, None) \<Rightarrow> []
      | (None, Some _) \<Rightarrow> [Rate_undeclared f]
      | (Some _, None) \<Rightarrow> [Rate_gone f]
      | (Some a, Some b) \<Rightarrow> if agrees a b then [] else [Rate_moved f])"

definition compare_tiers :: "pricing \<Rightarrow> pricing \<Rightarrow> rate_finding list" where
  "compare_tiers seed page =
     (case pr_tiers seed of
        None \<Rightarrow> (case pr_tiers page of Some (t # ts) \<Rightarrow> [Tiers_undeclared (length (t # ts))] | _ \<Rightarrow> [])
      | Some st \<Rightarrow>
          (case pr_tiers page of
             None \<Rightarrow> [Tiers_count (length st) None]
           | Some pt \<Rightarrow>
               if length pt \<noteq> length st then [Tiers_count (length st) (Some (length pt))]
               else concat (map (\<lambda>i. concat (map (\<lambda>f.
                      if agrees (tier_value (st ! i) f) (tier_value (pt ! i) f) then [] else [Tier_moved i f]) TIER_FIELDS))
                    [0..<length st])))"

definition compareRates :: "pricing \<Rightarrow> pricing \<Rightarrow> rate_finding list" where
  "compareRates seed page = concat (map (compare_rate seed page) RATE_FIELDS) @ compare_tiers seed page"

section \<open>Finite prices\<close>

text \<open>
  A well-formed row: present, finite, nonnegative rates and multipliers of a magnitude that cannot
  overflow. Token counts are at most \<open>2 ^ 53\<close>.
\<close>

definition bounded_by :: "rat \<Rightarrow> js_number \<Rightarrow> bool" where
  "bounded_by bound v \<longleftrightarrow> (case v of Num x \<Rightarrow> 0 \<le> x \<and> x \<le> bound | _ \<Rightarrow> False)"

definition row_ok :: "pricing \<Rightarrow> bool" where
  "row_ok p \<longleftrightarrow> bounded_by (2 ^ 20) (number_or_nan (pr_inputUsdPerMTok p)) \<and> bounded_by (2 ^ 20) (number_or_nan (pr_outputUsdPerMTok p))
     \<and> bounded_by (2 ^ 20) (number_or_nan (or_else (pr_cacheReadUsdPerMTok p) (pr_inputUsdPerMTok p)))
     \<and> bounded_by (2 ^ 20) (number_or_nan (or_else (pr_cacheWriteUsdPerMTok p) (pr_inputUsdPerMTok p)))
     \<and> (case pr_cacheWrite1hUsdPerMTok p of None \<Rightarrow> True | Some r \<Rightarrow> bounded_by (2 ^ 20) r)
     \<and> list_all (\<lambda>t. bounded_by (2 ^ 10) (pt_inputMultiplier t) \<and> bounded_by (2 ^ 10) (pt_outputMultiplier t)) (tiers_of p)"

fun num_val :: "js_number \<Rightarrow> rat" where
  "num_val (Num x) = x"
| "num_val _ = 0"

lemma bounded_byE:
  assumes "bounded_by b v"
  obtains "v = Num (num_val v)" "0 \<le> num_val v" "num_val v \<le> b"
  using assms by (cases v) (auto simp: bounded_by_def)

lemma js_times_within:
  assumes "bounded_by a x" "bounded_by b y" "0 \<le> a" "a * b \<le> 2 ^ 100"
  shows "x * y = Num (num_val x * num_val y)" "bounded_by (a * b) (x * y)"
proof -
  have le: "num_val x * num_val y \<le> a * b" "0 \<le> num_val x * num_val y"
    using assms by (auto elim!: bounded_byE intro: mult_mono)
  then have "js_of_rat (num_val x * num_val y) = Num (num_val x * num_val y)"
    using assms(4) by (intro js_of_rat_Num) auto
  moreover have "x * y = js_of_rat (num_val x * num_val y)"
    using assms(1,2) by (elim bounded_byE) (metis js_times_Num)
  ultimately show "x * y = Num (num_val x * num_val y)" "bounded_by (a * b) (x * y)"
    using le by (simp_all add: bounded_by_def)
qed

lemma js_plus_within:
  assumes "bounded_by a x" "bounded_by b y" "a + b \<le> 2 ^ 100"
  shows "x + y = Num (num_val x + num_val y)" "bounded_by (a + b) (x + y)"
proof -
  have le: "num_val x + num_val y \<le> a + b" "0 \<le> num_val x + num_val y"
    using assms by (auto elim!: bounded_byE intro: add_mono)
  then have "js_of_rat (num_val x + num_val y) = Num (num_val x + num_val y)"
    using assms(3) by (intro js_of_rat_Num) auto
  moreover have "x + y = js_of_rat (num_val x + num_val y)"
    using assms(1,2) by (elim bounded_byE) (metis plus_js_number.simps(1))
  ultimately show "x + y = Num (num_val x + num_val y)" "bounded_by (a + b) (x + y)"
    using le by (simp_all add: bounded_by_def)
qed

lemma per_million_within:
  assumes "bounded_by (2 ^ 53) x"
  shows "per_million x = Num (num_val x / 1000000)" "bounded_by (2 ^ 34) (per_million x)"
proof -
  have x: "x = Num (num_val x)" "0 \<le> num_val x" "num_val x \<le> 2 ^ 53" using assms by (auto elim: bounded_byE)
  then have "num_val x / 1000000 \<le> 2 ^ 34" by simp
  then have "js_of_rat (num_val x / 1000000) = Num (num_val x / 1000000)"
    using x(2) by (intro js_of_rat_Num) auto
  moreover have "per_million x = js_of_rat (num_val x / 1000000)"
    unfolding per_million_def by (subst x(1)) (simp add: js_div_Num)
  ultimately show "per_million x = Num (num_val x / 1000000)" "bounded_by (2 ^ 34) (per_million x)"
    using x by (simp_all add: bounded_by_def)
qed

text \<open>One component: tokens at a rate, scaled by a multiplier.\<close>

lemma component_within:
  assumes "bounded_by (2 ^ 53) x" "bounded_by (2 ^ 20) r" "bounded_by (2 ^ 10) m"
  shows "per_million x * r * m = Num (num_val x / 1000000 * num_val r * num_val m)" "bounded_by (2 ^ 64) (per_million x * r * m)"
proof -
  note a = js_times_within [OF per_million_within(2) [OF assms(1)] assms(2)]
  have a1: "per_million x * r = Num (num_val x / 1000000 * num_val r)" "bounded_by (2 ^ 34 * 2 ^ 20) (per_million x * r)"
    using a per_million_within(1) [OF assms(1)] by simp_all
  note b = js_times_within [OF a1(2) assms(3)]
  show "per_million x * r * m = Num (num_val x / 1000000 * num_val r * num_val m)" "bounded_by (2 ^ 64) (per_million x * r * m)"
    using b a1 by simp_all
qed

lemma tierFor_in: "tierFor p x = Some t \<Longrightarrow> t \<in> set (tiers_of p)"
proof -
  define f where "f = (\<lambda>(tier :: pricing_tier option) candidate. if pt_aboveInputTokens candidate < x
      \<and> (case tier of None \<Rightarrow> True | Some t \<Rightarrow> pt_aboveInputTokens t < pt_aboveInputTokens candidate) then Some candidate else tier)"
  have "foldl f acc ts = Some t \<Longrightarrow> acc = Some t \<or> t \<in> set ts" for acc ts
    by (induction ts arbitrary: acc) (auto simp: f_def split: if_splits)
  moreover assume "tierFor p x = Some t"
  ultimately show ?thesis unfolding tierFor_def f_def [symmetric] by blast
qed

definition input_mul :: "pricing \<Rightarrow> js_number \<Rightarrow> js_number" where
  "input_mul p x = (case tierFor p x of Some t \<Rightarrow> pt_inputMultiplier t | None \<Rightarrow> Num 1)"

definition output_mul :: "pricing \<Rightarrow> js_number \<Rightarrow> js_number" where
  "output_mul p x = (case tierFor p x of Some t \<Rightarrow> pt_outputMultiplier t | None \<Rightarrow> Num 1)"

lemma mul_within: "row_ok p \<Longrightarrow> bounded_by (2 ^ 10) (input_mul p x)" "row_ok p \<Longrightarrow> bounded_by (2 ^ 10) (output_mul p x)"
  using tierFor_in [of p x]
  by (auto simp: row_ok_def input_mul_def output_mul_def list_all_iff bounded_by_def split: option.splits)

text \<open>The price of a prompt and its output is linear in the output.\<close>

lemma prompt_price:
  assumes "row_ok p" "0 \<le> i" "i \<le> 2 ^ 53" "0 \<le> n" "n \<le> 2 ^ 53"
  shows "priceUsdOf p (prompt_usage (Num i) (Num n)) =
      Num (i / 1000000 * num_val (number_or_nan (pr_inputUsdPerMTok p)) * num_val (input_mul p (Num i))
        + n / 1000000 * (num_val (number_or_nan (pr_outputUsdPerMTok p)) * num_val (output_mul p (Num i))))"
proof -
  have tok: "bounded_by (2 ^ 53) (Num i)" "bounded_by (2 ^ 53) (Num n)" "bounded_by (2 ^ 53) (Num 0)" using assms by (simp_all add: bounded_by_def)
  have diff: "js_max 0 (Num i - 0 - 0) = Num i" "js_max 0 (0 - 0) = Num 0"
    using assms by (simp_all add: zero_js_number_def js_minus_Num js_of_rat_Num)
  have rates: "bounded_by (2 ^ 20) (number_or_nan (pr_inputUsdPerMTok p))" "bounded_by (2 ^ 20) (number_or_nan (pr_outputUsdPerMTok p))"
    "bounded_by (2 ^ 20) (number_or_nan (or_else (pr_cacheReadUsdPerMTok p) (pr_inputUsdPerMTok p)))"
    "bounded_by (2 ^ 20) (number_or_nan (or_else (pr_cacheWriteUsdPerMTok p) (pr_inputUsdPerMTok p)))"
    using assms(1) by (simp_all add: row_ok_def)
  let ?w1 = "case pr_cacheWrite1hUsdPerMTok p of Some r \<Rightarrow> r | None \<Rightarrow> number_or_nan (or_else (pr_cacheWriteUsdPerMTok p) (pr_inputUsdPerMTok p))"
  have w1: "bounded_by (2 ^ 20) ?w1" using assms(1) by (auto simp: row_ok_def split: option.splits)
  have zero: "per_million (Num 0) * r = Num 0" if "bounded_by (2 ^ 20) r" for r
    using js_times_within(1) [OF per_million_within(2) [OF tok(3)] that] per_million_within(1) [OF tok(3)] by simp
  have c_write: "(per_million (Num 0) * number_or_nan (or_else (pr_cacheWriteUsdPerMTok p) (pr_inputUsdPerMTok p)) + per_million (Num 0) * ?w1)
      * input_mul p (Num i) = Num 0"
    using js_times_within(1) [of 0 "Num 0", OF _ mul_within(1) [OF assms(1), of "Num i"]]
    by (simp add: zero [OF rates(4)] zero [OF w1] js_of_rat_Num bounded_by_def)
  note c_in = component_within [OF tok(1) rates(1) mul_within(1) [OF assms(1), of "Num i"]]
    and c_out = component_within [OF tok(2) rates(2) mul_within(2) [OF assms(1), of "Num i"]]
    and c_read = component_within [OF tok(3) rates(3) mul_within(1) [OF assms(1), of "Num i"]]
  have "priceUsdOf p (prompt_usage (Num i) (Num n)) =
      per_million (Num i) * number_or_nan (pr_inputUsdPerMTok p) * input_mul p (Num i)
      + per_million (Num n) * number_or_nan (pr_outputUsdPerMTok p) * output_mul p (Num i)
      + per_million (Num 0) * number_or_nan (or_else (pr_cacheReadUsdPerMTok p) (pr_inputUsdPerMTok p)) * input_mul p (Num i)
      + (per_million (Num 0) * number_or_nan (or_else (pr_cacheWriteUsdPerMTok p) (pr_inputUsdPerMTok p)) + per_million (Num 0) * ?w1)
        * input_mul p (Num i)"
    unfolding priceUsdOf_def priceComponentsOf_def prompt_usage_def Let_def input_mul_def [symmetric] output_mul_def [symmetric]
    using diff by (simp add: split_present_def zero_js_number_def)
  also have "\<dots> = Num (i / 1000000 * num_val (number_or_nan (pr_inputUsdPerMTok p)) * num_val (input_mul p (Num i))
      + n / 1000000 * num_val (number_or_nan (pr_outputUsdPerMTok p)) * num_val (output_mul p (Num i)))"
    using js_plus_within [OF c_in(2) c_out(2)] c_in(1) c_out(1) c_read(1) c_write
    by (simp add: js_of_rat_Num bounded_by_def)
  finally show ?thesis by (simp add: mult.assoc)
qed

section \<open>The output bound\<close>

lemma js_div_finite: "js_div (Num a) (Num b) * Num c = Num d \<Longrightarrow> 0 < b \<Longrightarrow> 0 < c \<Longrightarrow> d = a / b * c"
  by (auto simp: js_div_Num js_of_rat_def times_js_number_def signed_inf_def split: if_splits)

lemma quotient_le: "(0 :: rat) < q \<Longrightarrow> x \<le> (r - y) / q * 1000000 \<longleftrightarrow> y + x / 1000000 * q \<le> r"
proof -
  assume q: "0 < q"
  have "x \<le> (r - y) / q * 1000000 \<longleftrightarrow> x / 1000000 \<le> (r - y) / q" by (simp only: pos_divide_le_eq zero_less_numeral)
  also have "\<dots> \<longleftrightarrow> x / 1000000 * q \<le> r - y" using q by (simp only: pos_le_divide_eq)
  also have "\<dots> \<longleftrightarrow> y + x / 1000000 * q \<le> r" by (simp only: le_diff_eq add.commute)
  finally show ?thesis .
qed


definition sample_row :: pricing where
  "sample_row = \<lparr> pr_inputUsdPerMTok = Some (Num 3), pr_outputUsdPerMTok = Some (Num 15), pr_cacheReadUsdPerMTok = None,
     pr_cacheWriteUsdPerMTok = None, pr_cacheWrite1hUsdPerMTok = None,
     pr_tiers = Some [\<lparr> pt_aboveInputTokens = Num 200000, pt_inputMultiplier = Num 2, pt_outputMultiplier = Num (3 / 2) \<rparr>],
     pr_ratesVerifiedAt = None \<rparr>"

lemma sample_row_ok: "row_ok sample_row"
  by (simp add: row_ok_def sample_row_def number_or_nan_def or_else_def tiers_of_def bounded_by_def)

lemma sample_affordable: "affordableOutputTokens sample_row (Num 3) (Num 250000) = Some (Num 66666)"
proof -
  have tier: "tierFor sample_row (Num 250000) =
      Some \<lparr> pt_aboveInputTokens = Num 200000, pt_inputMultiplier = Num 2, pt_outputMultiplier = Num (3 / 2) \<rparr>"
    by (simp add: tierFor_def sample_row_def tiers_of_def)
  have price: "priceUsdOf sample_row (prompt_usage (Num 250000) (Num 0)) = Num (3 / 2)"
    using prompt_price [OF sample_row_ok, of 250000 0] tier by (simp add: input_mul_def sample_row_def number_or_nan_def)
  show ?thesis
    unfolding affordableOutputTokens_def Let_def tier zero_js_number_def price
    by (simp add: sample_row_def number_or_nan_def js_simps zero_js_number_def floor_eq_iff)
qed


end
