(* ===== verification/Budget.thy ===== *)
theory Budget
  imports Pricing
begin

text \<open>
  The run budget, \<open>packages/core/src/engine/budget.ts\<close>: the account tree, projected admission of
  spawns, the per-turn guard, live accounting and the bound on in-flight exposure. Dollars in accounts are
  rationals; amounts that arrive from configuration or from a price function are JavaScript numbers and are
  checked where the code checks them. Every call returns the budget even when it throws, because
  some throw after a change. An account's abort controller is the flag \<open>ac_aborted\<close>; a release closure
  is the value \<open>exposure_hold\<close>, and who still has it is the caller's state. Telemetry is left out.
\<close>

section \<open>State\<close>

datatype account_kind = Orchestrator_cap | Child_allowance

record account_state =
  ac_scope :: string
  ac_ceilingUsd :: "rat option"
  ac_spentUsd :: rat
  ac_committedReserveUsd :: rat
  ac_finalizeReserveUsd :: rat
  ac_synthesisReserveUsd :: rat
  ac_convergenceReserveUsd :: rat
  ac_repairReserveUsd :: rat
  ac_parentScope :: "string option"
  ac_kind :: "account_kind option"
  ac_aborted :: bool

record strict_pricing =
  sp_maxRatesAgeDays :: "js_number option"
  sp_allowUnpriced :: "string list option"

record budget_seed =
  bd_usd :: js_number
  bd_usage :: usage
  bd_agentsSpawned :: nat
  bd_accounts :: "(string, js_number) jsmap option"

record budget_options =
  bo_ceilingUsd :: "js_number option"
  bo_maxInFlightExposureUsd :: "js_number option"
  bo_clampTurnToExposure :: bool
  bo_lifetimeSpawnCap :: "nat option"
  bo_seed :: "budget_seed option"
  bo_strictPricing :: "strict_pricing option"

text \<open>The functions a run is configured with: prices, price rows, the clock and \<open>Date.parse\<close>.\<close>

record budget_env =
  be_priceUsd :: "string \<Rightarrow> usage \<Rightarrow> js_number option"
  be_pricingOf :: "string \<Rightarrow> pricing option"
  be_now :: rat
  be_dateParse :: "string \<Rightarrow> js_number"

record run_budget =
  rb_ceilingUsd :: "rat option"
  rb_maxInFlightExposureUsd :: "rat option"
  rb_clampTurnToExposure :: bool
  rb_lifetimeSpawnCap :: nat
  rb_strictPricing :: "strict_pricing option"
  rb_accounts :: "(string, account_state) jsmap"
  rb_seededAccountSpend :: "(string, rat) jsmap"
  rb_usage :: usage
  rb_agentsSpawned :: nat
  rb_pricedDispatchVetted :: "string list"
  rb_exhausted :: bool
  rb_inFlightExposureUsd :: rat
  rb_exposureHolds :: "(string, rat) jsmap"
  rb_unattributedHoldCount :: nat
  rb_exposureWaiters :: "nat list"
  rb_waitKeepalive :: bool
  rb_unpricedWarned :: "string list"
  rb_invalidPriceWarned :: "string list"

type_synonym 'a budget_call = "run_budget \<times> 'a result"

definition ROOT_ACCOUNT :: string where
  "ROOT_ACCOUNT = ''run''"

definition DEFAULT_FLAT_RESERVE_USD :: js_number where
  "DEFAULT_FLAT_RESERVE_USD = Num (1 / 2)"

definition FUTURE_RATES_TOLERANCE_MS :: rat where
  "FUTURE_RATES_TOLERANCE_MS = 86400000"

definition requireValidCeiling :: "js_number \<Rightarrow> rat result" where
  "requireValidCeiling v = (case v of Num x \<Rightarrow> if x < 0 then Inl ConfigError else Inr x | _ \<Rightarrow> Inl ConfigError)"

definition optional_ceiling :: "js_number option \<Rightarrow> rat option result" where
  "optional_ceiling v = (case v of None \<Rightarrow> Inr None | Some n \<Rightarrow> bindR (requireValidCeiling n) (\<lambda>x. Inr (Some x)))"

definition admissionReserveUsd ::
  "js_number option \<Rightarrow> js_number option \<Rightarrow> js_number option \<Rightarrow> (pricing option \<times> js_number) option \<Rightarrow> js_number option \<Rightarrow> js_number option \<Rightarrow> js_number" where
  "admissionReserveUsd estCost profileEstCost inputs caps maxOutputTokensPerTurn flatReserveUsd =
     (case estCost of
        Some c \<Rightarrow> c
      | None \<Rightarrow>
          (case profileEstCost of
             Some c \<Rightarrow> c
           | None \<Rightarrow>
               (case (inputs, caps) of
                  (Some i, Some (Some row, maxOutputTokens)) \<Rightarrow>
                    priceUsdOf row (prompt_usage i
                      (case maxOutputTokensPerTurn of None \<Rightarrow> maxOutputTokens | Some n \<Rightarrow> js_min maxOutputTokens n))
                | _ \<Rightarrow> (case flatReserveUsd of Some f \<Rightarrow> f | None \<Rightarrow> DEFAULT_FLAT_RESERVE_USD))))"

section \<open>Construction\<close>

definition valid_strictPricing :: "strict_pricing option \<Rightarrow> bool" where
  "valid_strictPricing sp =
     (case sp of
        None \<Rightarrow> True
      | Some s \<Rightarrow>
          (case sp_maxRatesAgeDays s of None \<Rightarrow> True | Some d \<Rightarrow> js_isInteger d \<and> \<not> d < Num 1)
          \<and> (case sp_allowUnpriced s of None \<Rightarrow> True | Some refs \<Rightarrow> list_all (\<lambda>ref. ref \<noteq> '''') refs))"

definition seed_accounts :: "(string, js_number) jsmap option \<Rightarrow> (string, rat) jsmap result" where
  "seed_accounts rows =
     foldR (\<lambda>m (scope, usd).
        if scope = ROOT_ACCOUNT then Inr m
        else bindR (requireValidCeiling usd) (\<lambda>x. Inr (jm_set scope x m))) [] (case rows of Some r \<Rightarrow> r | None \<Rightarrow> [])"

definition new_account_state :: "string \<Rightarrow> account_state" where
  "new_account_state scope = \<lparr> ac_scope = scope, ac_ceilingUsd = None, ac_spentUsd = 0, ac_committedReserveUsd = 0,
     ac_finalizeReserveUsd = 0, ac_synthesisReserveUsd = 0, ac_convergenceReserveUsd = 0, ac_repairReserveUsd = 0,
     ac_parentScope = None, ac_kind = None, ac_aborted = False \<rparr>"

definition new_budget :: "budget_options \<Rightarrow> run_budget result" where
  "new_budget opts =
     bindR (optional_ceiling (bo_ceilingUsd opts)) (\<lambda>limit.
     bindR (optional_ceiling (bo_maxInFlightExposureUsd opts)) (\<lambda>exposure.
     if \<not> valid_strictPricing (bo_strictPricing opts) then Inl ConfigError
     else
       let root = (new_account_state ROOT_ACCOUNT)\<lparr> ac_ceilingUsd := limit \<rparr>;
           b = \<lparr> rb_ceilingUsd = limit, rb_maxInFlightExposureUsd = exposure, rb_clampTurnToExposure = bo_clampTurnToExposure opts,
                 rb_lifetimeSpawnCap = (case bo_lifetimeSpawnCap opts of Some n \<Rightarrow> n | None \<Rightarrow> 500),
                 rb_strictPricing = bo_strictPricing opts, rb_accounts = [(ROOT_ACCOUNT, root)], rb_seededAccountSpend = [],
                 rb_usage = zeroUsage, rb_agentsSpawned = 0, rb_pricedDispatchVetted = [], rb_exhausted = False,
                 rb_inFlightExposureUsd = 0, rb_exposureHolds = [], rb_unattributedHoldCount = 0, rb_exposureWaiters = [],
                 rb_waitKeepalive = False, rb_unpricedWarned = [], rb_invalidPriceWarned = [] \<rparr>
       in case bo_seed opts of
            None \<Rightarrow> Inr b
          | Some seed \<Rightarrow>
              bindR (requireValidCeiling (bd_usd seed)) (\<lambda>usd.
              bindR (seed_accounts (bd_accounts seed)) (\<lambda>rows.
              Inr (b\<lparr> rb_accounts := [(ROOT_ACCOUNT, root\<lparr> ac_spentUsd := usd \<rparr>)], rb_usage := sanitizeUsage (bd_usage seed),
                       rb_agentsSpawned := bd_agentsSpawned seed, rb_seededAccountSpend := rows \<rparr>)))))"

section \<open>The tree\<close>

text \<open>
  The walk to the root, with the number of accounts as its bound. It is enough for every tree
  \<open>openAccount\<close> builds, where a parent is older than its children; the bound would show on a cycle only.
\<close>

fun chain_from :: "nat \<Rightarrow> (string, account_state) jsmap \<Rightarrow> string option \<Rightarrow> string list result option" where
  "chain_from n m None = Some (Inr [])"
| "chain_from 0 m (Some cursor) = None"
| "chain_from (Suc n) m (Some cursor) =
     (case jm_get m cursor of
        None \<Rightarrow> Some (Inl ConfigError)
      | Some a \<Rightarrow> map_option (\<lambda>rest. bindR rest (\<lambda>ks. Inr (cursor # ks))) (chain_from n m (ac_parentScope a)))"

definition chainOf :: "run_budget \<Rightarrow> string \<Rightarrow> string list result" where
  "chainOf b scope =
     (case chain_from (Suc (length (rb_accounts b))) (rb_accounts b) (Some scope) of Some r \<Rightarrow> r | None \<Rightarrow> Inl ConfigError)"

definition the_account :: "run_budget \<Rightarrow> string \<Rightarrow> account_state" where
  "the_account b k = (case jm_get (rb_accounts b) k of Some a \<Rightarrow> a | None \<Rightarrow> new_account_state k)"

definition chain_accounts :: "run_budget \<Rightarrow> string \<Rightarrow> account_state list result" where
  "chain_accounts b scope = bindR (chainOf b scope) (\<lambda>ks. Inr (map (the_account b) ks))"

definition on_account :: "(account_state \<Rightarrow> account_state) \<Rightarrow> string \<Rightarrow> run_budget \<Rightarrow> run_budget" where
  "on_account f k b =
     (case jm_get (rb_accounts b) k of Some a \<Rightarrow> b\<lparr> rb_accounts := jm_set k (f a) (rb_accounts b) \<rparr> | None \<Rightarrow> b)"

definition on_chain :: "(account_state \<Rightarrow> account_state) \<Rightarrow> string list \<Rightarrow> run_budget \<Rightarrow> run_budget" where
  "on_chain f ks b = foldl (\<lambda>b k. on_account f k b) b ks"

record account_options =
  ap_parentScope :: "string option"
  ap_ceilingUsd :: "js_number option"
  ap_finalizeReserveUsd :: "rat option"
  ap_kind :: "account_kind option"

definition openAccount :: "string \<Rightarrow> account_options \<Rightarrow> run_budget \<Rightarrow> unit budget_call" where
  "openAccount scope opts b =
     (if scope = ROOT_ACCOUNT then (b, Inl ConfigError)
      else if jm_has (rb_accounts b) scope then (b, Inr ())
      else
        let parent = (case ap_parentScope opts of Some p \<Rightarrow> p | None \<Rightarrow> ROOT_ACCOUNT)
        in if \<not> jm_has (rb_accounts b) parent then (b, Inl ConfigError)
           else (case optional_ceiling (ap_ceilingUsd opts) of
             Inl e \<Rightarrow> (b, Inl e)
           | Inr limit \<Rightarrow>
               let spent = (if ap_kind opts = Some Orchestrator_cap then 0
                            else (case jm_get (rb_seededAccountSpend b) scope of Some x \<Rightarrow> x | None \<Rightarrow> 0));
                   a = (new_account_state scope)\<lparr> ac_ceilingUsd := limit, ac_spentUsd := spent,
                         ac_finalizeReserveUsd := (case ap_finalizeReserveUsd opts of Some x \<Rightarrow> x | None \<Rightarrow> 0),
                         ac_parentScope := Some parent, ac_kind := ap_kind opts \<rparr>
               in (b\<lparr> rb_accounts := jm_set scope a (rb_accounts b) \<rparr>, Inr ())))"

definition raiseChildAllowance :: "string \<Rightarrow> js_number \<Rightarrow> run_budget \<Rightarrow> unit budget_call" where
  "raiseChildAllowance scope byUsd b =
     (case jm_get (rb_accounts b) scope of
        None \<Rightarrow> (b, Inl ConfigError)
      | Some a \<Rightarrow>
          if ac_kind a \<noteq> Some Child_allowance then (b, Inl ConfigError)
          else (case requireValidCeiling byUsd of
                  Inl e \<Rightarrow> (b, Inl e)
                | Inr x \<Rightarrow>
                    (on_account (\<lambda>a. a\<lparr> ac_ceilingUsd := Some ((case ac_ceilingUsd a of Some c \<Rightarrow> c | None \<Rightarrow> 0) + x) \<rparr>) scope b, Inr ())))"

section \<open>Diagnostics and views\<close>

datatype crossed_source = From_root | From_orchestrator_cap | From_child_account

record crossed_account =
  cx_scope :: string
  cx_source :: crossed_source
  cx_ceilingUsd :: rat
  cx_spentUsd :: rat
  cx_committedReserveUsd :: rat
  cx_finalizeReserveUsd :: rat

definition exhaustionDiagnostics :: "string \<Rightarrow> run_budget \<Rightarrow> crossed_account option \<times> rat option \<times> rat" where
  "exhaustionDiagnostics scope b =
     (let root = the_account b ROOT_ACCOUNT;
          chain = (case chain_accounts b scope of Inr as \<Rightarrow> as | Inl _ \<Rightarrow> [root]);
          crossed = List.find (\<lambda>a. case ac_ceilingUsd a of
              Some c \<Rightarrow> ac_spentUsd a + ac_committedReserveUsd a + ac_finalizeReserveUsd a \<ge> c | None \<Rightarrow> False) chain
      in (case crossed of
            None \<Rightarrow> None
          | Some a \<Rightarrow> map_option (\<lambda>c. \<lparr> cx_scope = ac_scope a,
                cx_source = (if ac_scope a = ROOT_ACCOUNT then From_root
                             else if ac_kind a = Some Orchestrator_cap then From_orchestrator_cap else From_child_account),
                cx_ceilingUsd = c, cx_spentUsd = ac_spentUsd a, cx_committedReserveUsd = ac_committedReserveUsd a,
                cx_finalizeReserveUsd = ac_finalizeReserveUsd a \<rparr>) (ac_ceilingUsd a),
          ac_ceilingUsd root, ac_spentUsd root))"

definition accountView :: "string \<Rightarrow> run_budget \<Rightarrow> account_state option" where
  "accountView scope b = jm_get (rb_accounts b) scope"

text \<open>Everything an account has spent or holds back, as layer 1 counts it.\<close>

definition commitments :: "account_state \<Rightarrow> rat" where
  "commitments a = ac_spentUsd a + ac_committedReserveUsd a + ac_finalizeReserveUsd a + ac_synthesisReserveUsd a
     + ac_convergenceReserveUsd a + ac_repairReserveUsd a"

definition remainderOf :: "string \<Rightarrow> run_budget \<Rightarrow> rat option" where
  "remainderOf scope b =
     Option.bind (jm_get (rb_accounts b) scope) (\<lambda>a. map_option (\<lambda>c. max 0 (c - commitments a)) (ac_ceilingUsd a))"

definition min_option :: "rat option \<Rightarrow> rat \<Rightarrow> rat option" where
  "min_option m x = Some (case m of None \<Rightarrow> x | Some y \<Rightarrow> min y x)"

definition allowanceHeadroomOf :: "string \<Rightarrow> run_budget \<Rightarrow> rat option result" where
  "allowanceHeadroomOf scope b =
     bindR (chain_accounts b scope) (\<lambda>as. Inr (foldl (\<lambda>headroom a.
        case (ac_kind a, ac_ceilingUsd a) of
          (Some Child_allowance, Some c) \<Rightarrow>
            min_option headroom (max 0 (c - ac_spentUsd a - ac_committedReserveUsd a - ac_finalizeReserveUsd a))
        | _ \<Rightarrow> headroom) None as))"

definition signalOf :: "string \<Rightarrow> run_budget \<Rightarrow> bool option" where
  "signalOf scope b = map_option ac_aborted (jm_get (rb_accounts b) scope)"

definition markExhausted :: "run_budget \<Rightarrow> run_budget" where
  "markExhausted b = b\<lparr> rb_exhausted := True \<rparr>"

definition spawnHeadroom :: "run_budget \<Rightarrow> nat" where
  "spawnHeadroom b = rb_lifetimeSpawnCap b - rb_agentsSpawned b"

section \<open>The strict pricing gate\<close>

definition malformed_rate :: "js_number option \<Rightarrow> bool" where
  "malformed_rate v = (case v of None \<Rightarrow> False | Some r \<Rightarrow> \<not> js_isFinite r \<or> r < 0)"

definition malformed_tier :: "pricing_tier \<Rightarrow> bool" where
  "malformed_tier t \<longleftrightarrow> \<not> js_isFinite (pt_aboveInputTokens t) \<or> \<not> js_isFinite (pt_inputMultiplier t) \<or> \<not> js_isFinite (pt_outputMultiplier t)
     \<or> pt_inputMultiplier t < 0 \<or> pt_outputMultiplier t < 0"

definition rates_fresh :: "budget_env \<Rightarrow> strict_pricing \<Rightarrow> pricing \<Rightarrow> bool" where
  "rates_fresh env sp row =
     (case sp_maxRatesAgeDays sp of
        None \<Rightarrow> True
      | Some days \<Rightarrow>
          (case pr_ratesVerifiedAt row of
             None \<Rightarrow> False
           | Some date \<Rightarrow>
               let verifiedMs = be_dateParse env date; ageMs = Num (be_now env) - verifiedMs
               in js_isFinite verifiedMs \<and> \<not> days * Num 86400000 < ageMs \<and> \<not> ageMs < Num (- FUTURE_RATES_TOLERANCE_MS)))"

definition assertPricedDispatch :: "budget_env \<Rightarrow> string \<Rightarrow> run_budget \<Rightarrow> unit budget_call" where
  "assertPricedDispatch env servedBy b =
     (case rb_strictPricing b of
        None \<Rightarrow> (b, Inr ())
      | Some sp \<Rightarrow>
          let vetted = b\<lparr> rb_pricedDispatchVetted := List.insert servedBy (rb_pricedDispatchVetted b) \<rparr>
          in if servedBy \<in> set (rb_pricedDispatchVetted b) then (b, Inr ())
             else if (case sp_allowUnpriced sp of Some refs \<Rightarrow> servedBy \<in> set refs | None \<Rightarrow> False) then (vetted, Inr ())
             else (case be_pricingOf env servedBy of
                 None \<Rightarrow> (b, Inl ConfigError)
               | Some row \<Rightarrow>
                   if pr_inputUsdPerMTok row = None \<or> pr_outputUsdPerMTok row = None then (b, Inl ConfigError)
                   else if list_ex malformed_rate (map (rate_of row) RATE_FIELDS) then (b, Inl ConfigError)
                   else if list_ex malformed_tier (tiers_of row) then (b, Inl ConfigError)
                   else if \<not> rates_fresh env sp row then (b, Inl ConfigError)
                   else (vetted, Inr ())))"

section \<open>Layer 1: projected admission\<close>

fun find_full :: "rat \<Rightarrow> account_state list \<Rightarrow> account_state option" where
  "find_full reserve [] = None"
| "find_full reserve (a # as) =
     (case ac_ceilingUsd a of
        None \<Rightarrow> find_full reserve as
      | Some c \<Rightarrow> if commitments a \<ge> c \<or> commitments a + reserve > c then Some a else find_full reserve as)"

definition refuseSpawnIfInfeasible :: "js_number \<Rightarrow> string \<Rightarrow> run_budget \<Rightarrow> rat budget_call" where
  "refuseSpawnIfInfeasible reserveUsd accountScope b =
     (case requireValidCeiling reserveUsd of
        Inl e \<Rightarrow> (b, Inl e)
      | Inr reserve \<Rightarrow>
          if rb_agentsSpawned b \<ge> rb_lifetimeSpawnCap b
          then (b\<lparr> rb_exhausted := True \<rparr>, Inl (BudgetExhaustedError Spawn_cap))
          else (case chain_accounts b accountScope of
              Inl e \<Rightarrow> (b, Inl e)
            | Inr as \<Rightarrow>
                (case find_full reserve as of
                   Some a \<Rightarrow> (b\<lparr> rb_exhausted := rb_exhausted b \<or> ac_scope a = ROOT_ACCOUNT \<rparr>,
                              Inl (BudgetExhaustedError (Account_full (ac_scope a))))
                 | None \<Rightarrow> (b, Inr reserve))))"

definition commit_reserve :: "rat \<Rightarrow> account_state \<Rightarrow> account_state" where
  "commit_reserve reserve a = a\<lparr> ac_committedReserveUsd := ac_committedReserveUsd a + reserve \<rparr>"

definition admitRecovered :: "rat \<Rightarrow> string \<Rightarrow> run_budget \<Rightarrow> unit budget_call" where
  "admitRecovered reserve accountScope b =
     (case chainOf b accountScope of Inl e \<Rightarrow> (b, Inl e) | Inr ks \<Rightarrow> (on_chain (commit_reserve reserve) ks b, Inr ()))"

definition admitSpawn :: "js_number \<Rightarrow> string \<Rightarrow> run_budget \<Rightarrow> unit budget_call" where
  "admitSpawn reserveUsd accountScope b =
     (case refuseSpawnIfInfeasible reserveUsd accountScope b of
        (b', Inl e) \<Rightarrow> (b', Inl e)
      | (b', Inr reserve) \<Rightarrow> admitRecovered reserve accountScope (b'\<lparr> rb_agentsSpawned := rb_agentsSpawned b' + 1 \<rparr>))"

definition releaseReserve :: "rat \<Rightarrow> string \<Rightarrow> run_budget \<Rightarrow> unit budget_call" where
  "releaseReserve reserve accountScope b =
     (case chainOf b accountScope of
        Inl e \<Rightarrow> (b, Inl e)
      | Inr ks \<Rightarrow> (on_chain (\<lambda>a. a\<lparr> ac_committedReserveUsd := max 0 (ac_committedReserveUsd a - reserve) \<rparr>) ks b, Inr ()))"

subsection \<open>Held reserves\<close>

definition commitFinalizeReserve :: "string \<Rightarrow> rat \<Rightarrow> run_budget \<Rightarrow> unit budget_call" where
  "commitFinalizeReserve scope reserve b =
     (if \<not> jm_has (rb_accounts b) scope then (b, Inl ConfigError)
      else (on_account (\<lambda>r. r\<lparr> ac_finalizeReserveUsd := max (ac_finalizeReserveUsd r) reserve \<rparr>) ROOT_ACCOUNT
             (on_account (\<lambda>a. a\<lparr> ac_finalizeReserveUsd := reserve \<rparr>) scope b), Inr ()))"

definition releaseFinalizeReserve :: "string \<Rightarrow> run_budget \<Rightarrow> run_budget" where
  "releaseFinalizeReserve scope b =
     on_account (\<lambda>r. r\<lparr> ac_finalizeReserveUsd := 0 \<rparr>) ROOT_ACCOUNT (on_account (\<lambda>a. a\<lparr> ac_finalizeReserveUsd := 0 \<rparr>) scope b)"

text \<open>
  The synthesis, convergence and repair reserves follow one scheme, over the member that holds
  them: registering sets it and moves the root by the difference, releasing empties it.
\<close>

definition commit_held ::
  "(account_state \<Rightarrow> rat) \<Rightarrow> (rat \<Rightarrow> account_state \<Rightarrow> account_state) \<Rightarrow> string \<Rightarrow> rat \<Rightarrow> run_budget \<Rightarrow> unit budget_call" where
  "commit_held get put scope reserve b =
     (case jm_get (rb_accounts b) scope of
        None \<Rightarrow> (b, Inl ConfigError)
      | Some a \<Rightarrow>
          let b1 = on_account (put reserve) scope b
          in (if ac_scope a \<noteq> ROOT_ACCOUNT
              then on_account (\<lambda>r. put (max 0 (get r + reserve - get a)) r) ROOT_ACCOUNT b1 else b1, Inr ()))"

definition release_held ::
  "(account_state \<Rightarrow> rat) \<Rightarrow> (rat \<Rightarrow> account_state \<Rightarrow> account_state) \<Rightarrow> string \<Rightarrow> run_budget \<Rightarrow> run_budget" where
  "release_held get put scope b =
     (case jm_get (rb_accounts b) scope of
        None \<Rightarrow> b
      | Some a \<Rightarrow>
          if get a = 0 then b
          else on_account (put 0) scope
                 (if ac_scope a \<noteq> ROOT_ACCOUNT then on_account (\<lambda>r. put (max 0 (get r - get a)) r) ROOT_ACCOUNT b else b))"

definition put_synthesis :: "rat \<Rightarrow> account_state \<Rightarrow> account_state" where
  "put_synthesis x a = a\<lparr> ac_synthesisReserveUsd := x \<rparr>"

definition put_convergence :: "rat \<Rightarrow> account_state \<Rightarrow> account_state" where
  "put_convergence x a = a\<lparr> ac_convergenceReserveUsd := x \<rparr>"

definition put_repair :: "rat \<Rightarrow> account_state \<Rightarrow> account_state" where
  "put_repair x a = a\<lparr> ac_repairReserveUsd := x \<rparr>"

definition commitSynthesisReserve :: "string \<Rightarrow> rat \<Rightarrow> run_budget \<Rightarrow> unit budget_call" where
  "commitSynthesisReserve = commit_held ac_synthesisReserveUsd put_synthesis"

definition releaseSynthesisReserve :: "string \<Rightarrow> run_budget \<Rightarrow> run_budget" where
  "releaseSynthesisReserve = release_held ac_synthesisReserveUsd put_synthesis"

definition commitConvergenceReserve :: "string \<Rightarrow> rat \<Rightarrow> run_budget \<Rightarrow> unit budget_call" where
  "commitConvergenceReserve = commit_held ac_convergenceReserveUsd put_convergence"

definition releaseConvergenceReserve :: "string \<Rightarrow> run_budget \<Rightarrow> run_budget" where
  "releaseConvergenceReserve = release_held ac_convergenceReserveUsd put_convergence"

definition commitRepairReserve :: "string \<Rightarrow> rat \<Rightarrow> run_budget \<Rightarrow> unit budget_call" where
  "commitRepairReserve = commit_held ac_repairReserveUsd put_repair"

definition releaseRepairReserve :: "string \<Rightarrow> run_budget \<Rightarrow> run_budget" where
  "releaseRepairReserve = release_held ac_repairReserveUsd put_repair"

section \<open>In-flight exposure\<close>

record exposure_hold =
  xh_estimateUsd :: rat
  xh_holderScope :: "string option"

datatype wake = Released | Drained | Aborted

definition finite_positive :: "js_number \<Rightarrow> rat" where
  "finite_positive v = (case v of Num x \<Rightarrow> if x > 0 then x else 0 | _ \<Rightarrow> 0)"

definition turn_estimate :: "budget_env \<Rightarrow> string \<Rightarrow> js_number \<Rightarrow> js_number \<Rightarrow> rat" where
  "turn_estimate env servedBy estimatedInputTokens plannedOutputTokens =
     (case be_pricingOf env servedBy of
        None \<Rightarrow> 0
      | Some row \<Rightarrow> finite_positive (priceUsdOf row (prompt_usage (js_max 0 estimatedInputTokens) (js_max 0 plannedOutputTokens))))"

definition reserveTurnExposure ::
  "budget_env \<Rightarrow> string \<Rightarrow> js_number \<Rightarrow> js_number \<Rightarrow> string option \<Rightarrow> run_budget \<Rightarrow> exposure_hold option budget_call" where
  "reserveTurnExposure env servedBy estimatedInputTokens plannedOutputTokens holderScope b =
     (case rb_maxInFlightExposureUsd b of
        None \<Rightarrow> (b, Inr None)
      | Some cap \<Rightarrow>
          let estimate = turn_estimate env servedBy estimatedInputTokens plannedOutputTokens;
              committed = ac_spentUsd (the_account b ROOT_ACCOUNT) + rb_inFlightExposureUsd b
          in if committed \<ge> cap \<or> committed + estimate > cap then (b, Inl (BudgetExhaustedError In_flight_exposure))
             else
               let b1 = b\<lparr> rb_inFlightExposureUsd := rb_inFlightExposureUsd b + estimate \<rparr>;
                   b2 = (if estimate > 0
                         then (case holderScope of
                             None \<Rightarrow> b1\<lparr> rb_unattributedHoldCount := rb_unattributedHoldCount b1 + 1 \<rparr>
                           | Some h \<Rightarrow> b1\<lparr> rb_exposureHolds := jm_set h
                               ((case jm_get (rb_exposureHolds b1) h of Some x \<Rightarrow> x | None \<Rightarrow> 0) + estimate) (rb_exposureHolds b1) \<rparr>)
                         else b1)
               in (b2, Inr (Some \<lparr> xh_estimateUsd = estimate, xh_holderScope = holderScope \<rparr>)))"

definition no_holders :: "run_budget \<Rightarrow> bool" where
  "no_holders b \<longleftrightarrow> rb_exposureHolds b = [] \<and> rb_unattributedHoldCount b = 0"

definition syncExposureKeepalive :: "run_budget \<Rightarrow> run_budget" where
  "syncExposureKeepalive b = b\<lparr> rb_waitKeepalive := (rb_exposureWaiters b \<noteq> []) \<rparr>"

text \<open>A woken waiter removes itself and settles its promise: the result lists who was woken.\<close>

definition wake_one :: "nat \<Rightarrow> run_budget \<Rightarrow> run_budget" where
  "wake_one w b = syncExposureKeepalive (b\<lparr> rb_exposureWaiters := filter (\<lambda>x. x \<noteq> w) (rb_exposureWaiters b) \<rparr>)"

definition wake_all :: "wake \<Rightarrow> run_budget \<Rightarrow> run_budget \<times> (nat \<times> wake) list" where
  "wake_all flavour b = (foldl (\<lambda>b w. wake_one w b) b (rb_exposureWaiters b), map (\<lambda>w. (w, flavour)) (rb_exposureWaiters b))"

definition settleExposureRelease :: "rat \<Rightarrow> run_budget \<Rightarrow> run_budget \<times> (nat \<times> wake) list" where
  "settleExposureRelease amount b =
     wake_all Released (b\<lparr> rb_inFlightExposureUsd := (if no_holders b then 0 else max 0 (rb_inFlightExposureUsd b - amount)) \<rparr>)"

text \<open>The release closure, on its first call.\<close>

definition release_hold :: "exposure_hold \<Rightarrow> run_budget \<Rightarrow> run_budget \<times> (nat \<times> wake) list" where
  "release_hold h b =
     (if xh_estimateUsd h > 0
      then (case xh_holderScope h of
          None \<Rightarrow> settleExposureRelease (xh_estimateUsd h) (b\<lparr> rb_unattributedHoldCount := rb_unattributedHoldCount b - 1 \<rparr>)
        | Some scope \<Rightarrow>
            let held = (case jm_get (rb_exposureHolds b) scope of Some x \<Rightarrow> x | None \<Rightarrow> 0);
                amount = min (xh_estimateUsd h) held
            in settleExposureRelease amount
                 (b\<lparr> rb_exposureHolds := (if held - amount \<le> 0 then jm_delete scope (rb_exposureHolds b)
                                            else jm_set scope (held - amount) (rb_exposureHolds b)) \<rparr>))
      else settleExposureRelease 0 b)"

definition releaseExposureHolder :: "string \<Rightarrow> run_budget \<Rightarrow> run_budget \<times> (nat \<times> wake) list \<times> rat" where
  "releaseExposureHolder scope b =
     (let held = (case jm_get (rb_exposureHolds b) scope of Some x \<Rightarrow> x | None \<Rightarrow> 0);
          b1 = b\<lparr> rb_exposureHolds := jm_delete scope (rb_exposureHolds b) \<rparr>
      in if held \<le> 0 then (b1, [], 0)
         else (case settleExposureRelease held b1 of (b2, ws) \<Rightarrow> (b2, ws, held)))"

text \<open>The interval of the keepalive.\<close>

definition sweep :: "run_budget \<Rightarrow> run_budget \<times> (nat \<times> wake) list" where
  "sweep b = (if rb_waitKeepalive b \<and> no_holders b then wake_all Drained b else (b, []))"

definition liveExposureHolderCount :: "run_budget \<Rightarrow> nat" where
  "liveExposureHolderCount b = length (rb_exposureHolds b)"

text \<open>A wait that is not answered at once parks under a fresh name.\<close>

definition awaitExposureRelease :: "bool \<Rightarrow> nat \<Rightarrow> run_budget \<Rightarrow> run_budget \<times> wake option" where
  "awaitExposureRelease aborted w b =
     (if aborted then (b, Some Aborted)
      else if rb_inFlightExposureUsd b \<le> 0 then (b, Some Drained)
      else (syncExposureKeepalive (b\<lparr> rb_exposureWaiters := rb_exposureWaiters b @ [w] \<rparr>), None))"

definition abort_wait :: "nat \<Rightarrow> run_budget \<Rightarrow> run_budget" where
  "abort_wait w b = wake_one w b"

section \<open>Layer 2: turns\<close>

definition beforeTurn :: "string \<Rightarrow> run_budget \<Rightarrow> unit budget_call" where
  "beforeTurn accountScope b =
     (case chain_accounts b accountScope of
        Inl e \<Rightarrow> (b, Inl e)
      | Inr as \<Rightarrow>
          (case List.find (\<lambda>a. case ac_ceilingUsd a of Some c \<Rightarrow> ac_spentUsd a \<ge> c | None \<Rightarrow> False) as of
             Some a \<Rightarrow> (b\<lparr> rb_exhausted := rb_exhausted b \<or> ac_scope a = ROOT_ACCOUNT \<rparr>,
                        Inl (BudgetExhaustedError (Turn_ceiling (ac_scope a))))
           | None \<Rightarrow> (b, Inr ())))"

definition remainingUsd :: "string \<Rightarrow> run_budget \<Rightarrow> rat option result" where
  "remainingUsd accountScope b =
     bindR (chain_accounts b accountScope) (\<lambda>as. Inr (map_option (max 0) (foldl (\<lambda>remaining a.
        case ac_ceilingUsd a of
          None \<Rightarrow> remaining
        | Some c \<Rightarrow> min_option remaining
            (c - ac_spentUsd a - ac_synthesisReserveUsd a - ac_convergenceReserveUsd a - ac_repairReserveUsd a)) None as)))"

definition maxAffordableOutputTokens :: "budget_env \<Rightarrow> string \<Rightarrow> js_number \<Rightarrow> string \<Rightarrow> run_budget \<Rightarrow> js_number option result" where
  "maxAffordableOutputTokens env servedBy estimatedInputTokens accountScope b =
     (case be_pricingOf env servedBy of
        None \<Rightarrow> Inr None
      | Some row \<Rightarrow> bindR (remainingUsd accountScope b) (\<lambda>r. Inr (Option.bind r (\<lambda>usd. affordableOutputTokens row (Num usd) estimatedInputTokens))))"

definition maxExposureOutputTokens :: "budget_env \<Rightarrow> string \<Rightarrow> js_number \<Rightarrow> run_budget \<Rightarrow> js_number option" where
  "maxExposureOutputTokens env servedBy estimatedInputTokens b =
     (case rb_maxInFlightExposureUsd b of
        Some cap \<Rightarrow>
          if \<not> rb_clampTurnToExposure b \<or> rb_inFlightExposureUsd b > 0 then None
          else Option.bind (be_pricingOf env servedBy) (\<lambda>row.
                 affordableOutputTokens row (Num (max 0 (cap - ac_spentUsd (the_account b ROOT_ACCOUNT)))) estimatedInputTokens)
      | None \<Rightarrow> None)"

section \<open>Layer 3: accounting\<close>

definition debitableUsd :: "budget_env \<Rightarrow> string \<Rightarrow> usage \<Rightarrow> run_budget \<Rightarrow> run_budget \<times> rat" where
  "debitableUsd env servedBy u b =
     (let priced = be_priceUsd env servedBy u;
          b1 = (if priced = None \<and> rb_ceilingUsd b \<noteq> None
                then b\<lparr> rb_unpricedWarned := List.insert servedBy (rb_unpricedWarned b) \<rparr> else b)
      in case requireValidCeiling (case priced of Some v \<Rightarrow> v | None \<Rightarrow> 0) of
           Inl _ \<Rightarrow> (b1\<lparr> rb_invalidPriceWarned := List.insert servedBy (rb_invalidPriceWarned b1) \<rparr>, 0)
         | Inr usd \<Rightarrow> (b1, usd))"

definition debit_account :: "rat \<Rightarrow> account_state \<Rightarrow> account_state" where
  "debit_account usd a =
     (let spent = ac_spentUsd a + usd
      in a\<lparr> ac_spentUsd := spent,
             ac_aborted := (ac_aborted a \<or> (case ac_ceilingUsd a of Some c \<Rightarrow> spent \<ge> c | None \<Rightarrow> False)) \<rparr>)"

text \<open>The root's first crossing also marks the run exhausted.\<close>

definition crosses_root :: "rat \<Rightarrow> run_budget \<Rightarrow> bool" where
  "crosses_root usd b \<longleftrightarrow> (let root = the_account b ROOT_ACCOUNT in
     (case ac_ceilingUsd root of Some c \<Rightarrow> ac_spentUsd root + usd \<ge> c | None \<Rightarrow> False) \<and> \<not> ac_aborted root)"

definition debitAccounts :: "rat \<Rightarrow> string \<Rightarrow> run_budget \<Rightarrow> unit budget_call" where
  "debitAccounts usd accountScope b =
     (case chainOf b accountScope of
        Inl e \<Rightarrow> (b, Inl e)
      | Inr ks \<Rightarrow> (on_chain (debit_account usd) ks
                    (b\<lparr> rb_exhausted := rb_exhausted b \<or> (ROOT_ACCOUNT \<in> set ks \<and> crosses_root usd b) \<rparr>), Inr ()))"

definition onUsage :: "budget_env \<Rightarrow> usage \<Rightarrow> string \<Rightarrow> string \<Rightarrow> run_budget \<Rightarrow> unit budget_call" where
  "onUsage env u servedBy accountScope b =
     (let safe = sanitizeUsageDelta u
      in case debitableUsd env servedBy safe (b\<lparr> rb_usage := sumUsage (rb_usage b) safe \<rparr>) of
           (b', usd) \<Rightarrow> debitAccounts usd accountScope b')"

record call_meter =
  cm_servedBy :: string
  cm_accountScope :: string
  cm_accumulated :: usage
  cm_pricedUsd :: rat

definition openCallMeter :: "string \<Rightarrow> string \<Rightarrow> call_meter" where
  "openCallMeter servedBy accountScope = \<lparr> cm_servedBy = servedBy, cm_accountScope = accountScope, cm_accumulated = zeroUsage, cm_pricedUsd = 0 \<rparr>"

definition feed_meter :: "budget_env \<Rightarrow> usage \<Rightarrow> call_meter \<Rightarrow> run_budget \<Rightarrow> call_meter \<times> unit budget_call" where
  "feed_meter env delta m b =
     (let safe = sanitizeUsageDelta delta;
          acc = sumUsage (cm_accumulated m) safe
      in case debitableUsd env (cm_servedBy m) acc (b\<lparr> rb_usage := sumUsage (rb_usage b) safe \<rparr>) of
           (b', tot) \<Rightarrow>
             (m\<lparr> cm_accumulated := acc, cm_pricedUsd := max (cm_pricedUsd m) tot \<rparr>,
              debitAccounts (max 0 (tot - cm_pricedUsd m)) (cm_accountScope m) b'))"

definition spent_now :: "run_budget \<Rightarrow> rat \<times> usage \<times> nat" where
  "spent_now b = (ac_spentUsd (the_account b ROOT_ACCOUNT), rb_usage b, rb_agentsSpawned b)"

definition remaining_now :: "run_budget \<Rightarrow> (rat \<times> usage \<times> nat) option" where
  "remaining_now b =
     map_option (\<lambda>c. (max 0 (c - ac_spentUsd (the_account b ROOT_ACCOUNT)), zeroUsage, rb_lifetimeSpawnCap b - rb_agentsSpawned b))
       (ac_ceilingUsd (the_account b ROOT_ACCOUNT))"

end
