(* ===== verification/BudgetSafety.thy ===== *)
theory BudgetSafety
  imports Budget
begin

text \<open>
  What the run budget guarantees: every account has a finite chain to the root, spend reaches
  exactly the accounts of the chain, projected admission is exact and all-or-nothing, a call meter
  debits the price of its call, and the exposure scalar is the sum of the live holds.
\<close>

section \<open>The account tree\<close>

text \<open>The shape of the tree, newest account first: names and parents.\<close>

definition shape :: "run_budget \<Rightarrow> (string \<times> string option) list" where
  "shape b = rev (map (\<lambda>(k, a). (k, ac_parentScope a)) (rb_accounts b))"

fun tree :: "(string \<times> string option) list \<Rightarrow> bool" where
  "tree [] = False"
| "tree [(k, p)] = (k = ROOT_ACCOUNT \<and> p = None)"
| "tree ((k, p) # r) = (k \<notin> fst ` set r \<and> (\<exists>q. p = Some q \<and> q \<in> fst ` set r) \<and> tree r)"

lemma tree_Cons: "r \<noteq> [] \<Longrightarrow> tree ((k, p) # r) = (k \<notin> fst ` set r \<and> (\<exists>q. p = Some q \<and> q \<in> fst ` set r) \<and> tree r)"
  by (cases r) simp_all

fun ancestors :: "(string \<times> string option) list \<Rightarrow> string \<Rightarrow> string list" where
  "ancestors [] k = []"
| "ancestors ((k', p) # r) k =
     (if k = k' then k # (case p of None \<Rightarrow> [] | Some q \<Rightarrow> ancestors r q) else ancestors r k)"

lemma ancestors_subset: "set (ancestors r k) \<subseteq> fst ` set r"
  by (induction r k rule: ancestors.induct) (auto split: option.splits)

lemma ancestors_distinct: "tree r \<Longrightarrow> distinct (ancestors r k)"
proof (induction r arbitrary: k)
  case (Cons kp r)
  obtain k' p where kp: "kp = (k', p)" by fastforce
  show ?case
  proof (cases "r = []")
    case True
    then show ?thesis using Cons.prems kp by simp
  next
    case False
    then show ?thesis using Cons kp ancestors_subset [of r] by (auto simp: tree_Cons)
  qed
qed simp

lemma ancestors_root: "tree r \<Longrightarrow> k \<in> fst ` set r \<Longrightarrow> ROOT_ACCOUNT \<in> set (ancestors r k)"
proof (induction r arbitrary: k)
  case (Cons kp r)
  obtain k' p where kp: "kp = (k', p)" by fastforce
  show ?case
  proof (cases "r = []")
    case True
    then show ?thesis using Cons.prems kp by simp
  next
    case False
    then show ?thesis using Cons kp by (auto simp: tree_Cons image_iff)
  qed
qed simp

lemma ancestors_self: "k \<in> fst ` set r \<Longrightarrow> k \<in> set (ancestors r k)"
  by (induction r k rule: ancestors.induct) auto

lemma chain_from_ancestors:
  assumes "tree r" "k \<in> fst ` set r" "length r < n"
    and "\<And>x. x \<in> fst ` set r \<Longrightarrow> map_option ac_parentScope (jm_get m x) = map_of r x"
  shows "chain_from n m (Some k) = Some (Inr (ancestors r k))"
  using assms
proof (induction r arbitrary: k n)
  case (Cons kp r)
  obtain k' p where kp: "kp = (k', p)" by fastforce
  obtain n' where n: "n = Suc n'" "length r < n'" using Cons.prems(3) by (cases n) auto
  show ?case
  proof (cases "r = []")
    case True
    then have "map_option ac_parentScope (jm_get m k) = Some None" "k = k'" using Cons.prems kp by auto
    then show ?thesis using True kp Cons.prems(1) n by (cases n') auto
  next
    case False
    have t: "k' \<notin> fst ` set r" "tree r" and q: "\<exists>q. p = Some q \<and> q \<in> fst ` set r"
      using Cons.prems(1) False kp by (auto simp: tree_Cons)
    have look: "map_option ac_parentScope (jm_get m x) = map_of r x" if "x \<in> fst ` set r" for x
      using Cons.prems(4) [of x] that t(1) kp by (auto split: if_splits)
    show ?thesis
    proof (cases "k = k'")
      case True
      obtain q where q: "p = Some q" "q \<in> fst ` set r" using q by blast
      have "map_option ac_parentScope (jm_get m k) = Some (Some q)" using Cons.prems(4) [of k] True kp q(1) by simp
      then show ?thesis using Cons.IH [OF t(2) q(2) n(2) look] True kp q n by auto
    next
      case False
      then have "k \<in> fst ` set r" using Cons.prems(2) kp by auto
      then show ?thesis using Cons.IH [OF t(2) _ _ look, of k n] False kp n by simp
    qed
  qed
qed simp

definition budget_wf :: "run_budget \<Rightarrow> bool" where
  "budget_wf b \<longleftrightarrow> tree (shape b) \<and> (\<forall>k a. jm_get (rb_accounts b) k = Some a \<longrightarrow> ac_scope a = k)"

lemma shape_keys: "fst ` set (shape b) = set (jm_keys (rb_accounts b))"
  by (force simp: shape_def image_iff)

lemma tree_distinct: "tree r \<Longrightarrow> distinct (map fst r)"
proof (induction r)
  case (Cons kp r)
  then show ?case by (cases kp; cases "r = []") (auto simp: tree_Cons)
qed simp

lemma budget_wf_keys: "budget_wf b \<Longrightarrow> jm_wf (rb_accounts b)"
  using tree_distinct [of "shape b"]
  by (simp add: budget_wf_def shape_def jm_wf_def rev_map [symmetric] comp_def case_prod_unfold)

lemma shape_parent:
  assumes "budget_wf b"
  shows "map_of (shape b) k = map_option ac_parentScope (jm_get (rb_accounts b) k)"
proof -
  have "distinct (map fst (rb_accounts b))" using budget_wf_keys [OF assms] by (simp add: jm_wf_def)
  then have "map_of (shape b) = map_of (map (\<lambda>(k, a). (k, ac_parentScope a)) (rb_accounts b))"
    unfolding shape_def by (subst map_of_inject_set) (simp_all add: case_prod_unfold comp_def rev_map [symmetric])
  then show ?thesis by (simp add: jm_get_def map_of_map)
qed

text \<open>Every account has a chain, and it is the list of its ancestors.\<close>

lemma chainOf_known:
  assumes "budget_wf b" "k \<in> set (jm_keys (rb_accounts b))"
  shows "chainOf b k = Inr (ancestors (shape b) k)"
proof -
  have "chain_from (Suc (length (rb_accounts b))) (rb_accounts b) (Some k) = Some (Inr (ancestors (shape b) k))"
    by (rule chain_from_ancestors)
      (use assms shape_keys [of b] shape_parent [OF assms(1)] in \<open>auto simp: budget_wf_def shape_def\<close>)
  then show ?thesis by (simp add: chainOf_def)
qed

lemma chainOf_unknown: "k \<notin> set (jm_keys (rb_accounts b)) \<Longrightarrow> chainOf b k = Inl ConfigError"
  using jm_get_None_keys [of "rb_accounts b" k] by (simp add: chainOf_def)

lemma root_known: "budget_wf b \<Longrightarrow> ROOT_ACCOUNT \<in> set (jm_keys (rb_accounts b))"
proof -
  have "tree r \<Longrightarrow> ROOT_ACCOUNT \<in> fst ` set r" for r
  proof (induction r)
    case (Cons kp r)
    then show ?case by (cases kp; cases "r = []") (auto simp: tree_Cons)
  qed simp
  then show "budget_wf b \<Longrightarrow> ROOT_ACCOUNT \<in> set (jm_keys (rb_accounts b))"
    unfolding budget_wf_def shape_keys [symmetric] by blast
qed

section \<open>Updates along a chain\<close>

definition keeps_place :: "(account_state \<Rightarrow> account_state) \<Rightarrow> bool" where
  "keeps_place f \<longleftrightarrow> (\<forall>a. ac_parentScope (f a) = ac_parentScope a \<and> ac_scope (f a) = ac_scope a)"

lemma on_account_frame [simp]:
  "rb_ceilingUsd (on_account f k b) = rb_ceilingUsd b" "rb_maxInFlightExposureUsd (on_account f k b) = rb_maxInFlightExposureUsd b"
  "rb_seededAccountSpend (on_account f k b) = rb_seededAccountSpend b" "rb_agentsSpawned (on_account f k b) = rb_agentsSpawned b"
  "rb_lifetimeSpawnCap (on_account f k b) = rb_lifetimeSpawnCap b" "rb_inFlightExposureUsd (on_account f k b) = rb_inFlightExposureUsd b"
  "rb_exposureHolds (on_account f k b) = rb_exposureHolds b" "rb_unattributedHoldCount (on_account f k b) = rb_unattributedHoldCount b"
  "rb_exposureWaiters (on_account f k b) = rb_exposureWaiters b" "rb_waitKeepalive (on_account f k b) = rb_waitKeepalive b"
  by (simp_all add: on_account_def split: option.split)

lemma on_chain_frame [simp]:
  "rb_ceilingUsd (on_chain f ks b) = rb_ceilingUsd b" "rb_maxInFlightExposureUsd (on_chain f ks b) = rb_maxInFlightExposureUsd b"
  "rb_seededAccountSpend (on_chain f ks b) = rb_seededAccountSpend b" "rb_agentsSpawned (on_chain f ks b) = rb_agentsSpawned b"
  "rb_lifetimeSpawnCap (on_chain f ks b) = rb_lifetimeSpawnCap b" "rb_inFlightExposureUsd (on_chain f ks b) = rb_inFlightExposureUsd b"
  "rb_exposureHolds (on_chain f ks b) = rb_exposureHolds b" "rb_unattributedHoldCount (on_chain f ks b) = rb_unattributedHoldCount b"
  "rb_exposureWaiters (on_chain f ks b) = rb_exposureWaiters b" "rb_waitKeepalive (on_chain f ks b) = rb_waitKeepalive b"
  unfolding on_chain_def by (induction ks arbitrary: b; simp)+

lemma on_account_get:
  "jm_get (rb_accounts (on_account f k b)) j = (if j = k then map_option f (jm_get (rb_accounts b) k) else jm_get (rb_accounts b) j)"
  by (simp add: on_account_def jm_get_set split: option.split)

lemma on_chain_get:
  "distinct ks \<Longrightarrow> jm_get (rb_accounts (on_chain f ks b)) j =
    (if j \<in> set ks then map_option f (jm_get (rb_accounts b) j) else jm_get (rb_accounts b) j)"
  unfolding on_chain_def by (induction ks arbitrary: b) (auto simp: on_account_get)

lemma shape_set:
  assumes "jm_get m k = Some a" "ac_parentScope a' = ac_parentScope a" "distinct (jm_keys m)"
  shows "map (\<lambda>(k, a). (k, ac_parentScope a)) (jm_set k a' m) = map (\<lambda>(k, a). (k, ac_parentScope a)) m"
  using assms by (induction m) (auto split: if_splits)

lemma on_account_shape:
  assumes "keeps_place f" "budget_wf b"
  shows "shape (on_account f k b) = shape b"
  using assms budget_wf_keys [OF assms(2)] shape_set [of "rb_accounts b" k _ "f _"]
  by (auto simp: on_account_def shape_def keeps_place_def jm_wf_def split: option.split)

lemma on_account_wf:
  assumes "keeps_place f" "budget_wf b"
  shows "budget_wf (on_account f k b)"
  using assms on_account_shape [OF assms]
  by (auto simp: budget_wf_def on_account_get keeps_place_def split: if_splits)

lemma on_chain_wf:
  assumes "keeps_place f"
  shows "budget_wf b \<Longrightarrow> budget_wf (on_chain f ks b)" "budget_wf b \<Longrightarrow> shape (on_chain f ks b) = shape b"
proof -
  have "budget_wf b \<Longrightarrow> budget_wf (on_chain f ks b) \<and> shape (on_chain f ks b) = shape b"
    unfolding on_chain_def
    by (induction ks arbitrary: b) (auto simp: on_account_wf [OF assms] on_account_shape [OF assms])
  then show "budget_wf b \<Longrightarrow> budget_wf (on_chain f ks b)" "budget_wf b \<Longrightarrow> shape (on_chain f ks b) = shape b" by blast+
qed

lemma keeps_place_simps [simp]:
  "keeps_place (commit_reserve r)" "keeps_place (debit_account u)" "keeps_place (put_synthesis x)"
  "keeps_place (put_convergence x)" "keeps_place (put_repair x)"
  "keeps_place (\<lambda>a. a\<lparr> ac_committedReserveUsd := g a \<rparr>)" "keeps_place (\<lambda>a. a\<lparr> ac_finalizeReserveUsd := g a \<rparr>)"
  "keeps_place (\<lambda>a. a\<lparr> ac_ceilingUsd := h a \<rparr>)"
  "keeps_place (\<lambda>a. put_synthesis (g a) a)" "keeps_place (\<lambda>a. put_convergence (g a) a)" "keeps_place (\<lambda>a. put_repair (g a) a)"
  by (simp_all add: keeps_place_def commit_reserve_def debit_account_def put_synthesis_def put_convergence_def put_repair_def Let_def)

text \<open>An account whose shape and names do not change keeps its chain.\<close>

definition reaches :: "run_budget \<Rightarrow> string \<Rightarrow> string \<Rightarrow> bool" where
  "reaches b scope k = (case chainOf b scope of Inr ks \<Rightarrow> k \<in> set ks | Inl _ \<Rightarrow> False)"

lemma same_shape_keys: "shape b' = shape b \<Longrightarrow> set (jm_keys (rb_accounts b')) = set (jm_keys (rb_accounts b))"
  by (metis shape_keys)

lemma same_shape_reaches:
  assumes "budget_wf b" "budget_wf b'" "shape b' = shape b"
  shows "reaches b' scope k = reaches b scope k"
  using chainOf_known [OF assms(1), of scope] chainOf_known [OF assms(2), of scope]
    chainOf_unknown [of scope b] chainOf_unknown [of scope b'] same_shape_keys [OF assms(3)] assms(3)
  by (cases "scope \<in> set (jm_keys (rb_accounts b))") (simp_all add: reaches_def)

lemma reaches_root: "budget_wf b \<Longrightarrow> scope \<in> set (jm_keys (rb_accounts b)) \<Longrightarrow> reaches b scope ROOT_ACCOUNT"
  using ancestors_root [of "shape b" scope] by (simp add: reaches_def chainOf_known budget_wf_def shape_keys)

lemma reaches_known: "budget_wf b \<Longrightarrow> reaches b scope k \<Longrightarrow> scope \<in> set (jm_keys (rb_accounts b)) \<and> k \<in> set (jm_keys (rb_accounts b))"
  using chainOf_unknown [of scope b] ancestors_subset [of "shape b" scope]
  by (cases "scope \<in> set (jm_keys (rb_accounts b))") (auto simp: reaches_def chainOf_known shape_keys)

section \<open>Money and the ledger\<close>

text \<open>What spending depends on: an account's spend and its kind.\<close>

definition money :: "account_state \<Rightarrow> rat \<times> account_kind option" where
  "money a = (ac_spentUsd a, ac_kind a)"

definition same_money :: "run_budget \<Rightarrow> run_budget \<Rightarrow> bool" where
  "same_money b b' \<longleftrightarrow> budget_wf b' \<and> shape b' = shape b \<and> rb_seededAccountSpend b' = rb_seededAccountSpend b
     \<and> (\<forall>k. map_option money (jm_get (rb_accounts b') k) = map_option money (jm_get (rb_accounts b) k))"

lemma same_money_refl: "budget_wf b \<Longrightarrow> same_money b b"
  by (simp add: same_money_def)

lemma same_money_trans: "same_money b c \<Longrightarrow> same_money c d \<Longrightarrow> same_money b d"
  by (simp add: same_money_def)

lemma same_money_wf: "same_money b c \<Longrightarrow> budget_wf c"
  by (simp add: same_money_def)

lemma same_money_accounts:
  "budget_wf b \<Longrightarrow> rb_accounts b' = rb_accounts b \<Longrightarrow> rb_seededAccountSpend b' = rb_seededAccountSpend b \<Longrightarrow> same_money b b'"
  by (simp add: same_money_def budget_wf_def shape_def)

definition keeps_money :: "(account_state \<Rightarrow> account_state) \<Rightarrow> bool" where
  "keeps_money f \<longleftrightarrow> keeps_place f \<and> (\<forall>a. money (f a) = money a)"

lemma on_account_money: "keeps_money f \<Longrightarrow> budget_wf b \<Longrightarrow> same_money b (on_account f k b)"
  by (auto simp: same_money_def keeps_money_def on_account_wf on_account_shape on_account_get option.map_comp comp_def)

lemma on_chain_money:
  assumes "keeps_money f"
  shows "budget_wf b \<Longrightarrow> same_money b (on_chain f ks b)"
  unfolding on_chain_def
proof (induction ks arbitrary: b)
  case (Cons k ks)
  have "same_money b (on_account f k b)" by (rule on_account_money [OF assms Cons.prems])
  then show ?case using Cons.IH [of "on_account f k b"] same_money_wf same_money_trans by fastforce
qed (simp add: same_money_refl)

lemma keeps_money_simps [simp]:
  "keeps_money (commit_reserve r)" "keeps_money (put_synthesis x)" "keeps_money (put_convergence x)" "keeps_money (put_repair x)"
  "keeps_money (\<lambda>a. a\<lparr> ac_committedReserveUsd := g a \<rparr>)" "keeps_money (\<lambda>a. a\<lparr> ac_finalizeReserveUsd := g a \<rparr>)"
  "keeps_money (\<lambda>a. a\<lparr> ac_ceilingUsd := h a \<rparr>)"
  "keeps_money (\<lambda>a. put_synthesis (g a) a)" "keeps_money (\<lambda>a. put_convergence (g a) a)" "keeps_money (\<lambda>a. put_repair (g a) a)"
  by (simp_all add: keeps_money_def money_def) (simp_all add: commit_reserve_def put_synthesis_def put_convergence_def put_repair_def)

text \<open>The calls that move no money.\<close>

lemma raiseChildAllowance_money: "budget_wf b \<Longrightarrow> same_money b (fst (raiseChildAllowance scope x b))"
  by (auto simp: raiseChildAllowance_def same_money_refl on_account_money split: option.split sum.split)

lemma admitRecovered_money: "budget_wf b \<Longrightarrow> same_money b (fst (admitRecovered r scope b))"
  by (auto simp: admitRecovered_def same_money_refl on_chain_money split: sum.split)

lemma refuse_money: "budget_wf b \<Longrightarrow> same_money b (fst (refuseSpawnIfInfeasible r scope b))"
  by (auto simp: refuseSpawnIfInfeasible_def same_money_refl intro: same_money_accounts split: sum.split option.split)

lemma admitSpawn_money:
  assumes "budget_wf b"
  shows "same_money b (fst (admitSpawn r scope b))"
proof -
  obtain b1 v where v: "refuseSpawnIfInfeasible r scope b = (b1, v)" by fastforce
  then have m1: "same_money b b1" using refuse_money [OF assms, of r scope] by simp
  let ?b2 = "b1\<lparr> rb_agentsSpawned := rb_agentsSpawned b1 + 1 \<rparr>"
  have m2: "same_money b1 ?b2" by (rule same_money_accounts [OF same_money_wf [OF m1]]) simp_all
  then have "same_money b (fst (admitRecovered x scope ?b2))" for x
    using admitRecovered_money [OF same_money_wf [OF m2]] m1 same_money_trans by blast
  then show ?thesis using m1 by (auto simp: admitSpawn_def v split: sum.split)
qed

lemma releaseReserve_money: "budget_wf b \<Longrightarrow> same_money b (fst (releaseReserve r scope b))"
  by (auto simp: releaseReserve_def same_money_refl on_chain_money split: sum.split)

lemma two_accounts_money:
  "keeps_money f \<Longrightarrow> keeps_money g \<Longrightarrow> budget_wf b \<Longrightarrow> same_money b (on_account g j (on_account f k b))"
  using on_account_money same_money_trans same_money_wf by meson

lemma finalize_money:
  "budget_wf b \<Longrightarrow> same_money b (fst (commitFinalizeReserve scope r b))" "budget_wf b \<Longrightarrow> same_money b (releaseFinalizeReserve scope b)"
  by (simp_all add: commitFinalizeReserve_def releaseFinalizeReserve_def same_money_refl two_accounts_money)

lemma commit_held_money:
  assumes "budget_wf b" "\<And>x. keeps_money (put x)" "\<And>h. keeps_money (\<lambda>a. put (h a) a)"
  shows "same_money b (fst (commit_held get put scope r b))" "same_money b (release_held get put scope b)"
  using assms by (auto simp: commit_held_def release_held_def Let_def same_money_refl on_account_money two_accounts_money split: option.split)

lemma held_reserves_money:
  assumes "budget_wf b"
  shows "same_money b (fst (commitSynthesisReserve scope r b))" "same_money b (releaseSynthesisReserve scope b)"
    "same_money b (fst (commitConvergenceReserve scope r b))" "same_money b (releaseConvergenceReserve scope b)"
    "same_money b (fst (commitRepairReserve scope r b))" "same_money b (releaseRepairReserve scope b)"
  unfolding commitSynthesisReserve_def releaseSynthesisReserve_def commitConvergenceReserve_def releaseConvergenceReserve_def
    commitRepairReserve_def releaseRepairReserve_def
  by (rule commit_held_money [OF assms]; simp)+

lemma gate_money: "budget_wf b \<Longrightarrow> same_money b (fst (assertPricedDispatch env m b))"
  by (auto simp: assertPricedDispatch_def Let_def same_money_refl intro: same_money_accounts split: option.split)

lemma beforeTurn_money: "budget_wf b \<Longrightarrow> same_money b (fst (beforeTurn scope b))"
  by (auto simp: beforeTurn_def same_money_refl intro: same_money_accounts split: option.split sum.split)

subsection \<open>Exposure calls touch no account\<close>

lemma wake_fold:
  "foldl (\<lambda>b w. wake_one w b) b ws = (if ws = [] then b
     else b\<lparr> rb_exposureWaiters := filter (\<lambda>x. x \<notin> set ws) (rb_exposureWaiters b),
             rb_waitKeepalive := (filter (\<lambda>x. x \<notin> set ws) (rb_exposureWaiters b) \<noteq> []) \<rparr>)"
proof (induction ws arbitrary: b)
  case (Cons w ws)
  have "filter (\<lambda>x. x \<notin> set ws) (filter (\<lambda>x. x \<noteq> w) xs) = filter (\<lambda>x. x \<notin> set (w # ws)) xs" for xs :: "nat list"
    by (induction xs) auto
  then show ?case
    by (simp only: foldl_Cons Cons.IH) (simp add: wake_one_def syncExposureKeepalive_def)
qed simp

lemma wake_all_fst: "fst (wake_all fl b) = (if rb_exposureWaiters b = [] then b else b\<lparr> rb_exposureWaiters := [], rb_waitKeepalive := False \<rparr>)"
  by (simp add: wake_all_def wake_fold)

lemma settle_fst:
  "fst (settleExposureRelease x b) =
    (let b1 = b\<lparr> rb_inFlightExposureUsd := (if no_holders b then 0 else max 0 (rb_inFlightExposureUsd b - x)) \<rparr>
     in if rb_exposureWaiters b = [] then b1 else b1\<lparr> rb_exposureWaiters := [], rb_waitKeepalive := False \<rparr>)"
  by (simp add: settleExposureRelease_def wake_all_fst Let_def)

lemma settle_accounts [simp]:
  "rb_accounts (fst (settleExposureRelease x b)) = rb_accounts b"
  "rb_seededAccountSpend (fst (settleExposureRelease x b)) = rb_seededAccountSpend b"
  by (simp_all add: settle_fst Let_def)

lemma release_accounts [simp]:
  "rb_accounts (fst (release_hold h b)) = rb_accounts b"
  "rb_seededAccountSpend (fst (release_hold h b)) = rb_seededAccountSpend b"
  "rb_accounts (fst (releaseExposureHolder scope b)) = rb_accounts b"
  "rb_seededAccountSpend (fst (releaseExposureHolder scope b)) = rb_seededAccountSpend b"
  by (simp_all add: release_hold_def releaseExposureHolder_def Let_def case_prod_unfold split: option.split)

lemma wait_accounts [simp]:
  "rb_accounts (fst (sweep b)) = rb_accounts b" "rb_seededAccountSpend (fst (sweep b)) = rb_seededAccountSpend b"
  "rb_accounts (fst (awaitExposureRelease ab w b)) = rb_accounts b"
  "rb_seededAccountSpend (fst (awaitExposureRelease ab w b)) = rb_seededAccountSpend b"
  "rb_accounts (abort_wait w b) = rb_accounts b" "rb_seededAccountSpend (abort_wait w b) = rb_seededAccountSpend b"
  by (simp_all add: sweep_def wake_all_fst awaitExposureRelease_def abort_wait_def wake_one_def syncExposureKeepalive_def)

lemma reserve_accounts [simp]:
  "rb_accounts (fst (reserveTurnExposure env m i n h b)) = rb_accounts b"
  "rb_seededAccountSpend (fst (reserveTurnExposure env m i n h b)) = rb_seededAccountSpend b"
  by (simp_all add: reserveTurnExposure_def Let_def split: option.split)

section \<open>Debits\<close>

text \<open>What a usage is charged: its price when that is a finite nonnegative number.\<close>

definition charge :: "budget_env \<Rightarrow> string \<Rightarrow> usage \<Rightarrow> rat" where
  "charge env servedBy u =
     (case requireValidCeiling (case be_priceUsd env servedBy u of Some v \<Rightarrow> v | None \<Rightarrow> 0) of Inl _ \<Rightarrow> 0 | Inr x \<Rightarrow> x)"

lemma charge_nonneg: "0 \<le> charge env m u"
  by (auto simp: charge_def requireValidCeiling_def split: sum.splits js_number.splits if_splits)

lemma debitableUsd_charge: "snd (debitableUsd env m u b) = charge env m u"
  by (simp add: debitableUsd_def charge_def Let_def split: sum.split)

lemma debitable_frame [simp]:
  "rb_accounts (fst (debitableUsd env m u b)) = rb_accounts b"
  "rb_seededAccountSpend (fst (debitableUsd env m u b)) = rb_seededAccountSpend b"
  by (simp_all add: debitableUsd_def Let_def split: sum.split)

lemma shape_cong: "rb_accounts b' = rb_accounts b \<Longrightarrow> shape b' = shape b" "rb_accounts b' = rb_accounts b \<Longrightarrow> budget_wf b' = budget_wf b"
  "rb_accounts b' = rb_accounts b \<Longrightarrow> chainOf b' = chainOf b"
  by (simp_all add: shape_def budget_wf_def chainOf_def fun_eq_iff)

text \<open>A debit adds to exactly the accounts its scope reaches.\<close>

lemma debitAccounts_effect:
  assumes "budget_wf b"
  shows "budget_wf (fst (debitAccounts usd scope b))" "shape (fst (debitAccounts usd scope b)) = shape b"
    "rb_seededAccountSpend (fst (debitAccounts usd scope b)) = rb_seededAccountSpend b"
    "jm_get (rb_accounts (fst (debitAccounts usd scope b))) k =
      (if reaches b scope k then map_option (debit_account usd) (jm_get (rb_accounts b) k) else jm_get (rb_accounts b) k)"
    "snd (debitAccounts usd scope b) = (if scope \<in> set (jm_keys (rb_accounts b)) then Inr () else Inl ConfigError)"
proof -
  let ?r = "debitAccounts usd scope b"
  have "budget_wf (fst ?r) \<and> shape (fst ?r) = shape b \<and> rb_seededAccountSpend (fst ?r) = rb_seededAccountSpend b
    \<and> jm_get (rb_accounts (fst ?r)) k = (if reaches b scope k then map_option (debit_account usd) (jm_get (rb_accounts b) k) else jm_get (rb_accounts b) k)
    \<and> snd ?r = (if scope \<in> set (jm_keys (rb_accounts b)) then Inr () else Inl ConfigError)"
  proof (cases "scope \<in> set (jm_keys (rb_accounts b))")
    case True
    let ?b = "b\<lparr> rb_exhausted := rb_exhausted b \<or> (ROOT_ACCOUNT \<in> set (ancestors (shape b) scope) \<and> crosses_root usd b) \<rparr>"
    have e: "?r = (on_chain (debit_account usd) (ancestors (shape b) scope) ?b, Inr ())"
      by (simp add: debitAccounts_def chainOf_known [OF assms True])
    have wf: "budget_wf ?b" "shape ?b = shape b" using assms shape_cong [of ?b b] by simp_all
    have d: "distinct (ancestors (shape b) scope)" using assms by (simp add: budget_wf_def ancestors_distinct)
    show ?thesis
      unfolding e fst_conv snd_conv reaches_def chainOf_known [OF assms True]
      using on_chain_wf [OF keeps_place_simps(2) wf(1)] wf(2) on_chain_get [OF d, of "debit_account usd" ?b k] True by simp
  next
    case False
    then show ?thesis using assms chainOf_unknown [OF False] by (simp add: debitAccounts_def reaches_def)
  qed
  then show "budget_wf (fst ?r)" "shape (fst ?r) = shape b" "rb_seededAccountSpend (fst ?r) = rb_seededAccountSpend b"
    "jm_get (rb_accounts (fst ?r)) k = (if reaches b scope k then map_option (debit_account usd) (jm_get (rb_accounts b) k) else jm_get (rb_accounts b) k)"
    "snd ?r = (if scope \<in> set (jm_keys (rb_accounts b)) then Inr () else Inl ConfigError)"
    by blast+
qed

lemma debit_account_money [simp]: "ac_spentUsd (debit_account u a) = ac_spentUsd a + u" "ac_kind (debit_account u a) = ac_kind a"
  by (simp_all add: debit_account_def Let_def)

section \<open>Runs of a budget\<close>

text \<open>
  Every call of the budget, with the holds that are still out and the debits it makes. A hold is
  released at most once; a meter is whatever its earlier feeds made of it; a debit of an account
  nobody opened is refused.
\<close>

definition charged :: "run_budget \<Rightarrow> string \<Rightarrow> rat \<Rightarrow> (string \<times> rat) list" where
  "charged b scope usd = (if jm_has (rb_accounts b) scope then [(scope, usd)] else [])"

inductive budget_step ::
  "budget_env \<Rightarrow> run_budget \<times> exposure_hold list \<Rightarrow> (string \<times> rat) list \<Rightarrow> run_budget \<times> exposure_hold list \<Rightarrow> bool" for env where
  bs_open: "budget_step env (b, H) [] (fst (openAccount scope opts b), H)"
| bs_raise: "budget_step env (b, H) [] (fst (raiseChildAllowance scope x b), H)"
| bs_gate: "budget_step env (b, H) [] (fst (assertPricedDispatch env m b), H)"
| bs_refuse: "budget_step env (b, H) [] (fst (refuseSpawnIfInfeasible r scope b), H)"
| bs_admit: "budget_step env (b, H) [] (fst (admitSpawn r scope b), H)"
| bs_recover: "budget_step env (b, H) [] (fst (admitRecovered q scope b), H)"
| bs_release: "budget_step env (b, H) [] (fst (releaseReserve q scope b), H)"
| bs_finalize: "budget_step env (b, H) [] (fst (commitFinalizeReserve scope q b), H)"
| bs_unfinalize: "budget_step env (b, H) [] (releaseFinalizeReserve scope b, H)"
| bs_synthesis: "budget_step env (b, H) [] (fst (commitSynthesisReserve scope q b), H)"
| bs_unsynthesis: "budget_step env (b, H) [] (releaseSynthesisReserve scope b, H)"
| bs_convergence: "budget_step env (b, H) [] (fst (commitConvergenceReserve scope q b), H)"
| bs_unconvergence: "budget_step env (b, H) [] (releaseConvergenceReserve scope b, H)"
| bs_repair: "budget_step env (b, H) [] (fst (commitRepairReserve scope q b), H)"
| bs_unrepair: "budget_step env (b, H) [] (releaseRepairReserve scope b, H)"
| bs_mark: "budget_step env (b, H) [] (markExhausted b, H)"
| bs_turn: "budget_step env (b, H) [] (fst (beforeTurn scope b), H)"
| bs_reserved: "reserveTurnExposure env m i n holder b = (b', Inr (Some h)) \<Longrightarrow> budget_step env (b, H) [] (b', h # H)"
| bs_unreserved: "reserveTurnExposure env m i n holder b = (b', Inr None) \<or> reserveTurnExposure env m i n holder b = (b', Inl e) \<Longrightarrow>
    budget_step env (b, H) [] (b', H)"
| bs_hold: "h \<in> set H \<Longrightarrow> budget_step env (b, H) [] (fst (release_hold h b), remove1 h H)"
| bs_holder: "budget_step env (b, H) [] (fst (releaseExposureHolder scope b), H)"
| bs_await: "budget_step env (b, H) [] (fst (awaitExposureRelease aborted w b), H)"
| bs_abort: "budget_step env (b, H) [] (abort_wait w b, H)"
| bs_sweep: "budget_step env (b, H) [] (fst (sweep b), H)"
| bs_usage: "budget_step env (b, H) (charged b scope (charge env m (sanitizeUsageDelta u))) (fst (onUsage env u m scope b), H)"
| bs_feed: "budget_step env (b, H)
    (charged b (cm_accountScope mt)
      (max 0 (charge env (cm_servedBy mt) (sumUsage (cm_accumulated mt) (sanitizeUsageDelta u)) - cm_pricedUsd mt)))
    (fst (snd (feed_meter env u mt b)), H)"

inductive budget_run :: "budget_env \<Rightarrow> run_budget \<Rightarrow> run_budget \<times> exposure_hold list \<Rightarrow> (string \<times> rat) list \<Rightarrow> bool" for env b0 where
  run_start: "budget_run env b0 (b0, []) []"
| run_step: "budget_run env b0 s debits \<Longrightarrow> budget_step env s ds s' \<Longrightarrow> budget_run env b0 s' (debits @ ds)"

section \<open>Spend reaches the chain\<close>

definition debits_to :: "run_budget \<Rightarrow> (string \<times> rat) list \<Rightarrow> string \<Rightarrow> rat" where
  "debits_to b debits k = sum_list (map snd (filter (\<lambda>(scope, usd). reaches b scope k) debits))"

text \<open>
  What an account starts from: the root from the settled spend of the resumed journal, a reopened
  account from its row of the same fold, the orchestrator cap from nothing.
\<close>

definition starting :: "run_budget \<Rightarrow> string \<Rightarrow> account_state \<Rightarrow> rat" where
  "starting b0 k a =
     (if k = ROOT_ACCOUNT then ac_spentUsd (the_account b0 ROOT_ACCOUNT)
      else if ac_kind a = Some Orchestrator_cap then 0
      else (case jm_get (rb_seededAccountSpend b0) k of Some x \<Rightarrow> x | None \<Rightarrow> 0))"

definition ledger_inv :: "run_budget \<Rightarrow> run_budget \<Rightarrow> (string \<times> rat) list \<Rightarrow> bool" where
  "ledger_inv b0 b debits \<longleftrightarrow> budget_wf b \<and> rb_seededAccountSpend b = rb_seededAccountSpend b0
     \<and> (\<forall>d\<in>set debits. fst d \<in> set (jm_keys (rb_accounts b)))
     \<and> (\<forall>k a. jm_get (rb_accounts b) k = Some a \<longrightarrow> ac_spentUsd a = starting b0 k a + debits_to b debits k)"

lemma debits_to_cong: "(\<And>scope. reaches b' scope k = reaches b scope k) \<Longrightarrow> debits_to b' debits k = debits_to b debits k"
  by (simp add: debits_to_def)

lemma ledger_quiet:
  assumes "ledger_inv b0 b debits" "same_money b b'"
  shows "ledger_inv b0 b' debits"
proof -
  have wf: "budget_wf b" "budget_wf b'" and sh: "shape b' = shape b" using assms by (auto simp: ledger_inv_def same_money_def)
  have "ac_spentUsd a' = starting b0 k a' + debits_to b' debits k" if got: "jm_get (rb_accounts b') k = Some a'" for k a'
  proof -
    have "map_option money (jm_get (rb_accounts b') k) = map_option money (jm_get (rb_accounts b) k)"
      using assms(2) by (simp add: same_money_def)
    then obtain a where a: "jm_get (rb_accounts b) k = Some a" "ac_spentUsd a' = ac_spentUsd a" "ac_kind a' = ac_kind a"
      using got by (cases "jm_get (rb_accounts b) k") (auto simp: money_def)
    then show ?thesis
      using assms(1) debits_to_cong [of b' k b debits] same_shape_reaches [OF wf sh] by (simp add: ledger_inv_def starting_def)
  qed
  then show ?thesis
    using assms same_shape_keys [OF sh] wf by (simp add: ledger_inv_def same_money_def)
qed

lemma jm_get_snoc: "k \<notin> set (jm_keys m) \<Longrightarrow> jm_get (m @ [(k, a)]) j = (if j = k then Some a else jm_get m j)"
  using jm_get_None_keys [of m k] by (simp add: jm_get_def map_add_def split: option.split)

lemma openAccount_cases:
  obtains "fst (openAccount scope opts b) = b"
  | a where "fst (openAccount scope opts b) = b\<lparr> rb_accounts := rb_accounts b @ [(scope, a)] \<rparr>"
    "scope \<noteq> ROOT_ACCOUNT" "scope \<notin> set (jm_keys (rb_accounts b))" "ac_scope a = scope"
    "\<exists>p. ac_parentScope a = Some p \<and> p \<in> set (jm_keys (rb_accounts b))"
    "ac_spentUsd a = (if ac_kind a = Some Orchestrator_cap then 0
       else (case jm_get (rb_seededAccountSpend b) scope of Some x \<Rightarrow> x | None \<Rightarrow> 0))"
proof (cases "fst (openAccount scope opts b) = b")
  case False
  then have new: "scope \<noteq> ROOT_ACCOUNT" "\<not> jm_has (rb_accounts b) scope"
    by (auto simp: openAccount_def split: if_splits)
  let ?p = "case ap_parentScope opts of Some p \<Rightarrow> p | None \<Rightarrow> ROOT_ACCOUNT"
  from False new obtain l where l: "optional_ceiling (ap_ceilingUsd opts) = Inr l" "jm_has (rb_accounts b) ?p"
    by (cases "optional_ceiling (ap_ceilingUsd opts)") (auto simp: openAccount_def Let_def split: if_splits)
  show ?thesis
    by (rule that(2)) (use new l in \<open>force simp: openAccount_def Let_def jm_has_keys jm_set_append_new new_account_state_def\<close>)+
qed (rule that(1))

lemma open_wf:
  assumes "budget_wf b" "b' = b\<lparr> rb_accounts := rb_accounts b @ [(scope, a)] \<rparr>" "scope \<notin> set (jm_keys (rb_accounts b))"
    "ac_scope a = scope" "\<exists>p. ac_parentScope a = Some p \<and> p \<in> set (jm_keys (rb_accounts b))"
  shows "budget_wf b'" "\<And>sc k. sc \<noteq> scope \<Longrightarrow> reaches b' sc k = reaches b sc k"
proof -
  have sh: "shape b' = (scope, ac_parentScope a) # shape b" by (simp add: assms(2) shape_def)
  have ne: "shape b \<noteq> []" using assms(1) by (auto simp: budget_wf_def)
  have "tree (shape b')"
    unfolding sh tree_Cons [OF ne] shape_keys using assms(1,3,5) by (simp add: budget_wf_def)
  moreover have "jm_get (rb_accounts b') k = (if k = scope then Some a else jm_get (rb_accounts b) k)" for k
    using jm_get_snoc [OF assms(3)] by (simp add: assms(2))
  ultimately show wf': "budget_wf b'" using assms(1,4) by (auto simp: budget_wf_def split: if_splits)
  show "reaches b' sc k = reaches b sc k" if "sc \<noteq> scope" for sc k
  proof (cases "sc \<in> set (jm_keys (rb_accounts b))")
    case True
    have keys': "sc \<in> set (jm_keys (rb_accounts b'))" using True assms(2) by simp
    show ?thesis
      unfolding reaches_def chainOf_known [OF assms(1) True] chainOf_known [OF wf' keys'] sh using that by simp
  next
    case False
    then show ?thesis
      using chainOf_unknown [OF False] chainOf_unknown [of sc b'] that by (simp add: reaches_def assms(2))
  qed
qed

lemma ledger_open:
  assumes "ledger_inv b0 b debits"
  shows "ledger_inv b0 (fst (openAccount scope opts b)) debits"
proof (cases rule: openAccount_cases [of scope opts b])
  case 1
  then show ?thesis using assms by simp
next
  case (2 a)
  let ?b' = "fst (openAccount scope opts b)"
  have wf: "budget_wf b" using assms by (simp add: ledger_inv_def)
  note open' = open_wf [OF wf 2(1,3,4,5)]
  have old: "debits_to ?b' debits k = debits_to b debits k" for k
  proof -
    have "filter (\<lambda>(sc, usd). reaches ?b' sc k) debits = filter (\<lambda>(sc, usd). reaches b sc k) debits"
    proof (rule filter_cong [OF refl])
      fix d
      assume "d \<in> set debits"
      then have "fst d \<noteq> scope" using assms 2(3) unfolding ledger_inv_def by metis
      then show "(case d of (sc, usd) \<Rightarrow> reaches ?b' sc k) = (case d of (sc, usd) \<Rightarrow> reaches b sc k)"
        using open'(2) [of "fst d" k] by (simp add: case_prod_unfold)
    qed
    then show ?thesis by (simp add: debits_to_def)
  qed
  have "\<not> reaches b sc scope" for sc using reaches_known [OF wf, of sc scope] 2(3) by blast
  then have zero: "debits_to b debits scope = 0" by (simp add: debits_to_def case_prod_unfold)
  have get: "jm_get (rb_accounts ?b') k = (if k = scope then Some a else jm_get (rb_accounts b) k)" for k
    using jm_get_snoc [OF 2(3)] by (simp add: 2(1))
  have "ac_spentUsd a' = starting b0 k a' + debits_to ?b' debits k" if "jm_get (rb_accounts ?b') k = Some a'" for k a'
    using that assms 2(2,6) zero unfolding old get by (auto simp: ledger_inv_def starting_def split: if_splits)
  moreover have "fst d \<in> set (jm_keys (rb_accounts ?b'))" if "d \<in> set debits" for d
    using that assms by (auto simp: ledger_inv_def 2(1))
  ultimately show ?thesis using assms open'(1) by (simp add: ledger_inv_def 2(1))
qed

lemma starting_debit [simp]: "starting b0 k (debit_account u a) = starting b0 k a"
  by (simp add: starting_def)

lemma ledger_debit:
  assumes "ledger_inv b0 b debits"
  shows "ledger_inv b0 (fst (debitAccounts usd scope b)) (debits @ charged b scope usd)"
proof -
  let ?b' = "fst (debitAccounts usd scope b)"
  have wf: "budget_wf b" using assms by (simp add: ledger_inv_def)
  note eff = debitAccounts_effect [OF wf, of usd scope]
  note same = same_shape_reaches [OF wf eff(1,2)]
  have sum: "debits_to ?b' (debits @ charged b scope usd) k = debits_to b debits k + (if reaches b scope k then usd else 0)" for k
    using reaches_known [OF wf, of scope k] by (auto simp: debits_to_def same charged_def jm_has_keys)
  have "ac_spentUsd a' = starting b0 k a' + debits_to ?b' (debits @ charged b scope usd) k" if "jm_get (rb_accounts ?b') k = Some a'" for k a'
    using that assms unfolding sum eff(4) by (auto simp: ledger_inv_def split: if_splits)
  moreover have "fst d \<in> set (jm_keys (rb_accounts ?b'))" if "d \<in> set (debits @ charged b scope usd)" for d
    unfolding same_shape_keys [OF eff(2)]
    using that assms jm_has_keys [of "rb_accounts b" scope] by (auto simp: ledger_inv_def charged_def split: if_splits simp del: set_map)
  ultimately show ?thesis using assms eff(1,3) by (simp add: ledger_inv_def)
qed

lemma ledger_same:
  assumes "ledger_inv b0 b debits" "rb_accounts b' = rb_accounts b" "rb_seededAccountSpend b' = rb_seededAccountSpend b"
  shows "ledger_inv b0 b' debits"
  by (rule ledger_quiet [OF assms(1) same_money_accounts [OF _ assms(2,3)]]) (use assms(1) in \<open>simp add: ledger_inv_def\<close>)

lemma onUsage_ledger:
  assumes "ledger_inv b0 b debits"
  shows "ledger_inv b0 (fst (onUsage env u m scope b)) (debits @ charged b scope (charge env m (sanitizeUsageDelta u)))"
proof -
  let ?b1 = "b\<lparr> rb_usage := sumUsage (rb_usage b) (sanitizeUsageDelta u) \<rparr>"
  obtain b2 usd where d: "debitableUsd env m (sanitizeUsageDelta u) ?b1 = (b2, usd)" by fastforce
  then have usd: "usd = charge env m (sanitizeUsageDelta u)" using debitableUsd_charge by (metis snd_conv)
  have acc: "rb_accounts b2 = rb_accounts b" "rb_seededAccountSpend b2 = rb_seededAccountSpend b"
    using debitable_frame [of env m "sanitizeUsageDelta u" ?b1] d by simp_all
  have "ledger_inv b0 b2 debits" by (rule ledger_same [OF assms acc])
  from ledger_debit [OF this, of usd scope] show ?thesis using usd acc by (simp add: onUsage_def Let_def d charged_def)
qed

lemma feed_ledger:
  assumes "ledger_inv b0 b debits"
  shows "ledger_inv b0 (fst (snd (feed_meter env u mt b))) (debits @ charged b (cm_accountScope mt)
    (max 0 (charge env (cm_servedBy mt) (sumUsage (cm_accumulated mt) (sanitizeUsageDelta u)) - cm_pricedUsd mt)))"
proof -
  let ?b1 = "b\<lparr> rb_usage := sumUsage (rb_usage b) (sanitizeUsageDelta u) \<rparr>" and ?acc = "sumUsage (cm_accumulated mt) (sanitizeUsageDelta u)"
  obtain b2 tot where d: "debitableUsd env (cm_servedBy mt) ?acc ?b1 = (b2, tot)" by fastforce
  then have tot: "tot = charge env (cm_servedBy mt) ?acc" using debitableUsd_charge by (metis snd_conv)
  have acc: "rb_accounts b2 = rb_accounts b" "rb_seededAccountSpend b2 = rb_seededAccountSpend b"
    using debitable_frame [of env "cm_servedBy mt" ?acc ?b1] d by simp_all
  have "ledger_inv b0 b2 debits" by (rule ledger_same [OF assms acc])
  from ledger_debit [OF this, of "max 0 (tot - cm_pricedUsd mt)" "cm_accountScope mt"] show ?thesis
    using tot acc by (simp add: feed_meter_def Let_def d charged_def)
qed

lemma ledger_step:
  assumes "budget_step env s ds s'" "ledger_inv b0 (fst s) debits"
  shows "ledger_inv b0 (fst s') (debits @ ds)"
proof -
  have wf: "budget_wf (fst s)" using assms(2) by (simp add: ledger_inv_def)
  have quiet: "ledger_inv b0 b' debits" if "same_money (fst s) b'" for b' by (rule ledger_quiet [OF assms(2) that])
  have same: "ledger_inv b0 b' debits"
    if "rb_accounts b' = rb_accounts (fst s)" "rb_seededAccountSpend b' = rb_seededAccountSpend (fst s)" for b'
    by (rule quiet [OF same_money_accounts [OF wf that]])
  from assms(1) show ?thesis
  proof cases
    case (bs_open b H scope opts)
    then show ?thesis using ledger_open assms(2) by simp
  next
    case (bs_reserved m i n holder b b' h H)
    then show ?thesis using same [of b'] reserve_accounts [of env m i n holder b] by simp
  next
    case (bs_unreserved m i n holder b b' e H)
    then have "b' = fst (reserveTurnExposure env m i n holder b)" by auto
    then show ?thesis using bs_unreserved same [of b'] reserve_accounts [of env m i n holder b] by simp
  next
    case (bs_usage b H scope m u)
    then show ?thesis using onUsage_ledger assms(2) by simp
  next
    case (bs_feed b H mt u)
    then show ?thesis using feed_ledger assms(2) by simp
  qed (use wf quiet same in \<open>simp_all add: raiseChildAllowance_money gate_money refuse_money admitSpawn_money admitRecovered_money
      releaseReserve_money finalize_money held_reserves_money beforeTurn_money markExhausted_def\<close>)
qed

lemma new_budget_wf:
  assumes "new_budget opts = Inr b0"
  shows "budget_wf b0" "jm_keys (rb_accounts b0) = [ROOT_ACCOUNT]"
  using assms
  by (auto simp: new_budget_def bindR_eq_Inr Let_def budget_wf_def shape_def new_account_state_def split: if_splits option.splits)

lemma ledger_start:
  assumes "new_budget opts = Inr b0"
  shows "ledger_inv b0 b0 []"
proof -
  have "k = ROOT_ACCOUNT \<and> the_account b0 ROOT_ACCOUNT = a" if "jm_get (rb_accounts b0) k = Some a" for k a
    using that jm_get_None_keys [of "rb_accounts b0" k] new_budget_wf(2) [OF assms] by (auto simp: the_account_def)
  then show ?thesis
    using new_budget_wf(1) [OF assms] by (auto simp: ledger_inv_def debits_to_def starting_def)
qed

lemma ledger_run: "budget_run env b0 s debits \<Longrightarrow> new_budget opts = Inr b0 \<Longrightarrow> ledger_inv b0 (fst s) debits"
proof (induction rule: budget_run.induct)
  case run_start
  then show ?case using ledger_start by simp
next
  case (run_step s debits ds s')
  then show ?case using ledger_step by blast
qed

end
