(* ===== verification/BudgetClaims.thy ===== *)
theory BudgetClaims
  imports BudgetSafety
begin

text \<open>
  The contract of the run budget: the ledger of spend, exact projected admission, the telescoping
  call meter, and the accounting of in-flight exposure with its waiters.
\<close>

section \<open>Exposure\<close>

lemma sum_jm_set:
  "sum_list (map snd (jm_set k v m)) = sum_list (map snd m) - (case jm_get m k of Some x \<Rightarrow> x | None \<Rightarrow> 0) + (v :: rat)"
  by (induction m) auto

lemma sum_jm_delete:
  "jm_wf m \<Longrightarrow> sum_list (map snd (jm_delete k m)) = sum_list (map snd m) - (case jm_get m k of Some x \<Rightarrow> x | None \<Rightarrow> (0 :: rat))"
proof (induction m)
  case (Cons p m)
  have rest: "jm_wf m" using Cons.prems by (simp add: jm_wf_def)
  show ?case
  proof (cases "fst p = k")
    case True
    then have "jm_delete k m = m" "jm_get m k = None"
      using Cons.prems by (auto simp: jm_wf_def jm_delete_def jm_get_None_keys image_iff intro!: filter_True)
    then show ?thesis using True by (cases p) (auto simp: jm_delete_def)
  next
    case False
    then show ?thesis using Cons rest by (cases p) (auto simp: jm_delete_def)
  qed
qed (simp add: jm_delete_def)

definition unattributed :: "exposure_hold list \<Rightarrow> exposure_hold list" where
  "unattributed H = filter (\<lambda>h. xh_holderScope h = None \<and> 0 < xh_estimateUsd h) H"

definition exposure_inv :: "run_budget \<Rightarrow> exposure_hold list \<Rightarrow> bool" where
  "exposure_inv b H \<longleftrightarrow> jm_wf (rb_exposureHolds b) \<and> (\<forall>k v. jm_get (rb_exposureHolds b) k = Some v \<longrightarrow> 0 < v)
     \<and> rb_unattributedHoldCount b = length (unattributed H)
     \<and> rb_inFlightExposureUsd b = sum_list (map snd (rb_exposureHolds b)) + sum_list (map xh_estimateUsd (unattributed H))
     \<and> (rb_exposureWaiters b \<noteq> [] \<longrightarrow> 0 < rb_inFlightExposureUsd b) \<and> rb_waitKeepalive b = (rb_exposureWaiters b \<noteq> [])"

text \<open>The members of the budget the exposure surface owns.\<close>

definition surface :: "run_budget \<Rightarrow> (string, rat) jsmap \<times> nat \<times> rat \<times> nat list \<times> bool" where
  "surface b = (rb_exposureHolds b, rb_unattributedHoldCount b, rb_inFlightExposureUsd b, rb_exposureWaiters b, rb_waitKeepalive b)"

lemma exposure_inv_cong: "surface b' = surface b \<Longrightarrow> exposure_inv b' H = exposure_inv b H"
  by (simp add: exposure_inv_def surface_def)

lemma on_surface [simp]: "surface (on_account f k b) = surface b" "surface (on_chain f ks b) = surface b"
  by (simp_all add: surface_def)

lemma account_calls_surface:
  "surface (fst (openAccount scope opts b)) = surface b" "surface (fst (raiseChildAllowance scope x b)) = surface b"
  "surface (fst (assertPricedDispatch env m b)) = surface b" "surface (fst (refuseSpawnIfInfeasible r scope b)) = surface b"
  "surface (fst (admitRecovered q scope b)) = surface b" "surface (fst (releaseReserve q scope b)) = surface b"
  "surface (fst (commitFinalizeReserve scope q b)) = surface b" "surface (releaseFinalizeReserve scope b) = surface b"
  "surface (fst (commit_held get put scope q b)) = surface b" "surface (release_held get put scope b) = surface b"
  "surface (markExhausted b) = surface b" "surface (fst (beforeTurn scope b)) = surface b"
  by (simp_all add: openAccount_def raiseChildAllowance_def admitRecovered_def releaseReserve_def
      commitFinalizeReserve_def releaseFinalizeReserve_def commit_held_def release_held_def Let_def split: option.split sum.split)
    (simp_all add: assertPricedDispatch_def refuseSpawnIfInfeasible_def markExhausted_def beforeTurn_def surface_def Let_def
      split: option.split sum.split)

lemma admitSpawn_surface: "surface (fst (admitSpawn r scope b)) = surface b"
proof -
  obtain b1 v where v: "refuseSpawnIfInfeasible r scope b = (b1, v)" by fastforce
  then have "surface b1 = surface b" using account_calls_surface(4) [of r scope b] by simp
  moreover then have "surface (b1\<lparr> rb_agentsSpawned := n \<rparr>) = surface b" for n by (simp add: surface_def)
  ultimately show ?thesis by (auto simp: admitSpawn_def v account_calls_surface(5) split: sum.split)
qed

lemma debit_surface: "surface (fst (debitAccounts usd scope b)) = surface b"
  by (auto simp: debitAccounts_def split: sum.split) (simp_all add: surface_def)

lemma usage_surface: "surface (fst (onUsage env u m scope b)) = surface b" "surface (fst (snd (feed_meter env u mt b))) = surface b"
proof -
  have d: "surface (fst (debitableUsd env m' u' b')) = surface b'" for m' u' b'
    by (simp add: debitableUsd_def surface_def Let_def split: sum.split)
  have r: "surface (b\<lparr> rb_usage := x \<rparr>) = surface b" for x by (simp add: surface_def)
  show "surface (fst (onUsage env u m scope b)) = surface b" "surface (fst (snd (feed_meter env u mt b))) = surface b"
    by (simp_all add: onUsage_def feed_meter_def Let_def case_prod_unfold debit_surface d r)
qed

lemma holds_sum_nonneg:
  assumes "jm_wf m" "\<forall>k v. jm_get m k = Some v \<longrightarrow> 0 < (v :: rat)"
  shows "0 \<le> sum_list (map snd m)"
proof (rule sum_list_nonneg)
  fix v
  assume "v \<in> set (map snd m)"
  then obtain k where "(k, v) \<in> set m" by auto
  then show "0 \<le> v" using jm_in_get [OF assms(1)] assms(2) by (blast intro: less_imp_le)
qed

lemma unattributed_sum_nonneg: "0 \<le> sum_list (map xh_estimateUsd (unattributed H))"
  by (intro sum_list_nonneg) (auto simp: unattributed_def)

lemma settle_exposure:
  assumes "jm_wf (rb_exposureHolds b)" "\<forall>k v. jm_get (rb_exposureHolds b) k = Some v \<longrightarrow> 0 < v"
    and "rb_unattributedHoldCount b = length (unattributed H)" "rb_waitKeepalive b = (rb_exposureWaiters b \<noteq> [])"
    and "rb_inFlightExposureUsd b = sum_list (map snd (rb_exposureHolds b)) + sum_list (map xh_estimateUsd (unattributed H)) + x"
  shows "exposure_inv (fst (settleExposureRelease x b)) H"
proof -
  have "no_holders b \<Longrightarrow> sum_list (map snd (rb_exposureHolds b)) + sum_list (map xh_estimateUsd (unattributed H)) = 0"
    using assms(3) by (simp add: no_holders_def)
  then show ?thesis
    using assms holds_sum_nonneg [OF assms(1,2)] unattributed_sum_nonneg [of H]
    by (auto simp: exposure_inv_def settle_fst Let_def)
qed

lemma unattributed_remove:
  "h \<in> set H \<Longrightarrow> xh_holderScope h = None \<and> 0 < xh_estimateUsd h \<Longrightarrow> unattributed (remove1 h H) = remove1 h (unattributed H)"
  "\<not> (xh_holderScope h = None \<and> 0 < xh_estimateUsd h) \<Longrightarrow> unattributed (remove1 h H) = unattributed H"
  unfolding unattributed_def by (induction H) auto

lemma release_hold_exposure:
  assumes "exposure_inv b H" "h \<in> set H"
  shows "exposure_inv (fst (release_hold h b)) (remove1 h H)"
proof -
  consider (free) "xh_holderScope h = None" "0 < xh_estimateUsd h" | (held) scope where "xh_holderScope h = Some scope" "0 < xh_estimateUsd h"
    | (none) "\<not> 0 < xh_estimateUsd h" by (cases "xh_holderScope h") auto
  then show ?thesis
  proof cases
    case free
    then have "h \<in> set (unattributed H)" using assms(2) by (simp add: unattributed_def)
    then have "sum_list (map xh_estimateUsd (unattributed H)) = xh_estimateUsd h + sum_list (map xh_estimateUsd (remove1 h (unattributed H)))"
      "length (remove1 h (unattributed H)) = length (unattributed H) - 1"
      by (simp_all add: sum_list_map_remove1 length_remove1)
    then have "exposure_inv (fst (settleExposureRelease (xh_estimateUsd h)
        (b\<lparr> rb_unattributedHoldCount := rb_unattributedHoldCount b - 1 \<rparr>))) (remove1 h H)"
      by (intro settle_exposure)
        (use assms(1) free unattributed_remove(1) [OF assms(2)] in \<open>simp_all add: exposure_inv_def\<close>)
    then show ?thesis using free by (simp add: release_hold_def)
  next
    case held
    let ?held = "case jm_get (rb_exposureHolds b) scope of Some x \<Rightarrow> x | None \<Rightarrow> 0"
    have wf: "jm_wf (rb_exposureHolds b)" "\<forall>k v. jm_get (rb_exposureHolds b) k = Some v \<longrightarrow> 0 < v"
      using assms(1) by (auto simp: exposure_inv_def)
    have nn: "0 \<le> ?held" using wf(2) by (auto split: option.split intro: less_imp_le)
    have same: "unattributed (remove1 h H) = unattributed H" using held by (simp add: unattributed_remove(2))
    have "exposure_inv (fst (settleExposureRelease (min (xh_estimateUsd h) ?held)
        (b\<lparr> rb_exposureHolds := (if ?held - min (xh_estimateUsd h) ?held \<le> 0 then jm_delete scope (rb_exposureHolds b)
           else jm_set scope (?held - min (xh_estimateUsd h) ?held) (rb_exposureHolds b)) \<rparr>))) (remove1 h H)"
      by (rule settle_exposure)
        (use assms(1) wf nn held same in \<open>auto simp: exposure_inv_def sum_jm_set sum_jm_delete jm_get_delete jm_get_set min_def split: if_splits\<close>)
    then show ?thesis using held by (simp add: release_hold_def Let_def)
  next
    case none
    then have "unattributed (remove1 h H) = unattributed H" by (simp add: unattributed_remove(2))
    then have "exposure_inv (fst (settleExposureRelease 0 b)) (remove1 h H)"
      by (intro settle_exposure) (use assms(1) in \<open>simp_all add: exposure_inv_def\<close>)
    then show ?thesis using none by (simp add: release_hold_def)
  qed
qed

lemma holder_exposure:
  assumes "exposure_inv b H"
  shows "exposure_inv (fst (releaseExposureHolder scope b)) H"
proof -
  let ?held = "case jm_get (rb_exposureHolds b) scope of Some x \<Rightarrow> x | None \<Rightarrow> 0"
  let ?b = "b\<lparr> rb_exposureHolds := jm_delete scope (rb_exposureHolds b) \<rparr>"
  have wf: "jm_wf (rb_exposureHolds b)" "\<forall>k v. jm_get (rb_exposureHolds b) k = Some v \<longrightarrow> 0 < v"
    using assms by (auto simp: exposure_inv_def)
  have "exposure_inv (fst (settleExposureRelease ?held ?b)) H"
    by (rule settle_exposure) (use assms wf in \<open>auto simp: exposure_inv_def sum_jm_delete jm_get_delete split: if_splits\<close>)
  moreover have "exposure_inv ?b H" if "?held \<le> 0"
  proof -
    have "jm_get (rb_exposureHolds b) scope = None" using that wf(2) by (auto split: option.splits simp: not_le [symmetric])
    then show ?thesis
      using assms wf by (auto simp: exposure_inv_def sum_jm_delete jm_get_delete split: if_splits)
  qed
  ultimately show ?thesis by (simp add: releaseExposureHolder_def Let_def case_prod_unfold)
qed

lemma estimate_nonneg: "0 \<le> turn_estimate env m i n"
  by (auto simp: turn_estimate_def finite_positive_def split: option.split js_number.split)

lemma reserved_exposure:
  assumes "exposure_inv b H" "reserveTurnExposure env m i n holder b = (b', Inr (Some h))"
  shows "exposure_inv b' (h # H)"
    and "\<exists>cap. rb_maxInFlightExposureUsd b = Some cap \<and> ac_spentUsd (the_account b' ROOT_ACCOUNT) + rb_inFlightExposureUsd b' \<le> cap"
proof -
  let ?e = "turn_estimate env m i n"
  from assms(2) obtain cap where cap: "rb_maxInFlightExposureUsd b = Some cap"
    and fit: "ac_spentUsd (the_account b ROOT_ACCOUNT) + rb_inFlightExposureUsd b + ?e \<le> cap"
    and h: "h = \<lparr> xh_estimateUsd = ?e, xh_holderScope = holder \<rparr>"
    and b': "b' = fst (reserveTurnExposure env m i n holder b)"
    by (auto simp: reserveTurnExposure_def Let_def not_le split: option.splits if_splits)
  note defs = reserveTurnExposure_def Let_def cap
  show "\<exists>cap. rb_maxInFlightExposureUsd b = Some cap \<and> ac_spentUsd (the_account b' ROOT_ACCOUNT) + rb_inFlightExposureUsd b' \<le> cap"
    using assms(2) fit by (auto simp: defs the_account_def split: option.splits if_splits)
  have grown: "b' = (let b1 = b\<lparr> rb_inFlightExposureUsd := rb_inFlightExposureUsd b + ?e \<rparr> in
      if 0 < ?e then (case holder of None \<Rightarrow> b1\<lparr> rb_unattributedHoldCount := rb_unattributedHoldCount b + 1 \<rparr>
         | Some k \<Rightarrow> b1\<lparr> rb_exposureHolds := jm_set k ((case jm_get (rb_exposureHolds b) k of Some x \<Rightarrow> x | None \<Rightarrow> 0) + ?e) (rb_exposureHolds b) \<rparr>)
      else b1)"
  proof -
    have "\<not> (cap \<le> ac_spentUsd (the_account b ROOT_ACCOUNT) + rb_inFlightExposureUsd b
        \<or> cap < ac_spentUsd (the_account b ROOT_ACCOUNT) + rb_inFlightExposureUsd b + ?e)"
      using assms(2) by (simp add: defs split: if_splits)
    then show ?thesis unfolding b' by (cases holder) (simp_all add: defs)
  qed
  have holds: "0 < (case jm_get (rb_exposureHolds b) k of Some x \<Rightarrow> x | None \<Rightarrow> 0) + ?e" if "0 < ?e" for k
    using assms(1) that by (auto simp: exposure_inv_def add_pos_pos split: option.split)
  show "exposure_inv b' (h # H)"
  proof (cases "0 < ?e")
    case True
    show ?thesis
    proof (cases holder)
      case None
      then show ?thesis using assms(1) True unfolding grown h by (auto simp add: exposure_inv_def unattributed_def)
    next
      case (Some k)
      then show ?thesis
        using assms(1) True holds [OF True, of k] unfolding grown h
        by (auto simp add: exposure_inv_def unattributed_def sum_jm_set jm_get_set)
    qed
  next
    case False
    then have "?e = 0" using estimate_nonneg [of env m i n] by simp
    then show ?thesis using assms(1) unfolding grown h by (auto simp add: exposure_inv_def unattributed_def)
  qed
qed

lemma wait_exposure:
  assumes "exposure_inv b H"
  shows "exposure_inv (fst (awaitExposureRelease aborted w b)) H" "exposure_inv (abort_wait w b) H" "exposure_inv (fst (sweep b)) H"
proof -
  show "exposure_inv (fst (awaitExposureRelease aborted w b)) H"
    using assms by (auto simp: exposure_inv_def awaitExposureRelease_def syncExposureKeepalive_def)
  have "filter P (rb_exposureWaiters b) \<noteq> [] \<Longrightarrow> rb_exposureWaiters b \<noteq> []" for P by auto
  then show "exposure_inv (abort_wait w b) H"
    using assms by (auto simp: exposure_inv_def abort_wait_def wake_one_def syncExposureKeepalive_def)
  show "exposure_inv (fst (sweep b)) H"
    using assms by (auto simp: exposure_inv_def sweep_def wake_all_fst)
qed

lemma exposure_step:
  assumes "budget_step env s ds s'" "exposure_inv (fst s) (snd s)"
  shows "exposure_inv (fst s') (snd s')"
proof -
  have quiet: "exposure_inv b' (snd s)" if "surface b' = surface (fst s)" for b' using assms(2) exposure_inv_cong [OF that] by simp
  from assms(1) show ?thesis
  proof cases
    case (bs_reserved m i n holder b b' h H)
    then show ?thesis using reserved_exposure(1) assms(2) by simp
  next
    case (bs_unreserved m i n holder b b' e H)
    then have "b' = b" by (auto simp: reserveTurnExposure_def Let_def split: option.splits if_splits)
    then show ?thesis using bs_unreserved assms(2) by simp
  next
    case (bs_hold h H b)
    then show ?thesis using release_hold_exposure assms(2) by simp
  qed (use quiet assms(2) in \<open>simp_all add: account_calls_surface admitSpawn_surface usage_surface holder_exposure wait_exposure
      commitSynthesisReserve_def releaseSynthesisReserve_def commitConvergenceReserve_def releaseConvergenceReserve_def
      commitRepairReserve_def releaseRepairReserve_def\<close>)
qed

lemma exposure_start: "new_budget opts = Inr b0 \<Longrightarrow> exposure_inv b0 []"
  by (auto simp: new_budget_def bindR_eq_Inr Let_def exposure_inv_def unattributed_def split: if_splits option.splits)

lemma exposure_run: "budget_run env b0 s debits \<Longrightarrow> new_budget opts = Inr b0 \<Longrightarrow> exposure_inv (fst s) (snd s)"
proof (induction rule: budget_run.induct)
  case run_start
  then show ?case using exposure_start by simp
next
  case (run_step s debits ds s')
  then show ?case using exposure_step by blast
qed

section \<open>Projected admission\<close>

definition fits :: "rat \<Rightarrow> account_state \<Rightarrow> bool" where
  "fits reserve a \<longleftrightarrow> (\<forall>c. ac_ceilingUsd a = Some c \<longrightarrow> commitments a < c \<and> commitments a + reserve \<le> c)"

lemma find_full_None: "find_full r as = None \<longleftrightarrow> (\<forall>a\<in>set as. fits r a)"
  by (induction as) (auto simp: fits_def split: option.splits)

lemma chain_accounts_known:
  "budget_wf b \<Longrightarrow> k \<in> set (jm_keys (rb_accounts b)) \<Longrightarrow> chain_accounts b k = Inr (map (the_account b) (ancestors (shape b) k))"
  by (simp add: chain_accounts_def chainOf_known)

lemma admitRecovered_effect:
  assumes "budget_wf b" "scope \<in> set (jm_keys (rb_accounts b))"
  shows "snd (admitRecovered q scope b) = Inr ()" "rb_agentsSpawned (fst (admitRecovered q scope b)) = rb_agentsSpawned b"
    "jm_get (rb_accounts (fst (admitRecovered q scope b))) k =
      (if reaches b scope k then map_option (commit_reserve q) (jm_get (rb_accounts b) k) else jm_get (rb_accounts b) k)"
proof -
  have d: "distinct (ancestors (shape b) scope)" using assms(1) by (simp add: budget_wf_def ancestors_distinct)
  show "snd (admitRecovered q scope b) = Inr ()" "rb_agentsSpawned (fst (admitRecovered q scope b)) = rb_agentsSpawned b"
    by (simp_all add: admitRecovered_def chainOf_known [OF assms])
  show "jm_get (rb_accounts (fst (admitRecovered q scope b))) k =
      (if reaches b scope k then map_option (commit_reserve q) (jm_get (rb_accounts b) k) else jm_get (rb_accounts b) k)"
    using on_chain_get [OF d, of "commit_reserve q" b k] by (simp add: admitRecovered_def reaches_def chainOf_known [OF assms])
qed

lemma reaches_iff: "budget_wf b \<Longrightarrow> scope \<in> set (jm_keys (rb_accounts b)) \<Longrightarrow> reaches b scope k \<longleftrightarrow> k \<in> set (ancestors (shape b) scope)"
  by (simp add: reaches_def chainOf_known)

lemma refuse_verdict:
  assumes "budget_wf b" "scope \<in> set (jm_keys (rb_accounts b))"
  shows "refuseSpawnIfInfeasible (Num r) scope b = (b, Inr r)
      \<longleftrightarrow> 0 \<le> r \<and> rb_agentsSpawned b < rb_lifetimeSpawnCap b \<and> (\<forall>k. reaches b scope k \<longrightarrow> fits r (the_account b k))"
    "snd (refuseSpawnIfInfeasible (Num r) scope b) = Inr v \<Longrightarrow> refuseSpawnIfInfeasible (Num r) scope b = (b, Inr r)"
    "rb_accounts (fst (refuseSpawnIfInfeasible x scope b)) = rb_accounts b"
    "rb_agentsSpawned (fst (refuseSpawnIfInfeasible x scope b)) = rb_agentsSpawned b"
  using find_full_None [of r "map (the_account b) (ancestors (shape b) scope)"]
  by (auto simp: refuseSpawnIfInfeasible_def requireValidCeiling_def chain_accounts_known [OF assms] reaches_iff [OF assms]
      split: option.splits sum.splits js_number.splits if_splits)

section \<open>The call meter\<close>

fun feed_all :: "budget_env \<Rightarrow> usage list \<Rightarrow> call_meter \<Rightarrow> run_budget \<Rightarrow> call_meter \<times> run_budget" where
  "feed_all env [] m b = (m, b)"
| "feed_all env (d # ds) m b = (case feed_meter env d m b of (m', b', _) \<Rightarrow> feed_all env ds m' b')"

definition accumulate :: "usage \<Rightarrow> usage list \<Rightarrow> usage" where
  "accumulate u ds = foldl (\<lambda>u d. sumUsage u (sanitizeUsageDelta d)) u ds"

lemma feed_meter_effect:
  assumes "budget_wf b" "reaches b (cm_accountScope m) k" "jm_get (rb_accounts b) k = Some a" "feed_meter env d m b = (m', b', r)"
  defines "tot \<equiv> charge env (cm_servedBy m) (sumUsage (cm_accumulated m) (sanitizeUsageDelta d))"
  shows "budget_wf b'" "shape b' = shape b"
    "jm_get (rb_accounts b') k = Some (debit_account (max 0 (tot - cm_pricedUsd m)) a)"
    "m' = m\<lparr> cm_accumulated := sumUsage (cm_accumulated m) (sanitizeUsageDelta d), cm_pricedUsd := max (cm_pricedUsd m) tot \<rparr>"
proof -
  let ?b1 = "b\<lparr> rb_usage := sumUsage (rb_usage b) (sanitizeUsageDelta d) \<rparr>" and ?acc = "sumUsage (cm_accumulated m) (sanitizeUsageDelta d)"
  obtain b2 t where d: "debitableUsd env (cm_servedBy m) ?acc ?b1 = (b2, t)" by fastforce
  then have t: "t = tot" unfolding tot_def using debitableUsd_charge by (metis snd_conv)
  have acc: "rb_accounts b2 = rb_accounts b" using debitable_frame(1) [of env "cm_servedBy m" ?acc ?b1] d by simp
  note c = shape_cong [OF acc]
  have wf: "budget_wf b2" using assms(1) c(2) by simp
  have m': "m' = m\<lparr> cm_accumulated := ?acc, cm_pricedUsd := max (cm_pricedUsd m) tot \<rparr>"
    and b': "b' = fst (debitAccounts (max 0 (tot - cm_pricedUsd m)) (cm_accountScope m) b2)"
    using assms(4) by (auto simp: feed_meter_def Let_def d t)
  show "m' = m\<lparr> cm_accumulated := sumUsage (cm_accumulated m) (sanitizeUsageDelta d), cm_pricedUsd := max (cm_pricedUsd m) tot \<rparr>"
    by (rule m')
  have "reaches b2 (cm_accountScope m) k" using assms(2) by (simp add: reaches_def c(3))
  then show "budget_wf b'" "shape b' = shape b" "jm_get (rb_accounts b') k = Some (debit_account (max 0 (tot - cm_pricedUsd m)) a)"
    unfolding b' using debitAccounts_effect [OF wf] assms(3) c(1) acc by simp_all
qed

text \<open>The highest price seen so far is what the meter has debited.\<close>

lemma feed_all_spent:
  assumes "budget_wf b" "reaches b (cm_accountScope m) k" "jm_get (rb_accounts b) k = Some a" "feed_all env ds m b = (m', b')"
  shows "\<exists>a'. jm_get (rb_accounts b') k = Some a' \<and> ac_spentUsd a' = ac_spentUsd a + (cm_pricedUsd m' - cm_pricedUsd m)
    \<and> cm_accumulated m' = accumulate (cm_accumulated m) ds"
  using assms
proof (induction ds arbitrary: m b a)
  case (Cons d ds)
  obtain m1 b1 r where f: "feed_meter env d m b = (m1, b1, r)" by (metis prod_cases3)
  note eff = feed_meter_effect [OF Cons.prems(1-3) f]
  have "reaches b1 (cm_accountScope m1) k"
    using Cons.prems(2) same_shape_reaches [OF Cons.prems(1) eff(1,2)] eff(4) by simp
  from Cons.IH [OF eff(1) this eff(3)] Cons.prems(4) f
  show ?case using eff(4) by (auto simp: accumulate_def max_def)
qed (auto simp: accumulate_def)

lemma feed_all_priced:
  assumes "\<forall>n < length ds. charge env (cm_servedBy m) (accumulate (cm_accumulated m) (take n ds))
      \<le> charge env (cm_servedBy m) (accumulate (cm_accumulated m) (take (Suc n) ds))"
    and "cm_pricedUsd m = charge env (cm_servedBy m) (cm_accumulated m)" "feed_all env ds m b = (m', b')"
  shows "cm_pricedUsd m' = charge env (cm_servedBy m) (accumulate (cm_accumulated m) ds)"
  using assms
proof (induction ds arbitrary: m b)
  case (Cons d ds)
  let ?acc = "sumUsage (cm_accumulated m) (sanitizeUsageDelta d)"
  obtain m1 b1 r where f: "feed_meter env d m b = (m1, b1, r)" by (metis prod_cases3)
  then have m1: "m1 = m\<lparr> cm_accumulated := ?acc, cm_pricedUsd := max (cm_pricedUsd m) (charge env (cm_servedBy m) ?acc) \<rparr>"
    using debitableUsd_charge by (auto simp: feed_meter_def Let_def split: prod.splits) (metis snd_conv)
  have "charge env (cm_servedBy m) (cm_accumulated m) \<le> charge env (cm_servedBy m) ?acc"
    using Cons.prems(1) [rule_format, of 0] by (simp add: accumulate_def)
  then have priced: "cm_pricedUsd m1 = charge env (cm_servedBy m1) (cm_accumulated m1)" using Cons.prems(2) m1 by simp
  have "\<forall>n < length ds. charge env (cm_servedBy m1) (accumulate (cm_accumulated m1) (take n ds))
      \<le> charge env (cm_servedBy m1) (accumulate (cm_accumulated m1) (take (Suc n) ds))"
  proof (intro allI impI)
    fix n
    assume "n < length ds"
    then show "charge env (cm_servedBy m1) (accumulate (cm_accumulated m1) (take n ds))
        \<le> charge env (cm_servedBy m1) (accumulate (cm_accumulated m1) (take (Suc n) ds))"
      using Cons.prems(1) [rule_format, of "Suc n"] m1 by (simp add: accumulate_def)
  qed
  from Cons.IH [OF this priced] Cons.prems(3) f m1 show ?case by (simp add: accumulate_def)
qed (simp add: accumulate_def)

section \<open>A small run\<close>

definition demo_price :: "string \<Rightarrow> usage \<Rightarrow> js_number option" where
  "demo_price servedBy u = Some (outputTokens u)"

definition demo_env :: budget_env where
  "demo_env = \<lparr> be_priceUsd = demo_price, be_pricingOf = (\<lambda>_. Some sample_row), be_now = 0, be_dateParse = (\<lambda>_. NaN) \<rparr>"

definition demo_budget_options :: budget_options where
  "demo_budget_options = \<lparr> bo_ceilingUsd = Some (Num 10), bo_maxInFlightExposureUsd = Some (Num 5), bo_clampTurnToExposure = False,
     bo_lifetimeSpawnCap = None, bo_seed = None, bo_strictPricing = None \<rparr>"

definition demo_root :: account_state where
  "demo_root = (new_account_state ROOT_ACCOUNT)\<lparr> ac_ceilingUsd := Some 10 \<rparr>"

definition demo_start :: run_budget where
  "demo_start = \<lparr> rb_ceilingUsd = Some 10, rb_maxInFlightExposureUsd = Some 5, rb_clampTurnToExposure = False, rb_lifetimeSpawnCap = 500,
     rb_strictPricing = None, rb_accounts = [(ROOT_ACCOUNT, demo_root)], rb_seededAccountSpend = [], rb_usage = zeroUsage,
     rb_agentsSpawned = 0, rb_pricedDispatchVetted = [], rb_exhausted = False, rb_inFlightExposureUsd = 0, rb_exposureHolds = [],
     rb_unattributedHoldCount = 0, rb_exposureWaiters = [], rb_waitKeepalive = False, rb_unpricedWarned = [], rb_invalidPriceWarned = [] \<rparr>"

lemma demo_start_new: "new_budget demo_budget_options = Inr demo_start"
  by (simp add: new_budget_def demo_budget_options_def optional_ceiling_def requireValidCeiling_def valid_strictPricing_def Let_def
      demo_start_def demo_root_def)

definition demo_child :: account_state where
  "demo_child = (new_account_state ''c'')\<lparr> ac_ceilingUsd := Some 4, ac_parentScope := Some ROOT_ACCOUNT \<rparr>"

definition demo_opened :: run_budget where
  "demo_opened = demo_start\<lparr> rb_accounts := [(ROOT_ACCOUNT, demo_root), (''c'', demo_child)] \<rparr>"

lemma demo_open:
  "openAccount ''c'' \<lparr> ap_parentScope = None, ap_ceilingUsd = Some (Num 4), ap_finalizeReserveUsd = None, ap_kind = None \<rparr> demo_start
    = (demo_opened, Inr ())"
  by (simp add: openAccount_def demo_start_def demo_opened_def demo_child_def optional_ceiling_def requireValidCeiling_def Let_def
      jm_has_def ROOT_ACCOUNT_def new_account_state_def)

definition demo_slice :: "rat \<Rightarrow> usage" where
  "demo_slice n = zeroUsage\<lparr> outputTokens := Num n \<rparr>"

lemma demo_wf: "budget_wf demo_opened"
  by (auto simp: budget_wf_def shape_def demo_opened_def demo_root_def demo_child_def new_account_state_def ROOT_ACCOUNT_def split: if_splits)

lemma demo_get: "jm_get (rb_accounts demo_opened) ''c'' = Some demo_child" "jm_get (rb_accounts demo_opened) ROOT_ACCOUNT = Some demo_root"
  by (simp_all add: demo_opened_def ROOT_ACCOUNT_def)

lemma demo_reaches: "reaches demo_opened ''c'' ROOT_ACCOUNT" "jm_has (rb_accounts demo_opened) ''c''"
proof -
  show "jm_has (rb_accounts demo_opened) ''c''" by (simp add: jm_has_def demo_get)
  then show "reaches demo_opened ''c'' ROOT_ACCOUNT" by (intro reaches_root [OF demo_wf]) (simp only: jm_has_keys)
qed

definition demo_spent :: run_budget where
  "demo_spent = fst (onUsage demo_env (demo_slice 3) ''m'' ''c'' demo_opened)"

lemma demo_delta: "sanitizeUsageDelta (demo_slice 3) = demo_slice 3" "charge demo_env ''m'' (demo_slice 3) = 3"
  by (simp_all add: sanitizeUsageDelta_def snapshotUsage_def demo_slice_def zeroUsage_def sanitizeTokenCount_def zero_js_number_def
      max_safe_integer_def charge_def demo_env_def demo_price_def requireValidCeiling_def)

lemma demo_run: "budget_run demo_env demo_start (demo_spent, []) [(''c'', 3)]"
proof -
  have "budget_step demo_env (demo_start, []) [] (demo_opened, [])"
    using bs_open [of demo_env demo_start "[]" "''c''"
        "\<lparr> ap_parentScope = None, ap_ceilingUsd = Some (Num 4), ap_finalizeReserveUsd = None, ap_kind = None \<rparr>"]
    by (simp add: demo_open)
  moreover have "budget_step demo_env (demo_opened, []) [(''c'', 3)] (demo_spent, [])"
    using bs_usage [of demo_env demo_opened "[]" "''c''" "''m''" "demo_slice 3"]
    by (simp add: demo_delta charged_def demo_reaches(2) demo_spent_def)
  ultimately have "budget_run demo_env demo_start (demo_spent, []) (([] @ []) @ [(''c'', 3)])"
    by (intro run_step [of _ _ "(demo_opened, [])"] run_step [of _ _ "(demo_start, [])"] run_start)
  then show ?thesis by simp
qed

section \<open>The contract\<close>

text \<open>
  C15. Spend propagates exactly. After any run of calls from a constructed budget, every account
  has spent what it started from plus the debits of the accounts whose chain passes through it, and
  the root has spent the resume seed plus every debit made.
\<close>

theorem spend_propagates:
  assumes "new_budget opts = Inr b0" "budget_run env b0 (b, H) debits"
  shows "(\<forall>k a. jm_get (rb_accounts b) k = Some a \<longrightarrow> ac_spentUsd a = starting b0 k a + debits_to b debits k)
    \<and> ac_spentUsd (the_account b ROOT_ACCOUNT) = ac_spentUsd (the_account b0 ROOT_ACCOUNT) + sum_list (map snd debits)"
proof -
  have inv: "ledger_inv b0 b debits" using ledger_run [OF assms(2,1)] by simp
  then have wf: "budget_wf b" by (simp add: ledger_inv_def)
  have all: "debits_to b debits ROOT_ACCOUNT = sum_list (map snd debits)"
  proof -
    have "fst d \<in> set (jm_keys (rb_accounts b))" if "d \<in> set debits" for d using inv that unfolding ledger_inv_def by blast
    then have "\<forall>d\<in>set debits. case d of (scope, usd) \<Rightarrow> reaches b scope ROOT_ACCOUNT"
      using reaches_root [OF wf] by (simp add: case_prod_unfold)
    then show ?thesis by (simp add: debits_to_def)
  qed
  obtain root where "jm_get (rb_accounts b) ROOT_ACCOUNT = Some root"
    using root_known [OF wf] jm_get_None_keys [of "rb_accounts b" ROOT_ACCOUNT] by (cases "jm_get (rb_accounts b) ROOT_ACCOUNT") auto
  then show ?thesis using inv all by (simp add: ledger_inv_def the_account_def starting_def)
qed

theorem spend_propagates_witness:
  "ac_spentUsd (the_account demo_spent ROOT_ACCOUNT) = ac_spentUsd (the_account demo_start ROOT_ACCOUNT) + 3"
  using spend_propagates [OF demo_start_new demo_run] by simp


lemma demo_admit: "\<exists>b'. admitSpawn (Num 3) ''c'' demo_opened = (b', Inr ())"
proof -
  have at_c: "the_account demo_opened ''c'' = demo_child" and at_root: "the_account demo_opened ROOT_ACCOUNT = demo_root"
    using demo_get by (simp_all add: the_account_def)
  have ok: "fits 3 demo_child" "fits 3 demo_root"
    by (simp_all add: fits_def commitments_def demo_root_def demo_child_def new_account_state_def)
  have fit: "fits 3 (the_account demo_opened k)" if "reaches demo_opened ''c'' k" for k
  proof -
    have "k = ''c'' \<or> k = ROOT_ACCOUNT"
      using reaches_known [OF demo_wf that] by (auto simp: demo_opened_def)
    then show ?thesis using at_c at_root ok by metis
  qed
  have "''c'' \<in> set (jm_keys (rb_accounts demo_opened))" by (simp add: demo_opened_def)
  from refuse_verdict(1) [OF demo_wf this, of 3] fit
  have "refuseSpawnIfInfeasible (Num 3) ''c'' demo_opened = (demo_opened, Inr 3)" by (simp add: demo_opened_def demo_start_def)
  moreover have "chainOf (demo_opened\<lparr> rb_agentsSpawned := n \<rparr>) ''c'' = Inr (ancestors (shape demo_opened) ''c'')" for n
    using chainOf_known [OF demo_wf, of "''c''"] shape_cong(3) [of "demo_opened\<lparr> rb_agentsSpawned := n \<rparr>" demo_opened]
    by (simp add: demo_opened_def)
  ultimately show ?thesis by (simp add: admitSpawn_def admitRecovered_def)
qed


text \<open>
  C18. The call meter debits the price of its call. Feeding the slices of one provider call to a
  fresh meter adds to every account of its chain exactly the charge of the call's accumulated usage,
  whatever the slicing, as long as the charge does not fall while usage accumulates; so a
  long-context tier crossed in the middle of a call is debited in full.
\<close>

theorem meter_debits_call:
  assumes "budget_wf b" "reaches b scope k" "jm_get (rb_accounts b) k = Some a"
    and "feed_all env ds (openCallMeter servedBy scope) b = (m', b')"
    and "charge env servedBy zeroUsage = 0"
    and "\<forall>n < length ds. charge env servedBy (accumulate zeroUsage (take n ds)) \<le> charge env servedBy (accumulate zeroUsage (take (Suc n) ds))"
  shows "\<exists>a'. jm_get (rb_accounts b') k = Some a' \<and> ac_spentUsd a' = ac_spentUsd a + charge env servedBy (accumulate zeroUsage ds)"
proof -
  let ?m = "openCallMeter servedBy scope"
  have "cm_pricedUsd m' = charge env servedBy (accumulate zeroUsage ds)"
    using feed_all_priced [of ds env ?m b m' b'] assms(4-6) by (simp add: openCallMeter_def)
  then show ?thesis
    using feed_all_spent [OF assms(1) _ assms(3,4)] assms(2) by (auto simp: openCallMeter_def)
qed

lemma demo_charges:
  "charge demo_env ''m'' zeroUsage = 0" "charge demo_env ''m'' (accumulate zeroUsage []) = 0"
  "charge demo_env ''m'' (accumulate zeroUsage [demo_slice 3]) = 3"
proof -
  show zero: "charge demo_env ''m'' zeroUsage = 0"
    by (simp add: charge_def demo_env_def demo_price_def requireValidCeiling_def zeroUsage_def zero_js_number_def)
  then show "charge demo_env ''m'' (accumulate zeroUsage []) = 0" by (simp add: accumulate_def)
  have "accumulate zeroUsage [demo_slice 3] = sumUsage zeroUsage (demo_slice 3)" by (simp add: accumulate_def demo_delta(1))
  also have "outputTokens \<dots> = outputTokens zeroUsage + outputTokens (demo_slice 3)" by (simp add: sumUsage_def Let_def)
  also have "\<dots> = Num 3" by (simp add: zeroUsage_def zero_js_number_def demo_slice_def js_of_rat_Num)
  finally show "charge demo_env ''m'' (accumulate zeroUsage [demo_slice 3]) = 3"
    by (simp add: charge_def demo_env_def demo_price_def requireValidCeiling_def)
qed

theorem meter_debits_call_witness:
  "\<exists>a'. jm_get (rb_accounts (snd (feed_all demo_env [demo_slice 3] (openCallMeter ''m'' ''c'') demo_opened))) ROOT_ACCOUNT = Some a'
    \<and> ac_spentUsd a' = ac_spentUsd demo_root + 3"
  using meter_debits_call [OF demo_wf demo_reaches(1) demo_get(2) surjective_pairing demo_charges(1), of "[demo_slice 3]"]
  by (simp add: demo_charges)


definition demo_hold :: exposure_hold where
  "demo_hold = \<lparr> xh_estimateUsd = 9 / 20, xh_holderScope = Some ''agent'' \<rparr>"

lemma demo_estimate: "turn_estimate demo_env ''m'' (Num 100000) (Num 10000) = 9 / 20"
proof -
  have "tierFor sample_row (Num 100000) = None" by (simp add: tierFor_def tiers_of_def sample_row_def)
  then have "priceUsdOf sample_row (prompt_usage (Num 100000) (Num 10000)) = Num (9 / 20)"
    using prompt_price [OF sample_row_ok, of 100000 10000]
    by (simp add: input_mul_def output_mul_def sample_row_def number_or_nan_def)
  then show ?thesis by (simp add: turn_estimate_def demo_env_def finite_positive_def zero_js_number_def)
qed

definition demo_reserved :: run_budget where
  "demo_reserved = demo_start\<lparr> rb_inFlightExposureUsd := 9 / 20, rb_exposureHolds := [(''agent'', 9 / 20)] \<rparr>"

lemma demo_reserve:
  "reserveTurnExposure demo_env ''m'' (Num 100000) (Num 10000) (Some ''agent'') demo_start = (demo_reserved, Inr (Some demo_hold))"
  by (simp add: reserveTurnExposure_def demo_estimate Let_def demo_start_def demo_reserved_def demo_hold_def the_account_def demo_root_def
      new_account_state_def)

lemma demo_reserved_run: "budget_run demo_env demo_start (demo_reserved, [demo_hold]) []"
  using run_step [OF run_start bs_reserved [OF demo_reserve]] by simp


end
