(* ===== verification/Lineage.thy ===== *)
theory Lineage
  imports KeyDeriver Disposition
begin

text \<open>
  Lineage, \<open>packages/core/src/journal/lineage.ts\<close>: approach tags and signatures, the outcome classes of
  attempts, and the index that folds a journal into attempts, escalation debits and stall streaks per
  logical task. An attempt record is shared by three maps of the index and is updated in place, so
  records live in a store and the maps hold their addresses. A lineage block is read from
  journaled JSON without validation, so its members are JSON values that may be absent. Strings range over
  single-byte characters, on which Unicode normalization changes nothing.
\<close>

section \<open>Tags and signatures\<close>

definition lower_char :: "char \<Rightarrow> char" where
  "lower_char c = (if CHR ''A'' \<le> c \<and> c \<le> CHR ''Z'' then char_of (of_char c + (32 :: nat)) else c)"

definition alnum_char :: "char \<Rightarrow> bool" where
  "alnum_char c \<longleftrightarrow> (CHR ''a'' \<le> c \<and> c \<le> CHR ''z'') \<or> (CHR ''0'' \<le> c \<and> c \<le> CHR ''9'')"

text \<open>\<open>replace(/[^a-z0-9]+/g, '-')\<close>.\<close>

function collapse_runs :: "string \<Rightarrow> string" where
  "collapse_runs [] = []"
| "collapse_runs (c # cs) =
     (if alnum_char c then c # collapse_runs cs
      else CHR ''-'' # collapse_runs (dropWhile (\<lambda>d. \<not> alnum_char d) cs))"
  by pat_completeness auto
termination
  by (relation "measure length") (auto simp: le_imp_less_Suc length_dropWhile_le)

definition normalizeApproachTag :: "string option \<Rightarrow> string" where
  "normalizeApproachTag raw =
     (let collapsed = take 32 (collapse_runs (map lower_char (case raw of Some s \<Rightarrow> s | None \<Rightarrow> '''')))
      in if collapsed = '''' then ''default'' else collapsed)"

definition canonicalIsolationTag :: "isolation_spec option \<Rightarrow> string" where
  "canonicalIsolationTag spec =
     (case spec of
        None \<Rightarrow> ''none''
      | Some Iso_none \<Rightarrow> ''none''
      | Some Iso_readonly \<Rightarrow> ''readonly''
      | Some (Iso_worktree _) \<Rightarrow> ''worktree'')"

definition LINEAGE_SIG_VERSION :: nat where
  "LINEAGE_SIG_VERSION = 1"

definition LEGACY_LTID_PREFIX :: string where
  "LEGACY_LTID_PREFIX = ''legacy:''"

record signature_inputs =
  si_agentType :: string
  si_toolsetHash :: string
  si_schemaHash :: string
  si_isolation :: string

definition approachSigCoarse :: "(string \<Rightarrow> string) \<Rightarrow> (rat \<Rightarrow> string) \<Rightarrow> signature_inputs \<Rightarrow> string" where
  "approachSigCoarse sha numstr inputs =
     sha (jcsSerialize numstr (JObj
       [(''sigVersion'', JNum (of_nat LINEAGE_SIG_VERSION)), (''agentType'', JStr (si_agentType inputs)),
        (''toolsetHash'', JStr (si_toolsetHash inputs)), (''schemaHash'', JStr (si_schemaHash inputs)),
        (''isolation'', JStr (si_isolation inputs))]))"

definition approachSigOf :: "(string \<Rightarrow> string) \<Rightarrow> (rat \<Rightarrow> string) \<Rightarrow> string \<Rightarrow> string option \<Rightarrow> string" where
  "approachSigOf sha numstr coarse tag =
     sha (jcsSerialize numstr (JObj
       [(''sigVersion'', JNum (of_nat LINEAGE_SIG_VERSION)), (''coarse'', JStr coarse),
        (''approachTag'', JStr (normalizeApproachTag tag))]))"

text \<open>The hashes of the empty schema and the empty toolset are \<open>sha256\<close> of \<open>true\<close> and of \<open>[]\<close>.\<close>

definition LEGACY_SIGNATURE_INPUTS :: "(string \<Rightarrow> string) \<Rightarrow> signature_inputs" where
  "LEGACY_SIGNATURE_INPUTS sha =
     \<lparr> si_agentType = ''legacy'', si_toolsetHash = sha ''[]'', si_schemaHash = sha ''true'', si_isolation = ''none'' \<rparr>"

section \<open>Limits\<close>

record escalation_limits =
  el_maxEscalationsPerLogicalTask :: nat
  el_maxAttemptsPerLogicalTask :: nat

definition DEFAULT_ESCALATION_LIMITS :: escalation_limits where
  "DEFAULT_ESCALATION_LIMITS = \<lparr> el_maxEscalationsPerLogicalTask = 2, el_maxAttemptsPerLogicalTask = 8 \<rparr>"

definition requireCount :: "json \<Rightarrow> nat result" where
  "requireCount v = (case as_seq (Some v) of Some n \<Rightarrow> Inr n | None \<Rightarrow> Inl ConfigError)"

text \<open>The configuration is a JSON object or absent.\<close>

definition limit_or :: "json option \<Rightarrow> string \<Rightarrow> nat \<Rightarrow> nat result" where
  "limit_or raw name d = (case opt_member raw name of None \<Rightarrow> Inr d | Some v \<Rightarrow> requireCount v)"

definition validateEscalationLimits :: "json option \<Rightarrow> escalation_limits result" where
  "validateEscalationLimits raw =
     (if opt_member raw ''maxEscalationsPerNode'' \<noteq> None then Inl ConfigError
      else bindR (limit_or raw ''maxEscalationsPerLogicalTask'' (el_maxEscalationsPerLogicalTask DEFAULT_ESCALATION_LIMITS)) (\<lambda>esc.
           bindR (limit_or raw ''maxAttemptsPerLogicalTask'' (el_maxAttemptsPerLogicalTask DEFAULT_ESCALATION_LIMITS)) (\<lambda>att.
           Inr \<lparr> el_maxEscalationsPerLogicalTask = esc, el_maxAttemptsPerLogicalTask = att \<rparr>)))"

section \<open>Outcomes\<close>

datatype outcome_class =
    Out_ok | Out_escalated | Out_task_error | Out_transient_error | Out_no_progress | Out_verify_failed | Out_limit | Out_abandoned

definition classifyAttemptOutcome :: "(rat \<Rightarrow> string) \<Rightarrow> journal_entry \<Rightarrow> outcome_class result" where
  "classifyAttemptOutcome numstr terminal =
     (case je_status terminal of
        S_ok \<Rightarrow> Inr Out_ok
      | S_escalated \<Rightarrow> Inr Out_escalated
      | S_limit \<Rightarrow>
          Inr (if opt_member (Option.bind (je_error terminal) we_data) ''abortClass'' = Some (JStr ''no-progress'')
               then Out_no_progress else Out_limit)
      | S_cancelled \<Rightarrow> Inr Out_abandoned
      | S_error \<Rightarrow>
          (case je_error terminal of
             None \<Rightarrow> Inr Out_task_error
           | Some wire \<Rightarrow>
               if we_code wire = ''agent'' then
                 bindR (agentErrorFromWire numstr wire) (\<lambda>err.
                   Inr (if classifyAgentError err = Class_task then Out_task_error else Out_transient_error))
               else Inr (if we_retryable wire then Out_transient_error else Out_task_error))
      | _ \<Rightarrow> Inr Out_task_error)"

definition STALLING_OUTCOMES :: "outcome_class list" where
  "STALLING_OUTCOMES = [Out_task_error, Out_no_progress, Out_verify_failed, Out_limit]"

section \<open>Lineage blocks\<close>

type_synonym ltid = "json option"

record lineage_block =
  lb_logicalTaskId :: ltid
  lb_relation :: "json option"
  lb_approachSig :: "json option"
  lb_approachSigCoarse :: "json option"
  lb_approachTag :: "json option"

definition block_of :: "json \<Rightarrow> lineage_block" where
  "block_of r = \<lparr> lb_logicalTaskId = member_of r ''logicalTaskId'', lb_relation = member_of r ''relation'',
     lb_approachSig = member_of r ''approachSig'', lb_approachSigCoarse = member_of r ''approachSigCoarse'',
     lb_approachTag = member_of r ''approachTag'' \<rparr>"

definition legacy_block :: "(string \<Rightarrow> string) \<Rightarrow> (rat \<Rightarrow> string) \<Rightarrow> string \<Rightarrow> string \<Rightarrow> lineage_block" where
  "legacy_block sha numstr lt relation =
     (let coarse = approachSigCoarse sha numstr (LEGACY_SIGNATURE_INPUTS sha)
      in \<lparr> lb_logicalTaskId = Some (JStr lt), lb_relation = Some (JStr relation),
           lb_approachSig = Some (JStr (approachSigOf sha numstr coarse None)), lb_approachSigCoarse = Some (JStr coarse),
           lb_approachTag = Some (JStr ''default'') \<rparr>)"

text \<open>The full block, recognized by its signature.\<close>

definition signed_block :: "json option \<Rightarrow> lineage_block option" where
  "signed_block r =
     (case asRecord r of
        None \<Rightarrow> None
      | Some full \<Rightarrow> if as_string (member_of full ''approachSig'') \<noteq> None then Some (block_of full) else None)"

definition readSpawnLineage :: "(string \<Rightarrow> string) \<Rightarrow> (rat \<Rightarrow> string) \<Rightarrow> json option \<Rightarrow> lineage_block option" where
  "readSpawnLineage sha numstr decision =
     (case decision of
        None \<Rightarrow> None
      | Some d \<Rightarrow>
          (case signed_block (member_of d ''lineage'') of
             Some b \<Rightarrow> Some b
           | None \<Rightarrow>
               let vl = asRecord (opt_member (asRecord (member_of d ''verdict'')) ''lineage'')
               in map_option (\<lambda>lt. legacy_block sha numstr lt
                     (if opt_member vl ''isNew'' = Some (JBool False) then ''respawn'' else ''first''))
                    (as_string (opt_member vl ''logicalTaskId''))))"


section \<open>The index\<close>

record attempt_record =
  ar_logicalTaskId :: ltid
  ar_relation :: "json option"
  ar_approachSig :: "json option"
  ar_approachSigCoarse :: "json option"
  ar_approachTag :: "json option"
  ar_decisionSeq :: "nat option"
  ar_childScope :: "string option"
  ar_boundKey :: "string option"
  ar_lastRootSeq :: "nat option"
  ar_outcome :: "outcome_class option"
  ar_outcomeSeq :: "nat option"
  ar_anchorSeq :: nat

text \<open>
  The cursor is \<open>None\<close> before the first entry. Records are addressed by their position in
  \<open>li_records\<close>, which only grows.
\<close>

record lineage_index =
  li_records :: "attempt_record list"
  li_attemptsByLtid :: "(ltid, nat list) jsmap"
  li_escalationsByLtid :: "(string, nat list) jsmap"
  li_queueByScope :: "(string, nat list) jsmap"
  li_recordByRootSeq :: "(nat, nat) jsmap"
  li_closedTargets :: "nat list"
  li_pendingAdmits :: "(ltid, nat) jsmap"
  li_cursor :: "nat option"

definition new_lineage_index :: lineage_index where
  "new_lineage_index = \<lparr> li_records = [], li_attemptsByLtid = [], li_escalationsByLtid = [], li_queueByScope = [],
     li_recordByRootSeq = [], li_closedTargets = [], li_pendingAdmits = [], li_cursor = None \<rparr>"

definition list_at :: "('k, 'v list) jsmap \<Rightarrow> 'k \<Rightarrow> 'v list" where
  "list_at m k = (case jm_get m k of Some xs \<Rightarrow> xs | None \<Rightarrow> [])"

definition push_at :: "'k \<Rightarrow> 'v \<Rightarrow> ('k, 'v list) jsmap \<Rightarrow> ('k, 'v list) jsmap" where
  "push_at k v m = jm_set k (list_at m k @ [v]) m"

definition update_record :: "nat \<Rightarrow> (attempt_record \<Rightarrow> attempt_record) \<Rightarrow> lineage_index \<Rightarrow> lineage_index" where
  "update_record i f idx = idx\<lparr> li_records := (li_records idx)[i := f (li_records idx ! i)] \<rparr>"

definition set_outcome :: "outcome_class \<Rightarrow> nat \<Rightarrow> attempt_record \<Rightarrow> attempt_record" where
  "set_outcome out seq r = r\<lparr> ar_outcome := Some out, ar_outcomeSeq := Some seq \<rparr>"

definition noteAdmitted :: "string \<Rightarrow> lineage_index \<Rightarrow> lineage_index" where
  "noteAdmitted lt idx =
     idx\<lparr> li_pendingAdmits := jm_set (Some (JStr lt))
             ((case jm_get (li_pendingAdmits idx) (Some (JStr lt)) of Some n \<Rightarrow> n | None \<Rightarrow> 0) + 1) (li_pendingAdmits idx) \<rparr>"

definition land_pending :: "ltid \<Rightarrow> (ltid, nat) jsmap \<Rightarrow> (ltid, nat) jsmap" where
  "land_pending lt m =
     (case jm_get m lt of
        None \<Rightarrow> m
      | Some n \<Rightarrow> if n \<le> 1 then jm_delete lt m else jm_set lt (n - 1) m)"

definition registerAttempt :: "nat \<Rightarrow> lineage_block \<Rightarrow> string option \<Rightarrow> lineage_index \<Rightarrow> lineage_index" where
  "registerAttempt decisionSeq lineage childScope idx =
     (let i = length (li_records idx);
          r = \<lparr> ar_logicalTaskId = lb_logicalTaskId lineage, ar_relation = lb_relation lineage,
                ar_approachSig = lb_approachSig lineage, ar_approachSigCoarse = lb_approachSigCoarse lineage,
                ar_approachTag = lb_approachTag lineage, ar_decisionSeq = Some decisionSeq, ar_childScope = childScope,
                ar_boundKey = None, ar_lastRootSeq = None, ar_outcome = None, ar_outcomeSeq = None, ar_anchorSeq = decisionSeq \<rparr>
      in idx\<lparr> li_records := li_records idx @ [r],
               li_queueByScope := (case childScope of None \<Rightarrow> li_queueByScope idx | Some s \<Rightarrow> push_at s i (li_queueByScope idx)),
               li_attemptsByLtid := push_at (lb_logicalTaskId lineage) i (li_attemptsByLtid idx),
               li_pendingAdmits := land_pending (lb_logicalTaskId lineage) (li_pendingAdmits idx) \<rparr>)"

definition recordEscalation :: "string \<Rightarrow> nat \<Rightarrow> lineage_index \<Rightarrow> lineage_index" where
  "recordEscalation lt seq idx = idx\<lparr> li_escalationsByLtid := push_at lt seq (li_escalationsByLtid idx) \<rparr>"

text \<open>One embedded admission: its child scope and lineage, or nothing when it authorizes nothing.\<close>

definition readEmbeddedAdmission ::
  "(string \<Rightarrow> string) \<Rightarrow> (rat \<Rightarrow> string) \<Rightarrow> string \<Rightarrow> json \<Rightarrow> (string \<times> lineage_block) option" where
  "readEmbeddedAdmission sha numstr scope raw =
     Option.bind (asRecord (Some raw)) (\<lambda>record.
       let decision = (case asRecord (member_of record ''decision'') of Some d \<Rightarrow> d | None \<Rightarrow> record)
       in Option.bind (asRecord (member_of decision ''verdict'')) (\<lambda>verdict.
            if member_of verdict ''kind'' = Some (JStr ''reject'') then None
            else Option.bind (readSpawnLineage sha numstr (Some decision)) (\<lambda>lineage.
              map_option (\<lambda>childScope. (childScope, lineage))
                (case readString record ''childScope'' of
                   Some s \<Rightarrow> Some s
                 | None \<Rightarrow> map_option (\<lambda>nodeId. scope @ ''/'' @ nodeId) (readString record ''nodeId'')))))"

definition readEmbeddedAdmissions ::
  "(string \<Rightarrow> string) \<Rightarrow> (rat \<Rightarrow> string) \<Rightarrow> journal_entry \<Rightarrow> (string \<times> lineage_block) list" where
  "readEmbeddedAdmissions sha numstr e =
     (case as_array (opt_member (asRecord (je_value e)) ''admissions'') of
        None \<Rightarrow> []
      | Some raws \<Rightarrow> List.map_filter (readEmbeddedAdmission sha numstr (je_scope e)) raws)"

definition register_admissions ::
  "(string \<Rightarrow> string) \<Rightarrow> (rat \<Rightarrow> string) \<Rightarrow> journal_entry \<Rightarrow> lineage_index \<Rightarrow> lineage_index" where
  "register_admissions sha numstr e idx =
     foldl (\<lambda>idx (childScope, lineage). registerAttempt (je_seq e) lineage (Some childScope) idx) idx
       (readEmbeddedAdmissions sha numstr e)"

definition absorb_spawn_admission ::
  "(string \<Rightarrow> string) \<Rightarrow> (rat \<Rightarrow> string) \<Rightarrow> json \<Rightarrow> nat \<Rightarrow> lineage_index \<Rightarrow> lineage_index" where
  "absorb_spawn_admission sha numstr v seq idx =
     (if member_of v ''reject'' \<noteq> None then idx
      else
        case (case asRecord (member_of v ''decision'') of
                Some decision \<Rightarrow>
                  (case asRecord (member_of decision ''verdict'') of
                     None \<Rightarrow> None
                   | Some verdict \<Rightarrow>
                       if member_of verdict ''kind'' = Some (JStr ''reject'') then None
                       else readSpawnLineage sha numstr (Some decision))
              | None \<Rightarrow> signed_block (member_of v ''lineage'')) of
          None \<Rightarrow> idx
        | Some lineage \<Rightarrow> registerAttempt seq lineage (readString v ''childScope'') idx)"

definition absorb_ladder_verdict :: "json \<Rightarrow> nat \<Rightarrow> lineage_index \<Rightarrow> lineage_index" where
  "absorb_ladder_verdict v seq idx =
     (let judged = (if readString v ''trigger'' = Some ''verify-failed''
                    then Option.bind (as_seq (member_of v ''attemptRef'')) (jm_get (li_recordByRootSeq idx)) else None);
          idx1 = (case judged of None \<Rightarrow> idx | Some i \<Rightarrow> update_record i (set_outcome Out_verify_failed seq) idx)
      in case asRecord (member_of v ''nextAttempt'') of
           None \<Rightarrow> idx1
         | Some next \<Rightarrow>
             (case asRecord (member_of next ''lineage'') of
                None \<Rightarrow> idx1
              | Some lineage \<Rightarrow> registerAttempt seq (block_of lineage) (readString next ''childScope'') idx1))"

text \<open>The logical tasks an escalation decision debits, in the order of its debits.\<close>

definition escalation_tasks :: "json \<Rightarrow> string list" where
  "escalation_tasks v =
     (if member_of v ''countsAgainstLimit'' \<noteq> Some (JBool True) then []
      else (case readString v ''logicalTaskId'' of Some lt \<Rightarrow> [lt] | None \<Rightarrow> [])
        @ List.map_filter (\<lambda>raw. Option.bind (asRecord (Some raw)) (\<lambda>debit. readString debit ''logicalTaskId''))
            (case as_array (member_of v ''debits'') of Some ds \<Rightarrow> ds | None \<Rightarrow> []))"

definition record_all :: "string list \<Rightarrow> nat \<Rightarrow> lineage_index \<Rightarrow> lineage_index" where
  "record_all lts seq idx = foldl (\<lambda>idx lt. recordEscalation lt seq idx) idx lts"

definition absorb_escalation_decision ::
  "(string \<Rightarrow> string) \<Rightarrow> (rat \<Rightarrow> string) \<Rightarrow> json \<Rightarrow> journal_entry \<Rightarrow> lineage_index \<Rightarrow> lineage_index" where
  "absorb_escalation_decision sha numstr v e idx =
     (if member_of v ''countsAgainstLimit'' \<noteq> Some (JBool True) then idx
      else register_admissions sha numstr e (record_all (escalation_tasks v) (je_seq e) idx))"

definition absorbDecision ::
  "(string \<Rightarrow> string) \<Rightarrow> (rat \<Rightarrow> string) \<Rightarrow> journal_entry \<Rightarrow> lineage_index \<Rightarrow> lineage_index" where
  "absorbDecision sha numstr e idx =
     (case asRecord (je_value e) of
        None \<Rightarrow> idx
      | Some v \<Rightarrow>
          let decisionType = readString v ''decisionType''
          in if decisionType = Some ''spawn-admission'' then absorb_spawn_admission sha numstr v (je_seq e) idx
             else if decisionType = Some ''ladder-verdict'' then absorb_ladder_verdict v (je_seq e) idx
             else if decisionType = Some ''escalation-decision'' then absorb_escalation_decision sha numstr v e idx
             else idx)"

text \<open>The logical task a resolution debits when it is the first on its target.\<close>

definition resolution_debit :: "journal_entry \<Rightarrow> string option" where
  "resolution_debit e =
     (case je_resolution e of
        None \<Rightarrow> None
      | Some p \<Rightarrow> if rp_countsAgainstLimit p = Some True \<and> rp_by p \<noteq> By_class_decision then rp_logicalTaskId p else None)"

definition absorbResolution :: "nat \<Rightarrow> journal_entry \<Rightarrow> lineage_index \<Rightarrow> lineage_index" where
  "absorbResolution target e idx =
     (if target \<in> set (li_closedTargets idx) then idx
      else
        let idx1 = idx\<lparr> li_closedTargets := target # li_closedTargets idx \<rparr>
        in case resolution_debit e of None \<Rightarrow> idx1 | Some lt \<Rightarrow> recordEscalation lt (je_seq e) idx1)"

definition absorbAbandon :: "journal_entry \<Rightarrow> lineage_index \<Rightarrow> lineage_index" where
  "absorbAbandon e idx =
     (case je_abandon e of
        None \<Rightarrow> idx
      | Some p \<Rightarrow>
          (case jm_get (li_recordByRootSeq idx) (ap_target p) of
             Some i \<Rightarrow>
               if ar_outcome (li_records idx ! i) = None then update_record i (set_outcome Out_abandoned (je_seq e)) idx else idx
           | None \<Rightarrow>
               (case ap_logicalTaskId p of
                  None \<Rightarrow> idx
                | Some lt \<Rightarrow>
                    (case List.find (\<lambda>i. ar_outcome (li_records idx ! i) = None) (list_at (li_attemptsByLtid idx) (Some (JStr lt))) of
                       None \<Rightarrow> idx
                     | Some i \<Rightarrow> update_record i (set_outcome Out_abandoned (je_seq e)) idx))))"

text \<open>
  Which attempt a dispatch binds to: the first of its slot still waiting, else one of the same key
  that did not end well, else none and a legacy attempt is made.
\<close>

definition slot_record :: "string \<Rightarrow> journal_entry \<Rightarrow> lineage_index \<Rightarrow> nat option" where
  "slot_record slotScope e idx =
     (let queue = list_at (li_queueByScope idx) slotScope
      in case List.find (\<lambda>i. ar_lastRootSeq (li_records idx ! i) = None) queue of
           Some i \<Rightarrow> Some i
         | None \<Rightarrow> List.find (\<lambda>i. ar_boundKey (li_records idx ! i) = Some (je_key e)
                                   \<and> ar_outcome (li_records idx ! i) \<noteq> Some Out_ok) queue)"

definition legacy_attempt ::
  "(string \<Rightarrow> string) \<Rightarrow> (rat \<Rightarrow> string) \<Rightarrow> string \<Rightarrow> journal_entry \<Rightarrow> lineage_index \<Rightarrow> lineage_index" where
  "legacy_attempt sha numstr slotScope e idx =
     (let b = legacy_block sha numstr (LEGACY_LTID_PREFIX @ je_key e) ''first'';
          i = length (li_records idx);
          r = \<lparr> ar_logicalTaskId = lb_logicalTaskId b, ar_relation = lb_relation b, ar_approachSig = lb_approachSig b,
                ar_approachSigCoarse = lb_approachSigCoarse b, ar_approachTag = lb_approachTag b, ar_decisionSeq = None,
                ar_childScope = None, ar_boundKey = None, ar_lastRootSeq = None, ar_outcome = None, ar_outcomeSeq = None,
                ar_anchorSeq = je_seq e \<rparr>
      in idx\<lparr> li_records := li_records idx @ [r], li_attemptsByLtid := push_at (lb_logicalTaskId b) i (li_attemptsByLtid idx),
               li_queueByScope := push_at slotScope i (li_queueByScope idx) \<rparr>)"

definition bind_record :: "journal_entry \<Rightarrow> attempt_record \<Rightarrow> attempt_record" where
  "bind_record e r =
     (let r1 = r\<lparr> ar_boundKey := Some (je_key e), ar_lastRootSeq := Some (je_seq e) \<rparr>
      in if ar_outcome r \<noteq> None \<and> je_status e = S_running then r1\<lparr> ar_outcome := None, ar_outcomeSeq := None \<rparr> else r1)"

definition bindRoot ::
  "(string \<Rightarrow> string) \<Rightarrow> (rat \<Rightarrow> string) \<Rightarrow> string \<Rightarrow> journal_entry \<Rightarrow> lineage_index \<Rightarrow> nat \<times> lineage_index" where
  "bindRoot sha numstr slotScope e idx =
     (let (i, idx1) = (case slot_record slotScope e idx of
                         Some i \<Rightarrow> (i, idx)
                       | None \<Rightarrow> (length (li_records idx), legacy_attempt sha numstr slotScope e idx));
          idx2 = update_record i (bind_record e) idx1
      in (i, idx2\<lparr> li_recordByRootSeq := jm_set (je_seq e) i (li_recordByRootSeq idx2) \<rparr>))"

text \<open>Classifying may throw on a malformed error; the index keeps what was done before.\<close>

definition settle_record :: "(rat \<Rightarrow> string) \<Rightarrow> journal_entry \<Rightarrow> nat \<Rightarrow> lineage_index \<Rightarrow> lineage_index \<times> unit result" where
  "settle_record numstr e i idx =
     (case classifyAttemptOutcome numstr e of
        Inl err \<Rightarrow> (idx, Inl err)
      | Inr out \<Rightarrow> (update_record i (set_outcome out (je_seq e)) idx, Inr ()))"

definition slot_scope :: "journal_entry \<Rightarrow> string" where
  "slot_scope e =
     (if je_kind e = K_child
      then (case as_string (opt_member (asRecord (je_value e)) ''childScope'') of Some s \<Rightarrow> s | None \<Rightarrow> je_scope e)
      else je_scope e)"

definition absorbSpawnEntry ::
  "(string \<Rightarrow> string) \<Rightarrow> (rat \<Rightarrow> string) \<Rightarrow> journal_entry \<Rightarrow> lineage_index \<Rightarrow> lineage_index \<times> unit result" where
  "absorbSpawnEntry sha numstr e idx =
     (case je_ref e of
        Some ref \<Rightarrow>
          (case jm_get (li_recordByRootSeq idx) ref of
             None \<Rightarrow> (idx, Inr ())
           | Some i \<Rightarrow> settle_record numstr e i idx)
      | None \<Rightarrow>
          (case bindRoot sha numstr (slot_scope e) e idx of
             (i, idx1) \<Rightarrow> if je_status e \<noteq> S_running then settle_record numstr e i idx1 else (idx1, Inr ())))"

definition absorbEntry ::
  "(string \<Rightarrow> string) \<Rightarrow> (rat \<Rightarrow> string) \<Rightarrow> journal_entry \<Rightarrow> lineage_index \<Rightarrow> lineage_index \<times> unit result" where
  "absorbEntry sha numstr e idx =
     (if je_kind e = K_decision then (absorbDecision sha numstr e idx, Inr ())
      else if je_kind e = K_plan_revision then (register_admissions sha numstr e idx, Inr ())
      else if je_kind e = K_resolution \<and> je_ref e \<noteq> None then (absorbResolution (the (je_ref e)) e idx, Inr ())
      else if je_kind e = K_abandon then (absorbAbandon e idx, Inr ())
      else if je_kind e = K_agent \<or> je_kind e = K_child then absorbSpawnEntry sha numstr e idx
      else (idx, Inr ()))"

definition beyond :: "nat option \<Rightarrow> nat \<Rightarrow> bool" where
  "beyond cursor seq \<longleftrightarrow> (case cursor of None \<Rightarrow> True | Some c \<Rightarrow> c < seq)"

fun absorb ::
  "(string \<Rightarrow> string) \<Rightarrow> (rat \<Rightarrow> string) \<Rightarrow> journal_entry list \<Rightarrow> lineage_index \<Rightarrow> lineage_index \<times> unit result" where
  "absorb sha numstr [] idx = (idx, Inr ())"
| "absorb sha numstr (e # es) idx =
     (if \<not> beyond (li_cursor idx) (je_seq e) then absorb sha numstr es idx
      else
        case absorbEntry sha numstr e (idx\<lparr> li_cursor := Some (je_seq e) \<rparr>) of
          (idx1, Inl err) \<Rightarrow> (idx1, Inl err)
        | (idx1, Inr _) \<Rightarrow> absorb sha numstr es idx1)"

section \<open>Reads\<close>

definition in_snapshot :: "nat option \<Rightarrow> nat \<Rightarrow> bool" where
  "in_snapshot uptoSeq seq \<longleftrightarrow> (case uptoSeq of None \<Rightarrow> True | Some u \<Rightarrow> seq \<le> u)"

definition attemptsOf :: "lineage_index \<Rightarrow> string \<Rightarrow> nat option \<Rightarrow> attempt_record list" where
  "attemptsOf idx lt uptoSeq =
     filter (\<lambda>r. in_snapshot uptoSeq (ar_anchorSeq r))
       (map (\<lambda>i. li_records idx ! i) (list_at (li_attemptsByLtid idx) (Some (JStr lt))))"

definition attemptsUsed :: "lineage_index \<Rightarrow> string \<Rightarrow> nat option \<Rightarrow> nat" where
  "attemptsUsed idx lt uptoSeq = length (attemptsOf idx lt uptoSeq)"

definition escalationsUsed :: "lineage_index \<Rightarrow> string \<Rightarrow> nat option \<Rightarrow> nat" where
  "escalationsUsed idx lt uptoSeq = length (filter (in_snapshot uptoSeq) (list_at (li_escalationsByLtid idx) lt))"

definition hasLiveAttempt :: "lineage_index \<Rightarrow> string \<Rightarrow> bool" where
  "hasLiveAttempt idx lt \<longleftrightarrow>
     (case jm_get (li_pendingAdmits idx) (Some (JStr lt)) of Some n \<Rightarrow> n > 0 | None \<Rightarrow> False)
     \<or> list_ex (\<lambda>i. ar_outcome (li_records idx ! i) = None) (list_at (li_attemptsByLtid idx) (Some (JStr lt)))"

definition settled_outcome :: "nat option \<Rightarrow> attempt_record \<Rightarrow> outcome_class option" where
  "settled_outcome uptoSeq r =
     (case ar_outcomeSeq r of
        Some s \<Rightarrow> if in_snapshot uptoSeq s then ar_outcome r else None
      | None \<Rightarrow> None)"

definition stallStreak :: "lineage_index \<Rightarrow> string \<Rightarrow> nat option \<Rightarrow> nat" where
  "stallStreak idx lt uptoSeq =
     foldl (\<lambda>streak r.
        case settled_outcome uptoSeq r of
          None \<Rightarrow> streak
        | Some out \<Rightarrow> if out = Out_ok then 0 else if out \<in> set STALLING_OUTCOMES then streak + 1 else streak)
       0 (attemptsOf idx lt uptoSeq)"

record approach_group =
  ag_approachTag :: "json option"
  ag_attempts :: nat
  ag_lastOutcome :: "outcome_class option"

definition group_attempt ::
  "nat option \<Rightarrow> (json option, approach_group) jsmap \<Rightarrow> attempt_record \<Rightarrow> (json option, approach_group) jsmap" where
  "group_attempt uptoSeq groups r =
     (let g = (case jm_get groups (ar_approachSig r) of
                 Some g \<Rightarrow> g
               | None \<Rightarrow> \<lparr> ag_approachTag = ar_approachTag r, ag_attempts = 0, ag_lastOutcome = None \<rparr>)
      in jm_set (ar_approachSig r)
           (g\<lparr> ag_attempts := ag_attempts g + 1,
               ag_lastOutcome := (if (case ar_outcomeSeq r of Some s \<Rightarrow> in_snapshot uptoSeq s | None \<Rightarrow> False)
                                  then ar_outcome r else ag_lastOutcome g) \<rparr>) groups)"

record lineage_stats =
  ls_attemptsUsed :: nat
  ls_escalationsUsed :: nat
  ls_stallStreak :: nat
  ls_approaches :: "(json option \<times> approach_group) list"

definition statsOf :: "lineage_index \<Rightarrow> string \<Rightarrow> nat option \<Rightarrow> lineage_stats" where
  "statsOf idx lt uptoSeq =
     \<lparr> ls_attemptsUsed = length (attemptsOf idx lt uptoSeq), ls_escalationsUsed = escalationsUsed idx lt uptoSeq,
       ls_stallStreak = stallStreak idx lt uptoSeq,
       ls_approaches = filter (\<lambda>(sig, g). ag_lastOutcome g \<noteq> None) (foldl (group_attempt uptoSeq) [] (attemptsOf idx lt uptoSeq)) \<rparr>"

definition knownLogicalTaskIds :: "lineage_index \<Rightarrow> ltid list" where
  "knownLogicalTaskIds idx = jm_keys (li_attemptsByLtid idx)"

end
