(* ===== verification/LineageFold.thy ===== *)
theory LineageFold
  imports Lineage
begin

text \<open>
  What the lineage index promises: addresses stay valid, the store and the counters only grow, and
  what is read under a snapshot pin does not move. The escalation counter is compared with a direct
  count over the journal. The tag normalizer is characterized by its normal forms.
\<close>

section \<open>Lists in maps\<close>

lemma list_at_push: "list_at (push_at k v m) k' = (if k' = k then list_at m k @ [v] else list_at m k')"
  by (simp add: list_at_def push_at_def jm_get_set)

lemma list_at_Nil [simp]: "list_at [] k = []"
  by (simp add: list_at_def)

lemma update_record_simps [simp]:
  "length (li_records (update_record i f idx)) = length (li_records idx)"
  "li_attemptsByLtid (update_record i f idx) = li_attemptsByLtid idx"
  "li_escalationsByLtid (update_record i f idx) = li_escalationsByLtid idx"
  "li_queueByScope (update_record i f idx) = li_queueByScope idx"
  "li_recordByRootSeq (update_record i f idx) = li_recordByRootSeq idx"
  "li_closedTargets (update_record i f idx) = li_closedTargets idx"
  "li_pendingAdmits (update_record i f idx) = li_pendingAdmits idx"
  "li_cursor (update_record i f idx) = li_cursor idx"
  by (simp_all add: update_record_def)

section \<open>Valid addresses and growth\<close>

definition addresses_valid :: "lineage_index \<Rightarrow> bool" where
  "addresses_valid idx \<longleftrightarrow>
     (\<forall>k. \<forall>i \<in> set (list_at (li_attemptsByLtid idx) k). i < length (li_records idx))
   \<and> (\<forall>s. \<forall>i \<in> set (list_at (li_queueByScope idx) s). i < length (li_records idx))
   \<and> (\<forall>q i. jm_get (li_recordByRootSeq idx) q = Some i \<longrightarrow> i < length (li_records idx))"

text \<open>
  One step of the fold after a cursor \<open>c\<close>: the store index_grows, a record keeps its task and its
  anchor, and what is added to a counter lies beyond the cursor.
\<close>

definition index_grows :: "nat option \<Rightarrow> lineage_index \<Rightarrow> lineage_index \<Rightarrow> bool" where
  "index_grows c idx idx' \<longleftrightarrow>
     length (li_records idx) \<le> length (li_records idx')
   \<and> (\<forall>i < length (li_records idx). ar_anchorSeq (li_records idx' ! i) = ar_anchorSeq (li_records idx ! i)
        \<and> ar_logicalTaskId (li_records idx' ! i) = ar_logicalTaskId (li_records idx ! i))
   \<and> (\<forall>k. \<exists>new. list_at (li_attemptsByLtid idx') k = list_at (li_attemptsByLtid idx) k @ new
        \<and> (\<forall>i \<in> set new. length (li_records idx) \<le> i \<and> i < length (li_records idx') \<and> beyond c (ar_anchorSeq (li_records idx' ! i))))
   \<and> (\<forall>lt. \<exists>new. list_at (li_escalationsByLtid idx') lt = list_at (li_escalationsByLtid idx) lt @ new
        \<and> (\<forall>s \<in> set new. beyond c s))"

lemma index_grows_refl [simp, intro]: "index_grows c idx idx"
  by (simp add: index_grows_def)

lemma index_grows_trans:
  assumes "index_grows c a b" "index_grows c b d"
  shows "index_grows c a d"
proof -
  have att: "\<exists>new. list_at (li_attemptsByLtid d) k = list_at (li_attemptsByLtid a) k @ new
      \<and> (\<forall>i \<in> set new. length (li_records a) \<le> i \<and> i < length (li_records d) \<and> beyond c (ar_anchorSeq (li_records d ! i)))" for k
  proof -
    obtain n1 where n1: "list_at (li_attemptsByLtid b) k = list_at (li_attemptsByLtid a) k @ n1"
      "\<forall>i \<in> set n1. length (li_records a) \<le> i \<and> i < length (li_records b) \<and> beyond c (ar_anchorSeq (li_records b ! i))"
      using assms(1) unfolding index_grows_def by blast
    obtain n2 where n2: "list_at (li_attemptsByLtid d) k = list_at (li_attemptsByLtid b) k @ n2"
      "\<forall>i \<in> set n2. length (li_records b) \<le> i \<and> i < length (li_records d) \<and> beyond c (ar_anchorSeq (li_records d ! i))"
      using assms(2) unfolding index_grows_def by blast
    have "length (li_records a) \<le> length (li_records b)" "length (li_records b) \<le> length (li_records d)"
      "\<forall>i < length (li_records b). ar_anchorSeq (li_records d ! i) = ar_anchorSeq (li_records b ! i)"
      using assms unfolding index_grows_def by blast+
    then have "\<forall>i \<in> set (n1 @ n2). length (li_records a) \<le> i \<and> i < length (li_records d) \<and> beyond c (ar_anchorSeq (li_records d ! i))"
      using n1(2) n2(2) by fastforce
    moreover have "list_at (li_attemptsByLtid d) k = list_at (li_attemptsByLtid a) k @ n1 @ n2" using n1(1) n2(1) by simp
    ultimately show ?thesis by blast
  qed
  have esc: "\<exists>new. list_at (li_escalationsByLtid d) lt = list_at (li_escalationsByLtid a) lt @ new \<and> (\<forall>s \<in> set new. beyond c s)" for lt
  proof -
    obtain n1 n2 where "list_at (li_escalationsByLtid b) lt = list_at (li_escalationsByLtid a) lt @ n1" "\<forall>s \<in> set n1. beyond c s"
      "list_at (li_escalationsByLtid d) lt = list_at (li_escalationsByLtid b) lt @ n2" "\<forall>s \<in> set n2. beyond c s"
      using assms unfolding index_grows_def by meson
    then show ?thesis by (intro exI [of _ "n1 @ n2"]) auto
  qed
  show ?thesis using assms att esc unfolding index_grows_def by fastforce
qed

lemma index_grows_update:
  assumes "\<And>r. ar_anchorSeq (f r) = ar_anchorSeq r" "\<And>r. ar_logicalTaskId (f r) = ar_logicalTaskId r"
  shows "index_grows c idx (update_record i f idx)"
proof -
  have at: "(li_records idx)[i := y] ! j = (if i = j then y else li_records idx ! j)" if "j < length (li_records idx)" for y j
    using that by (cases "i = j") auto
  show ?thesis using assms by (simp add: index_grows_def update_record_def at)
qed

lemma index_grows_register: "beyond c seq \<Longrightarrow> index_grows c idx (registerAttempt seq b sc idx)"
  by (auto simp: index_grows_def registerAttempt_def Let_def list_at_push nth_append)

lemma index_grows_escalation: "beyond c seq \<Longrightarrow> index_grows c idx (recordEscalation lt seq idx)"
  by (auto simp: index_grows_def recordEscalation_def list_at_push)

lemma index_grows_legacy: "beyond c (je_seq e) \<Longrightarrow> index_grows c idx (legacy_attempt sha numstr sc e idx)"
  by (auto simp: index_grows_def legacy_attempt_def Let_def list_at_push nth_append)

text \<open>Changes of the other members do not matter.\<close>

lemma index_grows_other [simp]:
  "index_grows c idx (idx'\<lparr> li_closedTargets := x \<rparr>) = index_grows c idx idx'"
  "index_grows c idx (idx'\<lparr> li_recordByRootSeq := y \<rparr>) = index_grows c idx idx'"
  "index_grows c idx (idx'\<lparr> li_pendingAdmits := p \<rparr>) = index_grows c idx idx'"
  "index_grows c idx (idx'\<lparr> li_cursor := z \<rparr>) = index_grows c idx idx'"
  "index_grows c (idx\<lparr> li_cursor := z \<rparr>) idx' = index_grows c idx idx'"
  by (simp_all add: index_grows_def)

lemma index_grows_foldl:
  assumes "\<And>i x. x \<in> set xs \<Longrightarrow> index_grows c i (f i x)"
  shows "index_grows c idx (foldl f idx xs)"
  using assms
proof (induction xs arbitrary: idx)
  case (Cons x xs)
  have "index_grows c idx (f idx x)" using Cons.prems by simp
  moreover have "index_grows c (f idx x) (foldl f (f idx x) xs)" by (rule Cons.IH) (simp add: Cons.prems)
  ultimately show ?case using index_grows_trans by simp
qed simp

text \<open>The pieces of the fold.\<close>

lemma outcome_keeps_place [simp]:
  "ar_anchorSeq (set_outcome out seq r) = ar_anchorSeq r" "ar_logicalTaskId (set_outcome out seq r) = ar_logicalTaskId r"
  "ar_anchorSeq (bind_record e r) = ar_anchorSeq r" "ar_logicalTaskId (bind_record e r) = ar_logicalTaskId r"
  by (simp_all add: set_outcome_def bind_record_def Let_def)

lemmas index_grows_outcome = index_grows_update [of "set_outcome out seq" for out seq, OF outcome_keeps_place(1,2)]
lemmas index_grows_bind = index_grows_update [of "bind_record e" for e, OF outcome_keeps_place(3,4)]

lemma index_grows_admissions: "beyond c (je_seq e) \<Longrightarrow> index_grows c idx (register_admissions sha numstr e idx)"
  unfolding register_admissions_def by (rule index_grows_foldl) (auto intro: index_grows_register)

lemma index_grows_record_all: "beyond c seq \<Longrightarrow> index_grows c idx (record_all lts seq idx)"
  unfolding record_all_def by (rule index_grows_foldl) (auto intro: index_grows_escalation)

lemma index_grows_decision:
  assumes "beyond c (je_seq e)"
  shows "index_grows c idx (absorbDecision sha numstr e idx)"
proof -
  have "index_grows c idx (absorb_spawn_admission sha numstr v (je_seq e) idx)" for v
    using index_grows_register [OF assms] by (auto simp: absorb_spawn_admission_def split: option.splits)
  moreover have "index_grows c idx (absorb_ladder_verdict v (je_seq e) idx)" for v
    using index_grows_register [OF assms] index_grows_outcome index_grows_trans [OF index_grows_outcome index_grows_register [OF assms]]
    by (auto simp: absorb_ladder_verdict_def Let_def split: option.splits)
  moreover have "index_grows c idx (absorb_escalation_decision sha numstr v e idx)" for v
    using index_grows_trans [OF index_grows_record_all [OF assms] index_grows_admissions [OF assms]] by (simp add: absorb_escalation_decision_def)
  ultimately show ?thesis by (auto simp: absorbDecision_def Let_def split: option.splits)
qed

lemma index_grows_bindRoot:
  assumes "beyond c (je_seq e)" "bindRoot sha numstr sc e idx = (i, idx')"
  shows "index_grows c idx idx'"
  using assms index_grows_bind [of c] index_grows_trans [OF index_grows_legacy [OF assms(1)] index_grows_bind]
  by (auto simp: bindRoot_def Let_def split: option.splits)

lemma index_grows_absorbEntry:
  assumes "beyond c (je_seq e)" "absorbEntry sha numstr e idx = (idx', res)"
  shows "index_grows c idx idx'"
proof -
  have settle: "index_grows c a b" if "settle_record numstr e i a = (b, r)" for a b i r
    using that index_grows_outcome by (auto simp: settle_record_def split: sum.splits)
  have spawn: "index_grows c idx b" if got: "absorbSpawnEntry sha numstr e idx = (b, r)" for b r
  proof (cases "je_ref e")
    case None
    obtain i idx1 where bind: "bindRoot sha numstr (slot_scope e) e idx = (i, idx1)" by fastforce
    then show ?thesis
      using got None settle index_grows_bindRoot [OF assms(1) bind] index_grows_trans by (auto simp: absorbSpawnEntry_def split: if_splits)
  next
    case (Some ref)
    then show ?thesis using got settle by (auto simp: absorbSpawnEntry_def split: option.splits)
  qed
  have "index_grows c idx (absorbResolution t e idx)" for t
    using index_grows_escalation [OF assms(1)] index_grows_trans [of c idx "idx\<lparr> li_closedTargets := t # li_closedTargets idx \<rparr>"]
    by (auto simp: absorbResolution_def Let_def split: option.splits)
  moreover have "index_grows c idx (absorbAbandon e idx)"
    using index_grows_outcome by (auto simp: absorbAbandon_def split: option.splits)
  ultimately show ?thesis
    using assms index_grows_decision [OF assms(1)] index_grows_admissions [OF assms(1)] spawn
    by (auto simp: absorbEntry_def split: if_splits)
qed

lemma beyond_trans: "beyond c s \<Longrightarrow> beyond (Some s) t \<Longrightarrow> beyond c t"
  by (auto simp: beyond_def split: option.splits)

lemma absorbEntry_cursor: "absorbEntry sha numstr e idx = (idx', res) \<Longrightarrow> li_cursor idx' = li_cursor idx"
proof -
  have reg: "li_cursor (registerAttempt s b sc i) = li_cursor i" for s b sc i by (simp add: registerAttempt_def Let_def)
  have fold: "li_cursor (foldl f i xs) = li_cursor i" if "\<And>i x. li_cursor (f i x) = li_cursor i" for f i and xs :: "'x list"
    using that by (induction xs arbitrary: i) simp_all
  have adm: "li_cursor (register_admissions sha numstr e i) = li_cursor i" for i
    unfolding register_admissions_def by (rule fold) (simp add: reg split: prod.splits)
  have esc: "li_cursor (recordEscalation lt s i) = li_cursor i" for lt s i by (simp add: recordEscalation_def)
  have all: "li_cursor (record_all lts s i) = li_cursor i" for lts s i
    unfolding record_all_def by (rule fold) (simp add: esc)
  have bind: "li_cursor b = li_cursor a" if "bindRoot sha numstr sc e a = (i, b)" for a b i sc
    using that by (auto simp: bindRoot_def legacy_attempt_def Let_def split: option.splits)
  have settle: "li_cursor b = li_cursor a" if "settle_record numstr e i a = (b, r)" for a b i r
    using that by (auto simp: settle_record_def split: sum.splits)
  have spawn: "li_cursor b = li_cursor idx" if "absorbSpawnEntry sha numstr e idx = (b, r)" for b r
    using that by (auto simp: absorbSpawnEntry_def split: option.splits prod.splits if_splits dest!: bind settle)
  have "li_cursor (absorb_spawn_admission sha numstr v s i) = li_cursor i" for v s i
    by (simp add: absorb_spawn_admission_def reg split: option.split)
  moreover have "li_cursor (absorb_ladder_verdict v s i) = li_cursor i" for v s i
    by (simp add: absorb_ladder_verdict_def Let_def reg split: option.split)
  ultimately have dec: "li_cursor (absorbDecision sha numstr e i) = li_cursor i" for i
    by (simp add: absorbDecision_def absorb_escalation_decision_def Let_def adm all split: option.split)
  have res: "li_cursor (absorbResolution t e i) = li_cursor i" for t i
    by (simp add: absorbResolution_def Let_def esc split: option.split)
  have aba: "li_cursor (absorbAbandon e i) = li_cursor i" for i
    by (simp add: absorbAbandon_def split: option.split)
  assume "absorbEntry sha numstr e idx = (idx', res)"
  then show ?thesis
    using spawn by (auto simp: absorbEntry_def adm dec res aba split: if_splits)
qed

text \<open>Absorbing only moves forward.\<close>

lemma absorb_grows:
  assumes "absorb sha numstr es idx = (idx', res)" "li_cursor idx = c"
  shows "index_grows c idx idx' \<and> (li_cursor idx' = c \<or> (\<exists>s. li_cursor idx' = Some s \<and> beyond c s))"
  using assms
proof (induction es arbitrary: idx c)
  case (Cons e es)
  show ?case
  proof (cases "beyond (li_cursor idx) (je_seq e)")
    case True
    obtain idx1 r1 where one: "absorbEntry sha numstr e (idx\<lparr> li_cursor := Some (je_seq e) \<rparr>) = (idx1, r1)" by fastforce
    have cur: "li_cursor idx1 = Some (je_seq e)" using absorbEntry_cursor [OF one] by simp
    have step: "index_grows c idx idx1" using index_grows_absorbEntry [OF _ one] True Cons.prems(2) by simp
    show ?thesis
    proof (cases r1)
      case (Inl err)
      then show ?thesis using Cons.prems True one step cur by auto
    next
      case (Inr u)
      then have "absorb sha numstr es idx1 = (idx', res)" using Cons.prems(1) True one by simp
      from Cons.IH [OF this cur] have rest: "index_grows (Some (je_seq e)) idx1 idx'"
        "li_cursor idx' = Some (je_seq e) \<or> (\<exists>s. li_cursor idx' = Some s \<and> beyond (Some (je_seq e)) s)" by auto
      have "index_grows c idx1 idx'"
        using rest(1) beyond_trans [of c "je_seq e"] True Cons.prems(2) unfolding index_grows_def by meson
      then show ?thesis using step rest(2) index_grows_trans beyond_trans True Cons.prems(2) by blast
    qed
  qed (use Cons in auto)
qed simp

section \<open>Addresses stay valid\<close>

lemma valid_update [simp]: "addresses_valid (update_record i f idx) = addresses_valid idx"
  by (simp add: addresses_valid_def)

lemma valid_other [simp]:
  "addresses_valid (idx\<lparr> li_closedTargets := x \<rparr>) = addresses_valid idx"
  "addresses_valid (idx\<lparr> li_pendingAdmits := p \<rparr>) = addresses_valid idx"
  "addresses_valid (idx\<lparr> li_cursor := z \<rparr>) = addresses_valid idx"
  "addresses_valid (idx\<lparr> li_escalationsByLtid := y \<rparr>) = addresses_valid idx"
  by (simp_all add: addresses_valid_def)

lemma valid_register [intro]: "addresses_valid idx \<Longrightarrow> addresses_valid (registerAttempt seq b sc idx)"
  by (cases sc) (fastforce simp: addresses_valid_def registerAttempt_def Let_def list_at_push less_Suc_eq)+

lemma valid_legacy: "addresses_valid idx \<Longrightarrow> addresses_valid (legacy_attempt sha numstr sc e idx)"
  by (fastforce simp: addresses_valid_def legacy_attempt_def Let_def list_at_push less_Suc_eq)

lemma valid_foldl:
  assumes "\<And>i x. addresses_valid i \<Longrightarrow> addresses_valid (f i x)" "addresses_valid idx"
  shows "addresses_valid (foldl f idx xs)"
  using assms(2) by (induction xs arbitrary: idx) (simp_all add: assms(1))

lemma valid_admissions [intro]: "addresses_valid idx \<Longrightarrow> addresses_valid (register_admissions sha numstr e idx)"
  unfolding register_admissions_def by (rule valid_foldl) auto

lemma valid_record_all [intro]: "addresses_valid idx \<Longrightarrow> addresses_valid (record_all lts seq idx)"
  unfolding record_all_def by (rule valid_foldl) (simp_all add: recordEscalation_def)

lemma valid_decision: "addresses_valid idx \<Longrightarrow> addresses_valid (absorbDecision sha numstr e idx)"
  by (auto simp: absorbDecision_def absorb_spawn_admission_def absorb_ladder_verdict_def absorb_escalation_decision_def Let_def
      intro!: valid_register valid_admissions valid_record_all split: option.split)

lemma slot_record_valid: "addresses_valid idx \<Longrightarrow> slot_record sc e idx = Some i \<Longrightarrow> i < length (li_records idx)"
proof -
  assume valid: "addresses_valid idx" and got: "slot_record sc e idx = Some i"
  have "i \<in> set (list_at (li_queueByScope idx) sc)"
    using got by (auto simp: slot_record_def Let_def split: option.splits dest: find_Some_in)
  then show ?thesis using valid by (simp add: addresses_valid_def)
qed

lemma valid_bindRoot:
  assumes "addresses_valid idx" "bindRoot sha numstr sc e idx = (i, idx')"
  shows "addresses_valid idx' \<and> i < length (li_records idx')"
proof -
  have put: "addresses_valid (a\<lparr> li_recordByRootSeq := jm_set (je_seq e) j (li_recordByRootSeq a) \<rparr>)"
    if "addresses_valid a" "j < length (li_records a)" for a j
    using that by (auto simp: addresses_valid_def jm_get_set)
  have new: "length (li_records idx) < length (li_records (legacy_attempt sha numstr sc e idx))"
    by (simp add: legacy_attempt_def Let_def)
  show ?thesis
  proof (cases "slot_record sc e idx")
    case None
    then show ?thesis
      using assms put [of "update_record (length (li_records idx)) (bind_record e) (legacy_attempt sha numstr sc e idx)"] new
        valid_legacy [OF assms(1)] by (auto simp: bindRoot_def Let_def)
  next
    case (Some j)
    then show ?thesis
      using assms put [of "update_record j (bind_record e) idx"] slot_record_valid [OF assms(1) Some] by (auto simp: bindRoot_def Let_def)
  qed
qed

lemma valid_absorbEntry:
  assumes "addresses_valid idx" "absorbEntry sha numstr e idx = (idx', res)"
  shows "addresses_valid idx'"
proof -
  have settle: "addresses_valid b = addresses_valid a" if "settle_record numstr e i a = (b, r)" for a b i r
    using that by (auto simp: settle_record_def split: sum.splits)
  have spawn: "addresses_valid b" if got: "absorbSpawnEntry sha numstr e idx = (b, r)" for b r
  proof (cases "je_ref e")
    case None
    obtain i idx1 where bind: "bindRoot sha numstr (slot_scope e) e idx = (i, idx1)" by fastforce
    then show ?thesis
      using got None settle valid_bindRoot [OF assms(1) bind] by (auto simp: absorbSpawnEntry_def split: if_splits)
  next
    case (Some ref)
    then show ?thesis using got settle assms(1) by (auto simp: absorbSpawnEntry_def split: option.splits)
  qed
  have "addresses_valid (absorbResolution t e idx)" for t
    using assms(1) by (auto simp: absorbResolution_def Let_def recordEscalation_def split: option.splits)
  moreover have "addresses_valid (absorbAbandon e idx)"
    using assms(1) by (auto simp: absorbAbandon_def split: option.splits)
  ultimately show ?thesis
    using assms valid_decision [OF assms(1)] valid_admissions [OF assms(1)] spawn
    by (auto simp: absorbEntry_def split: if_splits)
qed

lemma valid_absorb: "addresses_valid idx \<Longrightarrow> absorb sha numstr es idx = (idx', res) \<Longrightarrow> addresses_valid idx'"
proof (induction es arbitrary: idx)
  case (Cons e es)
  obtain idx1 r1 where one: "absorbEntry sha numstr e (idx\<lparr> li_cursor := Some (je_seq e) \<rparr>) = (idx1, r1)" by fastforce
  have "addresses_valid idx1" using valid_absorbEntry [OF _ one] Cons.prems(1) by simp
  then show ?case using Cons one by (auto split: if_splits sum.splits)
qed simp

section \<open>Pinned reads\<close>

inductive lineage_run :: "(string \<Rightarrow> string) \<Rightarrow> (rat \<Rightarrow> string) \<Rightarrow> lineage_index \<Rightarrow> bool"
  for sha numstr where
  lineage_start: "lineage_run sha numstr new_lineage_index"
| lineage_note: "lineage_run sha numstr idx \<Longrightarrow> lineage_run sha numstr (noteAdmitted lt idx)"
| lineage_absorb: "lineage_run sha numstr idx \<Longrightarrow> absorb sha numstr es idx = (idx', res) \<Longrightarrow> lineage_run sha numstr idx'"

lemma run_valid: "lineage_run sha numstr idx \<Longrightarrow> addresses_valid idx"
proof (induction rule: lineage_run.induct)
  case lineage_start
  show ?case by (simp add: addresses_valid_def new_lineage_index_def)
next
  case (lineage_note idx lt)
  then show ?case by (simp add: noteAdmitted_def)
next
  case (lineage_absorb idx es idx' res)
  then show ?case using valid_absorb by blast
qed

lemma index_grows_pinned:
  assumes "index_grows (Some c) idx idx'" "addresses_valid idx" "u \<le> c"
  shows "attemptsUsed idx' lt (Some u) = attemptsUsed idx lt (Some u)"
    and "escalationsUsed idx' lt (Some u) = escalationsUsed idx lt (Some u)"
proof -
  obtain new where new: "list_at (li_attemptsByLtid idx') (Some (JStr lt)) = list_at (li_attemptsByLtid idx) (Some (JStr lt)) @ new"
    "\<forall>i \<in> set new. beyond (Some c) (ar_anchorSeq (li_records idx' ! i))"
    using assms(1) unfolding index_grows_def by blast
  have late: "\<not> in_snapshot (Some u) s" if "beyond (Some c) s" for s
    using that assms(3) by (simp add: beyond_def in_snapshot_def)
  have "filter (\<lambda>i. in_snapshot (Some u) (ar_anchorSeq (li_records idx' ! i))) new = []"
    using new(2) late by (simp add: filter_empty_conv)
  moreover have "filter (\<lambda>i. in_snapshot (Some u) (ar_anchorSeq (li_records idx' ! i))) old
      = filter (\<lambda>i. in_snapshot (Some u) (ar_anchorSeq (li_records idx ! i))) old"
    if "old = list_at (li_attemptsByLtid idx) (Some (JStr lt))" for old
    using that assms(1,2) by (intro filter_cong) (auto simp: index_grows_def addresses_valid_def)
  ultimately show "attemptsUsed idx' lt (Some u) = attemptsUsed idx lt (Some u)"
    using new(1) by (simp add: attemptsUsed_def attemptsOf_def filter_map o_def)
  obtain ev where "list_at (li_escalationsByLtid idx') lt = list_at (li_escalationsByLtid idx) lt @ ev" "\<forall>s \<in> set ev. beyond (Some c) s"
    using assms(1) unfolding index_grows_def by blast
  then show "escalationsUsed idx' lt (Some u) = escalationsUsed idx lt (Some u)"
    using late by (simp add: escalationsUsed_def filter_empty_conv)
qed

section \<open>Counting escalations\<close>

text \<open>
  The reference: which tasks an entry debits, given the targets closed before it, and the sum over a
  journal.
\<close>

definition closes :: "journal_entry \<Rightarrow> nat set" where
  "closes e = (if je_kind e = K_resolution then set_option (je_ref e) else {})"

definition debited :: "nat set \<Rightarrow> journal_entry \<Rightarrow> string list" where
  "debited earlier e =
     (if je_kind e = K_decision then
        (case asRecord (je_value e) of
           Some v \<Rightarrow> if readString v ''decisionType'' = Some ''escalation-decision'' then escalation_tasks v else []
         | None \<Rightarrow> [])
      else if closes e \<noteq> {} \<and> closes e \<inter> earlier = {} then (case resolution_debit e of Some lt \<Rightarrow> [lt] | None \<Rightarrow> [])
      else [])"

definition escalation_count :: "string \<Rightarrow> nat option \<Rightarrow> journal_entry list \<Rightarrow> nat" where
  "escalation_count lt u es =
     (\<Sum>i < length es. if in_snapshot u (je_seq (es ! i))
        then count_list (debited (\<Union>(closes ` set (take i es))) (es ! i)) lt else 0)"

lemma escalation_count_snoc:
  "escalation_count lt u (es @ [e]) = escalation_count lt u es
     + (if in_snapshot u (je_seq e) then count_list (debited (\<Union>(closes ` set es)) e) lt else 0)"
proof -
  have "(\<Sum>i < length es. if in_snapshot u (je_seq ((es @ [e]) ! i))
        then count_list (debited (\<Union>(closes ` set (take i (es @ [e])))) ((es @ [e]) ! i)) lt else 0) = escalation_count lt u es"
    unfolding escalation_count_def by (rule sum.cong) (simp_all add: nth_append)
  then show ?thesis by (simp add: escalation_count_def)
qed

text \<open>What one entry does to the two members the count reads.\<close>

definition same_debits :: "lineage_index \<Rightarrow> lineage_index \<Rightarrow> bool" where
  "same_debits a b \<longleftrightarrow> li_escalationsByLtid b = li_escalationsByLtid a \<and> li_closedTargets b = li_closedTargets a"

lemma same_debits_ops:
  "same_debits idx (registerAttempt s b sc idx)" "same_debits idx (update_record i f idx)"
  "same_debits idx (legacy_attempt sha numstr slot e idx)" "same_debits idx idx"
  by (simp_all add: same_debits_def registerAttempt_def legacy_attempt_def Let_def)

lemma same_debits_trans: "same_debits a b \<Longrightarrow> same_debits b c \<Longrightarrow> same_debits a c"
  by (simp add: same_debits_def)

lemma same_debits_admissions: "same_debits idx (register_admissions sha numstr e idx)"
proof -
  have "same_debits i (foldl (\<lambda>i (sc, b). registerAttempt (je_seq e) b (Some sc) i) i xs)" for i xs
    by (induction xs arbitrary: i) (auto intro: same_debits_trans same_debits_ops)
  then show ?thesis by (simp add: register_admissions_def)
qed

lemma record_all_effect:
  "list_at (li_escalationsByLtid (record_all lts s idx)) lt = list_at (li_escalationsByLtid idx) lt @ replicate (count_list lts lt) s"
  "li_closedTargets (record_all lts s idx) = li_closedTargets idx"
  unfolding record_all_def
  by (induction lts arbitrary: idx) (simp_all add: recordEscalation_def list_at_push replicate_append_same)

lemma same_debits_spawn:
  assumes "absorbSpawnEntry sha numstr e idx = (idx', res)"
  shows "same_debits idx idx'"
proof -
  have settle: "same_debits a b" if "settle_record numstr e i a = (b, r)" for a b i r
    using that same_debits_ops by (auto simp: settle_record_def split: sum.splits)
  have bind: "same_debits a b" if "bindRoot sha numstr sc e a = (i, b)" for a b i sc
    using that by (auto simp: bindRoot_def Let_def same_debits_def legacy_attempt_def split: option.splits)
  obtain i idx1 where b: "bindRoot sha numstr (slot_scope e) e idx = (i, idx1)" by fastforce
  show ?thesis
    using assms settle same_debits_trans [OF bind [OF b] settle] bind [OF b] b same_debits_ops(4)
    by (auto simp: absorbSpawnEntry_def split: option.splits if_splits)
qed

lemma absorbEntry_debits:
  assumes "absorbEntry sha numstr e idx = (idx', res)"
  shows "list_at (li_escalationsByLtid idx') lt
      = list_at (li_escalationsByLtid idx) lt @ replicate (count_list (debited (set (li_closedTargets idx)) e) lt) (je_seq e)
    \<and> set (li_closedTargets idx') = set (li_closedTargets idx) \<union> closes e"
proof -
  consider (decision) "je_kind e = K_decision" | (closing) t where "je_kind e = K_resolution" "je_ref e = Some t"
    | (other) "je_kind e \<noteq> K_decision" "closes e = {}"
    by (cases "je_ref e"; cases "je_kind e = K_resolution"; cases "je_kind e = K_decision") (simp_all add: closes_def)
  then show ?thesis
  proof cases
    case decision
    note that = decision
    show ?thesis
  proof (cases "asRecord (je_value e)")
    case (Some v)
    show ?thesis
    proof (cases "readString v ''decisionType'' = Some ''escalation-decision''")
      case True
      have "idx' = absorb_escalation_decision sha numstr v e idx"
        using assms that Some True by (simp add: absorbEntry_def absorbDecision_def Let_def)
      then show ?thesis
        using same_debits_admissions [of "record_all (escalation_tasks v) (je_seq e) idx" sha numstr e] that Some True
        by (auto simp: absorb_escalation_decision_def escalation_tasks_def same_debits_def record_all_effect debited_def closes_def)
    next
      case False
      have "same_debits idx (absorb_spawn_admission sha numstr v (je_seq e) idx)"
        using same_debits_ops by (auto simp: absorb_spawn_admission_def split: option.split)
      moreover have "same_debits idx (absorb_ladder_verdict v (je_seq e) idx)"
        using same_debits_ops same_debits_trans [OF same_debits_ops(2) same_debits_ops(1)]
        by (auto simp: absorb_ladder_verdict_def Let_def split: option.split)
      ultimately have "same_debits idx idx'"
        using assms that Some False same_debits_ops(4) by (auto simp: absorbEntry_def absorbDecision_def Let_def split: if_splits)
      then show ?thesis using that Some False by (simp add: same_debits_def debited_def closes_def)
    qed
  qed (use assms that in \<open>auto simp: absorbEntry_def absorbDecision_def debited_def closes_def\<close>)
  next
    case closing
    then have "idx' = absorbResolution t e idx" using assms by (simp add: absorbEntry_def)
    moreover have "closes e = {t}" using closing by (simp add: closes_def)
    ultimately show ?thesis using closing
      by (cases "t \<in> set (li_closedTargets idx)"; cases "resolution_debit e")
        (auto simp: absorbResolution_def Let_def debited_def recordEscalation_def list_at_push)
  next
    case other
    have "same_debits idx (absorbAbandon e idx)"
      using same_debits_ops by (auto simp: absorbAbandon_def split: option.splits)
    then have "same_debits idx idx'"
      using assms other same_debits_spawn same_debits_admissions same_debits_ops(4)
      by (auto simp: absorbEntry_def closes_def split: if_splits)
    then show ?thesis using other by (simp add: same_debits_def debited_def)
  qed
qed

section \<open>Snapshots of a journal\<close>

lemma absorb_append:
  "absorb sha numstr (xs @ ys) idx =
     (case absorb sha numstr xs idx of (i, Inl err) \<Rightarrow> (i, Inl err) | (i, Inr _) \<Rightarrow> absorb sha numstr ys i)"
  by (induction xs arbitrary: idx) (auto split: prod.split sum.split)

lemma absorb_seen: "\<forall>e \<in> set xs. \<not> beyond (li_cursor idx) (je_seq e) \<Longrightarrow> absorb sha numstr xs idx = (idx, Inr ())"
  by (induction xs) simp_all

definition classifiable :: "(rat \<Rightarrow> string) \<Rightarrow> journal_entry \<Rightarrow> bool" where
  "classifiable numstr e \<longleftrightarrow> (\<exists>out. classifyAttemptOutcome numstr e = Inr out)"

lemma absorbEntry_total: "classifiable numstr e \<Longrightarrow> \<exists>idx'. absorbEntry sha numstr e idx = (idx', Inr ())"
  by (auto simp: classifiable_def absorbEntry_def absorbSpawnEntry_def settle_record_def split: option.split prod.split)

text \<open>One pass over a journal: its last position is the cursor and its debits are counted.\<close>

lemma absorb_journal:
  assumes "sorted_wrt (<) (map je_seq es)" "\<forall>e \<in> set es. classifiable numstr e"
  shows "\<exists>idx. absorb sha numstr es new_lineage_index = (idx, Inr ())
      \<and> li_cursor idx = (if es = [] then None else Some (je_seq (last es)))
      \<and> set (li_closedTargets idx) = \<Union>(closes ` set es)
      \<and> (\<forall>lt u. escalationsUsed idx lt u = escalation_count lt u es)"
  using assms
proof (induction es rule: rev_induct)
  case Nil
  show ?case by (simp add: new_lineage_index_def escalationsUsed_def escalation_count_def)
next
  case (snoc e es)
  from snoc obtain idx where idx: "absorb sha numstr es new_lineage_index = (idx, Inr ())"
    "li_cursor idx = (if es = [] then None else Some (je_seq (last es)))" "set (li_closedTargets idx) = \<Union>(closes ` set es)"
    "\<And>lt u. escalationsUsed idx lt u = escalation_count lt u es" by (auto simp: sorted_wrt_append)
  let ?idx = "idx\<lparr> li_cursor := Some (je_seq e) \<rparr>"
  obtain idx' where e: "absorbEntry sha numstr e ?idx = (idx', Inr ())" using absorbEntry_total snoc.prems(2) by force
  have "beyond (li_cursor idx) (je_seq e)"
    using idx(2) snoc.prems(1) by (auto simp: beyond_def sorted_wrt_append)
  then have "absorb sha numstr (es @ [e]) new_lineage_index = (idx', Inr ())"
    using idx(1) e by (simp add: absorb_append)
  moreover have "escalationsUsed idx' lt u = escalation_count lt u (es @ [e])" for lt u
    using absorbEntry_debits [OF e, of lt] idx(3,4)
    by (simp add: escalationsUsed_def escalation_count_snoc filter_replicate)
  ultimately show ?case using absorbEntry_cursor [OF e] absorbEntry_debits [OF e] idx(3) by auto
qed

lemma absorb_snapshot:
  assumes "sorted_wrt (<) (map je_seq es)" "\<forall>e \<in> set es. classifiable numstr e"
  shows "absorb sha numstr (take m es) (fst (absorb sha numstr (take n es) new_lineage_index))
    = absorb sha numstr (take (max n m) es) new_lineage_index"
proof -
  have pre: "sorted_wrt (<) (map je_seq (take j es))" "\<forall>e \<in> set (take j es). classifiable numstr e" for j
    using assms by (auto simp: take_map [symmetric] sorted_wrt_take dest: in_set_takeD)
  obtain idx where idx: "absorb sha numstr (take n es) new_lineage_index = (idx, Inr ())"
    "li_cursor idx = (if take n es = [] then None else Some (je_seq (last (take n es))))"
    using absorb_journal [OF pre] by blast
  have seen: "\<forall>e \<in> set (take j es). \<not> beyond (li_cursor idx) (je_seq e)" if "j \<le> n" for j
  proof
    fix e assume "e \<in> set (take j es)"
    then have mem: "e \<in> set (take n es)" using set_take_subset_set_take [OF that, of es] by blast
    then obtain ys z where ys: "take n es = ys @ [z]" by (cases "take n es" rule: rev_cases) auto
    have "je_seq e \<le> je_seq (last (take n es))"
      using mem pre(1) [of n] unfolding ys by (auto simp: sorted_wrt_append)
    moreover have "li_cursor idx = Some (je_seq (last (take n es)))"
      using idx(2) ys by (metis append_is_Nil_conv list.distinct(1))
    ultimately show "\<not> beyond (li_cursor idx) (je_seq e)" by (simp add: beyond_def)
  qed
  show ?thesis
  proof (cases "m \<le> n")
    case True
    then show ?thesis using idx seen absorb_seen by (simp add: max_def)
  next
    case False
    then have "take m es = take n es @ drop n (take m es)" by (metis append_take_drop_id min.absorb1 nat_le_linear take_take)
    then have "absorb sha numstr (take m es) i = (case absorb sha numstr (take n es) i of
        (i, Inl err) \<Rightarrow> (i, Inl err) | (i, Inr _) \<Rightarrow> absorb sha numstr (drop n (take m es)) i)" for i
      by (metis absorb_append)
    then show ?thesis using idx(1) absorb_seen [OF seen [OF order_refl]] False by (simp add: max_def)
  qed
qed

section \<open>Normal forms of tags\<close>

fun no_double :: "string \<Rightarrow> bool" where
  "no_double (c # d # cs) = (\<not> (c = CHR ''-'' \<and> d = CHR ''-'') \<and> no_double (d # cs))"
| "no_double _ = True"

definition tag_ok :: "string \<Rightarrow> bool" where
  "tag_ok t \<longleftrightarrow> t \<noteq> [] \<and> length t \<le> 32 \<and> list_all (\<lambda>c. alnum_char c \<or> c = CHR ''-'') t \<and> no_double t"

lemma no_double_Cons: "no_double (c # cs) \<longleftrightarrow> (c = CHR ''-'' \<longrightarrow> cs = [] \<or> hd cs \<noteq> CHR ''-'') \<and> no_double cs"
  by (cases cs) auto

lemma no_double_take: "no_double cs \<Longrightarrow> no_double (take n cs)"
proof (induction cs arbitrary: n)
  case (Cons c cs)
  show ?case
  proof (cases n)
    case (Suc m)
    have "take m cs = [] \<or> hd (take m cs) = hd cs" by (cases m; cases cs) simp_all
    then show ?thesis using Cons Suc by (auto simp: no_double_Cons simp del: take_eq_Nil)
  qed simp
qed simp

lemma hyphen_no_alnum: "\<not> alnum_char CHR ''-''"
  by (simp add: alnum_char_def less_eq_char_simp)

lemma collapse_chars: "list_all (\<lambda>c. alnum_char c \<or> c = CHR ''-'') (collapse_runs s)"
  by (induction s rule: collapse_runs.induct) simp_all

lemma collapse_dropped:
  "collapse_runs (dropWhile (\<lambda>d. \<not> alnum_char d) cs) = []
    \<or> alnum_char (hd (collapse_runs (dropWhile (\<lambda>d. \<not> alnum_char d) cs)))"
proof (cases "dropWhile (\<lambda>d. \<not> alnum_char d) cs")
  case (Cons c rest)
  then have "alnum_char c" by (metis dropWhile_eq_Cons_conv)
  then show ?thesis using Cons by simp
next
  case Nil
  show ?thesis unfolding Nil by simp
qed

lemma collapse_no_double: "no_double (collapse_runs s)"
proof (induction s rule: collapse_runs.induct)
  case (2 c cs)
  show ?case
  proof (cases "alnum_char c")
    case True
    then show ?thesis using 2(1) hyphen_no_alnum by (auto simp: no_double_Cons)
  next
    case False
    then show ?thesis using 2(2) collapse_dropped [of cs] hyphen_no_alnum by (auto simp: no_double_Cons)
  qed
qed simp

lemma collapse_fixed: "list_all (\<lambda>c. alnum_char c \<or> c = CHR ''-'') s \<Longrightarrow> no_double s \<Longrightarrow> collapse_runs s = s"
proof (induction s)
  case (Cons c s)
  have "dropWhile (\<lambda>d. \<not> alnum_char d) s = s" if "\<not> alnum_char c"
    using Cons.prems that by (cases s) auto
  then show ?case using Cons by (auto simp: no_double_Cons)
qed simp

lemma lower_fixed: "alnum_char c \<or> c = CHR ''-'' \<Longrightarrow> lower_char c = c"
  by (auto simp: lower_char_def alnum_char_def less_eq_char_def)

section \<open>The contract\<close>

text \<open>
  C30. Approach tags are typed. Whatever a model proposes, the normalized tag is a nonempty string of
  at most 32 lowercase letters, digits and single hyphens, and exactly such strings are left alone, so
  normalizing twice changes nothing.
\<close>

theorem tag_normal_form:
  "tag_ok (normalizeApproachTag raw) \<and> (tag_ok t \<longrightarrow> normalizeApproachTag (Some t) = t)"
proof -
  let ?c = "collapse_runs (map lower_char (case raw of Some s \<Rightarrow> s | None \<Rightarrow> ''''))"
  have "list_all (\<lambda>c. alnum_char c \<or> c = CHR ''-'') (take 32 ?c)"
    using collapse_chars [of "map lower_char (case raw of Some s \<Rightarrow> s | None \<Rightarrow> '''')"] by (auto simp: list_all_iff dest: in_set_takeD)
  moreover have "tag_ok ''default''" by (simp add: tag_ok_def alnum_char_def less_eq_char_simp)
  ultimately have ok: "tag_ok (normalizeApproachTag raw)"
    using no_double_take [OF collapse_no_double, of 32] by (auto simp: normalizeApproachTag_def tag_ok_def Let_def)
  have "normalizeApproachTag (Some t) = t" if "tag_ok t"
  proof -
    have "map lower_char t = t" using that lower_fixed by (auto simp: tag_ok_def list_all_iff intro: map_idI)
    then show ?thesis using that collapse_fixed by (simp add: normalizeApproachTag_def tag_ok_def)
  qed
  then show ?thesis using ok by blast
qed

theorem tag_normal_form_witness: "normalizeApproachTag (Some ''try-sql'') = ''try-sql''"
  using tag_normal_form [of None "''try-sql''"] by (simp add: tag_ok_def alnum_char_def less_eq_char_simp)

text \<open>
  C28. Pinned counters do not move. A read of the attempts or the escalations of a task pinned at or
  before the last absorbed entry gives the same number after any later absorption.
\<close>

theorem lineage_pinned:
  assumes "lineage_run sha numstr idx" "li_cursor idx = Some c" "u \<le> c" "absorb sha numstr es idx = (idx', res)"
  shows "attemptsUsed idx' lt (Some u) = attemptsUsed idx lt (Some u)
    \<and> escalationsUsed idx' lt (Some u) = escalationsUsed idx lt (Some u)"
  using index_grows_pinned [OF _ run_valid [OF assms(1)] assms(3)] absorb_grows [OF assms(4,2)] by blast

text \<open>A task that is admitted, dispatched, fails, and is dispatched again.\<close>

definition demo_lineage :: json where
  "demo_lineage = JObj [(''logicalTaskId'', JStr ''T''), (''relation'', JStr ''first''), (''approachSig'', JStr ''g''),
     (''approachSigCoarse'', JStr ''h''), (''approachTag'', JStr ''default'')]"

definition demo_admit_entry :: journal_entry where
  "demo_admit_entry = (bare_entry 2 0 '''' ''d'' 0 K_decision S_ok ''t'')\<lparr>
     je_value := Some (JObj [(''decisionType'', JStr ''spawn-admission''), (''lineage'', demo_lineage), (''childScope'', JStr ''s'')]) \<rparr>"

definition demo_dispatch :: "nat \<Rightarrow> journal_entry" where
  "demo_dispatch q = bare_entry 2 q ''s'' ''k'' 0 K_agent S_running ''t''"

definition demo_failure :: "nat \<Rightarrow> nat \<Rightarrow> journal_entry" where
  "demo_failure q ref = (bare_entry 2 q ''s'' ''k'' 0 K_agent S_error ''t'')\<lparr> je_ref := Some ref \<rparr>"

lemmas demo_lineage_defs = demo_lineage_def demo_admit_entry_def demo_dispatch_def demo_failure_def bare_entry_def

lemmas absorb_eval = beyond_def absorbEntry_def absorbDecision_def absorb_spawn_admission_def absorb_ladder_verdict_def
  absorb_escalation_decision_def escalation_tasks_def absorbSpawnEntry_def bindRoot_def slot_record_def slot_scope_def bind_record_def
  settle_record_def set_outcome_def classifyAttemptOutcome_def registerAttempt_def update_record_def signed_block_def block_of_def
  readString_def land_pending_def list_at_def push_at_def new_lineage_index_def

definition demo_record :: attempt_record where
  "demo_record = \<lparr> ar_logicalTaskId = Some (JStr ''T''), ar_relation = Some (JStr ''first''), ar_approachSig = Some (JStr ''g''),
     ar_approachSigCoarse = Some (JStr ''h''), ar_approachTag = Some (JStr ''default''), ar_decisionSeq = Some 0, ar_childScope = Some ''s'',
     ar_boundKey = None, ar_lastRootSeq = None, ar_outcome = None, ar_outcomeSeq = None, ar_anchorSeq = 0 \<rparr>"

definition demo_index :: "attempt_record \<Rightarrow> (nat, nat) jsmap \<Rightarrow> nat \<Rightarrow> lineage_index" where
  "demo_index r roots c = \<lparr> li_records = [r], li_attemptsByLtid = [(Some (JStr ''T''), [0])], li_escalationsByLtid = [],
     li_queueByScope = [(''s'', [0])], li_recordByRootSeq = roots, li_closedTargets = [], li_pendingAdmits = [], li_cursor = Some c \<rparr>"

lemma demo_absorb_admit: "absorb sha numstr (demo_admit_entry # es) new_lineage_index = absorb sha numstr es (demo_index demo_record [] 0)"
  by (simp add: absorb_eval demo_lineage_defs demo_index_def demo_record_def)

definition demo_failed :: attempt_record where
  "demo_failed = demo_record\<lparr> ar_boundKey := Some ''k'', ar_lastRootSeq := Some 1, ar_outcome := Some Out_task_error, ar_outcomeSeq := Some 2 \<rparr>"

lemma demo_absorb_failed:
  "absorb sha numstr [demo_admit_entry, demo_dispatch 1, demo_failure 2 1] new_lineage_index = (demo_index demo_failed [(1, 0)] 2, Inr ())"
  unfolding demo_absorb_admit
  by (simp add: absorb_eval demo_lineage_defs demo_index_def demo_record_def demo_failed_def)

theorem lineage_pinned_witness:
  "attemptsUsed (fst (absorb id (\<lambda>_. '''') [demo_dispatch 3] (demo_index demo_failed [(1, 0)] 2))) ''T'' (Some 2) = 1"
proof -
  have "lineage_run id (\<lambda>_. '''') (demo_index demo_failed [(1, 0)] 2)"
    using lineage_absorb [OF lineage_start demo_absorb_failed] by blast
  from lineage_pinned [OF this _ _ surjective_pairing, of 2 2 "[demo_dispatch 3]" "''T''"] show ?thesis
    by (simp add: demo_index_def attemptsUsed_def attemptsOf_def list_at_def in_snapshot_def demo_failed_def demo_record_def)
qed

text \<open>
  The stall streak and the outcomes of the statistics are not pinned: a later dispatch of the same slot
  erases the outcome the snapshot had seen.
\<close>

lemma stall_streak_unpinned:
  "stallStreak (demo_index demo_failed [(1, 0)] 2) ''T'' (Some 2) = 1
   \<and> stallStreak (fst (absorb sha numstr [demo_dispatch 3] (demo_index demo_failed [(1, 0)] 2))) ''T'' (Some 2) = 0"
  by (simp add: absorb_eval demo_lineage_defs demo_index_def demo_record_def demo_failed_def stallStreak_def attemptsOf_def
      in_snapshot_def settled_outcome_def STALLING_OUTCOMES_def)

text \<open>
  C27. Escalations are counted exactly. However the growing journal is presented, in overlapping
  snapshots of any lengths and order, the counter of a task is the number of debits of the journal seen so far:
  one for each debit of a counting escalation decision and one for each counting resolution that is
  the first on its target and does not belong to a class decision, which debits by itself.
\<close>

theorem escalations_exact:
  assumes "sorted_wrt (<) (map je_seq es)" "\<forall>e \<in> set es. classifiable numstr e"
  shows "escalationsUsed (foldl (\<lambda>idx n. fst (absorb sha numstr (take n es) idx)) new_lineage_index ns) lt u
    = escalation_count lt u (take (fold max ns 0) es)"
proof -
  have state: "foldl (\<lambda>idx n. fst (absorb sha numstr (take n es) idx)) (fst (absorb sha numstr (take m es) new_lineage_index)) ns
      = fst (absorb sha numstr (take (fold max ns m) es) new_lineage_index)" for m
    by (induction ns arbitrary: m) (simp_all add: absorb_snapshot [OF assms] max.commute)
  let ?seen = "take (fold max ns 0) es"
  have "sorted_wrt (<) (map je_seq ?seen)" "\<forall>e \<in> set ?seen. classifiable numstr e"
    using assms by (auto simp: take_map [symmetric] sorted_wrt_take dest: in_set_takeD)
  from absorb_journal [OF this, of sha] show ?thesis using state [of 0] by auto
qed

definition demo_escalation :: journal_entry where
  "demo_escalation = (bare_entry 2 0 '''' ''d'' 0 K_decision S_ok ''t'')\<lparr>
     je_value := Some (JObj [(''decisionType'', JStr ''escalation-decision''), (''countsAgainstLimit'', JBool True),
                             (''logicalTaskId'', JStr ''T'')]) \<rparr>"

definition demo_closing :: "nat \<Rightarrow> journal_entry" where
  "demo_closing q = (bare_entry 2 q '''' ''r'' 0 K_resolution S_ok ''t'')\<lparr> je_ref := Some 0,
     je_resolution := Some \<lparr> rp_target = 0, rp_by = By_operator, rp_value = JNull, rp_decisionRef = None,
       rp_logicalTaskId = Some ''T'', rp_countsAgainstLimit = Some True \<rparr> \<rparr>"

lemma demo_debits:
  "debited earlier demo_escalation = [''T'']" "debited earlier (demo_closing q) = (if 0 \<in> earlier then [] else [''T''])"
  "closes demo_escalation = {}" "closes (demo_closing q) = {0}" "je_seq demo_escalation = 0" "je_seq (demo_closing q) = q"
  by (simp_all add: demo_escalation_def demo_closing_def bare_entry_def debited_def closes_def escalation_tasks_def readString_def
      resolution_debit_def List.map_filter_def)

theorem escalations_exact_witness:
  "escalationsUsed (foldl (\<lambda>idx n. fst (absorb id (\<lambda>_. '''') (take n [demo_escalation, demo_closing 1, demo_closing 2]) idx))
     new_lineage_index [2, 1, 3]) ''T'' None = 2"
proof -
  let ?es = "[demo_escalation, demo_closing 1, demo_closing 2]"
  have "sorted_wrt (<) (map je_seq ?es)" "\<forall>e \<in> set ?es. classifiable (\<lambda>_. '''') e"
    by (simp_all add: demo_escalation_def demo_closing_def bare_entry_def classifiable_def classifyAttemptOutcome_def)
  note exact = escalations_exact [OF this, of id "[2, 1, 3]" "''T''" None]
  have "fold max [2, 1, 3] 0 = (3 :: nat)" by simp
  then have "escalation_count ''T'' None (take (fold max [2, 1, 3] 0) ?es) = 2"
    by (simp add: escalation_count_def numeral_3_eq_3 demo_debits in_snapshot_def)
  then show ?thesis unfolding exact .
qed

end
