(* ===== verification/SpawnAdmission.thy ===== *)
theory SpawnAdmission
  imports LineageFold Scope TerminationAccount BudgetClaims
begin

text \<open>
  Admission of spawns, \<open>packages/core/src/orchestrator/admission.ts\<close>, from \<open>spawnDepthOf\<close> to the end of
  the controller. The controller works on the run budget, the lineage index and the termination
  account, which are members of its state here; the journal view is an argument of the calls that read
  it, and \<open>mint\<close> numbers the identifiers the engine mints. Of a verdict that reuses or grafts only
  what the controller reads is kept; donors and boots belong to the reuse machinery.
\<close>

section \<open>Verdicts\<close>

datatype reserve_source = From_estCost | From_default
datatype reserve_clamp = By_explicit_budget | By_fraction_ceiling

record budget_reserve =
  br_reserveUsd :: js_number
  br_childCeilingUsd :: "js_number option"
  br_source :: reserve_source
  br_clampedBy :: "reserve_clamp option"

record admit_lineage =
  al_logicalTaskId :: string
  al_isNew :: bool
  al_depth :: nat

datatype reject_reason =
    Rej_depth | Rej_quota | Rej_budget | Rej_lifetime | Rej_termination_exhausted | Rej_ladder_exceeds_frozen
  | Rej_lineage_exhausted | Rej_lineage_busy
  | Rej_roster_floor int int int js_number js_number rat
  | Rej_osc_guard string nat
  | Rej_reserve_exceeds_budget string string js_number js_number js_number js_number

datatype admit_verdict =
    Admit budget_reserve rat admit_lineage
  | Reuse_full rat admit_lineage
  | Admit_graft budget_reserve rat admit_lineage
  | Reject reject_reason

datatype spawn_origin =
    Ctx_workflow | Ctx_orchestrate | Spawn_agent | Parallel_agents | Escalation_decomposition | Rung_respawn | Reuse_link

datatype lineage_relation = Rel_first | Rel_respawn | Rel_rung_retry | Rel_decompose_child | Rel_unpark_restart

record spawn_lineage_opt =
  lo_continues :: string
  lo_relation :: "lineage_relation option"
  lo_causeRef :: "json option"

record partial_signature =
  sp_agentType :: "string option"
  sp_toolsetHash :: "string option"
  sp_schemaHash :: "string option"
  sp_isolation :: "string option"

record spawn_roster =
  ro_floor :: int
  ro_admittedChildren :: int
  ro_liveExposureUsd :: js_number

record admit_spec =
  as_origin :: spawn_origin
  as_name :: string
  as_childScope :: string
  as_parentAccountScope :: string
  as_budgetUsd :: "js_number option"
  as_estCostUsd :: "js_number option"
  as_pendingReserveUsd :: "js_number option"
  as_roster :: "spawn_roster option"
  as_lineage :: "spawn_lineage_opt option"
  as_approach :: "string option"
  as_ancestry :: "string list option"
  as_signature :: "partial_signature option"
  as_ladderLength :: "rat option"
  as_nodeKey :: "string option"

record computed_lineage =
  cl_logicalTaskId :: string
  cl_relation :: lineage_relation
  cl_attemptOrdinal :: nat
  cl_causeRef :: "rat option"
  cl_ancestry :: "string list"
  cl_approachSig :: string
  cl_approachSigCoarse :: string
  cl_approachTag :: string

record stats_before =
  sb_spawnsBefore :: nat
  sb_childrenOfParentBefore :: nat
  sb_depth :: nat
  sb_lineage :: "lineage_stats option"

record admission_decision =
  de_verdict :: admit_verdict
  de_statsBefore :: stats_before
  de_nodeId :: "string option"
  de_lineage :: "computed_lineage option"
  de_ladderLength :: "rat option"

section \<open>The controller\<close>

definition DEFAULT_MAX_DEPTH :: js_number where "DEFAULT_MAX_DEPTH = Num 1"
definition MAX_DEPTH_CEILING :: rat where "MAX_DEPTH_CEILING = 4"
definition DEFAULT_MAX_CHILDREN_PER_NODE :: rat where "DEFAULT_MAX_CHILDREN_PER_NODE = 16"
definition DEFAULT_CHILD_BUDGET_FRACTION :: rat where "DEFAULT_CHILD_BUDGET_FRACTION = 3 / 10"

definition requirePositiveInteger :: "js_number \<Rightarrow> rat result" where
  "requirePositiveInteger v = (case v of Num x \<Rightarrow> if js_isInteger v \<and> \<not> x < 1 then Inr x else Inl ConfigError | _ \<Rightarrow> Inl ConfigError)"

definition requireNonNegativeInteger :: "js_number \<Rightarrow> rat result" where
  "requireNonNegativeInteger v = (case v of Num x \<Rightarrow> if js_isInteger v \<and> \<not> x < 0 then Inr x else Inl ConfigError | _ \<Rightarrow> Inl ConfigError)"

definition requireNonNegativeNumber :: "js_number \<Rightarrow> rat result" where
  "requireNonNegativeNumber v = (case v of Num x \<Rightarrow> if x < 0 then Inl ConfigError else Inr x | _ \<Rightarrow> Inl ConfigError)"

definition requireFraction :: "js_number \<Rightarrow> rat result" where
  "requireFraction v = (case v of Num x \<Rightarrow> if x \<le> 0 \<or> x > 1 then Inl ConfigError else Inr x | _ \<Rightarrow> Inl ConfigError)"

record controller =
  ct_budget :: run_budget
  ct_maxDepth :: rat
  ct_maxChildrenPerNode :: rat
  ct_childBudgetFraction :: rat
  ct_flatReserveUsd :: rat
  ct_maxTotalSpawns :: "rat option"
  ct_lineageIndex :: "lineage_index option"
  ct_lineageLimits :: escalation_limits
  ct_termination :: "termination_account option"
  ct_childrenOf :: "(string, nat) jsmap"
  ct_admittedTotal :: nat
  ct_minted :: nat

type_synonym 'a controller_call = "controller \<times> 'a result"

text \<open>The lineage option: absent, or the configured limits beside the journal view.\<close>

record controller_options =
  co_maxDepth :: "js_number option"
  co_maxChildrenPerNode :: "js_number option"
  co_childBudgetFraction :: "js_number option"
  co_flatReserveUsd :: "js_number option"
  co_maxTotalSpawns :: "js_number option"
  co_lineage :: "json option option"

definition option_or :: "('a \<Rightarrow> 'b result) \<Rightarrow> 'b \<Rightarrow> 'a option \<Rightarrow> 'b result" where
  "option_or vet d v = (case v of None \<Rightarrow> Inr d | Some x \<Rightarrow> vet x)"

definition valid_maxDepth :: "js_number \<Rightarrow> rat result" where
  "valid_maxDepth v = bindR (requirePositiveInteger v) (\<lambda>x. if x > MAX_DEPTH_CEILING then Inl ConfigError else Inr x)"

definition new_controller :: "controller_options \<Rightarrow> run_budget \<Rightarrow> controller result" where
  "new_controller opts b =
     bindR (valid_maxDepth (case co_maxDepth opts of Some d \<Rightarrow> d | None \<Rightarrow> DEFAULT_MAX_DEPTH)) (\<lambda>depth.
     bindR (option_or requirePositiveInteger DEFAULT_MAX_CHILDREN_PER_NODE (co_maxChildrenPerNode opts)) (\<lambda>children.
     bindR (option_or requireFraction DEFAULT_CHILD_BUDGET_FRACTION (co_childBudgetFraction opts)) (\<lambda>fraction.
     bindR (option_or requireNonNegativeNumber (1 / 2) (co_flatReserveUsd opts)) (\<lambda>flat.
     bindR (option_or (\<lambda>v. bindR (requirePositiveInteger v) (\<lambda>x. Inr (Some x))) None (co_maxTotalSpawns opts)) (\<lambda>spawns.
     bindR (validateEscalationLimits (Option.bind (co_lineage opts) id)) (\<lambda>limits.
     Inr \<lparr> ct_budget = b, ct_maxDepth = depth, ct_maxChildrenPerNode = children, ct_childBudgetFraction = fraction,
           ct_flatReserveUsd = flat, ct_maxTotalSpawns = spawns,
           ct_lineageIndex = (case co_lineage opts of None \<Rightarrow> None | Some _ \<Rightarrow> Some new_lineage_index),
           ct_lineageLimits = limits, ct_termination = None, ct_childrenOf = [], ct_admittedTotal = 0, ct_minted = 0 \<rparr>))))))"

text \<open>Binding an account again is accepted for the very same account only.\<close>

definition bindTermination :: "bool \<Rightarrow> termination_account \<Rightarrow> controller \<Rightarrow> unit controller_call" where
  "bindTermination same a c =
     (if ct_termination c \<noteq> None \<and> \<not> same then (c, Inl ConfigError)
      else (c\<lparr> ct_termination := Some a \<rparr>, Inr ()))"

definition mint_id :: "(nat \<Rightarrow> string) \<Rightarrow> controller \<Rightarrow> controller \<times> string" where
  "mint_id mint c = (c\<lparr> ct_minted := ct_minted c + 1 \<rparr>, mint (ct_minted c))"

definition dispatchProjectionReserveUsd :: "js_number option \<Rightarrow> js_number option \<Rightarrow> js_number \<Rightarrow> js_number" where
  "dispatchProjectionReserveUsd estCostUsd budgetUsd flatReserveUsd =
     (let base = (case estCostUsd of Some x \<Rightarrow> x | None \<Rightarrow> flatReserveUsd)
      in case budgetUsd of None \<Rightarrow> base | Some x \<Rightarrow> js_min base x)"

definition projectedDispatchReserveUsd :: "admit_spec \<Rightarrow> controller \<Rightarrow> js_number" where
  "projectedDispatchReserveUsd spec c = dispatchProjectionReserveUsd (as_estCostUsd spec) (as_budgetUsd spec) (Num (ct_flatReserveUsd c))"

fun nests :: "scope_segment \<Rightarrow> bool" where
  "nests (SegWorkflow _ _) = True"
| "nests (SegAgent _) = True"
| "nests (SegPlanNode _) = True"
| "nests _ = False"

definition spawnDepthOf :: "string \<Rightarrow> nat result" where
  "spawnDepthOf childScope =
     (case parseScopePath childScope of None \<Rightarrow> Inl GenericError | Some segments \<Rightarrow> Inr (length (filter nests segments)))"

section \<open>Lineage of a spawn\<close>

definition read_lineage ::
  "(string \<Rightarrow> string) \<Rightarrow> (rat \<Rightarrow> string) \<Rightarrow> journal_entry list \<Rightarrow> controller \<Rightarrow> lineage_index option controller_call" where
  "read_lineage sha numstr journal c =
     (case ct_lineageIndex c of
        None \<Rightarrow> (c, Inr None)
      | Some idx \<Rightarrow>
          (case absorb sha numstr journal idx of
             (idx', Inl err) \<Rightarrow> (c\<lparr> ct_lineageIndex := Some idx' \<rparr>, Inl err)
           | (idx', Inr _) \<Rightarrow> (c\<lparr> ct_lineageIndex := Some idx' \<rparr>, Inr (Some idx'))))"

definition full_signature :: "(string \<Rightarrow> string) \<Rightarrow> admit_spec \<Rightarrow> signature_inputs" where
  "full_signature sha spec =
     (let pick = (\<lambda>get d. case Option.bind (as_signature spec) get of Some x \<Rightarrow> x | None \<Rightarrow> d);
          legacy = LEGACY_SIGNATURE_INPUTS sha
      in \<lparr> si_agentType = pick sp_agentType (as_name spec), si_toolsetHash = pick sp_toolsetHash (si_toolsetHash legacy),
           si_schemaHash = pick sp_schemaHash (si_schemaHash legacy), si_isolation = pick sp_isolation (si_isolation legacy) \<rparr>)"

definition compute_lineage ::
  "(string \<Rightarrow> string) \<Rightarrow> (rat \<Rightarrow> string) \<Rightarrow> admit_spec \<Rightarrow> lineage_index option \<Rightarrow> string \<Rightarrow> computed_lineage" where
  "compute_lineage sha numstr spec index lt =
     (let coarse = approachSigCoarse sha numstr (full_signature sha spec)
      in \<lparr> cl_logicalTaskId = lt,
           cl_relation = (case as_lineage spec of
               None \<Rightarrow> Rel_first | Some l \<Rightarrow> (case lo_relation l of Some r \<Rightarrow> r | None \<Rightarrow> Rel_respawn)),
           cl_attemptOrdinal = (case index of Some idx \<Rightarrow> attemptsUsed idx lt None | None \<Rightarrow> 0),
           cl_causeRef = as_number (Option.bind (as_lineage spec) lo_causeRef),
           cl_ancestry = (case as_ancestry spec of Some a \<Rightarrow> a | None \<Rightarrow> []),
           cl_approachSig = approachSigOf sha numstr coarse (as_approach spec),
           cl_approachSigCoarse = coarse,
           cl_approachTag = normalizeApproachTag (as_approach spec) \<rparr>)"

datatype lineage_decision = Lineage_ok computed_lineage | Lineage_rejected reject_reason

text \<open>The limits of a continued task; a fresh task has none.\<close>

definition continuation_refused :: "controller \<Rightarrow> lineage_index \<Rightarrow> string \<Rightarrow> reject_reason option" where
  "continuation_refused c idx lt =
     (if hasLiveAttempt idx lt then Some Rej_lineage_busy
      else if attemptsUsed idx lt None \<ge> el_maxAttemptsPerLogicalTask (ct_lineageLimits c) then Some Rej_lineage_exhausted
      else None)"

definition evaluateLineage ::
  "(nat \<Rightarrow> string) \<Rightarrow> (string \<Rightarrow> string) \<Rightarrow> (rat \<Rightarrow> string) \<Rightarrow> journal_entry list \<Rightarrow> admit_spec \<Rightarrow> controller
     \<Rightarrow> (lineage_decision \<times> lineage_stats option) controller_call" where
  "evaluateLineage mint sha numstr journal spec c =
     (if (case as_lineage spec of Some l \<Rightarrow> as_number (lo_causeRef l) = None | None \<Rightarrow> False) then (c, Inl ConfigError)
      else
        case read_lineage sha numstr journal c of
          (c1, Inl err) \<Rightarrow> (c1, Inl err)
        | (c1, Inr index) \<Rightarrow>
            (case as_lineage spec of
               None \<Rightarrow>
                 (case mint_id mint c1 of
                    (c2, lt) \<Rightarrow> (c2, Inr (Lineage_ok (compute_lineage sha numstr spec index lt), None)))
             | Some l \<Rightarrow>
                 let lt = lo_continues l;
                     stats = map_option (\<lambda>idx. statsOf idx lt None) index
                 in case Option.bind index (\<lambda>idx. continuation_refused c1 idx lt) of
                      Some reason \<Rightarrow> (c1, Inr (Lineage_rejected reason, stats))
                    | None \<Rightarrow> (c1, Inr (Lineage_ok (compute_lineage sha numstr spec index lt), stats))))"

definition registerLineageAdmit :: "string \<Rightarrow> controller \<Rightarrow> controller" where
  "registerLineageAdmit lt c = c\<lparr> ct_lineageIndex := map_option (noteAdmitted lt) (ct_lineageIndex c) \<rparr>"

section \<open>The reserve\<close>

definition spawn_tool :: "admit_spec \<Rightarrow> bool" where
  "spawn_tool spec \<longleftrightarrow> as_origin spec = Spawn_agent \<or> as_origin spec = Parallel_agents"

definition child_ceiling :: "admit_spec \<Rightarrow> controller \<Rightarrow> js_number option" where
  "child_ceiling spec c =
     (if spawn_tool spec then as_budgetUsd spec
      else
        case remainderOf (as_parentAccountScope spec) (ct_budget c) of
          Some r \<Rightarrow>
            let fractionCap = Num (ct_childBudgetFraction c) * Num r
            in Some (case as_budgetUsd spec of None \<Rightarrow> fractionCap | Some x \<Rightarrow> js_min x fractionCap)
        | None \<Rightarrow> as_budgetUsd spec)"

definition derive_reserve :: "admit_spec \<Rightarrow> controller \<Rightarrow> budget_reserve" where
  "derive_reserve spec c =
     (let base = (case as_estCostUsd spec of Some x \<Rightarrow> x | None \<Rightarrow> Num (ct_flatReserveUsd c));
          source = (if as_estCostUsd spec = None then From_default else From_estCost);
          ceil = child_ceiling spec c
      in case ceil of
           Some x \<Rightarrow>
             if x < base
             then \<lparr> br_reserveUsd = x, br_childCeilingUsd = ceil, br_source = source,
                    br_clampedBy = Some (if as_budgetUsd spec = Some x \<and> x \<noteq> NaN then By_explicit_budget else By_fraction_ceiling) \<rparr>
             else \<lparr> br_reserveUsd = base, br_childCeilingUsd = ceil, br_source = source, br_clampedBy = None \<rparr>
         | None \<Rightarrow> \<lparr> br_reserveUsd = base, br_childCeilingUsd = None, br_source = source, br_clampedBy = None \<rparr>)"

text \<open>The whole remaining roster at this seat's projection.\<close>

definition roster_refused :: "admit_spec \<Rightarrow> controller \<Rightarrow> reject_reason option" where
  "roster_refused spec c =
     (case as_roster spec of
        None \<Rightarrow> None
      | Some ro \<Rightarrow>
          let seats = ro_floor ro - ro_admittedChildren ro;
              perSeat = projectedDispatchReserveUsd spec c
          in if seats > 0 then
               (case remainderOf (as_parentAccountScope spec) (ct_budget c) of
                  None \<Rightarrow> None
                | Some r \<Rightarrow>
                    if Num r < Num (of_int seats) * perSeat + ro_liveExposureUsd ro
                    then Some (Rej_roster_floor (ro_floor ro) (ro_admittedChildren ro) seats perSeat (ro_liveExposureUsd ro) r)
                    else None)
             else None)"

section \<open>Admit\<close>

definition ladder_of :: "admit_spec \<Rightarrow> rat" where
  "ladder_of spec = (case as_ladderLength spec of Some n \<Rightarrow> n | None \<Rightarrow> 1)"

definition node_key :: "admit_spec \<Rightarrow> string" where
  "node_key spec = (case as_nodeKey spec of Some k \<Rightarrow> k | None \<Rightarrow> as_parentAccountScope spec)"

definition children_of :: "string \<Rightarrow> controller \<Rightarrow> nat" where
  "children_of k c = (case jm_get (ct_childrenOf c) k of Some n \<Rightarrow> n | None \<Rightarrow> 0)"

text \<open>The refusals before any money is looked at, in the order of the code.\<close>

definition structural_refusal :: "nat \<Rightarrow> admit_spec \<Rightarrow> controller \<Rightarrow> reject_reason option" where
  "structural_refusal depth spec c =
     (if (case ct_termination c of Some a \<Rightarrow> ladder_of spec > tl_kMax (ta_limits a) | None \<Rightarrow> False) then Some Rej_ladder_exceeds_frozen
      else if (case ct_termination c of Some a \<Rightarrow> spawnUnitsExhausted a | None \<Rightarrow> False) then Some Rej_termination_exhausted
      else if of_nat depth > ct_maxDepth c then Some Rej_depth
      else if of_nat (children_of (node_key spec) c) \<ge> ct_maxChildrenPerNode c then Some Rej_quota
      else if (case ct_maxTotalSpawns c of Some n \<Rightarrow> of_nat (ct_admittedTotal c) \<ge> n | None \<Rightarrow> False) then Some Rej_lifetime
      else
        case roster_refused spec c of
          Some r \<Rightarrow> Some r
        | None \<Rightarrow> if spawnHeadroom (ct_budget c) = 0 then Some Rej_lifetime else None)"

text \<open>The money: commit the reserve, or only compare the projection.\<close>

definition take_money :: "bool \<Rightarrow> budget_reserve \<Rightarrow> admit_spec \<Rightarrow> controller \<Rightarrow> controller \<times> bool" where
  "take_money commitReserve reserve spec c =
     (if commitReserve then
        (case admitSpawn (br_reserveUsd reserve) (as_parentAccountScope spec) (ct_budget c) of
           (b, Inl _) \<Rightarrow> (c\<lparr> ct_budget := b \<rparr>, False)
         | (b, Inr _) \<Rightarrow> (c\<lparr> ct_budget := b \<rparr>, True))
      else
        case remainderOf (as_parentAccountScope spec) (ct_budget c) of
          None \<Rightarrow> (c, True)
        | Some r \<Rightarrow>
            (c, \<not> (r \<le> 0 \<or> Num r < projectedDispatchReserveUsd spec c + (case as_pendingReserveUsd spec of Some p \<Rightarrow> p | None \<Rightarrow> 0))))"

definition debit_admission :: "string \<Rightarrow> admit_spec \<Rightarrow> controller \<Rightarrow> rat debit_outcome controller_call" where
  "debit_admission lt spec c =
     (case ct_termination c of
        None \<Rightarrow> (c, Inr (Debited (of_nat (spawnHeadroom (ct_budget c)))))
      | Some a \<Rightarrow>
          (case debitSpawn (Some \<lparr> sl_logicalTaskId = lt, sl_isNew = (as_lineage spec = None), sl_ladderLength = Some (ladder_of spec) \<rparr>) a of
             Inl err \<Rightarrow> (c, Inl err)
           | Inr (a', out) \<Rightarrow> (c\<lparr> ct_termination := Some a' \<rparr>, Inr out)))"

definition rejection :: "stats_before \<Rightarrow> reject_reason \<Rightarrow> admission_decision" where
  "rejection stats reason =
     \<lparr> de_verdict = Reject reason, de_statsBefore = stats, de_nodeId = None, de_lineage = None, de_ladderLength = None \<rparr>"

definition count_child :: "string \<Rightarrow> controller \<Rightarrow> controller" where
  "count_child k c = c\<lparr> ct_childrenOf := jm_set k (children_of k c + 1) (ct_childrenOf c), ct_admittedTotal := ct_admittedTotal c + 1 \<rparr>"

definition conclude ::
  "(nat \<Rightarrow> string) \<Rightarrow> nat \<Rightarrow> budget_reserve \<Rightarrow> computed_lineage \<Rightarrow> stats_before \<Rightarrow> admit_spec \<Rightarrow> controller \<Rightarrow> admission_decision controller_call" where
  "conclude mint depth reserve lineage stats spec c =
     (case debit_admission (cl_logicalTaskId lineage) spec
             (registerLineageAdmit (cl_logicalTaskId lineage) (count_child (node_key spec) c)) of
        (c1, Inl err) \<Rightarrow> (c1, Inl err)
      | (c1, Inr (Denied _)) \<Rightarrow> (c1, Inr (rejection stats Rej_termination_exhausted))
      | (c1, Inr (Debited units)) \<Rightarrow>
          (case mint_id mint c1 of
             (c2, node) \<Rightarrow>
               (c2, Inr \<lparr> de_verdict = Admit reserve units
                            \<lparr> al_logicalTaskId = cl_logicalTaskId lineage, al_isNew = (as_lineage spec = None), al_depth = depth \<rparr>,
                          de_statsBefore = stats, de_nodeId = Some node, de_lineage = Some lineage,
                          de_ladderLength = (case ct_termination c of None \<Rightarrow> None | Some _ \<Rightarrow> Some (ladder_of spec)) \<rparr>)))"

definition admit ::
  "(nat \<Rightarrow> string) \<Rightarrow> (string \<Rightarrow> string) \<Rightarrow> (rat \<Rightarrow> string) \<Rightarrow> journal_entry list \<Rightarrow> bool \<Rightarrow> admit_spec \<Rightarrow> controller
     \<Rightarrow> admission_decision controller_call" where
  "admit mint sha numstr journal commitReserve spec c =
     (case spawnDepthOf (as_childScope spec) of
        Inl err \<Rightarrow> (c, Inl err)
      | Inr depth \<Rightarrow>
          (case evaluateLineage mint sha numstr journal spec c of
             (c1, Inl err) \<Rightarrow> (c1, Inl err)
           | (c1, Inr (evaluated, lineageStats)) \<Rightarrow>
               let stats = \<lparr> sb_spawnsBefore = rb_agentsSpawned (ct_budget c),
                             sb_childrenOfParentBefore = children_of (node_key spec) c, sb_depth = depth, sb_lineage = lineageStats \<rparr>
               in case evaluated of
                    Lineage_rejected reason \<Rightarrow> (c1, Inr (rejection stats reason))
                  | Lineage_ok lineage \<Rightarrow>
                      (case structural_refusal depth spec c1 of
                         Some reason \<Rightarrow> (c1, Inr (rejection stats reason))
                       | None \<Rightarrow>
                           let reserve = derive_reserve spec c1
                           in case take_money commitReserve reserve spec c1 of
                                (c2, False) \<Rightarrow> (c2, Inr (rejection stats Rej_budget))
                              | (c2, True) \<Rightarrow> conclude mint depth reserve lineage stats spec c2)))"

section \<open>Roll-forward on resume\<close>

definition recoverChild :: "string \<Rightarrow> controller \<Rightarrow> controller" where
  "recoverChild k c = count_child k c"

definition recover_reserve :: "rat \<Rightarrow> string \<Rightarrow> controller \<Rightarrow> unit controller_call" where
  "recover_reserve reserve scope c =
     (case admitRecovered reserve scope (ct_budget c) of
        (b, Inl err) \<Rightarrow> (c\<lparr> ct_budget := b \<rparr>, Inl err)
      | (b, Inr _) \<Rightarrow> (count_child scope (c\<lparr> ct_budget := b \<rparr>), Inr ()))"

definition recoverSettled :: "string \<Rightarrow> controller \<Rightarrow> unit controller_call" where
  "recoverSettled parentAccountScope c = recover_reserve 0 parentAccountScope c"

text \<open>A recorded reserve is the finite amount an admission committed.\<close>

definition recorded_reserve :: "budget_reserve \<Rightarrow> rat" where
  "recorded_reserve r = (case br_reserveUsd r of Num x \<Rightarrow> x | _ \<Rightarrow> 0)"

definition recoverInFlight :: "string \<Rightarrow> admit_verdict \<Rightarrow> controller \<Rightarrow> unit controller_call" where
  "recoverInFlight parentAccountScope verdict c =
     (case verdict of
        Reject _ \<Rightarrow> (c, Inr ())
      | Reuse_full _ _ \<Rightarrow> recover_reserve 0 parentAccountScope c
      | Admit r _ _ \<Rightarrow> recover_reserve (recorded_reserve r) parentAccountScope c
      | Admit_graft r _ _ \<Rightarrow> recover_reserve (recorded_reserve r) parentAccountScope c)"

end
