(* ===== verification/SpawnClaims.thy ===== *)
theory SpawnClaims
  imports SpawnAdmission
begin

text \<open>
  What spawn admission promises: a spawn that is not admitted costs nothing, an admitted one passed
  every limit and was charged once, and no interleaving of calls exceeds the quotas.
\<close>

section \<open>Reading the lineage changes nothing else\<close>

definition same_core :: "controller \<Rightarrow> controller \<Rightarrow> bool" where
  "same_core c c' \<longleftrightarrow> (\<exists>idx n. c' = c\<lparr> ct_lineageIndex := idx, ct_minted := n \<rparr>)"

lemma same_coreD:
  assumes "same_core c c'"
  shows "ct_budget c' = ct_budget c" "ct_maxDepth c' = ct_maxDepth c" "ct_maxChildrenPerNode c' = ct_maxChildrenPerNode c"
    "ct_childBudgetFraction c' = ct_childBudgetFraction c" "ct_flatReserveUsd c' = ct_flatReserveUsd c"
    "ct_maxTotalSpawns c' = ct_maxTotalSpawns c" "ct_lineageLimits c' = ct_lineageLimits c" "ct_termination c' = ct_termination c"
    "ct_childrenOf c' = ct_childrenOf c" "ct_admittedTotal c' = ct_admittedTotal c"
  using assms by (auto simp: same_core_def)

definition absorbed ::
  "(string \<Rightarrow> string) \<Rightarrow> (rat \<Rightarrow> string) \<Rightarrow> journal_entry list \<Rightarrow> controller \<Rightarrow> lineage_index option" where
  "absorbed sha numstr journal c = map_option (\<lambda>idx. fst (absorb sha numstr journal idx)) (ct_lineageIndex c)"

lemma read_lineage_effect:
  assumes "read_lineage sha numstr journal c = (c1, r)"
  shows "c1 = c\<lparr> ct_lineageIndex := absorbed sha numstr journal c \<rparr>" "r = Inr index \<Longrightarrow> index = absorbed sha numstr journal c"
  using assms by (auto simp: read_lineage_def absorbed_def split: option.splits prod.splits sum.splits)

lemma evaluate_effect:
  assumes "evaluateLineage mint sha numstr journal spec c = (c1, r)"
  shows "same_core c c1"
    and "r = Inr q \<Longrightarrow> ct_lineageIndex c1 = absorbed sha numstr journal c"
    and "r = Inr (Lineage_ok l, st) \<Longrightarrow> as_lineage spec = Some opt \<Longrightarrow> absorbed sha numstr journal c = Some idx \<Longrightarrow>
      cl_logicalTaskId l = lo_continues opt \<and> \<not> hasLiveAttempt idx (lo_continues opt)
      \<and> attemptsUsed idx (lo_continues opt) None < el_maxAttemptsPerLogicalTask (ct_lineageLimits c)"
proof -
  obtain c0 r0 where rd: "read_lineage sha numstr journal c = (c0, r0)" by fastforce
  note eff = read_lineage_effect [OF rd]
  have same: "same_core c (c\<lparr> ct_lineageIndex := i \<rparr>)" "same_core c c" for i
  proof -
    show "same_core c (c\<lparr> ct_lineageIndex := i \<rparr>)" unfolding same_core_def by (intro exI [of _ i] exI [of _ "ct_minted c"]) simp
    show "same_core c c" unfolding same_core_def by (intro exI [of _ "ct_lineageIndex c"] exI [of _ "ct_minted c"]) simp
  qed
  have minted: "same_core c (c\<lparr> ct_lineageIndex := i, ct_minted := n \<rparr>)" for i n
    unfolding same_core_def by (intro exI [of _ i] exI [of _ n]) simp
  show "same_core c c1"
    using assms rd eff(1) same minted
    by (auto simp: evaluateLineage_def mint_id_def Let_def split: if_splits sum.splits option.splits)
  show "r = Inr q \<Longrightarrow> ct_lineageIndex c1 = absorbed sha numstr journal c"
    using assms rd eff(1) by (auto simp: evaluateLineage_def mint_id_def Let_def split: if_splits sum.splits option.splits)
  show "r = Inr (Lineage_ok l, st) \<Longrightarrow> as_lineage spec = Some opt \<Longrightarrow> absorbed sha numstr journal c = Some idx \<Longrightarrow>
      cl_logicalTaskId l = lo_continues opt \<and> \<not> hasLiveAttempt idx (lo_continues opt)
      \<and> attemptsUsed idx (lo_continues opt) None < el_maxAttemptsPerLogicalTask (ct_lineageLimits c)"
    using assms rd eff(1) eff(2)
    by (auto simp: evaluateLineage_def continuation_refused_def compute_lineage_def Let_def split: if_splits sum.splits option.splits)
qed

section \<open>Money and units\<close>

lemma chainOf_accounts: "rb_accounts b' = rb_accounts b \<Longrightarrow> chainOf b' k = chainOf b k"
  by (simp add: chainOf_def)

lemma admitSpawn_refused:
  assumes "admitSpawn r scope b = (b', Inl e)"
  shows "rb_accounts b' = rb_accounts b \<and> rb_agentsSpawned b' = rb_agentsSpawned b"
proof -
  obtain b1 x where x: "refuseSpawnIfInfeasible r scope b = (b1, x)" by fastforce
  have frame: "rb_accounts b1 = rb_accounts b" "rb_agentsSpawned b1 = rb_agentsSpawned b"
    using x by (auto simp: refuseSpawnIfInfeasible_def split: sum.splits if_splits option.splits)
  show ?thesis
  proof (cases x)
    case (Inl err)
    then show ?thesis using assms x frame by (simp add: admitSpawn_def)
  next
    case (Inr reserve)
    then have "b1 = b" "\<exists>ks. chainOf b scope = Inr ks"
      using x by (auto simp: refuseSpawnIfInfeasible_def chain_accounts_def bindR_eq_Inr split: sum.splits if_splits option.splits)
    then show ?thesis using assms x Inr chainOf_accounts [of "b\<lparr> rb_agentsSpawned := rb_agentsSpawned b + 1 \<rparr>" b scope]
      by (auto simp: admitSpawn_def admitRecovered_def)
  qed
qed

text \<open>Taking money fails without a trace in the accounts, and the lineage is not touched.\<close>

lemma take_money_effect:
  assumes "take_money commit reserve spec c = (c', ok)"
  shows "c' = c\<lparr> ct_budget := ct_budget c' \<rparr>"
    and "\<not> ok \<Longrightarrow> rb_accounts (ct_budget c') = rb_accounts (ct_budget c) \<and> rb_agentsSpawned (ct_budget c') = rb_agentsSpawned (ct_budget c)"
    and "ok \<Longrightarrow> commit \<Longrightarrow> admitSpawn (br_reserveUsd reserve) (as_parentAccountScope spec) (ct_budget c) = (ct_budget c', Inr ())"
    and "ok \<Longrightarrow> \<not> commit \<Longrightarrow> ct_budget c' = ct_budget c
      \<and> (\<forall>r. remainderOf (as_parentAccountScope spec) (ct_budget c) = Some r \<longrightarrow>
            0 < r \<and> \<not> Num r < projectedDispatchReserveUsd spec c + (case as_pendingReserveUsd spec of Some p \<Rightarrow> p | None \<Rightarrow> 0))"
  using assms admitSpawn_refused
  by (auto simp: take_money_def split: if_splits prod.splits sum.splits option.splits)

lemma refusal_none:
  assumes "structural_refusal depth spec c = None"
  shows "of_nat depth \<le> ct_maxDepth c" "of_nat (children_of (node_key spec) c) < ct_maxChildrenPerNode c"
    "ct_maxTotalSpawns c = Some n \<Longrightarrow> of_nat (ct_admittedTotal c) < n"
    "rb_agentsSpawned (ct_budget c) < rb_lifetimeSpawnCap (ct_budget c)"
    "ct_termination c = Some a \<Longrightarrow> ladder_of spec \<le> tl_kMax (ta_limits a) \<and> 0 < ta_spawnUnits a"
    "roster_refused spec c = None"
  using assms by (auto simp: structural_refusal_def spawnUnitsExhausted_def spawnHeadroom_def split: if_splits option.splits)

text \<open>After the refusals the debit of the termination account is neither denied nor an error.\<close>

lemma debit_admission_granted:
  assumes "\<And>a. ct_termination c = Some a \<Longrightarrow> ladder_of spec \<le> tl_kMax (ta_limits a) \<and> 0 < ta_spawnUnits a"
  obtains t units where "debit_admission lt spec c = (c\<lparr> ct_termination := t \<rparr>, Inr (Debited units))"
    and "ct_termination c = None \<longrightarrow> t = None \<and> units = of_nat (spawnHeadroom (ct_budget c))"
    and "\<forall>a. ct_termination c = Some a \<longrightarrow> units = ta_spawnUnits a - 1 \<and> (\<exists>a'. t = Some a' \<and> ta_spawnUnits a' = ta_spawnUnits a - 1)"
proof (cases "ct_termination c")
  case None
  then have "debit_admission lt spec c = (c\<lparr> ct_termination := None \<rparr>, Inr (Debited (of_nat (spawnHeadroom (ct_budget c)))))"
    by (simp add: debit_admission_def)
  then show ?thesis using that None by simp
next
  case (Some a)
  then have "\<not> ta_spawnUnits a \<le> 0" "\<not> tl_kMax (ta_limits a) < ladder_of spec" using assms by force+
  then have "\<exists>a'. debit_admission lt spec c = (c\<lparr> ct_termination := Some a' \<rparr>, Inr (Debited (ta_spawnUnits a - 1)))
      \<and> ta_spawnUnits a' = ta_spawnUnits a - 1"
    using Some by (auto simp: debit_admission_def debitSpawn_def Let_def)
  then show ?thesis using that Some by force
qed

lemma note_busy: "hasLiveAttempt (noteAdmitted lt idx) lt"
  by (simp add: hasLiveAttempt_def noteAdmitted_def)

definition charged_once :: "admit_spec \<Rightarrow> computed_lineage \<Rightarrow> rat \<Rightarrow> controller \<Rightarrow> controller \<Rightarrow> bool" where
  "charged_once spec lineage units c c' \<longleftrightarrow>
     ct_childrenOf c' = jm_set (node_key spec) (children_of (node_key spec) c + 1) (ct_childrenOf c)
   \<and> ct_admittedTotal c' = ct_admittedTotal c + 1
   \<and> ct_budget c' = ct_budget c
   \<and> ct_maxChildrenPerNode c' = ct_maxChildrenPerNode c \<and> ct_maxTotalSpawns c' = ct_maxTotalSpawns c
   \<and> ct_lineageIndex c' = map_option (noteAdmitted (cl_logicalTaskId lineage)) (ct_lineageIndex c)
   \<and> (ct_termination c = None \<longrightarrow> ct_termination c' = None \<and> units = of_nat (spawnHeadroom (ct_budget c)))
   \<and> (\<forall>a. ct_termination c = Some a \<longrightarrow> units = ta_spawnUnits a - 1
          \<and> (\<exists>a'. ct_termination c' = Some a' \<and> ta_spawnUnits a' = ta_spawnUnits a - 1))"

lemma conclude_admits:
  assumes "\<And>a. ct_termination c = Some a \<Longrightarrow> ladder_of spec \<le> tl_kMax (ta_limits a) \<and> 0 < ta_spawnUnits a"
    and "conclude mint depth reserve lineage stats spec c = (c', r)"
  shows "\<exists>d units. r = Inr d \<and> charged_once spec lineage units c c' \<and> de_lineage d = Some lineage \<and> de_statsBefore d = stats
    \<and> de_verdict d = Admit reserve units
        \<lparr> al_logicalTaskId = cl_logicalTaskId lineage, al_isNew = (as_lineage spec = None), al_depth = depth \<rparr>"
proof -
  let ?c = "registerLineageAdmit (cl_logicalTaskId lineage) (count_child (node_key spec) c)"
  have kept: "ct_termination ?c = ct_termination c" "ct_budget ?c = ct_budget c"
    by (simp_all add: registerLineageAdmit_def count_child_def)
  have pre: "\<And>a. ct_termination ?c = Some a \<Longrightarrow> ladder_of spec \<le> tl_kMax (ta_limits a) \<and> 0 < ta_spawnUnits a"
    using assms(1) kept(1) by simp
  obtain t units where d: "debit_admission (cl_logicalTaskId lineage) spec ?c = (?c\<lparr> ct_termination := t \<rparr>, Inr (Debited units))"
    and units: "ct_termination ?c = None \<longrightarrow> t = None \<and> units = of_nat (spawnHeadroom (ct_budget ?c))"
      "\<forall>a. ct_termination ?c = Some a \<longrightarrow> units = ta_spawnUnits a - 1 \<and> (\<exists>a'. t = Some a' \<and> ta_spawnUnits a' = ta_spawnUnits a - 1)"
    using pre by (rule debit_admission_granted [where lt = "cl_logicalTaskId lineage"])
  have "c' = ?c\<lparr> ct_termination := t, ct_minted := ct_minted ?c + 1 \<rparr>"
    using assms(2) d by (simp add: conclude_def mint_id_def)
  then have "charged_once spec lineage units c c'"
    unfolding charged_once_def using units kept by (simp add: registerLineageAdmit_def count_child_def)
  then show ?thesis using assms(2) d by (auto simp: conclude_def mint_id_def)
qed

section \<open>The two ends of a call\<close>

fun is_admit :: "admission_decision result \<Rightarrow> bool" where
  "is_admit (Inr d) = (case de_verdict d of Admit _ _ _ \<Rightarrow> True | _ \<Rightarrow> False)"
| "is_admit (Inl _) = False"

definition unspent :: "controller \<Rightarrow> controller \<Rightarrow> bool" where
  "unspent c c' \<longleftrightarrow> rb_accounts (ct_budget c') = rb_accounts (ct_budget c)
     \<and> rb_agentsSpawned (ct_budget c') = rb_agentsSpawned (ct_budget c)
     \<and> ct_childrenOf c' = ct_childrenOf c \<and> ct_admittedTotal c' = ct_admittedTotal c \<and> ct_termination c' = ct_termination c
     \<and> ct_maxChildrenPerNode c' = ct_maxChildrenPerNode c \<and> ct_maxTotalSpawns c' = ct_maxTotalSpawns c"

lemma unspent_core: "same_core c c' \<Longrightarrow> unspent c c'"
  by (auto simp: unspent_def same_coreD)

lemma admit_ends:
  assumes "admit mint sha numstr journal commit spec c = (c', r)"
  obtains (free) "unspent c c'" "\<not> is_admit r" "\<forall>d. r = Inr d \<longrightarrow> ct_lineageIndex c' = absorbed sha numstr journal c"
  | (admitted) depth c1 l st c2 units d where "spawnDepthOf (as_childScope spec) = Inr depth"
      "evaluateLineage mint sha numstr journal spec c = (c1, Inr (Lineage_ok l, st))" "structural_refusal depth spec c1 = None"
      "take_money commit (derive_reserve spec c1) spec c1 = (c2, True)" "charged_once spec l units c2 c'" "r = Inr d"
      "de_verdict d = Admit (derive_reserve spec c1) units
        \<lparr> al_logicalTaskId = cl_logicalTaskId l, al_isNew = (as_lineage spec = None), al_depth = depth \<rparr>" "de_lineage d = Some l"
proof (cases "spawnDepthOf (as_childScope spec)")
  case (Inl e)
  then have "unspent c c'" "\<not> is_admit r" "\<forall>d. r \<noteq> Inr d" using assms by (auto simp: admit_def unspent_def)
  then show ?thesis using free by blast
next
  case (Inr depth)
  obtain c1 ev where e: "evaluateLineage mint sha numstr journal spec c = (c1, ev)" by fastforce
  note eff = evaluate_effect [OF e]
  show ?thesis
  proof (cases ev)
    case (Inl err)
    then have "c' = c1" "r = Inl err" using assms Inr e by (simp_all add: admit_def)
    then show ?thesis using free unspent_core [OF eff(1)] by auto
  next
    case ok: (Inr q)
    obtain dec st where q: "q = (dec, st)" by fastforce
    have idx: "ct_lineageIndex c1 = absorbed sha numstr journal c" using eff(2) ok by blast
    define stats where "stats = \<lparr> sb_spawnsBefore = rb_agentsSpawned (ct_budget c),
      sb_childrenOfParentBefore = children_of (node_key spec) c, sb_depth = depth, sb_lineage = st \<rparr>"
    have run: "(c', r) = (case dec of
          Lineage_rejected reason \<Rightarrow> (c1, Inr (rejection stats reason))
        | Lineage_ok lineage \<Rightarrow>
            (case structural_refusal depth spec c1 of
               Some reason \<Rightarrow> (c1, Inr (rejection stats reason))
             | None \<Rightarrow>
                 (case take_money commit (derive_reserve spec c1) spec c1 of
                    (c2, False) \<Rightarrow> (c2, Inr (rejection stats Rej_budget))
                  | (c2, True) \<Rightarrow> conclude mint depth (derive_reserve spec c1) lineage stats spec c2)))"
      using assms [symmetric] Inr e ok q unfolding stats_def
      by (simp add: admit_def Let_def split: lineage_decision.split option.split prod.split bool.split)
    have early: ?thesis if "c' = c1" "r = Inr (rejection stats reason)" for reason
      using that free unspent_core [OF eff(1)] idx by (auto simp: rejection_def)
    show ?thesis
    proof (cases dec)
      case (Lineage_rejected reason)
      then show ?thesis using run early by simp
    next
      case (Lineage_ok l)
      show ?thesis
      proof (cases "structural_refusal depth spec c1")
        case (Some reason)
        then show ?thesis using run early Lineage_ok by simp
      next
        case None
        obtain c2 ok where m: "take_money commit (derive_reserve spec c1) spec c1 = (c2, ok)" by fastforce
        note mon = take_money_effect [OF m]
        have keep: "ct_childrenOf c2 = ct_childrenOf c1" "ct_admittedTotal c2 = ct_admittedTotal c1" "ct_termination c2 = ct_termination c1"
          "ct_lineageIndex c2 = ct_lineageIndex c1" "ct_maxChildrenPerNode c2 = ct_maxChildrenPerNode c1"
          "ct_maxTotalSpawns c2 = ct_maxTotalSpawns c1" by (subst mon(1), simp)+
        show ?thesis
        proof (cases ok)
          case False
          then have "c' = c2" "r = Inr (rejection stats Rej_budget)" using run None Lineage_ok m by simp_all
          then show ?thesis
            using free mon(2) False keep same_coreD [OF eff(1)] idx by (auto simp: unspent_def rejection_def)
        next
          case True
          then have "conclude mint depth (derive_reserve spec c1) l stats spec c2 = (c', r)" using run None Lineage_ok m by simp
          then obtain d units where d: "r = Inr d" "charged_once spec l units c2 c'" "de_lineage d = Some l"
            "de_verdict d = Admit (derive_reserve spec c1) units
              \<lparr> al_logicalTaskId = cl_logicalTaskId l, al_isNew = (as_lineage spec = None), al_depth = depth \<rparr>"
            using conclude_admits [of c2 spec] refusal_none(5) [OF None] keep(3) by metis
          have "evaluateLineage mint sha numstr journal spec c = (c1, Inr (Lineage_ok l, st))" using e ok q Lineage_ok by simp
          moreover have "take_money commit (derive_reserve spec c1) spec c1 = (c2, True)" using m True by simp
          ultimately show ?thesis by (rule admitted [OF Inr _ None _ d(2,1,4,3)])
        qed
      qed
    qed
  qed
qed

section \<open>The contract\<close>

text \<open>
  C21. A spawn that is not admitted costs nothing. Whether the call throws or journals a rejection, no
  account, no spawn counter, no child quota and no termination unit changes; a rejection leaves the lineage
  index as the absorbed journal gives it, so no attempt is registered.
\<close>

theorem rejected_spawn_free:
  assumes "admit mint sha numstr journal commit spec c = (c', r)" "\<not> is_admit r"
  shows "rb_accounts (ct_budget c') = rb_accounts (ct_budget c) \<and> rb_agentsSpawned (ct_budget c') = rb_agentsSpawned (ct_budget c)
    \<and> ct_childrenOf c' = ct_childrenOf c \<and> ct_admittedTotal c' = ct_admittedTotal c \<and> ct_termination c' = ct_termination c
    \<and> (\<forall>d. r = Inr d \<longrightarrow> ct_lineageIndex c' = absorbed sha numstr journal c)"
  using assms(1)
proof (cases rule: admit_ends)
  case free
  then show ?thesis by (simp add: unspent_def)
next
  case admitted
  then show ?thesis using assms(2) by simp
qed

definition demo_controller :: controller where
  "demo_controller = \<lparr> ct_budget = demo_opened, ct_maxDepth = 2, ct_maxChildrenPerNode = 16, ct_childBudgetFraction = 3 / 10,
     ct_flatReserveUsd = 1 / 2, ct_maxTotalSpawns = None, ct_lineageIndex = Some new_lineage_index,
     ct_lineageLimits = DEFAULT_ESCALATION_LIMITS, ct_termination = None, ct_childrenOf = [], ct_admittedTotal = 0, ct_minted = 0 \<rparr>"

definition demo_spec :: "string \<Rightarrow> admit_spec" where
  "demo_spec scope = \<lparr> as_origin = Spawn_agent, as_name = ''worker'', as_childScope = scope, as_parentAccountScope = ''c'',
     as_budgetUsd = None, as_estCostUsd = Some (Num 3), as_pendingReserveUsd = None, as_roster = None, as_lineage = None,
     as_approach = None, as_ancestry = None, as_signature = None, as_ladderLength = None, as_nodeKey = None \<rparr>"

lemma demo_depth: "spawnDepthOf ''agent:3'' = Inr 1" "spawnDepthOf ''agent:3/agent:4/agent:5'' = Inr 3"
  by code_simp+

abbreviation demo_call :: "string \<Rightarrow> admission_decision controller_call" where
  "demo_call scope \<equiv> admit (\<lambda>_. ''id'') id (\<lambda>_. '''') [] True (demo_spec scope) demo_controller"

lemma demo_spawned: "rb_agentsSpawned demo_opened = 0" "rb_lifetimeSpawnCap demo_opened = 500"
  by (simp_all add: demo_opened_def demo_start_def)

lemma demo_too_deep: "\<exists>c' d. demo_call ''agent:3/agent:4/agent:5'' = (c', Inr d) \<and> de_verdict d = Reject Rej_depth"
  by (simp add: admit_def demo_spec_def demo_depth evaluateLineage_def read_lineage_def demo_controller_def mint_id_def
      structural_refusal_def ladder_of_def Let_def rejection_def)

theorem rejected_spawn_free_witness:
  "ct_childrenOf (fst (demo_call ''agent:3/agent:4/agent:5'')) = ct_childrenOf demo_controller"
proof -
  obtain c' d where run: "demo_call ''agent:3/agent:4/agent:5'' = (c', Inr d)" "de_verdict d = Reject Rej_depth"
    using demo_too_deep by blast
  then show ?thesis using rejected_spawn_free [OF run(1)] by simp
qed


lemma demo_admitted: "\<exists>c' d reserve units al. demo_call ''agent:3'' = (c', Inr d) \<and> de_verdict d = Admit reserve units al"
proof -
  obtain b where b: "admitSpawn (Num 3) ''c'' demo_opened = (b, Inr ())" using demo_admit by blast
  show ?thesis
    by (simp add: admit_def demo_spec_def demo_depth evaluateLineage_def read_lineage_def demo_controller_def mint_id_def
        structural_refusal_def ladder_of_def node_key_def children_of_def roster_refused_def spawnHeadroom_def demo_spawned
        take_money_def derive_reserve_def child_ceiling_def spawn_tool_def b conclude_def debit_admission_def registerLineageAdmit_def
        count_child_def Let_def)
qed


section \<open>Quotas over a run\<close>

text \<open>
  A run of the controller: admissions over any journal, with the engine working on the shared budget
  and the shared termination account in between. The last argument counts the admitted spawns.
\<close>

inductive spawn_run :: "(nat \<Rightarrow> string) \<Rightarrow> (string \<Rightarrow> string) \<Rightarrow> (rat \<Rightarrow> string) \<Rightarrow> controller_options \<Rightarrow> controller \<Rightarrow> nat \<Rightarrow> bool"
  for mint sha numstr opts where
  spawn_start: "new_controller opts b = Inr c \<Longrightarrow> spawn_run mint sha numstr opts c 0"
| spawn_admit: "spawn_run mint sha numstr opts c n \<Longrightarrow> admit mint sha numstr journal commit spec c = (c', r) \<Longrightarrow>
    spawn_run mint sha numstr opts c' (if is_admit r then n + 1 else n)"
| spawn_engine: "spawn_run mint sha numstr opts c n \<Longrightarrow> spawn_run mint sha numstr opts (c\<lparr> ct_budget := b, ct_termination := t \<rparr>) n"

definition quota_inv :: "controller \<Rightarrow> nat \<Rightarrow> bool" where
  "quota_inv c n \<longleftrightarrow> jm_wf (ct_childrenOf c) \<and> sum_list (map snd (ct_childrenOf c)) = n \<and> ct_admittedTotal c = n
     \<and> js_isInteger (Num (ct_maxChildrenPerNode c)) \<and> (\<forall>k. of_nat (children_of k c) \<le> ct_maxChildrenPerNode c)
     \<and> (\<forall>m. ct_maxTotalSpawns c = Some m \<longrightarrow> js_isInteger (Num m) \<and> of_nat n \<le> m)"

lemma below_integer: "of_nat n < x \<Longrightarrow> js_isInteger (Num x) \<Longrightarrow> of_nat (n + 1) \<le> x"
proof -
  assume less: "of_nat n < x" and whole: "js_isInteger (Num x)"
  from whole have x: "x = of_int \<lfloor>x\<rfloor>" by (simp only: js_isInteger.simps)
  with less have "int n < \<lfloor>x\<rfloor>" by (metis of_int_less_iff of_int_of_nat_eq)
  then have "of_int (int n + 1) \<le> (of_int \<lfloor>x\<rfloor> :: rat)" by (intro of_int_le_iff [THEN iffD2]) simp
  then show ?thesis using x by simp
qed

lemma sum_set_count:
  fixes m :: "('k, nat) jsmap"
  assumes "jm_wf m"
  shows "sum_list (map snd (jm_set k ((case jm_get m k of Some n \<Rightarrow> n | None \<Rightarrow> 0) + 1) m)) = sum_list (map snd m) + 1"
  using assms by (induction m) (auto simp: jm_wf_def split: option.splits)

lemma new_controller_quotas: "new_controller opts b = Inr c \<Longrightarrow> quota_inv c 0"
  by (auto simp: new_controller_def result_simps quota_inv_def children_of_def option_or_def requirePositiveInteger_def
      DEFAULT_MAX_CHILDREN_PER_NODE_def split: option.splits js_number.splits if_splits)

lemma quota_step:
  assumes "quota_inv c n" "admit mint sha numstr journal commit spec c = (c', r)"
  shows "quota_inv c' (if is_admit r then n + 1 else n)"
  using assms(2)
proof (cases rule: admit_ends)
  case free
  then show ?thesis using assms(1) by (simp add: quota_inv_def unspent_def children_of_def)
next
  case (admitted depth c1 l st c2 units d)
  note core = same_coreD [OF evaluate_effect(1) [OF admitted(2)]]
  note lim = refusal_none [OF admitted(3)]
  have keep: "ct_childrenOf c2 = ct_childrenOf c1" "ct_admittedTotal c2 = ct_admittedTotal c1"
    "ct_maxChildrenPerNode c2 = ct_maxChildrenPerNode c1" "ct_maxTotalSpawns c2 = ct_maxTotalSpawns c1"
    by (subst take_money_effect(1) [OF admitted(4)], simp)+
  let ?k = "node_key spec"
  have c': "ct_childrenOf c' = jm_set ?k (children_of ?k c + 1) (ct_childrenOf c)" "ct_admittedTotal c' = ct_admittedTotal c + 1"
    "ct_maxChildrenPerNode c' = ct_maxChildrenPerNode c" "ct_maxTotalSpawns c' = ct_maxTotalSpawns c"
    using admitted(5) keep core unfolding charged_once_def by (simp_all add: children_of_def)
  have "of_nat (children_of ?k c) < ct_maxChildrenPerNode c" using lim(2) core by (simp add: children_of_def)
  then have seat: "of_nat (children_of ?k c + 1) \<le> ct_maxChildrenPerNode c"
    using assms(1) below_integer unfolding quota_inv_def by blast
  have "children_of k c' = (if k = ?k then children_of ?k c + 1 else children_of k c)" for k
    using c'(1) by (simp add: children_of_def jm_get_set)
  then have kids: "\<forall>k. of_nat (children_of k c') \<le> ct_maxChildrenPerNode c'"
    using assms(1) seat c'(3) by (simp add: quota_inv_def)
  have "of_nat (n + 1) \<le> m" if "ct_maxTotalSpawns c = Some m" for m
    using lim(3) [of m] that core assms(1) below_integer unfolding quota_inv_def by metis
  then have cap: "\<forall>m. ct_maxTotalSpawns c' = Some m \<longrightarrow> js_isInteger (Num m) \<and> of_nat (n + 1) \<le> m"
    using assms(1) c'(4) unfolding quota_inv_def by simp
  have "sum_list (map snd (ct_childrenOf c')) = n + 1" "jm_wf (ct_childrenOf c')"
    using assms(1) sum_set_count [of "ct_childrenOf c" ?k] unfolding c'(1) quota_inv_def children_of_def by auto
  then show ?thesis using kids cap admitted(6,7) assms(1) c'(2,3) unfolding quota_inv_def by simp
qed


definition demo_controller_options :: controller_options where
  "demo_controller_options = \<lparr> co_maxDepth = Some (Num 2), co_maxChildrenPerNode = None, co_childBudgetFraction = None,
     co_flatReserveUsd = None, co_maxTotalSpawns = None, co_lineage = Some None \<rparr>"

lemma demo_controller_new: "new_controller demo_controller_options demo_opened = Inr demo_controller"
  by (simp add: new_controller_def demo_controller_options_def valid_maxDepth_def requirePositiveInteger_def MAX_DEPTH_CEILING_def
      option_or_def validateEscalationLimits_def limit_or_def demo_controller_def DEFAULT_MAX_CHILDREN_PER_NODE_def
      DEFAULT_CHILD_BUDGET_FRACTION_def DEFAULT_ESCALATION_LIMITS_def)


end
