(* ===== verification/WireCapacity.thy ===== *)
theory WireCapacity
  imports SpawnAdmission
begin

text \<open>
  The declared economics of an orchestration plan, the first half of
  \<open>packages/core/src/orchestrator/admission.ts\<close>: which semantic rounds a posture arms, the money the
  acceptance tail needs, and the wires the plan costs. The wire specification is checked against a closed vocabulary,
  so it is an untyped object here. The rendering of the tail as text is left out.
\<close>

section \<open>Postures\<close>

datatype claim_stage = Stage_draft | Stage_final | Stage_both
datatype claim_on_found = Claim_report | Claim_carry | Claim_fail | Claim_repair
datatype citation_on_found = Citation_report | Citation_repair | Citation_fail

record semantic_posture =
  po_claimStage :: "claim_stage option"
  po_claimOnFound :: "claim_on_found option"
  po_citationOnFound :: "citation_on_found option"
  po_claimConfigured :: "bool option"

record round_arming =
  ra_claimRoundArmed :: bool
  ra_citationRoundArmed :: bool
  ra_roundArmed :: bool
  ra_citationRoundRejudgesClaim :: bool

definition stage_of :: "claim_stage option \<Rightarrow> claim_stage" where
  "stage_of s = (case s of Some x \<Rightarrow> x | None \<Rightarrow> Stage_draft)"

definition acceptanceJudgePasses :: "claim_stage option \<Rightarrow> claim_on_found option \<Rightarrow> nat" where
  "acceptanceJudgePasses stage onFound =
     (let resolved = stage_of stage;
          armed = (case onFound of Some x \<Rightarrow> x | None \<Rightarrow> Claim_report) = Claim_repair \<and> resolved \<noteq> Stage_draft
      in (if resolved = Stage_both then 2 else 1) + (if armed then 1 else 0))"

definition semanticRoundArming :: "semantic_posture \<Rightarrow> round_arming" where
  "semanticRoundArming p =
     (let stage = stage_of (po_claimStage p);
          claimRound = (po_claimOnFound p = Some Claim_repair \<and> stage \<noteq> Stage_draft);
          citationRound = (po_citationOnFound p = Some Citation_repair)
      in \<lparr> ra_claimRoundArmed = claimRound, ra_citationRoundArmed = citationRound, ra_roundArmed = (claimRound \<or> citationRound),
           ra_citationRoundRejudgesClaim =
             (citationRound \<and> \<not> claimRound \<and> po_claimConfigured p = Some True \<and> stage \<noteq> Stage_draft) \<rparr>)"

section \<open>The acceptance tail\<close>

record tail_spec =
  ts_posture :: semantic_posture
  ts_synthesisReserveUsd :: "js_number option"
  ts_claimJudgeEstCostUsd :: "js_number option"
  ts_finishEstRepairCostUsd :: "js_number option"
  ts_synthesisEstCostUsd :: "js_number option"
  ts_citationJudgeEstCostUsd :: "js_number option"
  ts_workingRoomUsd :: js_number

record tail_terms =
  tt_synthesisReserveUsd :: js_number
  tt_judgeEstUsd :: js_number
  tt_judgePasses :: nat
  tt_estRepairCostUsd :: js_number
  tt_roundCompositionUsd :: js_number
  tt_citationJudgeEstUsd :: "js_number option"
  tt_citationJudgePasses :: "nat option"
  tt_workingRoomUsd :: js_number

definition or_nothing :: "js_number option \<Rightarrow> js_number" where
  "or_nothing v = (case v of Some x \<Rightarrow> x | None \<Rightarrow> 0)"

definition acceptanceTailRequiredUsd :: "tail_spec \<Rightarrow> js_number \<times> tail_terms" where
  "acceptanceTailRequiredUsd spec =
     (let p = ts_posture spec;
          arming = semanticRoundArming p;
          citationDeclared = (ts_citationJudgeEstCostUsd spec \<noteq> None \<or> po_citationOnFound p \<noteq> None);
          judgePasses = acceptanceJudgePasses (po_claimStage p) (po_claimOnFound p) + (if ra_citationRoundRejudgesClaim arming then 1 else 0);
          citationJudgePasses = (if citationDeclared then 1 + (if ra_citationRoundArmed arming then 1 else 0) else 0);
          citationJudgeEst = or_nothing (ts_citationJudgeEstCostUsd spec);
          terms = \<lparr> tt_synthesisReserveUsd = or_nothing (ts_synthesisReserveUsd spec),
            tt_judgeEstUsd = or_nothing (ts_claimJudgeEstCostUsd spec), tt_judgePasses = judgePasses,
            tt_estRepairCostUsd = or_nothing (ts_finishEstRepairCostUsd spec),
            tt_roundCompositionUsd = (if ra_roundArmed arming then or_nothing (ts_synthesisEstCostUsd spec) else 0),
            tt_citationJudgeEstUsd = (if citationDeclared then Some citationJudgeEst else None),
            tt_citationJudgePasses = (if citationDeclared then Some citationJudgePasses else None),
            tt_workingRoomUsd = ts_workingRoomUsd spec \<rparr>
      in (tt_synthesisReserveUsd terms + tt_judgeEstUsd terms * Num (of_nat (tt_judgePasses terms)) + tt_estRepairCostUsd terms
            + tt_roundCompositionUsd terms + citationJudgeEst * Num (of_nat citationJudgePasses) + tt_workingRoomUsd terms, terms))"

section \<open>Wires\<close>

definition KNOWN_KEYS :: "string list" where
  "KNOWN_KEYS = [''childWires'', ''children'', ''turnsPerChild'', ''coordinationWires'', ''synthesisWires'', ''judgeWires'',
     ''citationJudgeWires'', ''extractWires'', ''claimStage'', ''claimOnFound'', ''citationOnFound'', ''claimConfigured'',
     ''maxTotalRepairRounds'', ''maxSemanticRepairRounds'']"

record wire_estimate =
  we_baseWires :: js_number
  we_repairRoundDeltaWires :: nat
  we_mechanicalRepairDeltaWires :: nat
  we_wiresWithRound :: js_number
  we_roundOverheadShare :: js_number
  we_repairWiresCeiling :: "rat option"

definition vet_value :: "(js_number \<Rightarrow> rat result) \<Rightarrow> js_value \<Rightarrow> rat result" where
  "vet_value vet v = (case v of V_num n \<Rightarrow> vet n | _ \<Rightarrow> Inl ConfigError)"

definition vet_optional :: "(js_number \<Rightarrow> rat result) \<Rightarrow> js_value \<Rightarrow> rat option result" where
  "vet_optional vet v = (if v = V_undefined then Inr None else bindR (vet_value vet v) (\<lambda>x. Inr (Some x)))"

text \<open>A count that reads as zero when it is nullish.\<close>

definition vet_or_zero :: "js_value \<Rightarrow> rat result" where
  "vet_or_zero v = (if v_nullish v then Inr 0 else vet_value requireNonNegativeNumber v)"

text \<open>The fan-out: the total, the structural pair, or both in agreement.\<close>

definition fan_out :: "js_value \<Rightarrow> js_number result" where
  "fan_out spec =
     (let children = v_member spec ''children''; turns = v_member spec ''turnsPerChild''; wires = v_member spec ''childWires'';
          structural = (children \<noteq> V_undefined \<or> turns \<noteq> V_undefined)
      in if structural then
           if children = V_undefined \<or> turns = V_undefined then Inl ConfigError
           else bindR (vet_value requireNonNegativeNumber children) (\<lambda>n.
                bindR (vet_value requireNonNegativeNumber turns) (\<lambda>t.
                bindR (vet_optional requireNonNegativeNumber wires) (\<lambda>w.
                  case w of
                    None \<Rightarrow> Inr (Num n * Num t)
                  | Some x \<Rightarrow> if Num x \<noteq> Num n * Num t then Inl ConfigError else Inr (Num x))))
         else if wires = V_undefined then Inl ConfigError
         else bindR (vet_value requireNonNegativeNumber wires) (\<lambda>x. Inr (Num x)))"

definition repair_pool :: "js_value \<Rightarrow> (rat option \<times> rat option) result" where
  "repair_pool spec =
     bindR (vet_optional requireNonNegativeInteger (v_member spec ''maxTotalRepairRounds'')) (\<lambda>total_rounds.
     bindR (vet_optional requireNonNegativeInteger (v_member spec ''maxSemanticRepairRounds'')) (\<lambda>semantic.
       case (total_rounds, semantic) of
         (Some t, Some s) \<Rightarrow> if s > t then Inl ConfigError else Inr (Some t, Some s)
       | _ \<Rightarrow> Inr (total_rounds, semantic)))"

definition read_stage :: "js_value \<Rightarrow> claim_stage option result" where
  "read_stage v =
     (if v = V_undefined then Inr None else if v = V_str ''draft'' then Inr (Some Stage_draft)
      else if v = V_str ''final'' then Inr (Some Stage_final) else if v = V_str ''both'' then Inr (Some Stage_both) else Inl ConfigError)"

definition read_claim_found :: "js_value \<Rightarrow> claim_on_found option result" where
  "read_claim_found v =
     (if v = V_undefined then Inr None else if v = V_str ''report'' then Inr (Some Claim_report)
      else if v = V_str ''carry'' then Inr (Some Claim_carry) else if v = V_str ''fail'' then Inr (Some Claim_fail)
      else if v = V_str ''repair'' then Inr (Some Claim_repair) else Inl ConfigError)"

definition read_citation_found :: "js_value \<Rightarrow> citation_on_found option result" where
  "read_citation_found v =
     (if v = V_undefined then Inr None else if v = V_str ''report'' then Inr (Some Citation_report)
      else if v = V_str ''repair'' then Inr (Some Citation_repair) else if v = V_str ''fail'' then Inr (Some Citation_fail)
      else Inl ConfigError)"

definition read_configured :: "js_value \<Rightarrow> bool option result" where
  "read_configured v = (case v of V_undefined \<Rightarrow> Inr None | V_bool b \<Rightarrow> Inr (Some b) | _ \<Rightarrow> Inl ConfigError)"

definition read_posture :: "js_value \<Rightarrow> semantic_posture result" where
  "read_posture spec =
     bindR (read_stage (v_member spec ''claimStage'')) (\<lambda>stage.
     bindR (read_claim_found (v_member spec ''claimOnFound'')) (\<lambda>claim.
     bindR (read_citation_found (v_member spec ''citationOnFound'')) (\<lambda>citation.
     bindR (read_configured (v_member spec ''claimConfigured'')) (\<lambda>configured.
       Inr \<lparr> po_claimStage = stage, po_claimOnFound = claim, po_citationOnFound = citation, po_claimConfigured = configured \<rparr>))))"

definition claim_configured :: "semantic_posture \<Rightarrow> bool" where
  "claim_configured p \<longleftrightarrow> po_claimConfigured p = Some True \<or> po_claimStage p \<noteq> None \<or> po_claimOnFound p \<noteq> None"

definition computed_judge_wires :: "semantic_posture \<Rightarrow> nat" where
  "computed_judge_wires p = (if claim_configured p then if po_claimStage p = Some Stage_both then 2 else 1 else 0)"

definition computed_citation_wires :: "semantic_posture \<Rightarrow> nat" where
  "computed_citation_wires p = (if po_citationOnFound p = None then 0 else 1)"

definition round_delta :: "semantic_posture \<Rightarrow> nat" where
  "round_delta p =
     (let arming = semanticRoundArming p
      in if ra_roundArmed arming
         then 1 + (if ra_claimRoundArmed arming then 1 else 0) + (if ra_citationRoundArmed arming then 1 else 0)
              + (if ra_citationRoundRejudgesClaim arming then 1 else 0)
         else 0)"

definition posture_declared :: "js_value \<Rightarrow> bool" where
  "posture_declared spec \<longleftrightarrow> v_member spec ''claimStage'' \<noteq> V_undefined \<or> v_member spec ''claimOnFound'' \<noteq> V_undefined
     \<or> v_member spec ''citationOnFound'' \<noteq> V_undefined \<or> v_member spec ''claimConfigured'' \<noteq> V_undefined"

definition contradicts :: "js_value \<Rightarrow> nat \<Rightarrow> bool" where
  "contradicts v n \<longleftrightarrow> v \<noteq> V_undefined \<and> v \<noteq> V_num (Num (of_nat n))"

text \<open>The judge wires, the citation judge wires and the delta of the round.\<close>

definition semantic_wires :: "js_value \<Rightarrow> (rat \<times> rat \<times> nat) result" where
  "semantic_wires spec =
     (let judge = v_member spec ''judgeWires''; citation = v_member spec ''citationJudgeWires''
      in if posture_declared spec then
           bindR (read_posture spec) (\<lambda>p.
             if contradicts judge (computed_judge_wires p) then Inl ConfigError
             else if contradicts citation (computed_citation_wires p) then Inl ConfigError
             else Inr (of_nat (computed_judge_wires p), of_nat (computed_citation_wires p), round_delta p))
         else bindR (vet_or_zero judge) (\<lambda>j. bindR (vet_or_zero citation) (\<lambda>c. Inr (j, c, 2))))"

text \<open>The worst case of the repair pool: one round beside the mechanical grants left, or mechanical grants only.\<close>

definition repair_ceiling :: "rat \<Rightarrow> rat option \<Rightarrow> nat \<Rightarrow> rat" where
  "repair_ceiling pool semantic delta =
     (let reserve = (case semantic of Some s \<Rightarrow> s | None \<Rightarrow> 0);
          allowed = (pool \<ge> 1 \<and> (case semantic of Some s \<Rightarrow> s \<ge> 1 | None \<Rightarrow> True));
          withRound = (if allowed then of_nat delta + (pool - max 1 reserve) else 0);
          withoutRound = pool - reserve
      in max (max withRound withoutRound) 0)"

definition wireCapacityEstimate :: "(string \<times> js_value) list \<Rightarrow> wire_estimate result" where
  "wireCapacityEstimate members =
     (let spec = V_obj members
      in if list_ex (\<lambda>key. key \<notin> set KNOWN_KEYS) (map fst members) then Inl ConfigError
         else
           bindR (fan_out spec) (\<lambda>childWires.
           bindR (vet_or_zero (v_member spec ''coordinationWires'')) (\<lambda>coordination.
           bindR (vet_or_zero (v_member spec ''synthesisWires'')) (\<lambda>synthesis.
           bindR (vet_or_zero (v_member spec ''extractWires'')) (\<lambda>extract.
           bindR (repair_pool spec) (\<lambda>(pool, semantic).
           bindR (semantic_wires spec) (\<lambda>(judge, citation, delta).
             let base = childWires + Num coordination + Num synthesis + Num judge + Num citation + Num extract
             in Inr \<lparr> we_baseWires = base, we_repairRoundDeltaWires = delta, we_mechanicalRepairDeltaWires = 1,
                      we_wiresWithRound = base + Num (of_nat delta),
                      we_roundOverheadShare = (if base = Num 0 then 0 else js_div (Num (of_nat delta)) base),
                      we_repairWiresCeiling = map_option (\<lambda>t. repair_ceiling t semantic delta) pool \<rparr>)))))))"

definition retryWireMultiplier :: "js_number \<Rightarrow> js_number \<Rightarrow> js_number result" where
  "retryWireMultiplier baseWires retries =
     bindR (requireNonNegativeNumber retries) (\<lambda>r.
       case baseWires of
         Num b \<Rightarrow> if b \<le> 0 then Inl ConfigError else Inr (Num 1 + js_div (Num r) (Num b))
       | _ \<Rightarrow> Inl ConfigError)"

section \<open>Money and wires\<close>

lemma posture_of_configured:
  assumes "read_posture spec = Inr p" "claim_configured p"
  shows "posture_declared spec"
  using assms
  by (auto simp: read_posture_def result_simps claim_configured_def posture_declared_def read_stage_def read_claim_found_def
      read_configured_def split: if_splits js_value.splits)

lemma estimate_delta:
  assumes "wireCapacityEstimate members = Inr est" "read_posture (V_obj members) = Inr p" "posture_declared (V_obj members)"
  shows "we_repairRoundDeltaWires est = round_delta p"
  using assms by (auto simp: wireCapacityEstimate_def semantic_wires_def result_simps Let_def split: if_splits prod.splits)


definition demo_plan :: "(string \<times> js_value) list" where
  "demo_plan = [(''children'', V_num (Num 4)), (''turnsPerChild'', V_num (Num 10)), (''claimStage'', V_str ''both''),
     (''claimOnFound'', V_str ''repair''), (''citationOnFound'', V_str ''repair'')]"

definition demo_posture :: semantic_posture where
  "demo_posture = \<lparr> po_claimStage = Some Stage_both, po_claimOnFound = Some Claim_repair, po_citationOnFound = Some Citation_repair,
     po_claimConfigured = None \<rparr>"

definition demo_tail :: tail_spec where
  "demo_tail = \<lparr> ts_posture = demo_posture, ts_synthesisReserveUsd = None, ts_claimJudgeEstCostUsd = Some (Num 1),
     ts_finishEstRepairCostUsd = None, ts_synthesisEstCostUsd = None, ts_citationJudgeEstCostUsd = None, ts_workingRoomUsd = Num 0 \<rparr>"

lemma demo_plan_posture: "read_posture (V_obj demo_plan) = Inr demo_posture"
  by (simp add: read_posture_def demo_plan_def demo_posture_def read_stage_def read_claim_found_def read_citation_found_def
      read_configured_def)

lemma demo_plan_estimate: "\<exists>est. wireCapacityEstimate demo_plan = Inr est"
proof -
  have "semantic_wires (V_obj demo_plan) = Inr (of_nat (computed_judge_wires demo_posture), of_nat (computed_citation_wires demo_posture), round_delta demo_posture)"
    using demo_plan_posture by (simp add: semantic_wires_def posture_declared_def demo_plan_def contradicts_def Let_def)
  moreover have "fan_out (V_obj demo_plan) = Inr (Num 4 * Num 10)" "repair_pool (V_obj demo_plan) = Inr (None, None)"
    by (simp_all add: fan_out_def repair_pool_def demo_plan_def vet_value_def vet_optional_def requireNonNegativeNumber_def Let_def)
  moreover have "list_ex (\<lambda>key. key \<notin> set KNOWN_KEYS) (map fst demo_plan) = False" by (simp add: KNOWN_KEYS_def demo_plan_def)
  moreover have "vet_or_zero (v_member (V_obj demo_plan) ''coordinationWires'') = Inr 0"
    "vet_or_zero (v_member (V_obj demo_plan) ''synthesisWires'') = Inr 0" "vet_or_zero (v_member (V_obj demo_plan) ''extractWires'') = Inr 0"
    by (simp_all add: demo_plan_def vet_or_zero_def)
  ultimately show ?thesis by (simp add: wireCapacityEstimate_def Let_def)
qed


text \<open>
  A claim pass that is declared by its stage alone is counted as configured by the estimate, but the
  arming does not rejudge it after a citation round.
\<close>

lemma rejudge_needs_flag:
  assumes "p = \<lparr> po_claimStage = Some Stage_final, po_claimOnFound = None, po_citationOnFound = Some Citation_repair, po_claimConfigured = None \<rparr>"
  shows "claim_configured p \<and> round_delta p = 2 \<and> round_delta (p\<lparr> po_claimConfigured := Some True \<rparr>) = 3"
  by (simp add: assms claim_configured_def round_delta_def semanticRoundArming_def stage_of_def Let_def)

text \<open>The repair ceiling is the cost of the dearest trajectory the pool allows.\<close>

definition repair_trajectory :: "rat \<Rightarrow> rat option \<Rightarrow> nat \<Rightarrow> rat \<Rightarrow> bool" where
  "repair_trajectory pool semantic delta cost \<longleftrightarrow>
     (let reserve = (case semantic of Some s \<Rightarrow> s | None \<Rightarrow> 0)
      in (\<exists>mech \<ge> 0. mech + reserve \<le> pool \<and> cost = mech)
       \<or> (\<exists>mech \<ge> 0. (\<forall>s. semantic = Some s \<longrightarrow> s \<ge> 1) \<and> mech + max 1 reserve \<le> pool \<and> cost = of_nat delta + mech))"

lemma repair_ceiling_exact:
  assumes "0 \<le> pool" "\<And>s. semantic = Some s \<Longrightarrow> 0 \<le> s \<and> s \<le> pool"
  shows "repair_trajectory pool semantic delta (repair_ceiling pool semantic delta)
    \<and> (\<forall>cost. repair_trajectory pool semantic delta cost \<longrightarrow> cost \<le> repair_ceiling pool semantic delta)"
proof -
  define reserve where "reserve = (case semantic of Some s \<Rightarrow> s | None \<Rightarrow> 0)"
  define allowed where "allowed \<longleftrightarrow> pool \<ge> 1 \<and> (\<forall>s. semantic = Some s \<longrightarrow> s \<ge> 1)"
  have res: "0 \<le> reserve" "reserve \<le> pool" using assms by (auto simp: reserve_def split: option.splits)
  have ceil: "repair_ceiling pool semantic delta = (if allowed then max (of_nat delta + (pool - max 1 reserve)) (pool - reserve) else pool - reserve)"
    using res by (auto simp: repair_ceiling_def allowed_def reserve_def Let_def max_def split: option.splits)
  have traj: "repair_trajectory pool semantic delta cost \<longleftrightarrow> (\<exists>mech \<ge> 0. mech + reserve \<le> pool \<and> cost = mech)
       \<or> (\<exists>mech \<ge> 0. (\<forall>s. semantic = Some s \<longrightarrow> s \<ge> 1) \<and> mech + max 1 reserve \<le> pool \<and> cost = of_nat delta + mech)" for cost
    by (simp add: repair_trajectory_def reserve_def Let_def)
  have "repair_trajectory pool semantic delta (pool - reserve)" unfolding traj using res by auto
  moreover have "repair_trajectory pool semantic delta (of_nat delta + (pool - max 1 reserve))" if allowed
    unfolding traj using that res by (intro disjI2 exI [of _ "pool - max 1 reserve"]) (auto simp: allowed_def)
  ultimately have attained: "repair_trajectory pool semantic delta (repair_ceiling pool semantic delta)"
    unfolding ceil by (auto simp: max_def)
  have "cost \<le> repair_ceiling pool semantic delta" if "repair_trajectory pool semantic delta cost" for cost
    using that unfolding traj
  proof (elim disjE exE conjE)
    fix mech assume "0 \<le> mech" "mech + reserve \<le> pool" "cost = mech"
    then show ?thesis unfolding ceil by (auto simp: le_max_iff_disj)
  next
    fix mech assume m: "0 \<le> mech" "\<forall>s. semantic = Some s \<longrightarrow> s \<ge> 1" "mech + max 1 reserve \<le> pool" "cost = of_nat delta + mech"
    then have allowed unfolding allowed_def by auto
    then show ?thesis unfolding ceil using m by (auto simp: le_max_iff_disj)
  qed
  then show ?thesis using attained by blast
qed

end
