(* ===== verification/PlanState.thy ===== *)
theory PlanState
  imports KeyDeriver
begin

text \<open>
  The task plan of the adaptive orchestrator, \<open>packages/plan/src/plan-state.ts\<close>, its hash,
  \<open>plan-hash.ts\<close>, and the spec digest, \<open>task-spec.ts\<close>. The nodes are a record keyed by node
  identifier: an insertion-ordered map, as the identifiers are minted and never read as array
  indices. Names a JavaScript object inherits (\<open>constructor\<close>) are no node identifiers here. A spec
  is its JSON members, a patch may carry \<open>undefined\<close> members.
\<close>

section \<open>The plan\<close>

datatype node_status =
    Ns_pending | Ns_ready | Ns_running | Ns_parked | Ns_escalated | Ns_done | Ns_failed | Ns_cancelled | Ns_skipped

record plan_node =
  pn_nodeId :: string
  pn_logicalTaskId :: string
  pn_status :: node_status
  pn_deps :: "string list"
  pn_waivedDeps :: "string list"
  pn_parkRequested :: bool
  pn_cancelRequested :: bool
  pn_priority :: rat
  pn_promptSpecHash :: string
  pn_checkpointRef :: "nat option"
  pn_escalationRef :: "nat option"

record task_plan =
  tp_nodes :: "(string, plan_node) jsmap"
  tp_revisionCount :: nat
  tp_droppedRevisionStreak :: nat

definition emptyPlan :: task_plan where
  "emptyPlan = \<lparr> tp_nodes = [], tp_revisionCount = 0, tp_droppedRevisionStreak = 0 \<rparr>"

abbreviation node_at :: "task_plan \<Rightarrow> string \<Rightarrow> plan_node option" where
  "node_at p i \<equiv> jm_get (tp_nodes p) i"

definition status_at :: "task_plan \<Rightarrow> string \<Rightarrow> node_status option" where
  "status_at p i = map_option pn_status (node_at p i)"

definition TERMINAL_PLAN_STATUSES :: "node_status list" where
  "TERMINAL_PLAN_STATUSES = [Ns_done, Ns_failed, Ns_cancelled, Ns_skipped]"

definition isTerminalPlanStatus :: "node_status \<Rightarrow> bool" where
  "isTerminalPlanStatus s \<longleftrightarrow> s \<in> set TERMINAL_PLAN_STATUSES"

lemma terminal_cases [simp]:
  "isTerminalPlanStatus s \<longleftrightarrow> s = Ns_done \<or> s = Ns_failed \<or> s = Ns_cancelled \<or> s = Ns_skipped"
  by (auto simp: isTerminalPlanStatus_def TERMINAL_PLAN_STATUSES_def)

definition assertPlanTransition :: "plan_node \<Rightarrow> node_status \<Rightarrow> unit result" where
  "assertPlanTransition node to =
     (if isTerminalPlanStatus (pn_status node) then Inl (PlanInvariant (Terminal_node (pn_nodeId node)))
      else if pn_status node = to then Inl (PlanInvariant (Restated_status (pn_nodeId node)))
      else if to = Ns_running \<and> pn_status node \<noteq> Ns_ready then Inl (PlanInvariant (Not_ready (pn_nodeId node)))
      else Inr ())"

lemma assertPlanTransition_ok:
  "assertPlanTransition n to = Inr u \<longleftrightarrow>
     \<not> isTerminalPlanStatus (pn_status n) \<and> pn_status n \<noteq> to \<and> (to = Ns_running \<longrightarrow> pn_status n = Ns_ready)"
  by (auto simp: assertPlanTransition_def)

section \<open>Readiness\<close>

definition depsSatisfied :: "task_plan \<Rightarrow> plan_node \<Rightarrow> bool" where
  "depsSatisfied p node =
     list_all (\<lambda>dep. dep \<in> set (pn_waivedDeps node) \<or> status_at p dep = Some Ns_done) (pn_deps node)"

definition schedulable :: "plan_node \<Rightarrow> bool" where
  "schedulable node \<longleftrightarrow> pn_status node = Ns_pending \<or> pn_status node = Ns_ready"

definition recompute_node :: "task_plan \<Rightarrow> plan_node \<Rightarrow> plan_node" where
  "recompute_node p node =
     (if schedulable node then node\<lparr> pn_status := (if depsSatisfied p node then Ns_ready else Ns_pending) \<rparr> else node)"

text \<open>The loop rebuilds the record in its order; a plan with nothing to change comes back as it is.\<close>

definition recomputePlanReadiness :: "task_plan \<Rightarrow> task_plan" where
  "recomputePlanReadiness p = p\<lparr> tp_nodes := map (\<lambda>(i, node). (i, recompute_node p node)) (tp_nodes p) \<rparr>"

section \<open>The cycle check\<close>

type_synonym dep_graph = "(string, string list) jsmap"

definition deps_in :: "dep_graph \<Rightarrow> string \<Rightarrow> string list" where
  "deps_in g i = (case jm_get g i of Some ds \<Rightarrow> ds | None \<Rightarrow> [])"

definition plan_graph :: "task_plan \<Rightarrow> dep_graph" where
  "plan_graph p = map (\<lambda>(i, node). (i, pn_deps node)) (tp_nodes p)"

definition unvisited :: "dep_graph \<Rightarrow> string list \<Rightarrow> nat" where
  "unvisited g visiting = card (set (jm_keys g) - set visiting)"

lemma deps_in_unknown: "i \<notin> set (jm_keys g) \<Longrightarrow> deps_in g i = []"
  using jm_get_None_keys [of g i] by (simp add: deps_in_def)

lemma unvisited_le: "unvisited g (i # visiting) \<le> unvisited g visiting"
  unfolding unvisited_def by (rule card_mono) auto

lemma unvisited_less:
  "i \<in> set (jm_keys g) \<Longrightarrow> i \<notin> set visiting \<Longrightarrow> unvisited g (i # visiting) < unvisited g visiting"
  unfolding unvisited_def by (rule psubset_card_mono) auto

text \<open>
  The recursive visit: \<open>None\<close> is the answer that a cycle was met. The set of nodes being visited is
  restored on the way out, so it is the path of the call. Every call descends to a node outside the path
  or shortens the list; an unknown node has no dependencies.
\<close>

function visit :: "dep_graph \<Rightarrow> string list \<Rightarrow> string list \<Rightarrow> string \<Rightarrow> string list option"
  and visit_deps :: "dep_graph \<Rightarrow> string list \<Rightarrow> string list \<Rightarrow> string list \<Rightarrow> string list option" where
  "visit g visiting settled i =
     (if i \<in> set settled then Some settled
      else if i \<in> set visiting then None
      else map_option (\<lambda>s. i # s) (visit_deps g (i # visiting) settled (deps_in g i)))"
| "visit_deps g visiting settled [] = Some settled"
| "visit_deps g visiting settled (dep # deps) =
     (case visit g visiting settled dep of
        None \<Rightarrow> None
      | Some s \<Rightarrow> visit_deps g visiting s deps)"
  by pat_completeness auto

termination
proof (relation "inv_image (less_than <*lex*> less_than)
    (\<lambda>x. case x of Inl (g, visiting, settled, i) \<Rightarrow> (unvisited g visiting, 1)
                 | Inr (g, visiting, settled, deps) \<Rightarrow> (unvisited g visiting, 2 * length deps))", goal_cases)
  case 1
  show ?case by (intro wf_inv_image wf_lex_prod wf_less_than)
next
  case (2 g visiting settled i)
  then show ?case
  proof (cases "i \<in> set (jm_keys g)")
    case True
    with 2 unvisited_less show ?thesis by auto
  next
    case False
    with unvisited_le [of g i visiting] show ?thesis by (auto simp: deps_in_unknown)
  qed
qed auto

declare visit.simps [simp del]

definition wouldCreateDepCycle :: "task_plan \<Rightarrow> string \<Rightarrow> string list \<Rightarrow> bool" where
  "wouldCreateDepCycle p nodeId deps \<longleftrightarrow> visit (jm_set nodeId deps (plan_graph p)) [] [] nodeId = None"

section \<open>The cancel cascade\<close>

text \<open>
  One node of the pass of \<open>cascadeOf\<close> (\<open>rebase.ts\<close>) over the cascade so far, the severed set and the
  flag that the pass grew it.
\<close>

type_synonym cascade_state = "string list \<times> string list \<times> bool"

definition blocked_on :: "string list \<Rightarrow> plan_node \<Rightarrow> bool" where
  "blocked_on severed node \<longleftrightarrow> list_ex (\<lambda>dep. dep \<in> set severed \<and> dep \<notin> set (pn_waivedDeps node)) (pn_deps node)"

definition cascade_visit :: "plan_node \<Rightarrow> cascade_state \<Rightarrow> cascade_state" where
  "cascade_visit node st =
     (case st of (cascade, severed, grew) \<Rightarrow>
        if pn_nodeId node \<in> set severed \<or> isTerminalPlanStatus (pn_status node) then st
        else if pn_status node = Ns_running then st
        else if blocked_on severed node then (cascade @ [pn_nodeId node], severed @ [pn_nodeId node], True)
        else st)"

definition cascade_pass :: "plan_node list \<Rightarrow> string list \<Rightarrow> string list \<Rightarrow> cascade_state" where
  "cascade_pass nodes cascade severed = fold cascade_visit nodes (cascade, severed, False)"

lemma cascade_visits_grow:
  assumes "fold cascade_visit nodes (c, s, b) = (c', s', b')"
  shows "set s \<subseteq> set s' \<and> (b' \<and> \<not> b \<longrightarrow> (\<exists>n \<in> set nodes. pn_nodeId n \<in> set s' - set s))"
  using assms
proof (induction nodes arbitrary: c s b)
  case (Cons n nodes)
  obtain c1 s1 b1 where step: "cascade_visit n (c, s, b) = (c1, s1, b1)" by (cases "cascade_visit n (c, s, b)")
  have "fold cascade_visit nodes (c1, s1, b1) = (c', s', b')" using Cons.prems step by simp
  from Cons.IH [OF this]
  have IH: "set s1 \<subseteq> set s' \<and> (b' \<and> \<not> b1 \<longrightarrow> (\<exists>m \<in> set nodes. pn_nodeId m \<in> set s' - set s1))" .
  show ?case
  proof (cases "s1 = s \<and> b1 = b")
    case True
    with IH show ?thesis by auto
  next
    case False
    with step have "pn_nodeId n \<notin> set s" "s1 = s @ [pn_nodeId n]"
      by (auto simp: cascade_visit_def split: if_splits)
    with IH show ?thesis by auto
  qed
qed auto

function cascade_loop :: "plan_node list \<Rightarrow> string list \<Rightarrow> string list \<Rightarrow> string list" where
  "cascade_loop nodes cascade severed =
     (case cascade_pass nodes cascade severed of
        (cascade', severed', grew) \<Rightarrow> if grew then cascade_loop nodes cascade' severed' else cascade')"
  by pat_completeness auto

termination
proof (relation "measure (\<lambda>(nodes, cascade, severed). card (set (map pn_nodeId nodes) - set severed))", goal_cases)
  case 1
  show ?case by simp
next
  case (2 nodes cascade severed cascade' rest severed' grew)
  then have "fold cascade_visit nodes (cascade, severed, False) = (cascade', severed', True)"
    by (auto simp: cascade_pass_def)
  from cascade_visits_grow [OF this]
  have "set (map pn_nodeId nodes) - set severed' \<subset> set (map pn_nodeId nodes) - set severed" by auto
  then show ?case by (auto intro!: psubset_card_mono)
qed

declare cascade_loop.simps [simp del]

definition cascadeOf :: "task_plan \<Rightarrow> string \<Rightarrow> string list" where
  "cascadeOf p target = sort (cascade_loop (jm_values (tp_nodes p)) [] [target])"

section \<open>Specs and the plan hash\<close>

type_synonym task_spec = "(string \<times> json) list"
type_synonym task_spec_patch = "(string \<times> json option) list"

definition promptSpecHashOf :: "(string \<Rightarrow> string) \<Rightarrow> (rat \<Rightarrow> string) \<Rightarrow> task_spec \<Rightarrow> string" where
  "promptSpecHashOf sha numstr spec =
     kd_deriveKey (deriverV2 sha numstr) (JObj [(''kind'', JStr ''plan.task-spec''), (''spec'', JObj spec)])"

definition applyTaskSpecPatch :: "task_spec \<Rightarrow> task_spec_patch \<Rightarrow> task_spec" where
  "applyTaskSpecPatch spec patch = foldl (\<lambda>m (k, v). case v of None \<Rightarrow> m | Some x \<Rightarrow> jm_set k x m) spec patch"

fun status_name :: "node_status \<Rightarrow> string" where
  "status_name Ns_pending = ''pending''"
| "status_name Ns_ready = ''ready''"
| "status_name Ns_running = ''running''"
| "status_name Ns_parked = ''parked''"
| "status_name Ns_escalated = ''escalated''"
| "status_name Ns_done = ''done''"
| "status_name Ns_failed = ''failed''"
| "status_name Ns_cancelled = ''cancelled''"
| "status_name Ns_skipped = ''skipped''"

definition ref_member :: "string \<Rightarrow> nat option \<Rightarrow> (string \<times> json) list" where
  "ref_member name ref = (case ref of None \<Rightarrow> [] | Some r \<Rightarrow> [(name, JNum (of_nat r))])"

definition canonicalNode :: "plan_node \<Rightarrow> json" where
  "canonicalNode node = JObj
     ([(''nodeId'', JStr (pn_nodeId node)), (''logicalTaskId'', JStr (pn_logicalTaskId node)),
       (''status'', JStr (status_name (pn_status node))), (''deps'', JArr (map JStr (sort (pn_deps node)))),
       (''waivedDeps'', JArr (map JStr (pn_waivedDeps node))), (''parkRequested'', JBool (pn_parkRequested node)),
       (''cancelRequested'', JBool (pn_cancelRequested node)), (''priority'', JNum (pn_priority node)),
       (''promptSpecHash'', JStr (pn_promptSpecHash node))]
      @ ref_member ''checkpointRef'' (pn_checkpointRef node) @ ref_member ''escalationRef'' (pn_escalationRef node))"

definition canonicalPlanState :: "task_plan \<Rightarrow> json" where
  "canonicalPlanState p = JObj
     [(''nodes'', JArr (map canonicalNode (sort_key pn_nodeId (jm_values (tp_nodes p))))),
      (''revisionCount'', JNum (of_nat (tp_revisionCount p))),
      (''droppedRevisionStreak'', JNum (of_nat (tp_droppedRevisionStreak p)))]"

definition planHash :: "key_deriver \<Rightarrow> task_plan \<Rightarrow> string" where
  "planHash deriver p = kd_deriveKey deriver (canonicalPlanState p)"

definition assertPlanHead :: "(string \<Rightarrow> string) \<Rightarrow> (rat \<Rightarrow> string) \<Rightarrow> task_plan \<Rightarrow> string \<Rightarrow> unit result" where
  "assertPlanHead sha numstr p expected =
     (if planHash (deriverV2 sha numstr) p = expected then Inr () else Inl (PlanInvariant Head_mismatch))"

end
