(* ===== verification/PlanGraph.thy ===== *)
theory PlanGraph
  imports PlanState
begin

text \<open>
  The two graph algorithms of the plan against their specifications: the visit of
  \<open>wouldCreateDepCycle\<close> finds a cycle exactly when one is reachable, and the passes of \<open>cascadeOf\<close>
  collect exactly the nodes that the cancelled node blocks, however far away.
\<close>

section \<open>The visit\<close>

definition dep_edges :: "dep_graph \<Rightarrow> (string \<times> string) set" where
  "dep_edges g = {(i, dep). dep \<in> set (deps_in g i)}"

definition plan_edges :: "task_plan \<Rightarrow> (string \<times> string) set" where
  "plan_edges p = dep_edges (plan_graph p)"

definition plan_acyclic :: "task_plan \<Rightarrow> bool" where
  "plan_acyclic p \<longleftrightarrow> acyclic (plan_edges p)"

text \<open>A settled set holds everything reachable from it and no node on a cycle.\<close>

definition settled_ok :: "dep_graph \<Rightarrow> string set \<Rightarrow> bool" where
  "settled_ok g S \<longleftrightarrow> dep_edges g `` S \<subseteq> S \<and> (\<forall>i \<in> S. (i, i) \<notin> (dep_edges g)\<^sup>+)"

lemma settled_reach:
  assumes "settled_ok g S" "(i, j) \<in> (dep_edges g)\<^sup>*" "i \<in> S"
  shows "j \<in> S"
  using assms(2,1,3) by (induction rule: rtrancl_induct) (auto simp: settled_ok_def)

text \<open>A node whose dependencies are settled can be settled itself.\<close>

lemma settled_insert:
  assumes "settled_ok g S" "set (deps_in g i) \<subseteq> S"
  shows "settled_ok g (insert i S)"
proof -
  have "(i, i) \<notin> (dep_edges g)\<^sup>+"
  proof
    assume "(i, i) \<in> (dep_edges g)\<^sup>+"
    then obtain d where d: "(i, d) \<in> dep_edges g" "(d, i) \<in> (dep_edges g)\<^sup>*" by (meson tranclD)
    with assms have "i \<in> S" by (auto simp: dep_edges_def intro: settled_reach)
    with assms(1) \<open>(i, i) \<in> (dep_edges g)\<^sup>+\<close> show False by (simp add: settled_ok_def)
  qed
  with assms show ?thesis by (auto simp: settled_ok_def dep_edges_def)
qed

lemma visit_settles:
  "visit g visiting settled i = Some s \<Longrightarrow> settled_ok g (set settled) \<Longrightarrow>
     settled_ok g (set s) \<and> set settled \<subseteq> set s \<and> i \<in> set s"
  "visit_deps g visiting settled deps = Some s \<Longrightarrow> settled_ok g (set settled) \<Longrightarrow>
     settled_ok g (set s) \<and> set settled \<subseteq> set s \<and> set deps \<subseteq> set s"
proof (induction g visiting settled i and g visiting settled deps arbitrary: s and s rule: visit_visit_deps.induct)
  case (1 g visiting settled i)
  show ?case
  proof (cases "i \<in> set settled")
    case True
    with "1.prems" show ?thesis by (simp add: visit.simps)
  next
    case False
    with "1.prems"(1) have new: "i \<notin> set visiting" by (auto simp: visit.simps split: if_splits)
    with False "1.prems"(1) obtain t where
      t: "visit_deps g (i # visiting) settled (deps_in g i) = Some t" and s: "s = i # t" by (auto simp: visit.simps)
    from "1.IH" [OF False new t "1.prems"(2)] s show ?thesis by (auto intro: settled_insert)
  qed
next
  case (2 g visiting settled)
  then show ?case by simp
next
  case (3 g visiting settled dep deps)
  then obtain t where "visit g visiting settled dep = Some t" "visit_deps g visiting t deps = Some s"
    by (auto split: option.splits)
  with 3 show ?case by fastforce
qed

text \<open>The path of a call leads to the node it visits, so meeting it again closes a cycle.\<close>

definition on_cycle_from :: "dep_graph \<Rightarrow> string \<Rightarrow> bool" where
  "on_cycle_from g i \<longleftrightarrow> (\<exists>j. (i, j) \<in> (dep_edges g)\<^sup>* \<and> (j, j) \<in> (dep_edges g)\<^sup>+)"

lemma on_cycle_step: "(i, d) \<in> dep_edges g \<Longrightarrow> on_cycle_from g d \<Longrightarrow> on_cycle_from g i"
  unfolding on_cycle_from_def by (meson converse_rtrancl_into_rtrancl)

lemma visit_finds:
  "visit g visiting settled i = None \<Longrightarrow> \<forall>v \<in> set visiting. (v, i) \<in> (dep_edges g)\<^sup>+ \<Longrightarrow> on_cycle_from g i"
  "visit_deps g visiting settled deps = None \<Longrightarrow> \<forall>v \<in> set visiting. \<forall>d \<in> set deps. (v, d) \<in> (dep_edges g)\<^sup>+ \<Longrightarrow>
     \<exists>d \<in> set deps. on_cycle_from g d"
proof (induction g visiting settled i and g visiting settled deps rule: visit_visit_deps.induct)
  case (1 g visiting settled i)
  from "1.prems"(1) have unsettled: "i \<notin> set settled" by (auto simp: visit.simps split: if_splits)
  show ?case
  proof (cases "i \<in> set visiting")
    case True
    with "1.prems"(2) show ?thesis by (auto simp: on_cycle_from_def)
  next
    case False
    have "visit_deps g (i # visiting) settled (deps_in g i) = None" using "1.prems"(1) unsettled False by (simp add: visit.simps)
    moreover have "\<forall>v \<in> set (i # visiting). \<forall>d \<in> set (deps_in g i). (v, d) \<in> (dep_edges g)\<^sup>+"
      using "1.prems"(2) by (auto simp: dep_edges_def intro: trancl_into_trancl)
    ultimately obtain d where "d \<in> set (deps_in g i)" "on_cycle_from g d"
      using "1.IH" [OF unsettled False] by blast
    then show ?thesis by (auto simp: dep_edges_def intro: on_cycle_step)
  qed
next
  case (2 g visiting settled)
  then show ?case by simp
next
  case (3 g visiting settled dep deps)
  then show ?case by (cases "visit g visiting settled dep") auto
qed

lemma visit_exact: "visit g [] [] i = None \<longleftrightarrow> on_cycle_from g i"
proof
  assume "visit g [] [] i = None"
  then show "on_cycle_from g i" by (rule visit_finds) simp
next
  assume cyc: "on_cycle_from g i"
  show "visit g [] [] i = None"
  proof (cases "visit g [] [] i")
    case (Some s)
    then have s: "settled_ok g (set s)" "i \<in> set s" using visit_settles(1) [OF Some] by (simp_all add: settled_ok_def)
    from cyc obtain j where "(i, j) \<in> (dep_edges g)\<^sup>*" "(j, j) \<in> (dep_edges g)\<^sup>+" by (auto simp: on_cycle_from_def)
    with settled_reach [OF s(1)] s have False by (auto simp: settled_ok_def)
    then show ?thesis ..
  qed simp
qed

section \<open>Replacing the dependencies of one node\<close>

lemma deps_in_set: "deps_in (jm_set i deps g) j = (if j = i then deps else deps_in g j)"
  by (simp add: deps_in_def jm_get_set)

lemma plan_graph_get: "jm_get (plan_graph p) i = map_option pn_deps (node_at p i)"
  by (simp add: plan_graph_def jm_get_map_values)

text \<open>A new cycle runs through the node whose edges changed.\<close>

lemma rewired_path:
  assumes "(i, j) \<in> (dep_edges (jm_set n deps g))\<^sup>+"
  shows "(i, j) \<in> (dep_edges g)\<^sup>+ \<or> ((i, n) \<in> (dep_edges (jm_set n deps g))\<^sup>* \<and> (n, j) \<in> (dep_edges (jm_set n deps g))\<^sup>+)"
  using assms
proof (induction rule: trancl_induct)
  case (base j)
  then show ?case by (cases "i = n") (auto simp: dep_edges_def deps_in_set)
next
  case (step j k)
  show ?case
  proof (cases "j = n")
    case True
    with step.hyps show ?thesis by (auto intro: trancl_into_rtrancl)
  next
    case False
    with step.hyps(2) have "(j, k) \<in> dep_edges g" by (simp add: dep_edges_def deps_in_set)
    with step show ?thesis by (meson trancl_into_trancl)
  qed
qed

lemma rewire_keeps_acyclic:
  assumes "acyclic (dep_edges g)" "\<not> on_cycle_from (jm_set n deps g) n"
  shows "acyclic (dep_edges (jm_set n deps g))"
proof (rule acyclicI, intro allI notI)
  fix i assume cyc: "(i, i) \<in> (dep_edges (jm_set n deps g))\<^sup>+"
  from rewired_path [OF this] assms(1)
  have "(i, n) \<in> (dep_edges (jm_set n deps g))\<^sup>*" "(n, i) \<in> (dep_edges (jm_set n deps g))\<^sup>+"
    by (auto simp: acyclic_def)
  then have "(n, n) \<in> (dep_edges (jm_set n deps g))\<^sup>+" by (meson trancl_rtrancl_trancl)
  with assms(2) show False by (auto simp: on_cycle_from_def)
qed

text \<open>Fewer edges make no cycle, and a node nobody depends on is on none.\<close>

lemma fewer_edges_acyclic: "acyclic (dep_edges g) \<Longrightarrow> dep_edges h \<subseteq> dep_edges g \<Longrightarrow> acyclic (dep_edges h)"
  by (rule acyclic_subset)

lemma fresh_node_acyclic:
  assumes "acyclic (dep_edges g)" "n \<notin> set deps" "\<And>i. n \<notin> set (deps_in g i)"
  shows "acyclic (dep_edges (jm_set n deps g))"
proof (rule rewire_keeps_acyclic [OF assms(1)])
  have unreached: "(i, n) \<notin> (dep_edges (jm_set n deps g))\<^sup>+" for i
    using assms(2,3) by (auto dest!: tranclD2 simp: dep_edges_def deps_in_set split: if_splits)
  show "\<not> on_cycle_from (jm_set n deps g) n"
  proof
    assume "on_cycle_from (jm_set n deps g) n"
    then obtain j where j: "(n, j) \<in> (dep_edges (jm_set n deps g))\<^sup>*" "(j, j) \<in> (dep_edges (jm_set n deps g))\<^sup>+"
      by (auto simp: on_cycle_from_def)
    from rewired_path [OF j(2)] assms(1) have "(j, n) \<in> (dep_edges (jm_set n deps g))\<^sup>*"
      by (auto simp: acyclic_def)
    with unreached have "j = n" by (meson rtranclD)
    with j(2) unreached show False by simp
  qed
qed

section \<open>The cascade\<close>

text \<open>
  What a cancelled node blocks: a node that is neither terminal nor running, with an unwaived
  dependency on the cancelled node or on a node it blocks.
\<close>

definition severable :: "plan_node \<Rightarrow> bool" where
  "severable node \<longleftrightarrow> \<not> isTerminalPlanStatus (pn_status node) \<and> pn_status node \<noteq> Ns_running"

definition blocks :: "string \<Rightarrow> plan_node \<Rightarrow> bool" where
  "blocks dep node \<longleftrightarrow> severable node \<and> dep \<in> set (pn_deps node) \<and> dep \<notin> set (pn_waivedDeps node)"

inductive severed_by :: "plan_node list \<Rightarrow> string \<Rightarrow> string \<Rightarrow> bool" for nodes target where
  direct: "node \<in> set nodes \<Longrightarrow> pn_nodeId node \<noteq> target \<Longrightarrow> blocks target node \<Longrightarrow>
    severed_by nodes target (pn_nodeId node)"
| onward: "severed_by nodes target dep \<Longrightarrow> node \<in> set nodes \<Longrightarrow> pn_nodeId node \<noteq> target \<Longrightarrow> blocks dep node \<Longrightarrow>
    severed_by nodes target (pn_nodeId node)"

text \<open>What holds between passes: the severed set is the cancelled node and the cascade, all of it blocked.\<close>

definition cascade_inv :: "plan_node list \<Rightarrow> string \<Rightarrow> string list \<Rightarrow> string list \<Rightarrow> bool" where
  "cascade_inv nodes target cascade severed \<longleftrightarrow>
     severed = target # cascade \<and> distinct severed \<and> (\<forall>i \<in> set cascade. severed_by nodes target i)"

lemma blocked_on_iff: "severable node \<Longrightarrow> blocked_on severed node \<longleftrightarrow> (\<exists>dep \<in> set severed. blocks dep node)"
  by (auto simp: blocked_on_def blocks_def list_ex_iff)

lemma cascade_visit_eq:
  "cascade_visit node (cascade, severed, grew) =
     (if pn_nodeId node \<notin> set severed \<and> severable node \<and> blocked_on severed node
      then (cascade @ [pn_nodeId node], severed @ [pn_nodeId node], True) else (cascade, severed, grew))"
  by (auto simp: cascade_visit_def severable_def)

lemma cascade_visit_inv:
  assumes "cascade_inv nodes target cascade severed" "node \<in> set nodes"
    and "cascade_visit node (cascade, severed, grew) = (cascade', severed', grew')"
  shows "cascade_inv nodes target cascade' severed'"
proof (cases "pn_nodeId node \<notin> set severed \<and> severable node \<and> blocked_on severed node")
  case True
  then obtain dep where dep: "dep \<in> set severed" "blocks dep node" using blocked_on_iff by blast
  have "severed_by nodes target (pn_nodeId node)"
    using dep assms(1,2) True by (auto simp: cascade_inv_def intro: severed_by.intros)
  with True assms show ?thesis by (auto simp: cascade_visit_eq cascade_inv_def)
next
  case False
  with assms show ?thesis by (auto simp: cascade_visit_eq)
qed

lemma cascade_visits_inv:
  assumes "cascade_inv nodes target cascade severed" "set ns \<subseteq> set nodes"
    and "fold cascade_visit ns (cascade, severed, grew) = (cascade', severed', grew')"
  shows "cascade_inv nodes target cascade' severed'"
  using assms
proof (induction ns arbitrary: cascade severed grew)
  case (Cons n ns)
  obtain c1 s1 b1 where step: "cascade_visit n (cascade, severed, grew) = (c1, s1, b1)"
    by (cases "cascade_visit n (cascade, severed, grew)")
  with Cons.prems have "cascade_inv nodes target c1 s1" by (auto intro: cascade_visit_inv)
  with Cons step show ?case by auto
qed auto

text \<open>A pass that does not grow the set has found no node left to sever.\<close>

lemma cascade_visits_still:
  assumes "fold cascade_visit ns (cascade, severed, grew) = (cascade', severed', False)"
  shows "\<not> grew \<and> cascade' = cascade \<and> severed' = severed
    \<and> (\<forall>node \<in> set ns. severable node \<longrightarrow> pn_nodeId node \<in> set severed \<or> \<not> blocked_on severed node)"
  using assms
proof (induction ns arbitrary: cascade severed grew)
  case (Cons n ns)
  obtain c1 s1 b1 where step: "cascade_visit n (cascade, severed, grew) = (c1, s1, b1)"
    by (cases "cascade_visit n (cascade, severed, grew)")
  from Cons.IH [of c1 s1 b1] Cons.prems step
  have still: "\<not> b1" "cascade' = c1" "severed' = s1"
    "\<forall>node \<in> set ns. severable node \<longrightarrow> pn_nodeId node \<in> set s1 \<or> \<not> blocked_on s1 node" by auto
  with step show ?case by (auto simp: cascade_visit_eq split: if_splits)
qed auto

lemma severed_closed:
  assumes "severed_by nodes target i" "cascade_inv nodes target cascade severed"
    and still: "\<forall>node \<in> set nodes. severable node \<longrightarrow> pn_nodeId node \<in> set severed \<or> \<not> blocked_on severed node"
  shows "i \<in> set cascade"
  using assms(1)
proof induction
  case (direct node)
  have "target \<in> set severed" using assms(2) by (simp add: cascade_inv_def)
  with direct still have "pn_nodeId node \<in> set severed" using blocked_on_iff by (auto simp: blocks_def)
  with direct assms(2) show ?case by (simp add: cascade_inv_def)
next
  case (onward dep node)
  have "dep \<in> set severed" using onward.IH assms(2) by (simp add: cascade_inv_def)
  with onward still have "pn_nodeId node \<in> set severed" using blocked_on_iff by (auto simp: blocks_def)
  with onward assms(2) show ?case by (simp add: cascade_inv_def)
qed

lemma cascade_loop_exact:
  assumes "cascade_inv nodes target cascade severed"
  shows "distinct (target # cascade_loop nodes cascade severed)
    \<and> set (cascade_loop nodes cascade severed) = {i. severed_by nodes target i}"
  using assms
proof (induction nodes cascade severed rule: cascade_loop.induct)
  case (1 nodes cascade severed)
  obtain c s grew where pass: "cascade_pass nodes cascade severed = (c, s, grew)"
    by (cases "cascade_pass nodes cascade severed")
  have inv: "cascade_inv nodes target c s"
    using cascade_visits_inv [OF "1.prems" subset_refl] pass by (simp add: cascade_pass_def)
  show ?case
  proof (cases grew)
    case True
    have "cascade_loop nodes cascade severed = cascade_loop nodes c s"
      using pass True by (subst cascade_loop.simps) simp
    with "1.IH" [OF pass [symmetric] refl True inv] show ?thesis by (simp only:)
  next
    case False
    then have "\<forall>node \<in> set nodes. severable node \<longrightarrow> pn_nodeId node \<in> set s \<or> \<not> blocked_on s node"
      using cascade_visits_still pass by (fastforce simp: cascade_pass_def)
    moreover have "cascade_loop nodes cascade severed = c"
      using pass False by (subst cascade_loop.simps) simp
    ultimately show ?thesis using severed_closed [OF _ inv] inv by (auto simp: cascade_inv_def)
  qed
qed

end
