(* ===== verification/PlanFold.thy ===== *)
theory PlanFold
  imports PlanGraph SpawnAdmission
begin

text \<open>
  The payloads of \<open>plan.revision\<close> and \<open>plan.decision\<close> entries and the fold that applies them,
  \<open>packages/plan/src/plan-entries.ts\<close>. The payloads are typed, as the fold reads them; the members
  whose absence makes a payload malformed are options. An optional flag that is only compared with
  \<open>true\<close> is a Boolean. \<open>sha\<close> is the hash function, \<open>numstr\<close> the number format.
\<close>

section \<open>Operations of a revision\<close>

record add_task =
  at_spec :: task_spec
  at_deps :: "string list option"
  at_priority :: "rat option"
  at_lineage :: "spawn_lineage_opt option"
  at_approach :: "string option"
  at_fresh :: bool

datatype plan_op =
    Add_task add_task
  | Amend_task string task_spec_patch
  | Park_task string
  | Unpark_task string
  | Cancel_task string "string option"
  | Reprioritize string rat
  | Rewire_deps string "string list"
  | Waive_dep string string

text \<open>The applied forms: with the engine's node identifier, the boundary flags, and the cascade.\<close>

datatype applied_op =
    Applied_add string add_task
  | Applied_amend string task_spec_patch
  | Applied_park string bool
  | Applied_unpark string bool
  | Applied_cancel string "string option" bool "string list"
  | Applied_reprioritize string rat
  | Applied_rewire string "string list"
  | Applied_waive string string

datatype rebase_reason =
    Rr_admission_denied | Rr_node_already_done | Rr_dep_already_resolved | Rr_node_escalated | Rr_node_running
  | Rr_terminal_status | Rr_dep_cycle | Rr_already_parked | Rr_not_parked | Rr_no_such_dep | Rr_already_waived
  | Rr_bad_base | Rr_lineage_exhausted | Rr_lineage_busy | Rr_plan_frozen
  | Rr_checkpoint_discarded | Rr_reuse_by_reference | Rr_resolved_escalation | Rr_immediate_satisfaction

datatype rebase_outcome =
    Op_applied applied_op
  | Op_transformed plan_op applied_op rebase_reason
  | Op_dropped plan_op rebase_reason "nat option"

fun is_dropped :: "rebase_outcome \<Rightarrow> bool" where
  "is_dropped (Op_dropped _ _ _) = True"
| "is_dropped _ = False"

fun applied_of :: "rebase_outcome \<Rightarrow> applied_op option" where
  "applied_of (Op_applied op) = Some op"
| "applied_of (Op_transformed _ op _) = Some op"
| "applied_of (Op_dropped _ _ _) = None"

fun dropped_bad_base :: "rebase_outcome \<Rightarrow> bool" where
  "dropped_bad_base (Op_dropped _ reason _) = (reason = Rr_bad_base)"
| "dropped_bad_base _ = False"

record plan_snapshot_ref =
  ps_digestSeq :: nat
  ps_planHash :: string

record revise_request =
  rq_base :: plan_snapshot_ref
  rq_ops :: "plan_op list"
  rq_rationale :: string

record revision_admission =
  ra_opIndex :: nat
  ra_nodeId :: "string option"
  ra_decision :: admission_decision
  ra_reuse :: "(string \<times> string list) option"

record plan_revision_value =
  rv_base :: "plan_snapshot_ref option"
  rv_requestedOps :: "plan_op list"
  rv_outcomes :: "rebase_outcome list option"
  rv_assignedNodeIds :: "(nat, string) jsmap"
  rv_admissions :: "revision_admission list"
  rv_planHashBefore :: string
  rv_planHashAfter :: string
  rv_hashVersion :: nat
  rv_rationale :: string
  rv_revisionUnitsAfter :: "rat option"
  rv_debits :: "(string \<times> rat) list"

section \<open>Operations of the engine\<close>

datatype decision_origin =
    From_escalation_default | From_escalation_class | From_escalation_live | From_no_progress | From_child_result
  | From_park_landed | From_cancel_landed | From_dispatch_rejected

datatype status_cause = Cause_child_result | Cause_no_progress | Cause_park_landed | Cause_cancel_landed | Cause_dispatch_rejected

datatype escalation_decision =
    Ed_retry "string option" "rat option"
  | Ed_decompose "task_spec list"
  | Ed_cancel "string option"
  | Ed_accept "string option"

datatype resolution_channel = By_default | By_class | By_live | By_revision_transform

record spawned_node =
  sn_nodeId :: string
  sn_logicalTaskId :: string
  sn_spec :: task_spec

datatype engine_op =
    Set_node_status string node_status node_status status_cause nat "nat option"
  | Resolve_escalation string escalation_decision resolution_channel nat
  | Spawn_admitted "spawned_node list" admission_decision

record plan_decision_value =
  dv_origin :: "decision_origin option"
  dv_ops :: "engine_op list option"
  dv_causeRef :: nat
  dv_planHashBefore :: string
  dv_planHashAfter :: string
  dv_hashVersion :: nat

text \<open>What the fold reads of an entry: its position, its profile and its payload.\<close>

datatype plan_payload =
    Plan_revision "plan_revision_value option"
  | Plan_decision "plan_decision_value option"
  | Other_payload

record plan_entry =
  pe_seq :: nat
  pe_hashVersion :: nat
  pe_payload :: plan_payload

section \<open>The working state\<close>

record plan_working =
  wk_plan :: task_plan
  wk_specs :: "(string, task_spec) jsmap"

record plan_fold_state = plan_working +
  fs_badBaseStreak :: nat
  fs_doneRefs :: "(string, nat) jsmap"

definition working_of :: "plan_fold_state \<Rightarrow> plan_working" where
  "working_of st = \<lparr> wk_plan = wk_plan st, wk_specs = wk_specs st \<rparr>"

definition emptyPlanFold :: "task_plan \<Rightarrow> plan_fold_state" where
  "emptyPlanFold p = \<lparr> wk_plan = p, wk_specs = [], fs_badBaseStreak = 0, fs_doneRefs = [] \<rparr>"

definition effectiveDroppedStreak :: "plan_fold_state \<Rightarrow> nat" where
  "effectiveDroppedStreak st = tp_droppedRevisionStreak (wk_plan st) + fs_badBaseStreak st"

definition nodeOf :: "task_plan \<Rightarrow> string \<Rightarrow> plan_node result" where
  "nodeOf p i = (case node_at p i of None \<Rightarrow> Inl (PlanInvariant (Unknown_node i)) | Some node \<Rightarrow> Inr node)"

definition withNode :: "plan_node \<Rightarrow> task_spec option \<Rightarrow> plan_working \<Rightarrow> plan_working" where
  "withNode node spec w =
     \<lparr> wk_plan = (wk_plan w)\<lparr> tp_nodes := jm_set (pn_nodeId node) node (tp_nodes (wk_plan w)) \<rparr>,
       wk_specs = (case spec of None \<Rightarrow> wk_specs w | Some s \<Rightarrow> jm_set (pn_nodeId node) s (wk_specs w)) \<rparr>"

definition fresh_node :: "string \<Rightarrow> string \<Rightarrow> string list \<Rightarrow> rat \<Rightarrow> string \<Rightarrow> plan_node" where
  "fresh_node i task deps priority specHash =
     \<lparr> pn_nodeId = i, pn_logicalTaskId = task, pn_status = Ns_pending, pn_deps = deps, pn_waivedDeps = [],
       pn_parkRequested = False, pn_cancelRequested = False, pn_priority = priority, pn_promptSpecHash = specHash,
       pn_checkpointRef = None, pn_escalationRef = None \<rparr>"

section \<open>Applying one operation\<close>

definition skip_member :: "plan_working \<Rightarrow> string \<Rightarrow> plan_working result" where
  "skip_member w i =
     bindR (nodeOf (wk_plan w) i) (\<lambda>node.
       Inr (if isTerminalPlanStatus (pn_status node) then w else withNode (node\<lparr> pn_status := Ns_skipped \<rparr>) None w))"

definition given_or :: "'a option \<Rightarrow> 'a \<Rightarrow> 'a" where
  "given_or v d = (case v of Some x \<Rightarrow> x | None \<Rightarrow> d)"

lemma given_or_simps [simp]: "given_or None d = d" "given_or (Some x) d = x"
  by (simp_all add: given_or_def)

definition task_of_add :: "string option \<Rightarrow> string \<Rightarrow> add_task \<Rightarrow> string" where
  "task_of_add admitted i op = given_or admitted (given_or (map_option lo_continues (at_lineage op)) i)"

fun applyAppliedOp ::
  "(string \<Rightarrow> string) \<Rightarrow> (rat \<Rightarrow> string) \<Rightarrow> string option \<Rightarrow> applied_op \<Rightarrow> plan_working \<Rightarrow> plan_working result" where
  "applyAppliedOp sha numstr admitted (Applied_add i op) w =
     Inr (withNode (fresh_node i (task_of_add admitted i op) (given_or (at_deps op) []) (given_or (at_priority op) 0)
                      (promptSpecHashOf sha numstr (at_spec op))) (Some (at_spec op)) w)"
| "applyAppliedOp sha numstr admitted (Applied_amend i patch) w =
     bindR (nodeOf (wk_plan w) i) (\<lambda>node.
       case jm_get (wk_specs w) i of
         None \<Rightarrow> Inl (PlanInvariant (Unknown_spec i))
       | Some current \<Rightarrow>
           let spec = applyTaskSpecPatch current patch
           in Inr (withNode (node\<lparr> pn_promptSpecHash := promptSpecHashOf sha numstr spec,
                                   pn_checkpointRef := (if pn_status node = Ns_parked then None else pn_checkpointRef node) \<rparr>)
                     (Some spec) w))"
| "applyAppliedOp sha numstr admitted (Applied_park i requestOnly) w =
     bindR (nodeOf (wk_plan w) i) (\<lambda>node.
       if requestOnly then Inr (withNode (node\<lparr> pn_parkRequested := True \<rparr>) None w)
       else bindR (assertPlanTransition node Ns_parked) (\<lambda>_.
         Inr (withNode (node\<lparr> pn_status := Ns_parked \<rparr>) None w)))"
| "applyAppliedOp sha numstr admitted (Applied_unpark i restart) w =
     bindR (nodeOf (wk_plan w) i) (\<lambda>node.
       Inr (withNode (node\<lparr> pn_status := Ns_pending,
                            pn_checkpointRef := (if restart then None else pn_checkpointRef node) \<rparr>) None w))"
| "applyAppliedOp sha numstr admitted (Applied_cancel i reason requestOnly cascade) w =
     bindR (nodeOf (wk_plan w) i) (\<lambda>node.
       if requestOnly then Inr (withNode (node\<lparr> pn_cancelRequested := True \<rparr>) None w)
       else bindR (assertPlanTransition node Ns_cancelled) (\<lambda>_.
         foldR skip_member (withNode (node\<lparr> pn_status := Ns_cancelled \<rparr>) None w) cascade))"
| "applyAppliedOp sha numstr admitted (Applied_reprioritize i priority) w =
     bindR (nodeOf (wk_plan w) i) (\<lambda>node. Inr (withNode (node\<lparr> pn_priority := priority \<rparr>) None w))"
| "applyAppliedOp sha numstr admitted (Applied_rewire i deps) w =
     bindR (nodeOf (wk_plan w) i) (\<lambda>node.
       Inr (withNode (node\<lparr> pn_deps := deps,
                            pn_waivedDeps := filter (\<lambda>dep. dep \<in> set deps) (pn_waivedDeps node) \<rparr>) None w))"
| "applyAppliedOp sha numstr admitted (Applied_waive i dep) w =
     bindR (nodeOf (wk_plan w) i) (\<lambda>node.
       Inr (withNode (node\<lparr> pn_waivedDeps := pn_waivedDeps node @ [dep] \<rparr>) None w))"

section \<open>Applying entries\<close>

fun verdict_task :: "admit_verdict \<Rightarrow> string option" where
  "verdict_task (Admit _ _ lineage) = Some (al_logicalTaskId lineage)"
| "verdict_task (Reuse_full _ lineage) = Some (al_logicalTaskId lineage)"
| "verdict_task (Admit_graft _ _ lineage) = Some (al_logicalTaskId lineage)"
| "verdict_task (Reject _) = None"

definition lineageOfAdmission :: "revision_admission list \<Rightarrow> nat \<Rightarrow> string option" where
  "lineageOfAdmission admissions opIndex =
     Option.bind (List.find (\<lambda>a. ra_opIndex a = opIndex) admissions) (\<lambda>a. verdict_task (de_verdict (ra_decision a)))"

definition apply_outcome ::
  "(string \<Rightarrow> string) \<Rightarrow> (rat \<Rightarrow> string) \<Rightarrow> revision_admission list \<Rightarrow> plan_working \<Rightarrow> nat \<times> rebase_outcome \<Rightarrow> plan_working result" where
  "apply_outcome sha numstr admissions w io =
     (case applied_of (snd io) of
        None \<Rightarrow> Inr w
      | Some op \<Rightarrow> applyAppliedOp sha numstr (lineageOfAdmission admissions (fst io)) op w)"

definition count_revision :: "bool \<Rightarrow> task_plan \<Rightarrow> task_plan" where
  "count_revision droppedAll p = recomputePlanReadiness
     (p\<lparr> tp_revisionCount := tp_revisionCount p + 1,
         tp_droppedRevisionStreak := (if droppedAll then tp_droppedRevisionStreak p + 1 else 0) \<rparr>)"

definition deriver_of :: "(string \<Rightarrow> string) \<Rightarrow> (rat \<Rightarrow> string) \<Rightarrow> (nat \<Rightarrow> key_deriver option) \<Rightarrow> nat \<Rightarrow> key_deriver" where
  "deriver_of sha numstr deriverFor hashVersion = given_or (deriverFor hashVersion) (deriverV2 sha numstr)"

definition verifyHash :: "key_deriver \<Rightarrow> nat \<Rightarrow> string \<Rightarrow> task_plan \<Rightarrow> unit result" where
  "verifyHash deriver seq expected p =
     (if planHash deriver p = expected then Inr () else Inl (ReplayPlanHashMismatch seq))"

fun resolveEscalatedNode :: "escalation_decision \<Rightarrow> nat \<Rightarrow> plan_node \<Rightarrow> plan_node" where
  "resolveEscalatedNode (Ed_retry _ _) ref node = node\<lparr> pn_escalationRef := Some ref, pn_status := Ns_pending \<rparr>"
| "resolveEscalatedNode (Ed_cancel _) ref node = node\<lparr> pn_escalationRef := Some ref, pn_status := Ns_cancelled \<rparr>"
| "resolveEscalatedNode (Ed_accept _) ref node = node\<lparr> pn_escalationRef := Some ref, pn_status := Ns_done \<rparr>"
| "resolveEscalatedNode (Ed_decompose _) ref node = node\<lparr> pn_escalationRef := Some ref \<rparr>"

definition landed_node :: "node_status \<Rightarrow> nat option \<Rightarrow> plan_node \<Rightarrow> plan_node" where
  "landed_node to checkpointRef node =
     (let next = node\<lparr> pn_status := to \<rparr>;
          cleared = (if isTerminalPlanStatus to then next\<lparr> pn_parkRequested := False, pn_cancelRequested := False \<rparr> else next)
      in if to = Ns_parked
         then cleared\<lparr> pn_parkRequested := False,
                       pn_checkpointRef := (case checkpointRef of Some r \<Rightarrow> Some r | None \<Rightarrow> pn_checkpointRef node) \<rparr>
         else cleared)"

definition enter_child :: "(string \<Rightarrow> string) \<Rightarrow> (rat \<Rightarrow> string) \<Rightarrow> plan_working \<Rightarrow> spawned_node \<Rightarrow> plan_working" where
  "enter_child sha numstr w child =
     withNode (fresh_node (sn_nodeId child) (sn_logicalTaskId child) [] 0 (promptSpecHashOf sha numstr (sn_spec child)))
       (Some (sn_spec child)) w"

type_synonym decision_state = "plan_working \<times> (string, nat) jsmap"

fun apply_engine_op ::
  "(string \<Rightarrow> string) \<Rightarrow> (rat \<Rightarrow> string) \<Rightarrow> decision_state \<Rightarrow> engine_op \<Rightarrow> decision_state result" where
  "apply_engine_op sha numstr (w, doneRefs) (Set_node_status i from to cause causeRef checkpointRef) =
     bindR (nodeOf (wk_plan w) i) (\<lambda>node.
       if pn_status node \<noteq> from then Inl (PlanInvariant (Stale_from i))
       else bindR (assertPlanTransition node to) (\<lambda>_.
         Inr (withNode (landed_node to checkpointRef node) None w,
              if to = Ns_done then jm_set i causeRef doneRefs else doneRefs)))"
| "apply_engine_op sha numstr (w, doneRefs) (Resolve_escalation i decision resolvedBy escalationRef) =
     bindR (nodeOf (wk_plan w) i) (\<lambda>node.
       Inr (withNode (resolveEscalatedNode decision escalationRef node) None w,
            case decision of Ed_accept _ \<Rightarrow> jm_set i escalationRef doneRefs | _ \<Rightarrow> doneRefs))"
| "apply_engine_op sha numstr (w, doneRefs) (Spawn_admitted children admission) =
     Inr (foldl (enter_child sha numstr) w children, doneRefs)"

definition applyDecisionOps ::
  "(string \<Rightarrow> string) \<Rightarrow> (rat \<Rightarrow> string) \<Rightarrow> plan_fold_state \<Rightarrow> engine_op list \<Rightarrow> decision_state result" where
  "applyDecisionOps sha numstr st ops =
     bindR (foldR (apply_engine_op sha numstr) (working_of st, fs_doneRefs st) ops) (\<lambda>(w, doneRefs).
       Inr (w\<lparr> wk_plan := recomputePlanReadiness (wk_plan w) \<rparr>, doneRefs))"

definition readPlanRevision :: "plan_revision_value option \<Rightarrow> (plan_revision_value \<times> rebase_outcome list) option" where
  "readPlanRevision v =
     Option.bind v (\<lambda>value. Option.bind (rv_base value) (\<lambda>_. map_option (\<lambda>os. (value, os)) (rv_outcomes value)))"

definition readPlanDecision :: "plan_decision_value option \<Rightarrow> (plan_decision_value \<times> engine_op list) option" where
  "readPlanDecision v =
     Option.bind v (\<lambda>value. Option.bind (dv_origin value) (\<lambda>_. map_option (\<lambda>ops. (value, ops)) (dv_ops value)))"

definition apply_revision ::
  "(string \<Rightarrow> string) \<Rightarrow> (rat \<Rightarrow> string) \<Rightarrow> key_deriver \<Rightarrow> nat \<Rightarrow> plan_revision_value \<Rightarrow> rebase_outcome list
     \<Rightarrow> plan_fold_state \<Rightarrow> plan_fold_state result" where
  "apply_revision sha numstr deriver seq value outcomes st =
     bindR (verifyHash deriver seq (rv_planHashBefore value) (wk_plan st)) (\<lambda>_.
       if outcomes \<noteq> [] \<and> list_all dropped_bad_base outcomes then
         bindR (verifyHash deriver seq (rv_planHashAfter value) (wk_plan st)) (\<lambda>_.
           Inr (st\<lparr> fs_badBaseStreak := fs_badBaseStreak st + 1 \<rparr>))
       else
         bindR (foldR (apply_outcome sha numstr (rv_admissions value)) (working_of st) (enumerate 0 outcomes)) (\<lambda>w.
           let p = count_revision (list_all is_dropped outcomes) (wk_plan w)
           in bindR (verifyHash deriver seq (rv_planHashAfter value) p) (\<lambda>_.
                Inr \<lparr> wk_plan = p, wk_specs = wk_specs w, fs_badBaseStreak = 0, fs_doneRefs = fs_doneRefs st \<rparr>)))"

definition apply_decision ::
  "(string \<Rightarrow> string) \<Rightarrow> (rat \<Rightarrow> string) \<Rightarrow> key_deriver \<Rightarrow> nat \<Rightarrow> plan_decision_value \<Rightarrow> engine_op list
     \<Rightarrow> plan_fold_state \<Rightarrow> plan_fold_state result" where
  "apply_decision sha numstr deriver seq value ops st =
     bindR (verifyHash deriver seq (dv_planHashBefore value) (wk_plan st)) (\<lambda>_.
     bindR (applyDecisionOps sha numstr st ops) (\<lambda>(w, doneRefs).
     bindR (verifyHash deriver seq (dv_planHashAfter value) (wk_plan w)) (\<lambda>_.
       Inr \<lparr> wk_plan = wk_plan w, wk_specs = wk_specs w, fs_badBaseStreak = fs_badBaseStreak st, fs_doneRefs = doneRefs \<rparr>)))"

definition applyPlanEntry ::
  "(string \<Rightarrow> string) \<Rightarrow> (rat \<Rightarrow> string) \<Rightarrow> (nat \<Rightarrow> key_deriver option) \<Rightarrow> plan_fold_state \<Rightarrow> plan_entry \<Rightarrow> plan_fold_state result" where
  "applyPlanEntry sha numstr deriverFor st e =
     (let deriver = deriver_of sha numstr deriverFor (pe_hashVersion e) in
      case pe_payload e of
        Plan_revision v \<Rightarrow>
          (case readPlanRevision v of
             None \<Rightarrow> Inl (PlanInvariant Malformed_payload)
           | Some (value, outcomes) \<Rightarrow> apply_revision sha numstr deriver (pe_seq e) value outcomes st)
      | Plan_decision v \<Rightarrow>
          (case readPlanDecision v of
             None \<Rightarrow> Inl (PlanInvariant Malformed_payload)
           | Some (value, ops) \<Rightarrow> apply_decision sha numstr deriver (pe_seq e) value ops st)
      | Other_payload \<Rightarrow> Inr st)"

definition fold_plan ::
  "(string \<Rightarrow> string) \<Rightarrow> (rat \<Rightarrow> string) \<Rightarrow> (nat \<Rightarrow> key_deriver option) \<Rightarrow> plan_entry list \<Rightarrow> plan_fold_state result" where
  "fold_plan sha numstr deriverFor entries = foldR (applyPlanEntry sha numstr deriverFor) (emptyPlanFold emptyPlan) entries"

end
