(* ===== verification/PlanRebase.thy ===== *)
theory PlanRebase
  imports PlanFold
begin

text \<open>
  The committed rebase algorithm, \<open>packages/plan/src/rebase.ts\<close>. The hooks of the context are
  functions on a state of their own, which the evaluation threads in the order of the calls; a hook
  that throws ends the evaluation with its error.
\<close>

section \<open>The context\<close>

datatype lineage_check = Lineage_free | Lineage_taken | Lineage_spent

record reuse_transform =
  rt_applied :: applied_op
  rt_admission :: admission_decision
  rt_nodeId :: string
  rt_reuse :: "string \<times> string list"

type_synonym ('h, 'a) hook = "'h \<Rightarrow> ('h \<times> 'a) result"

record 'h rebase_context =
  cx_state :: plan_fold_state
  cx_digestPlanHashFor :: "nat \<Rightarrow> string option"
  cx_mintNodeId :: "'h \<Rightarrow> 'h \<times> string"
  cx_frozen :: bool
  cx_admitAdd :: "(add_task \<Rightarrow> string \<Rightarrow> nat \<Rightarrow> ('h, admission_decision) hook) option"
  cx_admitUnpark :: "(string \<Rightarrow> plan_node \<Rightarrow> nat \<Rightarrow> ('h, admission_decision) hook) option"
  cx_lineageCheck :: "(string \<Rightarrow> ('h, lineage_check) hook) option"
  cx_dedup :: "(add_task \<Rightarrow> nat \<Rightarrow> ('h, reuse_transform option) hook) option"

text \<open>What the evaluation accumulates beside the outcomes.\<close>

record 'h rebase_run =
  rr_hooks :: 'h
  rr_admissions :: "revision_admission list"
  rr_assigned :: "(nat, string) jsmap"

type_synonym 'h rebase_step = "('h rebase_run \<times> rebase_outcome) result"

fun is_reject :: "admit_verdict \<Rightarrow> bool" where
  "is_reject (Reject _) = True"
| "is_reject _ = False"

definition push_admission :: "nat \<Rightarrow> string \<Rightarrow> admission_decision \<Rightarrow> (string \<times> string list) option \<Rightarrow> 'h rebase_run \<Rightarrow> 'h rebase_run" where
  "push_admission opIndex nodeId decision reuse r =
     r\<lparr> rr_admissions := rr_admissions r @
          [\<lparr> ra_opIndex = opIndex, ra_nodeId = Some nodeId, ra_decision = decision, ra_reuse = reuse \<rparr>] \<rparr>"

definition assign_node :: "nat \<Rightarrow> string \<Rightarrow> 'h rebase_run \<Rightarrow> 'h rebase_run" where
  "assign_node opIndex nodeId r = r\<lparr> rr_assigned := jm_set opIndex nodeId (rr_assigned r) \<rparr>"

definition dropped :: "plan_op \<Rightarrow> rebase_reason \<Rightarrow> rebase_outcome" where
  "dropped requested reason = Op_dropped requested reason None"

section \<open>Adding a task\<close>

definition check_lineage :: "'h rebase_context \<Rightarrow> add_task \<Rightarrow> ('h, lineage_check) hook" where
  "check_lineage cx op h =
     (case (at_lineage op, cx_lineageCheck cx) of
        (Some l, Some hook) \<Rightarrow> hook (lo_continues l) h
      | _ \<Rightarrow> Inr (h, Lineage_free))"

definition find_reuse :: "'h rebase_context \<Rightarrow> add_task \<Rightarrow> nat \<Rightarrow> ('h, reuse_transform option) hook" where
  "find_reuse cx op opIndex h =
     (case cx_dedup cx of
        Some hook \<Rightarrow> if at_fresh op then Inr (h, None) else hook op opIndex h
      | None \<Rightarrow> Inr (h, None))"

definition admit_add :: "'h rebase_context \<Rightarrow> add_task \<Rightarrow> nat \<Rightarrow> 'h rebase_run \<Rightarrow> 'h rebase_step" where
  "admit_add cx op opIndex r =
     (case cx_mintNodeId cx (rr_hooks r) of
        (h, nodeId) \<Rightarrow>
          (case cx_admitAdd cx of
             None \<Rightarrow> Inr (assign_node opIndex nodeId (r\<lparr> rr_hooks := h \<rparr>), Op_applied (Applied_add nodeId op))
           | Some hook \<Rightarrow>
               bindR (hook op nodeId opIndex h) (\<lambda>(h', decision).
                 let r' = push_admission opIndex nodeId decision None (r\<lparr> rr_hooks := h' \<rparr>)
                 in if is_reject (de_verdict decision)
                    then Inr (r', dropped (Add_task op) Rr_admission_denied)
                    else Inr (assign_node opIndex nodeId r', Op_applied (Applied_add nodeId op)))))"

definition evaluate_add :: "'h rebase_context \<Rightarrow> add_task \<Rightarrow> nat \<Rightarrow> 'h rebase_run \<Rightarrow> 'h rebase_step" where
  "evaluate_add cx op opIndex r =
     bindR (check_lineage cx op (rr_hooks r)) (\<lambda>(h, lineage).
       case lineage of
         Lineage_taken \<Rightarrow> Inr (r\<lparr> rr_hooks := h \<rparr>, dropped (Add_task op) Rr_lineage_busy)
       | Lineage_spent \<Rightarrow> Inr (r\<lparr> rr_hooks := h \<rparr>, dropped (Add_task op) Rr_lineage_exhausted)
       | Lineage_free \<Rightarrow>
           bindR (find_reuse cx op opIndex h) (\<lambda>(h', reuse).
             case reuse of
               Some t \<Rightarrow>
                 Inr (assign_node opIndex (rt_nodeId t)
                        (push_admission opIndex (rt_nodeId t) (rt_admission t) (Some (rt_reuse t)) (r\<lparr> rr_hooks := h' \<rparr>)),
                      Op_transformed (Add_task op) (rt_applied t) Rr_reuse_by_reference)
             | None \<Rightarrow> admit_add cx op opIndex (r\<lparr> rr_hooks := h' \<rparr>)))"

section \<open>Operations on a node\<close>

definition evaluate_amend :: "string \<Rightarrow> task_spec_patch \<Rightarrow> plan_node \<Rightarrow> rebase_outcome" where
  "evaluate_amend i patch node =
     (let op = Amend_task i patch in
      case pn_status node of
        Ns_pending \<Rightarrow> Op_applied (Applied_amend i patch)
      | Ns_ready \<Rightarrow> Op_applied (Applied_amend i patch)
      | Ns_parked \<Rightarrow> Op_transformed op (Applied_amend i patch) Rr_checkpoint_discarded
      | Ns_running \<Rightarrow> dropped op Rr_node_running
      | Ns_escalated \<Rightarrow> dropped op Rr_node_escalated
      | _ \<Rightarrow> dropped op Rr_terminal_status)"

definition evaluate_park :: "string \<Rightarrow> plan_node \<Rightarrow> rebase_outcome" where
  "evaluate_park i node =
     (case pn_status node of
        Ns_pending \<Rightarrow> Op_applied (Applied_park i False)
      | Ns_ready \<Rightarrow> Op_applied (Applied_park i False)
      | Ns_running \<Rightarrow> Op_applied (Applied_park i True)
      | Ns_escalated \<Rightarrow> dropped (Park_task i) Rr_node_escalated
      | Ns_parked \<Rightarrow> dropped (Park_task i) Rr_already_parked
      | _ \<Rightarrow> dropped (Park_task i) Rr_terminal_status)"

definition evaluate_unpark :: "'h rebase_context \<Rightarrow> string \<Rightarrow> plan_node \<Rightarrow> nat \<Rightarrow> 'h rebase_run \<Rightarrow> 'h rebase_step" where
  "evaluate_unpark cx i node opIndex r =
     (let landed = Op_applied (Applied_unpark i (pn_checkpointRef node = None)) in
      if pn_status node \<noteq> Ns_parked
      then Inr (r, dropped (Unpark_task i) (if isTerminalPlanStatus (pn_status node) then Rr_terminal_status else Rr_not_parked))
      else
        case cx_admitUnpark cx of
          None \<Rightarrow> Inr (r, landed)
        | Some hook \<Rightarrow>
            bindR (hook i node opIndex (rr_hooks r)) (\<lambda>(h, decision).
              Inr (push_admission opIndex i decision None (r\<lparr> rr_hooks := h \<rparr>),
                   if is_reject (de_verdict decision) then dropped (Unpark_task i) Rr_admission_denied else landed)))"

definition evaluate_cancel :: "task_plan \<Rightarrow> string \<Rightarrow> string option \<Rightarrow> plan_node \<Rightarrow> rebase_outcome" where
  "evaluate_cancel p i reason node =
     (let op = Cancel_task i reason in
      case pn_status node of
        Ns_done \<Rightarrow> dropped op Rr_node_already_done
      | Ns_failed \<Rightarrow> dropped op Rr_terminal_status
      | Ns_cancelled \<Rightarrow> dropped op Rr_terminal_status
      | Ns_skipped \<Rightarrow> dropped op Rr_terminal_status
      | Ns_running \<Rightarrow> Op_applied (Applied_cancel i reason True [])
      | Ns_escalated \<Rightarrow> Op_transformed op (Applied_cancel i reason True []) Rr_resolved_escalation
      | _ \<Rightarrow> Op_applied (Applied_cancel i reason False (cascadeOf p i)))"

definition evaluate_rewire :: "task_plan \<Rightarrow> string \<Rightarrow> string list \<Rightarrow> plan_node \<Rightarrow> rebase_outcome" where
  "evaluate_rewire p i deps node =
     (let op = Rewire_deps i deps;
          ontoDone = filter (\<lambda>dep. status_at p dep = Some Ns_done) deps
      in if wouldCreateDepCycle p i deps then dropped op Rr_dep_cycle
         else if pn_status node = Ns_running then dropped op Rr_node_running
         else if ontoDone \<noteq> []
         then Op_transformed op (Applied_rewire i (filter (\<lambda>dep. dep \<notin> set ontoDone) deps)) Rr_immediate_satisfaction
         else Op_applied (Applied_rewire i deps))"

definition evaluate_waive :: "task_plan \<Rightarrow> (string, nat) jsmap \<Rightarrow> string \<Rightarrow> string \<Rightarrow> plan_node \<Rightarrow> rebase_outcome" where
  "evaluate_waive p doneRefs i dep node =
     (let op = Waive_dep i dep in
      if dep \<notin> set (pn_deps node) then dropped op Rr_no_such_dep
      else if dep \<in> set (pn_waivedDeps node) then dropped op Rr_already_waived
      else if status_at p dep = Some Ns_done then Op_dropped op Rr_dep_already_resolved (jm_get doneRefs dep)
      else Op_applied (Applied_waive i dep))"

definition evaluate_reprioritize :: "string \<Rightarrow> rat \<Rightarrow> plan_node \<Rightarrow> rebase_outcome" where
  "evaluate_reprioritize i priority node =
     (if isTerminalPlanStatus (pn_status node) then dropped (Reprioritize i priority) Rr_terminal_status
      else Op_applied (Applied_reprioritize i priority))"

fun target_of :: "plan_op \<Rightarrow> string option" where
  "target_of (Add_task _) = None"
| "target_of (Amend_task i _) = Some i"
| "target_of (Park_task i) = Some i"
| "target_of (Unpark_task i) = Some i"
| "target_of (Cancel_task i _) = Some i"
| "target_of (Reprioritize i _) = Some i"
| "target_of (Rewire_deps i _) = Some i"
| "target_of (Waive_dep i _) = Some i"

fun evaluate_on ::
  "'h rebase_context \<Rightarrow> task_plan \<Rightarrow> plan_node \<Rightarrow> nat \<Rightarrow> plan_op \<Rightarrow> 'h rebase_run \<Rightarrow> 'h rebase_step" where
  "evaluate_on cx p node k (Amend_task i patch) r = Inr (r, evaluate_amend i patch node)"
| "evaluate_on cx p node k (Park_task i) r = Inr (r, evaluate_park i node)"
| "evaluate_on cx p node k (Unpark_task i) r = evaluate_unpark cx i node k r"
| "evaluate_on cx p node k (Cancel_task i reason) r = Inr (r, evaluate_cancel p i reason node)"
| "evaluate_on cx p node k (Reprioritize i priority) r = Inr (r, evaluate_reprioritize i priority node)"
| "evaluate_on cx p node k (Rewire_deps i deps) r = Inr (r, evaluate_rewire p i deps node)"
| "evaluate_on cx p node k (Waive_dep i dep) r = Inr (r, evaluate_waive p (fs_doneRefs (cx_state cx)) i dep node)"
| "evaluate_on cx p node k (Add_task op) r = evaluate_add cx op k r"

definition evaluateOp :: "'h rebase_context \<Rightarrow> plan_working \<Rightarrow> nat \<Rightarrow> plan_op \<Rightarrow> 'h rebase_run \<Rightarrow> 'h rebase_step" where
  "evaluateOp cx w k op r =
     (if cx_frozen cx then Inr (r, dropped op Rr_plan_frozen)
      else
        case op of
          Add_task add \<Rightarrow> evaluate_add cx add k r
        | _ \<Rightarrow>
            (case Option.bind (target_of op) (node_at (wk_plan w)) of
               None \<Rightarrow> Inr (r, dropped op Rr_no_such_dep)
             | Some node \<Rightarrow> evaluate_on cx (wk_plan w) node k op r))"

section \<open>The revision\<close>

record 'h rebase_evaluation =
  ev_outcomes :: "rebase_outcome list"
  ev_assignedNodeIds :: "(nat, string) jsmap"
  ev_admissions :: "revision_admission list"
  ev_planHashBefore :: string
  ev_planHashAfter :: string
  ev_droppedAll :: bool
  ev_badBase :: bool
  ev_working :: plan_working
  ev_hooks :: 'h

text \<open>One operation: evaluate it against the state the earlier ones left, and apply what it became.\<close>

type_synonym 'h rebase_progress = "plan_working \<times> 'h rebase_run \<times> rebase_outcome list"

definition rebase_op ::
  "(string \<Rightarrow> string) \<Rightarrow> (rat \<Rightarrow> string) \<Rightarrow> 'h rebase_context \<Rightarrow> 'h rebase_progress \<Rightarrow> nat \<times> plan_op \<Rightarrow> 'h rebase_progress result" where
  "rebase_op sha numstr cx st io =
     (case (st, io) of ((w, r, outcomes), (k, op)) \<Rightarrow>
        bindR (evaluateOp cx w k op r) (\<lambda>(r', outcome).
          case applied_of outcome of
            None \<Rightarrow> Inr (w, r', outcomes @ [outcome])
          | Some applied \<Rightarrow>
              bindR (applyAppliedOp sha numstr (lineageOfAdmission (rr_admissions r') k) applied w) (\<lambda>w'.
                Inr (w', r', outcomes @ [outcome]))))"

definition rebasePlanRevision ::
  "(string \<Rightarrow> string) \<Rightarrow> (rat \<Rightarrow> string) \<Rightarrow> revise_request \<Rightarrow> 'h rebase_context \<Rightarrow> 'h \<Rightarrow> 'h rebase_evaluation result" where
  "rebasePlanRevision sha numstr request cx h =
     (let st = cx_state cx;
          hash = planHash (deriverV2 sha numstr);
          before = hash (wk_plan st)
      in if cx_digestPlanHashFor cx (ps_digestSeq (rq_base request)) \<noteq> Some (ps_planHash (rq_base request))
         then Inr \<lparr> ev_outcomes = map (\<lambda>op. dropped op Rr_bad_base) (rq_ops request), ev_assignedNodeIds = [],
                    ev_admissions = [], ev_planHashBefore = before, ev_planHashAfter = before,
                    ev_droppedAll = True, ev_badBase = True, ev_working = working_of st, ev_hooks = h \<rparr>
         else
           bindR (foldR (rebase_op sha numstr cx)
                    (working_of st, \<lparr> rr_hooks = h, rr_admissions = [], rr_assigned = [] \<rparr>, [])
                    (enumerate 0 (rq_ops request)))
             (\<lambda>(w, r, outcomes).
                let droppedAll = list_all is_dropped outcomes;
                    p = count_revision droppedAll (wk_plan w)
                in Inr \<lparr> ev_outcomes = outcomes, ev_assignedNodeIds = rr_assigned r, ev_admissions = rr_admissions r,
                         ev_planHashBefore = before, ev_planHashAfter = hash p, ev_droppedAll = droppedAll,
                         ev_badBase = False, ev_working = w\<lparr> wk_plan := p \<rparr>, ev_hooks = rr_hooks r \<rparr>))"

text \<open>The entry that \<open>planRevise\<close> (\<open>plan-runner.ts\<close>) appends for an evaluation.\<close>

definition revision_value :: "revise_request \<Rightarrow> rat \<Rightarrow> 'h rebase_evaluation \<Rightarrow> plan_revision_value" where
  "revision_value request balanceAfter ev =
     \<lparr> rv_base = Some (rq_base request), rv_requestedOps = rq_ops request, rv_outcomes = Some (ev_outcomes ev),
       rv_assignedNodeIds = ev_assignedNodeIds ev, rv_admissions = ev_admissions ev,
       rv_planHashBefore = ev_planHashBefore ev, rv_planHashAfter = ev_planHashAfter ev, rv_hashVersion = 2,
       rv_rationale = rq_rationale request, rv_revisionUnitsAfter = Some balanceAfter,
       rv_debits = [(''revisionUnits'', balanceAfter)] \<rparr>"

definition decision_value ::
  "(string \<Rightarrow> string) \<Rightarrow> (rat \<Rightarrow> string) \<Rightarrow> decision_origin \<Rightarrow> engine_op list \<Rightarrow> nat \<Rightarrow> plan_fold_state \<Rightarrow> plan_decision_value result" where
  "decision_value sha numstr origin ops causeRef st =
     bindR (applyDecisionOps sha numstr st ops) (\<lambda>(w, doneRefs).
       Inr \<lparr> dv_origin = Some origin, dv_ops = Some ops, dv_causeRef = causeRef,
             dv_planHashBefore = planHash (deriverV2 sha numstr) (wk_plan st),
             dv_planHashAfter = planHash (deriverV2 sha numstr) (wk_plan w), dv_hashVersion = 2 \<rparr>)"

end
