(* ===== verification/PlanReplay.thy ===== *)
theory PlanReplay
  imports PlanRebase
begin

text \<open>
  The evaluation of a revision and the fold of its entry: replay never re-runs the rebase, it applies
  the recorded outcomes, and it reaches the very state the evaluation announced.
\<close>

section \<open>What one evaluation leaves\<close>

lemma push_assign_sel [simp]:
  "rr_admissions (push_admission k i d u r) = rr_admissions r @ [\<lparr> ra_opIndex = k, ra_nodeId = Some i, ra_decision = d, ra_reuse = u \<rparr>]"
  "rr_admissions (assign_node k i r) = rr_admissions r"
  "rr_hooks (push_admission k i d u r) = rr_hooks r"
  "rr_hooks (assign_node k i r) = rr_hooks r"
  by (simp_all add: push_admission_def assign_node_def)

text \<open>An operation adds admissions under its own index and is never dropped for its base.\<close>

definition step_extends :: "nat \<Rightarrow> 'h rebase_run \<Rightarrow> 'h rebase_run \<Rightarrow> rebase_outcome \<Rightarrow> bool" where
  "step_extends k r r' outcome \<longleftrightarrow>
     (\<exists>as. rr_admissions r' = rr_admissions r @ as \<and> (\<forall>a \<in> set as. ra_opIndex a = k)) \<and> \<not> dropped_bad_base outcome"

lemma step_extends_same [simp]: "step_extends k r r x \<longleftrightarrow> \<not> dropped_bad_base x"
  by (simp add: step_extends_def)

lemma evaluate_pure_kept:
  "\<not> dropped_bad_base (evaluate_amend i patch node)"
  "\<not> dropped_bad_base (evaluate_park i node)"
  "\<not> dropped_bad_base (evaluate_cancel p i reason node)"
  "\<not> dropped_bad_base (evaluate_reprioritize i priority node)"
  "\<not> dropped_bad_base (evaluate_rewire p i deps node)"
  "\<not> dropped_bad_base (evaluate_waive p refs i dep node)"
  by (simp_all add: evaluate_amend_def evaluate_park_def evaluate_cancel_def evaluate_reprioritize_def
      evaluate_rewire_def evaluate_waive_def dropped_def Let_def split: node_status.splits)

lemma evaluate_unpark_extends: "evaluate_unpark cx i node k r = Inr (r', outcome) \<Longrightarrow> step_extends k r r' outcome"
  by (auto simp: evaluate_unpark_def Let_def dropped_def step_extends_def result_simps split: if_splits option.splits)

lemma admit_add_extends: "admit_add cx op k r = Inr (r', outcome) \<Longrightarrow> step_extends k r r' outcome"
  by (auto simp: admit_add_def Let_def dropped_def step_extends_def result_simps split: if_splits option.splits prod.splits)

lemma evaluate_add_extends:
  assumes "evaluate_add cx op k r = Inr (r', outcome)"
  shows "step_extends k r r' outcome"
proof -
  from assms obtain h lineage where
    lin: "check_lineage cx op (rr_hooks r) = Inr (h, lineage)"
    by (auto simp: evaluate_add_def result_simps)
  show ?thesis
  proof (cases lineage)
    case Lineage_free
    with assms lin obtain h' reuse where reuse: "find_reuse cx op k h = Inr (h', reuse)"
      by (auto simp: evaluate_add_def result_simps)
    show ?thesis
    proof (cases reuse)
      case None
      with assms lin Lineage_free reuse have "admit_add cx op k (r\<lparr> rr_hooks := h' \<rparr>) = Inr (r', outcome)"
        by (simp add: evaluate_add_def)
      from admit_add_extends [OF this] show ?thesis by (simp add: step_extends_def)
    next
      case (Some t)
      with assms lin Lineage_free reuse show ?thesis by (auto simp: evaluate_add_def step_extends_def)
    qed
  qed (use assms lin in \<open>auto simp: evaluate_add_def dropped_def step_extends_def\<close>)
qed

lemma evaluate_on_extends: "evaluate_on cx p node k op r = Inr (r', outcome) \<Longrightarrow> step_extends k r r' outcome"
  by (cases op)
    (auto simp: evaluate_pure_kept dest: evaluate_unpark_extends evaluate_add_extends)

lemma evaluateOp_extends:
  assumes "evaluateOp cx w k op r = Inr (r', outcome)"
  shows "step_extends k r r' outcome"
proof (cases "cx_frozen cx \<or> (Option.bind (target_of op) (node_at (wk_plan w)) = None \<and> (\<forall>add. op \<noteq> Add_task add))")
  case True
  with assms show ?thesis by (cases op) (auto simp: evaluateOp_def dropped_def step_extends_def split: if_splits)
next
  case False
  show ?thesis
  proof (cases "\<exists>add. op = Add_task add")
    case True
    with False assms show ?thesis by (auto simp: evaluateOp_def intro: evaluate_add_extends)
  next
    case other: False
    with False obtain node where "Option.bind (target_of op) (node_at (wk_plan w)) = Some node" by auto
    with other False assms have "evaluate_on cx (wk_plan w) node k op r = Inr (r', outcome)"
      by (cases op) (auto simp: evaluateOp_def)
    then show ?thesis by (rule evaluate_on_extends)
  qed
qed

section \<open>The loop and its replay\<close>

lemma lineageOfAdmission_later:
  assumes "\<forall>a \<in> set later. ra_opIndex a \<noteq> k"
  shows "lineageOfAdmission (as @ later) k = lineageOfAdmission as k"
proof -
  have "List.find (\<lambda>a. ra_opIndex a = k) (as @ later) = List.find (\<lambda>a. ra_opIndex a = k) as"
  proof (induction as)
    case Nil
    with assms show ?case by (auto simp: find_None_all)
  qed simp
  then show ?thesis by (simp add: lineageOfAdmission_def)
qed

text \<open>
  The outcomes of a loop, applied with any admissions of later operations behind its own, lead to the
  state of the loop.
\<close>

definition replays ::
  "(string \<Rightarrow> string) \<Rightarrow> (rat \<Rightarrow> string) \<Rightarrow> nat \<Rightarrow> nat \<Rightarrow> 'h rebase_progress \<Rightarrow> 'h rebase_progress \<Rightarrow> bool" where
  "replays sha numstr n m st st' \<longleftrightarrow>
     (case (st, st') of ((w, r, outs), (w', r', outs')) \<Rightarrow>
        \<exists>news as. outs' = outs @ news \<and> length news = m \<and> rr_admissions r' = rr_admissions r @ as
          \<and> (\<forall>a \<in> set as. n \<le> ra_opIndex a \<and> ra_opIndex a < n + m) \<and> (\<forall>x \<in> set news. \<not> dropped_bad_base x)
          \<and> (\<forall>later. (\<forall>a \<in> set later. n + m \<le> ra_opIndex a) \<longrightarrow>
               foldR (apply_outcome sha numstr (rr_admissions r' @ later)) w (enumerate n news) = Inr w'))"

lemma rebase_op_replays:
  assumes "rebase_op sha numstr cx st (n, op) = Inr st'"
  shows "replays sha numstr n 1 st st'"
proof -
  obtain w r outs where st: "st = (w, r, outs)" by (cases st)
  with assms obtain r' x where ev: "evaluateOp cx w n op r = Inr (r', x)"
    by (auto simp: rebase_op_def result_simps)
  from evaluateOp_extends [OF this] obtain as where
    as: "rr_admissions r' = rr_admissions r @ as" "\<forall>a \<in> set as. ra_opIndex a = n" "\<not> dropped_bad_base x"
    by (auto simp: step_extends_def)
  have same: "lineageOfAdmission (rr_admissions r' @ later) n = lineageOfAdmission (rr_admissions r') n"
    if "\<forall>a \<in> set later. n + 1 \<le> ra_opIndex a" for later
    using that by (intro lineageOfAdmission_later) auto
  obtain w' where st': "st' = (w', r', outs @ [x])" and
    w': "case applied_of x of None \<Rightarrow> w' = w | Some op' \<Rightarrow> applyAppliedOp sha numstr (lineageOfAdmission (rr_admissions r') n) op' w = Inr w'"
    using assms st ev by (auto simp: rebase_op_def result_simps split: option.splits)
  have "foldR (apply_outcome sha numstr (rr_admissions r' @ later)) w (enumerate n [x]) = Inr w'"
    if "\<forall>a \<in> set later. n + 1 \<le> ra_opIndex a" for later
    using w' same [OF that] by (auto simp: apply_outcome_def split: option.splits)
  with as st st' show ?thesis by (auto simp: replays_def)
qed

lemma replays_trans:
  assumes "replays sha numstr n k s t" "replays sha numstr (n + k) m t u"
  shows "replays sha numstr n (k + m) s u"
proof -
  obtain w r outs w1 r1 outs1 w2 r2 outs2 where [simp]: "s = (w, r, outs)" "t = (w1, r1, outs1)" "u = (w2, r2, outs2)"
    by (cases s, cases t, cases u)
  from assms(1) obtain news as where one: "outs1 = outs @ news" "length news = k" "rr_admissions r1 = rr_admissions r @ as"
    "\<forall>a \<in> set as. n \<le> ra_opIndex a \<and> ra_opIndex a < n + k" "\<forall>x \<in> set news. \<not> dropped_bad_base x"
    "\<And>later. \<forall>a \<in> set later. n + k \<le> ra_opIndex a \<Longrightarrow>
       foldR (apply_outcome sha numstr (rr_admissions r1 @ later)) w (enumerate n news) = Inr w1"
    by (auto simp: replays_def)
  from assms(2) obtain news' as' where two: "outs2 = outs1 @ news'" "length news' = m" "rr_admissions r2 = rr_admissions r1 @ as'"
    "\<forall>a \<in> set as'. n + k \<le> ra_opIndex a \<and> ra_opIndex a < n + k + m" "\<forall>x \<in> set news'. \<not> dropped_bad_base x"
    "\<And>later. \<forall>a \<in> set later. n + k + m \<le> ra_opIndex a \<Longrightarrow>
       foldR (apply_outcome sha numstr (rr_admissions r2 @ later)) w1 (enumerate (n + k) news') = Inr w2"
    by (auto simp: replays_def)
  have "foldR (apply_outcome sha numstr (rr_admissions r2 @ later)) w (enumerate n (news @ news')) = Inr w2"
    if later: "\<forall>a \<in> set later. n + (k + m) \<le> ra_opIndex a" for later
  proof -
    have "\<forall>a \<in> set (as' @ later). n + k \<le> ra_opIndex a" using two(4) later by auto
    from one(6) [OF this] two(6) [of later] later one(2) two(3) show ?thesis
      by (simp add: enumerate_append_eq foldR_append add.assoc)
  qed
  with one two show ?thesis by (fastforce simp: replays_def)
qed

lemma rebase_loop_replays:
  "foldR (rebase_op sha numstr cx) st (enumerate n ops) = Inr st' \<Longrightarrow> replays sha numstr n (length ops) st st'"
proof (induction ops arbitrary: n st)
  case Nil
  then show ?case by (cases st) (auto simp: replays_def)
next
  case (Cons op ops)
  then obtain t where "rebase_op sha numstr cx st (n, op) = Inr t" "foldR (rebase_op sha numstr cx) t (enumerate (Suc n) ops) = Inr st'"
    by (auto simp: result_simps)
  then have "replays sha numstr n 1 st t" "replays sha numstr (n + 1) (length ops) t st'"
    using rebase_op_replays Cons.IH by fastforce+
  from replays_trans [OF this] show ?case by simp
qed

section \<open>Replay of a revision\<close>

lemma recompute_sel [simp]:
  "tp_revisionCount (recomputePlanReadiness p) = tp_revisionCount p"
  "tp_droppedRevisionStreak (recomputePlanReadiness p) = tp_droppedRevisionStreak p"
  by (simp_all add: recomputePlanReadiness_def)

lemma working_of_sel [simp]: "wk_plan (working_of st) = wk_plan st" "wk_specs (working_of st) = wk_specs st"
  by (simp_all add: working_of_def)

lemma verifyHash_same [simp]: "verifyHash d seq (planHash d p) p = Inr ()"
  by (simp add: verifyHash_def)

lemma readPlanRevision_value [simp]:
  "readPlanRevision (Some (revision_value request b ev)) = Some (revision_value request b ev, ev_outcomes ev)"
  by (simp add: readPlanRevision_def revision_value_def)

lemma revision_value_sel [simp]:
  "rv_planHashBefore (revision_value request b ev) = ev_planHashBefore ev"
  "rv_planHashAfter (revision_value request b ev) = ev_planHashAfter ev"
  "rv_admissions (revision_value request b ev) = ev_admissions ev"
  by (simp_all add: revision_value_def)

lemma bad_base_replays:
  assumes "rebasePlanRevision sha numstr request cx h = Inr ev" "ev_badBase ev" "rq_ops request \<noteq> []"
  shows "apply_revision sha numstr (deriverV2 sha numstr) seq (revision_value request b ev) (ev_outcomes ev) (cx_state cx)
    = Inr ((cx_state cx)\<lparr> fs_badBaseStreak := fs_badBaseStreak (cx_state cx) + 1 \<rparr>) \<and> ev_working ev = working_of (cx_state cx)"
  using assms
  by (auto simp: rebasePlanRevision_def apply_revision_def Let_def result_simps dropped_def list_all_iff split: if_splits)

lemma based_replays:
  assumes "rebasePlanRevision sha numstr request cx h = Inr ev" "\<not> ev_badBase ev" "rq_ops request \<noteq> []"
  shows "apply_revision sha numstr (deriverV2 sha numstr) seq (revision_value request b ev) (ev_outcomes ev) (cx_state cx)
    = Inr \<lparr> wk_plan = wk_plan (ev_working ev), wk_specs = wk_specs (ev_working ev), fs_badBaseStreak = 0,
            fs_doneRefs = fs_doneRefs (cx_state cx) \<rparr>"
proof -
  let ?start = "(working_of (cx_state cx), \<lparr> rr_hooks = h, rr_admissions = [], rr_assigned = [] \<rparr>, [])"
  from assms obtain w r outs where
    loop: "foldR (rebase_op sha numstr cx) ?start (enumerate 0 (rq_ops request)) = Inr (w, r, outs)"
    and ev: "ev_outcomes ev = outs" "ev_admissions ev = rr_admissions r"
      "ev_planHashBefore ev = planHash (deriverV2 sha numstr) (wk_plan (cx_state cx))"
      "ev_working ev = w\<lparr> wk_plan := count_revision (list_all is_dropped outs) (wk_plan w) \<rparr>"
      "ev_planHashAfter ev = planHash (deriverV2 sha numstr) (count_revision (list_all is_dropped outs) (wk_plan w))"
    by (auto simp: rebasePlanRevision_def Let_def result_simps split: if_splits)
  from rebase_loop_replays [OF loop] have len: "length outs = length (rq_ops request)"
    and clean: "\<forall>x \<in> set outs. \<not> dropped_bad_base x"
    and redo: "foldR (apply_outcome sha numstr (rr_admissions r)) (working_of (cx_state cx)) (enumerate 0 outs) = Inr w"
    by (auto simp: replays_def dest: spec [of _ "[]"])
  have "\<not> (outs \<noteq> [] \<and> list_all dropped_bad_base outs)" using clean by (cases outs) (auto simp: list_all_iff)
  then have mixed: "(outs \<noteq> [] \<and> list_all dropped_bad_base outs) = False" by simp
  show ?thesis by (simp add: apply_revision_def Let_def ev redo mixed)
qed

lemma decision_replays_at_head:
  assumes "decision_value sha numstr origin ops causeRef st = Inr value"
    and "applyDecisionOps sha numstr st ops = Inr (w, refs)"
  shows "apply_decision sha numstr (deriverV2 sha numstr) seq value ops st
    = Inr \<lparr> wk_plan = wk_plan w, wk_specs = wk_specs w, fs_badBaseStreak = fs_badBaseStreak st, fs_doneRefs = refs \<rparr>"
  using assms by (auto simp: decision_value_def apply_decision_def)

end
