(* ===== verification/PlanSafety.thy ===== *)
theory PlanSafety
  imports PlanReplay
begin

text \<open>
  What every step of the plan keeps: the record is keyed by the identifiers of its nodes, a terminal
  node stays as it is but for its edges, the dependencies form no cycle, and after every entry a
  schedulable node is ready exactly when its dependencies are satisfied.
\<close>

section \<open>Well-formed plans\<close>

definition plan_wf :: "task_plan \<Rightarrow> bool" where
  "plan_wf p \<longleftrightarrow> jm_wf (tp_nodes p) \<and> (\<forall>i n. node_at p i = Some n \<longrightarrow> pn_nodeId n = i)"

definition node_frozen :: "plan_node \<Rightarrow> plan_node \<Rightarrow> bool" where
  "node_frozen n n' \<longleftrightarrow> n' = n\<lparr> pn_deps := pn_deps n', pn_waivedDeps := pn_waivedDeps n' \<rparr>"

definition keeps_terminal :: "task_plan \<Rightarrow> task_plan \<Rightarrow> bool" where
  "keeps_terminal p p' \<longleftrightarrow>
     (\<forall>i n. node_at p i = Some n \<longrightarrow> isTerminalPlanStatus (pn_status n) \<longrightarrow>
        (\<exists>n'. node_at p' i = Some n' \<and> node_frozen n n'))"

lemma node_frozen_refl [simp]: "node_frozen n n"
  by (simp add: node_frozen_def)

lemma node_frozen_status: "node_frozen n n' \<Longrightarrow> pn_status n' = pn_status n"
  by (cases n; cases n') (simp add: node_frozen_def)

lemma node_frozen_trans:
  assumes "node_frozen n n'" "node_frozen n' n''"
  shows "node_frozen n n''"
  using assms by (cases n; cases n'; cases n'') (simp add: node_frozen_def)

lemma keeps_terminal_refl [simp]: "keeps_terminal p p"
  by (simp add: keeps_terminal_def)

lemma keeps_terminalD:
  assumes "keeps_terminal p q" "node_at p i = Some n" "isTerminalPlanStatus (pn_status n)"
  obtains n' where "node_at q i = Some n'" "node_frozen n n'"
  using assms unfolding keeps_terminal_def by blast

lemma keeps_terminal_trans:
  assumes "keeps_terminal p q" "keeps_terminal q s"
  shows "keeps_terminal p s"
  unfolding keeps_terminal_def
proof (intro allI impI)
  fix i n assume n: "node_at p i = Some n" "isTerminalPlanStatus (pn_status n)"
  obtain n' where n': "node_at q i = Some n'" "node_frozen n n'" using keeps_terminalD [OF assms(1) n] .
  have "isTerminalPlanStatus (pn_status n')" using n(2) node_frozen_status [OF n'(2)] by simp
  then obtain n'' where "node_at s i = Some n''" "node_frozen n' n''" using keeps_terminalD [OF assms(2) n'(1)] by blast
  with node_frozen_trans [OF n'(2)] show "\<exists>n''. node_at s i = Some n'' \<and> node_frozen n n''" by blast
qed

lemma node_at_withNode:
  "node_at (wk_plan (withNode n spec w)) i = (if i = pn_nodeId n then Some n else node_at (wk_plan w) i)"
  by (simp add: withNode_def jm_get_set)

lemma withNode_wf: "plan_wf (wk_plan w) \<Longrightarrow> plan_wf (wk_plan (withNode n spec w))"
  by (simp add: plan_wf_def node_at_withNode) (simp add: withNode_def)

lemma withNode_counters [simp]:
  "tp_revisionCount (wk_plan (withNode n spec w)) = tp_revisionCount (wk_plan w)"
  "tp_droppedRevisionStreak (wk_plan (withNode n spec w)) = tp_droppedRevisionStreak (wk_plan w)"
  by (simp_all add: withNode_def)

lemma nodeOf_Inr: "nodeOf p i = Inr n \<longleftrightarrow> node_at p i = Some n"
  by (auto simp: nodeOf_def split: option.splits)

section \<open>Readiness\<close>

definition ready_settled :: "task_plan \<Rightarrow> bool" where
  "ready_settled p \<longleftrightarrow>
     (\<forall>i n. node_at p i = Some n \<longrightarrow> schedulable n \<longrightarrow> (pn_status n = Ns_ready \<longleftrightarrow> depsSatisfied p n))"

lemma recompute_node_sel [simp]:
  "pn_nodeId (recompute_node p n) = pn_nodeId n" "pn_deps (recompute_node p n) = pn_deps n"
  "pn_waivedDeps (recompute_node p n) = pn_waivedDeps n"
  "schedulable (recompute_node p n) = schedulable n"
  by (simp_all add: recompute_node_def schedulable_def)

lemma node_at_recompute: "node_at (recomputePlanReadiness p) i = map_option (recompute_node p) (node_at p i)"
  by (simp add: recomputePlanReadiness_def jm_get_map_values)

lemma recompute_done: "pn_status (recompute_node p n) = Ns_done \<longleftrightarrow> pn_status n = Ns_done"
  by (auto simp: recompute_node_def schedulable_def)

lemma recompute_deps: "depsSatisfied (recomputePlanReadiness p) (recompute_node p n) = depsSatisfied p n"
proof -
  have "status_at (recomputePlanReadiness p) d = Some Ns_done \<longleftrightarrow> status_at p d = Some Ns_done" for d
    by (cases "node_at p d") (simp_all add: status_at_def node_at_recompute recompute_done)
  then show ?thesis by (simp add: depsSatisfied_def)
qed

lemma recompute_settled: "ready_settled (recomputePlanReadiness p)"
  unfolding ready_settled_def node_at_recompute
  by (auto simp: recompute_deps) (auto simp: recompute_node_def split: if_splits)

lemma recompute_wf: "plan_wf p \<Longrightarrow> plan_wf (recomputePlanReadiness p)"
proof -
  assume wf: "plan_wf p"
  have "jm_keys (tp_nodes (recomputePlanReadiness p)) = jm_keys (tp_nodes p)"
    by (simp add: recomputePlanReadiness_def case_prod_unfold comp_def)
  with wf show ?thesis by (auto simp: plan_wf_def jm_wf_def node_at_recompute)
qed

lemma recompute_keeps_terminal: "keeps_terminal p (recomputePlanReadiness p)"
  by (auto simp: keeps_terminal_def node_at_recompute recompute_node_def schedulable_def)

lemma count_revision_nodes [simp]:
  "node_at (count_revision b p) i = map_option (recompute_node p) (node_at p i)"
proof -
  let ?q = "p\<lparr> tp_revisionCount := tp_revisionCount p + 1,
               tp_droppedRevisionStreak := if b then tp_droppedRevisionStreak p + 1 else 0 \<rparr>"
  have "recompute_node ?q = recompute_node p"
    by (rule ext) (simp add: recompute_node_def depsSatisfied_def status_at_def)
  then show ?thesis by (simp add: count_revision_def node_at_recompute)
qed

lemma count_revision_wf: "plan_wf p \<Longrightarrow> plan_wf (count_revision b p)"
  unfolding count_revision_def by (rule recompute_wf) (simp add: plan_wf_def)

lemma count_revision_settled: "ready_settled (count_revision b p)"
  by (simp add: count_revision_def recompute_settled)

lemma count_revision_keeps_terminal: "keeps_terminal p (count_revision b p)"
  by (auto simp: keeps_terminal_def recompute_node_def schedulable_def)

lemma count_revision_counters [simp]:
  "tp_revisionCount (count_revision b p) = tp_revisionCount p + 1"
  "tp_droppedRevisionStreak (count_revision b p) = (if b then tp_droppedRevisionStreak p + 1 else 0)"
  by (simp_all add: count_revision_def)

section \<open>Every operation keeps the record and the counters\<close>

definition same_shape :: "plan_working \<Rightarrow> plan_working \<Rightarrow> bool" where
  "same_shape w w' \<longleftrightarrow>
     (plan_wf (wk_plan w) \<longrightarrow> plan_wf (wk_plan w'))
     \<and> tp_revisionCount (wk_plan w') = tp_revisionCount (wk_plan w)
     \<and> tp_droppedRevisionStreak (wk_plan w') = tp_droppedRevisionStreak (wk_plan w)"

lemma same_shape_refl [simp]: "same_shape w w"
  by (simp add: same_shape_def)

lemma same_shape_trans: "same_shape u v \<Longrightarrow> same_shape v w \<Longrightarrow> same_shape u w"
  by (simp add: same_shape_def)

lemma same_shape_withNode [simp]: "same_shape w (withNode n spec w)"
  by (simp add: same_shape_def withNode_wf)

lemma skip_member_shape: "skip_member w i = Inr w' \<Longrightarrow> same_shape w w'"
  by (auto simp: skip_member_def result_simps split: if_splits)

lemma skip_members_shape: "foldR skip_member w is = Inr w' \<Longrightarrow> same_shape w w'"
  by (rule foldR_rel [where R = same_shape]) (auto intro: same_shape_trans skip_member_shape)

lemma apply_op_shape: "applyAppliedOp sha numstr admitted op w = Inr w' \<Longrightarrow> same_shape w w'"
  by (induction sha numstr admitted op w rule: applyAppliedOp.induct)
    (auto simp: result_simps Let_def split: if_splits option.splits
      intro: same_shape_trans [OF same_shape_withNode skip_members_shape])

lemma apply_outcomes_shape: "foldR (apply_outcome sha numstr as) w os = Inr w' \<Longrightarrow> same_shape w w'"
  by (rule foldR_rel [where R = same_shape])
    (auto simp: apply_outcome_def split: option.splits intro: same_shape_trans apply_op_shape)

lemma enter_children_shape: "same_shape w (foldl (enter_child sha numstr) w cs)"
proof (induction cs arbitrary: w)
  case (Cons c cs)
  have "same_shape w (enter_child sha numstr w c)" by (simp add: enter_child_def)
  with Cons show ?case by (auto intro: same_shape_trans)
qed simp

lemma engine_op_shape: "apply_engine_op sha numstr (w, refs) op = Inr (w', refs') \<Longrightarrow> same_shape w w'"
  by (cases op) (auto simp: result_simps enter_children_shape split: if_splits)

lemma engine_ops_shape: "foldR (apply_engine_op sha numstr) st ops = Inr st' \<Longrightarrow> same_shape (fst st) (fst st')"
  by (rule foldR_rel [where R = "\<lambda>s t. same_shape (fst s) (fst t)"])
    (auto intro: same_shape_trans engine_op_shape)

section \<open>Every entry keeps the invariant\<close>

definition fold_inv :: "plan_fold_state \<Rightarrow> bool" where
  "fold_inv st \<longleftrightarrow> plan_wf (wk_plan st) \<and> ready_settled (wk_plan st)"

lemma apply_revision_inv:
  assumes "apply_revision sha numstr d seq v outs st = Inr st'" "fold_inv st"
  shows "fold_inv st'"
proof (cases "outs \<noteq> [] \<and> list_all dropped_bad_base outs")
  case True
  with assms show ?thesis by (auto simp: apply_revision_def fold_inv_def result_simps)
next
  case False
  with assms obtain w where w: "foldR (apply_outcome sha numstr (rv_admissions v)) (working_of st) (enumerate 0 outs) = Inr w"
    and st': "wk_plan st' = count_revision (list_all is_dropped outs) (wk_plan w)"
    by (auto simp: apply_revision_def Let_def result_simps)
  from apply_outcomes_shape [OF w] assms(2) have "plan_wf (wk_plan w)" by (simp add: same_shape_def fold_inv_def)
  with st' show ?thesis by (simp add: fold_inv_def count_revision_wf count_revision_settled)
qed

lemma apply_decision_inv:
  assumes "apply_decision sha numstr d seq v ops st = Inr st'" "fold_inv st"
  shows "fold_inv st'"
proof -
  from assms obtain w refs where w: "foldR (apply_engine_op sha numstr) (working_of st, fs_doneRefs st) ops = Inr (w, refs)"
    and st': "wk_plan st' = recomputePlanReadiness (wk_plan w)"
    by (auto simp: apply_decision_def applyDecisionOps_def result_simps)
  from engine_ops_shape [OF w] assms(2) have "plan_wf (wk_plan w)" by (simp add: same_shape_def fold_inv_def)
  with st' show ?thesis by (simp add: fold_inv_def recompute_wf recompute_settled)
qed

lemma applyPlanEntry_inv: "applyPlanEntry sha numstr df st e = Inr st' \<Longrightarrow> fold_inv st \<Longrightarrow> fold_inv st'"
  by (auto simp: applyPlanEntry_def Let_def split: plan_payload.splits option.splits
      intro: apply_revision_inv apply_decision_inv)

lemma fold_inv_empty: "fold_inv (emptyPlanFold emptyPlan)"
  by (simp add: fold_inv_def emptyPlanFold_def emptyPlan_def plan_wf_def ready_settled_def)

lemma fold_plan_inv: "fold_plan sha numstr df es = Inr st \<Longrightarrow> fold_inv st"
  unfolding fold_plan_def
  by (rule foldR_invariant [where P = fold_inv]) (auto intro: applyPlanEntry_inv fold_inv_empty)

section \<open>The counters of the guards\<close>

definition revision_of :: "plan_entry \<Rightarrow> rebase_outcome list option" where
  "revision_of e = (case pe_payload e of Plan_revision v \<Rightarrow> map_option snd (readPlanRevision v) | _ \<Rightarrow> None)"

definition bad_base_entry :: "plan_entry \<Rightarrow> bool" where
  "bad_base_entry e \<longleftrightarrow> (case revision_of e of Some outs \<Rightarrow> outs \<noteq> [] \<and> list_all dropped_bad_base outs | None \<Rightarrow> False)"

definition counted_entry :: "plan_entry \<Rightarrow> bool" where
  "counted_entry e \<longleftrightarrow> revision_of e \<noteq> None \<and> \<not> bad_base_entry e"

definition all_dropped_entry :: "plan_entry \<Rightarrow> bool" where
  "all_dropped_entry e \<longleftrightarrow> (case revision_of e of Some outs \<Rightarrow> list_all is_dropped outs | None \<Rightarrow> False)"

definition counters_step :: "plan_fold_state \<Rightarrow> plan_entry \<Rightarrow> plan_fold_state \<Rightarrow> bool" where
  "counters_step st e st' \<longleftrightarrow>
     tp_revisionCount (wk_plan st') = tp_revisionCount (wk_plan st) + (if counted_entry e then 1 else 0)
     \<and> tp_droppedRevisionStreak (wk_plan st') =
         (if counted_entry e then (if all_dropped_entry e then tp_droppedRevisionStreak (wk_plan st) + 1 else 0)
          else tp_droppedRevisionStreak (wk_plan st))
     \<and> fs_badBaseStreak st' =
         (if bad_base_entry e then fs_badBaseStreak st + 1 else if counted_entry e then 0 else fs_badBaseStreak st)"

lemma revision_counters:
  assumes rev: "revision_of e = Some outs" and run: "apply_revision sha numstr d seq v outs st = Inr st'"
  shows "counters_step st e st'"
proof (cases "outs \<noteq> [] \<and> list_all dropped_bad_base outs")
  case True
  with run rev show ?thesis
    by (auto simp: apply_revision_def counted_entry_def bad_base_entry_def counters_step_def result_simps)
next
  case False
  with run obtain w where w: "foldR (apply_outcome sha numstr (rv_admissions v)) (working_of st) (enumerate 0 outs) = Inr w"
    and st': "wk_plan st' = count_revision (list_all is_dropped outs) (wk_plan w)" "fs_badBaseStreak st' = 0"
    by (auto simp: apply_revision_def Let_def result_simps)
  have "counted_entry e" "\<not> bad_base_entry e" "all_dropped_entry e \<longleftrightarrow> list_all is_dropped outs"
    using False rev by (simp_all add: counted_entry_def bad_base_entry_def all_dropped_entry_def)
  with apply_outcomes_shape [OF w] st' show ?thesis by (simp add: same_shape_def counters_step_def)
qed

lemma decision_counters:
  assumes "revision_of e = None" and "apply_decision sha numstr d seq v ops st = Inr st'"
  shows "counters_step st e st'"
proof -
  from assms(2) obtain w refs where w: "foldR (apply_engine_op sha numstr) (working_of st, fs_doneRefs st) ops = Inr (w, refs)"
    and st': "wk_plan st' = recomputePlanReadiness (wk_plan w)" "fs_badBaseStreak st' = fs_badBaseStreak st"
    by (auto simp: apply_decision_def applyDecisionOps_def result_simps)
  from engine_ops_shape [OF w] st' assms(1) show ?thesis
    by (simp add: same_shape_def counters_step_def counted_entry_def bad_base_entry_def)
qed

lemma entry_counters:
  assumes "applyPlanEntry sha numstr df st e = Inr st'"
  shows "counters_step st e st'"
proof (cases "pe_payload e")
  case (Plan_revision v)
  with assms obtain val outs where read: "readPlanRevision v = Some (val, outs)"
    and run: "apply_revision sha numstr (deriver_of sha numstr df (pe_hashVersion e)) (pe_seq e) val outs st = Inr st'"
    by (auto simp: applyPlanEntry_def Let_def split: option.splits)
  have "revision_of e = Some outs" using Plan_revision read by (simp add: revision_of_def)
  from revision_counters [OF this run] show ?thesis .
next
  case (Plan_decision v)
  then have "revision_of e = None" by (simp add: revision_of_def)
  with Plan_decision assms show ?thesis
    by (auto simp: applyPlanEntry_def Let_def split: option.splits intro: decision_counters)
next
  case Other_payload
  with assms show ?thesis
    by (simp add: applyPlanEntry_def counters_step_def counted_entry_def bad_base_entry_def revision_of_def)
qed

lemma fold_counts_revisions:
  "fold_plan sha numstr df es = Inr st \<Longrightarrow> tp_revisionCount (wk_plan st) = length (filter counted_entry es)"
proof (induction es arbitrary: st rule: rev_induct)
  case Nil
  then have "st = emptyPlanFold emptyPlan" by (simp add: fold_plan_def)
  then show ?case by (simp add: emptyPlanFold_def emptyPlan_def)
next
  case (snoc e es)
  then obtain mid where mid: "fold_plan sha numstr df es = Inr mid" and last: "applyPlanEntry sha numstr df mid e = Inr st"
    by (auto simp: fold_plan_def foldR_snoc bindR_eq_Inr)
  from snoc.IH [OF mid] entry_counters [OF last] show ?case by (simp add: counters_step_def)
qed

end
