(* ===== verification/PlanClaims.thy ===== *)
theory PlanClaims
  imports PlanSafety
begin

text \<open>
  The properties of the plan: the cycle check and the cascade are exact, the fold keeps its invariant,
  and the entry of a revision replays to the state the rebase announced.
\<close>

section \<open>A small revision\<close>

text \<open>
  A plan of three nodes, the second and third waiting for the one before; the revision cancels the
  first, adds a task and rewires a node that is not there.
\<close>

definition demo_node :: "string \<Rightarrow> node_status \<Rightarrow> string list \<Rightarrow> plan_node" where
  "demo_node i s deps = (fresh_node i i deps 0 ''spec'')\<lparr> pn_status := s \<rparr>"

definition demo_plan :: task_plan where
  "demo_plan = \<lparr> tp_nodes = [(''A'', demo_node ''A'' Ns_ready []), (''C'', demo_node ''C'' Ns_pending [''B'']),
                             (''B'', demo_node ''B'' Ns_pending [''A''])],
                 tp_revisionCount = 1, tp_droppedRevisionStreak = 0 \<rparr>"

definition demo_state :: plan_fold_state where
  "demo_state = \<lparr> wk_plan = demo_plan, wk_specs = [], fs_badBaseStreak = 0, fs_doneRefs = [] \<rparr>"

definition demo_add :: add_task where
  "demo_add = \<lparr> at_spec = [], at_deps = Some [''A''], at_priority = None, at_lineage = None, at_approach = None, at_fresh = False \<rparr>"

definition demo_context :: "nat rebase_context" where
  "demo_context = \<lparr> cx_state = demo_state, cx_digestPlanHashFor = (\<lambda>_. Some ''head''),
     cx_mintNodeId = (\<lambda>n. (Suc n, CHR ''n'' # show_nat n)), cx_frozen = False, cx_admitAdd = None, cx_admitUnpark = None,
     cx_lineageCheck = None, cx_dedup = None \<rparr>"

definition demo_request :: revise_request where
  "demo_request = \<lparr> rq_base = \<lparr> ps_digestSeq = 0, ps_planHash = ''head'' \<rparr>,
     rq_ops = [Cancel_task ''A'' None, Add_task demo_add, Rewire_deps ''Z'' []], rq_rationale = '''' \<rparr>"

lemmas demo_defs = demo_node_def demo_plan_def demo_state_def demo_add_def demo_context_def demo_request_def fresh_node_def

definition demo_loop :: "nat rebase_progress result" where
  "demo_loop = foldR (rebase_op id sample_numstr demo_context)
     (working_of demo_state, \<lparr> rr_hooks = 0, rr_admissions = [], rr_assigned = [] \<rparr>, []) (enumerate 0 (rq_ops demo_request))"

lemma demo_outcomes:
  "map_sum id (\<lambda>(w, r, outs). outs) demo_loop =
     Inr [Op_applied (Applied_cancel ''A'' None False [''B'', ''C'']), Op_applied (Applied_add ''n0'' demo_add),
          Op_dropped (Rewire_deps ''Z'' []) Rr_no_such_dep None]"
  by code_simp

lemma map_sum_Inr: "map_sum id f x = Inr y \<longleftrightarrow> (\<exists>z. x = Inr z \<and> y = f z)"
  by (cases x) auto

lemma show_nat_zero: "show_nat 0 = ''0''"
  by code_simp

lemma demo_rebase:
  "\<exists>ev. rebasePlanRevision id sample_numstr demo_request demo_context 0 = Inr ev
     \<and> ev_outcomes ev = [Op_applied (Applied_cancel ''A'' None False [''B'', ''C'']), Op_applied (Applied_add ''n0'' demo_add),
                        Op_dropped (Rewire_deps ''Z'' []) Rr_no_such_dep None]"
proof -
  obtain w r where "demo_loop = Inr (w, r, [Op_applied (Applied_cancel ''A'' None False [''B'', ''C'']),
      Op_applied (Applied_add ''n0'' demo_add), Op_dropped (Rewire_deps ''Z'' []) Rr_no_such_dep None])"
    using demo_outcomes by (auto simp: map_sum_Inr)
  moreover have "cx_state demo_context = demo_state" "ps_digestSeq (rq_base demo_request) = 0"
    "ps_planHash (rq_base demo_request) = ''head''" "cx_digestPlanHashFor demo_context 0 = Some ''head''"
    by (simp_all add: demo_context_def demo_request_def)
  ultimately show ?thesis by (simp add: rebasePlanRevision_def Let_def demo_loop_def)
qed

text \<open>The first entry of a plan: a revision that adds one task.\<close>

definition first_context :: "nat rebase_context" where
  "first_context = demo_context\<lparr> cx_state := emptyPlanFold emptyPlan \<rparr>"

definition first_request :: revise_request where
  "first_request = demo_request\<lparr> rq_ops := [Add_task demo_add] \<rparr>"

definition demo_entry :: plan_entry where
  "demo_entry = \<lparr> pe_seq = 1, pe_hashVersion = 2, pe_payload = Plan_revision (map_option (revision_value first_request 9)
     (case rebasePlanRevision id sample_numstr first_request first_context 0 of Inl _ \<Rightarrow> None | Inr ev \<Rightarrow> Some ev)) \<rparr>"

lemma first_rebase:
  "\<exists>ev. rebasePlanRevision id sample_numstr first_request first_context 0 = Inr ev
     \<and> ev_outcomes ev = [Op_applied (Applied_add ''n0'' demo_add)] \<and> \<not> ev_badBase ev"
  by (simp add: rebasePlanRevision_def first_request_def first_context_def demo_request_def demo_context_def Let_def
      rebase_op_def evaluateOp_def evaluate_add_def check_lineage_def demo_add_def find_reuse_def admit_add_def show_nat_zero)

lemma demo_folds: "\<exists>st. fold_plan id sample_numstr (\<lambda>_. None) [demo_entry] = Inr st"
proof -
  obtain ev where ev: "rebasePlanRevision id sample_numstr first_request first_context 0 = Inr ev" "\<not> ev_badBase ev"
    using first_rebase by blast
  have "rq_ops first_request \<noteq> []" "cx_state first_context = emptyPlanFold emptyPlan"
    by (simp_all add: first_request_def first_context_def)
  with based_replays [OF ev, of 1 9] ev(1) show ?thesis
    by (auto simp: fold_plan_def demo_entry_def applyPlanEntry_def deriver_of_def)
qed

lemma demo_counted: "counted_entry demo_entry"
proof -
  obtain ev where ev: "rebasePlanRevision id sample_numstr first_request first_context 0 = Inr ev"
    "ev_outcomes ev = [Op_applied (Applied_add ''n0'' demo_add)]"
    using first_rebase by blast
  then show ?thesis by (simp add: demo_entry_def counted_entry_def bad_base_entry_def revision_of_def)
qed

section \<open>Properties\<close>

text \<open>
  C24. The cycle check is exact: it answers yes precisely when some cycle can be reached from the node
  in the dependency graph with the node's dependencies replaced, and it always answers.
\<close>

theorem dep_cycle_exact:
  "wouldCreateDepCycle p nodeId deps \<longleftrightarrow>
     (let edges = {(i, dep). dep \<in> set (if i = nodeId then deps else case node_at p i of Some n \<Rightarrow> pn_deps n | None \<Rightarrow> [])}
      in \<exists>j. (nodeId, j) \<in> edges\<^sup>* \<and> (j, j) \<in> edges\<^sup>+)"
proof -
  have "deps_in (jm_set nodeId deps (plan_graph p)) i =
      (if i = nodeId then deps else case node_at p i of Some n \<Rightarrow> pn_deps n | None \<Rightarrow> [])" for i
    by (simp add: deps_in_def jm_get_set plan_graph_get split: option.split)
  then have "dep_edges (jm_set nodeId deps (plan_graph p)) =
      {(i, dep). dep \<in> set (if i = nodeId then deps else case node_at p i of Some n \<Rightarrow> pn_deps n | None \<Rightarrow> [])}"
    by (simp add: dep_edges_def)
  then show ?thesis by (simp add: wouldCreateDepCycle_def visit_exact on_cycle_from_def Let_def)
qed

text \<open>
  C25. The cascade of a cancelled node is computed exactly: it lists, sorted and once each, the nodes
  that are neither terminal nor running and depend through unwaived edges, directly or through other
  such nodes, on the cancelled one.
\<close>

theorem cascade_exact:
  "sorted (cascadeOf p target) \<and> distinct (cascadeOf p target)
     \<and> set (cascadeOf p target) = {i. severed_by (jm_values (tp_nodes p)) target i}"
proof -
  have "cascade_inv (jm_values (tp_nodes p)) target [] [target]" by (simp add: cascade_inv_def)
  from cascade_loop_exact [OF this] show ?thesis by (simp add: cascadeOf_def)
qed

text \<open>
  C23. Replay agrees with the live revision: folding the entry that a revision appends, at the head the
  revision was evaluated against, passes both hash checks and yields the plan and the specs the
  evaluation announced. A revision with a bad base changes only the streak the guards read.
\<close>

theorem revision_replays:
  assumes "rebasePlanRevision sha numstr request cx h = Inr ev"
    and "rq_ops request \<noteq> []"
    and "deriverFor 2 = None \<or> deriverFor 2 = Some (deriverV2 sha numstr)"
  shows "applyPlanEntry sha numstr deriverFor (cx_state cx)
      \<lparr> pe_seq = seq, pe_hashVersion = 2, pe_payload = Plan_revision (Some (revision_value request balance ev)) \<rparr>
    = Inr \<lparr> wk_plan = wk_plan (ev_working ev), wk_specs = wk_specs (ev_working ev),
            fs_badBaseStreak = (if ev_badBase ev then fs_badBaseStreak (cx_state cx) + 1 else 0),
            fs_doneRefs = fs_doneRefs (cx_state cx) \<rparr>"
proof -
  have deriver: "deriver_of sha numstr deriverFor 2 = deriverV2 sha numstr" using assms(3) by (auto simp: deriver_of_def)
  show ?thesis
  proof (cases "ev_badBase ev")
    case True
    from bad_base_replays [OF assms(1) True assms(2), of seq balance] True show ?thesis
      by (cases "cx_state cx") (simp add: applyPlanEntry_def deriver)
  next
    case False
    from based_replays [OF assms(1) False assms(2), of seq balance] False show ?thesis
      by (simp add: applyPlanEntry_def deriver)
  qed
qed

theorem revision_replays_witness:
  "\<exists>ev. rebasePlanRevision id sample_numstr demo_request demo_context 0 = Inr ev \<and>
     applyPlanEntry id sample_numstr (\<lambda>_. None) demo_state
      \<lparr> pe_seq = 7, pe_hashVersion = 2, pe_payload = Plan_revision (Some (revision_value demo_request 5 ev)) \<rparr>
    = Inr \<lparr> wk_plan = wk_plan (ev_working ev), wk_specs = wk_specs (ev_working ev),
            fs_badBaseStreak = (if ev_badBase ev then fs_badBaseStreak demo_state + 1 else 0),
            fs_doneRefs = fs_doneRefs demo_state \<rparr>"
proof -
  obtain ev where ev: "rebasePlanRevision id sample_numstr demo_request demo_context 0 = Inr ev"
    using demo_rebase by blast
  have "rq_ops demo_request \<noteq> []" "cx_state demo_context = demo_state"
    by (simp_all add: demo_request_def demo_context_def)
  with revision_replays [OF ev, of "\<lambda>_. None" 7 5] ev show ?thesis by auto
qed



text \<open>
  A fully dropped revision with a good base forgets the bad bases before it: after it the streak of
  the guards counts the hashed drops only.
\<close>

lemma drop_forgets_bad_bases:
  assumes "applyPlanEntry sha numstr deriverFor st e = Inr st'" "counted_entry e" "all_dropped_entry e"
  shows "effectiveDroppedStreak st' = tp_droppedRevisionStreak (wk_plan st) + 1"
  using entry_counters [OF assms(1)] assms(2,3)
  by (auto simp: counters_step_def effectiveDroppedStreak_def counted_entry_def)

text \<open>The resolution of an escalation asks for no transition: it re-opens a node that is done.\<close>

lemma resolution_reopens_done:
  assumes "node_at (wk_plan w) i = Some n" "pn_nodeId n = i"
  shows "\<exists>w'. apply_engine_op sha numstr (w, refs) (Resolve_escalation i (Ed_retry None None) By_live ref) = Inr (w', refs)
    \<and> status_at (wk_plan w') i = Some Ns_pending"
  using assms by (simp add: nodeOf_def status_at_def node_at_withNode)

end
