(* ===== verification/Spec2Isabelle.thy ===== *)
theory Spec2Isabelle
  imports Usage Billing Scope Kinds KeyDeriver Disposition Matching ResolutionFold Serializable Store Replayer TerminationAccount EffectLane LaneIntent AdmissionPump BudgetClaims SpawnClaims WireCapacity PlanClaims
begin

text \<open>
  Rulvar runs workflows of language-model agents durably: everything a run does is an entry of an
  append-only journal, a resumed run is served from that journal, and the decisions that matter
  (approvals, spawns, budgets, external effects) are folds over it. This development models the
  kernel that writes and reads the journal, under \<open>src/packages/core/src\<close>, and the plan fold that rides on
  it, under \<open>src/packages/plan/src\<close>, and proves the properties their comments and design rely on.

  \<^bold>\<open>How the parts interact.\<close> The engine asks the replayer for an operation; the replayer derives its
  content key, asks the matcher whether the journal already holds it, and otherwise appends through
  the store. Suspended operations are closed by resolution and abandon entries, which the resolution
  fold arbitrates. Disposition rules decide which recorded outcomes are served again. The termination
  account debits spawns, revisions and escalations and is rebuilt by a fold of the journal. The effect
  lane rides on the same journal: its fold decides which intents consumed which approvals, and its
  writer appends under contention with other holders of the run.

  \<^bold>\<open>Shared theories.\<close> \<open>Prelude\<close>: errors as values (one constructor per error class the code throws),
  the result type and its fold, the insertion-ordered JavaScript map with its interface as the locale
  \<open>ordered_map\<close>. \<open>Json\<close>: JSON values and member access, with the \<open>TypeError\<close> of reading a member of
  null. \<open>JsNumber\<close>: the numbers usage accounting can meet. \<open>Entries\<close>: \<open>l0/entries.ts\<close>, the entry
  record with every member.

  \<^bold>\<open>Usage and money.\<close> \<open>Usage\<close> (\<open>l0/usage.ts\<close>): violations, repair and sums of usage reports.
  \<open>Billing\<close> (the rest of \<open>l0/entries.ts\<close>): usage slices, the historical price fold and the billing
  fold; every slice and call record is priced once.

  \<^bold>\<open>Identity.\<close> \<open>Scope\<close> (\<open>journal/scope.ts\<close>): scope paths and their round trip. \<open>Jcs\<close> (\<open>l0/jcs.ts\<close>)
  and \<open>KeyDeriver\<close> (\<open>journal/identity.ts\<close>, \<open>journal/keyderiver.ts\<close>): canonical JSON, content keys under
  both profiles, the registry and the compatibility scan. The hash function is an argument; its
  collision freedom is a hypothesis where it is needed.

  \<^bold>\<open>Journal kernel.\<close> \<open>Kinds\<close> (\<open>journal/kinds.ts\<close>): the write-time shape gate. \<open>Disposition\<close>
  (\<open>journal/disposition.ts\<close>, part of \<open>l0/errors.ts\<close>): which entries replay, rerun or are skipped, and
  the abandon fold. \<open>Matching\<close> (\<open>journal/matching.ts\<close>): scopes, cursors, keys, aliases and
  consumption. \<open>ResolutionFold\<close> (\<open>journal/resolution.ts\<close>): first closing wins, live registration
  against reload. \<open>Serializable\<close> (\<open>journal/serializable.ts\<close>): what a journal value may be. \<open>Store\<close>
  (\<open>stores/inmemory.ts\<close>, \<open>stores/meta-lookup.ts\<close>, \<open>l0/spi/store.ts\<close>): the store contract as the
  locale \<open>journal_store\<close>, interpreted on the in-memory store. \<open>Replayer\<close> (\<open>journal/replayer.ts\<close>): the
  write path with its chain of appends, latching, flushing, sealing and strict mode.
  \<open>TerminationAccount\<close> (\<open>journal/termination.ts\<close>): the account, its variant and the replay fold.

  \<^bold>\<open>Effect lane.\<close> \<open>EffectTypes\<close> (\<open>effects/types.ts\<close>): the decisions and their reader. \<open>EffectFold\<close>
  (\<open>effects/fold.ts\<close>): the whole fold. \<open>EffectLane\<close>: its invariant; consumption is exact, machines
  stay sound, verdicts are final. \<open>EffectWriter\<close> (\<open>effects/writer.ts\<close>): every operation of the writer
  in a state-and-error style over an arbitrary store. \<open>LaneAppend\<close>: triples over lane operations, the
  store contract with other holders as the locale \<open>contended_log\<close> and its extension
  \<open>bounded_contention\<close>, both interpreted on the in-memory store of \<open>Store\<close>; appends happen at most
  once and land under bounded contention. \<open>LaneIntent\<close>: the licence behind a recorded intent.

  \<^bold>\<open>Admission.\<close> \<open>AdmissionAlgorithms\<close> (\<open>admission/algorithms.ts\<close>): fair-queue tags, sliding windows,
  token buckets, level keys, reservations. \<open>Admission\<close> (\<open>admission/memory.ts\<close>): the scheduler's state and
  every call, with the pump as a loop whose termination is proved. \<open>AdmissionSafety\<close>: the calls as
  a step relation over any interleaving and any clock, and the invariant every step keeps.
  \<open>AdmissionPump\<close>: capacity and exact semaphores, the exhaustive pump, and the emergency reserve that an
  ordinary check of a token bucket takes away.

  \<^bold>\<open>Budget.\<close> \<open>Pricing\<close> (\<open>model/pricing.ts\<close>): price rows with long-context tiers, prices, the output bound.
  \<open>Budget\<close> (\<open>engine/budget.ts\<close>): the account tree, admission of spawns, held reserves, in-flight exposure,
  the turn guard and live accounting, one definition per method. \<open>BudgetSafety\<close>: the tree's shape, the calls
  as a step relation and the ledger invariant. \<open>BudgetClaims\<close>: exact propagation of spend, exact
  admission, the call meter and the exposure of dispatches.

  \<^bold>\<open>Spawns.\<close> \<open>Lineage\<close> (\<open>journal/lineage.ts\<close>): approach tags and signatures, outcome classes and the index, whose
  attempt records are shared by three maps and therefore live in a store. \<open>LineageFold\<close>: valid addresses, growth,
  pinned counters, exact escalations and the normal forms of tags. \<open>SpawnAdmission\<close>
  (\<open>orchestrator/admission.ts\<close>): the controller every spawn passes, which joins scope paths, the lineage
  index, the termination account and the run budget. \<open>SpawnClaims\<close>: what a rejected and what an admitted spawn costs, and the quotas over a run.
  \<open>WireCapacity\<close> (the same file): armed rounds, the acceptance tail and the wire estimate, which agree.

  \<^bold>\<open>Plan.\<close> The adaptive plan, under \<open>src/packages/plan/src\<close>. \<open>PlanState\<close> (\<open>plan-state.ts\<close>, \<open>plan-hash.ts\<close>,
  \<open>task-spec.ts\<close>, \<open>cascadeOf\<close> of \<open>rebase.ts\<close>): nodes, the status machine, readiness, the cycle check, the cascade and
  the hash. \<open>PlanGraph\<close>: both graph algorithms are exact. \<open>PlanFold\<close> (\<open>plan-entries.ts\<close>): the payloads and the single
  applier. \<open>PlanRebase\<close> (\<open>rebase.ts\<close>): the conflict table and the revision, over hooks with a state of their own.
  \<open>PlanReplay\<close>: the outcomes of an evaluation replay to its state. \<open>PlanSafety\<close>: what every entry keeps.
  \<open>PlanClaims\<close>: the properties.

  \<^bold>\<open>Bounds and fuel.\<close> The walk to the root of the budget tree is bounded by the number of accounts, which
  every walk of a constructed tree stays within because a parent is older than its children. Other loops are structural recursions over the
  journal, the admission pump recurs on the number of queued tickets, and the one bounded loop, the writer's append,
  has the code's own eight tries. Positions
  and counters are natural numbers, so a position is always finite. Numbers that the code computes
  with are rationals where only comparison, addition and division by a positive number matter;
  \<open>JsNumber\<close> keeps infinities and not-a-number where usage reports can carry them.

  \<^bold>\<open>Arguments instead of code.\<close> The JSON Schema validator of resolutions, the hash function, prices,
  the clock and every store but the in-memory one are arguments. Message texts are kept only where
  they are journaled.

  \<^bold>\<open>Not modelled.\<close> The engine, its context and the agent loop (\<open>engine\<close>, \<open>runtime\<close>) drive providers
  and tools asynchronously around this kernel; the orchestrator is prompt text and validation of
  model output; provider adapters, transports, telemetry, the command line and the evaluation kits
  are input and output. The plan runner drives the plan asynchronously; of it only the entries it appends are
  modelled. The index of reusable branches and the checkpoint envelope (\<open>journal/reuse.ts\<close>,
  \<open>journal/checkpoint.ts\<close>) are decision logic like the parts modelled here; they reach the rebase as a hook only.
\<close>

end
